(* ===== verification/Prelude.thy ===== *)
theory Prelude
  imports Complex_Main "HOL-Library.AList" "HOL-Library.Product_Lexorder"
    "HOL-Library.Multiset" "HOL-Library.Char_ord" "HOL-Library.List_Lexorder"
begin

text \<open>
  Shared vocabulary of the redax model: exceptions as values, the Python slice and index
  operations, \<open>bisect\<close>, dictionaries as association lists in insertion order, the
  stable \<open>sorted\<close>, and the generic lemmas about them. Texts are \<open>string\<close>s (lists of
  characters, one per code point) or lists of any character type where no literal is
  needed; Python integers are \<open>int\<close>; Python floats (confidences, times) are \<open>rat\<close>,
  so comparisons are exact and rounding of averages is not modelled.
\<close>

section \<open>Exceptions as values\<close>

text \<open>
  An exception is represented by its class; the message texts are left out. The classes
  are those that the modelled code raises, catches or lets through.
\<close>

datatype exn =
  ValueError | TypeError | KeyError | IndexError | AttributeError | RuntimeError
  | OSError | FileNotFoundError | TimeoutError | MemoryError | RedisError
  | HTTPException nat | OpenError | PipelineUnavailableError | RateLimitUnavailable
  | PolicyUnavailableError | UnicodeError | CancelledError | OtherException

type_synonym 'a res = "exn + 'a"

text \<open>Python's subclass relation on these classes, as far as an \<open>except\<close> clause uses it.\<close>

definition is_runtime_error :: "exn \<Rightarrow> bool" where
  "is_runtime_error e \<longleftrightarrow>
     e \<in> {RuntimeError, OpenError, PipelineUnavailableError, RateLimitUnavailable,
          PolicyUnavailableError}"

definition is_os_error :: "exn \<Rightarrow> bool" where
  "is_os_error e \<longleftrightarrow> e \<in> {OSError, FileNotFoundError, TimeoutError}"

definition is_value_error :: "exn \<Rightarrow> bool" where
  "is_value_error e \<longleftrightarrow> e \<in> {ValueError, UnicodeError}"

definition is_Exception :: "exn \<Rightarrow> bool" where
  "is_Exception e \<longleftrightarrow> e \<noteq> CancelledError"

text \<open>\<open>TRANSIENT_EXC\<close> of \<open>app/errors.py\<close>.\<close>

definition TRANSIENT_EXC :: "exn \<Rightarrow> bool" where
  "TRANSIENT_EXC e \<longleftrightarrow>
     is_os_error e \<or> is_runtime_error e \<or> is_value_error e
     \<or> e \<in> {TypeError, KeyError, RedisError}"

lemmas exn_class_defs =
  is_runtime_error_def is_os_error_def is_value_error_def is_Exception_def TRANSIENT_EXC_def

section \<open>Slices and indexing\<close>

definition py_clamp :: "nat \<Rightarrow> int \<Rightarrow> int" where
  "py_clamp n i = (if i < 0 then max 0 (i + int n) else min i (int n))"

text \<open>\<open>xs[:b]\<close>, \<open>xs[a:]\<close> and \<open>xs[a:b]\<close>, with Python's treatment of negative and too large bounds.\<close>

definition py_upto :: "int \<Rightarrow> 'a list \<Rightarrow> 'a list" where
  "py_upto b xs = take (nat (py_clamp (length xs) b)) xs"

definition py_from :: "int \<Rightarrow> 'a list \<Rightarrow> 'a list" where
  "py_from a xs = drop (nat (py_clamp (length xs) a)) xs"

definition py_slice :: "int \<Rightarrow> int \<Rightarrow> 'a list \<Rightarrow> 'a list" where
  "py_slice a b xs =
     (let i = nat (py_clamp (length xs) a); j = nat (py_clamp (length xs) b)
      in take (j - i) (drop i xs))"

definition py_index :: "'a list \<Rightarrow> int \<Rightarrow> 'a res" where
  "py_index xs i =
     (if 0 \<le> i then (if i < int (length xs) then Inr (xs ! nat i) else Inl IndexError)
      else (if - i \<le> int (length xs) then Inr (xs ! nat (int (length xs) + i)) else Inl IndexError))"

lemma py_upto_nonneg: "0 \<le> b \<Longrightarrow> py_upto b xs = take (nat b) xs"
  by (simp add: py_upto_def py_clamp_def min_def)

lemma py_from_nonneg: "0 \<le> a \<Longrightarrow> py_from a xs = drop (nat a) xs"
  by (simp add: py_from_def py_clamp_def min_def)

lemma py_slice_in_range:
  "0 \<le> a \<Longrightarrow> a \<le> b \<Longrightarrow> b \<le> int (length xs) \<Longrightarrow>
   py_slice a b xs = take (nat (b - a)) (drop (nat a) xs)"
  by (simp add: py_slice_def py_clamp_def nat_diff_distrib Let_def)

lemma length_py_slice_in_range [simp]:
  "0 \<le> a \<Longrightarrow> a \<le> b \<Longrightarrow> b \<le> int (length xs) \<Longrightarrow> length (py_slice a b xs) = nat (b - a)"
  by (simp add: py_slice_in_range)

lemma py_slice_eqI:
  assumes "0 \<le> a" "a \<le> b" "b \<le> int (length xs)" "length ys = length xs"
    and "\<And>i. a \<le> int i \<Longrightarrow> int i < b \<Longrightarrow> xs ! i = ys ! i"
  shows "py_slice a b xs = py_slice a b ys"
proof (rule nth_equalityI)
  show "length (py_slice a b xs) = length (py_slice a b ys)" using assms by simp
  fix i assume "i < length (py_slice a b xs)"
  then have i: "i < nat (b - a)" using assms by simp
  with assms(1-3) have "nat a + i < length xs" by linarith
  with i assms show "py_slice a b xs ! i = py_slice a b ys ! i"
    by (simp add: py_slice_in_range)
qed

section \<open>Python's \<open>sorted\<close>\<close>

text \<open>
  \<open>sorted(xs, key=f)\<close> is the stable \<open>sort_key f xs\<close>; with \<open>reverse=True\<close> it is
  stable as well, so it sorts the reversed list and reverses the result.
\<close>

definition sorted_reverse :: "('a \<Rightarrow> 'k::linorder) \<Rightarrow> 'a list \<Rightarrow> 'a list" where
  "sorted_reverse f xs = rev (sort_key f (rev xs))"

lemma map_insort_key: "map f (insort_key (g \<circ> f) x xs) = insort_key g (f x) (map f xs)"
  by (induction xs) auto

lemma map_sort_key: "map f (sort_key (g \<circ> f) xs) = sort_key g (map f xs)"
  by (induction xs) (simp_all add: map_insort_key del: comp_apply flip: comp_def)

lemma sort_key_perm_eq:
  assumes "mset xs = mset ys" "inj_on f (set xs)"
  shows "sort_key f xs = sort_key f ys"
  by (rule sort_key_inj_key_eq) (use assms in simp_all)

lemma sorted_wrt_strict_mono_key:
  "sorted_wrt (\<lambda>a b. f a < f b) xs \<Longrightarrow> sorted (map (f :: 'a \<Rightarrow> 'k::linorder) xs)"
  by (induction xs) (auto simp: less_imp_le)

lemma sort_key_id_if_sorted: "sorted (map f xs) \<Longrightarrow> sort_key f xs = xs"
  by (induction xs) (auto simp: insort_is_Cons)

lemma sorted_wrt_insort_key_sym:
  "symp R \<Longrightarrow>
   sorted_wrt R (insort_key f x xs) \<longleftrightarrow> (\<forall>y \<in> set xs. R x y) \<and> sorted_wrt R xs"
  by (induction xs) (auto simp: set_insort_key dest: sympD)

lemma sorted_wrt_sort_key_sym: "symp R \<Longrightarrow> sorted_wrt R (sort_key f xs) \<longleftrightarrow> sorted_wrt R xs"
  by (induction xs) (simp_all add: sorted_wrt_insort_key_sym)

section \<open>\<open>bisect.bisect_right\<close>\<close>

text \<open>The loop of the standard library's \<open>bisect_right\<close> on \<open>a[lo:hi]\<close>.\<close>

function bisect_loop :: "'a::linorder list \<Rightarrow> 'a \<Rightarrow> nat \<Rightarrow> nat \<Rightarrow> nat" where
  "bisect_loop a x lo hi =
     (if lo < hi then
        (let mid = (lo + hi) div 2
         in if x < a ! mid then bisect_loop a x lo mid else bisect_loop a x (mid + 1) hi)
      else lo)"
  by pat_completeness auto
termination
  by (relation "measure (\<lambda>(a, x, lo, hi). hi - lo)") auto

declare bisect_loop.simps [simp del]

definition bisect_right :: "'a::linorder list \<Rightarrow> 'a \<Rightarrow> nat" where
  "bisect_right a x = bisect_loop a x 0 (length a)"

lemma bisect_loop_bounds:
  assumes "sorted a" "hi \<le> length a" "lo \<le> hi"
    and "\<And>i. i < lo \<Longrightarrow> a ! i \<le> x" "\<And>i. hi \<le> i \<Longrightarrow> i < length a \<Longrightarrow> x < a ! i"
  shows "bisect_loop a x lo hi \<le> length a
    \<and> (\<forall>i < bisect_loop a x lo hi. a ! i \<le> x)
    \<and> (\<forall>i. bisect_loop a x lo hi \<le> i \<longrightarrow> i < length a \<longrightarrow> x < a ! i)"
  using assms
proof (induction a x lo hi rule: bisect_loop.induct)
  case (1 a x lo hi)
  show ?case
  proof (cases "lo < hi")
    case False
    then have "bisect_loop a x lo hi = lo" by (simp add: bisect_loop.simps [of a x lo hi])
    with False "1.prems" show ?thesis by auto
  next
    case lohi: True
    let ?mid = "(lo + hi) div 2"
    have mid: "lo \<le> ?mid" "?mid < hi" using lohi by auto
    show ?thesis
    proof (cases "x < a ! ?mid")
      case True
      have "x < a ! i" if "?mid \<le> i" "i < length a" for i
        using True that sorted_nth_mono [OF "1.prems"(1) that] by simp
      with "1.IH"(1) [OF lohi refl True] "1.prems" mid lohi True show ?thesis
        by (simp add: bisect_loop.simps [of a x lo hi] Let_def)
    next
      case False
      have "a ! i \<le> x" if "i < ?mid + 1" for i
      proof -
        have "a ! i \<le> a ! ?mid"
          using that mid "1.prems"(1,2) by (intro sorted_nth_mono) auto
        with False show ?thesis by simp
      qed
      with "1.IH"(2) [OF lohi refl False] "1.prems" mid lohi False show ?thesis
        by (simp add: bisect_loop.simps [of a x lo hi] Let_def)
    qed
  qed
qed

text \<open>On a sorted list the search returns the number of elements not above \<open>x\<close>.\<close>

lemma bisect_right_eq_takeWhile:
  assumes "sorted a"
  shows "bisect_right a x = length (takeWhile (\<lambda>y. y \<le> x) a)"
proof -
  let ?k = "bisect_right a x"
  have k: "?k \<le> length a" "\<forall>i < ?k. a ! i \<le> x" "\<forall>i. ?k \<le> i \<longrightarrow> i < length a \<longrightarrow> x < a ! i"
    using bisect_loop_bounds [OF assms, of "length a" 0 x] by (auto simp: bisect_right_def)
  have "takeWhile (\<lambda>y. y \<le> x) a = take ?k a"
    using k by (intro takeWhile_eq_take_P_nth) (auto simp: not_le)
  with k(1) show ?thesis by simp
qed

section \<open>Characters and strings\<close>

text \<open>
  The character tests of \<open>re\<close> and \<open>str\<close> on the code points that \<open>char\<close> holds
  (0 to 255): decimal digits, the \<open>\w\<close> class, white space, and \<open>str.upper\<close>, which
  leaves the micro sign and y with diaeresis unchanged here because their upper case lies
  beyond 255.
\<close>

abbreviation code :: "char \<Rightarrow> nat" where
  "code c \<equiv> of_char c"

definition is_digit :: "char \<Rightarrow> bool" where
  "is_digit c \<longleftrightarrow> 48 \<le> code c \<and> code c \<le> 57"

definition is_upper :: "char \<Rightarrow> bool" where
  "is_upper c \<longleftrightarrow> 65 \<le> code c \<and> code c \<le> 90"

definition is_lower :: "char \<Rightarrow> bool" where
  "is_lower c \<longleftrightarrow> 97 \<le> code c \<and> code c \<le> 122"

definition is_letter :: "char \<Rightarrow> bool" where
  "is_letter c \<longleftrightarrow> is_upper c \<or> is_lower c"

definition is_word :: "char \<Rightarrow> bool" where
  "is_word c \<longleftrightarrow> is_letter c \<or> is_digit c
     \<or> code c \<in> {95, 170, 178, 179, 181, 185, 186, 188, 189, 190}
     \<or> (192 \<le> code c \<and> code c \<noteq> 215 \<and> code c \<noteq> 247)"

definition is_space :: "char \<Rightarrow> bool" where
  "is_space c \<longleftrightarrow> 9 \<le> code c \<and> code c \<le> 13 \<or> 28 \<le> code c \<and> code c \<le> 32
     \<or> code c \<in> {133, 160}"

definition upper_char :: "char \<Rightarrow> string" where
  "upper_char c =
     (if is_lower c \<or> (224 \<le> code c \<and> code c \<le> 254 \<and> code c \<noteq> 247)
      then [char_of (code c - 32)]
      else if code c = 223 then ''SS'' else [c])"

definition lower_char :: "char \<Rightarrow> char" where
  "lower_char c =
     (if is_upper c \<or> (192 \<le> code c \<and> code c \<le> 222 \<and> code c \<noteq> 215)
      then char_of (code c + 32) else c)"

definition py_upper :: "string \<Rightarrow> string" where
  "py_upper s = concat (map upper_char s)"

definition py_lower :: "string \<Rightarrow> string" where
  "py_lower s = map lower_char s"

definition py_strip :: "string \<Rightarrow> string" where
  "py_strip s = rev (dropWhile is_space (rev (dropWhile is_space s)))"

definition digit_val :: "char \<Rightarrow> nat" where
  "digit_val c = code c - 48"

lemmas char_class_defs =
  is_digit_def is_upper_def is_lower_def is_letter_def is_word_def is_space_def

section \<open>Dictionaries\<close>

text \<open>
  A dictionary is an association list in insertion order: \<open>d[k] = v\<close> is
  \<open>AList.update k v d\<close> (in place when the key is there, else appended) and \<open>d.get(k)\<close>
  is \<open>map_of d k\<close>.
\<close>

definition dict_get :: "('k \<times> 'v) list \<Rightarrow> 'k \<Rightarrow> 'v \<Rightarrow> 'v" where
  "dict_get d k v = (case map_of d k of None \<Rightarrow> v | Some w \<Rightarrow> w)"

definition dict_update :: "('k \<times> 'v) list \<Rightarrow> ('k \<times> 'v) list \<Rightarrow> ('k \<times> 'v) list" where
  "dict_update d e = foldl (\<lambda>acc (k, v). AList.update k v acc) d e"

lemma map_of_update [simp]: "map_of (AList.update k v d) = (map_of d)(k \<mapsto> v)"
  by (simp add: update_conv')

section \<open>Results\<close>

fun bind_res :: "'a res \<Rightarrow> ('a \<Rightarrow> 'b res) \<Rightarrow> 'b res" where
  "bind_res (Inl e) f = Inl e"
| "bind_res (Inr x) f = f x"

fun map_res :: "('a \<Rightarrow> 'b) \<Rightarrow> 'a res \<Rightarrow> 'b res" where
  "map_res f (Inl e) = Inl e"
| "map_res f (Inr x) = Inr (f x)"

lemma bind_res_Inr_iff: "bind_res r f = Inr y \<longleftrightarrow> (\<exists>x. r = Inr x \<and> f x = Inr y)"
  by (cases r) auto

lemma bind_res_Inl_iff:
  "bind_res r f = Inl e \<longleftrightarrow> r = Inl e \<or> (\<exists>x. r = Inr x \<and> f x = Inl e)"
  by (cases r) auto

lemma map_res_Inl_iff: "map_res f r = Inl e \<longleftrightarrow> r = Inl e"
  by (cases r) auto

lemma map_res_Inr_iff: "map_res f r = Inr y \<longleftrightarrow> (\<exists>x. r = Inr x \<and> y = f x)"
  by (cases r) auto

end
