(* ===== verification/Spans.thy ===== *)
theory Spans
  imports Prelude
begin

text \<open>
  Spans and the substitution core: \<open>Span\<close> of \<open>app/inference/detector.py\<close>,
  \<open>validate_offsets\<close> of \<open>app/redaction/offsets.py\<close>, and \<open>apply_spans\<close>,
  \<open>inverse_position_remap\<close> and \<open>dedupe_overlaps\<close> of \<open>app/redaction/apply.py\<close>.
  The lemmas show that validation keeps exactly the in-range spans, that the right-to-left
  substitution of disjoint spans is the left-to-right splice, that its result does not
  depend on the covered characters, that the position map sends every position of the
  result to its origin, and that overlap resolution returns a sorted, disjoint sublist.
\<close>

section \<open>Spans\<close>

record span =
  s_start :: int
  s_end :: int
  s_type :: string
  s_conf :: rat

section \<open>\<open>validate_offsets\<close>\<close>

fun validate_offsets :: "'a list \<Rightarrow> span list \<Rightarrow> span list" where
  "validate_offsets text [] = []"
| "validate_offsets text (s # spans) =
     (if s_start s < 0 \<or> s_end s \<le> s_start s \<or> s_end s > int (length text)
      then validate_offsets text spans
      else if py_slice (s_start s) (s_end s) text = [] \<and> s_end s - s_start s > 0
      then validate_offsets text spans
      else s # validate_offsets text spans)"

text \<open>A valid span: non-empty and inside the text.\<close>

definition in_range :: "nat \<Rightarrow> span \<Rightarrow> bool" where
  "in_range n s \<longleftrightarrow> 0 \<le> s_start s \<and> s_start s < s_end s \<and> s_end s \<le> int n"

lemma in_range_slice_nonempty:
  "in_range (length text) s \<Longrightarrow> py_slice (s_start s) (s_end s) text \<noteq> []"
  by (auto simp: in_range_def py_slice_in_range)

lemma validate_offsets_filter:
  "validate_offsets text spans = filter (in_range (length text)) spans"
proof (induction spans)
  case (Cons s ss)
  have "py_slice (s_start s) (s_end s) text \<noteq> []" if "in_range (length text) s"
    using that by (rule in_range_slice_nonempty)
  with Cons show ?case by (auto simp: in_range_def)
qed simp

section \<open>\<open>apply_spans\<close>\<close>

definition apply_step :: "span list \<Rightarrow> 'a list list \<Rightarrow> 'a list \<Rightarrow> nat \<Rightarrow> 'a list" where
  "apply_step spans replacement out i =
     py_upto (s_start (spans ! i)) out @ replacement ! i @ py_from (s_end (spans ! i)) out"

definition apply_spans :: "'a list \<Rightarrow> span list \<Rightarrow> 'a list list \<Rightarrow> 'a list res" where
  "apply_spans text spans replacement =
     (if spans = [] then Inr text
      else if length replacement \<noteq> length spans then Inl ValueError
      else
        (let ordered = sorted_reverse (\<lambda>i. s_start (spans ! i)) [0..<length spans]
         in Inr (foldl (apply_step spans replacement) text ordered)))"

text \<open>
  The specification: walk the spans from left to right, keep the text between them and
  put each replacement in place of its span.
\<close>

fun splice_spans :: "'a list \<Rightarrow> int \<Rightarrow> (span \<times> 'a list) list \<Rightarrow> 'a list" where
  "splice_spans text pos [] = py_from pos text"
| "splice_spans text pos ((s, r) # ps) =
     py_slice pos (s_start s) text @ r @ splice_spans text (s_end s) ps"

definition disjoint_spans :: "span \<Rightarrow> span \<Rightarrow> bool" where
  "disjoint_spans a b \<longleftrightarrow> s_end a \<le> s_start b \<or> s_end b \<le> s_start a"

definition valid_spans :: "nat \<Rightarrow> span list \<Rightarrow> bool" where
  "valid_spans n spans \<longleftrightarrow> list_all (in_range n) spans \<and> sorted_wrt disjoint_spans spans"

text \<open>Pairs in document order: each span ends before the next begins.\<close>

definition ordered_pairs :: "nat \<Rightarrow> int \<Rightarrow> (span \<times> 'a list) list \<Rightarrow> bool" where
  "ordered_pairs n pos ps \<longleftrightarrow>
     (\<forall>(s, r) \<in> set ps. in_range n s \<and> pos \<le> s_start s)
     \<and> sorted_wrt (\<lambda>p q. s_end (fst p) \<le> s_start (fst q)) ps"

lemma ordered_pairs_Cons:
  "ordered_pairs n pos ((s, r) # ps) \<longleftrightarrow>
     in_range n s \<and> pos \<le> s_start s \<and> ordered_pairs n (s_end s) ps"
  by (force simp: ordered_pairs_def in_range_def)

lemma ordered_pairs_mono: "ordered_pairs n pos ps \<Longrightarrow> pos' \<le> pos \<Longrightarrow> ordered_pairs n pos' ps"
  by (fastforce simp: ordered_pairs_def)

fun put :: "span \<times> 'a list \<Rightarrow> 'a list \<Rightarrow> 'a list" where
  "put (s, r) out = py_upto (s_start s) out @ r @ py_from (s_end s) out"

lemma foldr_put_splice:
  assumes "ordered_pairs (length text) pos ps" "0 \<le> pos" "pos \<le> int (length text)"
  shows "foldr put ps text = take (nat pos) text @ splice_spans text pos ps"
  using assms
proof (induction ps arbitrary: pos)
  case Nil
  then show ?case by (simp add: py_from_nonneg)
next
  case (Cons p ps)
  obtain s r where p: "p = (s, r)" by force
  from Cons.prems p have s: "in_range (length text) s" "pos \<le> s_start s"
    and ps: "ordered_pairs (length text) (s_end s) ps"
    by (simp_all add: ordered_pairs_Cons)
  have se: "0 \<le> s_start s" "s_start s < s_end s" "s_end s \<le> int (length text)"
    using s by (simp_all add: in_range_def)
  have IH: "foldr put ps text = take (nat (s_end s)) text @ splice_spans text (s_end s) ps"
    using Cons.IH [OF ps] se by simp
  have "take (nat (s_start s)) text
      = take (nat pos) text @ take (nat (s_start s - pos)) (drop (nat pos) text)"
  proof -
    have "nat (s_start s) = nat pos + nat (s_start s - pos)" using s Cons.prems by simp
    then show ?thesis by (simp add: take_add)
  qed
  with IH se s Cons.prems show ?case
    by (simp add: p py_upto_nonneg py_from_nonneg py_slice_in_range min_def)
qed

lemma sorted_pairs_ordered:
  assumes "list_all (in_range n \<circ> fst) ps" "sorted_wrt (\<lambda>p q. disjoint_spans (fst p) (fst q)) ps"
  shows "ordered_pairs n 0 (sort_key (s_start \<circ> fst) ps)"
proof -
  let ?qs = "sort_key (s_start \<circ> fst) ps"
  have sorted: "sorted_wrt (\<lambda>p q. s_start (fst p) \<le> s_start (fst q)) ?qs"
    using sorted_sort_key [of "s_start \<circ> fst" ps] by (simp add: sorted_wrt_map)
  have "symp (\<lambda>p q. disjoint_spans (fst p) (fst q))"
    by (auto simp: symp_def disjoint_spans_def)
  then have disj: "sorted_wrt (\<lambda>p q. disjoint_spans (fst p) (fst q)) ?qs"
    using assms(2) by (rule sorted_wrt_sort_key_sym [THEN iffD2])
  have rng: "\<forall>p \<in> set ?qs. in_range n (fst p)" using assms(1) by (auto simp: list_all_iff)
  have "sorted_wrt (\<lambda>p q. s_end (fst p) \<le> s_start (fst q)) ?qs"
    unfolding sorted_wrt_iff_nth_less
  proof (intro allI impI)
    fix i j assume ij: "i < j" "j < length ?qs"
    have "in_range n (fst (?qs ! i))" "in_range n (fst (?qs ! j))"
      using rng ij nth_mem [of i ?qs] nth_mem [of j ?qs] by (simp_all del: set_sort)
    moreover have "s_start (fst (?qs ! i)) \<le> s_start (fst (?qs ! j))"
      using sorted ij by (simp add: sorted_wrt_iff_nth_less)
    moreover have "disjoint_spans (fst (?qs ! i)) (fst (?qs ! j))" using disj ij by (simp add: sorted_wrt_iff_nth_less)
    ultimately show "s_end (fst (?qs ! i)) \<le> s_start (fst (?qs ! j))"
      by (auto simp: disjoint_spans_def in_range_def)
  qed
  with rng show ?thesis by (auto simp: ordered_pairs_def in_range_def)
qed

lemma valid_spans_inj_start:
  assumes "valid_spans n spans"
  shows "inj_on (\<lambda>i. s_start (spans ! i)) {..<length spans}"
proof (rule inj_onI)
  fix i j assume ij: "i \<in> {..<length spans}" "j \<in> {..<length spans}"
    and eq: "s_start (spans ! i) = s_start (spans ! j)"
  have "\<not> disjoint_spans (spans ! i) (spans ! j)" "\<not> disjoint_spans (spans ! j) (spans ! i)"
    using assms ij eq by (auto simp: valid_spans_def disjoint_spans_def in_range_def list_all_length)
  with assms ij show "i = j"
    unfolding valid_spans_def sorted_wrt_iff_nth_less
    by (metis lessThan_iff linorder_neqE_nat)
qed

text \<open>
  The loop of \<open>apply_spans\<close> over indices, as a fold of \<open>put\<close> over the sorted pairs.
\<close>

lemma foldl_apply_step_put:
  assumes "length replacement = length spans" "set js \<subseteq> {..<length spans}"
  shows "foldl (apply_step spans replacement) t js
       = foldr put (rev (map (\<lambda>i. (spans ! i, replacement ! i)) js)) t"
  using assms(2) by (induction js arbitrary: t) (auto simp: apply_step_def foldr_conv_foldl)

lemma apply_spans_eq_splice:
  assumes "valid_spans (length text) spans" "length replacement = length spans"
  shows "apply_spans text spans replacement
       = Inr (splice_spans text 0 (sort_key (s_start \<circ> fst) (zip spans replacement)))"
proof -
  let ?n = "length spans"
  let ?pair = "\<lambda>i. (spans ! i, replacement ! i)"
  let ?f = "\<lambda>i. s_start (spans ! i)"
  let ?ps = "sort_key (s_start \<circ> fst) (zip spans replacement)"
  have zip: "zip spans replacement = map ?pair [0..<?n]"
    by (rule nth_equalityI) (simp_all add: assms(2))
  have "inj_on ?f (set (rev [0..<?n]))"
    using valid_spans_inj_start [OF assms(1)] unfolding set_rev set_upt atLeast0LessThan .
  then have "sort_key ?f (rev [0..<?n]) = sort_key ?f [0..<?n]"
    by (rule sort_key_perm_eq [rotated]) simp
  moreover have "map ?pair (sort_key ?f [0..<?n]) = ?ps"
    using map_sort_key [of ?pair "s_start \<circ> fst" "[0..<?n]"]
    unfolding zip comp_def fst_conv .
  ultimately have "foldl (apply_step spans replacement) text (sorted_reverse ?f [0..<?n])
      = foldr put ?ps text"
    using assms(2) by (simp add: sorted_reverse_def foldl_apply_step_put rev_map atLeast0LessThan)
  moreover have "ordered_pairs (length text) 0 ?ps"
  proof (rule sorted_pairs_ordered)
    show "list_all (in_range (length text) \<circ> fst) (zip spans replacement)"
      using assms by (auto simp: valid_spans_def list_all_length)
    show "sorted_wrt (\<lambda>p q. disjoint_spans (fst p) (fst q)) (zip spans replacement)"
      using assms by (auto simp: valid_spans_def sorted_wrt_iff_nth_less)
  qed
  ultimately show ?thesis
    using assms(2) foldr_put_splice [of "text" 0 ?ps]
    by (cases "spans = []") (simp_all add: apply_spans_def py_from_nonneg)
qed

text \<open>Positions inside some span; the rest of the text is kept.\<close>

definition covered :: "span list \<Rightarrow> nat \<Rightarrow> bool" where
  "covered spans i \<longleftrightarrow> (\<exists>s \<in> set spans. s_start s \<le> int i \<and> int i < s_end s)"

lemma splice_spans_cong:
  assumes "ordered_pairs (length t1) pos ps" "0 \<le> pos" "pos \<le> int (length t1)"
    and "length t2 = length t1"
    and "\<And>i. pos \<le> int i \<Longrightarrow> i < length t1 \<Longrightarrow> \<not> covered (map fst ps) i \<Longrightarrow> t1 ! i = t2 ! i"
  shows "splice_spans t1 pos ps = splice_spans t2 pos ps"
  using assms
proof (induction ps arbitrary: pos)
  case Nil
  have "drop (nat pos) t1 = drop (nat pos) t2"
    using Nil by (intro nth_equalityI) (auto simp: covered_def)
  with Nil show ?case by (simp add: py_from_nonneg)
next
  case (Cons p ps)
  obtain s r where p: "p = (s, r)" by force
  from Cons.prems(1) p have s: "in_range (length t1) s" "pos \<le> s_start s"
    and ps: "ordered_pairs (length t1) (s_end s) ps"
    by (simp_all add: ordered_pairs_Cons)
  have uncov: "\<not> covered (map fst (p # ps)) i" if "pos \<le> int i" "int i < s_start s" for i
    using that ps s by (fastforce simp: covered_def p ordered_pairs_def in_range_def)
  have "py_slice pos (s_start s) t1 = py_slice pos (s_start s) t2"
    using s Cons.prems uncov by (intro py_slice_eqI) (auto simp: in_range_def)
  moreover have "splice_spans t1 (s_end s) ps = splice_spans t2 (s_end s) ps"
  proof (rule Cons.IH [OF ps])
    show "t1 ! i = t2 ! i"
      if "s_end s \<le> int i" "i < length t1" "\<not> covered (map fst ps) i" for i
    proof (rule Cons.prems(5))
      show "\<not> covered (map fst (p # ps)) i" using that by (auto simp: covered_def p)
    qed (use that s Cons.prems(2) in \<open>auto simp: in_range_def\<close>)
  qed (use s Cons.prems in \<open>auto simp: in_range_def\<close>)
  ultimately show ?case by (simp add: p)
qed

lemma covered_map_fst_sort:
  "length rs = length spans \<Longrightarrow>
   covered (map fst (sort_key f (zip spans rs))) i \<longleftrightarrow> covered spans i"
proof -
  assume "length rs = length spans"
  then have "set (map fst (sort_key f (zip spans rs))) = set spans"
    by (metis map_fst_zip set_map set_sort)
  then show ?thesis by (simp only: covered_def)
qed

section \<open>\<open>inverse_position_remap\<close>\<close>

text \<open>A segment is \<open>(new_start, old_start, length, replaced)\<close>, as in the code.\<close>

type_synonym segment = "int \<times> int \<times> int \<times> bool"

fun remap_segments :: "int \<Rightarrow> int \<Rightarrow> int \<Rightarrow> (span \<times> 'a list) list \<Rightarrow> segment list" where
  "remap_segments text_len new_pos prev [] =
     (if prev < text_len then [(new_pos, prev, text_len - prev, False)] else [])"
| "remap_segments text_len new_pos prev ((s, r) # ordered) =
     (let kept = (if s_start s > prev then [(new_pos, prev, s_start s - prev, False)] else []);
          new_pos' = (if s_start s > prev then new_pos + (s_start s - prev) else new_pos)
      in kept @ (new_pos', s_start s, int (length r), True)
         # remap_segments text_len (new_pos' + int (length r)) (s_end s) ordered)"

definition remap :: "segment list \<Rightarrow> int \<Rightarrow> int res" where
  "remap segments position =
     (if position < 0 then Inr 0
      else
        (let index = int (bisect_right (map fst segments) position) - 1
         in case py_index segments index of
              Inl e \<Rightarrow> Inl e
            | Inr (new_start, old_start, len, replaced) \<Rightarrow>
                if replaced then Inr old_start else Inr (old_start + (position - new_start))))"

definition inverse_position_remap ::
  "'a list \<Rightarrow> span list \<Rightarrow> 'a list list \<Rightarrow> (int \<Rightarrow> int res) res" where
  "inverse_position_remap text spans replacements =
     (if length replacements \<noteq> length spans then Inl ValueError
      else
        (let ordered = sort_key (s_start \<circ> fst) (zip spans replacements)
         in Inr (remap (remap_segments (int (length text)) 0 0 ordered))))"

lemma remap_segments_first:
  assumes "ordered_pairs (length t) prev ps" "0 \<le> prev" "prev \<le> int (length t)"
    and "splice_spans t prev ps \<noteq> []"
  shows "\<exists>x rest. remap_segments (int (length t)) np prev ps = (np, x) # rest"
  using assms
  by (cases "(int (length t), np, prev, ps)" rule: remap_segments.cases)
    (auto simp: py_from_nonneg Let_def ordered_pairs_Cons)

lemma remap_segments_starts:
  assumes "ordered_pairs n prev ps" "seg \<in> set (remap_segments (int n) np prev ps)"
  shows "np \<le> fst seg"
  using assms
proof (induction "int n" np prev ps rule: remap_segments.induct)
  case (1 np prev)
  then show ?case by (auto split: if_splits)
next
  case (2 np prev s r ps)
  let ?np' = "if s_start s > prev then np + (s_start s - prev) else np"
  from 2(2) have ps: "ordered_pairs n (s_end s) ps" by (simp add: ordered_pairs_Cons)
  from 2(3) consider "fst seg = np \<or> fst seg = ?np'"
    | "seg \<in> set (remap_segments (int n) (?np' + int (length r)) (s_end s) ps)"
    by (auto simp: Let_def split: if_splits)
  then show ?case
  proof cases
    case 1
    then show ?thesis by (auto split: if_splits)
  next
    case 2
    from "2.hyps" [OF refl refl ps] 2 have "?np' + int (length r) \<le> fst seg" by simp
    then show ?thesis by (auto split: if_splits)
  qed
qed

lemma remap_segments_sorted:
  assumes "ordered_pairs n prev ps"
  shows "sorted (map fst (remap_segments (int n) np prev ps))"
  using assms
proof (induction "int n" np prev ps rule: remap_segments.induct)
  case (2 np prev s r ps)
  from 2(2) have ps: "ordered_pairs n (s_end s) ps" by (simp add: ordered_pairs_Cons)
  let ?np' = "if s_start s > prev then np + (s_start s - prev) else np"
  let ?rest = "remap_segments (int n) (?np' + int (length r)) (s_end s) ps"
  have "sorted (map fst ?rest)" using "2.hyps" [OF refl refl ps] by simp
  moreover have "\<forall>seg \<in> set ?rest. ?np' + int (length r) \<le> fst seg"
    using remap_segments_starts [OF ps] by blast
  ultimately show ?case by (fastforce simp: Let_def)
qed auto

text \<open>The segment that the binary search selects: the last one that starts at or before the position.\<close>

definition seg_at :: "segment list \<Rightarrow> int \<Rightarrow> segment" where
  "seg_at segs p = last (takeWhile (\<lambda>seg. fst seg \<le> p) segs)"

fun seg_origin :: "segment \<Rightarrow> int \<Rightarrow> int" where
  "seg_origin (new_start, old_start, len, replaced) p =
     (if replaced then old_start else old_start + (p - new_start))"

lemma remap_eq_seg_origin:
  assumes "sorted (map fst segs)" "segs \<noteq> []" "fst (hd segs) \<le> p" "0 \<le> p"
  shows "remap segs p = Inr (seg_origin (seg_at segs p) p)"
proof -
  let ?tw = "takeWhile (\<lambda>seg. fst seg \<le> p) segs"
  have len: "bisect_right (map fst segs) p = length ?tw"
    using bisect_right_eq_takeWhile [OF assms(1), of p] by (simp add: takeWhile_map comp_def)
  have ne: "?tw \<noteq> []" using assms(2,3) by (cases segs) auto
  have le: "length ?tw \<le> length segs" by (rule length_takeWhile_le)
  have "segs ! (length ?tw - 1) = ?tw ! (length ?tw - 1)"
    using ne by (intro takeWhile_nth [symmetric]) (simp add: length_greater_0_conv [symmetric] del: length_greater_0_conv)
  then have last: "segs ! (length ?tw - 1) = seg_at segs p"
    using ne by (simp add: seg_at_def last_conv_nth)
  have idx: "py_index segs (int (length ?tw) - 1) = Inr (seg_at segs p)"
  proof -
    have "0 < length ?tw" using ne by simp
    then have "0 \<le> int (length ?tw) - 1" "nat (int (length ?tw) - 1) = length ?tw - 1"
      "int (length ?tw) - 1 < int (length segs)" using le by linarith+
    with last show ?thesis by (simp add: py_index_def Let_def)
  qed
  show ?thesis
    using assms(4) idx by (cases "seg_at segs p") (simp add: remap_def len Let_def)
qed

lemma seg_at_skip:
  assumes "fst (last pre) \<le> p" "pre \<noteq> []" "\<forall>seg \<in> set pre. fst seg \<le> p"
  shows "seg_at (pre @ rest) p
       = (if takeWhile (\<lambda>seg. fst seg \<le> p) rest = [] then last pre else seg_at rest p)"
  using assms by (simp add: seg_at_def takeWhile_append2)

lemma seg_at_hit:
  assumes "fst x \<le> p" "\<forall>seg \<in> set pre. fst seg \<le> p"
    and "takeWhile (\<lambda>seg. fst seg \<le> p) rest = []"
  shows "seg_at (pre @ [x] @ rest) p = x"
  using assms by (simp add: seg_at_def takeWhile_append2)

text \<open>
  What the map promises for one position \<open>p\<close> of the result: either the character there
  came from a replacement, and the position maps to the start of its span, or it is the
  character of the original text at the mapped position, which no span covers.
\<close>

definition origin_ok :: "'a list \<Rightarrow> (span \<times> 'a list) list \<Rightarrow> 'a \<Rightarrow> int \<Rightarrow> bool" where
  "origin_ok t ps c q \<longleftrightarrow>
     0 \<le> q \<and> q < int (length t)
     \<and> ((\<exists>(s, r) \<in> set ps. q = s_start s \<and> c \<in> set r)
        \<or> (\<not> covered (map fst ps) (nat q) \<and> c = t ! nat q))"

lemma origin_ok_Cons:
  assumes "origin_ok t ps c q" "s_end s \<le> q \<or> (\<exists>(s', r) \<in> set ps. q = s_start s' \<and> c \<in> set r)"
  shows "origin_ok t ((s, r) # ps) c q"
  using assms by (auto simp: origin_ok_def covered_def)

lemma remap_segments_Cons:
  assumes "prev \<le> s_start s"
  shows "remap_segments n np prev ((s, r) # ps)
       = (if prev < s_start s then [(np, prev, s_start s - prev, False)] else [])
         @ [(np + (s_start s - prev), s_start s, int (length r), True)]
         @ remap_segments n (np + (s_start s - prev) + int (length r)) (s_end s) ps"
  using assms by (simp add: Let_def)

definition seg_pos :: "'a list \<Rightarrow> int \<Rightarrow> int \<Rightarrow> (span \<times> 'a list) list \<Rightarrow> int \<Rightarrow> int" where
  "seg_pos t np prev ps p =
     seg_origin (seg_at (remap_segments (int (length t)) np prev ps) p) p"

text \<open>The map of a text whose first replaced span is \<open>s\<close>, in the three places a position can be.\<close>

lemma seg_pos_Cons:
  assumes "ordered_pairs (length t) prev ((s, r) # ps)" "0 \<le> prev" "np \<le> p"
    and "p < np + int (length (splice_spans t prev ((s, r) # ps)))"
    and "np1 = np + (s_start s - prev)" "np2 = np1 + int (length r)"
  shows "seg_pos t np prev ((s, r) # ps) p =
     (if p < np1 then prev + (p - np) else if p < np2 then s_start s
      else seg_pos t np2 (s_end s) ps p)"
proof -
  from assms(1) have s: "in_range (length t) s" "prev \<le> s_start s"
    and ps: "ordered_pairs (length t) (s_end s) ps" by (simp_all add: ordered_pairs_Cons)
  then have se: "0 \<le> s_start s" "s_start s < s_end s" "s_end s \<le> int (length t)"
    by (auto simp: in_range_def)
  let ?g = "s_start s - prev" and ?rest = "remap_segments (int (length t)) np2 (s_end s) ps"
  let ?segs = "remap_segments (int (length t)) np prev ((s, r) # ps)"
  have segs: "?segs = (if prev < s_start s then [(np, prev, ?g, False)] else [])
         @ [(np1, s_start s, int (length r), True)] @ ?rest"
    unfolding assms(5,6) by (rule remap_segments_Cons [OF s(2)])
  have rest_starts: "\<forall>seg \<in> set ?rest. np2 \<le> fst seg"
    using remap_segments_starts [OF ps] by blast
  consider (A) "p < np1" | (B) "np1 \<le> p" "p < np2" | (C) "np2 \<le> p" by linarith
  then show ?thesis
  proof cases
    case A
    then have "seg_at ?segs p = (np, prev, ?g, False)"
      using assms(3,5) unfolding seg_at_def segs by simp
    with A show ?thesis by (simp add: seg_pos_def)
  next
    case B
    have "takeWhile (\<lambda>seg. fst seg \<le> p) ?rest = []"
      using rest_starts B by (cases ?rest) fastforce+
    then have "seg_at ?segs p = (np1, s_start s, int (length r), True)"
      unfolding segs by (intro seg_at_hit) (use B s(2) assms(3) in auto)
    with B show ?thesis by (simp add: seg_pos_def)
  next
    case C
    have "p < np2 + int (length (splice_spans t (s_end s) ps))"
      using assms(4-6) s(2) se assms(2) by simp
    then have tl: "splice_spans t (s_end s) ps \<noteq> []" using C by auto
    from remap_segments_first [OF ps _ _ tl] se obtain x rest where first: "?rest = (np2, x) # rest"
      by fastforce
    have "np1 \<le> p" using C assms(6) by linarith
    then have "seg_at ?segs p = seg_at ?rest p"
      using C assms(3) unfolding segs append_assoc [symmetric]
      by (subst seg_at_skip) (auto simp: first)
    with C assms(5,6) show ?thesis by (simp add: seg_pos_def)
  qed
qed

lemma seg_at_origin:
  assumes "ordered_pairs (length t) prev ps" "0 \<le> prev" "prev \<le> int (length t)"
    and "np \<le> p" "p < np + int (length (splice_spans t prev ps))"
  shows "prev \<le> seg_pos t np prev ps p
    \<and> origin_ok t ps (splice_spans t prev ps ! nat (p - np)) (seg_pos t np prev ps p)"
  using assms
proof (induction ps arbitrary: np prev)
  case Nil
  then show ?case
    by (auto simp: seg_pos_def seg_at_def origin_ok_def covered_def py_from_nonneg nat_add_distrib
        nat_diff_distrib split: if_splits)
next
  case (Cons pr ps)
  obtain s r where pr: "pr = (s, r)" by force
  from Cons.prems(1) have s: "in_range (length t) s" "prev \<le> s_start s"
    and ps: "ordered_pairs (length t) (s_end s) ps" by (simp_all add: pr ordered_pairs_Cons)
  then have se: "0 \<le> s_start s" "s_start s < s_end s" "s_end s \<le> int (length t)"
    by (auto simp: in_range_def)
  let ?g = "s_start s - prev" and ?np2 = "np + (s_start s - prev) + int (length r)"
  let ?tail = "splice_spans t (s_end s) ps"
  note pos = seg_pos_Cons [OF Cons.prems(1,2,4,5) [unfolded pr] refl refl, folded pr]
  have spl: "splice_spans t prev (pr # ps) = py_slice prev (s_start s) t @ r @ ?tail"
    by (simp add: pr)
  have lensl: "length (py_slice prev (s_start s) t) = nat ?g"
    using se s(2) Cons.prems(2) by simp
  consider (A) "p < np + ?g" | (B) "np + ?g \<le> p" "p < ?np2" | (C) "?np2 \<le> p" by linarith
  then show ?case
  proof cases
    case A
    then have q: "seg_pos t np prev (pr # ps) p = prev + (p - np)" by (simp add: pos)
    have "\<not> covered (map fst (pr # ps)) (nat (prev + (p - np)))"
      using A ps se Cons.prems(2,4) by (fastforce simp: covered_def pr ordered_pairs_def in_range_def)
    moreover have "splice_spans t prev (pr # ps) ! nat (p - np) = t ! nat (prev + (p - np))"
      using A Cons.prems(2-4) se s(2) lensl
      by (simp add: spl nth_append py_slice_in_range nat_add_distrib)
    ultimately show ?thesis using A Cons.prems(2,4) se by (simp add: q origin_ok_def)
  next
    case B
    then have q: "seg_pos t np prev (pr # ps) p = s_start s" by (simp add: pos)
    have "nat (p - np) - nat ?g < length r" using B s(2) by linarith
    moreover have "\<not> nat (p - np) < nat ?g" using B by linarith
    ultimately have "splice_spans t prev (pr # ps) ! nat (p - np) \<in> set r"
      by (auto simp: spl nth_append lensl)
    with q s(2) se show ?thesis by (auto simp: origin_ok_def pr)
  next
    case C
    have bound: "p < ?np2 + int (length ?tail)"
      using Cons.prems(5) s(2) by (simp add: spl lensl)
    from C have q: "seg_pos t np prev (pr # ps) p = seg_pos t ?np2 (s_end s) ps p"
      by (simp add: pos)
    have IH: "s_end s \<le> seg_pos t ?np2 (s_end s) ps p"
      "origin_ok t ps (?tail ! nat (p - ?np2)) (seg_pos t ?np2 (s_end s) ps p)"
      using Cons.IH [OF ps] se C bound by simp_all
    have "splice_spans t prev (pr # ps) ! nat (p - np) = ?tail ! nat (p - ?np2)"
    proof -
      have "nat (p - np) - nat ?g - length r = nat (p - ?np2)" "\<not> nat (p - np) < nat ?g"
        "\<not> nat (p - np) - nat ?g < length r"
        using C s(2) by linarith+
      then show ?thesis by (auto simp: spl nth_append lensl)
    qed
    with q IH se s(2) show ?thesis by (auto simp: pr intro: origin_ok_Cons)
  qed
qed

lemma seg_pos_mono:
  assumes "ordered_pairs (length t) prev ps" "0 \<le> prev" "prev \<le> int (length t)"
    and "np \<le> p" "p \<le> q" "q < np + int (length (splice_spans t prev ps))"
  shows "seg_pos t np prev ps p \<le> seg_pos t np prev ps q"
  using assms
proof (induction ps arbitrary: np prev)
  case Nil
  then show ?case by (auto simp: seg_pos_def seg_at_def py_from_nonneg split: if_splits)
next
  case (Cons pr ps)
  obtain s r where pr: "pr = (s, r)" by force
  from Cons.prems(1) have s: "in_range (length t) s" "prev \<le> s_start s"
    and ps: "ordered_pairs (length t) (s_end s) ps" by (simp_all add: pr ordered_pairs_Cons)
  then have se: "0 \<le> s_start s" "s_start s < s_end s" "s_end s \<le> int (length t)"
    by (auto simp: in_range_def)
  let ?np2 = "np + (s_start s - prev) + int (length r)"
  have len: "np + int (length (splice_spans t prev (pr # ps)))
      = ?np2 + int (length (splice_spans t (s_end s) ps))"
    using se s(2) Cons.prems(2) by (simp add: pr)
  note pos = seg_pos_Cons [OF Cons.prems(1) [unfolded pr] Cons.prems(2) _ _ refl refl, folded pr]
  have p: "seg_pos t np prev (pr # ps) p =
     (if p < np + (s_start s - prev) then prev + (p - np) else if p < ?np2 then s_start s
      else seg_pos t ?np2 (s_end s) ps p)"
    using Cons.prems(4-6) by (intro pos) linarith+
  have q: "seg_pos t np prev (pr # ps) q =
     (if q < np + (s_start s - prev) then prev + (q - np) else if q < ?np2 then s_start s
      else seg_pos t ?np2 (s_end s) ps q)"
    using Cons.prems(4-6) by (intro pos) linarith+
  have IH: "seg_pos t ?np2 (s_end s) ps p \<le> seg_pos t ?np2 (s_end s) ps q" if "?np2 \<le> p"
    using Cons.IH [OF ps _ se(3) that] Cons.prems(5,6) se len by simp
  have "s_end s \<le> seg_pos t ?np2 (s_end s) ps q" if "?np2 \<le> q"
    using seg_at_origin [OF ps _ se(3) that] Cons.prems(6) se len by simp
  with IH se s(2) Cons.prems(5) show ?case unfolding p q by auto
qed

lemma origin_ok_set_cong: "set ps = set qs \<Longrightarrow> origin_ok t ps c q = origin_ok t qs c q"
  by (simp add: origin_ok_def covered_def)

lemma ordered_pairs_sort_zip:
  assumes "valid_spans n spans" "length rs = length spans"
  shows "ordered_pairs n 0 (sort_key (s_start \<circ> fst) (zip spans rs))"
proof (rule sorted_pairs_ordered)
  show "list_all (in_range n \<circ> fst) (zip spans rs)"
    using assms by (auto simp: valid_spans_def list_all_length)
  show "sorted_wrt (\<lambda>p q. disjoint_spans (fst p) (fst q)) (zip spans rs)"
    using assms by (auto simp: valid_spans_def sorted_wrt_iff_nth_less)
qed

lemma remap_sound_aux:
  assumes "valid_spans (length t) spans" "length rs = length spans"
    and "apply_spans t spans rs = Inr out" "0 \<le> p" "p < int (length out)"
  shows "\<exists>f q. inverse_position_remap t spans rs = Inr f \<and> f p = Inr q
    \<and> origin_ok t (zip spans rs) (out ! nat p) q"
proof -
  let ?ps = "sort_key (s_start \<circ> fst) (zip spans rs)"
  let ?segs = "remap_segments (int (length t)) 0 0 ?ps"
  have op: "ordered_pairs (length t) 0 ?ps" by (rule ordered_pairs_sort_zip [OF assms(1,2)])
  have out: "out = splice_spans t 0 ?ps" using assms(1-3) by (simp add: apply_spans_eq_splice)
  then have "splice_spans t 0 ?ps \<noteq> []" using assms(4,5) by auto
  from remap_segments_first [OF op _ _ this] obtain x rest where "?segs = (0, x) # rest"
    by fastforce
  then have "?segs \<noteq> []" "fst (hd ?segs) \<le> p" using assms(4) by simp_all
  then have "remap ?segs p = Inr (seg_pos t 0 0 ?ps p)"
    unfolding seg_pos_def
    by (intro remap_eq_seg_origin remap_segments_sorted [OF op] assms(4))
  moreover have "origin_ok t ?ps (out ! nat p) (seg_pos t 0 0 ?ps p)"
    using seg_at_origin [OF op, of 0 p] assms(4,5) by (simp add: out)
  ultimately show ?thesis
    using origin_ok_set_cong [of ?ps "zip spans rs" t] assms(2)
    by (auto simp: inverse_position_remap_def)
qed

section \<open>\<open>dedupe_overlaps\<close>\<close>

definition overlap :: "span \<Rightarrow> span \<Rightarrow> bool" where
  "overlap a b \<longleftrightarrow> s_start a < s_end b \<and> s_end a > s_start b"

definition dedupe_key :: "span \<Rightarrow> int \<times> int \<times> rat" where
  "dedupe_key s = (s_start s, - (s_end s - s_start s), - s_conf s)"

fun dedupe_step :: "span list \<Rightarrow> span \<Rightarrow> span list" where
  "dedupe_step kept s =
     (if list_ex (\<lambda>existing. overlap s existing \<and> s_conf s \<le> s_conf existing) kept
      then kept
      else filter (\<lambda>k. \<not> overlap s k) kept @ [s])"

definition dedupe_overlaps :: "span list \<Rightarrow> span list" where
  "dedupe_overlaps spans =
     (if spans = [] then []
      else (let by_start = sort_key dedupe_key spans;
                kept = foldl dedupe_step [] by_start
            in sort_key s_start kept))"

lemma overlap_sym: "overlap a b \<longleftrightarrow> overlap b a"
  by (auto simp: overlap_def)

text \<open>The loop invariant: what is kept is pairwise non-overlapping, and each span seen so far is kept or beaten.\<close>

definition beaten :: "span set \<Rightarrow> span \<Rightarrow> bool" where
  "beaten A s \<longleftrightarrow> (\<exists>t \<in> A. t \<noteq> s \<and> overlap s t \<and> s_conf s \<le> s_conf t)"

lemma dedupe_step_invariant:
  assumes "sorted_wrt (\<lambda>a b. \<not> overlap a b) kept" "set kept \<subseteq> A" "\<forall>x \<in> A. x \<in> set kept \<or> beaten A x"
  shows "sorted_wrt (\<lambda>a b. \<not> overlap a b) (dedupe_step kept s)
    \<and> set (dedupe_step kept s) \<subseteq> insert s A
    \<and> (\<forall>x \<in> insert s A. x \<in> set (dedupe_step kept s) \<or> beaten (insert s A) x)"
proof (cases "list_ex (\<lambda>e. overlap s e \<and> s_conf s \<le> s_conf e) kept")
  case True
  then obtain e where e: "e \<in> set kept" "overlap s e" "s_conf s \<le> s_conf e"
    by (auto simp: list_ex_iff)
  then have "s \<in> set kept \<or> beaten (insert s A) s" using assms(2) by (auto simp: beaten_def)
  with True assms show ?thesis by (auto simp: beaten_def)
next
  case False
  have "beaten (insert s A) x" if "x \<in> set kept" "overlap s x" for x
  proof -
    have "\<not> s_conf s \<le> s_conf x" using False that by (auto simp: list_ex_iff)
    then show ?thesis using that overlap_sym by (auto simp: beaten_def intro!: bexI [of _ s])
  qed
  moreover have "beaten (insert s A) x" if "beaten A x" for x
    using that by (auto simp: beaten_def)
  moreover have "sorted_wrt (\<lambda>a b. \<not> overlap a b) (filter (\<lambda>k. \<not> overlap s k) kept @ [s])"
    using assms(1) overlap_sym by (auto simp: sorted_wrt_append sorted_wrt_filter)
  ultimately show ?thesis using False assms(2,3) by auto
qed

declare dedupe_step.simps [simp del]

lemma dedupe_loop_invariant:
  "sorted_wrt (\<lambda>a b. \<not> overlap a b) (foldl dedupe_step [] xs)
   \<and> set (foldl dedupe_step [] xs) \<subseteq> set xs
   \<and> (\<forall>x \<in> set xs. x \<in> set (foldl dedupe_step [] xs) \<or> beaten (set xs) x)"
proof (induction xs rule: rev_induct)
  case (snoc x xs)
  then show ?case
    using dedupe_step_invariant [of "foldl dedupe_step [] xs" "set xs" x] by simp
qed simp

lemma set_dedupe_overlaps_subset: "set (dedupe_overlaps spans) \<subseteq> set spans"
  using dedupe_loop_invariant [of "sort_key dedupe_key spans"] by (auto simp: dedupe_overlaps_def)

lemma sorted_dedupe_overlaps: "sorted (map s_start (dedupe_overlaps spans))"
  by (simp add: dedupe_overlaps_def)

lemma dedupe_overlaps_no_overlap:
  "sorted_wrt (\<lambda>a b. \<not> overlap a b) (dedupe_overlaps spans)"
proof -
  have "symp (\<lambda>a b. \<not> overlap a b)" using overlap_sym by (auto simp: symp_def)
  from sorted_wrt_sort_key_sym [OF this, THEN iffD2]
    dedupe_loop_invariant [of "sort_key dedupe_key spans", THEN conjunct1]
  show ?thesis by (auto simp: dedupe_overlaps_def)
qed

lemma dedupe_overlaps_kept_or_beaten:
  "x \<in> set spans \<Longrightarrow> x \<in> set (dedupe_overlaps spans) \<or> beaten (set spans) x"
  using dedupe_loop_invariant [of "sort_key dedupe_key spans"]
  by (auto simp: dedupe_overlaps_def)

lemma valid_dedupe_overlaps:
  assumes "list_all (in_range n) spans"
  shows "valid_spans n (dedupe_overlaps spans)"
proof -
  have "list_all (in_range n) (dedupe_overlaps spans)"
    using assms set_dedupe_overlaps_subset by (fastforce simp: list_all_iff)
  moreover have "sorted_wrt disjoint_spans (dedupe_overlaps spans)"
    by (rule sorted_wrt_mono_rel [OF _ dedupe_overlaps_no_overlap])
      (auto simp: overlap_def disjoint_spans_def)
  ultimately show ?thesis by (simp add: valid_spans_def)
qed

lemma valid_dedupe_validate: "valid_spans (length t) (dedupe_overlaps (validate_offsets t spans))"
  by (rule valid_dedupe_overlaps) (simp add: validate_offsets_filter list_all_iff)

lemma foldl_dedupe_step_disjoint:
  "sorted_wrt (\<lambda>a b. \<not> overlap a b) (acc @ xs) \<Longrightarrow> foldl dedupe_step acc xs = acc @ xs"
proof (induction xs arbitrary: acc)
  case (Cons x xs)
  then have "\<forall>k \<in> set acc. \<not> overlap x k" using overlap_sym by (auto simp: sorted_wrt_append)
  then have "dedupe_step acc x = acc @ [x]"
    by (auto simp: dedupe_step.simps list_ex_iff filter_id_conv)
  with Cons show ?case by simp
qed simp

lemma dedupe_overlaps_id:
  assumes "valid_spans n spans" "sorted (map s_start spans)"
  shows "dedupe_overlaps spans = spans"
proof -
  have no: "sorted_wrt (\<lambda>a b. \<not> overlap a b) spans"
    by (rule sorted_wrt_mono_rel [of _ disjoint_spans])
      (use assms(1) in \<open>auto simp: valid_spans_def disjoint_spans_def overlap_def\<close>)
  have "sorted_wrt (\<lambda>a b. dedupe_key a < dedupe_key b) spans"
    unfolding sorted_wrt_iff_nth_less
  proof (intro allI impI)
    fix i j assume ij: "i < j" "j < length spans"
    then have "s_start (spans ! i) \<le> s_start (spans ! j)"
      using assms(2) by (simp add: sorted_iff_nth_mono)
    moreover have "disjoint_spans (spans ! i) (spans ! j)" "in_range n (spans ! i)" "in_range n (spans ! j)"
      using assms(1) ij by (simp_all add: valid_spans_def sorted_wrt_iff_nth_less list_all_length)
    ultimately have "s_start (spans ! i) < s_start (spans ! j)"
      by (auto simp: disjoint_spans_def in_range_def)
    then show "dedupe_key (spans ! i) < dedupe_key (spans ! j)"
      by (simp add: dedupe_key_def)
  qed
  then have "sort_key dedupe_key spans = spans"
    by (intro sort_key_id_if_sorted sorted_wrt_strict_mono_key)
  with foldl_dedupe_step_disjoint [of "[]" spans] no assms(2) show ?thesis
    by (simp add: dedupe_overlaps_def sort_key_id_if_sorted)
qed

section \<open>Properties\<close>

definition mk_span :: "int \<Rightarrow> int \<Rightarrow> string \<Rightarrow> rat \<Rightarrow> span" where
  "mk_span a b ty c = \<lparr>s_start = a, s_end = b, s_type = ty, s_conf = c\<rparr>"

text \<open>C1. Substituting a list of in-range, pairwise disjoint spans from right to left, as
  \<open>apply_spans\<close> does, returns the left-to-right splice: every character outside the spans
  is kept in place and order, and each span is replaced by its own replacement.\<close>

theorem apply_spans_splice:
  assumes "valid_spans (length t) spans" "length replacement = length spans"
  shows "apply_spans t spans replacement
       = Inr (splice_spans t 0 (sort_key (s_start \<circ> fst) (zip spans replacement)))"
  by (rule apply_spans_eq_splice [OF assms])

theorem apply_spans_splice_witness:
  "apply_spans ''call bob or amy'' [mk_span 12 15 ''P'' 1, mk_span 5 8 ''P'' 1] [''[A]'', ''[B]'']
   = Inr ''call [B] or [A]''"
  by (subst apply_spans_splice)
    (simp_all add: mk_span_def valid_spans_def in_range_def disjoint_spans_def py_slice_in_range
      py_from_nonneg)

text \<open>
  The redacted text does not depend on the covered characters: two texts that agree outside
  the spans are redacted to the same text.
\<close>

lemma apply_spans_cong:
  assumes "valid_spans (length t1) spans" "length replacement = length spans"
    and "length t2 = length t1"
    and "\<And>i. i < length t1 \<Longrightarrow> \<not> covered spans i \<Longrightarrow> t1 ! i = t2 ! i"
  shows "apply_spans t1 spans replacement = apply_spans t2 spans replacement"
proof -
  let ?ps = "sort_key (s_start \<circ> fst) (zip spans replacement)"
  have "splice_spans t1 0 ?ps = splice_spans t2 0 ?ps"
    by (rule splice_spans_cong)
      (use assms in \<open>auto simp: covered_map_fst_sort intro: ordered_pairs_sort_zip\<close>)
  with assms(1-3) show ?thesis by (simp add: apply_spans_eq_splice)
qed

text \<open>C2. The function returned by \<open>inverse_position_remap\<close> sends every position of the
  substituted text to its origin: a position that shows a kept character goes to that
  character in the original text, and a position inside a replacement goes to the start of
  the replaced span. It never raises on such a position.\<close>

theorem inverse_position_remap_sound:
  assumes "valid_spans (length t) spans" "length replacements = length spans"
    and "apply_spans t spans replacements = Inr out" "0 \<le> p" "p < int (length out)"
  shows "\<exists>f q. inverse_position_remap t spans replacements = Inr f \<and> f p = Inr q
    \<and> origin_ok t (zip spans replacements) (out ! nat p) q"
  by (rule remap_sound_aux [OF assms])

theorem inverse_position_remap_sound_witness:
  "\<exists>f q. inverse_position_remap ''call bob now'' [mk_span 5 8 ''P'' 1] [''[P_1]''] = Inr f
    \<and> f 11 = Inr q
    \<and> origin_ok ''call bob now'' (zip [mk_span 5 8 ''P'' 1] [''[P_1]'']) (''call [P_1] now'' ! nat 11) q"
  by (rule inverse_position_remap_sound)
    (simp_all add: mk_span_def valid_spans_def in_range_def apply_spans_def apply_step_def
      sorted_reverse_def py_upto_nonneg py_from_nonneg)

text \<open>C3. \<open>dedupe_overlaps\<close> returns the spans in document order, no two of them
  overlapping, all of them from the input, and drops a span only because another input span
  that overlaps it has at least its confidence.\<close>

theorem dedupe_overlaps_correct:
  "sorted (map s_start (dedupe_overlaps spans))
   \<and> sorted_wrt (\<lambda>a b. \<not> overlap a b) (dedupe_overlaps spans)
   \<and> set (dedupe_overlaps spans) \<subseteq> set spans
   \<and> (s \<in> set spans \<longrightarrow> s \<in> set (dedupe_overlaps spans) \<or> beaten (set spans) s)"
  using sorted_dedupe_overlaps dedupe_overlaps_no_overlap set_dedupe_overlaps_subset
    dedupe_overlaps_kept_or_beaten by blast

theorem dedupe_overlaps_correct_witness:
  "mk_span 3 8 ''B'' (1/2) \<in> set (dedupe_overlaps [mk_span 0 5 ''A'' (9/10), mk_span 3 8 ''B'' (1/2)])
   \<or> beaten (set [mk_span 0 5 ''A'' (9/10), mk_span 3 8 ''B'' (1/2)]) (mk_span 3 8 ''B'' (1/2))"
  using dedupe_overlaps_correct
    [of "[mk_span 0 5 ''A'' (9/10), mk_span 3 8 ''B'' (1/2)]" "mk_span 3 8 ''B'' (1/2)"]
  by simp

text \<open>A chain of overlaps: the first span is dropped for the second, the second for the third,
  and nothing that is kept overlaps the first.\<close>

lemma dedupe_overlaps_chain_gap:
  "dedupe_overlaps [mk_span 0 10 ''A'' (5/10), mk_span 5 15 ''B'' (6/10), mk_span 12 20 ''C'' (7/10)]
   = [mk_span 12 20 ''C'' (7/10)]"
  by (simp add: dedupe_overlaps_def dedupe_key_def mk_span_def dedupe_step.simps overlap_def)

end
