(* ===== verification/RegexDetector.thy ===== *)
theory RegexDetector
  imports Spans
begin

text \<open>
  \<open>app/inference/regex.py\<close>: the backtracking semantics of the \<open>re\<close> constructs that its
  patterns use, the seven rules, the Luhn check and \<open>RegexDetector.detect\<close>. A pattern
  denotes, at a position, the list of end positions in the order in which the matcher tries
  them; the match is the first. The lemmas show that matches lie in the text and move
  forward, that every detected span is in range and well typed, that the Luhn check catches
  every single-digit error, and which numbers the SSN rule excludes.
\<close>

section \<open>Patterns and matching\<close>

datatype rx =
  Sat "char \<Rightarrow> bool"
| Seq rx rx
| Alt rx rx
| Exact rx nat
| UpTo rx nat
| Many rx
| ManyLazy rx
| WordB
| NotAhead rx
| NotBehind "char \<Rightarrow> bool"

fun exactly :: "(nat \<Rightarrow> nat list) \<Rightarrow> nat \<Rightarrow> nat \<Rightarrow> nat list" where
  "exactly f 0 p = [p]"
| "exactly f (Suc n) p = concat (map (exactly f n) (f p))"

fun greedy :: "(nat \<Rightarrow> nat list) \<Rightarrow> nat \<Rightarrow> nat \<Rightarrow> nat list" where
  "greedy f 0 p = [p]"
| "greedy f (Suc n) p = concat (map (greedy f n) (f p)) @ [p]"

fun lazy :: "(nat \<Rightarrow> nat list) \<Rightarrow> nat \<Rightarrow> nat \<Rightarrow> nat list" where
  "lazy f 0 p = [p]"
| "lazy f (Suc n) p = p # concat (map (lazy f n) (f p))"

definition word_at :: "string \<Rightarrow> nat \<Rightarrow> bool" where
  "word_at w p \<longleftrightarrow> p < length w \<and> is_word (w ! p)"

definition word_boundary :: "string \<Rightarrow> nat \<Rightarrow> bool" where
  "word_boundary w p \<longleftrightarrow> (0 < p \<and> word_at w (p - 1)) \<noteq> word_at w p"

text \<open>
  The unbounded repetitions take the rest of the text as their bound, which is enough
  because every repeated pattern below consumes a character.
\<close>

fun ends :: "rx \<Rightarrow> string \<Rightarrow> nat \<Rightarrow> nat list" where
  "ends (Sat P) w p = (if p < length w \<and> P (w ! p) then [Suc p] else [])"
| "ends (Seq r s) w p = concat (map (ends s w) (ends r w p))"
| "ends (Alt r s) w p = ends r w p @ ends s w p"
| "ends (Exact r n) w p = exactly (ends r w) n p"
| "ends (UpTo r n) w p = greedy (ends r w) n p"
| "ends (Many r) w p = greedy (ends r w) (length w - p) p"
| "ends (ManyLazy r) w p = lazy (ends r w) (length w - p) p"
| "ends WordB w p = (if word_boundary w p then [p] else [])"
| "ends (NotAhead r) w p = (if ends r w p = [] then [p] else [])"
| "ends (NotBehind P) w p = (if 0 < p \<and> p \<le> length w \<and> P (w ! (p - 1)) then [] else [p])"

text \<open>
  \<open>pattern.finditer\<close>: scan from the left, take the first alternative at each start, go on
  at its end; after an empty match the next one must advance.
\<close>

function finditer_from :: "rx \<Rightarrow> string \<Rightarrow> nat \<Rightarrow> bool \<Rightarrow> (nat \<times> nat) list" where
  "finditer_from r w p must_advance =
     (if p > length w then []
      else
        (case filter (\<lambda>e. \<not> (must_advance \<and> e = p)) (ends r w p) of
           [] \<Rightarrow> finditer_from r w (Suc p) False
         | e # _ \<Rightarrow>
             (if p < e then (p, e) # finditer_from r w e False
              else if must_advance then []
              else (p, e) # finditer_from r w p True)))"
  by pat_completeness auto
termination
  by (relation "measure (\<lambda>(r, w, p, adv). 2 * (Suc (length w) - p) + (if adv then 0 else 1))") auto

declare finditer_from.simps [simp del]

definition finditer :: "rx \<Rightarrow> string \<Rightarrow> (nat \<times> nat) list" where
  "finditer r w = finditer_from r w 0 False"

section \<open>The rules\<close>

record rule =
  r_type :: string
  r_pattern :: rx
  r_validator :: "(string \<Rightarrow> bool) option"

fun luhn_total :: "nat \<Rightarrow> nat \<Rightarrow> nat list \<Rightarrow> nat" where
  "luhn_total parity i [] = 0"
| "luhn_total parity i (d # ds) =
     (let d' = (if i mod 2 = parity then (if d * 2 > 9 then d * 2 - 9 else d * 2) else d)
      in d' + luhn_total parity (Suc i) ds)"

definition luhn_ok :: "string \<Rightarrow> bool" where
  "luhn_ok number =
     (let digits = map digit_val (filter is_digit number)
      in if length digits < 13 \<or> length digits > 19 then False
         else luhn_total (length digits mod 2) 0 digits mod 10 = 0)"

definition Lit :: "char \<Rightarrow> rx" where
  "Lit c = Sat (\<lambda>x. x = c)"

definition OneOf :: "string \<Rightarrow> rx" where
  "OneOf cs = Sat (\<lambda>x. List.member cs x)"

definition Digit :: rx where
  "Digit = Sat is_digit"

definition Plus :: "rx \<Rightarrow> rx" where
  "Plus r = Seq r (Many r)"

definition Between :: "rx \<Rightarrow> nat \<Rightarrow> nat \<Rightarrow> rx" where
  "Between r lo hi = Seq (Exact r lo) (UpTo r (hi - lo))"

fun Seqs :: "rx list \<Rightarrow> rx" where
  "Seqs [] = Exact WordB 0"
| "Seqs [r] = r"
| "Seqs (r # rs) = Seq r (Seqs rs)"

definition email_rx :: rx where
  "email_rx = Seqs
     [WordB, Plus (Sat (\<lambda>c. is_letter c \<or> is_digit c \<or> List.member ''._%+-'' c)), Lit CHR ''@'',
      Plus (Sat (\<lambda>c. is_letter c \<or> is_digit c \<or> List.member ''.-'' c)), Lit CHR ''.'',
      Exact (Sat is_letter) 2, Many (Sat is_letter), WordB]"

definition card_rx :: rx where
  "card_rx = Seqs [WordB, Between (Seq Digit (ManyLazy (OneOf '' -''))) 13 19, WordB]"

definition ip_rx :: rx where
  "ip_rx = Seqs [WordB, Exact (Seq (Between Digit 1 3) (Lit CHR ''.'')) 3, Between Digit 1 3, WordB]"

definition sep_rx :: rx where
  "sep_rx = UpTo (Sat (\<lambda>c. is_space c \<or> c = CHR ''-'')) 1"

definition phone_rx :: rx where
  "phone_rx = Seqs
     [NotBehind is_digit, Lit CHR ''+'', Between Digit 1 3, sep_rx, Between Digit 2 4, sep_rx,
      Between Digit 2 4, sep_rx, Between Digit 2 4, NotAhead Digit]"

definition ssn_rx :: rx where
  "ssn_rx = Seqs
     [WordB,
      NotAhead (Alt (Exact (Lit CHR ''0'') 3)
                    (Alt (Exact (Lit CHR ''6'') 3) (Seq (Lit CHR ''9'') (Exact Digit 2)))),
      Exact Digit 3, sep_rx, NotAhead (Exact (Lit CHR ''0'') 2), Exact Digit 2, sep_rx,
      NotAhead (Exact (Lit CHR ''0'') 4), Exact Digit 4, WordB]"

definition iban_rx :: rx where
  "iban_rx = Seqs
     [WordB, Exact (Sat is_upper) 2, Exact Digit 2,
      Between (Sat (\<lambda>c. is_upper c \<or> is_digit c)) 11 30, WordB]"

definition url_rx :: rx where
  "url_rx = Seqs
     [WordB, Lit CHR ''h'', Lit CHR ''t'', Lit CHR ''t'', Lit CHR ''p'', UpTo (Lit CHR ''s'') 1,
      Lit CHR '':'', Lit CHR ''/'', Lit CHR ''/'',
      Plus (Sat (\<lambda>c. \<not> is_space c \<and> \<not> List.member [CHR ''<'', CHR ''>'', CHR 0x22, CHR 0x27] c)),
      WordB]"

definition RULES :: "rule list" where
  "RULES =
     [\<lparr>r_type = ''EMAIL'', r_pattern = email_rx, r_validator = None\<rparr>,
      \<lparr>r_type = ''CREDIT_CARD'', r_pattern = card_rx, r_validator = Some luhn_ok\<rparr>,
      \<lparr>r_type = ''IP_ADDRESS'', r_pattern = ip_rx, r_validator = None\<rparr>,
      \<lparr>r_type = ''PHONE_E164'', r_pattern = phone_rx, r_validator = None\<rparr>,
      \<lparr>r_type = ''SSN_US'', r_pattern = ssn_rx, r_validator = None\<rparr>,
      \<lparr>r_type = ''IBAN'', r_pattern = iban_rx, r_validator = None\<rparr>,
      \<lparr>r_type = ''URL'', r_pattern = url_rx, r_validator = None\<rparr>]"

definition ENTITY_TYPE_ALIASES :: "(string \<times> string) list" where
  "ENTITY_TYPE_ALIASES =
     [(''EMAIL'', ''EMAIL''), (''PHONE'', ''PHONE_E164''), (''PHONE_NUMBER'', ''PHONE_E164''),
      (''PHONE_E164'', ''PHONE_E164''), (''IPV4'', ''IP_ADDRESS''), (''IP_ADDRESS'', ''IP_ADDRESS''),
      (''SSN'', ''SSN_US''), (''SSN_US'', ''SSN_US''), (''IBAN'', ''IBAN''),
      (''CARD_NUMBER'', ''CREDIT_CARD''), (''CREDIT_CARD'', ''CREDIT_CARD''), (''URL'', ''URL'')]"

section \<open>\<open>RegexDetector.detect\<close>\<close>

definition requested_types :: "string list \<Rightarrow> string list" where
  "requested_types entity_types =
     map (\<lambda>item. dict_get ENTITY_TYPE_ALIASES (py_upper (py_strip item)) (py_upper (py_strip item)))
       entity_types"

definition rule_spans :: "string \<Rightarrow> rule \<Rightarrow> span list" where
  "rule_spans text rl =
     map (\<lambda>(a, b). \<lparr>s_start = int a, s_end = int b, s_type = r_type rl, s_conf = 1\<rparr>)
       (filter (\<lambda>(a, b). case r_validator rl of None \<Rightarrow> True
                          | Some v \<Rightarrow> v (take (b - a) (drop a text)))
         (finditer (r_pattern rl) text))"

definition regex_detect :: "rule list \<Rightarrow> string \<Rightarrow> string list \<Rightarrow> span list" where
  "regex_detect rules text entity_types =
     (let requested = requested_types entity_types;
          active = (if entity_types \<noteq> [] then filter (\<lambda>r. List.member requested (r_type r)) rules
                    else rules)
      in sort_key (\<lambda>s. (s_start s, s_end s)) (concat (map (rule_spans text) active)))"

section \<open>Matches stay in the text\<close>

definition advancing :: "string \<Rightarrow> (nat \<Rightarrow> nat list) \<Rightarrow> bool" where
  "advancing w f \<longleftrightarrow> (\<forall>p \<le> length w. \<forall>e \<in> set (f p). p \<le> e \<and> e \<le> length w)"

lemma advancingD:
  "advancing w f \<Longrightarrow> p \<le> length w \<Longrightarrow> e \<in> set (f p) \<Longrightarrow> p \<le> e \<and> e \<le> length w"
  unfolding advancing_def by blast

lemma advancingI:
  "(\<And>p e. p \<le> length w \<Longrightarrow> e \<in> set (f p) \<Longrightarrow> p \<le> e \<and> e \<le> length w) \<Longrightarrow> advancing w f"
  unfolding advancing_def by blast

lemma advancing_concat:
  assumes "advancing w f" "advancing w g"
  shows "advancing w (\<lambda>p. concat (map g (f p)))"
proof (rule advancingI)
  fix p e assume p: "p \<le> length w" and "e \<in> set (concat (map g (f p)))"
  then obtain q where q: "q \<in> set (f p)" "e \<in> set (g q)" by auto
  from advancingD [OF assms(1) p q(1)] have "p \<le> q" "q \<le> length w" by simp_all
  with advancingD [OF assms(2) _ q(2)] show "p \<le> e \<and> e \<le> length w" by simp
qed

lemma advancing_id: "advancing w (\<lambda>p. [p])"
  by (rule advancingI) simp

lemma advancing_append:
  assumes "advancing w f" "advancing w g"
  shows "advancing w (\<lambda>p. f p @ g p)"
proof (rule advancingI)
  fix p e assume p: "p \<le> length w" and "e \<in> set (f p @ g p)"
  then consider "e \<in> set (f p)" | "e \<in> set (g p)" by auto
  then show "p \<le> e \<and> e \<le> length w"
    using advancingD [OF assms(1) p] advancingD [OF assms(2) p] by cases blast+
qed

lemma advancing_exactly: "advancing w f \<Longrightarrow> advancing w (exactly f n)"
proof (induction n)
  case 0
  have "exactly f 0 = (\<lambda>p. [p])" by (rule ext) simp
  with advancing_id show ?case by metis
next
  case (Suc n)
  have "exactly f (Suc n) = (\<lambda>p. concat (map (exactly f n) (f p)))" by (rule ext) simp
  with advancing_concat [OF Suc.prems Suc.IH [OF Suc.prems]] show ?case by metis
qed

lemma advancing_greedy: "advancing w f \<Longrightarrow> advancing w (greedy f n)"
proof (induction n)
  case 0
  have "greedy f 0 = (\<lambda>p. [p])" by (rule ext) simp
  with advancing_id show ?case by metis
next
  case (Suc n)
  have "greedy f (Suc n) = (\<lambda>p. concat (map (greedy f n) (f p)) @ [p])" by (rule ext) simp
  with advancing_append [OF advancing_concat [OF Suc.prems Suc.IH [OF Suc.prems]] advancing_id]
  show ?case by metis
qed

lemma advancing_lazy: "advancing w f \<Longrightarrow> advancing w (lazy f n)"
proof (induction n)
  case 0
  have "lazy f 0 = (\<lambda>p. [p])" by (rule ext) simp
  with advancing_id show ?case by metis
next
  case (Suc n)
  have "lazy f (Suc n) = (\<lambda>p. [p] @ concat (map (lazy f n) (f p)))" by (rule ext) simp
  with advancing_append [OF advancing_id advancing_concat [OF Suc.prems Suc.IH [OF Suc.prems]]]
  show ?case by metis
qed

lemma advancing_ends: "advancing w (ends r w)"
proof (induction r)
  case (Seq r s)
  have "ends (Seq r s) w = (\<lambda>p. concat (map (ends s w) (ends r w p)))" by (rule ext) simp
  with advancing_concat [OF Seq] show ?case by metis
next
  case (Alt r s)
  have "ends (Alt r s) w = (\<lambda>p. ends r w p @ ends s w p)" by (rule ext) simp
  with advancing_append [OF Alt] show ?case by metis
next
  case (Exact r n)
  have "ends (Exact r n) w = exactly (ends r w) n" by (rule ext) simp
  with advancing_exactly [OF Exact] show ?case by metis
next
  case (UpTo r n)
  have "ends (UpTo r n) w = greedy (ends r w) n" by (rule ext) simp
  with advancing_greedy [OF UpTo] show ?case by metis
next
  case (Many r)
  show ?case
  proof (rule advancingI)
    fix p e assume p: "p \<le> length w" and "e \<in> set (ends (Many r) w p)"
    then have "e \<in> set (greedy (ends r w) (length w - p) p)" by (simp only: ends.simps)
    with p show "p \<le> e \<and> e \<le> length w" by (rule advancingD [OF advancing_greedy [OF Many]])
  qed
next
  case (ManyLazy r)
  show ?case
  proof (rule advancingI)
    fix p e assume p: "p \<le> length w" and "e \<in> set (ends (ManyLazy r) w p)"
    then have "e \<in> set (lazy (ends r w) (length w - p) p)" by (simp only: ends.simps)
    with p show "p \<le> e \<and> e \<le> length w" by (rule advancingD [OF advancing_lazy [OF ManyLazy]])
  qed
next
  case (Sat P)
  show ?case
  proof (rule advancingI)
    fix p e assume "p \<le> length w" "e \<in> set (ends (Sat P) w p)"
    then show "p \<le> e \<and> e \<le> length w" by (cases "p < length w \<and> P (w ! p)") auto
  qed
next
  case WordB
  show ?case
  proof (rule advancingI)
    fix p e assume "p \<le> length w" "e \<in> set (ends WordB w p)"
    then show "p \<le> e \<and> e \<le> length w" by (cases "word_boundary w p") auto
  qed
next
  case (NotAhead r)
  show ?case
  proof (rule advancingI)
    fix p e assume "p \<le> length w" "e \<in> set (ends (NotAhead r) w p)"
    then show "p \<le> e \<and> e \<le> length w" by (cases "ends r w p = []") auto
  qed
next
  case (NotBehind P)
  show ?case
  proof (rule advancingI)
    fix p e assume "p \<le> length w" "e \<in> set (ends (NotBehind P) w p)"
    then show "p \<le> e \<and> e \<le> length w"
      by (cases "0 < p \<and> p \<le> length w \<and> P (w ! (p - 1))") auto
  qed
qed

lemma ends_bounds:
  "e \<in> set (ends r w p) \<Longrightarrow> p \<le> length w \<Longrightarrow> p \<le> e \<and> e \<le> length w"
  by (rule advancingD [OF advancing_ends])

lemma finditer_from_spec:
  assumes "(a, b) \<in> set (finditer_from r w p adv)"
  shows "p \<le> a \<and> a \<le> b \<and> b \<le> length w \<and> b \<in> set (ends r w a)"
  using assms
proof (induction r w p adv rule: finditer_from.induct)
  case (1 r w p adv)
  let ?es = "filter (\<lambda>e. \<not> (adv \<and> e = p)) (ends r w p)"
  have pw: "p \<le> length w" using "1.prems" by (cases "p > length w") (auto simp: finditer_from.simps [of r w p])
  then have np: "\<not> p > length w" by simp
  show ?case
  proof (cases ?es)
    case Nil
    with "1.prems" np have "(a, b) \<in> set (finditer_from r w (Suc p) False)"
      by (simp add: finditer_from.simps [of r w p])
    from "1.IH"(1) [OF np Nil this] show ?thesis by simp
  next
    case (Cons e es)
    then have "e \<in> set ?es" by simp
    then have e: "e \<in> set (ends r w p)" by simp
    with ends_bounds pw have eb: "p \<le> e" "e \<le> length w" by blast+
    show ?thesis
    proof (cases "p < e")
      case True
      with "1.prems" np Cons have "(a, b) = (p, e) \<or> (a, b) \<in> set (finditer_from r w e False)"
        by (simp add: finditer_from.simps [of r w p])
      with "1.IH"(2) [OF np Cons True] e eb show ?thesis by auto
    next
      case False
      with "1.prems" np Cons
      have "\<not> adv" "(a, b) = (p, e) \<or> (a, b) \<in> set (finditer_from r w p True)"
        by (auto simp: finditer_from.simps [of r w p] split: if_splits)
      with "1.IH"(3) [OF np Cons False] e eb show ?thesis by auto
    qed
  qed
qed

text \<open>A syntactic test for patterns that never match the empty string; every rule passes it.\<close>

fun consuming :: "rx \<Rightarrow> bool" where
  "consuming (Sat P) = True"
| "consuming (Seq r s) = (consuming r \<or> consuming s)"
| "consuming (Alt r s) = (consuming r \<and> consuming s)"
| "consuming (Exact r n) = (0 < n \<and> consuming r)"
| "consuming _ = False"

lemma consuming_ends:
  "consuming r \<Longrightarrow> p \<le> length w \<Longrightarrow> e \<in> set (ends r w p) \<Longrightarrow> p < e"
proof (induction r arbitrary: p e)
  case (Seq r s)
  then obtain q where q: "q \<in> set (ends r w p)" "e \<in> set (ends s w q)" by auto
  with Seq.prems(2) have b: "p \<le> q" "q \<le> length w" "q \<le> e" using ends_bounds by blast+
  from Seq.prems(1) consider "consuming r" | "consuming s" by auto
  then show ?case
    using Seq.IH(1) [OF _ Seq.prems(2) q(1)] Seq.IH(2) [OF _ b(2) q(2)] b by cases auto
next
  case (Exact r n)
  then obtain m q where q: "q \<in> set (ends r w p)" "e \<in> set (exactly (ends r w) m q)"
    by (cases n) auto
  with Exact have "p < q" "q \<le> length w" using ends_bounds by auto
  moreover from advancingD [OF advancing_exactly [OF advancing_ends] this(2) q(2)] have "q \<le> e"
    by simp
  ultimately show ?case by simp
qed (auto split: if_splits)

lemmas rx_defs =
  email_rx_def card_rx_def ip_rx_def phone_rx_def ssn_rx_def iban_rx_def url_rx_def
  Between_def Plus_def Digit_def Lit_def OneOf_def

lemma RULES_consuming: "rl \<in> set RULES \<Longrightarrow> consuming (r_pattern rl)"
  by (auto simp: RULES_def rx_defs)

section \<open>Every match is found once\<close>

lemma finditer_from_chain:
  "sorted_wrt (\<lambda>x y. snd x \<le> fst y) (finditer_from r w p adv)"
proof (induction r w p adv rule: finditer_from.induct)
  case (1 r w p adv)
  let ?es = "filter (\<lambda>e. \<not> (adv \<and> e = p)) (ends r w p)"
  show ?case
  proof (cases "p > length w")
    case True
    then show ?thesis by (simp add: finditer_from.simps [of r w p])
  next
    case np: False
    show ?thesis
    proof (cases ?es)
      case Nil
      with "1.IH"(1) [OF np Nil] np show ?thesis by (simp add: finditer_from.simps [of r w p])
    next
      case (Cons e es)
      show ?thesis
      proof (cases "p < e")
        case True
        have "\<forall>y \<in> set (finditer_from r w e False). e \<le> fst y"
          using finditer_from_spec [of _ _ r w e False] by auto
        with "1.IH"(2) [OF np Cons True] np Cons True show ?thesis
          by (simp add: finditer_from.simps [of r w p])
      next
        case False
        have "e = p"
        proof -
          from Cons have "e \<in> set ?es" by simp
          then have "e \<in> set (ends r w p)" by simp
          from ends_bounds [OF this] np False show ?thesis by simp
        qed
        moreover have "\<forall>y \<in> set (finditer_from r w p True). p \<le> fst y"
          using finditer_from_spec [of _ _ r w p True] by auto
        ultimately show ?thesis
          using "1.IH"(3) [OF np Cons False] np Cons False
          by (simp add: finditer_from.simps [of r w p] split: if_splits)
      qed
    qed
  qed
qed

lemma finditer_from_complete:
  assumes "consuming r" "p \<le> q" "q \<le> length w" "ends r w q \<noteq> []"
  shows "\<exists>a b. (a, b) \<in> set (finditer_from r w p False) \<and> a \<le> q \<and> q < b"
  using assms(2)
proof (induction "length w - p" arbitrary: p rule: less_induct)
  case less
  from less.prems assms(3) have np: "\<not> p > length w" by simp
  show ?case
  proof (cases "ends r w p")
    case Nil
    with assms(4) have "p \<noteq> q" by auto
    with less.prems have pq: "Suc p \<le> q" by simp
    with assms(3) have "length w - Suc p < length w - p" by simp
    from less.hyps [OF this pq] Nil np show ?thesis
      by (simp add: finditer_from.simps [of r w p])
  next
    case (Cons e es)
    then have "e \<in> set (ends r w p)" by simp
    with consuming_ends [OF assms(1) _ this] np ends_bounds [OF this] have e: "p < e" "e \<le> length w"
      by simp_all
    have eq: "finditer_from r w p False = (p, e) # finditer_from r w e False"
      using Cons e np by (simp add: finditer_from.simps [of r w p])
    show ?thesis
    proof (cases "q < e")
      case True
      with less.prems eq show ?thesis by auto
    next
      case False
      with e have "length w - e < length w - p" "e \<le> q" by simp_all
      from less.hyps [OF this] eq show ?thesis by auto
    qed
  qed
qed

lemma rule_spans_iff:
  "s \<in> set (rule_spans t rl) \<longleftrightarrow>
     (\<exists>a b. (a, b) \<in> set (finditer (r_pattern rl) t) \<and>
            s = \<lparr>s_start = int a, s_end = int b, s_type = r_type rl, s_conf = 1\<rparr> \<and>
            (\<forall>v. r_validator rl = Some v \<longrightarrow> v (take (b - a) (drop a t))))"
  by (force simp: rule_spans_def split: option.splits)

lemma regex_detect_iff:
  "s \<in> set (regex_detect rules t types) \<longleftrightarrow>
     (\<exists>rl \<in> set rules. (types = [] \<or> r_type rl \<in> set (requested_types types)) \<and>
        s \<in> set (rule_spans t rl))"
  by (auto simp: regex_detect_def)

lemma regex_detect_in_range:
  assumes "s \<in> set (regex_detect RULES t types)"
  shows "in_range (length t) s"
proof -
  from assms obtain rl a b where rl: "rl \<in> set RULES" and ab: "(a, b) \<in> set (finditer (r_pattern rl) t)"
    and s: "s = \<lparr>s_start = int a, s_end = int b, s_type = r_type rl, s_conf = 1\<rparr>"
    by (auto simp: regex_detect_iff rule_spans_iff)
  from finditer_from_spec [OF ab [unfolded finditer_def]]
  have "a \<le> length t" "b \<le> length t" "b \<in> set (ends (r_pattern rl) t a)" by simp_all
  with consuming_ends [OF RULES_consuming [OF rl]] s show ?thesis by (simp add: in_range_def)
qed

lemma sorted_regex_detect:
  "sorted (map (\<lambda>s. (s_start s, s_end s)) (regex_detect rules t types))"
  by (simp add: regex_detect_def Let_def)

section \<open>The Luhn check\<close>

definition luhn_digit :: "bool \<Rightarrow> nat \<Rightarrow> nat" where
  "luhn_digit dbl d = (if dbl then (if d * 2 > 9 then d * 2 - 9 else d * 2) else d)"

lemma luhn_digit_inj:
  assumes "a \<le> 9" "b \<le> 9" "a \<noteq> b"
  shows "luhn_digit dbl a \<noteq> luhn_digit dbl b" "luhn_digit dbl a \<le> 9"
  using assms unfolding luhn_digit_def by (cases dbl; simp; presburger)+

lemma luhn_total_update:
  "j < length ds \<Longrightarrow>
   luhn_total p i (ds[j := x]) + luhn_digit ((i + j) mod 2 = p) (ds ! j) =
   luhn_total p i ds + luhn_digit ((i + j) mod 2 = p) x"
proof (induction ds arbitrary: i j)
  case (Cons d ds)
  show ?case
  proof (cases j)
    case 0
    then show ?thesis by (simp add: Let_def luhn_digit_def)
  next
    case (Suc k)
    with Cons.IH [of k "Suc i"] Cons.prems show ?thesis by (simp add: Let_def)
  qed
qed simp

lemma mod10_shift:
  fixes a b x y :: nat
  assumes "a + x = b + y" "x \<le> 9" "y \<le> 9" "x \<noteq> y" "a mod 10 = 0"
  shows "b mod 10 \<noteq> 0"
proof
  assume "b mod 10 = 0"
  with assms(5) obtain k l where "a = 10 * k" "b = 10 * l" by (meson mod_0_imp_dvd dvdE)
  with assms show False by presburger
qed

lemma luhn_total_single_error:
  assumes "j < length ds" "ds ! j \<le> 9" "x \<le> 9" "x \<noteq> ds ! j" "luhn_total p i ds mod 10 = 0"
  shows "luhn_total p i (ds[j := x]) mod 10 \<noteq> 0"
  using mod10_shift [OF luhn_total_update [OF assms(1), symmetric, of p i x]]
    luhn_digit_inj [OF assms(2,3)] luhn_digit_inj [OF assms(3,2)] assms by metis

lemma digit_val_le: "is_digit c \<Longrightarrow> digit_val c \<le> 9"
  by (auto simp: is_digit_def digit_val_def)

lemma digit_val_inj: "is_digit c \<Longrightarrow> is_digit d \<Longrightarrow> digit_val c = digit_val d \<Longrightarrow> c = d"
  by (simp add: is_digit_def digit_val_def eq_diff_iff)

lemma filter_update_digit:
  assumes "i < length n" "P (n ! i)" "P c"
  shows "\<exists>j < length (filter P n). filter P n ! j = n ! i \<and> filter P (n[i := c]) = (filter P n)[j := c]"
  using assms(1,2)
proof (induction n arbitrary: i)
  case (Cons x xs)
  show ?case
  proof (cases i)
    case 0
    with Cons.prems assms(3) show ?thesis by auto
  next
    case (Suc k)
    with Cons.prems Cons.IH [of k] obtain j where j: "j < length (filter P xs)"
      "filter P xs ! j = xs ! k" "filter P (xs[k := c]) = (filter P xs)[j := c]" by auto
    show ?thesis
    proof (cases "P x")
      case True
      with j Suc show ?thesis by (intro exI [of _ "Suc j"]) simp
    next
      case False
      with j Suc show ?thesis by (intro exI [of _ j]) simp
    qed
  qed
qed simp

text \<open>
  The card-number check catches every single mistyped digit: replacing one digit of an
  accepted number by a different digit gives a number that \<open>luhn_ok\<close> rejects.
\<close>

theorem luhn_ok_single_digit_error:
  assumes "luhn_ok number" "i < length number" "is_digit (number ! i)" "is_digit c"
    "c \<noteq> number ! i"
  shows "\<not> luhn_ok (number[i := c])"
proof -
  from filter_update_digit [where P = is_digit, OF assms(2-4)] obtain j
    where j: "j < length (filter is_digit number)" "filter is_digit number ! j = number ! i"
      "filter is_digit (number[i := c]) = (filter is_digit number)[j := c]" by auto
  let ?ds = "map digit_val (filter is_digit number)"
  have "?ds ! j \<le> 9" "digit_val c \<le> 9" "digit_val c \<noteq> ?ds ! j"
    using j assms digit_val_le digit_val_inj [of c "number ! i"] by auto
  moreover have "luhn_total (length ?ds mod 2) 0 ?ds mod 10 = 0"
    using assms(1) by (simp add: luhn_ok_def Let_def split: if_splits)
  ultimately have "luhn_total (length ?ds mod 2) 0 (?ds[j := digit_val c]) mod 10 \<noteq> 0"
    using j(1) by (intro luhn_total_single_error) auto
  with j(3) show ?thesis by (simp add: luhn_ok_def Let_def map_update)
qed

theorem luhn_ok_single_digit_error_witness:
  "\<not> luhn_ok (''4539 1488 0343 6467''[3 := CHR ''8''])"
  by (rule luhn_ok_single_digit_error)
    (simp_all add: luhn_ok_def Let_def char_class_defs digit_val_def)

section \<open>What \<open>detect\<close> returns\<close>

text \<open>
  C10. Every span of \<open>RegexDetector.detect\<close> with the shipped rules is non-empty and inside the
  text (so \<open>validate_offsets\<close> keeps them all), has confidence 1, and comes from a rule of its
  type that was asked for, whose pattern matches from its start to its end and whose
  validator, if any, accepts the slice; the list is sorted by start and end.
\<close>

theorem regex_detect_sound:
  "validate_offsets t (regex_detect RULES t types) = regex_detect RULES t types \<and>
   sorted (map (\<lambda>s. (s_start s, s_end s)) (regex_detect RULES t types)) \<and>
   list_all (\<lambda>s. s_conf s = 1 \<and>
     list_ex (\<lambda>rl. r_type rl = s_type s \<and>
        (types = [] \<or> List.member (requested_types types) (s_type s)) \<and>
        List.member (ends (r_pattern rl) t (nat (s_start s))) (nat (s_end s)) \<and>
        (case r_validator rl of None \<Rightarrow> True
          | Some v \<Rightarrow> v (py_slice (s_start s) (s_end s) t))) RULES)
     (regex_detect RULES t types)"
proof (intro conjI)
  show "validate_offsets t (regex_detect RULES t types) = regex_detect RULES t types"
    unfolding validate_offsets_filter by (rule filter_True) (blast intro: regex_detect_in_range)
  show "sorted (map (\<lambda>s. (s_start s, s_end s)) (regex_detect RULES t types))"
    by (rule sorted_regex_detect)
  have "s_conf s = 1 \<and> (\<exists>rl \<in> set RULES. r_type rl = s_type s \<and>
        (types = [] \<or> s_type s \<in> set (requested_types types)) \<and>
        nat (s_end s) \<in> set (ends (r_pattern rl) t (nat (s_start s))) \<and>
        (case r_validator rl of None \<Rightarrow> True | Some v \<Rightarrow> v (py_slice (s_start s) (s_end s) t)))"
    if sd: "s \<in> set (regex_detect RULES t types)" for s
  proof -
    from sd obtain rl a b where rl: "rl \<in> set RULES" "types = [] \<or> r_type rl \<in> set (requested_types types)"
      and ab: "(a, b) \<in> set (finditer (r_pattern rl) t)"
      and v: "\<forall>v. r_validator rl = Some v \<longrightarrow> v (take (b - a) (drop a t))"
      and s: "s = \<lparr>s_start = int a, s_end = int b, s_type = r_type rl, s_conf = 1\<rparr>"
      by (auto simp: regex_detect_iff rule_spans_iff)
    have e: "b \<in> set (ends (r_pattern rl) t a)"
      using finditer_from_spec [OF ab [unfolded finditer_def]] by simp
    have "py_slice (int a) (int b) t = take (b - a) (drop a t)"
      using regex_detect_in_range [OF sd] s by (simp add: in_range_def py_slice_in_range nat_diff_distrib)
    with v s have "case r_validator rl of None \<Rightarrow> True
                     | Some v \<Rightarrow> v (py_slice (s_start s) (s_end s) t)"
      by (simp split: option.splits)
    moreover have "s_conf s = 1" "r_type rl = s_type s" "nat (s_end s) \<in> set (ends (r_pattern rl) t (nat (s_start s)))"
      using s e by simp_all
    ultimately show ?thesis using rl by auto
  qed
  then show "list_all (\<lambda>s. s_conf s = 1 \<and>
     list_ex (\<lambda>rl. r_type rl = s_type s \<and>
        (types = [] \<or> List.member (requested_types types) (s_type s)) \<and>
        List.member (ends (r_pattern rl) t (nat (s_start s))) (nat (s_end s)) \<and>
        (case r_validator rl of None \<Rightarrow> True
          | Some v \<Rightarrow> v (py_slice (s_start s) (s_end s) t))) RULES)
     (regex_detect RULES t types)"
    by (auto simp: list_all_iff list_ex_iff)
qed

text \<open>
  C9. No match escapes: at every position of the text from which the pattern of an
  unvalidated rule matches, a span of that rule's type is returned that covers the position,
  when the rule's type is requested or no types are named.
\<close>

theorem regex_detect_complete:
  assumes "rl \<in> set RULES" "r_validator rl = None" "q \<le> length t" "ends (r_pattern rl) t q \<noteq> []"
    "types = [] \<or> r_type rl \<in> set (requested_types types)"
  shows "\<exists>s \<in> set (regex_detect RULES t types).
           s_type s = r_type rl \<and> s_start s \<le> int q \<and> int q < s_end s"
proof -
  from finditer_from_complete [OF RULES_consuming [OF assms(1)] _ assms(3,4), of 0]
  obtain a b where ab: "(a, b) \<in> set (finditer (r_pattern rl) t)" "a \<le> q" "q < b"
    by (auto simp: finditer_def)
  let ?s = "\<lparr>s_start = int a, s_end = int b, s_type = r_type rl, s_conf = 1\<rparr>"
  have "?s \<in> set (regex_detect RULES t types)"
    using assms(1,2,5) ab(1) by (auto simp: regex_detect_iff rule_spans_iff)
  with ab show ?thesis by force
qed

theorem regex_detect_complete_witness:
  "\<exists>s \<in> set (regex_detect RULES ''a b@c.de'' []).
     s_type s = ''EMAIL'' \<and> s_start s \<le> int 2 \<and> int 2 < s_end s"
proof -
  have "ends email_rx ''a b@c.de'' 2 \<noteq> []" by code_simp
  then show ?thesis
    using regex_detect_complete [of "\<lparr>r_type = ''EMAIL'', r_pattern = email_rx, r_validator = None\<rparr>" 2 "''a b@c.de''" "[]"]
    by (simp add: RULES_def)
qed

end
