(* ===== verification/Json.thy ===== *)
theory Json
  imports Prelude
begin

text \<open>
  Decoded JSON and YAML values as the code sees them: what \<open>json.loads\<close> or \<open>yaml.safe_load\<close>
  returns. A dictionary is an association list in insertion order whose keys may be any
  value (YAML allows it). The theory also renders naturals in decimal, as f-strings do, and
  shows the rendering injective.
\<close>

datatype json =
  JNull
| JBool bool
| JInt int
| JFloat rat
| JStr string
| JList "json list"
| JDict "(json \<times> json) list"

fun is_JStr :: "json \<Rightarrow> bool" where
  "is_JStr (JStr s) = True"
| "is_JStr _ = False"

fun is_JList :: "json \<Rightarrow> bool" where
  "is_JList (JList xs) = True"
| "is_JList _ = False"

fun is_JDict :: "json \<Rightarrow> bool" where
  "is_JDict (JDict xs) = True"
| "is_JDict _ = False"

fun dict_items :: "json \<Rightarrow> (json \<times> json) list" where
  "dict_items (JDict d) = d"
| "dict_items _ = []"

text \<open>Python's truth value.\<close>

fun truthy :: "json \<Rightarrow> bool" where
  "truthy JNull = False"
| "truthy (JBool b) = b"
| "truthy (JInt i) = (i \<noteq> 0)"
| "truthy (JFloat r) = (r \<noteq> 0)"
| "truthy (JStr s) = (s \<noteq> [])"
| "truthy (JList xs) = (xs \<noteq> [])"
| "truthy (JDict d) = (d \<noteq> [])"

text \<open>\<open>d.get(k)\<close> and \<open>d.get(k, default)\<close> for a string key.\<close>

definition jget :: "(json \<times> json) list \<Rightarrow> string \<Rightarrow> json" where
  "jget d k = dict_get d (JStr k) JNull"

definition jget_or :: "(json \<times> json) list \<Rightarrow> string \<Rightarrow> json \<Rightarrow> json" where
  "jget_or d k v = dict_get d (JStr k) v"

text \<open>\<open>int(x)\<close> on the values it can meet here: strings are refused by the policy parser.\<close>

fun py_int :: "json \<Rightarrow> int res" where
  "py_int (JInt i) = Inr i"
| "py_int (JBool b) = Inr (if b then 1 else 0)"
| "py_int (JFloat r) = Inr (if r < 0 then - \<lfloor>- r\<rfloor> else \<lfloor>r\<rfloor>)"
| "py_int (JStr s) = Inl ValueError"
| "py_int _ = Inl TypeError"

section \<open>Decimal rendering\<close>

definition digit_char :: "nat \<Rightarrow> char" where
  "digit_char d = char_of (48 + d)"

fun dec :: "nat \<Rightarrow> string" where
  "dec n = (if n < 10 then [digit_char n] else dec (n div 10) @ [digit_char (n mod 10)])"

declare dec.simps [simp del]

text \<open>\<open>f"{n:04d}"\<close>\<close>

definition dec4 :: "nat \<Rightarrow> string" where
  "dec4 n = replicate (4 - length (dec n)) CHR ''0'' @ dec n"

definition undec :: "string \<Rightarrow> nat" where
  "undec s = foldl (\<lambda>a c. a * 10 + digit_val c) 0 s"

lemma digit_val_digit_char [simp]: "d < 10 \<Longrightarrow> digit_val (digit_char d) = d"
  by (simp add: digit_val_def digit_char_def)

lemma is_digit_digit_char [simp]: "d < 10 \<Longrightarrow> is_digit (digit_char d)"
  by (simp add: is_digit_def digit_char_def)

lemma undec_dec: "undec (dec n) = n"
proof (induction n rule: dec.induct)
  case (1 n)
  then show ?case by (cases "n < 10") (simp_all add: dec.simps [of n] undec_def)
qed

lemma dec_digits: "list_all is_digit (dec n)"
proof (induction n rule: dec.induct)
  case (1 n)
  then show ?case by (cases "n < 10") (simp_all add: dec.simps [of n])
qed

lemma digit_val_zero [simp]: "digit_val CHR ''0'' = 0"
  by (simp add: digit_val_def)

lemma undec_replicate_zero: "undec (replicate k CHR ''0'' @ s) = undec s"
proof -
  have "foldl (\<lambda>a c. a * 10 + digit_val c) 0 (replicate k CHR ''0'') = 0"
    by (induction k) simp_all
  then show ?thesis by (simp add: undec_def)
qed

lemma undec_dec4: "undec (dec4 n) = n"
  by (simp add: dec4_def undec_replicate_zero undec_dec)

lemma dec4_inj: "dec4 m = dec4 n \<longleftrightarrow> m = n"
  by (metis undec_dec4)

lemma dec4_digits: "list_all is_digit (dec4 n)"
proof -
  have "is_digit CHR ''0''" by (simp add: is_digit_def)
  with dec_digits [of n] show ?thesis by (auto simp: dec4_def list_all_iff)
qed

text \<open>Typed placeholders \<open>[TYPE_0001]\<close>: the type and the number can be read back.\<close>

definition placeholder :: "string \<Rightarrow> nat \<Rightarrow> string" where
  "placeholder ty n = ''['' @ ty @ ''_'' @ dec4 n @ '']''"

lemma split_last_sep:
  assumes "xs @ c # ds = ys @ c # es" "c \<notin> set ds" "c \<notin> set es"
  shows "xs = ys \<and> ds = es"
proof -
  have "rev (xs @ c # ds) = rev (ys @ c # es)" using assms(1) by simp
  then have eq: "rev ds @ c # rev xs = rev es @ c # rev ys" by simp
  have "takeWhile (\<lambda>x. x \<noteq> c) (rev ds @ c # rev xs) = rev ds"
    using assms(2) by (subst takeWhile_append2) auto
  moreover have "takeWhile (\<lambda>x. x \<noteq> c) (rev es @ c # rev ys) = rev es"
    using assms(3) by (subst takeWhile_append2) auto
  ultimately have "rev ds = rev es" using eq by metis
  with eq show ?thesis by simp
qed

lemma placeholder_inj: "placeholder a m = placeholder b n \<longleftrightarrow> a = b \<and> m = n"
proof
  assume eq: "placeholder a m = placeholder b n"
  have no: "CHR ''_'' \<notin> set (dec4 k)" for k
    using dec4_digits [of k] by (auto simp: list_all_iff is_digit_def)
  from eq have "a @ CHR ''_'' # dec4 m = b @ CHR ''_'' # dec4 n"
    by (simp add: placeholder_def)
  from split_last_sep [OF this no no] show "a = b \<and> m = n" by (simp add: dec4_inj)
qed simp

end
