(* ===== verification/Detectors.thy ===== *)
theory Detectors
  imports RegexDetector Json
begin

text \<open>
  The detectors of \<open>app/inference\<close> around the regular-expression one: the contract that
  \<open>detector.py\<close> states (a locale, interpreted on \<open>RegexDetector\<close>), \<open>multipass.py\<close>, the name
  lookup of \<open>registry.py\<close>, the normalisation of GLiNER2 results (\<open>gliner2.py\<close>) and the
  BIO decoding and label mapping of \<open>openmed.py\<close>. The neural models are arguments: a
  function from the text and the labels to raw results.
\<close>

section \<open>The Detector protocol\<close>

text \<open>The second argument is \<open>None\<close> where a policy sets \<open>entity_types\<close> to null.\<close>

type_synonym detect_fun = "string \<Rightarrow> string list option \<Rightarrow> span list res"

definition regex_detector :: "rule list \<Rightarrow> detect_fun" where
  "regex_detector rules t types =
     (case types of None \<Rightarrow> Inl TypeError | Some ts \<Rightarrow> Inr (regex_detect rules t ts))"

text \<open>
  What the pipeline relies on: a detector that returns does so with half-open, non-empty
  intervals of the text.
\<close>

locale detector_protocol =
  fixes detect :: detect_fun
  assumes detect_in_range: "detect t types = Inr spans \<Longrightarrow> list_all (in_range (length t)) spans"
begin

lemma detect_validate: "detect t types = Inr spans \<Longrightarrow> validate_offsets t spans = spans"
  using detect_in_range [of t types spans] by (simp add: validate_offsets_filter list_all_iff)

lemma detect_dedupe: "detect t types = Inr spans \<Longrightarrow> valid_spans (length t) (dedupe_overlaps spans)"
  by (rule valid_dedupe_overlaps) (rule detect_in_range)

end

interpretation regex_rules: detector_protocol "regex_detector RULES"
  by unfold_locales
    (auto simp: regex_detector_def list_all_iff intro: regex_detect_in_range split: option.splits)

section \<open>\<open>multi_pass_detect\<close>\<close>

text \<open>
  The passes of one request may answer differently, so the detector is indexed by the pass.
  \<open>asyncio.gather\<close> raises when a pass raises; the model raises the first in pass order.
\<close>

fun gather :: "'a res list \<Rightarrow> 'a list res" where
  "gather [] = Inr []"
| "gather (r # rs) = bind_res r (\<lambda>x. map_res ((#) x) (gather rs))"

definition multi_pass_detect ::
  "(nat \<Rightarrow> detect_fun) \<Rightarrow> string \<Rightarrow> string list option \<Rightarrow> int \<Rightarrow> int \<Rightarrow> span list res" where
  "multi_pass_detect detect t types passes max_passes =
     (if passes < 1 then Inl ValueError
      else if passes > max_passes then Inl ValueError
      else if passes = 1 then map_res dedupe_overlaps (detect 0 t types)
      else map_res (\<lambda>results. dedupe_overlaps (concat results))
             (gather (map (\<lambda>i. detect i t types) [0..<nat passes])))"

lemma gather_Inr_iff: "gather rs = Inr xs \<longleftrightarrow> rs = map Inr xs"
  by (induction rs arbitrary: xs) (auto simp: bind_res_Inr_iff map_res_Inr_iff Cons_eq_map_conv)

lemma multi_pass_detect_valid:
  assumes "\<And>i. detector_protocol (detect i)" "multi_pass_detect detect t types passes mx = Inr spans"
  shows "valid_spans (length t) spans"
proof -
  have r: "list_all (in_range (length t)) ss" if "detect i t types = Inr ss" for i ss
    using detector_protocol.detect_in_range [OF assms(1) that] .
  show ?thesis
  proof (cases "passes = 1")
    case True
    with assms(2) r show ?thesis
      by (auto simp: multi_pass_detect_def map_res_Inr_iff split: if_splits intro: valid_dedupe_overlaps)
  next
    case False
    with assms(2) obtain rs where rs: "map (\<lambda>i. detect i t types) [0..<nat passes] = map Inr rs"
      "spans = dedupe_overlaps (concat rs)"
      by (auto simp: multi_pass_detect_def map_res_Inr_iff gather_Inr_iff split: if_splits)
    have "list_all (in_range (length t)) ss" if "ss \<in> set rs" for ss
    proof -
      from that obtain i where "detect i t types = Inr ss"
        using rs(1) by (metis (mono_tags, lifting) imageE image_eqI list.set_map)
      with r show ?thesis by blast
    qed
    then have "list_all (in_range (length t)) (concat rs)" by (auto simp: list_all_iff)
    with rs(2) show ?thesis by (auto intro: valid_dedupe_overlaps)
  qed
qed

section \<open>\<open>DetectorRegistry\<close>\<close>

type_synonym registry = "(string \<times> detect_fun) list"

definition detector_registry :: "(string \<times> detect_fun) list \<Rightarrow> registry" where
  "detector_registry detectors = foldl (\<lambda>acc (name, d). AList.update name d acc) [] detectors"

definition resolve :: "registry \<Rightarrow> string \<Rightarrow> detect_fun res" where
  "resolve reg name = (case map_of reg name of Some d \<Rightarrow> Inr d | None \<Rightarrow> Inl ValueError)"

lemma map_of_foldl_update:
  "map_of (foldl (\<lambda>acc (k, v). AList.update k v acc) acc xs) = map_of acc ++ map_of (rev xs)"
  by (induction xs arbitrary: acc) (auto simp: map_add_def fun_eq_iff split: option.splits)

lemma resolve_last_registered:
  "resolve (detector_registry (ds @ (name, d) # es)) name = Inr d" if "name \<notin> fst ` set es"
proof -
  from that have "map_of (rev es) name = None" by (simp add: map_of_eq_None_iff)
  then show ?thesis
    by (simp add: resolve_def detector_registry_def map_of_foldl_update map_add_def)
qed

section \<open>GLiNER2 results\<close>

text \<open>
  A value of the result's \<open>entities\<close> dictionary: a dictionary with optional keys (the text
  as \<open>str\<close> gives it, the confidence when it converts to a float), or something else, of
  which the code only uses \<open>str(value)\<close>.
\<close>

datatype gliner_value =
  GDict (gv_text: "string option") (gv_conf: "rat res option") (gv_start: "int option")
    (gv_end: "int option")
| GOther string

text \<open>\<open>str.find\<close>\<close>

fun find_from :: "int \<Rightarrow> 'a list \<Rightarrow> 'a list \<Rightarrow> int" where
  "find_from i sub [] = (if sub = [] then i else -1)"
| "find_from i sub (c # cs) =
     (if take (length sub) (c # cs) = sub then i else find_from (i + 1) sub cs)"

definition py_find :: "'a list \<Rightarrow> 'a list \<Rightarrow> int" where
  "py_find t sub = find_from 0 sub t"

definition gliner_value_span :: "string \<Rightarrow> string \<Rightarrow> gliner_value \<Rightarrow> span option res" where
  "gliner_value_span t canonical value =
     (case value of
        GDict tv conf st en \<Rightarrow>
          bind_res (case conf of None \<Rightarrow> Inr 1 | Some c \<Rightarrow> c) (\<lambda>confidence.
            let text_value = (case tv of None \<Rightarrow> '''' | Some x \<Rightarrow> x);
                found = py_find t text_value;
                (start, fin) =
                  (case (st, en) of
                     (Some a, Some b) \<Rightarrow> (a, b)
                   | _ \<Rightarrow> (found, if found \<ge> 0 then found + int (length text_value) else -1))
            in if start < 0 \<or> fin < 0 then Inr None
               else Inr (Some \<lparr>s_start = start, s_end = fin, s_type = canonical, s_conf = confidence\<rparr>))
      | GOther text_value \<Rightarrow>
          let start = py_find t text_value;
              fin = (if start \<ge> 0 then start + int (length text_value) else -1)
          in if start < 0 \<or> fin < 0 then Inr None
             else Inr (Some \<lparr>s_start = start, s_end = fin, s_type = canonical, s_conf = 1\<rparr>))"

fun gliner_values_spans :: "string \<Rightarrow> string \<Rightarrow> gliner_value list \<Rightarrow> span list res" where
  "gliner_values_spans t canonical [] = Inr []"
| "gliner_values_spans t canonical (v # vs) =
     bind_res (gliner_value_span t canonical v) (\<lambda>s.
       map_res (\<lambda>ss. (case s of None \<Rightarrow> ss | Some x \<Rightarrow> x # ss)) (gliner_values_spans t canonical vs))"

fun gliner_entities_spans :: "string \<Rightarrow> (string \<times> gliner_value list) list \<Rightarrow> span list res" where
  "gliner_entities_spans t [] = Inr []"
| "gliner_entities_spans t ((label, values) # rest) =
     bind_res (gliner_values_spans t (py_upper label) values) (\<lambda>ss.
       map_res ((@) ss) (gliner_entities_spans t rest))"

text \<open>The argument is the \<open>entities\<close> key or attribute, \<open>None\<close> when it is missing.\<close>

definition normalize_gliner2_result ::
  "string \<Rightarrow> (string \<times> gliner_value list) list option \<Rightarrow> span list res" where
  "normalize_gliner2_result t entities =
     map_res (sort_key (\<lambda>s. (s_start s, s_end s)))
       (gliner_entities_spans t (case entities of None \<Rightarrow> [] | Some e \<Rightarrow> e))"

lemma find_from_spec:
  "(find_from i sub t = -1 \<and> (0 \<le> i \<longrightarrow> \<not> (\<exists>k \<le> length t. take (length sub) (drop k t) = sub)))
   \<or> (\<exists>k. k + length sub \<le> length t \<and> find_from i sub t = i + int k
        \<and> take (length sub) (drop k t) = sub \<and> (\<forall>j < k. take (length sub) (drop j t) \<noteq> sub))"
proof (induction i sub t rule: find_from.induct)
  case (2 i sub c cs)
  show ?case
  proof (cases "take (length sub) (c # cs) = sub")
    case True
    then have "length sub \<le> length (c # cs)" by (metis length_take min.cobounded1)
    with True show ?thesis by (intro disjI2 exI [of _ 0]) simp
  next
    case False
    from "2.IH" [OF False] show ?thesis
    proof
      assume h: "find_from (i + 1) sub cs = - 1 \<and>
        (0 \<le> i + 1 \<longrightarrow> \<not> (\<exists>k\<le>length cs. take (length sub) (drop k cs) = sub))"
      have "\<not> (\<exists>k\<le>length (c # cs). take (length sub) (drop k (c # cs)) = sub)" if "0 \<le> i"
      proof clarify
        fix k assume k: "k \<le> length (c # cs)" "take (length sub) (drop k (c # cs)) = sub"
        show False using h k False that by (cases k) auto
      qed
      with h False show ?thesis by auto
    next
      assume "\<exists>k. k + length sub \<le> length cs \<and> find_from (i + 1) sub cs = i + 1 + int k
        \<and> take (length sub) (drop k cs) = sub \<and> (\<forall>j < k. take (length sub) (drop j cs) \<noteq> sub)"
      then obtain k where k: "k + length sub \<le> length cs" "find_from (i + 1) sub cs = i + 1 + int k"
        "take (length sub) (drop k cs) = sub" "\<forall>j < k. take (length sub) (drop j cs) \<noteq> sub" by blast
      have "take (length sub) (drop j (c # cs)) \<noteq> sub" if "j < Suc k" for j
        using that k False by (cases j) auto
      with k False show ?thesis by (intro disjI2 exI [of _ "Suc k"]) auto
    qed
  qed
qed auto

lemma py_find_nonneg:
  assumes "0 \<le> py_find t sub"
  shows "py_find t sub + int (length sub) \<le> int (length t)"
    "py_slice (py_find t sub) (py_find t sub + int (length sub)) t = sub"
  using assms find_from_spec [of 0 sub t] by (auto simp: py_find_def py_slice_in_range)

section \<open>\<open>GLiNER2Detector\<close>\<close>

definition default_labels :: "string list" where
  "default_labels =
     [''person'', ''full_name'', ''first_name'', ''middle_name'', ''last_name'', ''date_of_birth'',
      ''email'', ''phone_number'', ''address'', ''street_address'', ''city'', ''state_or_region'',
      ''postal_code'', ''country'', ''government_id'', ''national_id_number'', ''passport_number'',
      ''drivers_license_number'', ''license_number'', ''tax_id'', ''tax_number'', ''bank_account'',
      ''account_number'', ''routing_number'', ''iban'', ''payment_card'', ''card_number'',
      ''card_expiry'', ''card_cvv'', ''username'', ''ip_address'', ''account_id'',
      ''sensitive_account_id'', ''password'', ''secret'', ''api_key'', ''access_token'',
      ''recovery_code'', ''sensitive_date'', ''document_date'', ''expiration_date'',
      ''transaction_date'']"

text \<open>
  A loaded model is its \<open>extract_entities\<close> function of text, labels and threshold; \<open>None\<close> is
  a detector that has not been loaded. \<open>load\<close> runs the loader only then.
\<close>

type_synonym gliner_model =
  "string \<Rightarrow> string list \<Rightarrow> rat \<Rightarrow> (string \<times> gliner_value list) list option res"

definition gliner_load :: "gliner_model res \<Rightarrow> gliner_model option \<Rightarrow> gliner_model option res" where
  "gliner_load loader model = (case model of Some m \<Rightarrow> Inr (Some m) | None \<Rightarrow> map_res Some loader)"

definition gliner_detect :: "gliner_model option \<Rightarrow> rat \<Rightarrow> detect_fun" where
  "gliner_detect model threshold t types =
     (case model of
        None \<Rightarrow> Inl RuntimeError
      | Some extract \<Rightarrow>
          bind_res (extract t (case types of Some (l # ls) \<Rightarrow> l # ls | _ \<Rightarrow> default_labels) threshold)
            (normalize_gliner2_result t))"

section \<open>\<open>OpenMedPIIDetector\<close>\<close>

definition LABEL_MAP :: "(string \<times> string) list" where
  "LABEL_MAP =
     [(''account_number'', ''CREDIT_CARD''), (''api_key'', ''URL''),
      (''bank_routing_number'', ''CREDIT_CARD''), (''certificate_license_number'', ''URL''),
      (''credit_card_number'', ''CREDIT_CARD''), (''credit_debit_card'', ''CREDIT_CARD''),
      (''cvv'', ''CREDIT_CARD''), (''device_identifier'', ''URL''), (''email'', ''EMAIL''),
      (''employee_id'', ''URL''), (''fax_number'', ''PHONE_E164''),
      (''health_plan_beneficiary_number'', ''SSN_US''), (''ipv4'', ''IP_ADDRESS''),
      (''ipv6'', ''IP_ADDRESS''), (''mac_address'', ''URL''),
      (''medical_record_number'', ''SSN_US''), (''passport_number'', ''URL''),
      (''phone_number'', ''PHONE_E164''), (''social_security_number'', ''SSN_US''),
      (''ssn'', ''SSN_US''), (''tax_id'', ''SSN_US''), (''url'', ''URL''), (''iban'', ''IBAN''),
      (''account_id'', ''URL''), (''username'', ''EMAIL''),
      (''driver'' @ [CHR 0x27] @ ''s_license_number'', ''URL''), (''license_number'', ''URL''),
      (''first_name'', ''PERSON''), (''last_name'', ''PERSON''), (''name'', ''PERSON''),
      (''date_of_birth'', ''PERSON''), (''age'', ''PERSON''), (''gender'', ''PERSON''),
      (''occupation'', ''URL''), (''address'', ''URL''), (''city'', ''URL''), (''state'', ''URL''),
      (''zipcode'', ''URL''), (''postcode'', ''URL''), (''street_address'', ''URL''),
      (''date'', ''URL''), (''time'', ''URL''), (''company_name'', ''URL''),
      (''organization'', ''URL'')]"

definition replace_char :: "char \<Rightarrow> char \<Rightarrow> string \<Rightarrow> string" where
  "replace_char a b = map (\<lambda>c. if c = a then b else c)"

definition sanitize_label :: "string \<Rightarrow> string" where
  "sanitize_label label =
     (if label = [] then ''URL''
      else dict_get LABEL_MAP
             (replace_char CHR ''-'' CHR ''_'' (replace_char CHR '' '' CHR ''_''
               (py_strip (py_lower label))))
             ''URL'')"

text \<open>The per-entity dictionary of \<open>detect_sync\<close> and its conversion.\<close>

record entity =
  en_label :: string
  char_start :: int
  char_end :: int
  word_id :: nat

definition entity_to_span :: "entity \<Rightarrow> span" where
  "entity_to_span c =
     \<lparr>s_start = char_start c, s_end = char_end c, s_type = en_label c, s_conf = 9/10\<rparr>"

definition starts_with :: "'a list \<Rightarrow> 'a list \<Rightarrow> bool" where
  "starts_with s pre \<longleftrightarrow> take (length pre) s = pre"

text \<open>
  The decoding loop, over the word ids (\<open>None\<close> for a special token), with the predicted
  label index, the label dictionary and the offsets as the tokenizer and the model give
  them; \<open>spans\<close> holds what has been appended.
\<close>

fun bio_loop ::
  "int list \<Rightarrow> (int \<Rightarrow> string option) \<Rightarrow> (int \<times> int) list \<Rightarrow> nat \<Rightarrow> nat option list \<Rightarrow>
   entity option \<Rightarrow> span list \<Rightarrow> span list res" where
  "bio_loop preds id2label offsets idx [] current spans =
     Inr (case current of None \<Rightarrow> spans | Some c \<Rightarrow> spans @ [entity_to_span c])"
| "bio_loop preds id2label offsets idx (None # wids) current spans =
     bio_loop preds id2label offsets (Suc idx) wids None spans"
| "bio_loop preds id2label offsets idx (Some wid # wids) current spans =
     (if idx \<ge> length preds then Inl IndexError
      else
        (let label = (case id2label (preds ! idx) of None \<Rightarrow> ''O'' | Some l \<Rightarrow> l);
             (a, b) = (if idx < length offsets then offsets ! idx else (0, 0));
             flushed = (case current of None \<Rightarrow> spans | Some c \<Rightarrow> spans @ [entity_to_span c])
         in if starts_with label ''B-'' then
              bio_loop preds id2label offsets (Suc idx) wids
                (Some \<lparr>en_label = drop 2 label, char_start = a, char_end = b, word_id = wid\<rparr>) flushed
            else if starts_with label ''I-'' \<and> current \<noteq> None then
              bio_loop preds id2label offsets (Suc idx) wids
                (map_option (\<lambda>c. c\<lparr>char_end := b\<rparr>) current) spans
            else bio_loop preds id2label offsets (Suc idx) wids None flushed))"

definition openmed_detect_sync ::
  "int list \<Rightarrow> (int \<Rightarrow> string option) \<Rightarrow> (int \<times> int) list \<Rightarrow> nat option list \<Rightarrow> span list res" where
  "openmed_detect_sync preds id2label offsets word_ids =
     map_res (map (\<lambda>s. \<lparr>s_start = s_start s, s_end = s_end s, s_type = sanitize_label (s_type s),
                        s_conf = 9/10\<rparr>))
       (bio_loop preds id2label offsets 0 word_ids None [])"

section \<open>Properties of the detectors\<close>

text \<open>
  Whatever the pass count, what \<open>multi_pass_detect\<close> returns for a detector that keeps
  the contract is a list of in-range, pairwise disjoint spans of the text, and a result is
  returned only for a pass count between 1 and the cap.
\<close>

theorem multi_pass_detect_sound:
  assumes "\<And>i. detector_protocol (detect i)"
    and "multi_pass_detect detect t types passes max_passes = Inr spans"
  shows "valid_spans (length t) spans \<and> 1 \<le> passes \<and> passes \<le> max_passes"
  using multi_pass_detect_valid [OF assms] assms(2)
  by (auto simp: multi_pass_detect_def split: if_splits)

theorem multi_pass_detect_sound_witness:
  "valid_spans (length ''ssn'') [] \<and> (1::int) \<le> 2 \<and> (2::int) \<le> 3"
proof (rule multi_pass_detect_sound [of "\<lambda>i. regex_detector []" "''ssn''" "Some []" 2 3 "[]"])
  show "detector_protocol (regex_detector [])"
    by unfold_locales (auto simp: regex_detector_def regex_detect_def split: option.splits)
  show "multi_pass_detect (\<lambda>i. regex_detector []) ''ssn'' (Some []) 2 3 = Inr []"
    by (simp add: multi_pass_detect_def regex_detector_def regex_detect_def dedupe_overlaps_def
        upt_rec)
qed

definition gliner_grounded :: "string \<Rightarrow> gliner_value \<Rightarrow> span \<Rightarrow> bool" where
  "gliner_grounded t v s =
     (0 \<le> s_start s \<and> 0 \<le> s_end s \<and>
      (case v of
         GDict tv conf (Some a) (Some b) \<Rightarrow> s_start s = a \<and> s_end s = b
       | GDict tv conf st en \<Rightarrow>
           s_end s \<le> int (length t) \<and>
           py_slice (s_start s) (s_end s) t = (case tv of None \<Rightarrow> '''' | Some x \<Rightarrow> x)
       | GOther x \<Rightarrow> s_end s \<le> int (length t) \<and> py_slice (s_start s) (s_end s) t = x))"

lemma gliner_value_span_grounded:
  "gliner_value_span t c v = Inr (Some s) \<Longrightarrow> gliner_grounded t v s \<and> s_type s = c"
  using py_find_nonneg [of t] py_find_nonneg [of t "[]", simplified]
  by (cases v) (auto simp: gliner_value_span_def gliner_grounded_def bind_res_Inr_iff Let_def
      split: option.splits if_splits)

lemma gliner_values_spans_grounded:
  "gliner_values_spans t c vs = Inr ss \<Longrightarrow>
     \<forall>s \<in> set ss. s_type s = c \<and> (\<exists>v \<in> set vs. gliner_grounded t v s)"
proof (induction vs arbitrary: ss)
  case (Cons v vs)
  then obtain o1 ss1 where o1: "gliner_value_span t c v = Inr o1"
    and ss1: "gliner_values_spans t c vs = Inr ss1"
    and ss: "ss = (case o1 of None \<Rightarrow> ss1 | Some x \<Rightarrow> x # ss1)"
    by (auto simp: bind_res_Inr_iff map_res_Inr_iff)
  from gliner_value_span_grounded [of t c v] o1 Cons.IH [OF ss1] ss show ?case
    by (cases o1) auto
qed simp

lemma gliner_entities_spans_grounded:
  "gliner_entities_spans t es = Inr ss \<Longrightarrow>
     \<forall>s \<in> set ss. \<exists>(label, vs) \<in> set es. s_type s = py_upper label
       \<and> (\<exists>v \<in> set vs. gliner_grounded t v s)"
proof (induction es arbitrary: ss)
  case (Cons e es)
  obtain label vs where e: "e = (label, vs)" by force
  with Cons.prems obtain ss1 ss2 where ss1: "gliner_values_spans t (py_upper label) vs = Inr ss1"
    and ss2: "gliner_entities_spans t es = Inr ss2" and ss: "ss = ss1 @ ss2"
    by (auto simp: bind_res_Inr_iff map_res_Inr_iff)
  from gliner_values_spans_grounded [OF ss1] Cons.IH [OF ss2] ss e show ?case by fastforce
qed simp

text \<open>
  Every span that \<open>normalize_gliner2_result\<close> makes is grounded in the result: its type is
  the upper-cased label of an entity, its offsets are not negative, and they are either those
  the model gave or delimit an occurrence in the text of the string the model gave. The
  spans are sorted by start and end.
\<close>

theorem normalize_gliner2_result_grounded:
  assumes "normalize_gliner2_result t (Some es) = Inr spans"
  shows "sorted (map (\<lambda>s. (s_start s, s_end s)) spans) \<and>
    (\<forall>s \<in> set spans. \<exists>(label, vs) \<in> set es. s_type s = py_upper label \<and>
       (\<exists>v \<in> set vs. gliner_grounded t v s))"
  using assms gliner_entities_spans_grounded [of t es]
  by (auto simp: normalize_gliner2_result_def map_res_Inr_iff)

theorem normalize_gliner2_result_grounded_witness:
  "\<exists>v. gliner_grounded ''hi bob'' v (mk_span 3 6 ''PERSON'' (1/2))"
proof -
  have "normalize_gliner2_result ''hi bob''
      (Some [(''person'', [GDict (Some ''bob'') (Some (Inr (1/2))) None None])])
    = Inr [mk_span 3 6 ''PERSON'' (1/2)]" by code_simp
  from normalize_gliner2_result_grounded [OF this] show ?thesis by auto
qed

definition canonical_types :: "string list" where
  "canonical_types =
     [''URL'', ''CREDIT_CARD'', ''EMAIL'', ''PHONE_E164'', ''SSN_US'', ''IP_ADDRESS'', ''IBAN'', ''PERSON'']"

lemma LABEL_MAP_canonical: "list_all (\<lambda>(k, v). List.member canonical_types v) LABEL_MAP"
  by code_simp

lemma sanitize_label_canonical: "sanitize_label l \<in> set canonical_types"
proof -
  have "v \<in> set canonical_types" if "map_of LABEL_MAP k = Some v" for k v
    using map_of_SomeD [OF that] LABEL_MAP_canonical by (auto simp: list_all_iff)
  moreover have "''URL'' \<in> set canonical_types" by (simp add: canonical_types_def)
  ultimately show ?thesis
    unfolding sanitize_label_def dict_get_def by (simp split: option.split)
qed

lemma bio_loop_inside:
  assumes "\<And>i. idx \<le> i \<Longrightarrow> i < idx + length ws \<Longrightarrow> id2label (preds ! i) = Some (''I-'' @ l)"
    "idx + length ws < length preds"
  shows "bio_loop preds id2label offsets idx (map Some ws @ [None]) (Some c) spans = Inr spans"
  using assms
proof (induction ws arbitrary: idx c)
  case (Cons w ws)
  have "id2label (preds ! idx) = Some (''I-'' @ l)" using Cons.prems(1) by simp
  moreover have "bio_loop preds id2label offsets (Suc idx) (map Some ws @ [None]) (Some c') spans
      = Inr spans" for c'
    using Cons.prems by (intro Cons.IH) auto
  ultimately show ?case
    using Cons.prems(2) by (simp add: starts_with_def split: prod.splits)
qed simp

text \<open>
  An entity that runs up to the closing special token is lost: when the model labels
  every word of the text as one entity (a B- label, then I- labels), \<open>detect_sync\<close> returns
  no span at all, because the loop resets \<open>current\<close> at a special token without appending it.
\<close>

theorem openmed_final_entity_lost:
  assumes "length preds = length ws + 3" "id2label (preds ! 1) = Some (''B-'' @ l)"
    "\<And>i. 2 \<le> i \<Longrightarrow> i < length ws + 2 \<Longrightarrow> id2label (preds ! i) = Some (''I-'' @ l)"
  shows "openmed_detect_sync preds id2label offsets ([None, Some w] @ map Some ws @ [None]) = Inr []"
proof -
  have "bio_loop preds id2label offsets 2 (map Some ws @ [None]) (Some c) [] = Inr []" for c
    using assms by (intro bio_loop_inside) auto
  then show ?thesis
    using assms(1,2)
    by (simp add: openmed_detect_sync_def starts_with_def numeral_2_eq_2 split: prod.splits)
qed

theorem openmed_final_entity_lost_witness:
  "openmed_detect_sync [0, 1, 2, 0]
     (\<lambda>i. if i = 1 then Some ''B-first_name'' else if i = 2 then Some ''I-first_name'' else Some ''O'')
     [(0, 0), (0, 4), (4, 8), (0, 0)] ([None, Some 0] @ map Some [1] @ [None]) = Inr []"
  by (rule openmed_final_entity_lost [where l = "''first_name''"]) (auto simp: numeral_eq_Suc less_Suc_eq)

end
