(* ===== verification/Strategies.thy ===== *)
theory Strategies
  imports Detectors
begin

text \<open>
  \<open>app/redaction/strategy.py\<close> and \<open>app/redaction/relex.py\<close>: the per-field redaction actions
  that a policy names, each a function of the text, the spans and the field's configuration
  (a decoded mapping), and the HIPS relexicaliser with its cross-request cache. Keyed
  hashes are arguments. The lemmas show what reaches the output and that the placeholders
  of the relex mode can be told apart.
\<close>

type_synonym config = "(json \<times> json) list"

record strategy_result =
  sr_text :: string
  sr_spans :: "span list"
  sr_relex_map :: "(string \<times> string) list"
  sr_substitutions :: "(span \<times> string) list option"

type_synonym strategy = "string \<Rightarrow> span list \<Rightarrow> config \<Rightarrow> strategy_result res"

section \<open>Reading the configuration\<close>

text \<open>
  The shapes that \<open>parse_policy\<close> lets through are null and strings for \<open>format\<close> and
  \<open>detector\<close>, null and lists of strings for \<open>entity_types\<close>; for the others the model raises
  \<open>TypeError\<close>.
\<close>

fun json_strings :: "json list \<Rightarrow> string list res" where
  "json_strings [] = Inr []"
| "json_strings (JStr s # js) = map_res ((#) s) (json_strings js)"
| "json_strings (_ # js) = Inl TypeError"

fun entity_types_arg :: "json \<Rightarrow> string list option res" where
  "entity_types_arg JNull = Inr None"
| "entity_types_arg (JList js) = map_res Some (json_strings js)"
| "entity_types_arg _ = Inl TypeError"

definition REDACTED :: string where
  "REDACTED = ''[REDACTED]''"

section \<open>Skip and Mask\<close>

definition skip_run :: strategy where
  "skip_run t spans cfg =
     Inr \<lparr>sr_text = t, sr_spans = [], sr_relex_map = [], sr_substitutions = None\<rparr>"

text \<open>\<open>str.replace\<close> for a non-empty pattern: leftmost matches, without overlap.\<close>

function py_replace :: "'a list \<Rightarrow> 'a list \<Rightarrow> 'a list \<Rightarrow> 'a list" where
  "py_replace old new [] = []"
| "py_replace old new (c # cs) =
     (if old \<noteq> [] \<and> starts_with (c # cs) old
      then new @ py_replace old new (drop (length old) (c # cs))
      else c # py_replace old new cs)"
  by pat_completeness auto
termination
proof (relation "measure (\<lambda>(old, new, cs). length cs)", goal_cases)
  case (2 old new c cs)
  then show ?case by (cases old) auto
qed auto

definition render_format :: "string \<Rightarrow> string \<Rightarrow> string \<Rightarrow> string" where
  "render_format fmt span_text span_type =
     py_replace ''{type}'' span_type
       (py_replace ''{text}'' span_text
         (py_replace ''{last4}'' (py_from (-4) span_text) fmt))"

text \<open>A format that is not a string has no \<open>replace\<close>; it is only touched when there is a span.\<close>

fun render_all :: "json \<Rightarrow> string \<Rightarrow> span list \<Rightarrow> string list res" where
  "render_all fmt t [] = Inr []"
| "render_all (JStr fmt) t (s # ss) =
     map_res ((#) (render_format fmt (py_slice (s_start s) (s_end s) t) (s_type s)))
       (render_all (JStr fmt) t ss)"
| "render_all _ t (s # ss) = Inl AttributeError"

definition substituted :: "string \<Rightarrow> span list \<Rightarrow> (string \<times> string) list \<Rightarrow> string list \<Rightarrow> strategy_result res" where
  "substituted t spans relex replacements =
     map_res (\<lambda>masked. \<lparr>sr_text = masked, sr_spans = spans, sr_relex_map = relex,
                        sr_substitutions = Some (zip spans replacements)\<rparr>)
       (apply_spans t spans replacements)"

definition mask_run :: strategy where
  "mask_run t spans cfg =
     bind_res (render_all (jget_or cfg ''format'' (JStr REDACTED)) t spans)
       (substituted t spans [])"

section \<open>Hash\<close>

text \<open>\<open>hmac_hex key msg\<close> is the hexadecimal HMAC-SHA256 digest.\<close>

fun hash_replacements ::
  "(string \<Rightarrow> string \<Rightarrow> string) \<Rightarrow> string \<Rightarrow> config \<Rightarrow> string \<Rightarrow> span list \<Rightarrow> string list res" where
  "hash_replacements hmac_hex salt cfg t [] = Inr []"
| "hash_replacements hmac_hex salt cfg t (s # ss) =
     bind_res (py_int (jget_or cfg ''length'' (JInt 8))) (\<lambda>n.
       map_res ((#) (''[HASH:'' @ py_upto n (hmac_hex salt (py_slice (s_start s) (s_end s) t)) @ '']''))
         (hash_replacements hmac_hex salt cfg t ss))"

definition hash_run :: "(string \<Rightarrow> string \<Rightarrow> string) \<Rightarrow> string \<Rightarrow> strategy" where
  "hash_run hmac_hex salt t spans cfg =
     bind_res (hash_replacements hmac_hex salt cfg t spans) (substituted t spans [])"

section \<open>Regex\<close>

text \<open>\<open>resolve_detector\<close>: the bound detector, or one with the shipped rules.\<close>

definition resolve_detector :: "detect_fun option \<Rightarrow> detect_fun" where
  "resolve_detector d = (case d of Some f \<Rightarrow> f | None \<Rightarrow> regex_detector RULES)"

definition regex_run :: "detect_fun option \<Rightarrow> strategy" where
  "regex_run d t spans cfg =
     bind_res (entity_types_arg (jget_or cfg ''entity_types'' (JList []))) (\<lambda>types.
     bind_res (resolve_detector d t types) (\<lambda>detected.
     bind_res (render_all (jget_or cfg ''format'' (JStr REDACTED)) t detected)
       (substituted t detected [])))"

section \<open>Deid\<close>

record deid =
  de_detector :: "nat \<Rightarrow> detect_fun"
  de_detectors :: "(string \<times> (nat \<Rightarrow> detect_fun)) list"
  de_max_passes :: int

text \<open>The relex map is a dict comprehension: a repeated entity keeps its last placeholder.\<close>

definition dict_of :: "('k \<times> 'v) list \<Rightarrow> ('k \<times> 'v) list" where
  "dict_of kvs = foldl (\<lambda>acc (k, v). AList.update k v acc) [] kvs"

definition deid_placeholders :: "span list \<Rightarrow> string list" where
  "deid_placeholders detected =
     map (\<lambda>(i, s). placeholder (py_upper (s_type s)) i) (enumerate 0 detected)"

text \<open>A format that is not a string breaks the join in \<open>apply_spans\<close>, when there is a span.\<close>

fun constant_replacements :: "json \<Rightarrow> nat \<Rightarrow> string list res" where
  "constant_replacements (JStr fmt) n = Inr (replicate n fmt)"
| "constant_replacements _ n = (if n = 0 then Inr [] else Inl TypeError)"

definition deid_chosen :: "deid \<Rightarrow> config \<Rightarrow> (nat \<Rightarrow> detect_fun) res" where
  "deid_chosen d cfg =
     (case jget cfg ''detector'' of
        JNull \<Rightarrow> Inr (de_detector d)
      | JStr name \<Rightarrow>
          (case map_of (de_detectors d) name of None \<Rightarrow> Inl ValueError | Some f \<Rightarrow> Inr f)
      | _ \<Rightarrow> Inl TypeError)"

definition deid_run :: "deid \<Rightarrow> strategy" where
  "deid_run d t spans cfg =
     bind_res (deid_chosen d cfg) (\<lambda>chosen.
     bind_res (py_int (jget_or cfg ''multi_pass'' (JInt 1))) (\<lambda>passes.
     bind_res (entity_types_arg (jget_or cfg ''entity_types'' (JList []))) (\<lambda>types.
     bind_res (multi_pass_detect chosen t types passes (de_max_passes d)) (\<lambda>detected.
       if truthy (jget_or cfg ''relex'' (JBool False)) then
         (let replacements = deid_placeholders detected
          in substituted t detected
               (dict_of (zip (map (\<lambda>s. py_slice (s_start s) (s_end s) t) detected) replacements))
               replacements)
       else
         bind_res (constant_replacements (jget_or cfg ''format'' (JStr REDACTED)) (length detected))
           (substituted t detected [])))))"

section \<open>Relexicalisation\<close>

record relex_result =
  rr_text :: string
  rr_relex_map :: "(string \<times> string) list"

type_synonym relex_cache = "(string \<times> string) list"

text \<open>\<open>sha_hex\<close> is the hexadecimal SHA-256 digest.\<close>

definition with_seed_signature :: "(string \<Rightarrow> string) \<Rightarrow> string \<Rightarrow> string \<Rightarrow> string" where
  "with_seed_signature sha_hex ph seed =
     ph @ ''-'' @ py_upto 4 (sha_hex (seed @ ''|'' @ ph))"

definition relex_cache_key :: "string option \<Rightarrow> string \<Rightarrow> string \<Rightarrow> string" where
  "relex_cache_key seed canonical_type ent =
     (case seed of
        None \<Rightarrow> canonical_type @ ''|'' @ ent
      | Some sd \<Rightarrow> if sd = [] then canonical_type @ ''|'' @ ent
                   else sd @ ''|'' @ canonical_type @ ''|'' @ ent)"

fun relex_loop ::
  "(string \<Rightarrow> string) \<Rightarrow> string option \<Rightarrow> string \<Rightarrow> span list \<Rightarrow> relex_cache \<Rightarrow> (string \<times> nat) list \<Rightarrow>
   (string \<times> string) list \<Rightarrow> (span \<times> string) list \<Rightarrow>
   relex_cache \<times> (string \<times> string) list \<times> (span \<times> string) list" where
  "relex_loop sha seed t [] cache counts replacements out_pairs = (cache, replacements, out_pairs)"
| "relex_loop sha seed t (s # ss) cache counts replacements out_pairs =
     (let ent = py_slice (s_start s) (s_end s) t;
          ct = py_upper (s_type s);
          key = relex_cache_key seed ct ent
      in case map_of cache key of
           Some ph \<Rightarrow>
             relex_loop sha seed t ss cache counts (AList.update ent ph replacements)
               (out_pairs @ [(s, ph)])
         | None \<Rightarrow>
             (let k = Suc (dict_get counts ct 0);
                  ph = (case seed of None \<Rightarrow> placeholder ct k
                         | Some sd \<Rightarrow> with_seed_signature sha (placeholder ct k) sd)
              in relex_loop sha seed t ss (AList.update key ph cache) (AList.update ct k counts)
                   (AList.update ent ph replacements) (out_pairs @ [(s, ph)])))"

definition relexicalize ::
  "(string \<Rightarrow> string) \<Rightarrow> string \<Rightarrow> span list \<Rightarrow> string option \<Rightarrow> relex_cache \<Rightarrow>
   (relex_result \<times> relex_cache) res" where
  "relexicalize sha t spans seed cache =
     (if spans = [] then Inr (\<lparr>rr_text = t, rr_relex_map = []\<rparr>, cache)
      else
        (let (cache', replacements, out_pairs) = relex_loop sha seed t spans cache [] [] []
         in map_res (\<lambda>masked. (\<lparr>rr_text = masked, rr_relex_map = replacements\<rparr>, cache'))
              (apply_spans t (map fst out_pairs) (map snd out_pairs))))"

text \<open>
  \<open>HipsStrategy\<close> holds its own cache: \<open>cross_request_cache or {}\<close> replaces an empty
  dictionary of the caller by a fresh one. \<open>shares_cache\<close> says whether the caller's
  dictionary is the one that will be updated.
\<close>

definition hips_shares_cache :: "relex_cache option \<Rightarrow> bool" where
  "hips_shares_cache c = (case c of None \<Rightarrow> False | Some d \<Rightarrow> d \<noteq> [])"

definition seed_arg :: "json \<Rightarrow> string option res" where
  "seed_arg j = (case j of JNull \<Rightarrow> Inr None | JStr s \<Rightarrow> Inr (Some s) | _ \<Rightarrow> Inl TypeError)"

definition hips_run ::
  "(string \<Rightarrow> string) \<Rightarrow> detect_fun \<Rightarrow> relex_cache \<Rightarrow> string \<Rightarrow> config \<Rightarrow> (strategy_result \<times> relex_cache) res" where
  "hips_run sha detect cache t cfg =
     bind_res (entity_types_arg (jget_or cfg ''entity_types'' (JList []))) (\<lambda>types.
     bind_res (detect t types) (\<lambda>detected.
     bind_res (seed_arg (jget cfg ''relex_seed'')) (\<lambda>seed.
     map_res (\<lambda>(r, cache').
         (\<lparr>sr_text = rr_text r, sr_spans = detected, sr_relex_map = rr_relex_map r,
           sr_substitutions = Some (zip detected
             (map (\<lambda>s. dict_get (rr_relex_map r) (py_slice (s_start s) (s_end s) t) '''') detected))\<rparr>,
          cache'))
       (relexicalize sha t detected seed cache))))"

section \<open>What the strategies guarantee\<close>

lemma substituted_Inr:
  assumes "substituted t spans relex rs = Inr r"
  shows "apply_spans t spans rs = Inr (sr_text r)" "sr_spans r = spans" "sr_relex_map r = relex"
    "sr_substitutions r = Some (zip spans rs)"
  using assms by (auto simp: substituted_def map_res_Inr_iff)

lemma dict_of_map: "map_of (dict_of kvs) = map_of (rev kvs)"
  using map_of_foldl_update [of "[]" kvs] by (simp add: dict_of_def)

lemma deid_placeholders_nth:
  "i < length detected \<Longrightarrow>
   deid_placeholders detected ! i = placeholder (py_upper (s_type (detected ! i))) i"
  by (simp add: deid_placeholders_def nth_enumerate_eq)

lemma length_deid_placeholders [simp]: "length (deid_placeholders detected) = length detected"
  by (simp add: deid_placeholders_def)

lemma distinct_deid_placeholders: "distinct (deid_placeholders detected)"
  by (auto simp: distinct_conv_nth deid_placeholders_nth placeholder_inj)

definition deid_replacements :: "config \<Rightarrow> span list \<Rightarrow> string list" where
  "deid_replacements cfg spans =
     (if truthy (jget_or cfg ''relex'' (JBool False)) then deid_placeholders spans
      else (case jget_or cfg ''format'' (JStr REDACTED) of
              JStr fmt \<Rightarrow> replicate (length spans) fmt | _ \<Rightarrow> []))"

lemma deid_run_cases:
  assumes "deid_run d t spans cfg = Inr r"
  obtains chosen types passes rs where "multi_pass_detect chosen t types passes (de_max_passes d) = Inr (sr_spans r)"
    "deid_chosen d cfg = Inr chosen"
    "length rs = length (sr_spans r)"
    "apply_spans t (sr_spans r) rs = Inr (sr_text r)" "sr_substitutions r = Some (zip (sr_spans r) rs)"
    "rs = deid_replacements cfg (sr_spans r)"
    "sr_relex_map r = (if truthy (jget_or cfg ''relex'' (JBool False))
       then dict_of (zip (map (\<lambda>s. py_slice (s_start s) (s_end s) t) (sr_spans r)) rs) else [])"
proof -
  let ?relex = "truthy (jget_or cfg ''relex'' (JBool False))"
  from assms obtain chosen passes types detected where
    c: "deid_chosen d cfg = Inr chosen"
    and m: "multi_pass_detect chosen t types passes (de_max_passes d) = Inr detected"
    and r: "(if ?relex then
         (let replacements = deid_placeholders detected
          in substituted t detected
               (dict_of (zip (map (\<lambda>s. py_slice (s_start s) (s_end s) t) detected) replacements))
               replacements)
       else
         bind_res (constant_replacements (jget_or cfg ''format'' (JStr REDACTED)) (length detected))
           (substituted t detected [])) = Inr r"
    unfolding deid_run_def by (auto simp: bind_res_Inr_iff)
  show thesis
  proof (cases ?relex)
    case True
    with r have "substituted t detected
               (dict_of (zip (map (\<lambda>s. py_slice (s_start s) (s_end s) t) detected)
                 (deid_placeholders detected)))
               (deid_placeholders detected) = Inr r" by (simp add: Let_def)
    note s = substituted_Inr [OF this]
    show thesis by (rule that [OF m [folded s(2)] c, of "deid_placeholders detected"]) (use s True in \<open>auto simp: deid_replacements_def\<close>)
  next
    case False
    with r obtain rs where rs: "constant_replacements (jget_or cfg ''format'' (JStr REDACTED)) (length detected) = Inr rs"
      and "substituted t detected [] rs = Inr r" by (auto simp: bind_res_Inr_iff)
    note s = substituted_Inr [OF this(2)]
    have "rs = deid_replacements cfg detected \<and> length rs = length detected"
      using rs False unfolding deid_replacements_def by (cases "jget_or cfg ''format'' (JStr REDACTED)") (auto split: if_splits)
    with s False show thesis by (intro that [OF m [folded s(2)] c, of rs]) auto
  qed
qed

text \<open>
  C8. In relex mode the mapping that autoDeID returns can be inverted: two different entity
  texts never share a placeholder, and the placeholder recorded for a text is one that was
  substituted for an occurrence of exactly that text.
\<close>

theorem deid_relex_map_reversible:
  assumes "deid_run d t spans cfg = Inr r" "truthy (jget_or cfg ''relex'' (JBool False))"
    and "map_of (sr_relex_map r) a = Some p"
  shows "(\<exists>subs s. sr_substitutions r = Some subs \<and> (s, p) \<in> set subs
           \<and> py_slice (s_start s) (s_end s) t = a)
    \<and> (map_of (sr_relex_map r) b = Some p \<longrightarrow> b = a)"
proof -
  from assms(1) obtain rs where rs: "length rs = length (sr_spans r)"
    "sr_substitutions r = Some (zip (sr_spans r) rs)" "rs = deid_placeholders (sr_spans r)"
    "sr_relex_map r = dict_of (zip (map (\<lambda>s. py_slice (s_start s) (s_end s) t) (sr_spans r)) rs)"
    using assms(2) by (elim deid_run_cases) (simp add: deid_replacements_def)
  have idx: "\<exists>i < length rs. py_slice (s_start (sr_spans r ! i)) (s_end (sr_spans r ! i)) t = x
      \<and> rs ! i = y" if "map_of (sr_relex_map r) x = Some y" for x y
  proof -
    from that rs(4) have "(x, y) \<in> set (zip (map (\<lambda>s. py_slice (s_start s) (s_end s) t) (sr_spans r)) rs)"
      by (auto simp: dict_of_map dest: map_of_SomeD)
    with rs(1) show ?thesis by (auto simp: set_zip)
  qed
  from idx [OF assms(3)] obtain i where i: "i < length rs" "rs ! i = p"
    "py_slice (s_start (sr_spans r ! i)) (s_end (sr_spans r ! i)) t = a" by blast
  have "b = a" if "map_of (sr_relex_map r) b = Some p"
  proof -
    from idx [OF that] obtain j where j: "j < length rs" "rs ! j = p"
      "py_slice (s_start (sr_spans r ! j)) (s_end (sr_spans r ! j)) t = b" by blast
    with i have "i = j" using distinct_deid_placeholders rs(3) nth_eq_iff_index_eq by metis
    with i j show ?thesis by simp
  qed
  moreover have "(sr_spans r ! i, p) \<in> set (zip (sr_spans r) rs)"
    using i rs(1) by (auto simp: set_zip)
  ultimately show ?thesis using rs(2) i(3) by auto
qed

lemma deid_run_output_valid:
  assumes "deid_run d t spans cfg = Inr r" "\<And>chosen i. deid_chosen d cfg = Inr chosen \<Longrightarrow> detector_protocol (chosen i)"
  shows "valid_spans (length t) (sr_spans r)"
  using assms(1) by (elim deid_run_cases) (blast intro: multi_pass_detect_valid assms(2))

text \<open>
  C7. Nothing of a detected entity reaches autoDeID's output text, in either mode: for
  detectors that keep the contract, two texts of the same length in which the same spans
  are found and that agree outside those spans give the same output.
\<close>

theorem deid_run_noninterference:
  assumes "\<And>chosen i. deid_chosen d cfg = Inr chosen \<Longrightarrow> detector_protocol (chosen i)"
    and "deid_run d t1 spans cfg = Inr r1" "deid_run d t2 spans cfg = Inr r2"
    and "sr_spans r1 = sr_spans r2" "length t2 = length t1"
    and "\<And>i. i < length t1 \<Longrightarrow> \<not> covered (sr_spans r1) i \<Longrightarrow> t1 ! i = t2 ! i"
  shows "sr_text r1 = sr_text r2"
proof -
  let ?rs = "deid_replacements cfg (sr_spans r1)"
  have a1: "apply_spans t1 (sr_spans r1) ?rs = Inr (sr_text r1)" "length ?rs = length (sr_spans r1)"
    using assms(2) by (elim deid_run_cases, simp)+
  have a2: "apply_spans t2 (sr_spans r1) ?rs = Inr (sr_text r2)"
    unfolding assms(4) using assms(3) by (elim deid_run_cases) simp
  have v: "valid_spans (length t1) (sr_spans r1)" using assms(2,1) by (rule deid_run_output_valid)
  have "apply_spans t1 (sr_spans r1) ?rs = apply_spans t2 (sr_spans r1) ?rs"
    by (rule apply_spans_cong [OF v a1(2) assms(5,6)])
  with a1(1) a2 show ?thesis by simp
qed

definition demo_deid :: deid where
  "demo_deid = \<lparr>de_detector = (\<lambda>i. regex_detector RULES), de_detectors = [], de_max_passes = 3\<rparr>"

lemma demo_deid_protocol:
  "deid_chosen demo_deid cfg = Inr chosen \<Longrightarrow> detector_protocol (chosen i)"
  using regex_rules.detector_protocol_axioms
  by (auto simp: deid_chosen_def demo_deid_def split: json.splits)

definition demo_cfg :: config where
  "demo_cfg = [(JStr ''strategy'', JStr ''autoDeID''), (JStr ''relex'', JBool True)]"

definition demo_result :: "string \<Rightarrow> strategy_result" where
  "demo_result e =
     \<lparr>sr_text = ''a [EMAIL_0000]'', sr_spans = [mk_span 2 8 ''EMAIL'' 1],
      sr_relex_map = [(e, ''[EMAIL_0000]'')],
      sr_substitutions = Some [(mk_span 2 8 ''EMAIL'' 1, ''[EMAIL_0000]'')]\<rparr>"

lemma demo_run:
  "deid_run demo_deid ''a b@c.de'' [] demo_cfg = Inr (demo_result ''b@c.de'')"
  "deid_run demo_deid ''a x@y.zw'' [] demo_cfg = Inr (demo_result ''x@y.zw'')"
  by code_simp+

theorem deid_relex_map_reversible_witness:
  "\<exists>subs s. sr_substitutions (demo_result ''b@c.de'') = Some subs \<and> (s, ''[EMAIL_0000]'') \<in> set subs
      \<and> py_slice (s_start s) (s_end s) ''a b@c.de'' = ''b@c.de''"
  by (rule deid_relex_map_reversible [OF demo_run(1), THEN conjunct1])
    (simp_all add: demo_result_def demo_cfg_def jget_or_def dict_get_def)

theorem deid_run_noninterference_witness:
  "sr_text (demo_result ''b@c.de'') = sr_text (demo_result ''x@y.zw'')"
proof (rule deid_run_noninterference [where cfg = demo_cfg and d = demo_deid and spans = "[]"])
  show "detector_protocol (chosen i)" if "deid_chosen demo_deid demo_cfg = Inr chosen" for chosen i
    using that by (rule demo_deid_protocol)
  show "deid_run demo_deid ''a b@c.de'' [] demo_cfg = Inr (demo_result ''b@c.de'')"
    "deid_run demo_deid ''a x@y.zw'' [] demo_cfg = Inr (demo_result ''x@y.zw'')"
    by (rule demo_run)+
  show "sr_spans (demo_result ''b@c.de'') = sr_spans (demo_result ''x@y.zw'')"
    by (simp add: demo_result_def)
  show "''a b@c.de'' ! i = ''a x@y.zw'' ! i"
    if "i < length ''a b@c.de''" "\<not> covered (sr_spans (demo_result ''b@c.de'')) i" for i
    using that by (auto simp: demo_result_def covered_def mk_span_def less_Suc_eq)
qed simp_all

section \<open>What the relexicaliser guarantees\<close>

text \<open>
  The loop's invariant: the cache only grows, and each pair it emits is the cache entry of
  the span's key, so one key has one placeholder for as long as the cache lives.
\<close>

definition relex_key_of :: "string option \<Rightarrow> string \<Rightarrow> span \<Rightarrow> string" where
  "relex_key_of seed t s =
     relex_cache_key seed (py_upper (s_type s)) (py_slice (s_start s) (s_end s) t)"

lemma relex_loop_invariant:
  assumes "relex_loop sha seed t spans cache counts reps pairs = (cache', reps', pairs')"
    and "\<forall>(s, ph) \<in> set pairs. map_of cache (relex_key_of seed t s) = Some ph"
  shows "map_of cache \<subseteq>\<^sub>m map_of cache' \<and> map fst pairs' = map fst pairs @ spans
    \<and> (\<forall>(s, ph) \<in> set pairs'. map_of cache' (relex_key_of seed t s) = Some ph)"
  using assms
proof (induction sha seed t spans cache counts reps pairs rule: relex_loop.induct)
  case (2 sha seed t s ss cache counts reps pairs)
  let ?ent = "py_slice (s_start s) (s_end s) t" and ?ct = "py_upper (s_type s)"
  let ?key = "relex_key_of seed t s"
  have key: "relex_cache_key seed ?ct ?ent = ?key" by (simp add: relex_key_of_def)
  show ?case
  proof (cases "map_of cache ?key")
    case (Some ph)
    with "2.prems"(1) have "relex_loop sha seed t ss cache counts (AList.update ?ent ph reps)
        (pairs @ [(s, ph)]) = (cache', reps', pairs')" by (simp add: Let_def key)
    moreover have "\<forall>(s, ph) \<in> set (pairs @ [(s, ph)]). map_of cache (relex_key_of seed t s) = Some ph"
      using "2.prems"(2) Some by auto
    ultimately show ?thesis
      using "2.IH"(2) [OF refl refl refl, unfolded key, OF Some] by auto
  next
    case None
    let ?k = "Suc (dict_get counts ?ct 0)"
    let ?ph = "case seed of None \<Rightarrow> placeholder ?ct ?k
                 | Some sd \<Rightarrow> with_seed_signature sha (placeholder ?ct ?k) sd"
    from None "2.prems"(1) have "relex_loop sha seed t ss (AList.update ?key ?ph cache)
        (AList.update ?ct ?k counts) (AList.update ?ent ?ph reps) (pairs @ [(s, ?ph)])
        = (cache', reps', pairs')" by (simp add: Let_def key)
    moreover have "\<forall>(s', ph) \<in> set (pairs @ [(s, ?ph)]).
        map_of (AList.update ?key ?ph cache) (relex_key_of seed t s') = Some ph"
      using "2.prems"(2) None by (fastforce simp del: placeholder_inj)
    ultimately have IH: "map_of (AList.update ?key ?ph cache) \<subseteq>\<^sub>m map_of cache'"
        "map fst pairs' = map fst (pairs @ [(s, ?ph)]) @ ss"
        "\<forall>(s, ph) \<in> set pairs'. map_of cache' (relex_key_of seed t s) = Some ph"
      using "2.IH"(1) [OF refl refl refl, unfolded key, OF None refl refl] by blast+
    have "map_of cache \<subseteq>\<^sub>m map_of (AList.update ?key ?ph cache)"
      using None by (auto simp: map_le_def)
    from map_le_trans [OF this IH(1)] IH(2,3) show ?thesis by simp
  qed
qed simp

lemma relexicalize_cases:
  assumes "relexicalize sha t spans seed cache = Inr (r, cache')"
  obtains phs where "length phs = length spans" "apply_spans t spans phs = Inr (rr_text r)"
    "map_of cache \<subseteq>\<^sub>m map_of cache'"
    "\<And>i. i < length spans \<Longrightarrow> map_of cache' (relex_key_of seed t (spans ! i)) = Some (phs ! i)"
proof (cases "spans = []")
  case True
  with assms show thesis by (intro that [of "[]"]) (auto simp: relexicalize_def apply_spans_def)
next
  case False
  obtain c2 reps pairs where loop: "relex_loop sha seed t spans cache [] [] [] = (c2, reps, pairs)"
    using prod_cases3 by blast
  with assms False have a: "apply_spans t (map fst pairs) (map snd pairs) = Inr (rr_text r)" "c2 = cache'"
    by (auto simp: relexicalize_def map_res_Inr_iff)
  from relex_loop_invariant [OF loop] have i: "map_of cache \<subseteq>\<^sub>m map_of c2" "map fst pairs = spans"
    "\<forall>(s, ph) \<in> set pairs. map_of c2 (relex_key_of seed t s) = Some ph" by auto
  show thesis
  proof (rule that [of "map snd pairs"])
    show "map_of cache' (relex_key_of seed t (spans ! i)) = Some (map snd pairs ! i)"
      if "i < length spans" for i
    proof -
      have "(spans ! i, map snd pairs ! i) \<in> set pairs"
        using that i(2) by (metis length_map nth_map nth_mem prod.collapse)
      with i(3) a(2) show ?thesis by auto
    qed
    show "length (map snd pairs) = length spans" unfolding i(2) [symmetric] by simp
    show "apply_spans t spans (map snd pairs) = Inr (rr_text r)" using a(1) unfolding i(2) .
    show "map_of cache \<subseteq>\<^sub>m map_of cache'" using i(1) unfolding a(2) .
  qed
qed

text \<open>
  The placeholders are consistent across requests that share the cache: a first call
  hands its cache on to a second; where the spans of the two calls have the same type and
  entity text under the same seed, the two substituted placeholders are the same.
\<close>

theorem relexicalize_consistent:
  assumes "relexicalize sha t1 spans1 seed cache = Inr (r1, cache1)"
    and "relexicalize sha t2 spans2 seed cache1 = Inr (r2, cache2)"
  shows "\<exists>phs1 phs2. length phs1 = length spans1 \<and> length phs2 = length spans2
    \<and> apply_spans t1 spans1 phs1 = Inr (rr_text r1) \<and> apply_spans t2 spans2 phs2 = Inr (rr_text r2)
    \<and> (\<forall>i < length spans1. \<forall>j < length spans2.
         relex_key_of seed t1 (spans1 ! i) = relex_key_of seed t2 (spans2 ! j) \<longrightarrow>
         phs1 ! i = phs2 ! j)"
proof -
  from relexicalize_cases [OF assms(1)] obtain p1 where p1: "length p1 = length spans1"
    "apply_spans t1 spans1 p1 = Inr (rr_text r1)"
    "\<And>i. i < length spans1 \<Longrightarrow> map_of cache1 (relex_key_of seed t1 (spans1 ! i)) = Some (p1 ! i)"
    by blast
  from relexicalize_cases [OF assms(2)] obtain p2 where p2: "length p2 = length spans2"
    "apply_spans t2 spans2 p2 = Inr (rr_text r2)" "map_of cache1 \<subseteq>\<^sub>m map_of cache2"
    "\<And>i. i < length spans2 \<Longrightarrow> map_of cache2 (relex_key_of seed t2 (spans2 ! i)) = Some (p2 ! i)"
    by blast
  have "p1 ! i = p2 ! j" if "i < length spans1" "j < length spans2"
    "relex_key_of seed t1 (spans1 ! i) = relex_key_of seed t2 (spans2 ! j)" for i j
    using p1(3) [OF that(1)] p2(3,4) that by (metis map_le_def domI option.inject)
  with p1 p2 show ?thesis by blast
qed

theorem relexicalize_consistent_witness:
  "\<exists>phs1 phs2. apply_spans ''bob'' [mk_span 0 3 ''P'' 1] phs1 = Inr ''[P_0001]''
    \<and> apply_spans ''hi bob'' [mk_span 3 6 ''P'' 1] phs2 = Inr ''hi [P_0001]'' \<and> phs1 ! 0 = phs2 ! 0"
proof -
  have "relexicalize id ''bob'' [mk_span 0 3 ''P'' 1] None [] =
      Inr (\<lparr>rr_text = ''[P_0001]'', rr_relex_map = [(''bob'', ''[P_0001]'')]\<rparr>, [(''P|bob'', ''[P_0001]'')])"
    by code_simp
  moreover have "relexicalize id ''hi bob'' [mk_span 3 6 ''P'' 1] None [(''P|bob'', ''[P_0001]'')] =
      Inr (\<lparr>rr_text = ''hi [P_0001]'', rr_relex_map = [(''bob'', ''[P_0001]'')]\<rparr>, [(''P|bob'', ''[P_0001]'')])"
    by code_simp
  moreover have "relex_key_of None ''bob'' ([mk_span 0 3 ''P'' 1] ! 0)
      = relex_key_of None ''hi bob'' ([mk_span 3 6 ''P'' 1] ! 0)" by code_simp
  ultimately show ?thesis using relexicalize_consistent by fastforce
qed

text \<open>
  The converse fails: the numbers restart in every call while the cache lives on, so the
  second call can give a new entity the placeholder of an old one, and within one call two
  entities then share a placeholder.
\<close>

lemma relexicalize_collision:
  "relexicalize sha ''bob amy'' [mk_span 0 3 ''P'' 1, mk_span 4 7 ''P'' 1] None
     [(''P|amy'', ''[P_0001]'')]
   = Inr (\<lparr>rr_text = ''[P_0001] [P_0001]'',
            rr_relex_map = [(''bob'', ''[P_0001]''), (''amy'', ''[P_0001]'')]\<rparr>,
          [(''P|amy'', ''[P_0001]''), (''P|bob'', ''[P_0001]'')])"
  by code_simp

end
