(* ===== verification/RemapBounds.thy ===== *)
theory RemapBounds
  imports Spans
begin

text \<open>
  \<open>inverse_position_remap\<close> of \<open>app/redaction/apply.py\<close> for spans that may overlap, as the regex
  strategy passes them: every position of the substituted text is mapped to a position of
  the original text, and the map is monotone. The substituted text is never longer than
  the segments together, since each overlap only removes characters.
\<close>

section \<open>The length of the substituted text\<close>

definition span_cells :: "span \<Rightarrow> int set" where
  "span_cells s = {s_start s..<s_end s}"

text \<open>The positions of the text that no span covers, from a position on.\<close>

definition free_cells :: "nat \<Rightarrow> int \<Rightarrow> span set \<Rightarrow> int set" where
  "free_cells n from A = {x. from \<le> x \<and> x < int n \<and> (\<forall>s \<in> A. x \<notin> span_cells s)}"

lemma finite_free_cells [simp]: "finite (free_cells n from A)"
  by (rule finite_subset [of _ "{from..<int n}"]) (auto simp: free_cells_def)

lemma free_cells_split:
  assumes "from \<le> to"
  shows "card (free_cells n from A) \<le> nat (to - from) + card (free_cells n to A)"
proof -
  have "free_cells n from A \<subseteq> {from..<to} \<union> free_cells n to A"
    using assms by (auto simp: free_cells_def)
  then have "card (free_cells n from A) \<le> card ({from..<to} \<union> free_cells n to A)"
    by (intro card_mono) auto
  also have "\<dots> \<le> card {from..<to} + card (free_cells n to A)" by (rule card_Un_le)
  finally show ?thesis by simp
qed

lemma free_cells_insert:
  assumes "0 \<le> s_start s" "s_end s \<le> int n" "s_start s < s_end s" "\<forall>a \<in> A. s_start s \<le> s_start a"
  shows "nat (s_start s) + card (free_cells n (s_end s) A) \<le> card (free_cells n 0 (insert s A))"
proof -
  have "{0..<s_start s} \<union> free_cells n (s_end s) A \<subseteq> free_cells n 0 (insert s A)"
    using assms by (auto simp: free_cells_def span_cells_def)
  then have "card ({0..<s_start s} \<union> free_cells n (s_end s) A) \<le> card (free_cells n 0 (insert s A))"
    by (intro card_mono) auto
  moreover have "card ({0..<s_start s} \<union> free_cells n (s_end s) A) = card {0..<s_start s} + card (free_cells n (s_end s) A)"
    by (intro card_Un_disjoint finite_free_cells) (use assms(3) in \<open>auto simp: free_cells_def\<close>)
  ultimately show ?thesis by simp
qed

lemma length_apply_step:
  assumes "0 \<le> s_start (spans ! i)" "0 \<le> s_end (spans ! i)"
  shows "length (apply_step spans replacement out i)
    \<le> nat (s_start (spans ! i)) + length (replacement ! i) + (length out - nat (s_end (spans ! i)))"
  using assms by (simp add: apply_step_def py_upto_nonneg py_from_nonneg)

text \<open>The loop runs from the right: what is still to come starts no later.\<close>

lemma length_apply_loop:
  assumes "\<forall>i \<in> set js. in_range (length t) (spans ! i)" "sorted_wrt (\<lambda>i j. s_start (spans ! j) \<le> s_start (spans ! i)) js"
  shows "length (foldl (apply_step spans replacement) t js)
    \<le> sum_list (map (\<lambda>i. length (replacement ! i)) js) + card (free_cells (length t) 0 ((!) spans ` set js))"
  using assms
proof (induction js rule: rev_induct)
  case Nil
  have "free_cells (length t) 0 {} = {0..<int (length t)}" by (auto simp: free_cells_def)
  then show ?case by simp
next
  case (snoc j js)
  let ?s = "spans ! j" and ?A = "(!) spans ` set js" and ?n = "length t"
  let ?out = "foldl (apply_step spans replacement) t js"
  have s: "0 \<le> s_start ?s" "s_start ?s < s_end ?s" "s_end ?s \<le> int ?n"
    using snoc.prems(1) by (auto simp: in_range_def)
  have IH: "length ?out \<le> sum_list (map (\<lambda>i. length (replacement ! i)) js) + card (free_cells ?n 0 ?A)"
    using snoc by (simp add: sorted_wrt_append)
  have "\<forall>a \<in> ?A. s_start ?s \<le> s_start a" using snoc.prems(2) by (auto simp: sorted_wrt_append)
  note ins = free_cells_insert [OF s(1,3,2) this]
  have "card (free_cells ?n 0 ?A) \<le> nat (s_end ?s) + card (free_cells ?n (s_end ?s) ?A)"
    using free_cells_split [of 0 "s_end ?s" ?n ?A] s by simp
  with IH ins length_apply_step [of spans j replacement ?out] s show ?case by simp
qed

section \<open>The segments\<close>

text \<open>The length of all segments from a position of the original text on.\<close>

fun segments_length :: "int \<Rightarrow> int \<Rightarrow> (span \<times> 'a list) list \<Rightarrow> int" where
  "segments_length n prev [] = max 0 (n - prev)"
| "segments_length n prev ((s, r) # ps) =
     max 0 (s_start s - prev) + int (length r) + segments_length n (s_end s) ps"

text \<open>Pairs by start, non-empty and inside the text; they may overlap.\<close>

definition started_pairs :: "nat \<Rightarrow> (span \<times> 'a list) list \<Rightarrow> bool" where
  "started_pairs n ps \<longleftrightarrow> (\<forall>p \<in> set ps. in_range n (fst p)) \<and> sorted (map (s_start \<circ> fst) ps)"

lemma started_pairs_Cons:
  "started_pairs n ((s, r) # ps) \<longleftrightarrow>
     in_range n s \<and> (\<forall>p \<in> set ps. s_start s \<le> s_start (fst p)) \<and> started_pairs n ps"
  by (auto simp: started_pairs_def)

lemma segments_length_nonneg: "0 \<le> segments_length n prev ps"
  by (induction n prev ps rule: segments_length.induct) auto

lemma free_cells_segments:
  assumes "started_pairs n ps" "0 \<le> prev" "prev \<le> int n"
  shows "int (card (free_cells n prev (fst ` set ps))) + int (sum_list (map (length \<circ> snd) ps))
    \<le> segments_length (int n) prev ps"
  using assms
proof (induction ps arbitrary: prev)
  case Nil
  have "free_cells n prev {} = {prev..<int n}" by (auto simp: free_cells_def)
  with Nil show ?case by simp
next
  case (Cons p ps)
  obtain s r where p: "p = (s, r)" by force
  have s: "0 \<le> s_start s" "s_start s < s_end s" "s_end s \<le> int n" and ps: "started_pairs n ps"
    using Cons.prems(1) by (auto simp: p started_pairs_Cons in_range_def)
  have IH: "int (card (free_cells n (s_end s) (fst ` set ps))) + int (sum_list (map (length \<circ> snd) ps))
      \<le> segments_length (int n) (s_end s) ps"
    using s by (intro Cons.IH [OF ps]) simp_all
  have "free_cells n prev (fst ` set (p # ps)) \<subseteq> {prev..<s_start s} \<union> free_cells n (s_end s) (fst ` set ps)"
    by (auto simp: free_cells_def span_cells_def p)
  then have "card (free_cells n prev (fst ` set (p # ps))) \<le> card ({prev..<s_start s} \<union> free_cells n (s_end s) (fst ` set ps))"
    by (intro card_mono) auto
  also have "\<dots> \<le> card {prev..<s_start s} + card (free_cells n (s_end s) (fst ` set ps))" by (rule card_Un_le)
  finally show ?case using IH by (simp add: p o_def)
qed

lemma segments_first:
  "0 < segments_length n prev ps \<Longrightarrow> \<exists>x rest. remap_segments n np prev ps = (np, x) # rest"
  by (cases "(n, np, prev, ps)" rule: remap_segments.cases) (auto simp: Let_def)

lemma segments_starts: "seg \<in> set (remap_segments n np prev ps) \<Longrightarrow> np \<le> fst seg"
proof (induction n np prev ps rule: remap_segments.induct)
  case (2 n np prev s r ps)
  let ?np = "if s_start s > prev then np + (s_start s - prev) else np"
  from "2.prems" consider "fst seg = np \<or> fst seg = ?np"
    | "seg \<in> set (remap_segments n (?np + int (length r)) (s_end s) ps)"
    by (auto simp: Let_def split: if_splits)
  then show ?case
  proof cases
    case 2
    then have "?np + int (length r) \<le> fst seg" by (rule "2.IH" [OF refl refl])
    then show ?thesis by (auto split: if_splits)
  qed (auto split: if_splits)
qed (auto split: if_splits)

lemma segments_sorted: "sorted (map fst (remap_segments n np prev ps))"
proof (induction n np prev ps rule: remap_segments.induct)
  case (2 n np prev s r ps)
  let ?np = "if s_start s > prev then np + (s_start s - prev) else np"
  have "\<forall>seg \<in> set (remap_segments n (?np + int (length r)) (s_end s) ps). ?np + int (length r) \<le> fst seg"
    using segments_starts by blast
  with 2 show ?case by (fastforce simp: Let_def)
qed simp

definition any_pos :: "int \<Rightarrow> int \<Rightarrow> int \<Rightarrow> (span \<times> 'a list) list \<Rightarrow> int \<Rightarrow> int" where
  "any_pos n np prev ps p = seg_origin (seg_at (remap_segments n np prev ps) p) p"

lemma any_pos_Cons:
  assumes "np \<le> p" "p < np + segments_length n prev ((s, r) # ps)"
    and "np1 = np + max 0 (s_start s - prev)" "np2 = np1 + int (length r)"
  shows "any_pos n np prev ((s, r) # ps) p =
     (if p < np1 then prev + (p - np) else if p < np2 then s_start s else any_pos n np2 (s_end s) ps p)"
proof -
  let ?rest = "remap_segments n np2 (s_end s) ps" and ?segs = "remap_segments n np prev ((s, r) # ps)"
  have segs: "?segs = (if prev < s_start s then [(np, prev, s_start s - prev, False)] else [])
         @ [(np1, s_start s, int (length r), True)] @ ?rest"
    using assms(3,4) by (auto simp: Let_def max_def)
  have starts: "\<forall>seg \<in> set ?rest. np2 \<le> fst seg" using segments_starts by blast
  consider (A) "p < np1" | (B) "np1 \<le> p" "p < np2" | (C) "np2 \<le> p" by linarith
  then show ?thesis
  proof cases
    case A
    then have "seg_at ?segs p = (np, prev, s_start s - prev, False)"
      using assms(1,3) unfolding seg_at_def segs by (simp add: max_def split: if_splits)
    with A show ?thesis by (simp add: any_pos_def)
  next
    case B
    have "takeWhile (\<lambda>seg. fst seg \<le> p) ?rest = []" using starts B by (cases ?rest) fastforce+
    then have "seg_at ?segs p = (np1, s_start s, int (length r), True)"
      unfolding segs by (intro seg_at_hit) (use B assms(1) in auto)
    with B show ?thesis by (simp add: any_pos_def)
  next
    case C
    have "0 < segments_length n (s_end s) ps" using C assms(2-4) by simp
    from segments_first [OF this] obtain x rest where first: "?rest = (np2, x) # rest" by blast
    then have "takeWhile (\<lambda>seg. fst seg \<le> p) ?rest \<noteq> []" using C by simp
    moreover have "np1 \<le> p" using C assms(4) by linarith
    ultimately have "seg_at ?segs p = seg_at ?rest p"
      using assms(1) unfolding segs append_assoc [symmetric] by (subst seg_at_skip) (auto split: if_splits)
    with C assms(3,4) show ?thesis by (simp add: any_pos_def)
  qed
qed

text \<open>A lower bound of what is reached from here on.\<close>

definition lowest :: "int \<Rightarrow> (span \<times> 'a list) list \<Rightarrow> int" where
  "lowest prev ps = (case ps of [] \<Rightarrow> prev | (s, r) # _ \<Rightarrow> min prev (s_start s))"

lemma any_pos_bounds:
  assumes "started_pairs n ps" "0 \<le> prev" "prev \<le> int n" "np \<le> p" "p < np + segments_length (int n) prev ps"
  shows "lowest prev ps \<le> any_pos (int n) np prev ps p \<and> any_pos (int n) np prev ps p < int n"
  using assms
proof (induction ps arbitrary: np prev)
  case Nil
  then show ?case by (auto simp: any_pos_def seg_at_def lowest_def split: if_splits)
next
  case (Cons q ps)
  obtain s r where q: "q = (s, r)" by force
  have s: "0 \<le> s_start s" "s_start s < s_end s" "s_end s \<le> int n" and ps: "started_pairs n ps"
    and later: "\<forall>p \<in> set ps. s_start s \<le> s_start (fst p)"
    using Cons.prems(1) by (auto simp: q started_pairs_Cons in_range_def)
  let ?np2 = "np + max 0 (s_start s - prev) + int (length r)"
  have low: "s_start s \<le> lowest (s_end s) ps"
    using s(2) later by (auto simp: lowest_def split: list.split)
  have IH: "lowest (s_end s) ps \<le> any_pos (int n) ?np2 (s_end s) ps p \<and> any_pos (int n) ?np2 (s_end s) ps p < int n"
    if "?np2 \<le> p" using Cons.IH [OF ps _ s(3) that] s Cons.prems(5) by (simp add: q)
  note pos = any_pos_Cons [OF Cons.prems(4,5) [unfolded q] refl refl]
  show ?case unfolding q pos using low IH s Cons.prems(4) by (auto simp: lowest_def max_def split: if_splits)
qed

lemma any_pos_mono:
  assumes "started_pairs n ps" "0 \<le> prev" "prev \<le> int n" "np \<le> p" "p \<le> p'" "p' < np + segments_length (int n) prev ps"
  shows "any_pos (int n) np prev ps p \<le> any_pos (int n) np prev ps p'"
  using assms
proof (induction ps arbitrary: np prev)
  case Nil
  then show ?case by (auto simp: any_pos_def seg_at_def split: if_splits)
next
  case (Cons q ps)
  obtain s r where q: "q = (s, r)" by force
  have s: "0 \<le> s_start s" "s_start s < s_end s" "s_end s \<le> int n" and ps: "started_pairs n ps"
    and later: "\<forall>p \<in> set ps. s_start s \<le> s_start (fst p)"
    using Cons.prems(1) by (auto simp: q started_pairs_Cons in_range_def)
  let ?np2 = "np + max 0 (s_start s - prev) + int (length r)"
  have low: "s_start s \<le> lowest (s_end s) ps"
    using s(2) later by (auto simp: lowest_def split: list.split)
  have IH: "any_pos (int n) ?np2 (s_end s) ps p \<le> any_pos (int n) ?np2 (s_end s) ps p'" if "?np2 \<le> p"
    using Cons.IH [OF ps _ s(3) that] s Cons.prems(5,6) by (simp add: q)
  have lb: "s_start s \<le> any_pos (int n) ?np2 (s_end s) ps p'" if "?np2 \<le> p'"
    using any_pos_bounds [OF ps _ s(3) that] s low Cons.prems(6) by (simp add: q)
  have P: "p < np + segments_length (int n) prev ((s, r) # ps)" "np \<le> p'"
    using Cons.prems(4-6) by (auto simp: q)
  note pos = any_pos_Cons [OF Cons.prems(4) P(1) refl refl] any_pos_Cons [OF P(2) Cons.prems(6) [unfolded q] refl refl]
  show ?case unfolding q pos using IH lb Cons.prems(4,5) by (auto simp: max_def split: if_splits)
qed

section \<open>The map\<close>

lemma sum_list_perm: "mset xs = mset ys \<Longrightarrow> sum_list (map h xs) = (sum_list (map h ys) :: nat)"
  by (metis mset_map sum_mset_sum_list)

lemma apply_spans_length:
  assumes "list_all (in_range (length t)) spans" "length rs = length spans" "apply_spans t spans rs = Inr out"
  shows "int (length out) \<le> segments_length (int (length t)) 0 (sort_key (s_start \<circ> fst) (zip spans rs))"
    (is "_ \<le> segments_length _ _ ?ps")
proof -
  let ?n = "length t" and ?f = "\<lambda>i. s_start (spans ! i)"
  let ?js = "sorted_reverse ?f [0..<length spans]"
  have js: "set ?js = {..<length spans}" by (auto simp: sorted_reverse_def)
  have desc: "sorted_wrt (\<lambda>i j. ?f j \<le> ?f i) ?js"
    using sorted_sort_key [of ?f "rev [0..<length spans]"]
    by (simp add: sorted_reverse_def sorted_wrt_rev sorted_wrt_map)
  have rng: "\<forall>i \<in> set ?js. in_range ?n (spans ! i)" using assms(1) by (simp add: js list_all_length)
  have out: "out = foldl (apply_step spans rs) t ?js"
    using assms(2,3) by (cases "spans = []") (auto simp: apply_spans_def sorted_reverse_def)
  have zip: "zip spans rs = map (\<lambda>i. (spans ! i, rs ! i)) [0..<length spans]"
    by (rule nth_equalityI) (simp_all add: assms(2))
  have "sum_list (map (\<lambda>i. length (rs ! i)) ?js) = sum_list (map (\<lambda>i. length (rs ! i)) [0..<length spans])"
    by (rule sum_list_perm) (simp add: sorted_reverse_def)
  also have "\<dots> = sum_list (map (length \<circ> snd) (zip spans rs))" by (simp add: zip comp_def)
  also have "\<dots> = sum_list (map (length \<circ> snd) ?ps)" by (rule sum_list_perm) simp
  finally have sums: "sum_list (map (\<lambda>i. length (rs ! i)) ?js) = sum_list (map (length \<circ> snd) ?ps)" .
  have "set spans = fst ` set ?ps" using assms(2) by (metis list.set_map map_fst_zip set_sort)
  moreover have "(!) spans ` set ?js = set spans" unfolding js by (auto simp: in_set_conv_nth)
  ultimately have cells: "(!) spans ` set ?js = fst ` set ?ps" by simp
  have "started_pairs ?n ?ps"
    using assms(1) by (auto simp: started_pairs_def list_all_iff dest: set_zip_leftD)
  note free_cells_segments [OF this, of 0]
  with length_apply_loop [OF rng desc, of rs] show ?thesis unfolding out cells sums by simp
qed

text \<open>
  For spans inside the text, overlapping or not: the map is defined on every position of the
  substituted text, leads into the original text and is monotone.
\<close>

lemma inverse_position_remap_total:
  assumes "list_all (in_range (length t)) spans" "length rs = length spans" "apply_spans t spans rs = Inr out"
  shows "\<exists>f g. inverse_position_remap t spans rs = Inr f
    \<and> (\<forall>p. 0 \<le> p \<longrightarrow> p < int (length out) \<longrightarrow> f p = Inr (g p) \<and> 0 \<le> g p \<and> g p < int (length t))
    \<and> (\<forall>p q. 0 \<le> p \<longrightarrow> p \<le> q \<longrightarrow> q < int (length out) \<longrightarrow> g p \<le> g q)"
proof -
  let ?ps = "sort_key (s_start \<circ> fst) (zip spans rs)" and ?n = "length t"
  let ?segs = "remap_segments (int ?n) 0 0 ?ps" and ?g = "any_pos (int ?n) 0 0 ?ps"
  have st: "started_pairs ?n ?ps"
    using assms(1) by (auto simp: started_pairs_def list_all_iff dest: set_zip_leftD)
  have len: "int (length out) \<le> segments_length (int ?n) 0 ?ps" by (rule apply_spans_length [OF assms])
  have low: "0 \<le> lowest 0 ?ps"
    by (cases ?ps) (use st in \<open>auto simp: lowest_def started_pairs_Cons in_range_def\<close>)
  have "remap ?segs p = Inr (?g p) \<and> 0 \<le> ?g p \<and> ?g p < int ?n" if "0 \<le> p" "p < int (length out)" for p
  proof -
    have "0 < segments_length (int ?n) 0 ?ps" using that len by linarith
    from segments_first [OF this, of 0] obtain x rest where "?segs = (0, x) # rest" by blast
    then have "remap ?segs p = Inr (?g p)"
      unfolding any_pos_def using that by (intro remap_eq_seg_origin segments_sorted) simp_all
    with any_pos_bounds [OF st, of 0 0 p] that len low show ?thesis by simp
  qed
  moreover have "?g p \<le> ?g q" if "0 \<le> p" "p \<le> q" "q < int (length out)" for p q
    using any_pos_mono [OF st, of 0 0 p q] that len by simp
  moreover have "inverse_position_remap t spans rs = Inr (remap ?segs)"
    using assms(2) by (simp add: inverse_position_remap_def)
  ultimately show ?thesis by (intro exI [of _ "remap ?segs"] exI [of _ ?g]) blast
qed

end
