(* ===== verification/Redactor.thy ===== *)
theory Redactor
  imports Strategies RemapBounds
begin

text \<open>
  \<open>app/redaction/redactor.py\<close>: the single-shot path (detect, validate, dedupe, substitute)
  and the policy path, which runs one strategy per field over the text of the previous one
  and maps the reported spans back to the original text through the composed inverse
  remaps. The counter \<open>ENTITIES_DETECTED\<close> is the list of its increments.
\<close>

section \<open>The single-shot path\<close>

record redaction_result =
  rd_text :: string
  rd_spans :: "span list"
  rd_relex_map :: "(string \<times> string) list"

text \<open>An \<open>ENTITIES_DETECTED\<close> increment: entity type and strategy label.\<close>

type_synonym entity_metric = "string \<times> string"

definition redactor_plain ::
  "detect_fun \<Rightarrow> string \<Rightarrow> string \<Rightarrow> string list option \<Rightarrow> (redaction_result \<times> entity_metric list) res" where
  "redactor_plain detect replacement t entity_types =
     bind_res (detect t (Some (case entity_types of None \<Rightarrow> [] | Some ls \<Rightarrow> ls))) (\<lambda>raw_spans.
       let spans = dedupe_overlaps (validate_offsets t raw_spans)
       in map_res (\<lambda>out. (\<lparr>rd_text = out, rd_spans = spans, rd_relex_map = []\<rparr>,
                          map (\<lambda>s. (s_type s, ''auto'')) spans))
            (apply_spans t spans (replicate (length spans) replacement)))"

section \<open>The policy path\<close>

type_synonym remap_fun = "int \<Rightarrow> int res"

definition compose_remaps :: "remap_fun \<Rightarrow> remap_fun \<Rightarrow> remap_fun" where
  "compose_remaps newer older p = bind_res (newer p) older"

definition recast :: "remap_fun option \<Rightarrow> span \<Rightarrow> span res" where
  "recast remap_to_original s =
     (case remap_to_original of
        None \<Rightarrow> Inr s
      | Some f \<Rightarrow>
          bind_res (f (s_start s)) (\<lambda>a.
          map_res (\<lambda>b. \<lparr>s_start = a, s_end = b + 1, s_type = s_type s, s_conf = s_conf s\<rparr>)
            (f (s_end s - 1))))"

text \<open>The loop's state: text so far, reported spans, relex map, inverse remap, metrics.\<close>

record policy_state =
  ps_text :: string
  ps_spans :: "span list"
  ps_relex_map :: "(string \<times> string) list"
  ps_remap :: "remap_fun option"
  ps_metrics :: "entity_metric list"

definition policy_absorb ::
  "string \<Rightarrow> strategy_result \<Rightarrow> policy_state \<Rightarrow> policy_state res" where
  "policy_absorb strategy_name r st =
     bind_res (gather (map (recast (ps_remap st)) (sr_spans r))) (\<lambda>recasts.
     bind_res
       (case sr_substitutions r of
          None \<Rightarrow> Inr (ps_remap st)
        | Some subs \<Rightarrow>
            if subs = [] then Inr (ps_remap st)
            else
              map_res (\<lambda>new_to_current.
                  Some (case ps_remap st of None \<Rightarrow> new_to_current
                          | Some previous \<Rightarrow> compose_remaps new_to_current previous))
                (inverse_position_remap (ps_text st) (map fst subs) (map snd subs))) (\<lambda>remap'.
     Inr \<lparr>ps_text = sr_text r, ps_spans = ps_spans st @ recasts,
          ps_relex_map = dict_update (ps_relex_map st) (sr_relex_map r),
          ps_remap = remap',
          ps_metrics = ps_metrics st @ map (\<lambda>s. (s_type s, strategy_name)) (sr_spans r)\<rparr>))"

text \<open>A field without a strategy, or with one that is not configured, is passed over.\<close>

fun policy_fields ::
  "(string \<times> strategy) list \<Rightarrow> (json \<times> json) list \<Rightarrow> policy_state \<Rightarrow> policy_state res" where
  "policy_fields strategies [] st = Inr st"
| "policy_fields strategies ((fname, JDict cfg) # flds) st =
     (case jget cfg ''strategy'' of
        JStr name \<Rightarrow>
          (case map_of strategies name of
             None \<Rightarrow> policy_fields strategies flds st
           | Some run \<Rightarrow>
               bind_res (run (ps_text st) [] cfg) (\<lambda>r.
               bind_res (policy_absorb name r st) (policy_fields strategies flds)))
      | JList _ \<Rightarrow> Inl TypeError
      | JDict _ \<Rightarrow> Inl TypeError
      | _ \<Rightarrow> policy_fields strategies flds st)"
| "policy_fields strategies ((fname, _) # flds) st = Inl AttributeError"

definition policy_init :: "string \<Rightarrow> policy_state" where
  "policy_init t =
     \<lparr>ps_text = t, ps_spans = [], ps_relex_map = [], ps_remap = None, ps_metrics = []\<rparr>"

definition redactor_policy ::
  "(string \<times> strategy) list \<Rightarrow> string \<Rightarrow> (json \<times> json) list \<Rightarrow>
   (redaction_result \<times> entity_metric list) res" where
  "redactor_policy strategies t policy =
     (case jget_or policy ''fields'' (JDict []) of
        JDict flds \<Rightarrow>
          map_res (\<lambda>st. (\<lparr>rd_text = ps_text st, rd_spans = ps_spans st,
                         rd_relex_map = ps_relex_map st\<rparr>, ps_metrics st))
            (policy_fields strategies flds (policy_init t))
      | _ \<Rightarrow> Inl AttributeError)"

definition redactor_redact ::
  "detect_fun \<Rightarrow> (string \<times> strategy) list \<Rightarrow> string \<Rightarrow> string \<Rightarrow> (json \<times> json) list option \<Rightarrow>
   string list option \<Rightarrow> (redaction_result \<times> entity_metric list) res" where
  "redactor_redact detect strategies replacement t policy entity_types =
     (case policy of
        None \<Rightarrow> redactor_plain detect replacement t entity_types
      | Some p \<Rightarrow> redactor_policy strategies t p)"

text \<open>The strategies of \<open>create_state\<close> in \<open>app/main.py\<close>.\<close>

definition main_strategies ::
  "(string \<Rightarrow> string \<Rightarrow> string) \<Rightarrow> string \<Rightarrow> deid \<Rightarrow> (string \<times> strategy) list" where
  "main_strategies hmac_hex salt d =
     [(''passThrough'', skip_run), (''mask'', mask_run), (''hash'', hash_run hmac_hex salt),
      (''regex'', regex_run (Some (regex_detector RULES))), (''autoDeID'', deid_run d)]"

section \<open>The single-shot path keeps detected text out of its output\<close>

lemma redactor_plain_cases:
  assumes "redactor_plain detect rep t ts = Inr (r, ms)"
  obtains raw where "detect t (Some (case ts of None \<Rightarrow> [] | Some ls \<Rightarrow> ls)) = Inr raw"
    "rd_spans r = dedupe_overlaps (validate_offsets t raw)" "rd_relex_map r = []"
    "apply_spans t (rd_spans r) (replicate (length (rd_spans r)) rep) = Inr (rd_text r)"
    "ms = map (\<lambda>s. (s_type s, ''auto'')) (rd_spans r)"
  using assms by (auto simp: redactor_plain_def bind_res_Inr_iff map_res_Inr_iff Let_def)

lemma redactor_plain_valid:
  assumes "redactor_plain detect rep t ts = Inr (r, ms)"
  shows "valid_spans (length t) (rd_spans r)"
  using assms by (elim redactor_plain_cases) (simp add: valid_dedupe_validate)

text \<open>
  C5. Whatever the detector returns, even offsets outside the text, the single-shot path
  does not fail by itself: when the detector returns, so does \<open>plain\<close>, with pairwise disjoint
  spans inside the text that are among the detector's, and with the text in which each is
  replaced by the replacement string and everything else is kept in place.
\<close>

theorem redactor_plain_correct:
  assumes "detect t (Some (case ts of None \<Rightarrow> [] | Some ls \<Rightarrow> ls)) = Inr raw"
  shows "\<exists>r ms. redactor_plain detect rep t ts = Inr (r, ms)
    \<and> valid_spans (length t) (rd_spans r) \<and> set (rd_spans r) \<subseteq> set raw
    \<and> rd_text r = splice_spans t 0 (map (\<lambda>s. (s, rep)) (rd_spans r))"
proof -
  let ?ss = "dedupe_overlaps (validate_offsets t raw)"
  let ?zip = "zip ?ss (replicate (length ?ss) rep)"
  have zip: "?zip = map (\<lambda>s. (s, rep)) ?ss" by (simp add: zip_replicate2)
  have v: "valid_spans (length t) ?ss" by (rule valid_dedupe_validate)
  have "sort_key (s_start \<circ> fst) ?zip = ?zip"
    unfolding zip by (rule sort_key_id_if_sorted) (simp add: comp_def sorted_dedupe_overlaps)
  with apply_spans_eq_splice [OF v, of "replicate (length ?ss) rep"]
  have "apply_spans t ?ss (replicate (length ?ss) rep) = Inr (splice_spans t 0 (map (\<lambda>s. (s, rep)) ?ss))"
    by (simp add: zip)
  moreover have "set ?ss \<subseteq> set raw"
    using set_dedupe_overlaps_subset [of "validate_offsets t raw"]
    by (auto simp: validate_offsets_filter)
  ultimately show ?thesis using v assms by (simp add: redactor_plain_def Let_def)
qed

theorem redactor_plain_correct_witness:
  "\<exists>r ms. redactor_plain (\<lambda>t ts. Inr [mk_span 3 6 ''P'' 1, mk_span 90 95 ''P'' 1]) ''#'' ''hi bob!'' None = Inr (r, ms)
    \<and> valid_spans (length ''hi bob!'') (rd_spans r)
    \<and> set (rd_spans r) \<subseteq> set [mk_span 3 6 ''P'' 1, mk_span 90 95 ''P'' 1]
    \<and> rd_text r = splice_spans ''hi bob!'' 0 (map (\<lambda>s. (s, ''#'')) (rd_spans r))"
  by (rule redactor_plain_correct) simp

text \<open>
  C4. The single-shot path is free of leaks from the detected spans: two texts of the same
  length for which it reports the same spans, and which agree outside these spans, are
  redacted to the same text.
\<close>

theorem redactor_plain_noninterference:
  assumes "redactor_plain detect rep t1 ts = Inr (r1, ms1)"
    and "redactor_plain detect rep t2 ts = Inr (r2, ms2)"
    and "rd_spans r1 = rd_spans r2" "length t2 = length t1"
    and "\<And>i. i < length t1 \<Longrightarrow> \<not> covered (rd_spans r1) i \<Longrightarrow> t1 ! i = t2 ! i"
  shows "rd_text r1 = rd_text r2"
proof -
  have "apply_spans t1 (rd_spans r1) (replicate (length (rd_spans r1)) rep)
      = apply_spans t2 (rd_spans r1) (replicate (length (rd_spans r1)) rep)"
    by (rule apply_spans_cong [OF redactor_plain_valid [OF assms(1)] _ assms(4,5)]) simp
  then show ?thesis
    using assms(1,2) by (elim redactor_plain_cases) (simp flip: assms(3))
qed

definition demo_redaction :: redaction_result where
  "demo_redaction = \<lparr>rd_text = ''a [REDACTED]'', rd_spans = [mk_span 2 8 ''EMAIL'' 1], rd_relex_map = []\<rparr>"

lemma demo_plain:
  "redactor_plain (regex_detector RULES) REDACTED ''a b@c.de'' None = Inr (demo_redaction, [(''EMAIL'', ''auto'')])"
  "redactor_plain (regex_detector RULES) REDACTED ''a x@y.zw'' None = Inr (demo_redaction, [(''EMAIL'', ''auto'')])"
  by code_simp+

theorem redactor_plain_noninterference_witness:
  "rd_text demo_redaction = rd_text demo_redaction"
proof (rule redactor_plain_noninterference [OF demo_plain])
  show "''a b@c.de'' ! i = ''a x@y.zw'' ! i"
    if "i < length ''a b@c.de''" "\<not> covered (rd_spans demo_redaction) i" for i
    using that by (auto simp: demo_redaction_def covered_def mk_span_def less_Suc_eq)
qed simp_all

section \<open>Reported spans refer to the original text\<close>

text \<open>A remap into a text of length \<open>n\<close> that is defined and monotone on the positions below \<open>m\<close>.\<close>

definition remap_into :: "nat \<Rightarrow> nat \<Rightarrow> remap_fun \<Rightarrow> bool" where
  "remap_into n m f \<longleftrightarrow>
     (\<exists>g. (\<forall>p. 0 \<le> p \<longrightarrow> p < int m \<longrightarrow> f p = Inr (g p) \<and> 0 \<le> g p \<and> g p < int n)
        \<and> (\<forall>p q. 0 \<le> p \<longrightarrow> p \<le> q \<longrightarrow> q < int m \<longrightarrow> g p \<le> g q))"

lemma inverse_position_remap_into:
  assumes "list_all (in_range (length t)) spans" "length rs = length spans" "apply_spans t spans rs = Inr out"
  shows "\<exists>f. inverse_position_remap t spans rs = Inr f \<and> remap_into (length t) (length out) f"
  using inverse_position_remap_total [OF assms] unfolding remap_into_def by blast

lemma compose_remaps_into:
  assumes "remap_into m k newer" "remap_into n m older"
  shows "remap_into n k (compose_remaps newer older)"
proof -
  from assms(1) obtain g where g: "\<And>p. 0 \<le> p \<Longrightarrow> p < int k \<Longrightarrow> newer p = Inr (g p) \<and> 0 \<le> g p \<and> g p < int m"
    "\<And>p q. 0 \<le> p \<Longrightarrow> p \<le> q \<Longrightarrow> q < int k \<Longrightarrow> g p \<le> g q" unfolding remap_into_def by blast
  from assms(2) obtain h where h: "\<And>p. 0 \<le> p \<Longrightarrow> p < int m \<Longrightarrow> older p = Inr (h p) \<and> 0 \<le> h p \<and> h p < int n"
    "\<And>p q. 0 \<le> p \<Longrightarrow> p \<le> q \<Longrightarrow> q < int m \<Longrightarrow> h p \<le> h q" unfolding remap_into_def by blast
  show ?thesis
    unfolding remap_into_def
  proof (rule exI [of _ "\<lambda>p. h (g p)"], intro conjI allI impI)
    fix p :: int assume "0 \<le> p" "p < int k"
    with g(1) [of p] h(1) [of "g p"] show "compose_remaps newer older p = Inr (h (g p))"
      "0 \<le> h (g p)" "h (g p) < int n" by (simp_all add: compose_remaps_def)
  next
    fix p q :: int assume "0 \<le> p" "p \<le> q" "q < int k"
    with g(1) [of p] g(1) [of q] g(2) [of p q] show "h (g p) \<le> h (g q)" by (intro h(2)) simp_all
  qed
qed

text \<open>
  The contract of a strategy run on its own detection: the spans lie in the text, and the
  substitutions, where there are any, are of spans in the text and give the returned text.
  They may overlap, as those of the regex strategy do.
\<close>

locale strategy_protocol =
  fixes run :: strategy
  assumes run_spans: "run t [] cfg = Inr r \<Longrightarrow> list_all (in_range (length t)) (sr_spans r)"
    and run_text: "run t [] cfg = Inr r \<Longrightarrow>
      (case sr_substitutions r of None \<Rightarrow> sr_text r = t
        | Some subs \<Rightarrow> if subs = [] then sr_text r = t
            else list_all (in_range (length t)) (map fst subs)
              \<and> apply_spans t (map fst subs) (map snd subs) = Inr (sr_text r))"

lemma strategy_protocol_skip: "strategy_protocol skip_run"
  by unfold_locales (auto simp: skip_run_def)

lemma substituted_nil: "substituted t [] relex rs = Inr r \<Longrightarrow>
  sr_spans r = [] \<and> sr_text r = t \<and> sr_substitutions r = Some []"
  by (auto simp: substituted_def map_res_Inr_iff apply_spans_def)

lemma strategy_protocol_mask: "strategy_protocol mask_run"
  by unfold_locales (auto simp: mask_run_def bind_res_Inr_iff dest!: substituted_nil)

lemma strategy_protocol_hash: "strategy_protocol (hash_run h salt)"
  by unfold_locales (auto simp: hash_run_def bind_res_Inr_iff dest!: substituted_nil)

lemma render_all_length: "render_all fmt t ss = Inr rs \<Longrightarrow> length rs = length ss"
  by (induction fmt t ss arbitrary: rs rule: render_all.induct) (auto simp: map_res_Inr_iff)

lemma strategy_protocol_regex:
  assumes "case d of None \<Rightarrow> True | Some f \<Rightarrow> detector_protocol f"
  shows "strategy_protocol (regex_run d)"
proof unfold_locales
  have d: "detector_protocol (resolve_detector d)"
    using assms regex_rules.detector_protocol_axioms by (auto simp: resolve_detector_def split: option.splits)
  fix t cfg r assume "regex_run d t [] cfg = Inr r"
  then obtain types detected rs where det: "resolve_detector d t types = Inr detected"
    and rs: "render_all (jget_or cfg ''format'' (JStr REDACTED)) t detected = Inr rs"
    and out: "apply_spans t detected rs = Inr (sr_text r)"
    and r: "sr_spans r = detected" "sr_substitutions r = Some (zip detected rs)"
    by (auto simp: regex_run_def bind_res_Inr_iff substituted_def map_res_Inr_iff)
  have rng: "list_all (in_range (length t)) detected" by (rule detector_protocol.detect_in_range [OF d det])
  then show "list_all (in_range (length t)) (sr_spans r)" by (simp add: r)
  show "case sr_substitutions r of None \<Rightarrow> sr_text r = t
        | Some subs \<Rightarrow> if subs = [] then sr_text r = t
            else list_all (in_range (length t)) (map fst subs)
              \<and> apply_spans t (map fst subs) (map snd subs) = Inr (sr_text r)"
    using rng out render_all_length [OF rs] by (auto simp: r apply_spans_def)
qed

lemma strategy_protocol_deid:
  assumes "\<And>cfg chosen i. deid_chosen d cfg = Inr chosen \<Longrightarrow> detector_protocol (chosen i)"
  shows "strategy_protocol (deid_run d)"
proof unfold_locales
  fix t cfg r assume r: "deid_run d t [] cfg = Inr r"
  have v: "valid_spans (length t) (sr_spans r)"
    using r assms by (rule deid_run_output_valid)
  then show "list_all (in_range (length t)) (sr_spans r)" by (simp add: valid_spans_def)
  from r obtain rs where rs: "length rs = length (sr_spans r)"
    "apply_spans t (sr_spans r) rs = Inr (sr_text r)" "sr_substitutions r = Some (zip (sr_spans r) rs)"
    by (elim deid_run_cases)
  with v show "case sr_substitutions r of None \<Rightarrow> sr_text r = t
        | Some subs \<Rightarrow> if subs = [] then sr_text r = t
            else list_all (in_range (length t)) (map fst subs)
              \<and> apply_spans t (map fst subs) (map snd subs) = Inr (sr_text r)"
    by (auto simp: apply_spans_def valid_spans_def)
qed

interpretation skip_strategy: strategy_protocol skip_run by (rule strategy_protocol_skip)

interpretation mask_strategy: strategy_protocol mask_run by (rule strategy_protocol_mask)

interpretation hash_strategy: strategy_protocol "hash_run h salt" for h salt
  by (rule strategy_protocol_hash)

interpretation regex_strategy: strategy_protocol "regex_run (Some (regex_detector RULES))"
  by (rule strategy_protocol_regex) (simp add: regex_rules.detector_protocol_axioms)

interpretation demo_deid_strategy: strategy_protocol "deid_run demo_deid"
  using demo_deid_protocol by (rule strategy_protocol_deid)

definition policy_inv :: "string \<Rightarrow> policy_state \<Rightarrow> bool" where
  "policy_inv t st \<longleftrightarrow>
     list_all (in_range (length t)) (ps_spans st)
     \<and> (case ps_remap st of None \<Rightarrow> ps_text st = t
          | Some f \<Rightarrow> remap_into (length t) (length (ps_text st)) f)"

lemma recast_in_range:
  assumes "case f of None \<Rightarrow> m = n | Some g \<Rightarrow> remap_into n m g" "in_range m s" "recast f s = Inr s'"
  shows "in_range n s'"
proof (cases f)
  case (Some g)
  from assms(1) Some obtain h where h: "\<And>p. 0 \<le> p \<Longrightarrow> p < int m \<Longrightarrow> g p = Inr (h p) \<and> 0 \<le> h p \<and> h p < int n"
    "\<And>p q. 0 \<le> p \<Longrightarrow> p \<le> q \<Longrightarrow> q < int m \<Longrightarrow> h p \<le> h q" unfolding remap_into_def by auto
  from assms(2) have s: "0 \<le> s_start s" "s_start s \<le> s_end s - 1" "s_end s - 1 < int m"
    by (auto simp: in_range_def)
  with h(1) [of "s_start s"] h(1) [of "s_end s - 1"] h(2) [of "s_start s" "s_end s - 1"] assms(3) Some
  show ?thesis by (auto simp: recast_def in_range_def)
qed (use assms in \<open>simp add: recast_def\<close>)

lemma policy_absorb_inv:
  assumes "policy_inv t st" "strategy_protocol run" "run (ps_text st) [] cfg = Inr r"
    "policy_absorb name r st = Inr st'"
  shows "policy_inv t st'"
proof -
  let ?txt = "ps_text st"
  have m: "case ps_remap st of None \<Rightarrow> length ?txt = length t | Some g \<Rightarrow> remap_into (length t) (length ?txt) g"
    using assms(1) by (auto simp: policy_inv_def split: option.splits)
  from assms(4) obtain recasts remap' where
    rc: "map (recast (ps_remap st)) (sr_spans r) = map Inr recasts"
    and rm: "(case sr_substitutions r of
          None \<Rightarrow> Inr (ps_remap st)
        | Some subs \<Rightarrow>
            if subs = [] then Inr (ps_remap st)
            else map_res (\<lambda>new_to_current.
                  Some (case ps_remap st of None \<Rightarrow> new_to_current
                          | Some previous \<Rightarrow> compose_remaps new_to_current previous))
                (inverse_position_remap ?txt (map fst subs) (map snd subs))) = Inr remap'"
    and st': "ps_text st' = sr_text r" "ps_spans st' = ps_spans st @ recasts" "ps_remap st' = remap'"
    by (auto simp: policy_absorb_def bind_res_Inr_iff gather_Inr_iff)
  have "in_range (length t) x" if "x \<in> set recasts" for x
  proof -
    from that have "Inr x \<in> set (map (recast (ps_remap st)) (sr_spans r))" unfolding rc by simp
    then obtain s where "s \<in> set (sr_spans r)" "recast (ps_remap st) s = Inr x" by auto
    with strategy_protocol.run_spans [OF assms(2,3)] show ?thesis
      using recast_in_range [OF m] by (auto simp: list_all_iff)
  qed
  then have spans: "list_all (in_range (length t)) (ps_spans st')"
    using assms(1) by (auto simp: policy_inv_def st' list_all_iff)
  note rt = strategy_protocol.run_text [OF assms(2,3)]
  have "case remap' of None \<Rightarrow> sr_text r = t | Some f \<Rightarrow> remap_into (length t) (length (sr_text r)) f"
  proof (cases "sr_substitutions r = None \<or> sr_substitutions r = Some []")
    case True
    then have "remap' = ps_remap st" "sr_text r = ?txt" using rm rt by auto
    then show ?thesis using assms(1) by (simp add: policy_inv_def split: option.splits)
  next
    case False
    then obtain subs where subs: "sr_substitutions r = Some subs" "subs \<noteq> []" by auto
    with rt have v: "list_all (in_range (length ?txt)) (map fst subs)"
      and ap: "apply_spans ?txt (map fst subs) (map snd subs) = Inr (sr_text r)" by simp_all
    from inverse_position_remap_into [OF v _ ap] obtain f where
      f: "inverse_position_remap ?txt (map fst subs) (map snd subs) = Inr f"
        "remap_into (length ?txt) (length (sr_text r)) f" by auto
    show ?thesis
    proof (cases "ps_remap st")
      case None
      with rm subs f m show ?thesis by auto
    next
      case (Some prev)
      with rm subs f have "remap' = Some (compose_remaps f prev)" by simp
      moreover have "remap_into (length t) (length ?txt) prev" using m Some by simp
      ultimately show ?thesis using compose_remaps_into [OF f(2)] by simp
    qed
  qed
  with spans show ?thesis by (simp add: policy_inv_def st' split: option.splits)
qed

lemma policy_fields_inv:
  assumes "\<And>name run. map_of strategies name = Some run \<Longrightarrow> strategy_protocol run"
    and "policy_inv t st" "policy_fields strategies flds st = Inr st'"
  shows "policy_inv t st'"
  using assms(2,3)
proof (induction flds arbitrary: st)
  case (Cons f flds)
  obtain fname c where f: "f = (fname, c)" by force
  with Cons.prems(2) obtain cfg where c: "c = JDict cfg" by (cases c) auto
  show ?case
  proof (cases "\<exists>name run. jget cfg ''strategy'' = JStr name \<and> map_of strategies name = Some run")
    case True
    then obtain name run where nr: "jget cfg ''strategy'' = JStr name" "map_of strategies name = Some run"
      by blast
    from Cons.prems(2) nr obtain r s2 where "run (ps_text st) [] cfg = Inr r"
      "policy_absorb name r st = Inr s2" "policy_fields strategies flds s2 = Inr st'"
      by (auto simp: f c bind_res_Inr_iff)
    with policy_absorb_inv [OF Cons.prems(1) assms(1) [OF nr(2)]] Cons.IH show ?thesis by blast
  next
    case False
    with Cons.prems(2) have "policy_fields strategies flds st = Inr st'"
      by (auto simp: f c split: json.splits option.splits)
    with Cons show ?thesis by blast
  qed
qed simp

text \<open>
  C6. Every span that the policy path reports lies inside the original text and is not
  empty, for every policy over the strategies that the application configures, the regex
  strategy with its overlapping substitutions included, and however many fields rewrote
  the text before the span was found. The one condition is that the detectors of
  \<open>autoDeID\<close> keep the contract of \<open>detector.py\<close>: their offsets lie inside the text they are given.
\<close>

theorem policy_spans_in_original_text:
  assumes "redactor_policy (main_strategies hmac_hex salt d) t policy = Inr (r, ms)"
    and "\<And>cfg chosen i. deid_chosen d cfg = Inr chosen \<Longrightarrow> detector_protocol (chosen i)"
  shows "list_all (in_range (length t)) (rd_spans r)"
proof -
  from assms(1) obtain flds st where
    st: "policy_fields (main_strategies hmac_hex salt d) flds (policy_init t) = Inr st"
      "rd_spans r = ps_spans st"
    by (auto simp: redactor_policy_def map_res_Inr_iff split: json.splits)
  have "strategy_protocol run"
    if "map_of (main_strategies hmac_hex salt d) name = Some run" for name run
    using that assms(2) regex_strategy.strategy_protocol_axioms
    by (auto simp: main_strategies_def split: if_splits
        intro: strategy_protocol_skip strategy_protocol_mask strategy_protocol_hash strategy_protocol_deid)
  moreover have "policy_inv t (policy_init t)" by (simp add: policy_inv_def policy_init_def)
  ultimately have "policy_inv t st" using st(1) by (rule policy_fields_inv)
  then show ?thesis using st(2) by (simp add: policy_inv_def)
qed

text \<open>
  A regex field whose matches overlap rewrites the text, then an \<open>autoDeID\<close> field finds an
  address in the first field's output, and its span is mapped back.
\<close>

definition demo_policy :: "(json \<times> json) list" where
  "demo_policy = [(JStr ''fields'', JDict
     [(JStr ''one'', JDict [(JStr ''strategy'', JStr ''regex''), (JStr ''format'', JStr ''d@e.fg''),
        (JStr ''entity_types'', JList [JStr ''URL'', JStr ''EMAIL''])]),
      (JStr ''two'', JDict demo_cfg)])]"

definition demo_policy_text :: string where
  "demo_policy_text = ''http://x.co/a@b.co/s''"

lemma demo_policy_run:
  "map_res (\<lambda>(r, ms). map (\<lambda>s. (s_start s, s_end s)) (rd_spans r))
     (redactor_policy (main_strategies (\<lambda>k m. m) [] demo_deid) demo_policy_text demo_policy)
   = Inr [(0, 20), (12, 18), (0, 1)]"
  by code_simp

theorem policy_spans_in_original_text_witness:
  "\<exists>r ms. redactor_policy (main_strategies (\<lambda>k m. m) [] demo_deid) demo_policy_text demo_policy = Inr (r, ms)
    \<and> length (rd_spans r) = 3 \<and> list_all (in_range (length demo_policy_text)) (rd_spans r)"
proof -
  obtain r ms where run: "redactor_policy (main_strategies (\<lambda>k m. m) [] demo_deid) demo_policy_text demo_policy = Inr (r, ms)"
    and len: "length (rd_spans r) = 3"
    using demo_policy_run by (fastforce simp: map_res_Inr_iff dest: map_eq_imp_length_eq)
  have "list_all (in_range (length demo_policy_text)) (rd_spans r)"
    using policy_spans_in_original_text [OF run] demo_deid_protocol by blast
  with run len show ?thesis by blast
qed

section \<open>What the regex and mask fields do not do\<close>

text \<open>
  The regex strategy substitutes overlapping spans one after the other: the URL and the
  e-mail address inside it are both found, the address is replaced first, and the end of
  the URL span then points into the middle of the changed text, so the end
  of the URL stays in the output.
\<close>

lemma regex_run_overlap_leak:
  "map_res sr_text (regex_run None ''http://x.co/a@b.co/secret'' []
     [(JStr ''entity_types'', JList [JStr ''URL'', JStr ''EMAIL''])])
   = Inr ''[REDACTED]cret''"
  by code_simp

text \<open>In the policy path \<open>mask\<close> and \<open>hash\<close> are run without spans, so they return the text as it is.\<close>

lemma mask_hash_fields_keep_text:
  "mask_run t [] cfg = Inr \<lparr>sr_text = t, sr_spans = [], sr_relex_map = [], sr_substitutions = Some []\<rparr>"
  "hash_run h salt t [] cfg = Inr \<lparr>sr_text = t, sr_spans = [], sr_relex_map = [], sr_substitutions = Some []\<rparr>"
  by (cases "jget_or cfg ''format'' (JStr REDACTED)")
    (simp_all add: mask_run_def hash_run_def substituted_def apply_spans_def)

end
