(* ===== verification/Policies.thy ===== *)
theory Policies
  imports Redactor
begin

text \<open>
  \<open>app/redaction/policies.py\<close> and \<open>app/api/policy.py\<close>: validation of untrusted policy
  mappings with every check and the exception it raises, loading from the policies
  directory, the choice of the effective policy of a request and the version recorded for
  audit. Files are an argument: for each name whether it exists and what \<open>yaml.safe_load\<close>
  returns or raises. The lemmas show what an accepted policy promises the strategies, and
  that normalisation is idempotent.
\<close>

section \<open>Limits\<close>

definition SUPPORTED_STRATEGIES :: "string list" where
  "SUPPORTED_STRATEGIES = [''passThrough'', ''mask'', ''hash'', ''regex'', ''autoDeID'']"

definition SUPPORTED_POLICY_KEYS :: "string list" where
  "SUPPORTED_POLICY_KEYS = [''name'', ''version'', ''description'', ''fields'']"

definition SUPPORTED_FIELD_OPTIONS :: "string list" where
  "SUPPORTED_FIELD_OPTIONS =
     [''strategy'', ''format'', ''entity_types'', ''relex'', ''multi_pass'', ''detector'', ''length'']"

definition MAX_POLICY_FIELDS :: nat where "MAX_POLICY_FIELDS = 128"
definition MAX_POLICY_FIELD_NAME_CHARS :: nat where "MAX_POLICY_FIELD_NAME_CHARS = 128"
definition MAX_POLICY_STRING_CHARS :: nat where "MAX_POLICY_STRING_CHARS = 4096"
definition MAX_POLICY_ENTITY_TYPES :: nat where "MAX_POLICY_ENTITY_TYPES = 128"
definition MAX_POLICY_ENTITY_TYPE_CHARS :: nat where "MAX_POLICY_ENTITY_TYPE_CHARS = 128"
definition MAX_POLICY_MULTI_PASS :: int where "MAX_POLICY_MULTI_PASS = 3"
definition MAX_POLICY_HASH_LENGTH :: int where "MAX_POLICY_HASH_LENGTH = 64"

lemmas policy_limits =
  MAX_POLICY_FIELDS_def MAX_POLICY_FIELD_NAME_CHARS_def MAX_POLICY_STRING_CHARS_def
  MAX_POLICY_ENTITY_TYPES_def MAX_POLICY_ENTITY_TYPE_CHARS_def MAX_POLICY_MULTI_PASS_def
  MAX_POLICY_HASH_LENGTH_def

section \<open>\<open>parse_policy\<close>\<close>

record policy =
  pl_name :: string
  pl_version :: string
  pl_description :: string
  pl_fields :: "(json \<times> json) list"

text \<open>A sequence of checks: the first condition that holds raises its exception.\<close>

fun raise_first :: "(bool \<times> exn) list \<Rightarrow> unit res" where
  "raise_first [] = Inr ()"
| "raise_first ((c, e) # cs) = (if c then Inl e else raise_first cs)"

text \<open>
  \<open>sorted\<close> on the unknown keys, which the error messages do, raises \<open>TypeError\<close> itself when
  the keys cannot be compared; a single key is never compared.
\<close>

fun is_numeric :: "json \<Rightarrow> bool" where
  "is_numeric (JInt i) = True"
| "is_numeric (JBool b) = True"
| "is_numeric (JFloat r) = True"
| "is_numeric _ = False"

definition unknown_keys_error :: "json list \<Rightarrow> exn" where
  "unknown_keys_error ks =
     (if length (remdups ks) \<le> 1 \<or> list_all is_JStr ks \<or> list_all is_numeric ks
      then ValueError else TypeError)"

definition unknown_keys :: "string list \<Rightarrow> (json \<times> json) list \<Rightarrow> json list" where
  "unknown_keys supported d = filter (\<lambda>k. \<not> List.member (map JStr supported) k) (map fst d)"

fun long_string :: "nat \<Rightarrow> json \<Rightarrow> bool" where
  "long_string n (JStr s) = (length s > n)"
| "long_string n _ = True"

definition bad_string :: "json \<Rightarrow> bool" where
  "bad_string v = (v \<noteq> JNull \<and> long_string MAX_POLICY_STRING_CHARS v)"

fun bad_entity_types :: "json \<Rightarrow> bool" where
  "bad_entity_types JNull = False"
| "bad_entity_types (JList ts) =
     (length ts > MAX_POLICY_ENTITY_TYPES
      \<or> list_ex (\<lambda>ty. ty = JStr [] \<or> long_string MAX_POLICY_ENTITY_TYPE_CHARS ty) ts)"
| "bad_entity_types _ = True"

fun bad_int :: "int \<Rightarrow> json \<Rightarrow> bool" where
  "bad_int hi JNull = False"
| "bad_int hi (JInt i) = (\<not> (1 \<le> i \<and> i \<le> hi))"
| "bad_int hi _ = True"

definition check_field :: "json \<Rightarrow> json \<Rightarrow> unit res" where
  "check_field fname fcfg =
     (let cfg = dict_items fcfg; strategy = jget cfg ''strategy'';
          unknown = unknown_keys SUPPORTED_FIELD_OPTIONS cfg
      in raise_first
        [(\<not> is_JStr fname \<or> fname = JStr [], ValueError),
         (long_string MAX_POLICY_FIELD_NAME_CHARS fname, ValueError),
         (\<not> is_JDict fcfg, ValueError),
         (map_of cfg (JStr ''strategy'') = None, ValueError),
         (is_JList strategy \<or> is_JDict strategy, TypeError),
         (\<not> List.member (map JStr SUPPORTED_STRATEGIES) strategy, ValueError),
         (unknown \<noteq> [], unknown_keys_error unknown),
         (bad_string (jget cfg ''format''), ValueError),
         (bad_string (jget cfg ''detector''), ValueError),
         (bad_entity_types (jget cfg ''entity_types''), ValueError),
         (bad_int MAX_POLICY_MULTI_PASS (jget cfg ''multi_pass''), ValueError),
         (bad_int MAX_POLICY_HASH_LENGTH (jget cfg ''length''), ValueError)])"

fun check_fields :: "(json \<times> json) list \<Rightarrow> unit res" where
  "check_fields [] = Inr ()"
| "check_fields ((fname, fcfg) # flds) = bind_res (check_field fname fcfg) (\<lambda>_. check_fields flds)"

text \<open>\<open>str\<close> of a metadata value that passed the checks: a string or null.\<close>

fun metadata_str :: "json \<Rightarrow> string" where
  "metadata_str (JStr s) = s"
| "metadata_str _ = ''None''"

definition parse_policy :: "json \<Rightarrow> policy res" where
  "parse_policy raw =
     (let d = dict_items raw; unknown = unknown_keys SUPPORTED_POLICY_KEYS d;
          got = jget_or d ''fields'' (JDict []);
          fields_raw = (if truthy got then got else JDict []);
          flds = dict_items fields_raw
      in bind_res (raise_first
           [(\<not> is_JDict raw, ValueError),
            (unknown \<noteq> [], unknown_keys_error unknown),
            (\<not> is_JDict fields_raw, ValueError),
            (length flds > MAX_POLICY_FIELDS, ValueError)]) (\<lambda>_.
         bind_res (check_fields flds) (\<lambda>_.
         bind_res (raise_first
           [(bad_string (jget d ''name''), ValueError),
            (bad_string (jget d ''version''), ValueError),
            (bad_string (jget d ''description''), ValueError)]) (\<lambda>_.
         Inr \<lparr>pl_name = metadata_str (jget_or d ''name'' (JStr ''default'')),
              pl_version = metadata_str (jget_or d ''version'' (JStr ''0.0.0'')),
              pl_description = metadata_str (jget_or d ''description'' (JStr '''')),
              pl_fields = flds\<rparr>))))"

definition parse_policy_dict :: "json \<Rightarrow> policy res" where
  "parse_policy_dict raw = parse_policy raw"

text \<open>A file is \<open>None\<close> when it does not exist, else what reading and \<open>yaml.safe_load\<close> give.\<close>

definition load_policy :: "json res option \<Rightarrow> policy res" where
  "load_policy file =
     (case file of
        None \<Rightarrow> Inl FileNotFoundError
      | Some loaded \<Rightarrow> bind_res loaded (\<lambda>raw. parse_policy (if truthy raw then raw else JDict [])))"

definition list_policies :: "(string \<times> json res) list option \<Rightarrow> policy list res" where
  "list_policies directory =
     (case directory of
        None \<Rightarrow> Inr []
      | Some files \<Rightarrow> gather (map (\<lambda>(name, loaded). load_policy (Some loaded)) (sort_key fst files)))"

section \<open>Effective policies\<close>

definition normalized_policy :: "json \<Rightarrow> json res" where
  "normalized_policy raw =
     map_res (\<lambda>p. JDict [(JStr ''name'', JStr (pl_name p)), (JStr ''version'', JStr (pl_version p)),
                         (JStr ''description'', JStr (pl_description p)),
                         (JStr ''fields'', JDict (pl_fields p))])
       (parse_policy_dict raw)"

record policy_settings =
  default_policy_name :: string
  policies_dir :: string

definition default_policy ::
  "policy_settings option \<Rightarrow> (string \<Rightarrow> string \<Rightarrow> json res option) \<Rightarrow> json option res" where
  "default_policy settings files =
     (let name = (case settings of None \<Rightarrow> [] | Some s \<Rightarrow> default_policy_name s);
          dir = (case settings of None \<Rightarrow> [] | Some s \<Rightarrow> policies_dir s)
      in if name = [] \<or> dir = [] then Inr None
         else
           (case files dir (name @ ''.yaml'') of
              None \<Rightarrow> Inl PolicyUnavailableError
            | Some loaded \<Rightarrow>
                (case bind_res (load_policy (Some loaded)) (\<lambda>p.
                        normalized_policy
                          (JDict [(JStr ''name'', JStr (pl_name p)), (JStr ''version'', JStr (pl_version p)),
                                  (JStr ''description'', JStr (pl_description p)),
                                  (JStr ''fields'', JDict (pl_fields p))])) of
                   Inr j \<Rightarrow> Inr (Some j)
                 | Inl e \<Rightarrow>
                     if is_os_error e \<or> e = TypeError \<or> is_value_error e
                     then Inl PolicyUnavailableError else Inl e)))"

definition effective_policy ::
  "policy_settings option \<Rightarrow> (string \<Rightarrow> string \<Rightarrow> json res option) \<Rightarrow> json option \<Rightarrow>
   string list option \<Rightarrow> json option res" where
  "effective_policy settings files policy entity_types =
     (case policy of
        Some p \<Rightarrow> map_res Some (normalized_policy p)
      | None \<Rightarrow> (if entity_types \<noteq> None then Inr None else default_policy settings files))"

definition policy_version :: "json option \<Rightarrow> string" where
  "policy_version policy =
     (case policy of
        Some (JDict d) \<Rightarrow>
          (if truthy (jget d ''version'') then metadata_str (jget d ''version'') else ''default'')
      | _ \<Rightarrow> ''default'')"

section \<open>What an accepted policy promises\<close>

lemma raise_first_ok_iff: "raise_first cs = Inr u \<longleftrightarrow> list_all (\<lambda>(c, e). \<not> c) cs"
  by (induction cs) (auto split: if_splits)

definition field_ok :: "json \<Rightarrow> json \<Rightarrow> bool" where
  "field_ok fname fcfg \<longleftrightarrow>
     (\<exists>name cfg strategy. fname = JStr name \<and> name \<noteq> [] \<and> length name \<le> MAX_POLICY_FIELD_NAME_CHARS
       \<and> fcfg = JDict cfg \<and> jget cfg ''strategy'' = JStr strategy \<and> strategy \<in> set SUPPORTED_STRATEGIES
       \<and> map_of cfg (JStr ''strategy'') \<noteq> None
       \<and> fst ` set cfg \<subseteq> JStr ` set SUPPORTED_FIELD_OPTIONS
       \<and> \<not> bad_string (jget cfg ''format'') \<and> \<not> bad_string (jget cfg ''detector'')
       \<and> \<not> bad_entity_types (jget cfg ''entity_types'')
       \<and> \<not> bad_int MAX_POLICY_MULTI_PASS (jget cfg ''multi_pass'')
       \<and> \<not> bad_int MAX_POLICY_HASH_LENGTH (jget cfg ''length''))"

lemma unknown_keys_Nil: "unknown_keys known d = [] \<longleftrightarrow> fst ` set d \<subseteq> JStr ` set known"
  by (auto simp: unknown_keys_def filter_empty_conv)

lemma check_field_ok_iff: "check_field fname fcfg = Inr u \<longleftrightarrow> field_ok fname fcfg"
  by (cases fname; cases fcfg)
    (auto simp: check_field_def Let_def raise_first_ok_iff field_ok_def unknown_keys_Nil not_less)

lemma check_fields_ok_iff: "check_fields flds = Inr u \<longleftrightarrow> (\<forall>(n, c) \<in> set flds. field_ok n c)"
proof (induction flds)
  case (Cons f flds)
  then show ?case
    using check_field_ok_iff [of "fst f" "snd f"] by (cases f) (auto simp: bind_res_Inr_iff)
qed simp

definition metadata_ok :: "(json \<times> json) list \<Rightarrow> bool" where
  "metadata_ok d \<longleftrightarrow> \<not> bad_string (jget d ''name'') \<and> \<not> bad_string (jget d ''version'')
     \<and> \<not> bad_string (jget d ''description'')"

lemma parse_policy_ok_iff:
  "parse_policy raw = Inr p \<longleftrightarrow>
     (\<exists>d flds. raw = JDict d \<and> fst ` set d \<subseteq> JStr ` set SUPPORTED_POLICY_KEYS
        \<and> (let got = jget_or d ''fields'' (JDict []) in (if truthy got then got else JDict []) = JDict flds)
        \<and> length flds \<le> MAX_POLICY_FIELDS \<and> (\<forall>(n, c) \<in> set flds. field_ok n c) \<and> metadata_ok d
        \<and> p = \<lparr>pl_name = metadata_str (jget_or d ''name'' (JStr ''default'')),
              pl_version = metadata_str (jget_or d ''version'' (JStr ''0.0.0'')),
              pl_description = metadata_str (jget_or d ''description'' (JStr '''')),
              pl_fields = flds\<rparr>)"
  apply (cases raw)
  apply (simp_all add: parse_policy_def Let_def bind_res_Inr_iff raise_first_ok_iff check_fields_ok_iff
      unknown_keys_Nil metadata_ok_def not_less)
  subgoal for d
    by (cases "if truthy (jget_or d ''fields'' (JDict [])) then jget_or d ''fields'' (JDict []) else JDict []")
      auto
  done

lemma jget_or_range: "jget_or d k v = v \<or> jget_or d k v \<in> snd ` set d"
  by (auto simp: jget_or_def dict_get_def split: option.splits dest: map_of_SomeD
      intro: rev_image_eqI)

lemma jget_or_jget: "jget_or d k v = (if map_of d (JStr k) = None then v else jget d k)"
  by (auto simp: jget_or_def jget_def dict_get_def split: option.splits)

lemma metadata_str_bounded:
  assumes "\<not> bad_string (jget d k)" "length v \<le> MAX_POLICY_STRING_CHARS"
  shows "length (metadata_str (jget_or d k (JStr v))) \<le> MAX_POLICY_STRING_CHARS"
  using assms
  by (cases "jget d k") (auto simp: jget_or_jget bad_string_def policy_limits)

lemma normalized_idem:
  assumes "normalized_policy raw = Inr j"
  shows "normalized_policy j = Inr j"
proof -
  from assms obtain p where p: "parse_policy raw = Inr p"
    and j: "j = JDict [(JStr ''name'', JStr (pl_name p)), (JStr ''version'', JStr (pl_version p)),
        (JStr ''description'', JStr (pl_description p)), (JStr ''fields'', JDict (pl_fields p))]"
    by (auto simp: normalized_policy_def parse_policy_dict_def map_res_Inr_iff)
  from p obtain d where d: "metadata_ok d" "length (pl_fields p) \<le> MAX_POLICY_FIELDS"
    "\<forall>(n, c) \<in> set (pl_fields p). field_ok n c"
    "pl_name p = metadata_str (jget_or d ''name'' (JStr ''default''))"
    "pl_version p = metadata_str (jget_or d ''version'' (JStr ''0.0.0''))"
    "pl_description p = metadata_str (jget_or d ''description'' (JStr ''''))"
    unfolding parse_policy_ok_iff by (auto simp: Let_def)
  have "length (pl_name p) \<le> MAX_POLICY_STRING_CHARS" "length (pl_version p) \<le> MAX_POLICY_STRING_CHARS"
    "length (pl_description p) \<le> MAX_POLICY_STRING_CHARS"
    using d(1) metadata_str_bounded [of d "''name''" "''default''"]
      metadata_str_bounded [of d "''version''" "''0.0.0''"]
      metadata_str_bounded [of d "''description''" "[]"]
    unfolding d(4-6) metadata_ok_def by (simp_all add: MAX_POLICY_STRING_CHARS_def)
  then have "parse_policy j = Inr p"
    unfolding parse_policy_ok_iff j
    using d(2,3)
    by (intro exI conjI refl)
      (auto simp: SUPPORTED_POLICY_KEYS_def Let_def jget_or_def jget_def dict_get_def metadata_ok_def
        bad_string_def)
  then show ?thesis by (simp add: normalized_policy_def parse_policy_dict_def j)
qed

lemma raise_first_errors: "raise_first cs = Inl e \<Longrightarrow> e \<in> snd ` set cs"
  by (induction cs) (auto split: if_splits)

lemma check_field_errors: "check_field n c = Inl e \<Longrightarrow> e = ValueError \<or> e = TypeError"
  by (auto simp: check_field_def Let_def unknown_keys_error_def dest!: raise_first_errors split: if_splits)

lemma check_fields_errors: "check_fields flds = Inl e \<Longrightarrow> e = ValueError \<or> e = TypeError"
proof (induction flds)
  case (Cons f flds)
  obtain n c where f: "f = (n, c)" by force
  with Cons check_field_errors [of n c] show ?case by (cases "check_field n c") auto
qed simp

lemma parse_policy_errors: "parse_policy raw = Inl e \<Longrightarrow> e = ValueError \<or> e = TypeError"
  by (auto simp: parse_policy_def Let_def bind_res_Inl_iff unknown_keys_error_def
      dest!: raise_first_errors check_fields_errors split: if_splits)

text \<open>
  Normalisation is idempotent: the canonical form that \<open>normalized_policy\<close> returns is
  accepted again and returned unchanged, so \<open>default_policy\<close>, which normalises what
  \<open>load_policy\<close> already parsed, never refuses a policy on the second pass.
\<close>

theorem normalized_policy_idempotent:
  assumes "normalized_policy raw = Inr j"
  shows "normalized_policy j = Inr j"
  using assms by (rule normalized_idem)

theorem normalized_policy_idempotent_witness:
  "normalized_policy
     (JDict [(JStr ''name'', JStr ''None''), (JStr ''version'', JStr ''0.0.0''), (JStr ''description'', JStr ''''),
             (JStr ''fields'', JDict [(JStr ''note'', JDict [(JStr ''strategy'', JStr ''mask'')])])])
   = Inr (JDict [(JStr ''name'', JStr ''None''), (JStr ''version'', JStr ''0.0.0''), (JStr ''description'', JStr ''''),
             (JStr ''fields'', JDict [(JStr ''note'', JDict [(JStr ''strategy'', JStr ''mask'')])])])"
  by (rule normalized_policy_idempotent
      [of "JDict [(JStr ''fields'', JDict [(JStr ''note'', JDict [(JStr ''strategy'', JStr ''mask'')])]),
                  (JStr ''name'', JNull)]"]) code_simp

lemma json_strings_total:
  "list_all is_JStr ts \<Longrightarrow> \<exists>ss. json_strings ts = Inr ss"
  by (induction ts rule: json_strings.induct) auto

lemma gather_total: "(\<And>r. r \<in> set rs \<Longrightarrow> \<exists>x. r = Inr x) \<Longrightarrow> \<exists>xs. gather rs = Inr xs"
  by (induction rs) force+

lemma multi_pass_detect_total:
  assumes "1 \<le> passes" "passes \<le> mx" "\<And>i. \<exists>ss. detect i t types = Inr ss"
  shows "\<exists>ss. multi_pass_detect detect t types passes mx = Inr ss"
proof -
  have "\<exists>xs. gather (map (\<lambda>i. detect i t types) [0..<nat passes]) = Inr xs"
    by (rule gather_total) (use assms(3) in auto)
  with assms(1,2) assms(3) [of 0] show ?thesis by (force simp: multi_pass_detect_def)
qed

lemma apply_spans_total: "length rs = length ss \<Longrightarrow> \<exists>out. apply_spans t ss rs = Inr out"
  by (simp add: apply_spans_def)

text \<open>
  A policy that the parser accepts can be run: for an autoDeID field of it without null
  options, whose detector is known and answers, with a pass cap of at least the parser's,
  \<open>Deid.run\<close> returns a result on every text, with no exception.
\<close>

theorem accepted_deid_field_runs:
  assumes "parse_policy raw = Inr p" "(fname, JDict cfg) \<in> set (pl_fields p)" "JNull \<notin> snd ` set cfg"
    and "deid_chosen d cfg = Inr chosen" "\<And>i types. \<exists>ss. chosen i t (Some types) = Inr ss"
    and "MAX_POLICY_MULTI_PASS \<le> de_max_passes d"
  shows "\<exists>r. deid_run d t spans cfg = Inr r"
proof -
  have ok: "field_ok fname (JDict cfg)"
    using assms(1,2) unfolding parse_policy_ok_iff by (auto simp: Let_def)
  have nn: "jget_or cfg k v \<noteq> JNull" if "v \<noteq> JNull" for k v
    using jget_or_range [of cfg k v] that assms(3) by metis
  obtain passes where passes: "py_int (jget_or cfg ''multi_pass'' (JInt 1)) = Inr passes"
    "1 \<le> passes" "passes \<le> de_max_passes d"
    using ok nn [of "JInt 1" "''multi_pass''"] assms(6)
    by (cases "jget cfg ''multi_pass''")
      (auto simp: field_ok_def jget_or_jget policy_limits split: if_splits)
  obtain types where types: "entity_types_arg (jget_or cfg ''entity_types'' (JList [])) = Inr (Some types)"
  proof (cases "jget_or cfg ''entity_types'' (JList [])")
    case (JList ts)
    have "list_all is_JStr ts"
    proof (cases "map_of cfg (JStr ''entity_types'') = None")
      case False
      with JList ok have "\<not> bad_entity_types (JList ts)" by (auto simp: field_ok_def jget_or_jget)
      then have "\<And>ty. ty \<in> set ts \<Longrightarrow> is_JStr ty"
        by (metis bad_entity_types.simps(2) is_JStr.elims(3) list_ex_iff long_string.simps(2-7))
      then show ?thesis by (simp add: list_all_iff)
    qed (use JList in \<open>simp add: jget_or_jget\<close>)
    with json_strings_total JList that show ?thesis by (metis entity_types_arg.simps(2) map_res.simps(2))
  qed (use ok nn [of "JList []" "''entity_types''"] in
      \<open>auto simp: field_ok_def jget_or_jget split: if_splits\<close>)
  obtain detected where det: "multi_pass_detect chosen t (Some types) passes (de_max_passes d) = Inr detected"
    using multi_pass_detect_total [OF passes(2,3), of chosen t "Some types"] assms(5) by blast
  obtain fmt where fmt: "jget_or cfg ''format'' (JStr REDACTED) = JStr fmt"
    using ok nn [of "JStr REDACTED" "''format''"]
    by (cases "jget cfg ''format''") (auto simp: field_ok_def jget_or_jget bad_string_def split: if_splits)
  have sub: "\<exists>r. substituted t detected m rs = Inr r" if "length rs = length detected" for m rs
    using apply_spans_total [OF that, of t] by (auto simp: substituted_def)
  show ?thesis
    using sub [of "deid_placeholders detected"] sub [of "replicate (length detected) fmt"]
    by (auto simp: deid_run_def assms(4) passes(1) types det fmt Let_def)
qed

theorem accepted_deid_field_runs_witness:
  "\<exists>r. deid_run demo_deid ''mail a@b.co'' [] [(JStr ''strategy'', JStr ''autoDeID''), (JStr ''multi_pass'', JInt 2)] = Inr r"
proof (rule accepted_deid_field_runs)
  show "parse_policy (JDict [(JStr ''fields'', JDict [(JStr ''note'',
          JDict [(JStr ''strategy'', JStr ''autoDeID''), (JStr ''multi_pass'', JInt 2)])])])
      = Inr \<lparr>pl_name = ''default'', pl_version = ''0.0.0'', pl_description = '''',
          pl_fields = [(JStr ''note'',
            JDict [(JStr ''strategy'', JStr ''autoDeID''), (JStr ''multi_pass'', JInt 2)])]\<rparr>"
    by code_simp
qed (auto simp: deid_chosen_def demo_deid_def jget_def dict_get_def regex_detector_def policy_limits)

text \<open>With an explicit null, which the parser accepts, the same field fails on every text.\<close>

lemma null_multi_pass_fails:
  "parse_policy (JDict [(JStr ''fields'', JDict [(JStr ''note'',
      JDict [(JStr ''strategy'', JStr ''autoDeID''), (JStr ''multi_pass'', JNull)])])])
   = Inr \<lparr>pl_name = ''default'', pl_version = ''0.0.0'', pl_description = '''',
       pl_fields = [(JStr ''note'', JDict [(JStr ''strategy'', JStr ''autoDeID''), (JStr ''multi_pass'', JNull)])]\<rparr>
   \<and> deid_run d t [] [(JStr ''strategy'', JStr ''autoDeID''), (JStr ''multi_pass'', JNull)] = Inl TypeError"
proof
  show "deid_run d t [] [(JStr ''strategy'', JStr ''autoDeID''), (JStr ''multi_pass'', JNull)] = Inl TypeError"
    by (simp add: deid_run_def deid_chosen_def jget_def jget_or_def dict_get_def)
qed code_simp

text \<open>A strategy that is a list is not refused with \<open>ValueError\<close>: the membership test raises.\<close>

lemma unhashable_strategy_type_error:
  "parse_policy (JDict [(JStr ''fields'', JDict [(JStr ''note'', JDict [(JStr ''strategy'', JList xs)])])])
   = Inl TypeError"
  by (simp add: parse_policy_def Let_def jget_or_def jget_def dict_get_def unknown_keys_def
      SUPPORTED_POLICY_KEYS_def policy_limits check_field_def)

text \<open>
  With a default policy configured, the effective policy of a request without one is
  its canonical form or \<open>PolicyUnavailableError\<close>, as long as reading the file raises only
  operating-system errors, \<open>TypeError\<close> or \<open>ValueError\<close>: a missing, unreadable or invalid
  default policy never lets the request run without a policy.
\<close>

theorem default_policy_fails_closed:
  assumes "default_policy_name s \<noteq> []" "policies_dir s \<noteq> []"
    and "\<And>e. files (policies_dir s) (default_policy_name s @ ''.yaml'') = Some (Inl e) \<Longrightarrow>
           is_os_error e \<or> is_value_error e \<or> e = TypeError"
  shows "(\<exists>j. effective_policy (Some s) files None None = Inr (Some j) \<and> normalized_policy j = Inr j)
    \<or> effective_policy (Some s) files None None = Inl PolicyUnavailableError"
proof (cases "files (policies_dir s) (default_policy_name s @ ''.yaml'')")
  case None
  with assms show ?thesis by (simp add: effective_policy_def default_policy_def)
next
  case (Some loaded)
  let ?n = "\<lambda>p. normalized_policy
      (JDict [(JStr ''name'', JStr (pl_name p)), (JStr ''version'', JStr (pl_version p)),
              (JStr ''description'', JStr (pl_description p)), (JStr ''fields'', JDict (pl_fields p))])"
  have perr: "e = ValueError \<or> e = TypeError" if "parse_policy raw = Inl e" for raw e
    using parse_policy_errors that by blast
  have "is_os_error e \<or> e = TypeError \<or> is_value_error e"
    if "bind_res (load_policy (Some loaded)) ?n = Inl e" for e
  proof (cases loaded)
    case (Inl e')
    with that assms(3) Some show ?thesis by (auto simp: load_policy_def)
  next
    case (Inr raw)
    with that show ?thesis
      using perr
      by (cases "parse_policy (if truthy raw then raw else JDict [])")
        (auto simp: load_policy_def normalized_policy_def parse_policy_dict_def is_value_error_def
          map_res_Inl_iff)
  qed
  moreover have "normalized_policy j = Inr j" if "bind_res (load_policy (Some loaded)) ?n = Inr j" for j
    using that normalized_idem by (auto simp: bind_res_Inr_iff)
  ultimately show ?thesis
    using assms(1,2) Some
    by (cases "bind_res (load_policy (Some loaded)) ?n") (auto simp: effective_policy_def default_policy_def)
qed

theorem default_policy_fails_closed_witness:
  "(\<exists>j. effective_policy (Some \<lparr>default_policy_name = ''hipaa'', policies_dir = ''p''\<rparr>)
        (\<lambda>d f. Some (Inl ValueError)) None None = Inr (Some j) \<and> normalized_policy j = Inr j)
    \<or> effective_policy (Some \<lparr>default_policy_name = ''hipaa'', policies_dir = ''p''\<rparr>)
        (\<lambda>d f. Some (Inl ValueError)) None None = Inl PolicyUnavailableError"
  by (rule default_policy_fails_closed) (auto simp: is_value_error_def)

text \<open>
  An exception of another class, such as the YAML parser's own, passes through, because the
  handler does not name it.
\<close>

lemma yaml_error_escapes:
  "effective_policy (Some \<lparr>default_policy_name = ''hipaa'', policies_dir = ''p''\<rparr>)
     (\<lambda>d f. Some (Inl OtherException)) None None = Inl OtherException"
  by (simp add: effective_policy_def default_policy_def load_policy_def exn_class_defs)

end
