(* ===== verification/Breaker.thy ===== *)
theory Breaker
  imports Prelude
begin

text \<open>
  \<open>app/redaction/circuit/breaker.py\<close>: the per-process circuit breaker. Its methods run under
  a lock and are functions on the record of its fields; the guarded call itself runs
  outside the lock, so calls overlap. The step relation interleaves admissions and
  completions in any order, with the calls in flight as a list of their probe flags. The
  lemmas show the invariant of all reachable states and when calls are admitted.
\<close>

section \<open>State and methods\<close>

datatype circuit = Closed | Open | Half_open

record breaker =
  b_threshold :: int
  b_cooldown :: rat
  b_state :: circuit
  consecutive_failures :: int
  opened_at :: "rat option"
  probe_in_flight :: bool
  total_calls :: int
  total_failures :: int

definition new_breaker :: "int \<Rightarrow> rat \<Rightarrow> breaker" where
  "new_breaker thr cd =
     \<lparr>b_threshold = thr, b_cooldown = cd, b_state = Closed, consecutive_failures = 0,
      opened_at = None, probe_in_flight = False, total_calls = 0, total_failures = 0\<rparr>"

text \<open>\<open>allow\<close> at time \<open>now\<close>: whether the call may go on, whether it is the probe, the new state.\<close>

definition breaker_allow :: "rat \<Rightarrow> breaker \<Rightarrow> (bool \<times> bool) \<times> breaker" where
  "breaker_allow now b =
     (if b_state b = Closed then ((True, False), b)
      else if b_state b = Open then
        (case opened_at b of
           None \<Rightarrow> ((False, False), b)
         | Some t0 \<Rightarrow>
             if now - t0 \<ge> b_cooldown b then
               (if probe_in_flight b then ((False, False), b)
                else ((True, True), b\<lparr>probe_in_flight := True\<rparr>))
             else ((False, False), b))
      else ((True, False), b))"

definition on_success :: "bool \<Rightarrow> breaker \<Rightarrow> breaker" where
  "on_success was_probe b =
     (let b1 = (if was_probe then b\<lparr>probe_in_flight := False\<rparr> else b)
      in b1\<lparr>consecutive_failures := 0, b_state := Closed, opened_at := None\<rparr>)"

definition on_failure :: "rat \<Rightarrow> bool \<Rightarrow> breaker \<Rightarrow> breaker" where
  "on_failure now was_probe b =
     (let b1 = (if was_probe then b\<lparr>probe_in_flight := False\<rparr> else b);
          b2 = b1\<lparr>total_failures := total_failures b1 + 1,
                  consecutive_failures := consecutive_failures b1 + 1\<rparr>
      in if was_probe \<or> consecutive_failures b2 \<ge> b_threshold b2
         then b2\<lparr>b_state := Open, opened_at := Some now\<rparr> else b2)"

text \<open>
  \<open>call\<close> in its two locked halves: the admission, and the bookkeeping after the function
  returned or raised; \<open>transient\<close> is the breaker's predicate, by default \<open>isinstance Exception\<close>.
\<close>

definition call_begin :: "rat \<Rightarrow> breaker \<Rightarrow> bool res \<times> breaker" where
  "call_begin now b =
     (case breaker_allow now b of
        ((False, p), b') \<Rightarrow> (Inl OpenError, b')
      | ((True, p), b') \<Rightarrow> (Inr p, b'\<lparr>total_calls := total_calls b' + 1\<rparr>))"

definition call_end ::
  "(exn \<Rightarrow> bool) \<Rightarrow> rat \<Rightarrow> bool \<Rightarrow> exn option \<Rightarrow> breaker \<Rightarrow> breaker" where
  "call_end transient now was_probe raised b =
     (case raised of
        Some e \<Rightarrow> (if transient e then on_failure now was_probe b else b)
      | None \<Rightarrow> on_success was_probe b)"

text \<open>A call that no other call overlaps: \<open>t0\<close> and \<open>t1\<close> are the times of its two halves.\<close>

definition breaker_call ::
  "(exn \<Rightarrow> bool) \<Rightarrow> rat \<Rightarrow> rat \<Rightarrow> 'a res \<Rightarrow> breaker \<Rightarrow> 'a res \<times> breaker" where
  "breaker_call transient t0 t1 result b =
     (case call_begin t0 b of
        (Inl e, b') \<Rightarrow> (Inl e, b')
      | (Inr p, b') \<Rightarrow> (result, call_end transient t1 p (case result of Inl e \<Rightarrow> Some e | Inr v \<Rightarrow> None) b'))"

definition report :: "breaker \<Rightarrow> circuit \<times> int \<times> rat option \<times> bool \<times> int \<times> int" where
  "report b = (b_state b, consecutive_failures b, opened_at b, probe_in_flight b, total_calls b, total_failures b)"

definition force_open :: "rat \<Rightarrow> breaker \<Rightarrow> breaker" where
  "force_open now b = b\<lparr>b_state := Open, opened_at := Some now\<rparr>"

definition force_closed :: "breaker \<Rightarrow> breaker" where
  "force_closed b = b\<lparr>b_state := Closed, consecutive_failures := 0, opened_at := None, probe_in_flight := False\<rparr>"

section \<open>Overlapping calls\<close>

text \<open>
  A configuration is the breaker with the probe flags of the calls in flight, newest first.
  Any of them may complete next; every admission and completion happens at some time.
\<close>

type_synonym breaker_config = "breaker \<times> bool list"

inductive breaker_step :: "(exn \<Rightarrow> bool) \<Rightarrow> breaker_config \<Rightarrow> breaker_config \<Rightarrow> bool" for transient where
  admitted: "call_begin now b = (Inr p, b') \<Longrightarrow> breaker_step transient (b, fs) (b', p # fs)"
| rejected: "call_begin now b = (Inl e, b') \<Longrightarrow> breaker_step transient (b, fs) (b', fs)"
| completed: "fs = ls @ p # rs \<Longrightarrow> breaker_step transient (b, fs) (call_end transient now p raised b, ls @ rs)"

inductive breaker_reachable :: "(exn \<Rightarrow> bool) \<Rightarrow> int \<Rightarrow> rat \<Rightarrow> breaker_config \<Rightarrow> bool" for transient thr cd where
  start: "breaker_reachable transient thr cd (new_breaker thr cd, [])"
| next_step: "breaker_reachable transient thr cd c \<Longrightarrow> breaker_step transient c c' \<Longrightarrow> breaker_reachable transient thr cd c'"

inductive_cases breaker_stepE: "breaker_step transient (b, fs) c"

lemmas breaker_defs =
  breaker_allow_def on_success_def on_failure_def call_begin_def call_end_def Let_def

text \<open>
  The invariant: never half-open; open exactly when an opening time is recorded; fewer
  than \<open>threshold\<close> consecutive failures while closed; at most one probe in flight, and then the flag
  is set; the counters account for the calls in flight.
\<close>

definition breaker_inv :: "int \<Rightarrow> rat \<Rightarrow> breaker_config \<Rightarrow> bool" where
  "breaker_inv thr cd c \<longleftrightarrow>
     (case c of (b, fs) \<Rightarrow>
       b_threshold b = thr \<and> 0 < thr \<and> b_cooldown b = cd \<and> b_state b \<noteq> Half_open
       \<and> (b_state b = Open \<longleftrightarrow> opened_at b \<noteq> None)
       \<and> 0 \<le> consecutive_failures b
       \<and> (b_state b = Closed \<longrightarrow> consecutive_failures b < thr)
       \<and> count_list fs True \<le> 1 \<and> (True \<in> set fs \<longrightarrow> probe_in_flight b)
       \<and> 0 \<le> total_failures b \<and> total_failures b + int (length fs) \<le> total_calls b)"

lemma call_begin_inv:
  assumes "breaker_inv thr cd (b, fs)" "call_begin now b = (Inr p, b')"
  shows "breaker_inv thr cd (b', p # fs)"
  using assms by (auto simp: breaker_inv_def breaker_defs count_list_0_iff split: if_splits option.splits)

lemma call_begin_rejected:
  assumes "call_begin now b = (Inl e, b')"
  shows "b' = b"
  using assms by (auto simp: breaker_defs split: if_splits option.splits)

lemma call_end_inv:
  assumes "breaker_inv thr cd (b, ls @ p # rs)"
  shows "breaker_inv thr cd (call_end transient now p raised b, ls @ rs)"
proof -
  have c: "p \<Longrightarrow> True \<notin> set (ls @ rs)" "count_list (ls @ rs) True \<le> 1"
    using assms by (cases p; auto simp: breaker_inv_def count_list_0_iff)+
  show ?thesis
    using assms c by (cases raised; cases p) (auto simp: breaker_inv_def breaker_defs)
qed

lemma breaker_step_inv: "breaker_step transient c c' \<Longrightarrow> breaker_inv thr cd c \<Longrightarrow> breaker_inv thr cd c'"
  by (induction rule: breaker_step.induct) (auto dest: call_begin_rejected intro: call_begin_inv call_end_inv)

text \<open>
  C12. In every reachable state of the breaker, with any interleaving of overlapping calls,
  at most one probe is in flight, the breaker is open exactly when an opening time is set
  and never half-open, fewer than the threshold of failures have followed each other while
  it is closed, and the counters cover the failures and the calls in flight.
\<close>

theorem breaker_reachable_inv:
  assumes "breaker_reachable transient thr cd c" "0 < thr"
  shows "breaker_inv thr cd c"
  using assms
proof (induction rule: breaker_reachable.induct)
  case start
  then show ?case by (simp add: new_breaker_def breaker_inv_def)
next
  case (next_step c c')
  from breaker_step_inv [OF next_step.hyps(2)] next_step show ?case by blast
qed

theorem breaker_reachable_inv_witness:
  "breaker_inv 3 5 (new_breaker 3 5, [])"
  by (rule breaker_reachable_inv [of is_Exception, OF breaker_reachable.start]) simp

section \<open>When calls are admitted\<close>

text \<open>
  While the breaker is open no call is admitted before the cooldown has passed, and none
  while a probe is out; after the cooldown, exactly one call gets through, as the probe.
\<close>

theorem open_breaker_admission:
  assumes "b_state b = Open" "opened_at b = Some t0"
  shows "fst (call_begin now b) =
     (if now - t0 \<ge> b_cooldown b \<and> \<not> probe_in_flight b then Inr True else Inl OpenError)
   \<and> (fst (call_begin now b) = Inr True \<longrightarrow>
        fst (call_begin later (snd (call_begin now b))) = Inl OpenError)"
  using assms by (auto simp: breaker_defs)

theorem open_breaker_admission_witness:
  "fst (call_begin 6 (force_open 0 (new_breaker 3 5))) = Inr True"
  using open_breaker_admission [of "force_open 0 (new_breaker 3 5)" 0 6]
  by (simp add: force_open_def new_breaker_def)

text \<open>Sequential calls: the results of the guarded function with the times of the two halves.\<close>

fun run_calls ::
  "(exn \<Rightarrow> bool) \<Rightarrow> (rat \<times> rat \<times> 'a res) list \<Rightarrow> breaker \<Rightarrow> breaker" where
  "run_calls transient [] b = b"
| "run_calls transient ((t0, t1, r) # cs) b = run_calls transient cs (snd (breaker_call transient t0 t1 r b))"

lemma failing_call_closed:
  assumes "b_state b = Closed" "transient e" "consecutive_failures b + 1 < b_threshold b"
  shows "snd (breaker_call transient t0 t1 (Inl e) b) =
    b\<lparr>total_calls := total_calls b + 1, total_failures := total_failures b + 1,
      consecutive_failures := consecutive_failures b + 1\<rparr>"
  using assms by (simp add: breaker_call_def breaker_defs)

lemma failing_run:
  assumes "b_state b = Closed" "list_all (\<lambda>(t0, t1, r). \<exists>e. r = Inl e \<and> transient e) cs"
    "consecutive_failures b + int (length cs) = b_threshold b" "cs \<noteq> []"
  shows "b_state (run_calls transient cs b) = Open
    \<and> opened_at (run_calls transient cs b) = Some (fst (snd (last cs)))
    \<and> probe_in_flight (run_calls transient cs b) = probe_in_flight b
    \<and> b_cooldown (run_calls transient cs b) = b_cooldown b
    \<and> b_threshold (run_calls transient cs b) = b_threshold b"
  using assms
proof (induction cs arbitrary: b)
  case (Cons c cs)
  obtain t0 t1 e where c: "c = (t0, t1, Inl e)" "transient e" using Cons.prems(2) by auto
  show ?case
  proof (cases cs)
    case Nil
    with Cons.prems c show ?thesis by (simp add: breaker_call_def breaker_defs)
  next
    case (Cons c2 cs2)
    then have lt: "consecutive_failures b + 1 < b_threshold b" using Cons.prems(3) by simp
    let ?b = "snd (breaker_call transient t0 t1 (Inl e) b :: 'a res \<times> breaker)"
    note b' = failing_call_closed [where 'a = 'a and e = e and transient = transient, OF Cons.prems(1) c(2) lt, of t0 t1]
    have "b_state (run_calls transient cs ?b) = Open
      \<and> opened_at (run_calls transient cs ?b) = Some (fst (snd (last cs)))
      \<and> probe_in_flight (run_calls transient cs ?b) = probe_in_flight ?b
      \<and> b_cooldown (run_calls transient cs ?b) = b_cooldown ?b
      \<and> b_threshold (run_calls transient cs ?b) = b_threshold ?b"
      by (rule Cons.IH) (use Cons.prems b' Cons in auto)
    with b' c(1) Cons show ?thesis by simp
  qed
qed simp

text \<open>
  C13. The breaker trips and recovers: starting closed without failures, \<open>threshold\<close> failing
  calls in a row open it; the next call that comes after the cooldown is let through, and
  if it succeeds the breaker is closed again with no failures counted.
\<close>

theorem breaker_trips_and_recovers:
  assumes "0 < thr" "length fails = nat thr"
    "list_all (\<lambda>(t0, t1, r). \<exists>e. r = Inl e \<and> transient e) fails"
    "cd \<le> t - fst (snd (last fails))"
  shows "b_state (run_calls transient fails (new_breaker thr cd)) = Open
    \<and> (\<exists>b. breaker_call transient t t1 (Inr v) (run_calls transient fails (new_breaker thr cd)) = (Inr v, b)
         \<and> b_state b = Closed \<and> consecutive_failures b = 0 \<and> \<not> probe_in_flight b)"
proof -
  let ?b = "run_calls transient fails (new_breaker thr cd)"
  have "b_state ?b = Open \<and> opened_at ?b = Some (fst (snd (last fails))) \<and>
      probe_in_flight ?b = probe_in_flight (new_breaker thr cd) \<and> b_cooldown ?b = b_cooldown (new_breaker thr cd)
      \<and> b_threshold ?b = b_threshold (new_breaker thr cd)"
    by (rule failing_run) (use assms in \<open>auto simp: new_breaker_def\<close>)
  with assms(4) show ?thesis by (simp add: breaker_call_def breaker_defs new_breaker_def)
qed

theorem breaker_trips_and_recovers_witness:
  "b_state (run_calls is_Exception [(0, 1, Inl OSError :: nat res), (1, 2, Inl ValueError)] (new_breaker 2 5)) = Open"
  by (rule breaker_trips_and_recovers [where t = 9, THEN conjunct1]) (simp_all add: is_Exception_def)

text \<open>
  A probe that ends in an exception the predicate does not count, such as a cancellation,
  leaves the flag set: from then on, with no call in flight, every state is the same and every call is
  refused.
\<close>

definition stuck :: "breaker_config \<Rightarrow> bool" where
  "stuck c \<longleftrightarrow> (case c of (b, fs) \<Rightarrow> b_state b = Open \<and> probe_in_flight b \<and> fs = [])"

text \<open>
  A breaker whose probe was cancelled never admits a call again: once it is open with the probe
  flag set and no call in flight, every step leads back to the same configuration, and every call is
  refused, however long the cooldown has passed.
\<close>

theorem breaker_stuck_forever:
  assumes "stuck (b, fs)" "(breaker_step transient)\<^sup>*\<^sup>* (b, fs) c"
  shows "c = (b, fs) \<and> fst (call_begin now b) = Inl OpenError"
proof -
  from assms(1) have fs: "fs = []" by (simp add: stuck_def)
  have rej: "fst (call_begin t b) = Inl OpenError" for t
    using assms(1) by (auto simp: stuck_def breaker_defs split: option.splits)
  from assms(2) have "c = (b, fs)"
  proof (induction rule: rtranclp_induct)
    case (step c1 c2)
    from step(2) show ?case
    proof (cases rule: breaker_step.cases)
      case (admitted t b1 p b2 fs1)
      with step.IH rej [of t] show ?thesis by simp
    next
      case (rejected t b1 e b2 fs1)
      with step.IH show ?thesis by (auto dest: call_begin_rejected)
    next
      case (completed fs1 ls p rs b1 t r)
      with step.IH fs show ?thesis by simp
    qed
  qed simp
  with rej show ?thesis by simp
qed

theorem breaker_stuck_forever_witness:
  "fst (call_begin 1000000
       (snd (breaker_call is_Exception 9 10 (Inl CancelledError :: nat res) (force_open 0 (new_breaker 3 5)))))
     = Inl OpenError"
proof -
  let ?b = "snd (breaker_call is_Exception 9 10 (Inl CancelledError :: nat res) (force_open 0 (new_breaker 3 5)))"
  have "stuck (?b, [])"
    by (simp add: stuck_def breaker_call_def breaker_defs force_open_def new_breaker_def is_Exception_def)
  from breaker_stuck_forever [OF this rtranclp.rtrancl_refl] show ?thesis by blast
qed

end
