(* ===== verification/Redis.thy ===== *)
theory Redis
  imports Json
begin

text \<open>
  The interface to Redis, a service outside the repository: the commands that the code and
  its Lua scripts issue, as a record of functions on an unspecified server state, and their
  documented behaviour as a locale over four views of that state (string keys, hashes,
  sorted sets and lists). The interpretation on an association-list store shows that the
  laws can hold together. Stored texts are kept by what they are the text of: an integer, a
  floating-point number, a JSON value or another string.
\<close>

section \<open>Texts and commands\<close>

datatype rv = VStr string | VInt int | VNum rat | VJson json

record 's redis =
  r_get :: "string \<Rightarrow> 's \<Rightarrow> rv option"
  r_set :: "string \<Rightarrow> rv \<Rightarrow> 's \<Rightarrow> 's"
  r_del :: "string \<Rightarrow> 's \<Rightarrow> 's"
  r_incr :: "string \<Rightarrow> int \<Rightarrow> 's \<Rightarrow> int \<times> 's"
  r_expire :: "string \<Rightarrow> int \<Rightarrow> 's \<Rightarrow> 's"
  r_exists :: "string \<Rightarrow> 's \<Rightarrow> bool"
  r_scan :: "string \<Rightarrow> 's \<Rightarrow> string list"
  r_hget :: "string \<Rightarrow> string \<Rightarrow> 's \<Rightarrow> rv option"
  r_hgetall :: "string \<Rightarrow> 's \<Rightarrow> (string \<times> rv) list"
  r_hset :: "string \<Rightarrow> (string \<times> rv) list \<Rightarrow> 's \<Rightarrow> 's"
  r_hincr :: "string \<Rightarrow> string \<Rightarrow> int \<Rightarrow> 's \<Rightarrow> int \<times> 's"
  r_zadd :: "string \<Rightarrow> string \<Rightarrow> rat \<Rightarrow> 's \<Rightarrow> 's"
  r_zrem :: "string \<Rightarrow> string \<Rightarrow> 's \<Rightarrow> 's"
  r_zfirst :: "string \<Rightarrow> 's \<Rightarrow> (string \<times> rat) option"
  r_rpush :: "string \<Rightarrow> rv \<Rightarrow> 's \<Rightarrow> 's"
  r_ltrim_last :: "string \<Rightarrow> int \<Rightarrow> 's \<Rightarrow> 's"
  r_llen :: "string \<Rightarrow> 's \<Rightarrow> nat"
  r_lhead :: "string \<Rightarrow> 's \<Rightarrow> rv option"
  r_lpop :: "string \<Rightarrow> 's \<Rightarrow> 's"

text \<open>Lua's \<open>tonumber\<close> and Python's \<open>int\<close> and \<open>json.loads\<close> on a stored text.\<close>

fun tonumber :: "rv \<Rightarrow> rat option" where
  "tonumber (VInt i) = Some (of_int i)"
| "tonumber (VNum r) = Some r"
| "tonumber _ = None"

definition num_or :: "rat \<Rightarrow> rv option \<Rightarrow> rat" where
  "num_or d v = (case v of None \<Rightarrow> d | Some x \<Rightarrow> (case tonumber x of None \<Rightarrow> d | Some r \<Rightarrow> r))"

fun rv_int :: "rv \<Rightarrow> int res" where
  "rv_int (VInt i) = Inr i"
| "rv_int _ = Inl ValueError"

fun json_loads :: "rv \<Rightarrow> json res" where
  "json_loads (VJson j) = Inr j"
| "json_loads (VInt i) = Inr (JInt i)"
| "json_loads (VNum r) = Inr (JFloat r)"
| "json_loads (VStr s) = Inl ValueError"

text \<open>
  A call of the client may fail on the network: with an exception, before or after the
  server has executed the command or script.
\<close>

type_synonym fault = "(exn \<times> bool) option"

definition net :: "fault \<Rightarrow> ('s \<Rightarrow> 'a \<times> 's) \<Rightarrow> 's \<Rightarrow> 'a res \<times> 's" where
  "net flt f s =
     (case flt of
        None \<Rightarrow> (Inr (fst (f s)), snd (f s))
      | Some (e, executed) \<Rightarrow> (Inl e, if executed then snd (f s) else s))"

definition sbind :: "('s \<Rightarrow> 'a res \<times> 's) \<Rightarrow> ('a \<Rightarrow> 's \<Rightarrow> 'b res \<times> 's) \<Rightarrow> 's \<Rightarrow> 'b res \<times> 's" where
  "sbind m f s = (case m s of (Inl e, s') \<Rightarrow> (Inl e, s') | (Inr x, s') \<Rightarrow> f x s')"

definition sreturn :: "'a \<Rightarrow> 's \<Rightarrow> 'a res \<times> 's" where
  "sreturn x s = (Inr x, s)"

definition sraise :: "exn \<Rightarrow> 's \<Rightarrow> 'a res \<times> 's" where
  "sraise e s = (Inl e, s)"

definition read_only :: "('s \<Rightarrow> 'a) \<Rightarrow> 's \<Rightarrow> 'a \<times> 's" where
  "read_only f s = (f s, s)"

definition write_only :: "('s \<Rightarrow> 's) \<Rightarrow> 's \<Rightarrow> unit \<times> 's" where
  "write_only f s = ((), f s)"

lemma net_None [simp]: "net None f s = (Inr (fst (f s)), snd (f s))"
  by (simp add: net_def)

lemma net_cases: "snd (net flt f s) = s \<or> snd (net flt f s) = snd (f s)"
  by (cases flt) (auto simp: net_def)

lemma sbind_net_read [simp]: "sbind (net None (read_only g)) F s = F (g s) s"
  by (simp add: sbind_def read_only_def)

lemmas client_defs = sbind_def sreturn_def sraise_def read_only_def write_only_def

section \<open>Documented behaviour\<close>

locale redis_laws =
  fixes R :: "'s redis"
    and kv :: "'s \<Rightarrow> string \<Rightarrow> rv option"
    and hash :: "'s \<Rightarrow> string \<Rightarrow> string \<Rightarrow> rv option"
    and zset :: "'s \<Rightarrow> string \<Rightarrow> string \<Rightarrow> rat option"
    and rlist :: "'s \<Rightarrow> string \<Rightarrow> rv list"
  assumes get: "hash s k = Map.empty \<Longrightarrow> zset s k = Map.empty \<Longrightarrow> rlist s k = [] \<Longrightarrow> r_get R k s = kv s k"
    and set_views: "hash s k = Map.empty \<Longrightarrow> zset s k = Map.empty \<Longrightarrow> rlist s k = [] \<Longrightarrow>
      kv (r_set R k v s) = (kv s)(k \<mapsto> v) \<and> hash (r_set R k v s) = hash s
      \<and> zset (r_set R k v s) = zset s \<and> rlist (r_set R k v s) = rlist s"
    and del_views: "kv (r_del R k s) = (kv s)(k := None) \<and> hash (r_del R k s) = (hash s)(k := Map.empty)
      \<and> zset (r_del R k s) = (zset s)(k := Map.empty) \<and> rlist (r_del R k s) = (rlist s)(k := [])"
    and incr_views: "hash s k = Map.empty \<Longrightarrow> zset s k = Map.empty \<Longrightarrow> rlist s k = [] \<Longrightarrow>
      kv s k = None \<and> i = 0 \<or> kv s k = Some (VInt i) \<Longrightarrow>
      fst (r_incr R k d s) = i + d \<and> kv (snd (r_incr R k d s)) = (kv s)(k \<mapsto> VInt (i + d))
      \<and> hash (snd (r_incr R k d s)) = hash s \<and> zset (snd (r_incr R k d s)) = zset s
      \<and> rlist (snd (r_incr R k d s)) = rlist s"
    and expire_views: "0 < ttl \<Longrightarrow> kv (r_expire R k ttl s) = kv s \<and> hash (r_expire R k ttl s) = hash s
      \<and> zset (r_expire R k ttl s) = zset s \<and> rlist (r_expire R k ttl s) = rlist s"
    and exists_iff: "r_exists R k s \<longleftrightarrow> kv s k \<noteq> None \<or> hash s k \<noteq> Map.empty \<or> zset s k \<noteq> Map.empty \<or> rlist s k \<noteq> []"
    and scan_set: "set (r_scan R pre s) = {k. r_exists R k s \<and> take (length pre) k = pre}"
    and hget: "kv s k = None \<Longrightarrow> zset s k = Map.empty \<Longrightarrow> rlist s k = [] \<Longrightarrow> r_hget R k f s = hash s k f"
    and hgetall: "kv s k = None \<Longrightarrow> zset s k = Map.empty \<Longrightarrow> rlist s k = [] \<Longrightarrow>
      map_of (r_hgetall R k s) = hash s k"
    and hset_views: "kv s k = None \<Longrightarrow> zset s k = Map.empty \<Longrightarrow> rlist s k = [] \<Longrightarrow> distinct (map fst fvs) \<Longrightarrow>
      hash (r_hset R k fvs s) = (hash s)(k := hash s k ++ map_of fvs) \<and> kv (r_hset R k fvs s) = kv s
      \<and> zset (r_hset R k fvs s) = zset s \<and> rlist (r_hset R k fvs s) = rlist s"
    and hincr_views: "kv s k = None \<Longrightarrow> zset s k = Map.empty \<Longrightarrow> rlist s k = [] \<Longrightarrow>
      hash s k f = None \<and> i = 0 \<or> hash s k f = Some (VInt i) \<Longrightarrow>
      fst (r_hincr R k f d s) = i + d
      \<and> hash (snd (r_hincr R k f d s)) = (hash s)(k := (hash s k)(f \<mapsto> VInt (i + d)))
      \<and> kv (snd (r_hincr R k f d s)) = kv s \<and> zset (snd (r_hincr R k f d s)) = zset s
      \<and> rlist (snd (r_hincr R k f d s)) = rlist s"
    and zadd_views: "kv s k = None \<Longrightarrow> hash s k = Map.empty \<Longrightarrow> rlist s k = [] \<Longrightarrow>
      zset (r_zadd R k m x s) = (zset s)(k := (zset s k)(m \<mapsto> x)) \<and> kv (r_zadd R k m x s) = kv s
      \<and> hash (r_zadd R k m x s) = hash s \<and> rlist (r_zadd R k m x s) = rlist s"
    and zrem_views: "kv s k = None \<Longrightarrow> hash s k = Map.empty \<Longrightarrow> rlist s k = [] \<Longrightarrow>
      zset (r_zrem R k m s) = (zset s)(k := (zset s k)(m := None)) \<and> kv (r_zrem R k m s) = kv s
      \<and> hash (r_zrem R k m s) = hash s \<and> rlist (r_zrem R k m s) = rlist s"
    and zfirst: "kv s k = None \<Longrightarrow> hash s k = Map.empty \<Longrightarrow> rlist s k = [] \<Longrightarrow>
      (case r_zfirst R k s of None \<Rightarrow> zset s k = Map.empty
        | Some (m, x) \<Rightarrow> zset s k m = Some x \<and> (\<forall>m' x'. zset s k m' = Some x' \<longrightarrow> x \<le> x'))"
    and rpush_views: "kv s k = None \<Longrightarrow> hash s k = Map.empty \<Longrightarrow> zset s k = Map.empty \<Longrightarrow>
      rlist (r_rpush R k v s) = (rlist s)(k := rlist s k @ [v]) \<and> kv (r_rpush R k v s) = kv s
      \<and> hash (r_rpush R k v s) = hash s \<and> zset (r_rpush R k v s) = zset s"
    and ltrim_views: "kv s k = None \<Longrightarrow> hash s k = Map.empty \<Longrightarrow> zset s k = Map.empty \<Longrightarrow> 0 < n \<Longrightarrow>
      rlist (r_ltrim_last R k n s) = (rlist s)(k := drop (length (rlist s k) - nat n) (rlist s k))
      \<and> kv (r_ltrim_last R k n s) = kv s \<and> hash (r_ltrim_last R k n s) = hash s
      \<and> zset (r_ltrim_last R k n s) = zset s"
    and llen: "kv s k = None \<Longrightarrow> hash s k = Map.empty \<Longrightarrow> zset s k = Map.empty \<Longrightarrow>
      r_llen R k s = length (rlist s k)"
    and lhead: "kv s k = None \<Longrightarrow> hash s k = Map.empty \<Longrightarrow> zset s k = Map.empty \<Longrightarrow>
      r_lhead R k s = (case rlist s k of [] \<Rightarrow> None | v # vs \<Rightarrow> Some v)"
    and lpop_views: "kv s k = None \<Longrightarrow> hash s k = Map.empty \<Longrightarrow> zset s k = Map.empty \<Longrightarrow>
      rlist (r_lpop R k s) = (rlist s)(k := tl (rlist s k)) \<and> kv (r_lpop R k s) = kv s
      \<and> hash (r_lpop R k s) = hash s \<and> zset (r_lpop R k s) = zset s"
begin

text \<open>A key that holds a string, or nothing, and one that holds a hash, or nothing.\<close>

definition str_key :: "'s \<Rightarrow> string \<Rightarrow> bool" where
  "str_key s k \<longleftrightarrow> hash s k = Map.empty \<and> zset s k = Map.empty \<and> rlist s k = []"

definition hash_key :: "'s \<Rightarrow> string \<Rightarrow> bool" where
  "hash_key s k \<longleftrightarrow> kv s k = None \<and> zset s k = Map.empty \<and> rlist s k = []"

definition zset_key :: "'s \<Rightarrow> string \<Rightarrow> bool" where
  "zset_key s k \<longleftrightarrow> kv s k = None \<and> hash s k = Map.empty \<and> rlist s k = []"

definition list_key :: "'s \<Rightarrow> string \<Rightarrow> bool" where
  "list_key s k \<longleftrightarrow> kv s k = None \<and> hash s k = Map.empty \<and> zset s k = Map.empty"

lemmas key_defs = str_key_def hash_key_def zset_key_def list_key_def

lemma llen_list: "list_key s k \<Longrightarrow> r_llen R k s = length (rlist s k)"
  by (simp add: llen list_key_def)

lemma lhead_list: "list_key s k \<Longrightarrow> r_lhead R k s = (case rlist s k of [] \<Rightarrow> None | v # vs \<Rightarrow> Some v)"
  by (simp add: lhead list_key_def)

lemma lpop_list:
  assumes "list_key s k"
  shows "rlist (r_lpop R k s) = (rlist s)(k := tl (rlist s k))" "kv (r_lpop R k s) = kv s"
    "hash (r_lpop R k s) = hash s" "zset (r_lpop R k s) = zset s"
  using lpop_views [of s k] assms by (simp_all add: list_key_def)

lemma rpush_list:
  assumes "list_key s k"
  shows "rlist (r_rpush R k v s) = (rlist s)(k := rlist s k @ [v])" "kv (r_rpush R k v s) = kv s"
    "hash (r_rpush R k v s) = hash s" "zset (r_rpush R k v s) = zset s"
  using rpush_views [of s k v] assms by (simp_all add: list_key_def)

lemma ltrim_list:
  assumes "list_key s k" "0 < n"
  shows "rlist (r_ltrim_last R k n s) = (rlist s)(k := drop (length (rlist s k) - nat n) (rlist s k))"
    "kv (r_ltrim_last R k n s) = kv s" "hash (r_ltrim_last R k n s) = hash s"
    "zset (r_ltrim_last R k n s) = zset s"
  using ltrim_views [of s k n] assms by (simp_all add: list_key_def)

lemma get_str: "str_key s k \<Longrightarrow> r_get R k s = kv s k"
  by (simp add: get str_key_def)

lemma set_str:
  assumes "str_key s k"
  shows "kv (r_set R k v s) = (kv s)(k \<mapsto> v)" "hash (r_set R k v s) = hash s"
    "zset (r_set R k v s) = zset s" "rlist (r_set R k v s) = rlist s"
  using set_views [of s k v] assms by (simp_all add: str_key_def)

lemma del_any:
  "kv (r_del R k s) = (kv s)(k := None)" "hash (r_del R k s) = (hash s)(k := Map.empty)"
  "zset (r_del R k s) = (zset s)(k := Map.empty)" "rlist (r_del R k s) = (rlist s)(k := [])"
  using del_views [of k s] by simp_all

lemma del_str:
  assumes "str_key s k"
  shows "kv (r_del R k s) = (kv s)(k := None)" "hash (r_del R k s) = hash s"
    "zset (r_del R k s) = zset s" "rlist (r_del R k s) = rlist s"
  using assms del_any [of k s] by (auto simp: str_key_def fun_eq_iff)

text \<open>The integer at a counter key; absent counts as zero.\<close>

definition counter :: "'s \<Rightarrow> string \<Rightarrow> int" where
  "counter s k = (case kv s k of Some (VInt i) \<Rightarrow> i | _ \<Rightarrow> 0)"

definition counter_key :: "'s \<Rightarrow> string \<Rightarrow> bool" where
  "counter_key s k \<longleftrightarrow> str_key s k \<and> (kv s k = None \<or> (\<exists>i. kv s k = Some (VInt i)))"

lemma incr_counter:
  assumes "counter_key s k"
  shows "fst (r_incr R k d s) = counter s k + d"
    "kv (snd (r_incr R k d s)) = (kv s)(k \<mapsto> VInt (counter s k + d))"
    "hash (snd (r_incr R k d s)) = hash s" "zset (snd (r_incr R k d s)) = zset s"
    "rlist (snd (r_incr R k d s)) = rlist s"
  using incr_views [of s k "counter s k" d] assms by (auto simp: counter_key_def str_key_def counter_def)

lemma num_or_counter:
  assumes "counter_key s k"
  shows "num_or 0 (r_get R k s) = of_int (counter s k)"
  using assms get_str [of s k] by (auto simp: counter_key_def counter_def num_or_def)

lemma expire_any:
  assumes "0 < ttl"
  shows "kv (r_expire R k ttl s) = kv s" "hash (r_expire R k ttl s) = hash s"
    "zset (r_expire R k ttl s) = zset s" "rlist (r_expire R k ttl s) = rlist s"
  using expire_views [OF assms, of k s] by simp_all

lemma hget_hash: "hash_key s k \<Longrightarrow> r_hget R k f s = hash s k f"
  by (simp add: hget hash_key_def)

lemma hgetall_hash: "hash_key s k \<Longrightarrow> map_of (r_hgetall R k s) = hash s k"
  by (simp add: hgetall hash_key_def)

lemma hset_hash:
  assumes "hash_key s k" "distinct (map fst fvs)"
  shows "hash (r_hset R k fvs s) = (hash s)(k := hash s k ++ map_of fvs)" "kv (r_hset R k fvs s) = kv s"
    "zset (r_hset R k fvs s) = zset s" "rlist (r_hset R k fvs s) = rlist s"
  using hset_views [of s k fvs] assms by (simp_all add: hash_key_def)

definition hcounter :: "'s \<Rightarrow> string \<Rightarrow> string \<Rightarrow> int" where
  "hcounter s k f = (case hash s k f of Some (VInt i) \<Rightarrow> i | _ \<Rightarrow> 0)"

lemma hincr_hash:
  assumes "hash_key s k" "hash s k f = None \<or> (\<exists>i. hash s k f = Some (VInt i))"
  shows "fst (r_hincr R k f d s) = hcounter s k f + d"
    "hash (snd (r_hincr R k f d s)) = (hash s)(k := (hash s k)(f \<mapsto> VInt (hcounter s k f + d)))"
    "kv (snd (r_hincr R k f d s)) = kv s" "zset (snd (r_hincr R k f d s)) = zset s"
    "rlist (snd (r_hincr R k f d s)) = rlist s"
  using hincr_views [of s k f "hcounter s k f" d] assms by (auto simp: hash_key_def hcounter_def)

lemma zadd_zset:
  assumes "zset_key s k"
  shows "zset (r_zadd R k m x s) = (zset s)(k := (zset s k)(m \<mapsto> x))" "kv (r_zadd R k m x s) = kv s"
    "hash (r_zadd R k m x s) = hash s" "rlist (r_zadd R k m x s) = rlist s"
  using zadd_views [of s k m x] assms by (simp_all add: zset_key_def)

lemma zrem_zset:
  assumes "zset_key s k"
  shows "zset (r_zrem R k m s) = (zset s)(k := (zset s k)(m := None))" "kv (r_zrem R k m s) = kv s"
    "hash (r_zrem R k m s) = hash s" "rlist (r_zrem R k m s) = rlist s"
  using zrem_views [of s k m] assms by (simp_all add: zset_key_def)

end

section \<open>A store that keeps the laws\<close>

datatype stored =
  SStr rv | SHash "(string \<times> rv) list" | SZset "(string \<times> rat) list" | SList "rv list"

type_synonym store = "(string \<times> stored) list"

definition st_kv :: "store \<Rightarrow> string \<Rightarrow> rv option" where
  "st_kv s k = (case map_of s k of Some (SStr v) \<Rightarrow> Some v | _ \<Rightarrow> None)"

definition st_fields :: "store \<Rightarrow> string \<Rightarrow> (string \<times> rv) list" where
  "st_fields s k = (case map_of s k of Some (SHash h) \<Rightarrow> h | _ \<Rightarrow> [])"

definition st_members :: "store \<Rightarrow> string \<Rightarrow> (string \<times> rat) list" where
  "st_members s k = (case map_of s k of Some (SZset z) \<Rightarrow> z | _ \<Rightarrow> [])"

definition st_list :: "store \<Rightarrow> string \<Rightarrow> rv list" where
  "st_list s k = (case map_of s k of Some (SList l) \<Rightarrow> l | _ \<Rightarrow> [])"

definition st_hash :: "store \<Rightarrow> string \<Rightarrow> string \<Rightarrow> rv option" where
  "st_hash s k = map_of (st_fields s k)"

definition st_zset :: "store \<Rightarrow> string \<Rightarrow> string \<Rightarrow> rat option" where
  "st_zset s k = map_of (st_members s k)"

definition st_int :: "rv option \<Rightarrow> int" where
  "st_int v = (case v of Some (VInt i) \<Rightarrow> i | _ \<Rightarrow> 0)"

definition st_exists :: "string \<Rightarrow> store \<Rightarrow> bool" where
  "st_exists k s \<longleftrightarrow> st_kv s k \<noteq> None \<or> st_fields s k \<noteq> [] \<or> st_members s k \<noteq> [] \<or> st_list s k \<noteq> []"

fun st_min :: "(string \<times> rat) list \<Rightarrow> (string \<times> rat) option" where
  "st_min [] = None"
| "st_min (m # ms) = (case st_min ms of None \<Rightarrow> Some m | Some n \<Rightarrow> if snd m \<le> snd n then Some m else Some n)"

definition list_redis :: "store redis" where
  "list_redis =
     \<lparr>r_get = (\<lambda>k s. st_kv s k),
      r_set = (\<lambda>k v s. AList.update k (SStr v) s),
      r_del = (\<lambda>k s. AList.delete k s),
      r_incr = (\<lambda>k d s. (st_int (st_kv s k) + d, AList.update k (SStr (VInt (st_int (st_kv s k) + d))) s)),
      r_expire = (\<lambda>k ttl s. if 0 < ttl then s else AList.delete k s),
      r_exists = st_exists,
      r_scan = (\<lambda>pre s. filter (\<lambda>k. st_exists k s \<and> take (length pre) k = pre) (map fst s)),
      r_hget = (\<lambda>k f s. map_of (st_fields s k) f),
      r_hgetall = (\<lambda>k s. st_fields s k),
      r_hset = (\<lambda>k fvs s. if fvs = [] then s else AList.update k (SHash (dict_update (st_fields s k) fvs)) s),
      r_hincr = (\<lambda>k f d s.
        let i = st_int (map_of (st_fields s k) f) + d
        in (i, AList.update k (SHash (AList.update f (VInt i) (st_fields s k))) s)),
      r_zadd = (\<lambda>k m x s. AList.update k (SZset (AList.update m x (st_members s k))) s),
      r_zrem = (\<lambda>k m s. if st_members s k = [] then s
                        else AList.update k (SZset (AList.delete m (st_members s k))) s),
      r_zfirst = (\<lambda>k s. st_min (AList.clearjunk (st_members s k))),
      r_rpush = (\<lambda>k v s. AList.update k (SList (st_list s k @ [v])) s),
      r_ltrim_last = (\<lambda>k n s. if st_list s k = [] then s
         else AList.update k (SList (drop (length (st_list s k) - nat n) (st_list s k))) s),
      r_llen = (\<lambda>k s. length (st_list s k)),
      r_lhead = (\<lambda>k s. case st_list s k of [] \<Rightarrow> None | v # vs \<Rightarrow> Some v),
      r_lpop = (\<lambda>k s. if st_list s k = [] then s else AList.update k (SList (tl (st_list s k))) s)\<rparr>"

lemma dict_update_map: "distinct (map fst e) \<Longrightarrow> map_of (dict_update d e) = map_of d ++ map_of e"
proof -
  have "map_of (foldl (\<lambda>acc (k, v). AList.update k v acc) d e) = map_of d ++ map_of (rev e)"
    by (induction e arbitrary: d) (auto simp: map_add_def fun_eq_iff split: option.splits)
  moreover assume "distinct (map fst e)"
  then have "map_of (rev e) = map_of e" by (subst map_of_inject_set) (simp_all add: rev_map [symmetric])
  ultimately show ?thesis by (simp add: dict_update_def)
qed

lemma st_min_None: "st_min ms = None \<longleftrightarrow> ms = []"
  by (cases ms) (auto split: option.splits)

lemma st_min_Some: "st_min ms = Some (m, x) \<Longrightarrow> (m, x) \<in> set ms \<and> (\<forall>(m', x') \<in> set ms. x \<le> x')"
  by (induction ms arbitrary: m x) (fastforce simp: st_min_None split: option.splits if_splits)+

lemma st_update:
  "st_kv (AList.update k x s) = (st_kv s)(k := (case x of SStr v \<Rightarrow> Some v | _ \<Rightarrow> None))"
  "st_fields (AList.update k x s) = (st_fields s)(k := (case x of SHash v \<Rightarrow> v | _ \<Rightarrow> []))"
  "st_members (AList.update k x s) = (st_members s)(k := (case x of SZset v \<Rightarrow> v | _ \<Rightarrow> []))"
  "st_list (AList.update k x s) = (st_list s)(k := (case x of SList v \<Rightarrow> v | _ \<Rightarrow> []))"
  by (rule ext, simp add: st_kv_def st_fields_def st_members_def st_list_def split: stored.splits)+

lemma st_delete:
  "st_kv (AList.delete k s) = (st_kv s)(k := None)"
  "st_fields (AList.delete k s) = (st_fields s)(k := [])"
  "st_members (AList.delete k s) = (st_members s)(k := [])"
  "st_list (AList.delete k s) = (st_list s)(k := [])"
  by (rule ext, simp add: st_kv_def st_fields_def st_members_def st_list_def delete_conv')+

lemma st_empty:
  "st_hash s k = Map.empty \<longleftrightarrow> st_fields s k = []" "st_zset s k = Map.empty \<longleftrightarrow> st_members s k = []"
  by (simp_all add: st_hash_def st_zset_def)

lemma st_hash_fun: "st_hash s = (\<lambda>k. map_of (st_fields s k))" "st_zset s = (\<lambda>k. map_of (st_members s k))"
  by (simp_all add: fun_eq_iff st_hash_def st_zset_def)

lemma st_kv_other:
  "st_fields s k \<noteq> [] \<or> st_members s k \<noteq> [] \<or> st_list s k \<noteq> [] \<Longrightarrow> st_kv s k = None"
  by (auto simp: st_kv_def st_fields_def st_members_def st_list_def split: option.splits stored.splits)

lemma st_fun_upd_comp: "(\<lambda>x. map_of ((f(k := ys)) x)) = (\<lambda>x. map_of (f x))(k := map_of ys)"
  by (rule ext) simp

lemma st_fun_upd_id: "f k = y \<Longrightarrow> f(k := y) = f"
  by auto

lemmas st_simps = list_redis_def st_update st_delete st_hash_fun st_fun_upd_comp Let_def

interpretation list_store: redis_laws list_redis st_kv st_hash st_zset st_list
proof
  show "r_get list_redis k s = st_kv s k" for s k by (simp add: list_redis_def)
next
  fix s :: store and k :: string and v :: rv
  assume "st_hash s k = Map.empty" "st_zset s k = Map.empty" "st_list s k = []"
  then show "st_kv (r_set list_redis k v s) = (st_kv s)(k \<mapsto> v) \<and> st_hash (r_set list_redis k v s) = st_hash s
      \<and> st_zset (r_set list_redis k v s) = st_zset s \<and> st_list (r_set list_redis k v s) = st_list s"
    unfolding st_empty by (auto simp: st_simps fun_eq_iff)
next
  show "st_kv (r_del list_redis k s) = (st_kv s)(k := None)
      \<and> st_hash (r_del list_redis k s) = (st_hash s)(k := Map.empty)
      \<and> st_zset (r_del list_redis k s) = (st_zset s)(k := Map.empty)
      \<and> st_list (r_del list_redis k s) = (st_list s)(k := [])" for k s
    by (auto simp: st_simps fun_eq_iff)
next
  fix s :: store and k :: string and i d :: int
  assume "st_hash s k = Map.empty" "st_zset s k = Map.empty" "st_list s k = []"
    "st_kv s k = None \<and> i = 0 \<or> st_kv s k = Some (VInt i)"
  then show "fst (r_incr list_redis k d s) = i + d
      \<and> st_kv (snd (r_incr list_redis k d s)) = (st_kv s)(k \<mapsto> VInt (i + d))
      \<and> st_hash (snd (r_incr list_redis k d s)) = st_hash s \<and> st_zset (snd (r_incr list_redis k d s)) = st_zset s
      \<and> st_list (snd (r_incr list_redis k d s)) = st_list s"
    unfolding st_empty by (auto simp: st_simps st_int_def fun_eq_iff)
next
  show "st_kv (r_expire list_redis k ttl s) = st_kv s \<and> st_hash (r_expire list_redis k ttl s) = st_hash s
      \<and> st_zset (r_expire list_redis k ttl s) = st_zset s \<and> st_list (r_expire list_redis k ttl s) = st_list s"
    if "0 < ttl" for ttl k s using that by (simp add: list_redis_def)
next
  show "r_exists list_redis k s \<longleftrightarrow> st_kv s k \<noteq> None \<or> st_hash s k \<noteq> Map.empty \<or> st_zset s k \<noteq> Map.empty \<or> st_list s k \<noteq> []"
    for k s by (simp add: list_redis_def st_exists_def st_empty)
next
  fix pre :: string and s :: store
  have "st_exists k s \<Longrightarrow> k \<in> fst ` set s" for k
    by (auto simp: st_exists_def st_kv_def st_fields_def st_members_def st_list_def
        split: option.splits stored.splits dest: map_of_SomeD intro: rev_image_eqI)
  then show "set (r_scan list_redis pre s) = {k. r_exists list_redis k s \<and> take (length pre) k = pre}"
    by (auto simp: list_redis_def)
next
  show "r_hget list_redis k f s = st_hash s k f" for k f s by (simp add: list_redis_def st_hash_def)
next
  show "map_of (r_hgetall list_redis k s) = st_hash s k" for k s by (simp add: list_redis_def st_hash_def)
next
  fix s :: store and k :: string and fvs :: "(string \<times> rv) list"
  assume "st_kv s k = None" "st_zset s k = Map.empty" "st_list s k = []" "distinct (map fst fvs)"
  then show "st_hash (r_hset list_redis k fvs s) = (st_hash s)(k := st_hash s k ++ map_of fvs)
      \<and> st_kv (r_hset list_redis k fvs s) = st_kv s
      \<and> st_zset (r_hset list_redis k fvs s) = st_zset s \<and> st_list (r_hset list_redis k fvs s) = st_list s"
    unfolding st_empty by (auto simp: st_simps dict_update_map fun_eq_iff)
next
  fix s :: store and k f :: string and i d :: int
  assume "st_kv s k = None" "st_zset s k = Map.empty" "st_list s k = []"
    "st_hash s k f = None \<and> i = 0 \<or> st_hash s k f = Some (VInt i)"
  then show "fst (r_hincr list_redis k f d s) = i + d
      \<and> st_hash (snd (r_hincr list_redis k f d s)) = (st_hash s)(k := (st_hash s k)(f \<mapsto> VInt (i + d)))
      \<and> st_kv (snd (r_hincr list_redis k f d s)) = st_kv s \<and> st_zset (snd (r_hincr list_redis k f d s)) = st_zset s
      \<and> st_list (snd (r_hincr list_redis k f d s)) = st_list s"
    unfolding st_empty by (auto simp: st_simps st_int_def fun_eq_iff)
next
  fix s :: store and k m :: string and x :: rat
  assume "st_kv s k = None" "st_hash s k = Map.empty" "st_list s k = []"
  then show "st_zset (r_zadd list_redis k m x s) = (st_zset s)(k := (st_zset s k)(m \<mapsto> x))
      \<and> st_kv (r_zadd list_redis k m x s) = st_kv s
      \<and> st_hash (r_zadd list_redis k m x s) = st_hash s \<and> st_list (r_zadd list_redis k m x s) = st_list s"
    unfolding st_empty by (auto simp: st_simps fun_eq_iff)
next
  fix s :: store and k m :: string
  assume "st_kv s k = None" "st_hash s k = Map.empty" "st_list s k = []"
  then show "st_zset (r_zrem list_redis k m s) = (st_zset s)(k := (st_zset s k)(m := None))
      \<and> st_kv (r_zrem list_redis k m s) = st_kv s
      \<and> st_hash (r_zrem list_redis k m s) = st_hash s \<and> st_list (r_zrem list_redis k m s) = st_list s"
    unfolding st_empty by (auto simp: st_simps fun_eq_iff delete_conv')
next
  fix s :: store and k :: string
  have e: "AList.clearjunk ms = [] \<longleftrightarrow> ms = []" for ms :: "(string \<times> rat) list"
    by (cases ms) auto
  have c: "(m, x) \<in> set (AList.clearjunk ms) \<longleftrightarrow> map_of ms m = Some x" for ms :: "(string \<times> rat) list" and m x
    by (metis distinct_clearjunk map_of_clearjunk map_of_eq_Some_iff)
  show "case r_zfirst list_redis k s of None \<Rightarrow> st_zset s k = Map.empty
        | Some (m, x) \<Rightarrow> st_zset s k m = Some x \<and> (\<forall>m' x'. st_zset s k m' = Some x' \<longrightarrow> x \<le> x')"
  proof (cases "r_zfirst list_redis k s")
    case None
    then show ?thesis by (simp add: list_redis_def st_min_None e st_empty)
  next
    case (Some p)
    obtain m x where p: "p = (m, x)" by force
    with Some have "st_min (AList.clearjunk (st_members s k)) = Some (m, x)" by (simp add: list_redis_def)
    from st_min_Some [OF this] have "(m, x) \<in> set (AList.clearjunk (st_members s k))"
      "\<forall>(m', x') \<in> set (AList.clearjunk (st_members s k)). x \<le> x'" by blast+
    with Some p show ?thesis unfolding st_zset_def by (auto simp: c)
  qed
next
  fix s :: store and k :: string and v :: rv
  assume "st_kv s k = None" "st_hash s k = Map.empty" "st_zset s k = Map.empty"
  then show "st_list (r_rpush list_redis k v s) = (st_list s)(k := st_list s k @ [v])
      \<and> st_kv (r_rpush list_redis k v s) = st_kv s
      \<and> st_hash (r_rpush list_redis k v s) = st_hash s \<and> st_zset (r_rpush list_redis k v s) = st_zset s"
    unfolding st_empty by (auto simp: st_simps fun_eq_iff)
next
  fix s :: store and k :: string and n :: int
  assume "st_kv s k = None" "st_hash s k = Map.empty" "st_zset s k = Map.empty"
  then show "st_list (r_ltrim_last list_redis k n s) = (st_list s)(k := drop (length (st_list s k) - nat n) (st_list s k))
      \<and> st_kv (r_ltrim_last list_redis k n s) = st_kv s
      \<and> st_hash (r_ltrim_last list_redis k n s) = st_hash s \<and> st_zset (r_ltrim_last list_redis k n s) = st_zset s"
    unfolding st_empty by (auto simp: st_simps fun_eq_iff)
next
  show "r_llen list_redis k s = length (st_list s k)" for k s by (simp add: list_redis_def)
next
  show "r_lhead list_redis k s = (case st_list s k of [] \<Rightarrow> None | v # vs \<Rightarrow> Some v)" for k s
    by (simp add: list_redis_def)
next
  fix s :: store and k :: string
  assume "st_kv s k = None" "st_hash s k = Map.empty" "st_zset s k = Map.empty"
  then show "st_list (r_lpop list_redis k s) = (st_list s)(k := tl (st_list s k))
      \<and> st_kv (r_lpop list_redis k s) = st_kv s
      \<and> st_hash (r_lpop list_redis k s) = st_hash s \<and> st_zset (r_lpop list_redis k s) = st_zset s"
    unfolding st_empty by (auto simp: st_simps fun_eq_iff)
qed

end
