(* ===== verification/SharedBreaker.thy ===== *)
theory SharedBreaker
  imports Breaker Redis
begin

text \<open>
  \<open>app/redaction/circuit/shared.py\<close>: the circuit breaker that the replicas share through one
  Redis hash, its three Lua scripts command by command and the client methods that run
  them. A Lua script runs atomically, so each is a function on the server state. For calls
  that do not overlap the shared breaker refines the local one: a simulation relates the
  hash to the record of \<open>Breaker\<close>.
\<close>

record shared_breaker =
  sb_key :: string
  sb_threshold :: int
  sb_cooldown :: rat
  sb_ttl :: int

definition new_shared_breaker :: "string \<Rightarrow> string \<Rightarrow> int \<Rightarrow> rat \<Rightarrow> int \<Rightarrow> shared_breaker" where
  "new_shared_breaker namespace name thr cd ttl =
     \<lparr>sb_key = namespace @ '':breaker:'' @ name, sb_threshold = thr, sb_cooldown = cd, sb_ttl = ttl\<rparr>"

section \<open>The scripts\<close>

definition ALLOW_SCRIPT :: "'s redis \<Rightarrow> string \<Rightarrow> rat \<Rightarrow> rat \<Rightarrow> 's \<Rightarrow> (bool \<times> bool) \<times> 's" where
  "ALLOW_SCRIPT R k now cooldown s =
     (let state = (case r_hget R k ''state'' s of None \<Rightarrow> VStr ''closed'' | Some v \<Rightarrow> v)
      in if state = VStr ''closed'' then ((True, False), snd (r_hincr R k ''total_calls'' 1 s))
         else
           (let opened_at = num_or 0 (r_hget R k ''opened_at'' s)
            in if state = VStr ''open'' \<and> now - opened_at < cooldown then ((False, False), s)
               else if r_hget R k ''probe'' s = Some (VInt 1) then ((False, False), s)
               else
                 (let s1 = r_hset R k [(''probe'', VInt 1)] s
                  in ((True, True), snd (r_hincr R k ''total_calls'' 1 s1)))))"

definition SUCCESS_SCRIPT :: "'s redis \<Rightarrow> string \<Rightarrow> int \<Rightarrow> 's \<Rightarrow> int \<times> 's" where
  "SUCCESS_SCRIPT R k ttl s =
     (1, r_expire R k ttl
           (r_hset R k [(''state'', VStr ''closed''), (''consecutive_failures'', VInt 0),
                        (''opened_at'', VInt 0), (''probe'', VInt 0)] s))"

definition FAILURE_SCRIPT :: "'s redis \<Rightarrow> string \<Rightarrow> int \<Rightarrow> bool \<Rightarrow> rat \<Rightarrow> int \<Rightarrow> 's \<Rightarrow> int \<times> 's" where
  "FAILURE_SCRIPT R k thr was_probe now ttl s =
     (let (consecutive, s1) = r_hincr R k ''consecutive_failures'' 1 s;
          s2 = snd (r_hincr R k ''total_failures'' 1 s1);
          s3 = (if was_probe \<or> consecutive \<ge> thr
                then r_hset R k [(''state'', VStr ''open''), (''opened_at'', VNum now), (''probe'', VInt 0)] s2
                else s2)
      in (consecutive, r_expire R k ttl s3))"

definition shared_allow ::
  "'s redis \<Rightarrow> shared_breaker \<Rightarrow> fault \<Rightarrow> rat \<Rightarrow> 's \<Rightarrow> (bool \<times> bool) res \<times> 's" where
  "shared_allow R sb flt now = net flt (ALLOW_SCRIPT R (sb_key sb) now (sb_cooldown sb))"

definition shared_success :: "'s redis \<Rightarrow> shared_breaker \<Rightarrow> fault \<Rightarrow> bool \<Rightarrow> 's \<Rightarrow> unit res \<times> 's" where
  "shared_success R sb flt was_probe =
     net flt (\<lambda>s. ((), snd (SUCCESS_SCRIPT R (sb_key sb) (sb_ttl sb) s)))"

definition shared_failure ::
  "'s redis \<Rightarrow> shared_breaker \<Rightarrow> fault \<Rightarrow> rat \<Rightarrow> bool \<Rightarrow> 's \<Rightarrow> unit res \<times> 's" where
  "shared_failure R sb flt now was_probe =
     net flt (\<lambda>s. ((), snd (FAILURE_SCRIPT R (sb_key sb) (sb_threshold sb) was_probe now (sb_ttl sb) s)))"

section \<open>Refinement of the local breaker\<close>

text \<open>The simulation relation between the local record and the fields of the hash.\<close>

definition int_field :: "(string \<Rightarrow> rv option) \<Rightarrow> string \<Rightarrow> int \<Rightarrow> bool" where
  "int_field h f i \<longleftrightarrow> h f = Some (VInt i) \<or> h f = None \<and> i = 0"

definition breaker_rel :: "breaker \<Rightarrow> (string \<Rightarrow> rv option) \<Rightarrow> bool" where
  "breaker_rel b h \<longleftrightarrow>
     (if b_state b = Closed
      then h ''state'' \<in> {None, Some (VStr ''closed'')} \<and> \<not> probe_in_flight b \<and> opened_at b = None
        \<and> h ''probe'' \<in> {None, Some (VInt 0)}
      else b_state b = Open \<and> h ''state'' = Some (VStr ''open'')
        \<and> (\<exists>t. opened_at b = Some t \<and> h ''opened_at'' = Some (VNum t))
        \<and> h ''probe'' \<in> (if probe_in_flight b then {Some (VInt 1)} else {None, Some (VInt 0)}))
     \<and> int_field h ''consecutive_failures'' (consecutive_failures b)
     \<and> int_field h ''total_calls'' (total_calls b)
     \<and> int_field h ''total_failures'' (total_failures b)"

context redis_laws
begin

definition shared_rel :: "shared_breaker \<Rightarrow> breaker \<Rightarrow> 's \<Rightarrow> bool" where
  "shared_rel sb b s \<longleftrightarrow> hash_key s (sb_key sb) \<and> breaker_rel b (hash s (sb_key sb))
     \<and> b_threshold b = sb_threshold sb \<and> b_cooldown b = sb_cooldown sb \<and> 0 < sb_ttl sb"

lemma hash_key_hincr:
  assumes "hash_key s k" "int_field (hash s k) f i"
  shows "fst (r_hincr R k f d s) = i + d" "hash (snd (r_hincr R k f d s)) k = (hash s k)(f \<mapsto> VInt (i + d))"
    "hash_key (snd (r_hincr R k f d s)) k"
proof -
  have "hash s k f = None \<or> (\<exists>j. hash s k f = Some (VInt j))" "hcounter s k f = i"
    using assms(2) by (auto simp: int_field_def hcounter_def)
  with hincr_hash [OF assms(1) this(1), of d] assms(1)
  show "fst (r_hincr R k f d s) = i + d" "hash (snd (r_hincr R k f d s)) k = (hash s k)(f \<mapsto> VInt (i + d))"
    "hash_key (snd (r_hincr R k f d s)) k" by (simp_all add: hash_key_def)
qed

lemma hash_key_hset:
  assumes "hash_key s k" "distinct (map fst fvs)"
  shows "hash (r_hset R k fvs s) k = hash s k ++ map_of fvs" "hash_key (r_hset R k fvs s) k"
  using hset_hash [OF assms] assms(1) by (simp_all add: hash_key_def)

lemma hash_key_expire:
  assumes "0 < ttl"
  shows "hash (r_expire R k' ttl s) k = hash s k" "hash_key (r_expire R k' ttl s) k = hash_key s k"
  using expire_any [OF assms, of k' s] by (simp_all add: hash_key_def)

lemma int_field_upd:
  "int_field (h(f \<mapsto> VInt i)) g j \<longleftrightarrow> (if g = f then j = i else int_field h g j)"
  by (auto simp: int_field_def)

lemma shared_allow_refines:
  assumes "shared_rel sb b s" "call_begin now b = (r, b')"
  shows "(case r of Inr p \<Rightarrow> fst (ALLOW_SCRIPT R (sb_key sb) now (sb_cooldown sb) s) = (True, p)
            | Inl e \<Rightarrow> fst (fst (ALLOW_SCRIPT R (sb_key sb) now (sb_cooldown sb) s)) = False)
    \<and> shared_rel sb b' (snd (ALLOW_SCRIPT R (sb_key sb) now (sb_cooldown sb) s))"
proof -
  let ?k = "sb_key sb" and ?h = "hash s (sb_key sb)"
  from assms(1) have hk: "hash_key s ?k" and rel: "breaker_rel b ?h" and p: "b_threshold b = sb_threshold sb"
    "b_cooldown b = sb_cooldown sb" "0 < sb_ttl sb" by (simp_all add: shared_rel_def)
  note hg = hget_hash [OF hk]
  have tc: "int_field ?h ''total_calls'' (total_calls b)" using rel by (simp add: breaker_rel_def split: if_splits)
  show ?thesis
  proof (cases "b_state b = Closed")
    case True
    with rel have st: "?h ''state'' \<in> {None, Some (VStr ''closed'')}" by (simp add: breaker_rel_def)
    from True assms(2) have r: "r = Inr False" "b' = b\<lparr>total_calls := total_calls b + 1\<rparr>"
      by (simp_all add: breaker_defs)
    have "ALLOW_SCRIPT R ?k now (sb_cooldown sb) s = ((True, False), snd (r_hincr R ?k ''total_calls'' 1 s))"
      using st by (auto simp: ALLOW_SCRIPT_def hg)
    moreover note h = hash_key_hincr [OF hk tc, of 1]
    have "breaker_rel b' (hash (snd (r_hincr R ?k ''total_calls'' 1 s)) ?k)"
      using rel True by (simp add: breaker_rel_def h r int_field_upd)
    ultimately show ?thesis using h p r by (simp add: shared_rel_def)
  next
    case False
    with rel obtain t0 where op: "b_state b = Open" "?h ''state'' = Some (VStr ''open'')"
      "opened_at b = Some t0" "?h ''opened_at'' = Some (VNum t0)" by (auto simp: breaker_rel_def)
    have pr: "?h ''probe'' = Some (VInt 1) \<longleftrightarrow> probe_in_flight b"
      using rel op(1) by (auto simp: breaker_rel_def split: if_splits)
    show ?thesis
    proof (cases "now - t0 < sb_cooldown sb \<or> probe_in_flight b")
      case True
      then have "ALLOW_SCRIPT R ?k now (sb_cooldown sb) s = ((False, False), s)"
        using op pr by (auto simp: ALLOW_SCRIPT_def hg num_or_def)
      moreover have "r = Inl OpenError" "b' = b"
        using assms(2) op True p(2) by (auto simp: breaker_defs split: if_splits)
      ultimately show ?thesis using assms(1) by simp
    next
      case ok: False
      let ?s1 = "r_hset R ?k [(''probe'', VInt 1)] s"
      have a: "ALLOW_SCRIPT R ?k now (sb_cooldown sb) s = ((True, True), snd (r_hincr R ?k ''total_calls'' 1 ?s1))"
        using op pr ok by (auto simp: ALLOW_SCRIPT_def hg num_or_def)
      have r: "r = Inr True" "b' = b\<lparr>probe_in_flight := True, total_calls := total_calls b + 1\<rparr>"
        using assms(2) op ok p(2) by (auto simp: breaker_defs split: if_splits)
      have hs: "hash ?s1 ?k = ?h(''probe'' \<mapsto> VInt 1)" "hash_key ?s1 ?k"
        using hash_key_hset [OF hk, of "[(''probe'', VInt 1)]"] by simp_all
      have tc1: "int_field (hash ?s1 ?k) ''total_calls'' (total_calls b)"
        using tc by (simp add: hs int_field_upd)
      note h = hash_key_hincr [OF hs(2) tc1, of 1]
      have "breaker_rel b' (hash (snd (r_hincr R ?k ''total_calls'' 1 ?s1)) ?k)"
        using rel op by (simp add: breaker_rel_def h hs r int_field_upd)
      with a h p r show ?thesis by (simp add: shared_rel_def)
    qed
  qed
qed

lemma shared_success_refines:
  assumes "shared_rel sb b s" "b_state b = Closed \<and> \<not> was_probe \<or> b_state b = Open \<and> was_probe \<and> probe_in_flight b"
  shows "shared_rel sb (on_success was_probe b) (snd (SUCCESS_SCRIPT R (sb_key sb) (sb_ttl sb) s))"
proof -
  let ?k = "sb_key sb"
  let ?fvs = "[(''state'', VStr ''closed''), (''consecutive_failures'', VInt 0),
               (''opened_at'', VInt 0), (''probe'', VInt 0)]"
  from assms(1) have hk: "hash_key s ?k" and rel: "breaker_rel b (hash s ?k)" and p: "b_threshold b = sb_threshold sb"
    "b_cooldown b = sb_cooldown sb" "0 < sb_ttl sb" by (simp_all add: shared_rel_def)
  have hs: "hash (r_hset R ?k ?fvs s) ?k = hash s ?k ++ map_of ?fvs" "hash_key (r_hset R ?k ?fvs s) ?k"
    by (rule hash_key_hset [OF hk], simp)+
  have "breaker_rel (on_success was_probe b) (hash s ?k ++ map_of ?fvs)"
    using rel assms(2) by (auto simp: breaker_rel_def on_success_def Let_def int_field_def)
  then show ?thesis
    using hs p by (auto simp: shared_rel_def SUCCESS_SCRIPT_def hash_key_expire on_success_def Let_def)
qed

lemma shared_failure_refines:
  assumes "shared_rel sb b s" "b_state b = Closed \<and> \<not> was_probe \<or> b_state b = Open \<and> was_probe \<and> probe_in_flight b"
  shows "shared_rel sb (on_failure now was_probe b)
     (snd (FAILURE_SCRIPT R (sb_key sb) (sb_threshold sb) was_probe now (sb_ttl sb) s))"
proof -
  let ?k = "sb_key sb" and ?h = "hash s (sb_key sb)"
  from assms(1) have hk: "hash_key s ?k" and rel: "breaker_rel b ?h" and p: "b_threshold b = sb_threshold sb"
    "b_cooldown b = sb_cooldown sb" "0 < sb_ttl sb" by (simp_all add: shared_rel_def)
  have cf: "int_field ?h ''consecutive_failures'' (consecutive_failures b)"
    using rel by (simp add: breaker_rel_def split: if_splits)
  let ?s1 = "snd (r_hincr R ?k ''consecutive_failures'' 1 s)"
  note h1 = hash_key_hincr [OF hk cf, of 1]
  have tf: "int_field (hash ?s1 ?k) ''total_failures'' (total_failures b)"
    using rel by (simp add: breaker_rel_def h1 int_field_upd split: if_splits)
  let ?s2 = "snd (r_hincr R ?k ''total_failures'' 1 ?s1)"
  note h2 = hash_key_hincr [OF h1(3) tf, of 1]
  let ?fvs = "[(''state'', VStr ''open''), (''opened_at'', VNum now), (''probe'', VInt 0)]"
  have hs: "hash (r_hset R ?k ?fvs ?s2) ?k = hash ?s2 ?k ++ map_of ?fvs" "hash_key (r_hset R ?k ?fvs ?s2) ?k"
    by (rule hash_key_hset [OF h2(3)], simp)+
  let ?trip = "was_probe \<or> consecutive_failures b + 1 \<ge> sb_threshold sb"
  let ?s3 = "if ?trip then r_hset R ?k ?fvs ?s2 else ?s2"
  have snd: "snd (FAILURE_SCRIPT R ?k (sb_threshold sb) was_probe now (sb_ttl sb) s) = r_expire R ?k (sb_ttl sb) ?s3"
    using h1(1) by (simp add: FAILURE_SCRIPT_def case_prod_beta Let_def)
  have "breaker_rel (on_failure now was_probe b) (hash ?s3 ?k)"
  proof (cases ?trip)
    case True
    then show ?thesis
      using rel p(1) assms(2)
      by (auto simp: hs h1 h2 breaker_rel_def on_failure_def Let_def int_field_def split: if_splits)
  next
    case False
    then show ?thesis
      using rel p(1) assms(2)
      by (auto simp: h1 h2 breaker_rel_def on_failure_def Let_def int_field_def split: if_splits)
  qed
  moreover have "hash_key ?s3 ?k" using hs h2 by simp
  moreover have "b_threshold (on_failure now was_probe b) = sb_threshold sb"
    "b_cooldown (on_failure now was_probe b) = sb_cooldown sb"
    using p by (simp_all add: on_failure_def Let_def)
  ultimately show ?thesis unfolding snd shared_rel_def using p(3) by (simp add: hash_key_expire)
qed

end

text \<open>
  One guarded call through the shared breaker, as the pipeline makes it: admission, the
  function, and the update, with no network fault.
\<close>

definition shared_call ::
  "'s redis \<Rightarrow> shared_breaker \<Rightarrow> rat \<Rightarrow> rat \<Rightarrow> 'a res \<Rightarrow> 's \<Rightarrow> 'a res \<times> 's" where
  "shared_call R sb t0 t1 result s =
     (case shared_allow R sb None t0 s of
        (Inl e, s1) \<Rightarrow> (Inl e, s1)
      | (Inr (allowed, p), s1) \<Rightarrow>
          if \<not> allowed then (Inl OpenError, s1)
          else
            (case result of
               Inl e \<Rightarrow> (Inl e, if is_Exception e then snd (shared_failure R sb None t1 p s1) else s1)
             | Inr v \<Rightarrow> (Inr v, snd (shared_success R sb None p s1))))"

definition shared_breaker_rel ::
  "('s \<Rightarrow> string \<Rightarrow> rv option) \<Rightarrow> ('s \<Rightarrow> string \<Rightarrow> string \<Rightarrow> rv option) \<Rightarrow> ('s \<Rightarrow> string \<Rightarrow> string \<Rightarrow> rat option) \<Rightarrow>
   ('s \<Rightarrow> string \<Rightarrow> rv list) \<Rightarrow> shared_breaker \<Rightarrow> breaker \<Rightarrow> 's \<Rightarrow> bool" where
  "shared_breaker_rel kv hash zset rlist sb b s \<longleftrightarrow>
     kv s (sb_key sb) = None \<and> zset s (sb_key sb) = Map.empty \<and> rlist s (sb_key sb) = []
     \<and> breaker_rel b (hash s (sb_key sb))
     \<and> b_threshold b = sb_threshold sb \<and> b_cooldown b = sb_cooldown sb \<and> 0 < sb_ttl sb"

lemma begin_mode:
  assumes "call_begin now b = (Inr p, b')" "b_state b \<noteq> Half_open"
  shows "b_state b' = Closed \<and> \<not> p \<or> b_state b' = Open \<and> p \<and> probe_in_flight b'"
  using assms by (cases "b_state b") (auto simp: breaker_defs split: option.splits if_splits)

text \<open>
  C14. The shared breaker refines the local one on calls that do not overlap: from a hash
  that represents a local breaker's state, a call through Redis returns exactly what the
  local breaker returns, and the hash represents the local breaker's new state, for every
  server that keeps the documented behaviour.
\<close>

theorem shared_call_refines_breaker_call:
  assumes "redis_laws R kv hash zset rlist" "shared_breaker_rel kv hash zset rlist sb b s"
    and "breaker_call is_Exception t0 t1 r b = (r', b')"
  shows "fst (shared_call R sb t0 t1 r s) = r'
    \<and> shared_breaker_rel kv hash zset rlist sb b' (snd (shared_call R sb t0 t1 r s))"
proof -
  have releq: "shared_breaker_rel kv hash zset rlist sb c u = redis_laws.shared_rel kv hash zset rlist sb c u" for c u
    unfolding redis_laws.shared_rel_def [OF assms(1)] redis_laws.hash_key_def [OF assms(1)]
    by (auto simp: shared_breaker_rel_def)
  note allow = redis_laws.shared_allow_refines [OF assms(1)]
  note succ = redis_laws.shared_success_refines [OF assms(1)]
  note fail = redis_laws.shared_failure_refines [OF assms(1)]
  have rel: "redis_laws.shared_rel kv hash zset rlist sb b s" using assms(2) releq by blast
  then have nh: "b_state b \<noteq> Half_open"
    unfolding redis_laws.shared_rel_def [OF assms(1)] by (auto simp: breaker_rel_def split: if_splits)
  obtain a b1 where cb: "call_begin t0 b = (a, b1)" by force
  let ?A = "ALLOW_SCRIPT R (sb_key sb) t0 (sb_cooldown sb) s"
  note al = allow [OF rel cb]
  show ?thesis
  proof (cases a)
    case (Inl e)
    then have "e = OpenError" using cb by (auto simp: breaker_defs split: if_splits option.splits)
    with Inl al cb assms(3) releq show ?thesis
      by (cases "fst ?A") (auto simp: shared_call_def shared_allow_def breaker_call_def)
  next
    case (Inr p)
    with al have A: "fst ?A = (True, p)" "redis_laws.shared_rel kv hash zset rlist sb b1 (snd ?A)" by simp_all
    from begin_mode [OF cb [unfolded Inr] nh]
    have m: "b_state b1 = Closed \<and> \<not> p \<or> b_state b1 = Open \<and> p \<and> probe_in_flight b1" .
    show ?thesis
    proof (cases r)
      case (Inl e)
      with Inr cb A assms(3) releq fail [OF A(2) m, of t1] show ?thesis
        by (auto simp: shared_call_def shared_allow_def shared_failure_def breaker_call_def call_end_def)
    next
      case r: (Inr v)
      with Inr cb A assms(3) releq succ [OF A(2) m] show ?thesis
        by (auto simp: shared_call_def shared_allow_def shared_success_def breaker_call_def call_end_def)
    qed
  qed
qed

theorem shared_call_refines_breaker_call_witness:
  "fst (shared_call list_redis (new_shared_breaker ''redax'' ''model'' 3 5 60) 0 1 (Inr (7::nat)) []) = Inr 7"
proof -
  have "breaker_call is_Exception 0 1 (Inr (7::nat)) (new_breaker 3 5) = (Inr 7, (new_breaker 3 5)\<lparr>total_calls := 1\<rparr>)"
    by (simp add: breaker_call_def breaker_defs new_breaker_def)
  moreover have "shared_breaker_rel st_kv st_hash st_zset st_list (new_shared_breaker ''redax'' ''model'' 3 5 60)
      (new_breaker 3 5) []"
    by (simp add: shared_breaker_rel_def new_shared_breaker_def new_breaker_def breaker_rel_def int_field_def
        st_kv_def st_hash_def st_zset_def st_list_def st_fields_def st_members_def)
  ultimately show ?thesis
    using shared_call_refines_breaker_call [OF list_store.redis_laws_axioms] by blast
qed

text \<open>
  Overlapping calls can do what the local breaker forbids: a success of an older call resets
  the probe mark of the hash, so that two probes can be out at once.
\<close>

definition overlapping_probes :: "(bool \<times> bool) list" where
  "overlapping_probes =
     (let sb = new_shared_breaker ''redax'' ''model'' 1 5 60;
          R = list_redis; k = sb_key sb;
          (a1, s1) = ALLOW_SCRIPT R k 0 5 [];
          (a2, s2) = ALLOW_SCRIPT R k 0 5 s1;
          s3 = snd (FAILURE_SCRIPT R k 1 (snd a2) 1 60 s2);
          (a3, s4) = ALLOW_SCRIPT R k 10 5 s3;
          s5 = snd (FAILURE_SCRIPT R k 1 (snd a1) 11 60 s4);
          (a4, s6) = ALLOW_SCRIPT R k 20 5 s5
      in [a1, a2, a3, a4])"

lemma shared_breaker_two_probes: "overlapping_probes = [(True, False), (True, False), (True, True), (True, True)]"
  by code_simp

end
