(* ===== verification/Pipeline.thy ===== *)
theory Pipeline
  imports SharedBreaker Detectors
begin

text \<open>
  \<open>app/redaction/pipeline.py\<close> and \<open>app/redaction/stages\<close>: the regex gate, the model stage
  under the local or the shared circuit breaker, the consensus of the two span lists, the
  fallback stage and the substitution by numbered placeholders. Latencies and log notes are
  left out; times, network faults and the model's answer are inputs. The lemmas show that
  the regex spans survive fusion, that the pipeline fails closed and that its output tells
  nothing of the entities it found.
\<close>

section \<open>Stages\<close>

definition gate_run :: "detect_fun \<Rightarrow> string \<Rightarrow> span list res" where
  "gate_run detect t = detect t (Some [])"

text \<open>A detector with its optional synchronous method; \<open>run_async\<close> returns what the coroutine does.\<close>

record model_stage =
  ms_detect_sync :: "detect_fun option"
  ms_detect :: detect_fun

definition detector_sync :: "model_stage \<Rightarrow> detect_fun" where
  "detector_sync m t types =
     (case ms_detect_sync m of Some f \<Rightarrow> f t types | None \<Rightarrow> ms_detect m t types)"

definition model_stage_detect :: "model_stage \<Rightarrow> detect_fun" where
  "model_stage_detect m t types = ms_detect m t types"

definition overlaps :: "span \<Rightarrow> span \<Rightarrow> bool" where
  "overlaps a b \<longleftrightarrow> s_start a < s_end b \<and> s_start b < s_end a"

definition fuse_kept :: "span list \<Rightarrow> span list \<Rightarrow> rat \<Rightarrow> span list" where
  "fuse_kept regex_spans model_spans min_conf =
     regex_spans @ filter (\<lambda>s. \<not> (s_conf s < min_conf) \<and> \<not> list_ex (overlaps s) regex_spans) model_spans"

definition fuse :: "span list \<Rightarrow> span list \<Rightarrow> rat \<Rightarrow> span list" where
  "fuse regex_spans model_spans min_conf = dedupe_overlaps (fuse_kept regex_spans model_spans min_conf)"

definition from_regex_only :: "span list \<Rightarrow> span list" where
  "from_regex_only spans = spans"

section \<open>The pipeline\<close>

record outcome =
  oc_name :: string
  oc_spans :: "span list"
  oc_circuit_open :: bool

record pipeline_result =
  pr_text :: string
  pr_spans :: "span list"
  pr_stages :: "outcome list"
  pr_used_fallback :: bool
  pr_digest :: string

record pipeline =
  pp_gate :: detect_fun
  pp_model :: model_stage
  pp_salt :: string
  pp_shared :: "shared_breaker option"

text \<open>What the surroundings decide in one run: the monotonic and the wall clock, the network.\<close>

record pipe_env =
  pe_mono0 :: rat
  pe_mono1 :: rat
  pe_wall0 :: rat
  pe_wall1 :: rat
  pe_allow_fault :: fault
  pe_update_fault :: fault

definition coordination_error :: "exn \<Rightarrow> bool" where
  "coordination_error e \<longleftrightarrow> is_os_error e \<or> is_runtime_error e"

definition model_transient :: "exn \<Rightarrow> bool" where
  "model_transient e \<longleftrightarrow> is_os_error e \<or> is_runtime_error e \<or> is_value_error e \<or> e = MemoryError"

text \<open>The guarded call of the model stage; the local breaker and the server state are threaded.\<close>

definition guarded_model_call ::
  "'s redis \<Rightarrow> pipe_env \<Rightarrow> shared_breaker option \<Rightarrow> 'a res \<Rightarrow> breaker \<Rightarrow> 's \<Rightarrow> 'a res \<times> breaker \<times> 's" where
  "guarded_model_call R env shared r b s =
     (let local_call = breaker_call is_Exception (pe_mono0 env) (pe_mono1 env) r b
      in case shared of
           None \<Rightarrow> (fst local_call, snd local_call, s)
         | Some sb \<Rightarrow>
             (case shared_allow R sb (pe_allow_fault env) (pe_wall0 env) s of
                (Inl e, s1) \<Rightarrow>
                  if coordination_error e then (fst local_call, snd local_call, s1) else (Inl e, b, s1)
              | (Inr (allowed, p), s1) \<Rightarrow>
                  if \<not> allowed then (Inl OpenError, b, s1)
                  else
                    (case r of
                       Inl e \<Rightarrow>
                         if is_Exception e then
                           (case shared_failure R sb (pe_update_fault env) (pe_wall1 env) p s1 of
                              (Inl e2, s2) \<Rightarrow> (Inl (if coordination_error e2 then e else e2), b, s2)
                            | (Inr u, s2) \<Rightarrow> (Inl e, b, s2))
                         else (Inl e, b, s1)
                     | Inr v \<Rightarrow>
                         (case shared_success R sb (pe_update_fault env) p s1 of
                            (Inl e2, s2) \<Rightarrow> ((if coordination_error e2 then Inr v else Inl e2), b, s2)
                          | (Inr u, s2) \<Rightarrow> (Inr v, b, s2)))))"

definition model_stage_stage ::
  "'s redis \<Rightarrow> pipe_env \<Rightarrow> pipeline \<Rightarrow> string \<Rightarrow> breaker \<Rightarrow> 's \<Rightarrow> outcome res \<times> breaker \<times> 's" where
  "model_stage_stage R env pl t b s =
     (let (r, b', s') = guarded_model_call R env (pp_shared pl) (detector_sync (pp_model pl) t (Some [])) b s
      in (case r of
            Inr spans \<Rightarrow> Inr \<lparr>oc_name = ''model_stage'', oc_spans = spans, oc_circuit_open = False\<rparr>
          | Inl e \<Rightarrow>
              if e = OpenError \<or> model_transient e
              then Inr \<lparr>oc_name = ''model_stage'', oc_spans = [], oc_circuit_open = True\<rparr>
              else Inl e, b', s'))"

definition regex_gate_stage :: "pipeline \<Rightarrow> string \<Rightarrow> outcome res" where
  "regex_gate_stage pl t =
     map_res (\<lambda>spans. \<lparr>oc_name = ''regex_gate'', oc_spans = spans, oc_circuit_open = False\<rparr>)
       (gate_run (pp_gate pl) t)"

definition fallback_stage :: "span list \<Rightarrow> bool \<Rightarrow> outcome" where
  "fallback_stage fused circuit_open =
     \<lparr>oc_name = ''fallback'', oc_spans = (if \<not> circuit_open then from_regex_only fused else []),
      oc_circuit_open = circuit_open\<rparr>"

text \<open>Placeholders numbered per entity type.\<close>

fun type_placeholders :: "(string \<times> nat) list \<Rightarrow> span list \<Rightarrow> string list" where
  "type_placeholders counters [] = []"
| "type_placeholders counters (s # ss) =
     (let ty = py_upper (s_type s); k = Suc (dict_get counters ty 0)
      in placeholder ty k # type_placeholders (AList.update ty k counters) ss)"

definition pipeline_finish ::
  "(string \<Rightarrow> string \<Rightarrow> string) \<Rightarrow> pipeline \<Rightarrow> string \<Rightarrow> outcome \<Rightarrow> outcome \<Rightarrow> pipeline_result res" where
  "pipeline_finish hmac_hex pl t regex_outcome model_outcome =
     (let fused = fuse (oc_spans regex_outcome) (oc_spans model_outcome) (1/2);
          op = oc_circuit_open model_outcome;
          consensus = \<lparr>oc_name = ''consensus'', oc_spans = fused, oc_circuit_open = op\<rparr>
      in if op \<and> fused = [] then Inl PipelineUnavailableError
         else map_res (\<lambda>redacted.
                \<lparr>pr_text = redacted, pr_spans = fused,
                 pr_stages = [regex_outcome, model_outcome, consensus, fallback_stage fused op],
                 pr_used_fallback = op, pr_digest = hmac_hex (pp_salt pl) t\<rparr>)
              (apply_spans t fused (type_placeholders [] fused)))"

definition pipeline_call ::
  "(string \<Rightarrow> string \<Rightarrow> string) \<Rightarrow> 's redis \<Rightarrow> pipe_env \<Rightarrow> pipeline \<Rightarrow> string \<Rightarrow> breaker \<Rightarrow> 's \<Rightarrow>
   pipeline_result res \<times> breaker \<times> 's" where
  "pipeline_call hmac_hex R env pl t b s =
     (case regex_gate_stage pl t of
        Inl e \<Rightarrow> (Inl e, b, s)
      | Inr regex_outcome \<Rightarrow>
          (case model_stage_stage R env pl t b s of
             (Inl e, b', s') \<Rightarrow> (Inl e, b', s')
           | (Inr model_outcome, b', s') \<Rightarrow>
               (pipeline_finish hmac_hex pl t regex_outcome model_outcome, b', s')))"

definition pipeline_stats :: "string \<Rightarrow> string \<Rightarrow> breaker \<Rightarrow> string \<times> string \<times> (circuit \<times> int \<times> rat option \<times> bool \<times> int \<times> int)" where
  "pipeline_stats regex_name model_name b = (regex_name, model_name, report b)"

section \<open>Fusion keeps the regex spans\<close>

lemma overlaps_overlap: "overlaps a b \<longleftrightarrow> overlap a b"
  by (auto simp: overlaps_def overlap_def)

lemma filter_foldl_dedupe_step:
  assumes "\<forall>x \<in> A. \<forall>y \<in> A. P x \<longrightarrow> \<not> P y \<longrightarrow> \<not> overlap x y" "set acc \<subseteq> A" "set xs \<subseteq> A"
  shows "filter P (foldl dedupe_step acc xs) = foldl dedupe_step (filter P acc) (filter P xs)"
  using assms(2,3)
proof (induction xs arbitrary: acc)
  case (Cons x xs)
  have sub: "set (dedupe_step acc x) \<subseteq> A" using Cons.prems by (auto simp: dedupe_step.simps)
  have IH: "filter P (foldl dedupe_step (dedupe_step acc x) xs)
      = foldl dedupe_step (filter P (dedupe_step acc x)) (filter P xs)"
    using Cons.prems(2) by (intro Cons.IH [OF sub]) simp
  have "filter P (dedupe_step acc x) = (if P x then dedupe_step (filter P acc) x else filter P acc)"
  proof (cases "P x")
    case True
    then have n: "\<not> overlap x y" if "y \<in> set acc" "\<not> P y" for y
      using that assms(1) Cons.prems by auto
    then have "list_ex (\<lambda>e. overlap x e \<and> s_conf x \<le> s_conf e) acc
        \<longleftrightarrow> list_ex (\<lambda>e. overlap x e \<and> s_conf x \<le> s_conf e) (filter P acc)"
      by (auto simp: list_ex_iff)
    moreover have "filter P (filter (\<lambda>k. \<not> overlap x k) acc) = filter (\<lambda>k. \<not> overlap x k) (filter P acc)"
      by (simp add: filter_filter conj_commute)
    ultimately show ?thesis using True by (simp add: dedupe_step.simps)
  next
    case False
    have "\<not> overlap x y" if "y \<in> set acc" "P y" for y
      using that False assms(1) Cons.prems overlap_sym [of x y] by auto
    then have "filter P (filter (\<lambda>k. \<not> overlap x k) acc) = filter P acc"
      by (induction acc) auto
    with False show ?thesis by (simp add: dedupe_step.simps)
  qed
  with IH show ?case by simp
qed simp

lemma filter_dedupe_overlaps:
  assumes "\<forall>x \<in> set xs. \<forall>y \<in> set xs. P x \<longrightarrow> \<not> P y \<longrightarrow> \<not> overlap x y"
  shows "filter P (dedupe_overlaps xs) = dedupe_overlaps (filter P xs)"
proof -
  have "filter P (foldl dedupe_step [] (sort_key dedupe_key xs))
      = foldl dedupe_step [] (sort_key dedupe_key (filter P xs))"
    using filter_foldl_dedupe_step [OF assms, of "[]" "sort_key dedupe_key xs"]
    by (simp add: filter_sort)
  then show ?thesis by (simp add: dedupe_overlaps_def Let_def filter_sort)
qed

text \<open>
  Regex hits are the safety net: for non-empty regex spans, the fused list contains
  exactly those regex spans that deduplicating the regex spans alone would keep, whatever
  the model returned and with whatever confidence.
\<close>

theorem fuse_keeps_regex_spans:
  assumes "list_all (in_range n) regex_spans"
  shows "filter (\<lambda>s. List.member regex_spans s) (fuse regex_spans model_spans min_conf)
       = dedupe_overlaps regex_spans"
proof -
  let ?P = "\<lambda>s. List.member regex_spans s"
  let ?m = "filter (\<lambda>s. \<not> (s_conf s < min_conf) \<and> \<not> list_ex (overlaps s) regex_spans) model_spans"
  have nm: "s \<notin> set regex_spans" if "s \<in> set ?m" for s
  proof
    assume s: "s \<in> set regex_spans"
    with assms have "in_range n s" by (simp add: list_all_iff)
    then have "overlaps s s" by (auto simp: overlaps_def in_range_def)
    with s that show False by (auto simp: list_ex_iff)
  qed
  have "\<forall>x \<in> set (fuse_kept regex_spans model_spans min_conf).
      \<forall>y \<in> set (fuse_kept regex_spans model_spans min_conf). ?P x \<longrightarrow> \<not> ?P y \<longrightarrow> \<not> overlap x y"
    using overlap_sym by (auto simp: fuse_kept_def list_ex_iff overlaps_overlap)
  from filter_dedupe_overlaps [OF this]
  have "filter ?P (fuse regex_spans model_spans min_conf)
      = dedupe_overlaps (filter ?P (fuse_kept regex_spans model_spans min_conf))"
    by (simp only: fuse_def)
  moreover have "filter ?P (fuse_kept regex_spans model_spans min_conf) = regex_spans"
  proof -
    have "\<forall>x \<in> set ?m. \<not> ?P x" using nm unfolding List.member_iff by blast
    then have "filter ?P ?m = []" by (rule filter_False)
    then show ?thesis unfolding fuse_kept_def filter_append by simp
  qed
  ultimately show ?thesis by simp
qed

theorem fuse_keeps_regex_spans_witness:
  "filter (\<lambda>s. List.member [mk_span 0 5 ''EMAIL'' (1/10)] s)
     (fuse [mk_span 0 5 ''EMAIL'' (1/10)] [mk_span 3 9 ''PERSON'' 1, mk_span 6 9 ''PERSON'' 1] (1/2))
   = dedupe_overlaps [mk_span 0 5 ''EMAIL'' (1/10)]"
  by (rule fuse_keeps_regex_spans [of 9]) (simp add: in_range_def mk_span_def)

text \<open>
  A model span that overlaps a regex span is dropped at any confidence, where the docstring
  keeps it from the threshold on.
\<close>

lemma fuse_drops_confident_overlap:
  "fuse [mk_span 2 4 ''URL'' 1] [mk_span 0 9 ''PERSON'' 1] (1/2) = [mk_span 2 4 ''URL'' 1]"
  by code_simp

lemma fuse_valid:
  assumes "list_all (in_range n) regex_spans" "list_all (in_range n) model_spans"
  shows "valid_spans n (fuse regex_spans model_spans mc)"
  unfolding fuse_def by (rule valid_dedupe_overlaps) (use assms in \<open>auto simp: fuse_kept_def list_all_iff\<close>)

section \<open>Placeholders\<close>

lemma length_type_placeholders [simp]: "length (type_placeholders c ss) = length ss"
  by (induction ss arbitrary: c) (simp_all add: Let_def)

lemma type_placeholders_above:
  "ph \<in> set (type_placeholders c ss) \<Longrightarrow> \<exists>ty k. ph = placeholder ty k \<and> dict_get c ty 0 < k"
proof (induction ss arbitrary: c)
  case (Cons s ss)
  let ?ty = "py_upper (s_type s)" and ?k = "Suc (dict_get c (py_upper (s_type s)) 0)"
  from Cons.prems consider "ph = placeholder ?ty ?k"
    | "ph \<in> set (type_placeholders (AList.update ?ty ?k c) ss)" by (auto simp: Let_def)
  then show ?case
  proof cases
    case 1
    then show ?thesis by blast
  next
    case 2
    from Cons.IH [OF this] obtain ty k where "ph = placeholder ty k"
      "dict_get (AList.update ?ty ?k c) ty 0 < k" by blast
    moreover have "dict_get c ty 0 \<le> dict_get (AList.update ?ty ?k c) ty 0"
      by (simp add: dict_get_def)
    ultimately show ?thesis by fastforce
  qed
qed simp

text \<open>
  The placeholders of one pipeline run are pairwise different, and they depend only on
  the types of the spans, so two entities are never given the same placeholder.
\<close>

theorem type_placeholders_distinct:
  "distinct (type_placeholders counters spans) \<and>
   type_placeholders counters spans = type_placeholders counters (map (\<lambda>s. s\<lparr>s_start := 0, s_end := 0, s_conf := 0\<rparr>) spans)"
proof (induction spans arbitrary: counters)
  case (Cons s ss)
  let ?ty = "py_upper (s_type s)" and ?k = "Suc (dict_get counters (py_upper (s_type s)) 0)"
  have "placeholder ?ty ?k \<notin> set (type_placeholders (AList.update ?ty ?k counters) ss)"
  proof
    assume "placeholder ?ty ?k \<in> set (type_placeholders (AList.update ?ty ?k counters) ss)"
    from type_placeholders_above [OF this] obtain ty k where "placeholder ?ty ?k = placeholder ty k"
      "dict_get (AList.update ?ty ?k counters) ty 0 < k" by blast
    then have "?ty = ty" "?k = k" "dict_get (AList.update ?ty ?k counters) ty 0 < k"
      unfolding placeholder_inj by blast+
    then have "dict_get (AList.update ?ty ?k counters) ?ty 0 < ?k" by simp
    then show False by (simp add: dict_get_def)
  qed
  moreover have "distinct (type_placeholders (AList.update ?ty ?k counters) ss)"
    using Cons.IH [of "AList.update ?ty ?k counters"] by (rule conjunct1)
  moreover have "type_placeholders (AList.update ?ty ?k counters) (map (\<lambda>s. s\<lparr>s_start := 0, s_end := 0, s_conf := 0\<rparr>) ss)
     = type_placeholders (AList.update ?ty ?k counters) ss"
    by (rule Cons.IH [of "AList.update ?ty ?k counters", THEN conjunct2, symmetric])
  ultimately show ?case by (simp add: Let_def)
qed simp

section \<open>The pipeline fails closed\<close>

lemma pipeline_call_cases:
  assumes "pipeline_call h R env pl t b s = (Inr r, b', s')"
  obtains ro mo where "regex_gate_stage pl t = Inr ro" "model_stage_stage R env pl t b s = (Inr mo, b', s')"
    "pipeline_finish h pl t ro mo = Inr r"
  using assms by (auto simp: pipeline_call_def split: sum.splits prod.splits)

lemma pipeline_finish_Inr:
  assumes "pipeline_finish h pl t ro mo = Inr r"
  shows "pr_spans r = fuse (oc_spans ro) (oc_spans mo) (1/2)" "pr_used_fallback r = oc_circuit_open mo"
    "oc_circuit_open mo \<Longrightarrow> pr_spans r \<noteq> []"
    "apply_spans t (pr_spans r) (type_placeholders [] (pr_spans r)) = Inr (pr_text r)"
  using assms by (auto simp: pipeline_finish_def Let_def map_res_Inr_iff split: if_splits)

text \<open>The model's answer reaches the stage only through the guarded call, unchanged.\<close>

lemma guarded_model_call_result:
  "fst (guarded_model_call R env shared r b s) = r \<or> fst (guarded_model_call R env shared r b s) \<in> range Inl"
proof -
  have "fst (breaker_call is_Exception (pe_mono0 env) (pe_mono1 env) r b) = r
      \<or> fst (breaker_call is_Exception (pe_mono0 env) (pe_mono1 env) r b) \<in> range Inl"
    by (auto simp: breaker_call_def breaker_defs split: if_splits option.splits)
  then show ?thesis
    by (auto simp: guarded_model_call_def Let_def split: option.splits prod.splits sum.splits)
qed

lemma model_stage_outcome:
  assumes "model_stage_stage R env pl t b s = (Inr mo, b', s')"
  shows "oc_circuit_open mo \<and> oc_spans mo = []
      \<and> fst (guarded_model_call R env (pp_shared pl) (detector_sync (pp_model pl) t (Some [])) b s) \<in> range Inl
    \<or> \<not> oc_circuit_open mo \<and> detector_sync (pp_model pl) t (Some []) = Inr (oc_spans mo)"
proof -
  obtain r b2 s2 where g: "guarded_model_call R env (pp_shared pl) (detector_sync (pp_model pl) t (Some [])) b s
      = (r, b2, s2)" using prod_cases3 by blast
  with guarded_model_call_result [of R env "pp_shared pl" "detector_sync (pp_model pl) t (Some [])" b s]
  have "r = detector_sync (pp_model pl) t (Some []) \<or> r \<in> range Inl" by simp
  with assms g show ?thesis
    by (auto simp: model_stage_stage_def split: sum.splits if_splits)
qed

text \<open>
  C11. The pipeline fails closed and leaks nothing. A run that returns either has the answer
  of the model and reports the fusion of both stages without the fallback mark, or the
  model's call did not deliver; then the run says so, reports the regex spans, and there is
  at least one, so the original text is never returned in place of a redaction. The text is
  the input with exactly the reported spans replaced. And for detectors that keep the contract
  (their offsets lie inside the text), two texts of the same length with the same fused spans
  that agree outside the spans give the same redacted text.
\<close>

theorem pipeline_fails_closed:
  assumes "detector_protocol (pp_gate pl)" "detector_protocol (detector_sync (pp_model pl))"
    and "pipeline_call h R env pl t1 b s = (Inr r1, b1, s1)"
    and "pipeline_call h R env' pl t2 c u = (Inr r2, b2, s2)"
    and "pr_spans r1 = pr_spans r2" "length t2 = length t1"
    and "\<And>i. i < length t1 \<Longrightarrow> \<not> covered (pr_spans r1) i \<Longrightarrow> t1 ! i = t2 ! i"
  shows "pr_text r1 = pr_text r2
    \<and> apply_spans t1 (pr_spans r1) (type_placeholders [] (pr_spans r1)) = Inr (pr_text r1)
    \<and> (\<exists>regex_spans. pp_gate pl t1 (Some []) = Inr regex_spans
         \<and> (if pr_used_fallback r1
            then fst (guarded_model_call R env (pp_shared pl) (detector_sync (pp_model pl) t1 (Some [])) b s)
                   \<in> range Inl
              \<and> pr_spans r1 = dedupe_overlaps regex_spans \<and> pr_spans r1 \<noteq> []
            else \<exists>model_spans. detector_sync (pp_model pl) t1 (Some []) = Inr model_spans
              \<and> pr_spans r1 = fuse regex_spans model_spans (1 / 2)))"
proof -
  from assms(3) obtain ro mo where o1: "regex_gate_stage pl t1 = Inr ro"
    "model_stage_stage R env pl t1 b s = (Inr mo, b1, s1)" "pipeline_finish h pl t1 ro mo = Inr r1"
    by (rule pipeline_call_cases)
  from assms(4) obtain ro2 mo2 where "pipeline_finish h pl t2 ro2 mo2 = Inr r2"
    by (rule pipeline_call_cases)
  note f1 = pipeline_finish_Inr [OF o1(3)] and f2 = pipeline_finish_Inr [OF this]
  note mo = model_stage_outcome [OF o1(2)]
  have gate: "pp_gate pl t1 (Some []) = Inr (oc_spans ro)"
    using o1(1) by (auto simp: regex_gate_stage_def gate_run_def map_res_Inr_iff)
  then have "list_all (in_range (length t1)) (oc_spans ro)"
    by (rule detector_protocol.detect_in_range [OF assms(1)])
  moreover have "list_all (in_range (length t1)) (oc_spans mo)"
    using mo detector_protocol.detect_in_range [OF assms(2)] by auto
  ultimately have v: "valid_spans (length t1) (pr_spans r1)" unfolding f1(1) by (rule fuse_valid)
  have "apply_spans t1 (pr_spans r1) (type_placeholders [] (pr_spans r1))
      = apply_spans t2 (pr_spans r1) (type_placeholders [] (pr_spans r1))"
    by (rule apply_spans_cong [OF v _ assms(6,7)]) simp
  then have "pr_text r1 = pr_text r2" using f1(4) f2(4) assms(5) by simp
  moreover have "pr_spans r1 = dedupe_overlaps (oc_spans ro)" if "oc_spans mo = []"
    unfolding f1(1) that by (simp add: fuse_def fuse_kept_def)
  ultimately show ?thesis using f1(2,3,4) mo gate unfolding f1(1) by auto
qed

definition demo_pipeline :: pipeline where
  "demo_pipeline = \<lparr>pp_gate = regex_detector RULES,
     pp_model = \<lparr>ms_detect_sync = None, ms_detect = (\<lambda>t types. Inl OSError)\<rparr>, pp_salt = '''', pp_shared = None\<rparr>"

definition demo_env :: pipe_env where
  "demo_env = \<lparr>pe_mono0 = 0, pe_mono1 = 0, pe_wall0 = 0, pe_wall1 = 0, pe_allow_fault = None, pe_update_fault = None\<rparr>"

lemma demo_pipeline_runs:
  "map_res (\<lambda>r. (pr_text r, pr_spans r, pr_used_fallback r))
     (fst (pipeline_call (\<lambda>k m. k) list_redis demo_env demo_pipeline ''a b@c.de'' (new_breaker 3 5) []))
   = Inr (''a [EMAIL_0001]'', [mk_span 2 8 ''EMAIL'' 1], True)"
  "map_res (\<lambda>r. (pr_text r, pr_spans r, pr_used_fallback r))
     (fst (pipeline_call (\<lambda>k m. k) list_redis demo_env demo_pipeline ''a x@y.zw'' (new_breaker 3 5) []))
   = Inr (''a [EMAIL_0001]'', [mk_span 2 8 ''EMAIL'' 1], True)"
  by code_simp+

theorem pipeline_fails_closed_witness:
  "\<exists>r1 r2 b1 s1 b2 s2. pipeline_call (\<lambda>k m. k) list_redis demo_env demo_pipeline ''a b@c.de'' (new_breaker 3 5) []
      = (Inr r1, b1, s1)
    \<and> pipeline_call (\<lambda>k m. k) list_redis demo_env demo_pipeline ''a x@y.zw'' (new_breaker 3 5) [] = (Inr r2, b2, s2)
    \<and> pr_text r1 = pr_text r2 \<and> pr_used_fallback r1 \<and> pr_spans r1 \<noteq> []"
proof -
  obtain r1 b1 s1 where 1: "pipeline_call (\<lambda>k m. k) list_redis demo_env demo_pipeline ''a b@c.de'' (new_breaker 3 5) []
      = (Inr r1, b1, s1)" "pr_spans r1 = [mk_span 2 8 ''EMAIL'' 1]" "pr_used_fallback r1"
    using demo_pipeline_runs(1) by (auto simp: map_res_Inr_iff prod_eq_iff)
  obtain r2 b2 s2 where 2: "pipeline_call (\<lambda>k m. k) list_redis demo_env demo_pipeline ''a x@y.zw'' (new_breaker 3 5) []
      = (Inr r2, b2, s2)" "pr_spans r2 = [mk_span 2 8 ''EMAIL'' 1]"
    using demo_pipeline_runs(2) by (auto simp: map_res_Inr_iff prod_eq_iff)
  have m: "detector_protocol (detector_sync (pp_model demo_pipeline))"
    by unfold_locales (simp add: detector_sync_def demo_pipeline_def)
  have g: "detector_protocol (pp_gate demo_pipeline)"
    using regex_rules.detector_protocol_axioms by (simp add: demo_pipeline_def)
  have same: "''a b@c.de'' ! i = ''a x@y.zw'' ! i"
    if "i < length ''a b@c.de''" "\<not> covered (pr_spans r1) i" for i
    using that by (auto simp: 1(2) covered_def mk_span_def less_Suc_eq)
  have "pr_spans r1 = pr_spans r2" "length ''a x@y.zw'' = length ''a b@c.de''" by (simp_all add: 1 2)
  note closed = pipeline_fails_closed [OF g m 1(1) 2(1) this same]
  have "pr_text r1 = pr_text r2" using closed by blast
  moreover have "pr_spans r1 \<noteq> []" using closed 1(3) by auto
  ultimately show ?thesis using 1(1,3) 2(1) by blast
qed

text \<open>
  An error of the Redis client is neither an operating-system nor a runtime error, so the
  fallback to the local breaker does not catch it: the run fails although the model answered.
\<close>

lemma redis_error_escapes_fallback:
  assumes "pe_allow_fault env = Some (RedisError, False)" "pp_shared pl = Some sb"
    "regex_gate_stage pl t = Inr ro"
  shows "pipeline_call h R env pl t b s = (Inl RedisError, b, s)"
  using assms
  by (simp add: pipeline_call_def model_stage_stage_def guarded_model_call_def shared_allow_def net_def
      coordination_error_def model_transient_def exn_class_defs Let_def)

end
