(* ===== verification/Config.thy ===== *)
theory Config
  imports Policies
begin

text \<open>
  \<open>app/config.py\<close>: the settings that the modelled code reads, the parsing of the
  comma-separated and JSON values, and \<open>verify\<close>, which refuses unsafe configurations at
  boot. The environment, the JSON parser, the Fernet key check and the policy files are
  arguments. The lemmas say what a verified configuration guarantees.
\<close>

datatype deployment = Dev | Prod

record settings =
  log_level :: string
  cfg_host :: string
  cfg_port :: int
  deploy_env :: deployment
  redis_namespace :: string
  cors_origins :: string
  trusted_hosts :: string
  redis_url :: string
  redis_required :: bool
  service_name :: string
  redis_connect_timeout_seconds :: rat
  redis_socket_timeout_seconds :: rat
  redis_max_connections :: int
  detector_name :: string
  model_cache :: string
  model_name :: string
  model_revision :: string
  model_threshold :: rat
  cfg_policies_dir :: string
  cfg_default_policy :: string
  audit_backend :: string
  audit_path :: string
  audit_required :: bool
  audit_integrity_key :: string
  audit_fsync :: bool
  audit_max_bytes :: int
  audit_rotation_backups :: int
  audit_retention_seconds :: int
  audit_redis_max_events :: int
  hash_salt :: string
  max_body_bytes :: int
  max_response_bytes :: int
  max_text_chars :: int
  max_batch_chars :: int
  api_keys :: string
  api_key_scopes :: string
  api_key_revocations :: string
  rate_limit_per_minute :: int
  rate_limit_fail_open :: bool
  idempotency_ttl_seconds :: int
  cache_ttl_seconds :: int
  cache_shared :: bool
  inference_concurrency :: int
  worker_concurrency :: int
  job_retry_jitter_seconds :: rat
  job_payload_encryption_key :: string
  job_dead_letter_max :: int
  max_inflight :: int
  max_jobs_per_key :: int
  max_concurrent_requests :: int
  request_admission_timeout_seconds :: rat
  job_ttl_seconds :: int
  job_stale_seconds :: int
  request_timeout_seconds :: rat
  request_body_timeout_seconds :: rat
  shutdown_timeout_seconds :: rat
  stream_chunk_bytes :: int
  stream_chunk_chars :: int
  stream_timeout_seconds :: rat
  multi_pass_max :: int
  pipeline_breaker_threshold :: int
  pipeline_breaker_cooldown_s :: rat
  pipeline_enabled :: bool
  metrics_by_tenant :: bool
  otlp_endpoint :: "string option"

text \<open>The defaults of the fields, and the constraints that pydantic checks on construction.\<close>

definition default_settings :: settings where
  "default_settings =
     \<lparr>log_level = ''INFO'', cfg_host = ''0.0.0.0'', cfg_port = 8000, deploy_env = Prod,
      redis_namespace = ''redax'', cors_origins = [], trusted_hosts = [],
      redis_url = ''redis://localhost:6379/0'', redis_required = False, service_name = ''redax'',
      redis_connect_timeout_seconds = 1, redis_socket_timeout_seconds = 1,
      redis_max_connections = 64, detector_name = ''gliner2'', model_cache = ''./models_cache'',
      model_name = ''fastino/GLiNER2-Guardrails-PII-Multi'',
      model_revision = ''aad696b2f6815e3dfc2d95908129eea5ed598562'', model_threshold = 1/2,
      cfg_policies_dir = ''./policies'', cfg_default_policy = ''default'', audit_backend = ''file'',
      audit_path = ''./audit.jsonl'', audit_required = True, audit_integrity_key = [],
      audit_fsync = True, audit_max_bytes = 1000000000, audit_rotation_backups = 5,
      audit_retention_seconds = 7776000, audit_redis_max_events = 100000, hash_salt = ''change-me'',
      max_body_bytes = 4000000, max_response_bytes = 4000000, max_text_chars = 100000,
      max_batch_chars = 1000000, api_keys = [], api_key_scopes = [], api_key_revocations = [],
      rate_limit_per_minute = 60, rate_limit_fail_open = False, idempotency_ttl_seconds = 86400,
      cache_ttl_seconds = 3600, cache_shared = False, inference_concurrency = 2,
      worker_concurrency = 1, job_retry_jitter_seconds = 1, job_payload_encryption_key = [],
      job_dead_letter_max = 1000, max_inflight = 32, max_jobs_per_key = 50,
      max_concurrent_requests = 128, request_admission_timeout_seconds = 1/100,
      job_ttl_seconds = 86400, job_stale_seconds = 300, request_timeout_seconds = 30,
      request_body_timeout_seconds = 30, shutdown_timeout_seconds = 30, stream_chunk_bytes = 4096,
      stream_chunk_chars = 2000, stream_timeout_seconds = 60, multi_pass_max = 3,
      pipeline_breaker_threshold = 3, pipeline_breaker_cooldown_s = 5, pipeline_enabled = True,
      metrics_by_tenant = False, otlp_endpoint = None\<rparr>"

definition settings_fields_ok :: "settings \<Rightarrow> bool" where
  "settings_fields_ok s \<longleftrightarrow>
     1 / 10 \<le> redis_connect_timeout_seconds s
     \<and> 1 / 10 \<le> redis_socket_timeout_seconds s
     \<and> 1 \<le> redis_max_connections s
     \<and> 0 \<le> model_threshold s \<and> model_threshold s \<le> 1
     \<and> 1 \<le> audit_max_bytes s
     \<and> 0 \<le> audit_rotation_backups s
     \<and> 1 \<le> audit_retention_seconds s
     \<and> 1 \<le> audit_redis_max_events s
     \<and> 1024 \<le> max_body_bytes s
     \<and> 1024 \<le> max_response_bytes s
     \<and> 1 \<le> max_text_chars s
     \<and> 1 \<le> max_batch_chars s
     \<and> 0 \<le> rate_limit_per_minute s
     \<and> 0 \<le> idempotency_ttl_seconds s
     \<and> 0 \<le> cache_ttl_seconds s
     \<and> 1 \<le> inference_concurrency s
     \<and> 1 \<le> worker_concurrency s
     \<and> 0 \<le> job_retry_jitter_seconds s \<and> job_retry_jitter_seconds s \<le> 30
     \<and> 1 \<le> job_dead_letter_max s
     \<and> 1 \<le> max_inflight s
     \<and> 1 \<le> max_jobs_per_key s
     \<and> 1 \<le> max_concurrent_requests s
     \<and> 0 \<le> request_admission_timeout_seconds s \<and> request_admission_timeout_seconds s \<le> 1
     \<and> 1 \<le> job_ttl_seconds s
     \<and> 1 \<le> job_stale_seconds s
     \<and> 1 / 10 \<le> request_timeout_seconds s
     \<and> 1 / 10 \<le> request_body_timeout_seconds s
     \<and> 1 / 10 \<le> shutdown_timeout_seconds s
     \<and> 64 \<le> stream_chunk_bytes s
     \<and> 100 \<le> stream_chunk_chars s \<and> stream_chunk_chars s \<le> 50000
     \<and> 1 / 10 \<le> stream_timeout_seconds s
     \<and> 1 \<le> multi_pass_max s
     \<and> 1 \<le> pipeline_breaker_threshold s
     \<and> 1 / 10 \<le> pipeline_breaker_cooldown_s s
     \<and> List.member [''gliner2'', ''regex''] (detector_name s)
     \<and> List.member [''file'', ''redis''] (audit_backend s)"

lemma default_fields_ok: "settings_fields_ok default_settings"
  by (simp add: settings_fields_ok_def default_settings_def)

definition SUPPORTED_API_SCOPES :: "string list" where
  "SUPPORTED_API_SCOPES = [''redact'', ''detect'', ''jobs'', ''policies:read'', ''metrics:read'']"

section \<open>Parsing\<close>

text \<open>\<open>value.split(",")\<close> with stripped, non-empty items; sets are lists without regard to order.\<close>

fun split_char :: "char \<Rightarrow> string \<Rightarrow> string \<Rightarrow> string list" where
  "split_char sep acc [] = [rev acc]"
| "split_char sep acc (c # cs) =
     (if c = sep then rev acc # split_char sep [] cs else split_char sep (c # acc) cs)"

definition csv_values :: "string \<Rightarrow> string list" where
  "csv_values value = filter (\<lambda>x. x \<noteq> []) (map py_strip (split_char CHR '','' [] value))"

definition configured_api_key_set :: "settings \<Rightarrow> string list" where
  "configured_api_key_set s = csv_values (api_keys s)"

definition api_key_revoked_set :: "settings \<Rightarrow> string list" where
  "api_key_revoked_set s = csv_values (api_key_revocations s)"

definition api_key_set :: "settings \<Rightarrow> string list" where
  "api_key_set s = filter (\<lambda>k. \<not> List.member (api_key_revoked_set s) k) (configured_api_key_set s)"

definition cors_origin_list :: "settings \<Rightarrow> string list" where
  "cors_origin_list s = csv_values (cors_origins s)"

definition trusted_host_list :: "settings \<Rightarrow> string list" where
  "trusted_host_list s = csv_values (trusted_hosts s)"

definition redis_prefix :: "settings \<Rightarrow> string" where
  "redis_prefix s = (let ns = py_strip (redis_namespace s) in if ns = [] then ''redax'' else ns)"

fun string_list :: "json \<Rightarrow> string list option" where
  "string_list (JList js) = (case json_strings js of Inl e \<Rightarrow> None | Inr ss \<Rightarrow> Some ss)"
| "string_list _ = None"

fun scope_entries :: "(json \<times> json) list \<Rightarrow> (string \<times> string list) list res" where
  "scope_entries [] = Inr []"
| "scope_entries ((k, v) # rest) =
     (case (k, string_list v) of
        (JStr key, Some scopes) \<Rightarrow> map_res ((#) (key, scopes)) (scope_entries rest)
      | _ \<Rightarrow> Inl ValueError)"

text \<open>\<open>loads\<close> is \<open>json.loads\<close>; a decoded object has distinct string keys.\<close>

definition api_key_scope_map :: "(string \<Rightarrow> json res) \<Rightarrow> settings \<Rightarrow> (string \<times> string list) list res" where
  "api_key_scope_map loads s =
     (if py_strip (api_key_scopes s) = [] then Inr []
      else bind_res (loads (api_key_scopes s)) (\<lambda>parsed.
             case parsed of JDict d \<Rightarrow> scope_entries d | _ \<Rightarrow> Inl ValueError))"

section \<open>\<open>verify\<close>\<close>

record verify_env =
  ve_loads :: "string \<Rightarrow> json res"
  ve_fernet_ok :: "string \<Rightarrow> bool"
  ve_files :: "string \<Rightarrow> string \<Rightarrow> json res option"
  ve_jwt_secret_set :: bool

definition subset_list :: "string list \<Rightarrow> string list \<Rightarrow> bool" where
  "subset_list xs ys = list_all (List.member ys) xs"

definition default_secrets :: "string list" where
  "default_secrets = [''change-me'', ''dev-key'']"

definition policy_loads :: "verify_env \<Rightarrow> settings \<Rightarrow> unit res" where
  "policy_loads ve s =
     (case load_policy (ve_files ve (cfg_policies_dir s) (cfg_default_policy s @ ''.yaml'')) of
        Inr p \<Rightarrow> Inr ()
      | Inl e \<Rightarrow> if is_Exception e then Inl ValueError else Inl e)"

definition verify :: "verify_env \<Rightarrow> settings \<Rightarrow> unit res" where
  "verify ve s =
     (let keys = configured_api_key_set s; prod = (deploy_env s = Prod)
      in bind_res (raise_first
           [(List.member default_secrets (hash_salt s), ValueError),
            (\<not> subset_list (api_key_revoked_set s) keys, ValueError)]) (\<lambda>_.
         bind_res (api_key_scope_map (ve_loads ve) s) (\<lambda>scope_map.
         bind_res (raise_first
           [(scope_map \<noteq> [] \<and> \<not> (subset_list (map fst scope_map) keys \<and> subset_list keys (map fst scope_map)), ValueError),
            (\<not> subset_list (concat (map snd scope_map)) SUPPORTED_API_SCOPES, ValueError),
            (list_ex (List.member default_secrets) keys, ValueError),
            (ve_jwt_secret_set ve, ValueError),
            (prod \<and> keys = [], ValueError),
            (prod \<and> api_key_set s = [], ValueError),
            (prod \<and> trusted_host_list s = [], ValueError),
            (prod \<and> List.member (cors_origin_list s) ''*'', ValueError),
            (prod \<and> audit_backend s = ''redis'' \<and> audit_integrity_key s = [], ValueError),
            (job_payload_encryption_key s \<noteq> [] \<and> \<not> ve_fernet_ok ve (job_payload_encryption_key s), ValueError),
            (job_payload_encryption_key s = [] \<and> prod, ValueError)]) (\<lambda>_.
         bind_res (if prod then policy_loads ve s else Inr ()) (\<lambda>_.
           if detector_name s = ''regex'' then Inr ()
           else if model_name s = [] \<or> model_revision s = [] then Inl ValueError
           else Inr ())))))"

lemma subset_list_iff [simp]: "subset_list xs ys \<longleftrightarrow> set xs \<subseteq> set ys"
  by (auto simp: subset_list_def list_all_iff)

lemma scope_entries_keys: "scope_entries d = Inr m \<Longrightarrow> map JStr (map fst m) = map fst d"
  by (induction d arbitrary: m)
    (auto simp: map_res_Inr_iff split: json.splits option.splits prod.splits)

lemma verify_nonempty:
  assumes "verify ve s = Inr ()" "deploy_env s = Prod"
  shows "api_key_set s \<noteq> []"
  using assms unfolding verify_def Let_def
  by (auto simp: bind_res_Inr_iff raise_first_ok_iff simp del: raise_first.simps)

text \<open>
  C20. A configuration that passes \<open>verify\<close> in production authenticates every request and has
  no placeholder secret: there is a usable API key, no configured key and no salt is a
  default, every key has its scopes listed when scopes are configured at all, hosts are
  restricted, wildcard CORS is off, job payloads are encrypted with a valid key, and the
  default policy can be loaded.
\<close>

theorem verify_production_safe:
  assumes "verify ve s = Inr ()" "deploy_env s = Prod"
  shows "api_key_set s \<noteq> [] \<and> set (api_key_set s) \<subseteq> set (configured_api_key_set s)
    \<and> set (configured_api_key_set s) \<inter> set default_secrets = {} \<and> hash_salt s \<notin> set default_secrets
    \<and> (\<exists>m. api_key_scope_map (ve_loads ve) s = Inr m
         \<and> (m = [] \<or> set (map fst m) = set (configured_api_key_set s))
         \<and> set (concat (map snd m)) \<subseteq> set SUPPORTED_API_SCOPES)
    \<and> trusted_host_list s \<noteq> [] \<and> ''*'' \<notin> set (cors_origin_list s)
    \<and> job_payload_encryption_key s \<noteq> [] \<and> ve_fernet_ok ve (job_payload_encryption_key s)
    \<and> (\<exists>p. load_policy (ve_files ve (cfg_policies_dir s) (cfg_default_policy s @ ''.yaml'')) = Inr p)"
proof -
  from assms(1) obtain m where m: "api_key_scope_map (ve_loads ve) s = Inr m"
    and c1: "hash_salt s \<notin> set default_secrets"
    and c2: "m = [] \<or> set (map fst m) = set (configured_api_key_set s)"
    "set (concat (map snd m)) \<subseteq> set SUPPORTED_API_SCOPES"
    "list_all (\<lambda>k. k \<notin> set default_secrets) (configured_api_key_set s)"
    "api_key_set s \<noteq> []" "trusted_host_list s \<noteq> []" "''*'' \<notin> set (cors_origin_list s)"
    "job_payload_encryption_key s \<noteq> []" "ve_fernet_ok ve (job_payload_encryption_key s)"
    and pl: "policy_loads ve s = Inr ()"
    using assms(2) unfolding verify_def Let_def
    by (auto simp: bind_res_Inr_iff raise_first_ok_iff list_all_iff list_ex_iff simp del: raise_first.simps)
  from pl obtain p where "load_policy (ve_files ve (cfg_policies_dir s) (cfg_default_policy s @ ''.yaml'')) = Inr p"
    by (auto simp: policy_loads_def split: sum.splits if_splits)
  with m c1 c2 show ?thesis by (auto simp: api_key_set_def list_all_iff)
qed

text \<open>The placeholder salt of the defaults is refused, whatever the environment.\<close>

lemma default_settings_refused: "verify ve default_settings = Inl ValueError"
  by (simp add: verify_def raise_first.simps default_settings_def default_secrets_def Let_def)

definition demo_settings :: settings where
  "demo_settings = default_settings
     \<lparr>deploy_env := Prod, redis_namespace := ''redax'', cors_origins := [], trusted_hosts := ''api.test'',
      detector_name := ''regex'', model_name := [], model_revision := [], cfg_policies_dir := ''policies'',
      cfg_default_policy := ''default'', audit_backend := ''file'', audit_integrity_key := [],
      hash_salt := ''pepper'', max_text_chars := 100, max_batch_chars := 1000, api_keys := ''k1, k2'',
      api_key_scopes := [], api_key_revocations := ''k2'', rate_limit_per_minute := 2,
      rate_limit_fail_open := False, idempotency_ttl_seconds := 60, cache_ttl_seconds := 60,
      cache_shared := False, job_payload_encryption_key := ''fernet'', max_inflight := 2,
      max_jobs_per_key := 1, job_ttl_seconds := 60, stream_chunk_chars := 100\<rparr>"

definition demo_verify_env :: verify_env where
  "demo_verify_env =
     \<lparr>ve_loads = (\<lambda>s. Inl ValueError), ve_fernet_ok = (\<lambda>k. k = ''fernet''),
      ve_files = (\<lambda>d f. Some (Inr (JDict []))), ve_jwt_secret_set = False\<rparr>"

theorem verify_production_safe_witness:
  "api_key_set demo_settings \<noteq> [] \<and> hash_salt demo_settings \<notin> set default_secrets"
proof -
  have "verify demo_verify_env demo_settings = Inr ()" "deploy_env demo_settings = Prod" by code_simp+
  from verify_production_safe [OF this] show ?thesis by blast
qed

end
