(* ===== verification/Access.thy ===== *)
theory Access
  imports Config Redis
begin

text \<open>
  \<open>app/auth.py\<close> and \<open>app/ratelimit.py\<close>: API-key authentication, scopes, the principal
  identifier and the per-key fixed-window rate limit on Redis. HMAC and SHA-256 are
  arguments; the client of the job store is one of absent, disconnected or connected, and
  its call may fail. The lemmas say who is let through, how many requests of one minute
  are, and that the limiter fails closed.
\<close>

section \<open>Authentication\<close>

text \<open>
  \<open>secrets.compare_digest\<close> on strings: equality for ASCII strings, otherwise it raises.
\<close>

definition is_ascii :: "string \<Rightarrow> bool" where
  "is_ascii s = list_all (\<lambda>c. code c < 128) s"

definition compare_digest :: "string \<Rightarrow> string \<Rightarrow> bool res" where
  "compare_digest a b = (if is_ascii a \<and> is_ascii b then Inr (a = b) else Inl TypeError)"

definition ANONYMOUS :: string where
  "ANONYMOUS = ''anonymous''"

definition principal_id :: "(string \<Rightarrow> string \<Rightarrow> string) \<Rightarrow> string \<Rightarrow> string \<Rightarrow> string" where
  "principal_id hmac_hex api_key salt = take 24 (hmac_hex salt api_key)"

text \<open>Every candidate is compared; the flag remembers a match.\<close>

fun compare_all :: "string \<Rightarrow> string list \<Rightarrow> bool \<Rightarrow> bool res" where
  "compare_all x [] matched = Inr matched"
| "compare_all x (c # cs) matched =
     bind_res (compare_digest x c) (\<lambda>eq. compare_all x cs (if eq then True else matched))"

definition require_api_key :: "settings option \<Rightarrow> string option \<Rightarrow> string res" where
  "require_api_key settings x_api_key =
     (case settings of
        None \<Rightarrow> Inr ANONYMOUS
      | Some s \<Rightarrow>
          if api_key_set s = [] then Inr ANONYMOUS
          else
            (case x_api_key of
               None \<Rightarrow> Inl (HTTPException 401)
             | Some x \<Rightarrow>
                 bind_res (compare_all x (api_key_set s) False) (\<lambda>matched.
                   if \<not> matched then Inl (HTTPException 401) else Inr x)))"

definition require_scope ::
  "(string \<Rightarrow> json res) \<Rightarrow> settings option \<Rightarrow> string \<Rightarrow> string option \<Rightarrow> string res" where
  "require_scope loads settings scope x_api_key =
     bind_res (require_api_key settings x_api_key) (\<lambda>api_key.
     bind_res (case settings of None \<Rightarrow> Inr [] | Some s \<Rightarrow> api_key_scope_map loads s) (\<lambda>scope_map.
       if scope_map \<noteq> [] \<and> \<not> List.member (dict_get scope_map api_key []) scope
       then Inl (HTTPException 403) else Inr api_key))"

lemma compare_digest_Inr [simp]: "compare_digest a b = Inr r \<longleftrightarrow> is_ascii a \<and> is_ascii b \<and> r = (a = b)"
  by (auto simp: compare_digest_def)

lemma compare_all_Inr:
  "compare_all x cs m = Inr r \<Longrightarrow> r \<longleftrightarrow> m \<or> x \<in> set cs"
proof (induction cs arbitrary: m)
  case (Cons c cs)
  from Cons.prems have "compare_all x cs (if x = c then True else m) = Inr r"
    by (simp add: bind_res_Inr_iff)
  from Cons.IH [OF this] show ?case by auto
qed simp

lemma compare_all_ascii:
  "is_ascii x \<Longrightarrow> list_all is_ascii cs \<Longrightarrow> compare_all x cs m = Inr (m \<or> x \<in> set cs)"
  by (induction cs arbitrary: m) (auto simp: compare_digest_def)

text \<open>
  C21. Behind a configuration that \<open>verify\<close> accepted for production, a protected route runs
  only for a request whose header is a configured, unrevoked key that the scope map, if
  there is one, gives the route's scope; no request passes as anonymous without a key.
\<close>

theorem require_scope_sound:
  assumes "verify ve s = Inr ()" "deploy_env s = Prod"
    and "require_scope (ve_loads ve) (Some s) scope x = Inr api_key"
  shows "x = Some api_key \<and> api_key \<in> set (configured_api_key_set s)
    \<and> api_key \<notin> set (api_key_revoked_set s)
    \<and> (\<exists>m. api_key_scope_map (ve_loads ve) s = Inr m
         \<and> (m = [] \<or> scope \<in> set (dict_get m api_key [])))"
proof -
  from assms(3) obtain m where k: "require_api_key (Some s) x = Inr api_key"
    and m: "api_key_scope_map (ve_loads ve) s = Inr m" "m = [] \<or> scope \<in> set (dict_get m api_key [])"
    by (auto simp: require_scope_def bind_res_Inr_iff split: if_splits)
  have ne: "api_key_set s \<noteq> []" using verify_nonempty [OF assms(1,2)] .
  then obtain x' where x': "x = Some x'" using k by (cases x) (auto simp: require_api_key_def)
  have "compare_all x' (api_key_set s) False = Inr True \<and> api_key = x'"
    using k ne by (auto simp: x' require_api_key_def bind_res_Inr_iff split: if_splits)
  then have "x' \<in> set (api_key_set s)" "api_key = x'" using compare_all_Inr by blast+
  with m x' show ?thesis by (auto simp: api_key_set_def)
qed

theorem require_scope_sound_witness:
  "''k1'' \<in> set (configured_api_key_set demo_settings)"
proof -
  have "verify demo_verify_env demo_settings = Inr ()" "deploy_env demo_settings = Prod"
    "require_scope (ve_loads demo_verify_env) (Some demo_settings) ''redact'' (Some ''k1'') = Inr ''k1''"
    by code_simp+
  from require_scope_sound [OF this] show ?thesis by blast
qed

text \<open>
  A header with a character outside ASCII is not answered with 401: the comparison raises
  \<open>TypeError\<close>, so an unauthenticated client provokes an internal error.
\<close>

lemma non_ascii_key_type_error:
  assumes "api_key_set s \<noteq> []" "\<not> is_ascii x"
  shows "require_api_key (Some s) (Some x) = Inl TypeError"
  using assms by (cases "api_key_set s") (auto simp: require_api_key_def compare_digest_def)

section \<open>The rate limit\<close>

text \<open>The state's job store: none, one without a connected client, one with a client.\<close>

datatype store_handle = No_store | No_client | Client

definition RATE_LIMIT_SCRIPT :: "'s redis \<Rightarrow> string \<Rightarrow> int \<Rightarrow> 's \<Rightarrow> int \<times> 's" where
  "RATE_LIMIT_SCRIPT R k ttl s =
     (let (n_req, s1) = r_incr R k 1 s in (n_req, if n_req = 1 then r_expire R k ttl s1 else s1))"

definition minute_bucket :: "rat \<Rightarrow> int" where
  "minute_bucket now = \<lfloor>now / 60\<rfloor>"

definition show_int :: "int \<Rightarrow> string" where
  "show_int i = (if i < 0 then CHR ''-'' # dec (nat (- i)) else dec (nat i))"

definition rate_bucket :: "(string \<Rightarrow> string) \<Rightarrow> settings \<Rightarrow> string \<Rightarrow> rat \<Rightarrow> string" where
  "rate_bucket sha_hex s api_key now =
     redis_namespace s @ '':rl:'' @ take 32 (sha_hex api_key) @ '':'' @ show_int (minute_bucket now)"

text \<open>The headers of a 429 answer: retry after, limit, remaining, reset.\<close>

definition rate_limit_headers :: "rat \<Rightarrow> int \<Rightarrow> int \<times> int \<times> int \<times> int" where
  "rate_limit_headers time_now limit =
     (let now = \<lfloor>time_now\<rfloor>; reset_at = (now div 60 + 1) * 60
      in (max 1 (reset_at - now), limit, 0, reset_at))"

text \<open>
  The result with the number of \<open>RATE_LIMIT_UNAVAILABLE\<close> increments and the server state.
\<close>

definition rate_limit ::
  "'s redis \<Rightarrow> (string \<Rightarrow> string) \<Rightarrow> settings option \<Rightarrow> store_handle \<Rightarrow> fault \<Rightarrow> rat \<Rightarrow> string \<Rightarrow> 's \<Rightarrow>
   string res \<times> nat \<times> 's" where
  "rate_limit R sha_hex settings handle flt now api_key s =
     (if api_key = ANONYMOUS then (Inr api_key, 0, s)
      else
        (case settings of
           None \<Rightarrow> (Inl RateLimitUnavailable, 0, s)
         | Some cfg \<Rightarrow>
             let fail_open = rate_limit_fail_open cfg; limit = rate_limit_per_minute cfg;
                 bypass = (Inr api_key, 1, s)
             in if limit \<le> 0 then (Inr api_key, 0, s)
                else if handle \<noteq> Client then
                  (if fail_open then bypass else (Inl RateLimitUnavailable, 0, s))
                else
                  (case net flt (RATE_LIMIT_SCRIPT R (rate_bucket sha_hex cfg api_key now) 60) s of
                     (Inr n_req, s1) \<Rightarrow>
                       (if n_req > limit then (Inl (HTTPException 429), 0, s1) else (Inr api_key, 0, s1))
                   | (Inl e, s1) \<Rightarrow>
                       if is_os_error e \<or> e = RedisError then
                         (if fail_open then (Inr api_key, 1, s1) else (Inl RateLimitUnavailable, 1, s1))
                       else (Inl e, 0, s1))))"

text \<open>A run of requests of one key in one minute; the list says which were let through.\<close>

fun rate_limit_run ::
  "'s redis \<Rightarrow> (string \<Rightarrow> string) \<Rightarrow> settings \<Rightarrow> rat list \<Rightarrow> string \<Rightarrow> 's \<Rightarrow> bool list" where
  "rate_limit_run R sha cfg [] api_key s = []"
| "rate_limit_run R sha cfg (now # clock) api_key s =
     (let (r, n, s1) = rate_limit R sha (Some cfg) Client None now api_key s
      in (r = Inr api_key) # rate_limit_run R sha cfg clock api_key s1)"

definition require_api_key_and_rate_limit ::
  "'s redis \<Rightarrow> (string \<Rightarrow> string) \<Rightarrow> settings option \<Rightarrow> store_handle \<Rightarrow> fault \<Rightarrow> rat \<Rightarrow> string option \<Rightarrow> 's \<Rightarrow>
   string res \<times> nat \<times> 's" where
  "require_api_key_and_rate_limit R sha_hex settings handle flt now x_api_key s =
     (case require_api_key settings x_api_key of
        Inl e \<Rightarrow> (Inl e, 0, s)
      | Inr api_key \<Rightarrow>
          (case rate_limit R sha_hex settings handle flt now api_key s of
             (Inl e, n, s') \<Rightarrow> (Inl e, n, s')
           | (Inr k, n, s') \<Rightarrow> (Inr api_key, n, s')))"

context redis_laws
begin

lemma rate_script:
  assumes "counter_key s k"
  shows "fst (RATE_LIMIT_SCRIPT R k 60 s) = counter s k + 1"
    "counter_key (snd (RATE_LIMIT_SCRIPT R k 60 s)) k"
    "counter (snd (RATE_LIMIT_SCRIPT R k 60 s)) k = counter s k + 1"
proof -
  let ?s1 = "snd (r_incr R k 1 s)"
  note i = incr_counter [OF assms, of 1] and e = expire_any [of 60 k ?s1, simplified]
  have snd: "snd (RATE_LIMIT_SCRIPT R k 60 s) = (if counter s k + 1 = 1 then r_expire R k 60 ?s1 else ?s1)"
    using i(1) by (simp add: RATE_LIMIT_SCRIPT_def case_prod_beta Let_def)
  show "fst (RATE_LIMIT_SCRIPT R k 60 s) = counter s k + 1"
    using i(1) by (simp add: RATE_LIMIT_SCRIPT_def case_prod_beta Let_def)
  show "counter_key (snd (RATE_LIMIT_SCRIPT R k 60 s)) k"
    "counter (snd (RATE_LIMIT_SCRIPT R k 60 s)) k = counter s k + 1"
    using assms i e by (simp_all add: snd counter_key_def str_key_def counter_def)
qed

lemma rate_limit_run_counts:
  assumes "0 < rate_limit_per_minute cfg" "api_key \<noteq> ANONYMOUS"
    "\<forall>now \<in> set clock. rate_bucket sha cfg api_key now = k" "counter_key s k"
  shows "rate_limit_run R sha cfg clock api_key s =
    map (\<lambda>i. counter s k + int i + 1 \<le> rate_limit_per_minute cfg) [0..<length clock]"
  using assms(3,4)
proof (induction clock arbitrary: s)
  case (Cons now clock)
  let ?p = "RATE_LIMIT_SCRIPT R k 60 s"
  note rs = rate_script [OF Cons.prems(2)]
  have k: "rate_bucket sha cfg api_key now = k" using Cons.prems(1) by simp
  have rl: "rate_limit R sha (Some cfg) Client None now api_key s =
      (if fst ?p > rate_limit_per_minute cfg then (Inl (HTTPException 429), 0, snd ?p)
       else (Inr api_key, 0, snd ?p))"
    using assms(1,2) by (simp add: rate_limit_def k Let_def)
  have IH: "rate_limit_run R sha cfg clock api_key (snd ?p) =
      map (\<lambda>i. counter (snd ?p) k + int i + 1 \<le> rate_limit_per_minute cfg) [0..<length clock]"
    using Cons.prems(1) rs(2) by (intro Cons.IH) simp_all
  have "[0..<length (now # clock)] = 0 # map Suc [0..<length clock]"
    by (simp add: upt_conv_Cons map_Suc_upt del: upt_Suc)
  then show ?case by (simp add: rl IH rs add_ac not_less del: upt_Suc)
qed simp

end

text \<open>
  C22. The window is exact: when the counter of the minute starts out absent, of any number
  of requests of one key in that minute the first \<open>limit\<close> are let through and all later
  ones are refused, on every server that keeps the documented behaviour.
\<close>

theorem rate_limit_window:
  assumes "redis_laws R kv hash zset rlist"
    and "0 < rate_limit_per_minute cfg" "api_key \<noteq> ANONYMOUS"
    and "list_all (\<lambda>now. minute_bucket now = m) clock" "k = rate_bucket sha cfg api_key (of_int m * 60)"
    and "kv s k = None" "hash s k = Map.empty" "zset s k = Map.empty" "rlist s k = []"
  shows "rate_limit_run R sha cfg clock api_key s =
    map (\<lambda>i. int i < rate_limit_per_minute cfg) [0..<length clock]"
proof -
  have "\<forall>now \<in> set clock. rate_bucket sha cfg api_key now = k"
    using assms(4,5) by (simp add: list_all_iff rate_bucket_def minute_bucket_def)
  moreover have zero: "redis_laws.counter_key kv hash zset rlist s k" "redis_laws.counter kv s k = 0"
    unfolding redis_laws.counter_key_def [OF assms(1)] redis_laws.str_key_def [OF assms(1)]
      redis_laws.counter_def [OF assms(1)]
    by (simp_all add: assms(6-9))
  ultimately have "rate_limit_run R sha cfg clock api_key s =
      map (\<lambda>i. redis_laws.counter kv s k + int i + 1 \<le> rate_limit_per_minute cfg) [0..<length clock]"
    using assms(1-3) by (intro redis_laws.rate_limit_run_counts)
  with zero(2) show ?thesis by (simp add: add1_zle_eq)
qed

theorem rate_limit_window_witness:
  "rate_limit_run list_redis (\<lambda>k. k) demo_settings [61, 62, 119] ''k1'' [] =
    map (\<lambda>i. int i < rate_limit_per_minute demo_settings) [0..<length [61, 62, 119 :: rat]]"
  by (rule rate_limit_window [OF list_store.redis_laws_axioms, where m = 1, OF _ _ _ refl])
    (simp_all add: demo_settings_def ANONYMOUS_def minute_bucket_def floor_eq_iff st_kv_def st_hash_def
      st_zset_def st_list_def st_fields_def st_members_def)

text \<open>
  The limiter fails closed: for an authenticated key and a positive limit, without
  fail-open, a missing store, a lost client or a failing call never lets the request
  through; and the retry time of a refused request lies between 1 and 60 seconds.
\<close>

theorem rate_limit_fails_closed:
  assumes "api_key \<noteq> ANONYMOUS" "0 < rate_limit_per_minute cfg" "\<not> rate_limit_fail_open cfg"
    and "handle \<noteq> Client \<or> flt \<noteq> None"
  shows "\<exists>e n s'. rate_limit R sha (Some cfg) handle flt now api_key s = (Inl e, n, s')
    \<and> 1 \<le> fst (rate_limit_headers now (rate_limit_per_minute cfg))
    \<and> fst (rate_limit_headers now (rate_limit_per_minute cfg)) \<le> 60"
proof -
  have "fst (rate_limit_headers now (rate_limit_per_minute cfg)) \<le> 60"
    using div_mult_mod_eq [of "\<lfloor>now\<rfloor>" 60] pos_mod_sign [of 60 "\<lfloor>now\<rfloor>"]
    by (auto simp: rate_limit_headers_def Let_def max_def algebra_simps)
  moreover have "1 \<le> fst (rate_limit_headers now (rate_limit_per_minute cfg))"
    by (simp add: rate_limit_headers_def Let_def)
  moreover have "\<exists>e n s'. rate_limit R sha (Some cfg) handle flt now api_key s = (Inl e, n, s')"
    using assms by (cases flt) (auto simp: rate_limit_def Let_def net_def)
  ultimately show ?thesis by blast
qed

theorem rate_limit_fails_closed_witness:
  "\<exists>e n s'. rate_limit list_redis id (Some demo_settings) No_client None 61 ''k1'' [] = (Inl e, n, s')"
  using rate_limit_fails_closed [of "''k1''" demo_settings No_client None list_redis id 61 "[]"]
  by (auto simp: demo_settings_def ANONYMOUS_def)

text \<open>A configured key that reads \<open>anonymous\<close>, which \<open>verify\<close> does not refuse, is never limited.\<close>

lemma anonymous_key_unlimited:
  "rate_limit R sha cfg handle flt now ANONYMOUS s = (Inr ANONYMOUS, 0, s)"
  by (simp add: rate_limit_def)

end
