(* ===== verification/JobStore.thy ===== *)
theory JobStore
  imports Access
begin

text \<open>
  \<open>app/jobs/store.py\<close>: the job records, the four Lua scripts command by command over the
  Redis interface, and the methods of \<open>JobStore\<close>. Every client call takes the fault of
  that call as an argument. Keys do not expire during a run.
\<close>

section \<open>Records, keys and scripts\<close>

record job_record =
  jr_id :: string
  jr_status :: string
  jr_result :: "json option"
  jr_error :: "string option"
  jr_owner :: string

text \<open>
  The store: whether \<open>client\<close> is set, the namespace, the time to live, the bound of the
  dead-letter list, SHA-256 in hexadecimal and the text of a stored number or document.
\<close>

record job_store =
  js_client :: bool
  js_namespace :: string
  js_ttl :: int
  js_dead_letter_max :: int
  js_sha :: "string \<Rightarrow> string"
  js_text :: "rv \<Rightarrow> string"

definition JOB_SCHEMA_VERSION :: rv where
  "JOB_SCHEMA_VERSION = VInt 1"

definition job_key :: "string \<Rightarrow> string \<Rightarrow> string" where
  "job_key ns jid = ns @ '':job:'' @ jid"

definition owner_token :: "(string \<Rightarrow> string) \<Rightarrow> string \<Rightarrow> string" where
  "owner_token sha owner = take 32 (sha owner)"

definition COUNT_KEY_TEMPLATE :: "string \<Rightarrow> string \<Rightarrow> string" where
  "COUNT_KEY_TEMPLATE ns owner = ns @ '':jobs:'' @ owner"

definition count_key :: "job_store \<Rightarrow> string \<Rightarrow> string" where
  "count_key st owner = COUNT_KEY_TEMPLATE (js_namespace st) (owner_token (js_sha st) owner)"

definition total_count_key :: "string \<Rightarrow> string" where
  "total_count_key ns = ns @ '':jobs:inflight''"

definition queue_index_key :: "string \<Rightarrow> string" where
  "queue_index_key ns = ns @ '':jobs:created''"

definition dead_letter_key :: "string \<Rightarrow> string" where
  "dead_letter_key ns = ns @ '':jobs:dead-letter''"

definition worker_key :: "string \<Rightarrow> string \<Rightarrow> string" where
  "worker_key ns w = ns @ '':worker:'' @ w"

text \<open>
  The scripts; the arguments are the keys and the values in the order of \<open>KEYS\<close> and
  \<open>ARGV\<close>. A counter key holds an integer or nothing, since only \<open>INCR\<close> and \<open>DECR\<close> write it.
\<close>

type_synonym rkey = string

definition ADMIT_SCRIPT ::
  "'s redis \<Rightarrow> rkey \<Rightarrow> rkey \<Rightarrow> rkey \<Rightarrow> rkey \<Rightarrow> string \<Rightarrow> string \<Rightarrow> string \<Rightarrow> string \<Rightarrow> string \<Rightarrow>
   int \<Rightarrow> int \<Rightarrow> int \<Rightarrow> rat \<Rightarrow> rv \<Rightarrow> 's \<Rightarrow> int \<times> 's" where
  "ADMIT_SCRIPT R k1 k2 k3 k4 jid status res err own ttl total_limit key_limit now ver s =
     (let total = num_or 0 (r_get R k3 s); owner = num_or 0 (r_get R k2 s)
      in if total \<ge> of_int total_limit then (0, s)
         else if own \<noteq> [] \<and> owner \<ge> of_int key_limit then (0, s)
         else
           let s1 = r_hset R k1 [(''id'', VStr jid), (''status'', VStr status), (''result'', VStr res),
                     (''error'', VStr err), (''owner'', VStr own), (''updated_at'', VNum now)] s;
               s2 = r_hset R k1 [(''schema_version'', ver)] s1;
               s3 = r_zadd R k4 jid now s2;
               s4 = r_expire R k1 ttl s3;
               s5 = r_expire R k4 ttl s4;
               s6 = snd (r_incr R k3 1 s5);
               s7 = r_expire R k3 ttl s6
           in (1, if own \<noteq> [] then r_expire R k2 ttl (snd (r_incr R k2 1 s7)) else s7))"

text \<open>The release of one slot, which the two terminal scripts contain twice each.\<close>

definition release_slot :: "'s redis \<Rightarrow> string \<Rightarrow> 's \<Rightarrow> 's" where
  "release_slot R k s =
     (if num_or 0 (r_get R k s) \<le> 1 then r_del R k s else snd (r_incr R k (- 1) s))"

definition TERMINAL_SCRIPT ::
  "'s redis \<Rightarrow> rkey \<Rightarrow> rkey \<Rightarrow> rkey \<Rightarrow> rkey \<Rightarrow> string \<Rightarrow> rv \<Rightarrow> string \<Rightarrow> int \<Rightarrow> rat \<Rightarrow> rv \<Rightarrow> rv \<Rightarrow>
   string \<Rightarrow> 's \<Rightarrow> int \<times> 's" where
  "TERMINAL_SCRIPT R k1 k2 k3 k4 status res err ttl now ver expected jid s =
     (let st = r_hget R k1 ''status'' s
      in if st \<noteq> Some (VStr ''queued'') \<and> st \<noteq> Some (VStr ''running'') then (0, s)
         else if r_hget R k1 ''schema_version'' s \<noteq> Some expected then (0, s)
         else
           let s1 = r_hset R k1 [(''status'', VStr status), (''result'', res), (''error'', VStr err),
                     (''updated_at'', VNum now), (''schema_version'', ver)] s;
               s2 = r_expire R k1 ttl s1;
               s3 = r_zrem R k4 jid s2;
               owner = r_hget R k1 ''owner'' s3;
               s4 = (if owner \<noteq> None \<and> owner \<noteq> Some (VStr []) then release_slot R k2 s3 else s3)
           in (1, release_slot R k3 s4))"

definition CLAIM_SCRIPT :: "'s redis \<Rightarrow> string \<Rightarrow> int \<Rightarrow> rat \<Rightarrow> rv \<Rightarrow> 's \<Rightarrow> int \<times> 's" where
  "CLAIM_SCRIPT R k1 ttl now ver s =
     (if r_hget R k1 ''status'' s \<noteq> Some (VStr ''queued'') then (0, s)
      else if r_hget R k1 ''schema_version'' s \<noteq> Some ver then (0, s)
      else (1, r_expire R k1 ttl
             (r_hset R k1 [(''status'', VStr ''running''), (''updated_at'', VNum now),
               (''schema_version'', ver)] s)))"

definition CANCEL_SCRIPT ::
  "'s redis \<Rightarrow> rkey \<Rightarrow> rkey \<Rightarrow> rkey \<Rightarrow> rkey \<Rightarrow> string \<Rightarrow> rat \<Rightarrow> int \<Rightarrow> string \<Rightarrow> rv \<Rightarrow> 's \<Rightarrow> int \<times> 's" where
  "CANCEL_SCRIPT R k1 k2 k3 k4 err now ttl jid ver s =
     (if r_hget R k1 ''status'' s \<noteq> Some (VStr ''queued'') then (0, s)
      else if r_hget R k1 ''schema_version'' s \<noteq> Some ver then (0, s)
      else
        let s1 = r_hset R k1 [(''status'', VStr ''cancelled''), (''error'', VStr err),
                  (''updated_at'', VNum now), (''schema_version'', ver)] s;
            s2 = r_expire R k1 ttl s1;
            s3 = r_zrem R k4 jid s2;
            s4 = release_slot R k2 s3
        in (1, release_slot R k3 s4))"

section \<open>The methods\<close>

definition with_client :: "job_store \<Rightarrow> ('s \<Rightarrow> 'a res \<times> 's) \<Rightarrow> 's \<Rightarrow> 'a res \<times> 's" where
  "with_client st m s = (if js_client st then m s else (Inl RuntimeError, s))"

text \<open>\<open>x or ""\<close> on the text of a field.\<close>

definition text_or_empty :: "job_store \<Rightarrow> rv option \<Rightarrow> string" where
  "text_or_empty st v = (case v of None \<Rightarrow> [] | Some (VStr x) \<Rightarrow> x | Some w \<Rightarrow> js_text st w)"

definition set_record :: "'s redis \<Rightarrow> job_store \<Rightarrow> fault \<Rightarrow> fault \<Rightarrow> rat \<Rightarrow> job_record \<Rightarrow> 's \<Rightarrow> unit res \<times> 's" where
  "set_record R st f1 f2 now rec = with_client st
     (let k = job_key (js_namespace st) (jr_id rec);
          result_value = (case jr_result rec of None \<Rightarrow> VStr [] | Some j \<Rightarrow> VJson j)
      in sbind (net f1 (write_only (r_hset R k
           [(''id'', VStr (jr_id rec)), (''status'', VStr (jr_status rec)), (''result'', result_value),
            (''error'', VStr (case jr_error rec of None \<Rightarrow> [] | Some e \<Rightarrow> e)), (''owner'', VStr (jr_owner rec)),
            (''updated_at'', VNum now), (''schema_version'', JOB_SCHEMA_VERSION)])))
         (\<lambda>_. net f2 (write_only (r_expire R k (js_ttl st)))))"

text \<open>\<open>create\<close> mints the identifier, an argument here; its calls are not one script.\<close>

definition create :: "'s redis \<Rightarrow> job_store \<Rightarrow> string \<Rightarrow> rat \<Rightarrow> string \<Rightarrow> 's \<Rightarrow> job_record res \<times> 's" where
  "create R st jid now owner = with_client st
     (let rec = \<lparr>jr_id = jid, jr_status = ''queued'', jr_result = None, jr_error = None,
            jr_owner = (if owner \<noteq> [] then owner_token (js_sha st) owner else [])\<rparr>;
          idx = queue_index_key (js_namespace st); tot = total_count_key (js_namespace st)
      in sbind (set_record R st None None now rec) (\<lambda>_ s.
         let s1 = r_expire R idx (js_ttl st) (r_zadd R idx jid now s);
             s2 = (if owner \<noteq> [] then r_expire R (count_key st owner) (js_ttl st)
                     (snd (r_incr R (count_key st owner) 1 s1)) else s1);
             s3 = r_expire R tot (js_ttl st) (snd (r_incr R tot 1 s2))
         in (Inr rec, s3)))"

definition create_admitted ::
  "'s redis \<Rightarrow> job_store \<Rightarrow> fault \<Rightarrow> string \<Rightarrow> rat \<Rightarrow> string \<Rightarrow> int \<Rightarrow> int \<Rightarrow> 's \<Rightarrow> job_record option res \<times> 's" where
  "create_admitted R st flt jid now owner total_limit key_limit = with_client st
     (let token = (if owner \<noteq> [] then owner_token (js_sha st) owner else []);
          ns = js_namespace st
      in sbind (net flt (ADMIT_SCRIPT R (job_key ns jid) (count_key st owner) (total_count_key ns)
           (queue_index_key ns) jid ''queued'' [] [] token (js_ttl st) total_limit key_limit now
           JOB_SCHEMA_VERSION))
         (\<lambda>r. sreturn (if r \<noteq> 1 then None
           else Some \<lparr>jr_id = jid, jr_status = ''queued'', jr_result = None, jr_error = None, jr_owner = token\<rparr>)))"

definition claim :: "'s redis \<Rightarrow> job_store \<Rightarrow> fault \<Rightarrow> rat \<Rightarrow> string \<Rightarrow> 's \<Rightarrow> bool res \<times> 's" where
  "claim R st flt now jid = with_client st
     (sbind (net flt (CLAIM_SCRIPT R (job_key (js_namespace st) jid) (js_ttl st) now JOB_SCHEMA_VERSION))
       (\<lambda>r. sreturn (r \<noteq> 0)))"

definition cancel :: "'s redis \<Rightarrow> job_store \<Rightarrow> fault \<Rightarrow> fault \<Rightarrow> rat \<Rightarrow> string \<Rightarrow> 's \<Rightarrow> bool res \<times> 's" where
  "cancel R st f1 f2 now jid = with_client st
     (let ns = js_namespace st; k = job_key ns jid
      in sbind (net f1 (read_only (r_hget R k ''owner''))) (\<lambda>owner.
         sbind (net f2 (CANCEL_SCRIPT R k (COUNT_KEY_TEMPLATE ns (text_or_empty st owner)) (total_count_key ns)
           (queue_index_key ns) ''job cancelled'' now (js_ttl st) jid JOB_SCHEMA_VERSION))
         (\<lambda>r. sreturn (r \<noteq> 0))))"

text \<open>\<open>job_key.rsplit(":", 1)[-1]\<close>\<close>

definition rsplit_colon :: "string \<Rightarrow> string" where
  "rsplit_colon k = rev (takeWhile (\<lambda>c. c \<noteq> CHR '':'') (rev k))"

definition set_terminal ::
  "'s redis \<Rightarrow> job_store \<Rightarrow> fault \<Rightarrow> fault \<Rightarrow> rat \<Rightarrow> string \<Rightarrow> string \<Rightarrow> rv \<Rightarrow> string \<Rightarrow> 's \<Rightarrow> bool res \<times> 's" where
  "set_terminal R st f1 f2 now k status res err =
     (let ns = js_namespace st
      in sbind (net f1 (read_only (r_hget R k ''owner''))) (\<lambda>owner.
         sbind (net f2 (TERMINAL_SCRIPT R k (COUNT_KEY_TEMPLATE ns (text_or_empty st owner)) (total_count_key ns)
           (queue_index_key ns) status res err (js_ttl st) now JOB_SCHEMA_VERSION JOB_SCHEMA_VERSION
           (rsplit_colon k)))
         (\<lambda>r. sreturn (r \<noteq> 0))))"

definition set_result :: "'s redis \<Rightarrow> job_store \<Rightarrow> fault \<Rightarrow> fault \<Rightarrow> rat \<Rightarrow> string \<Rightarrow> json \<Rightarrow> 's \<Rightarrow> bool res \<times> 's" where
  "set_result R st f1 f2 now jid result = with_client st
     (set_terminal R st f1 f2 now (job_key (js_namespace st) jid) ''done'' (VJson result) [])"

definition set_error :: "'s redis \<Rightarrow> job_store \<Rightarrow> fault \<Rightarrow> fault \<Rightarrow> rat \<Rightarrow> string \<Rightarrow> string \<Rightarrow> 's \<Rightarrow> bool res \<times> 's" where
  "set_error R st f1 f2 now jid err = with_client st
     (set_terminal R st f1 f2 now (job_key (js_namespace st) jid) ''failed'' (VStr []) err)"

definition set_status :: "'s redis \<Rightarrow> job_store \<Rightarrow> rat \<Rightarrow> string \<Rightarrow> string \<Rightarrow> 's \<Rightarrow> unit res \<times> 's" where
  "set_status R st now jid status = with_client st (\<lambda>s.
     let k = job_key (js_namespace st) jid
     in if r_hget R k ''schema_version'' s \<noteq> Some JOB_SCHEMA_VERSION then (Inl RuntimeError, s)
        else (Inr (), r_expire R k (js_ttl st)
               (r_hset R k [(''status'', VStr status), (''updated_at'', VNum now),
                 (''schema_version'', JOB_SCHEMA_VERSION)] s)))"

text \<open>\<open>get\<close>, with \<open>raw[k]\<close> raising \<open>KeyError\<close> and an empty text read as \<open>None\<close>.\<close>

definition field_text :: "job_store \<Rightarrow> (string \<times> rv) list \<Rightarrow> string \<Rightarrow> string res" where
  "field_text st raw k = (case map_of raw k of None \<Rightarrow> Inl KeyError | v \<Rightarrow> Inr (text_or_empty st v))"

definition get_job :: "'s redis \<Rightarrow> job_store \<Rightarrow> fault \<Rightarrow> string \<Rightarrow> 's \<Rightarrow> job_record option res \<times> 's" where
  "get_job R st flt jid = with_client st
     (sbind (net flt (read_only (r_hgetall R (job_key (js_namespace st) jid)))) (\<lambda>raw s.
       (if raw = [] then Inr None
        else if map_of raw ''schema_version'' \<noteq> Some JOB_SCHEMA_VERSION then Inr None
        else
          bind_res (field_text st raw ''id'') (\<lambda>i.
          bind_res (field_text st raw ''status'') (\<lambda>status.
          bind_res (case map_of raw ''result'' of None \<Rightarrow> Inr None | Some (VStr []) \<Rightarrow> Inr None
                    | Some v \<Rightarrow> map_res Some (json_loads v)) (\<lambda>result.
          let err = text_or_empty st (map_of raw ''error'')
          in Inr (Some \<lparr>jr_id = i, jr_status = status, jr_result = result,
               jr_error = (if err = [] then None else Some err),
               jr_owner = text_or_empty st (map_of raw ''owner'')\<rparr>)))), s)))"

definition counter_value :: "rv option \<Rightarrow> int res" where
  "counter_value raw = (case raw of None \<Rightarrow> Inr 0 | Some v \<Rightarrow> rv_int v)"

definition count_for_key :: "'s redis \<Rightarrow> job_store \<Rightarrow> fault \<Rightarrow> string \<Rightarrow> 's \<Rightarrow> int res \<times> 's" where
  "count_for_key R st flt owner = with_client st
     (sbind (net flt (read_only (r_get R (count_key st owner)))) (\<lambda>raw s. (counter_value raw, s)))"

definition count_inflight :: "'s redis \<Rightarrow> job_store \<Rightarrow> fault \<Rightarrow> 's \<Rightarrow> int res \<times> 's" where
  "count_inflight R st flt = with_client st
     (sbind (net flt (read_only (r_get R (total_count_key (js_namespace st))))) (\<lambda>raw s. (counter_value raw, s)))"

text \<open>\<open>oldest_job_age_seconds\<close>: at most sixteen stale index entries are dropped on the way.\<close>

fun oldest_job_loop :: "'s redis \<Rightarrow> string \<Rightarrow> rat \<Rightarrow> nat \<Rightarrow> 's \<Rightarrow> rat \<times> 's" where
  "oldest_job_loop R ns now 0 s = (0, s)"
| "oldest_job_loop R ns now (Suc n) s =
     (case r_zfirst R (queue_index_key ns) s of
        None \<Rightarrow> (0, s)
      | Some (jid, created_at) \<Rightarrow>
          if r_exists R (job_key ns jid) s then (max 0 (now - created_at), s)
          else oldest_job_loop R ns now n (r_zrem R (queue_index_key ns) jid s))"

definition oldest_job_age_seconds :: "'s redis \<Rightarrow> job_store \<Rightarrow> rat \<Rightarrow> 's \<Rightarrow> rat res \<times> 's" where
  "oldest_job_age_seconds R st now = with_client st (\<lambda>s.
     (let (age, s1) = oldest_job_loop R (js_namespace st) now 16 s in (Inr age, s1)))"

text \<open>\<open>reap_stale_jobs\<close>: an unreadable time counts as zero; \<open>set_error\<close> checks the status again.\<close>

definition reap_due :: "rat \<Rightarrow> (string \<times> rv) list \<Rightarrow> bool" where
  "reap_due cutoff raw \<longleftrightarrow>
     map_of raw ''schema_version'' = Some JOB_SCHEMA_VERSION
     \<and> (map_of raw ''status'' = Some (VStr ''queued'') \<or> map_of raw ''status'' = Some (VStr ''running''))
     \<and> num_or 0 (map_of raw ''updated_at'') \<le> cutoff"

fun reap_keys :: "'s redis \<Rightarrow> job_store \<Rightarrow> rat \<Rightarrow> rat \<Rightarrow> string list \<Rightarrow> nat \<Rightarrow> 's \<Rightarrow> nat res \<times> 's" where
  "reap_keys R st now cutoff [] reaped s = (Inr reaped, s)"
| "reap_keys R st now cutoff (k # ks) reaped s =
     (let raw = r_hgetall R k s
      in if \<not> reap_due cutoff raw then reap_keys R st now cutoff ks reaped s
         else
           (case field_text st raw ''id'' of
              Inl e \<Rightarrow> (Inl e, s)
            | Inr jid \<Rightarrow>
                (case set_error R st None None now jid ''job lease expired'' s of
                   (Inl e, s1) \<Rightarrow> (Inl e, s1)
                 | (Inr ok, s1) \<Rightarrow> reap_keys R st now cutoff ks (if ok then Suc reaped else reaped) s1)))"

definition reap_stale_jobs :: "'s redis \<Rightarrow> job_store \<Rightarrow> rat \<Rightarrow> rat \<Rightarrow> 's \<Rightarrow> nat res \<times> 's" where
  "reap_stale_jobs R st now max_age_seconds = with_client st (\<lambda>s.
     reap_keys R st now (now - max_age_seconds) (r_scan R (job_key (js_namespace st) []) s) 0 s)"

definition record_dead_letter ::
  "'s redis \<Rightarrow> job_store \<Rightarrow> fault \<Rightarrow> fault \<Rightarrow> fault \<Rightarrow> rat \<Rightarrow> string \<Rightarrow> string \<Rightarrow> int \<Rightarrow> 's \<Rightarrow> unit res \<times> 's" where
  "record_dead_letter R st f1 f2 f3 now jid err attempts = with_client st
     (let k = dead_letter_key (js_namespace st);
          event = JDict [(JStr ''schema_version'', JInt 1), (JStr ''job_id'', JStr jid), (JStr ''error'', JStr err),
                         (JStr ''attempts'', JInt attempts), (JStr ''recorded_at'', JFloat now)]
      in sbind (net f1 (write_only (r_rpush R k (VJson event)))) (\<lambda>_.
         sbind (net f2 (write_only (r_ltrim_last R k (js_dead_letter_max st)))) (\<lambda>_.
         net f3 (write_only (r_expire R k (js_ttl st))))))"

section \<open>Workers and the old release helpers\<close>

definition worker_heartbeat ::
  "'s redis \<Rightarrow> job_store \<Rightarrow> fault \<Rightarrow> fault \<Rightarrow> rat \<Rightarrow> string \<Rightarrow> int \<Rightarrow> int \<Rightarrow> 's \<Rightarrow> unit res \<times> 's" where
  "worker_heartbeat R st f1 f2 now w active_jobs max_jobs = with_client st
     (let k = worker_key (js_namespace st) w
      in sbind (net f1 (write_only (r_hset R k [(''active_jobs'', VInt (max 0 active_jobs)),
           (''max_jobs'', VInt (max 1 max_jobs)), (''updated_at'', VNum now)])))
         (\<lambda>_. net f2 (write_only (r_expire R k 15))))"

definition worker_stop :: "'s redis \<Rightarrow> job_store \<Rightarrow> string \<Rightarrow> 's \<Rightarrow> 's" where
  "worker_stop R st w s = (if js_client st then r_del R (worker_key (js_namespace st) w) s else s)"

definition active_worker_count :: "'s redis \<Rightarrow> job_store \<Rightarrow> 's \<Rightarrow> nat res \<times> 's" where
  "active_worker_count R st = with_client st (\<lambda>s.
     (Inr (length (r_scan R (worker_key (js_namespace st) []) s)), s))"

text \<open>One heartbeat may count its active jobs before its \<open>max_jobs\<close> turns out unreadable.\<close>

definition add_capacity :: "(string \<times> rv) list \<Rightarrow> int \<times> int \<Rightarrow> int \<times> int" where
  "add_capacity heartbeat totals =
     (case (counter_value (map_of heartbeat ''active_jobs''), counter_value (map_of heartbeat ''max_jobs'')) of
        (Inl _, _) \<Rightarrow> totals
      | (Inr a, Inl _) \<Rightarrow> (fst totals + max 0 a, snd totals)
      | (Inr a, Inr m) \<Rightarrow> (fst totals + max 0 a, snd totals + max 0 m))"

definition worker_capacity :: "'s redis \<Rightarrow> job_store \<Rightarrow> 's \<Rightarrow> (int \<times> int) res \<times> 's" where
  "worker_capacity R st = with_client st (\<lambda>s.
     (Inr (foldl (\<lambda>tot k. add_capacity (r_hgetall R k s) tot) (0, 0) (r_scan R (worker_key (js_namespace st) []) s)), s))"

text \<open>\<open>release_total_count\<close> and \<open>release_owner_count\<close>, from before the scripts.\<close>

definition release_total_count :: "'s redis \<Rightarrow> string \<Rightarrow> 's \<Rightarrow> unit res \<times> 's" where
  "release_total_count R k s =
     (case r_get R k s of
        None \<Rightarrow> (Inr (), s)
      | Some raw \<Rightarrow>
          (case rv_int raw of
             Inl e \<Rightarrow> (Inl e, s)
           | Inr i \<Rightarrow> (Inr (), if i \<le> 1 then r_del R k s else snd (r_incr R k (- 1) s))))"

definition release_owner_count :: "'s redis \<Rightarrow> job_store \<Rightarrow> string \<Rightarrow> 's \<Rightarrow> unit res \<times> 's" where
  "release_owner_count R st k s =
     (let owner = text_or_empty st (r_hget R k ''owner'' s)
      in if owner = [] then (Inr (), s)
         else release_total_count R (COUNT_KEY_TEMPLATE (js_namespace st) owner) s)"

end
