(* ===== verification/JobAccounting.thy ===== *)
theory JobAccounting
  imports JobStore
begin

text \<open>
  The accounting of the job store: the shared counter, the per-owner counters and the index
  of a namespace always agree with the jobs that are queued or running, admission respects
  both limits, and a terminal record is immutable. The proofs go through the four views of
  the Redis interface: each script is followed command by command, and one lemma about the
  release of slots serves both terminal scripts.
\<close>

section \<open>Key names\<close>

definition is_token :: "string \<Rightarrow> bool" where
  "is_token t \<longleftrightarrow> t = [] \<or> length t = 32"

lemma key_neq [simp]:
  "job_key ns i = job_key ns j \<longleftrightarrow> i = j"
  "COUNT_KEY_TEMPLATE ns a = COUNT_KEY_TEMPLATE ns b \<longleftrightarrow> a = b"
  "job_key ns i \<noteq> COUNT_KEY_TEMPLATE ns t" "COUNT_KEY_TEMPLATE ns t \<noteq> job_key ns i"
  "job_key ns i \<noteq> total_count_key ns" "total_count_key ns \<noteq> job_key ns i"
  "job_key ns i \<noteq> queue_index_key ns" "queue_index_key ns \<noteq> job_key ns i"
  "queue_index_key ns \<noteq> total_count_key ns" "total_count_key ns \<noteq> queue_index_key ns"
  by (simp_all add: job_key_def COUNT_KEY_TEMPLATE_def total_count_key_def queue_index_key_def)

lemma token_key_neq [simp]:
  assumes "is_token t"
  shows "COUNT_KEY_TEMPLATE ns t \<noteq> total_count_key ns" "total_count_key ns \<noteq> COUNT_KEY_TEMPLATE ns t"
    "COUNT_KEY_TEMPLATE ns t \<noteq> queue_index_key ns" "queue_index_key ns \<noteq> COUNT_KEY_TEMPLATE ns t"
  using assms by (auto simp: is_token_def COUNT_KEY_TEMPLATE_def total_count_key_def queue_index_key_def)

lemma dead_letter_key_neq [simp]:
  "dead_letter_key ns \<noteq> job_key ns jid" "dead_letter_key ns \<noteq> total_count_key ns"
  "dead_letter_key ns \<noteq> queue_index_key ns"
  by (simp_all add: job_key_def total_count_key_def queue_index_key_def dead_letter_key_def)

lemma dead_letter_key_neq_count [simp]:
  assumes "is_token t"
  shows "dead_letter_key ns \<noteq> COUNT_KEY_TEMPLATE ns t"
  using assms by (auto simp: is_token_def COUNT_KEY_TEMPLATE_def dead_letter_key_def)

lemma rsplit_colon_job_key:
  assumes "CHR '':'' \<notin> set jid"
  shows "rsplit_colon (job_key ns jid) = jid"
proof -
  have "takeWhile (\<lambda>c. c \<noteq> CHR '':'') (rev jid @ CHR '':'' # rev (ns @ '':job'')) = rev jid"
    using assms by (subst takeWhile_append2) auto
  then show ?thesis by (simp add: rsplit_colon_def job_key_def)
qed

section \<open>Accounting\<close>

definition in_flight :: "('s \<Rightarrow> string \<Rightarrow> string \<Rightarrow> rv option) \<Rightarrow> string \<Rightarrow> 's \<Rightarrow> string set" where
  "in_flight hash ns s =
     {jid. hash s (job_key ns jid) ''status'' \<in> {Some (VStr ''queued''), Some (VStr ''running'')}}"

definition owned_by :: "('s \<Rightarrow> string \<Rightarrow> string \<Rightarrow> rv option) \<Rightarrow> string \<Rightarrow> 's \<Rightarrow> string \<Rightarrow> string set" where
  "owned_by hash ns s t = {jid \<in> in_flight hash ns s. hash s (job_key ns jid) ''owner'' = Some (VStr t)}"

definition slots :: "string set \<Rightarrow> rv option" where
  "slots A = (if A = {} then None else Some (VInt (int (card A))))"

definition job_keys_ok ::
  "('s \<Rightarrow> string \<Rightarrow> rv option) \<Rightarrow> ('s \<Rightarrow> string \<Rightarrow> string \<Rightarrow> rv option) \<Rightarrow>
   ('s \<Rightarrow> string \<Rightarrow> string \<Rightarrow> rat option) \<Rightarrow> ('s \<Rightarrow> string \<Rightarrow> rv list) \<Rightarrow> string \<Rightarrow> 's \<Rightarrow> bool" where
  "job_keys_ok kv hash zset rlist ns s \<longleftrightarrow>
     (\<forall>jid. kv s (job_key ns jid) = None \<and> zset s (job_key ns jid) = Map.empty \<and> rlist s (job_key ns jid) = [])
     \<and> (\<forall>k. k = total_count_key ns \<or> (\<exists>t. is_token t \<and> k = COUNT_KEY_TEMPLATE ns t) \<longrightarrow>
          hash s k = Map.empty \<and> zset s k = Map.empty \<and> rlist s k = [])
     \<and> kv s (queue_index_key ns) = None \<and> hash s (queue_index_key ns) = Map.empty
     \<and> rlist s (queue_index_key ns) = []"

definition job_counts_ok ::
  "('s \<Rightarrow> string \<Rightarrow> rv option) \<Rightarrow> ('s \<Rightarrow> string \<Rightarrow> string \<Rightarrow> rv option) \<Rightarrow>
   ('s \<Rightarrow> string \<Rightarrow> string \<Rightarrow> rat option) \<Rightarrow> string \<Rightarrow> 's \<Rightarrow> bool" where
  "job_counts_ok kv hash zset ns s \<longleftrightarrow>
     finite (in_flight hash ns s)
     \<and> kv s (total_count_key ns) = slots (in_flight hash ns s)
     \<and> (\<forall>t. is_token t \<longrightarrow> kv s (COUNT_KEY_TEMPLATE ns t) = (if t = [] then None else slots (owned_by hash ns s t)))
     \<and> dom (zset s (queue_index_key ns)) = in_flight hash ns s
     \<and> (\<forall>jid \<in> in_flight hash ns s. CHR '':'' \<notin> set jid
          \<and> hash s (job_key ns jid) ''schema_version'' = Some JOB_SCHEMA_VERSION
          \<and> (\<exists>t. is_token t \<and> hash s (job_key ns jid) ''owner'' = Some (VStr t)))"

definition job_inv ::
  "('s \<Rightarrow> string \<Rightarrow> rv option) \<Rightarrow> ('s \<Rightarrow> string \<Rightarrow> string \<Rightarrow> rv option) \<Rightarrow>
   ('s \<Rightarrow> string \<Rightarrow> string \<Rightarrow> rat option) \<Rightarrow> ('s \<Rightarrow> string \<Rightarrow> rv list) \<Rightarrow> string \<Rightarrow> 's \<Rightarrow> bool" where
  "job_inv kv hash zset rlist ns s \<longleftrightarrow>
     job_keys_ok kv hash zset rlist ns s \<and> job_counts_ok kv hash zset ns s"

lemma slots_insert: "finite A \<Longrightarrow> x \<notin> A \<Longrightarrow> slots (insert x A) = Some (VInt (int (card A) + 1))"
  by (simp add: slots_def)

lemma slots_card: "finite A \<Longrightarrow> x \<in> A \<Longrightarrow> slots A = Some (VInt (int (card A))) \<and> 0 < card A"
  by (auto simp: slots_def card_gt_0_iff)

lemma slots_remove:
  assumes "finite A" "x \<in> A"
  shows "slots (A - {x}) = (if card A \<le> 1 then None else Some (VInt (int (card A) - 1)))"
proof -
  have "card (A - {x}) = card A - 1" using assms by simp
  moreover have "A - {x} = {} \<longleftrightarrow> card A \<le> 1"
    using assms \<open>card (A - {x}) = card A - 1\<close> by (metis card_0_eq diff_is_0_eq finite_Diff)
  ultimately show ?thesis by (simp add: slots_def of_nat_diff)
qed

lemma in_flight_upd:
  assumes "hash s' = (hash s)(job_key ns jid := h)"
  shows "in_flight hash ns s' =
    (if h ''status'' \<in> {Some (VStr ''queued''), Some (VStr ''running'')}
     then insert jid (in_flight hash ns s) else in_flight hash ns s - {jid})"
  by (auto simp: in_flight_def assms)

lemma owned_by_upd:
  assumes "hash s' = (hash s)(job_key ns jid := h)"
  shows "owned_by hash ns s' t =
    (if h ''status'' \<in> {Some (VStr ''queued''), Some (VStr ''running'')} \<and> h ''owner'' = Some (VStr t)
     then insert jid (owned_by hash ns s t) else owned_by hash ns s t - {jid})"
  by (auto simp: owned_by_def in_flight_def assms)

context redis_laws
begin

abbreviation jobs_inv :: "string \<Rightarrow> 's \<Rightarrow> bool" where
  "jobs_inv ns s \<equiv> job_inv kv hash zset rlist ns s"

abbreviation flying :: "string \<Rightarrow> 's \<Rightarrow> string set" where
  "flying ns s \<equiv> in_flight hash ns s"

abbreviation owned :: "string \<Rightarrow> 's \<Rightarrow> string \<Rightarrow> string set" where
  "owned ns s t \<equiv> owned_by hash ns s t"

lemma counter_key_slots: "str_key s k \<Longrightarrow> kv s k = slots A \<Longrightarrow> counter_key s k \<and> counter s k = int (card A)"
  by (auto simp: counter_key_def counter_def slots_def)

lemma num_slots: "str_key s k \<Longrightarrow> kv s k = slots A \<Longrightarrow> num_or 0 (r_get R k s) = of_nat (card A)"
  using counter_key_slots [of s k A] num_or_counter [of s k] by simp

lemma incr_slots:
  assumes "str_key s k" "kv s k = slots A" "finite A" "x \<notin> A"
  shows "kv (snd (r_incr R k 1 s)) = (kv s)(k := slots (insert x A))" "hash (snd (r_incr R k 1 s)) = hash s"
    "zset (snd (r_incr R k 1 s)) = zset s" "rlist (snd (r_incr R k 1 s)) = rlist s"
  using counter_key_slots [OF assms(1,2)] incr_counter [of s k 1] assms(3,4) by (simp_all add: slots_insert)

lemma release_slot_views:
  assumes "str_key s k" "kv s k = slots A" "finite A" "x \<in> A"
  shows "kv (release_slot R k s) = (kv s)(k := slots (A - {x}))" "hash (release_slot R k s) = hash s"
    "zset (release_slot R k s) = zset s" "rlist (release_slot R k s) = rlist s"
proof -
  have le: "(of_nat (card A) :: rat) \<le> 1 \<longleftrightarrow> card A \<le> 1" by simp
  note c = counter_key_slots [OF assms(1,2)] and rel = slots_remove [OF assms(3,4)]
  show "kv (release_slot R k s) = (kv s)(k := slots (A - {x}))" "hash (release_slot R k s) = hash s"
    "zset (release_slot R k s) = zset s" "rlist (release_slot R k s) = rlist s"
    using c incr_counter [of s k "- 1"] del_str [OF assms(1)]
    by (simp_all add: release_slot_def num_slots [OF assms(1,2)] le rel)
qed

lemma release_slot_absent:
  assumes "str_key s k" "kv s k = None"
  shows "kv (release_slot R k s) = kv s" "hash (release_slot R k s) = hash s"
    "zset (release_slot R k s) = zset s" "rlist (release_slot R k s) = rlist s"
  using get_str [OF assms(1)] del_str [OF assms(1)] assms(2)
  by (auto simp: release_slot_def num_or_def fun_eq_iff)

lemma inv_keys:
  assumes "jobs_inv ns s"
  shows "hash_key s (job_key ns jid)" "str_key s (total_count_key ns)" "zset_key s (queue_index_key ns)"
    "is_token t \<Longrightarrow> str_key s (COUNT_KEY_TEMPLATE ns t)"
  using assms by (auto simp: job_inv_def job_keys_ok_def hash_key_def str_key_def zset_key_def)

text \<open>The keys stay well typed when the views change only at keys of the namespace, at their type.\<close>

lemma job_keys_okI:
  assumes "job_keys_ok kv hash zset rlist ns s"
    and "kv s' = (kv s)(total_count_key ns := a, COUNT_KEY_TEMPLATE ns t := b)" "is_token t"
    and "hash s' = (hash s)(job_key ns jid := h)"
    and "zset s' = (zset s)(queue_index_key ns := z)" "rlist s' = rlist s"
  shows "job_keys_ok kv hash zset rlist ns s'"
  unfolding job_keys_ok_def using assms(1)[unfolded job_keys_ok_def] assms(2-6)
  by (auto simp: fun_upd_def [symmetric])

end

section \<open>The scripts on the accounting\<close>

context redis_laws
begin

lemma inv_counts:
  assumes "jobs_inv ns s"
  shows "finite (flying ns s)" "kv s (total_count_key ns) = slots (flying ns s)"
    "is_token t \<Longrightarrow> kv s (COUNT_KEY_TEMPLATE ns t) = (if t = [] then None else slots (owned ns s t))"
    "dom (zset s (queue_index_key ns)) = flying ns s" "finite (owned ns s t)"
    "job_keys_ok kv hash zset rlist ns s"
  using assms by (auto simp: job_inv_def job_counts_ok_def owned_by_def)

lemma flying_facts:
  assumes "jobs_inv ns s" "jid \<in> flying ns s"
  shows "CHR '':'' \<notin> set jid" "hash s (job_key ns jid) ''schema_version'' = Some JOB_SCHEMA_VERSION"
    "\<exists>t. is_token t \<and> hash s (job_key ns jid) ''owner'' = Some (VStr t)"
  using assms by (auto simp: job_inv_def job_counts_ok_def)

lemma admit_full:
  assumes "jobs_inv ns s" "is_token t" "own \<noteq> [] \<Longrightarrow> t = own"
  shows "fst (ADMIT_SCRIPT R (job_key ns jid) (COUNT_KEY_TEMPLATE ns t) (total_count_key ns) (queue_index_key ns)
      jid st res err own ttl m n now ver s) =
      (if int (card (flying ns s)) \<ge> m \<or> own \<noteq> [] \<and> int (card (owned ns s own)) \<ge> n then 0 else 1)"
    "int (card (flying ns s)) \<ge> m \<or> own \<noteq> [] \<and> int (card (owned ns s own)) \<ge> n \<Longrightarrow>
      snd (ADMIT_SCRIPT R (job_key ns jid) (COUNT_KEY_TEMPLATE ns t) (total_count_key ns) (queue_index_key ns)
      jid st res err own ttl m n now ver s) = s"
proof -
  have tot: "num_or 0 (r_get R (total_count_key ns) s) = of_int (int (card (flying ns s)))"
    using num_slots [OF inv_keys(2) [OF assms(1)] inv_counts(2) [OF assms(1)]] by simp
  have own: "own \<noteq> [] \<Longrightarrow>
      num_or 0 (r_get R (COUNT_KEY_TEMPLATE ns t) s) = of_int (int (card (owned ns s own)))"
    using num_slots [OF inv_keys(4) [OF assms(1,2)], of "owned ns s own"] inv_counts(3) [OF assms(1,2)] assms(3)
    by simp
  show "fst (ADMIT_SCRIPT R (job_key ns jid) (COUNT_KEY_TEMPLATE ns t) (total_count_key ns) (queue_index_key ns)
      jid st res err own ttl m n now ver s) =
      (if int (card (flying ns s)) \<ge> m \<or> own \<noteq> [] \<and> int (card (owned ns s own)) \<ge> n then 0 else 1)"
    by (cases "own = []") (simp_all add: ADMIT_SCRIPT_def Let_def tot own del: of_int_of_nat_eq)
  show "int (card (flying ns s)) \<ge> m \<or> own \<noteq> [] \<and> int (card (owned ns s own)) \<ge> n \<Longrightarrow>
      snd (ADMIT_SCRIPT R (job_key ns jid) (COUNT_KEY_TEMPLATE ns t) (total_count_key ns) (queue_index_key ns)
      jid st res err own ttl m n now ver s) = s"
    by (cases "own = []") (auto simp: ADMIT_SCRIPT_def Let_def tot own simp del: of_int_of_nat_eq)
qed

lemma admit_views:
  fixes st res err :: string and now :: rat and ver :: rv
  assumes inv: "jobs_inv ns s" and t: "is_token t" "own \<noteq> [] \<Longrightarrow> t = own"
    and free: "int (card (flying ns s)) < m" "own \<noteq> [] \<Longrightarrow> int (card (owned ns s own)) < n"
    and new: "hash s (job_key ns jid) = Map.empty" and ttl: "0 < ttl"
  defines "s' \<equiv> snd (ADMIT_SCRIPT R (job_key ns jid) (COUNT_KEY_TEMPLATE ns t) (total_count_key ns)
      (queue_index_key ns) jid st res err own ttl m n now ver s)"
  shows "kv s' = (kv s)(total_count_key ns := slots (insert jid (flying ns s)),
       COUNT_KEY_TEMPLATE ns t := (if own = [] then kv s (COUNT_KEY_TEMPLATE ns t)
         else slots (insert jid (owned ns s own))))"
    and "hash s' = (hash s)(job_key ns jid := [''id'' \<mapsto> VStr jid, ''status'' \<mapsto> VStr st, ''result'' \<mapsto> VStr res,
       ''error'' \<mapsto> VStr err, ''owner'' \<mapsto> VStr own, ''updated_at'' \<mapsto> VNum now, ''schema_version'' \<mapsto> ver])"
    and "zset s' = (zset s)(queue_index_key ns := (zset s (queue_index_key ns))(jid \<mapsto> now))"
    and "rlist s' = rlist s"
proof -
  define k1 k2 k3 k4 where k: "k1 = job_key ns jid" "k2 = COUNT_KEY_TEMPLATE ns t" "k3 = total_count_key ns"
    "k4 = queue_index_key ns"
  have neq: "k1 \<noteq> k2" "k1 \<noteq> k3" "k1 \<noteq> k4" "k2 \<noteq> k3" "k2 \<noteq> k4" "k3 \<noteq> k4" using t by (auto simp: k)
  note keys = inv_keys(1) [OF inv, of jid] inv_keys(2,3) [OF inv] inv_keys(4) [OF inv t(1)]
  have fresh: "jid \<notin> flying ns s" using new by (simp add: in_flight_def)
  define s1 where "s1 = r_hset R k1 [(''id'', VStr jid), (''status'', VStr st), (''result'', VStr res),
    (''error'', VStr err), (''owner'', VStr own), (''updated_at'', VNum now)] s"
  define s2 where "s2 = r_hset R k1 [(''schema_version'', ver)] s1"
  define s5 where "s5 = r_expire R k4 ttl (r_expire R k1 ttl (r_zadd R k4 jid now s2))"
  define s7 where "s7 = r_expire R k3 ttl (snd (r_incr R k3 1 s5))"
  define F where "F = [''id'' \<mapsto> VStr jid, ''status'' \<mapsto> VStr st, ''result'' \<mapsto> VStr res,
     ''error'' \<mapsto> VStr err, ''owner'' \<mapsto> VStr own, ''updated_at'' \<mapsto> VNum now, ''schema_version'' \<mapsto> ver]"
  have s': "s' = (if own \<noteq> [] then r_expire R k2 ttl (snd (r_incr R k2 1 s7)) else s7)"
    using admit_full(1) [OF inv t, of jid st res err ttl m n now ver] free
    by (auto simp: s'_def ADMIT_SCRIPT_def Let_def s1_def s2_def s5_def s7_def k split: if_splits)
  have h1: "hash_key s k1" using keys k by simp
  have v1: "hash s1 = (hash s)(k1 := map_of [(''id'', VStr jid), (''status'', VStr st), (''result'', VStr res),
    (''error'', VStr err), (''owner'', VStr own), (''updated_at'', VNum now)])" "kv s1 = kv s" "zset s1 = zset s" "rlist s1 = rlist s"
    using hset_hash [OF h1] new by (simp_all add: s1_def k)
  have h2: "hash_key s1 k1" using h1 by (simp add: hash_key_def v1)
  have v2: "hash s2 = (hash s)(k1 := F)" "kv s2 = kv s" "zset s2 = zset s" "rlist s2 = rlist s"
    using hset_hash [OF h2] by (auto simp: s2_def v1 F_def fun_eq_iff)
  have h3: "zset_key s2 k4" using keys(3) neq by (simp add: zset_key_def v2 k)
  have v5: "hash s5 = (hash s)(k1 := F)" "kv s5 = kv s" "zset s5 = (zset s)(k4 := (zset s k4)(jid \<mapsto> now))"
    "rlist s5 = rlist s"
    using zadd_zset [OF h3] ttl by (simp_all add: s5_def expire_any v2)
  have h5: "str_key s5 k3" using keys(2) neq by (simp add: str_key_def v5 k)
  have c5: "kv s5 k3 = slots (flying ns s)" using inv_counts(2) [OF inv] by (simp add: v5 k)
  note i5 = incr_slots [OF h5 c5 inv_counts(1) [OF inv] fresh]
  have v7: "hash s7 = (hash s)(k1 := F)" "kv s7 = (kv s)(k3 := slots (insert jid (flying ns s)))"
    "zset s7 = (zset s)(k4 := (zset s k4)(jid \<mapsto> now))" "rlist s7 = rlist s"
    using i5 ttl by (simp_all add: s7_def expire_any v5)
  have h7: "str_key s7 k2" using keys(4) neq by (simp add: str_key_def v7 k)
  have c7: "own \<noteq> [] \<Longrightarrow> kv s7 k2 = slots (owned ns s own)"
    using inv_counts(3) [OF inv t(1)] t(2) neq by (simp add: v7 k)
  have o: "jid \<notin> owned ns s own" using fresh by (simp add: owned_by_def)
  note i7 = incr_slots [OF h7 c7 inv_counts(5) [OF inv] o]
  show "hash s' = (hash s)(job_key ns jid := [''id'' \<mapsto> VStr jid, ''status'' \<mapsto> VStr st, ''result'' \<mapsto> VStr res,
       ''error'' \<mapsto> VStr err, ''owner'' \<mapsto> VStr own, ''updated_at'' \<mapsto> VNum now, ''schema_version'' \<mapsto> ver])"
    "zset s' = (zset s)(queue_index_key ns := (zset s (queue_index_key ns))(jid \<mapsto> now))" "rlist s' = rlist s"
    using i7 v7 ttl by (auto simp: s' expire_any k F_def)
  show "kv s' = (kv s)(total_count_key ns := slots (insert jid (flying ns s)),
       COUNT_KEY_TEMPLATE ns t := (if own = [] then kv s (COUNT_KEY_TEMPLATE ns t)
         else slots (insert jid (owned ns s own))))"
    using i7(1) v7(2) ttl neq by (auto simp: s' expire_any k)
qed

end

context redis_laws
begin

lemma admit_inv:
  fixes res err :: string and now :: rat
  assumes inv: "jobs_inv ns s" and t: "is_token t" "own \<noteq> [] \<Longrightarrow> t = own" "is_token own"
    and free: "int (card (flying ns s)) < m" "own \<noteq> [] \<Longrightarrow> int (card (owned ns s own)) < n"
    and new: "hash s (job_key ns jid) = Map.empty" "CHR '':'' \<notin> set jid" and ttl: "0 < ttl"
  defines "s' \<equiv> snd (ADMIT_SCRIPT R (job_key ns jid) (COUNT_KEY_TEMPLATE ns t) (total_count_key ns)
      (queue_index_key ns) jid ''queued'' res err own ttl m n now JOB_SCHEMA_VERSION s)"
  shows "jobs_inv ns s'" "flying ns s' = insert jid (flying ns s)"
proof -
  note v = admit_views [OF inv t(1,2) free new(1) ttl, of "''queued''" res err now JOB_SCHEMA_VERSION, folded s'_def]
  show fl: "flying ns s' = insert jid (flying ns s)"
    by (simp add: in_flight_upd [OF v(2)])
  have ow: "owned ns s' u = (if u = own then insert jid (owned ns s u) else owned ns s u)" for u
    using new(1) by (auto simp: owned_by_upd [OF v(2)]) (auto simp: owned_by_def)
  have keys: "job_keys_ok kv hash zset rlist ns s'"
    by (rule job_keys_okI [OF inv_counts(6) [OF inv] v(1) t(1) v(2,3,4)])
  have "kv s' (COUNT_KEY_TEMPLATE ns u) = (if u = [] then None else slots (owned ns s' u))" if "is_token u" for u
    using inv_counts(3) [OF inv that] t that by (auto simp: v(1) ow)
  moreover have "dom (zset s' (queue_index_key ns)) = flying ns s'"
    using inv_counts(4) [OF inv] by (simp add: v(3) fl)
  moreover have "kv s' (total_count_key ns) = slots (flying ns s')" using t(1) by (simp add: v(1) fl)
  ultimately have "job_counts_ok kv hash zset ns s'"
    using inv_counts(1) [OF inv] flying_facts [OF inv] new t(3)
    by (auto simp: job_counts_ok_def fl v(2))
  with keys show "jobs_inv ns s'" by (simp add: job_inv_def)
qed

text \<open>Both terminal scripts end alike: the index entry goes, then the two slots.\<close>

lemma leave_views:
  assumes inv: "jobs_inv ns s" and fl: "jid \<in> flying ns s"
    and ow: "hash s (job_key ns jid) ''owner'' = Some (VStr own)"
    and v2: "hash s2 = (hash s)(job_key ns jid := h)" "kv s2 = kv s" "zset s2 = zset s" "rlist s2 = rlist s"
    and s4: "s4 = (if own \<noteq> [] \<or> any_owner then release_slot R (COUNT_KEY_TEMPLATE ns own) (r_zrem R (queue_index_key ns) jid s2)
      else r_zrem R (queue_index_key ns) jid s2)"
  defines "s' \<equiv> release_slot R (total_count_key ns) s4"
  shows "kv s' = (kv s)(total_count_key ns := slots (flying ns s - {jid}),
      COUNT_KEY_TEMPLATE ns own := (if own = [] then None else slots (owned ns s own - {jid})))"
    "hash s' = (hash s)(job_key ns jid := h)"
    "zset s' = (zset s)(queue_index_key ns := (zset s (queue_index_key ns))(jid := None))"
    "rlist s' = rlist s"
proof -
  define k2 k3 k4 where k: "k2 = COUNT_KEY_TEMPLATE ns own" "k3 = total_count_key ns" "k4 = queue_index_key ns"
  have t: "is_token own" using flying_facts(3) [OF inv fl] ow by auto
  have neq: "k2 \<noteq> k3" "k2 \<noteq> k4" "k3 \<noteq> k4" using t by (auto simp: k)
  note keys = inv_keys(2,3) [OF inv] inv_keys(4) [OF inv t]
  define s3 where "s3 = r_zrem R k4 jid s2"
  have h2: "zset_key s2 k4" using keys(2) by (simp add: zset_key_def v2 k)
  have v3: "hash s3 = (hash s)(job_key ns jid := h)" "kv s3 = kv s"
    "zset s3 = (zset s)(k4 := (zset s k4)(jid := None))" "rlist s3 = rlist s"
    using zrem_zset [OF h2] by (simp_all add: s3_def v2)
  have h3: "str_key s3 k2" using keys(3) neq by (simp add: str_key_def v3 k)
  have c3: "kv s3 k2 = (if own = [] then None else slots (owned ns s own))"
    using inv_counts(3) [OF inv t] by (simp add: v3 k)
  have jo: "jid \<in> owned ns s own" using fl ow by (simp add: owned_by_def)
  have s4': "s4 = (if own \<noteq> [] \<or> any_owner then release_slot R k2 s3 else s3)" by (simp add: s4 s3_def k)
  have v4': "hash s4 = hash s3 \<and> kv s4 = (kv s)(k2 := (if own = [] then None else slots (owned ns s own - {jid})))
    \<and> zset s4 = zset s3 \<and> rlist s4 = rlist s3"
  proof (cases "own = []")
    case True
    with release_slot_absent [OF h3] c3 v3(2) show ?thesis
      by (auto simp: s4' fun_upd_idem)
  next
    case False
    then have "kv s3 k2 = slots (owned ns s own)" using c3 by simp
    from release_slot_views [OF h3 this inv_counts(5) [OF inv] jo] False v3(2) show ?thesis
      by (simp add: s4')
  qed
  have v4: "hash s4 = hash s3" "kv s4 = (kv s)(k2 := (if own = [] then None else slots (owned ns s own - {jid})))"
    "zset s4 = zset s3" "rlist s4 = rlist s3"
    using v4' by simp_all
  have h4: "str_key s4 k3" using keys(1) neq by (simp add: str_key_def v4 v3 k)
  have c4: "kv s4 k3 = slots (flying ns s)" using inv_counts(2) [OF inv] neq by (simp add: v4 k)
  note r4 = release_slot_views [OF h4 c4 inv_counts(1) [OF inv] fl]
  show "hash s' = (hash s)(job_key ns jid := h)" "rlist s' = rlist s"
    "zset s' = (zset s)(queue_index_key ns := (zset s (queue_index_key ns))(jid := None))"
    using r4 by (simp_all add: s'_def k [symmetric] v4 v3)
  show "kv s' = (kv s)(total_count_key ns := slots (flying ns s - {jid}),
      COUNT_KEY_TEMPLATE ns own := (if own = [] then None else slots (owned ns s own - {jid})))"
    using r4(1) neq by (auto simp: s'_def k [symmetric] v4 fun_upd_twist)
qed

lemma leave_inv:
  assumes inv: "jobs_inv ns s" and fl: "jid \<in> flying ns s"
    and ow: "hash s (job_key ns jid) ''owner'' = Some (VStr own)"
    and st: "h ''status'' \<notin> {Some (VStr ''queued''), Some (VStr ''running'')}"
    and v: "kv s' = (kv s)(total_count_key ns := slots (flying ns s - {jid}),
      COUNT_KEY_TEMPLATE ns own := (if own = [] then None else slots (owned ns s own - {jid})))"
    "hash s' = (hash s)(job_key ns jid := h)"
    "zset s' = (zset s)(queue_index_key ns := (zset s (queue_index_key ns))(jid := None))"
    "rlist s' = rlist s"
  shows "jobs_inv ns s'" "flying ns s' = flying ns s - {jid}"
proof -
  have t: "is_token own" using flying_facts(3) [OF inv fl] ow by auto
  show fl': "flying ns s' = flying ns s - {jid}" using st by (simp add: in_flight_upd [OF v(2)])
  have o: "owned ns s' u = (if u = own then owned ns s u - {jid} else owned ns s u)" for u
    using st ow by (auto simp: owned_by_upd [OF v(2)]) (auto simp: owned_by_def)
  have keys: "job_keys_ok kv hash zset rlist ns s'"
    by (rule job_keys_okI [OF inv_counts(6) [OF inv] v(1) t v(2,3,4)])
  have "kv s' (COUNT_KEY_TEMPLATE ns u) = (if u = [] then None else slots (owned ns s' u))" if "is_token u" for u
    using inv_counts(3) [OF inv that] t that by (auto simp: v(1) o)
  moreover have "dom (zset s' (queue_index_key ns)) = flying ns s'"
    using inv_counts(4) [OF inv] by (simp add: v(3) fl')
  moreover have "kv s' (total_count_key ns) = slots (flying ns s')" using t by (simp add: v(1) fl')
  ultimately have "job_counts_ok kv hash zset ns s'"
    using inv_counts(1) [OF inv] flying_facts [OF inv] by (auto simp: job_counts_ok_def fl' v(2))
  with keys show "jobs_inv ns s'" by (simp add: job_inv_def)
qed

end

context redis_laws
begin

lemma flying_status:
  "jid \<in> flying ns s \<longleftrightarrow> hash s (job_key ns jid) ''status'' = Some (VStr ''queued'')
    \<or> hash s (job_key ns jid) ''status'' = Some (VStr ''running'')"
  by (simp add: in_flight_def)

lemma hset_job:
  fixes jid :: string
  assumes "jobs_inv ns s" "distinct (map fst fvs)" "0 < ttl"
  defines "s2 \<equiv> r_expire R (job_key ns jid) ttl (r_hset R (job_key ns jid) fvs s)"
  shows "hash s2 = (hash s)(job_key ns jid := hash s (job_key ns jid) ++ map_of fvs)" "kv s2 = kv s"
    "zset s2 = zset s" "rlist s2 = rlist s"
  using hset_hash [OF inv_keys(1) [OF assms(1)] assms(2)] assms(3) by (simp_all add: s2_def expire_any)

lemma terminal_script:
  fixes jid err :: string and res :: rv and now :: rat
  assumes inv: "jobs_inv ns s" and ttl: "0 < ttl" and fin: "status \<notin> {''queued'', ''running''}"
    and own: "\<And>t. hash s (job_key ns jid) ''owner'' = Some (VStr t) \<Longrightarrow> own = t"
  defines "p \<equiv> TERMINAL_SCRIPT R (job_key ns jid) (COUNT_KEY_TEMPLATE ns own) (total_count_key ns)
      (queue_index_key ns) status res err ttl now JOB_SCHEMA_VERSION JOB_SCHEMA_VERSION
      (rsplit_colon (job_key ns jid)) s"
  shows "fst p = (if jid \<in> flying ns s then 1 else 0)" "jobs_inv ns (snd p)" "flying ns (snd p) = flying ns s - {jid}"
    "hash (snd p) = (if jid \<in> flying ns s then (hash s)(job_key ns jid := hash s (job_key ns jid) ++
       map_of [(''status'', VStr status), (''result'', res), (''error'', VStr err),
         (''updated_at'', VNum now), (''schema_version'', JOB_SCHEMA_VERSION)]) else hash s)"
    "list_key s (dead_letter_key ns) \<Longrightarrow> list_key (snd p) (dead_letter_key ns)"
proof -
  let ?fvs = "[(''status'', VStr status), (''result'', res), (''error'', VStr err),
         (''updated_at'', VNum now), (''schema_version'', JOB_SCHEMA_VERSION)]"
  let ?h = "hash s (job_key ns jid) ++ map_of ?fvs"
  note get = hget_hash [OF inv_keys(1) [OF inv, of jid]]
  have "fst p = (if jid \<in> flying ns s then 1 else 0) \<and> jobs_inv ns (snd p)
    \<and> flying ns (snd p) = flying ns s - {jid}
    \<and> hash (snd p) = (if jid \<in> flying ns s then (hash s)(job_key ns jid := ?h) else hash s)
    \<and> (list_key s (dead_letter_key ns) \<longrightarrow> list_key (snd p) (dead_letter_key ns))"
  proof (cases "jid \<in> flying ns s")
    case False
    then have "p = (0, s)" by (simp add: p_def TERMINAL_SCRIPT_def get flying_status)
    with False inv show ?thesis by simp
  next
    case True
    note ff = flying_facts [OF inv True]
    from ff(3) obtain t where t: "is_token t" "hash s (job_key ns jid) ''owner'' = Some (VStr t)" by blast
    with own have [simp]: "own = t" by simp
    define s2 where "s2 = r_expire R (job_key ns jid) ttl (r_hset R (job_key ns jid) ?fvs s)"
    have v2: "hash s2 = (hash s)(job_key ns jid := ?h)" "kv s2 = kv s" "zset s2 = zset s" "rlist s2 = rlist s"
      unfolding s2_def by (rule hset_job [OF inv _ ttl], simp)+
    define s3 where "s3 = r_zrem R (queue_index_key ns) jid s2"
    have "zset_key s2 (queue_index_key ns)" using inv_keys(3) [OF inv] by (simp add: zset_key_def v2)
    from zrem_zset [OF this, of jid] have v3: "hash s3 = hash s2" "kv s3 = kv s2" "rlist s3 = rlist s2"
      "zset s3 (job_key ns jid) = zset s2 (job_key ns jid)" by (simp_all add: s3_def)
    have "hash_key s3 (job_key ns jid)" using inv_keys(1) [OF inv] by (simp add: hash_key_def v2 v3)
    then have own3: "r_hget R (job_key ns jid) ''owner'' s3 = Some (VStr t)"
      using t(2) by (simp add: hget_hash v2 v3)
    define s4 where "s4 = (if t \<noteq> [] \<or> False then release_slot R (COUNT_KEY_TEMPLATE ns t) s3 else s3)"
    have p: "p = (1, release_slot R (total_count_key ns) s4)"
      using True ff(2) own3
      by (auto simp: p_def TERMINAL_SCRIPT_def Let_def get flying_status rsplit_colon_job_key [OF ff(1)]
          s2_def [symmetric] s3_def [symmetric] s4_def)
    note v = leave_views [OF inv True t(2) v2 s4_def [unfolded s3_def]]
    have "?h ''status'' \<notin> {Some (VStr ''queued''), Some (VStr ''running'')}" using fin by auto
    from leave_inv [OF inv True t(2) this v] v True t(1) show ?thesis by (simp add: p list_key_def)
  qed
  then show "fst p = (if jid \<in> flying ns s then 1 else 0)" "jobs_inv ns (snd p)"
    "flying ns (snd p) = flying ns s - {jid}"
    "hash (snd p) = (if jid \<in> flying ns s then (hash s)(job_key ns jid := ?h) else hash s)"
    "list_key s (dead_letter_key ns) \<Longrightarrow> list_key (snd p) (dead_letter_key ns)" by auto
qed

lemma cancel_script:
  fixes jid err :: string and now :: rat
  assumes inv: "jobs_inv ns s" and ttl: "0 < ttl"
    and own: "\<And>t. hash s (job_key ns jid) ''owner'' = Some (VStr t) \<Longrightarrow> own = t"
  defines "p \<equiv> CANCEL_SCRIPT R (job_key ns jid) (COUNT_KEY_TEMPLATE ns own) (total_count_key ns)
      (queue_index_key ns) err now ttl jid JOB_SCHEMA_VERSION s"
    and "queued \<equiv> hash s (job_key ns jid) ''status'' = Some (VStr ''queued'')"
  shows "fst p = (if queued then 1 else 0)" "jobs_inv ns (snd p)"
    "flying ns (snd p) = (if queued then flying ns s - {jid} else flying ns s)"
    "hash (snd p) = (if queued then (hash s)(job_key ns jid := hash s (job_key ns jid) ++
       map_of [(''status'', VStr ''cancelled''), (''error'', VStr err), (''updated_at'', VNum now),
         (''schema_version'', JOB_SCHEMA_VERSION)]) else hash s)"
proof -
  let ?fvs = "[(''status'', VStr ''cancelled''), (''error'', VStr err), (''updated_at'', VNum now),
         (''schema_version'', JOB_SCHEMA_VERSION)]"
  let ?h = "hash s (job_key ns jid) ++ map_of ?fvs"
  note get = hget_hash [OF inv_keys(1) [OF inv, of jid]]
  have "fst p = (if queued then 1 else 0) \<and> jobs_inv ns (snd p)
    \<and> flying ns (snd p) = (if queued then flying ns s - {jid} else flying ns s)
    \<and> hash (snd p) = (if queued then (hash s)(job_key ns jid := ?h) else hash s)"
  proof (cases queued)
    case False
    then have "p = (0, s)" by (simp add: p_def CANCEL_SCRIPT_def get queued_def)
    with False inv show ?thesis by simp
  next
    case True
    then have fl: "jid \<in> flying ns s" by (simp add: queued_def flying_status)
    note ff = flying_facts [OF inv fl]
    from ff(3) obtain t where t: "is_token t" "hash s (job_key ns jid) ''owner'' = Some (VStr t)" by blast
    with own have [simp]: "own = t" by simp
    define s2 where "s2 = r_expire R (job_key ns jid) ttl (r_hset R (job_key ns jid) ?fvs s)"
    have v2: "hash s2 = (hash s)(job_key ns jid := ?h)" "kv s2 = kv s" "zset s2 = zset s" "rlist s2 = rlist s"
      unfolding s2_def by (rule hset_job [OF inv _ ttl], simp)+
    define s3 where "s3 = r_zrem R (queue_index_key ns) jid s2"
    define s4 where "s4 = (if t \<noteq> [] \<or> True then release_slot R (COUNT_KEY_TEMPLATE ns t) s3 else s3)"
    have p: "p = (1, release_slot R (total_count_key ns) s4)"
      using True ff(2) by (simp add: p_def CANCEL_SCRIPT_def Let_def get queued_def s2_def [symmetric]
          s3_def [symmetric] s4_def)
    note v = leave_views [OF inv fl t(2) v2 s4_def [unfolded s3_def]]
    have "?h ''status'' \<notin> {Some (VStr ''queued''), Some (VStr ''running'')}" by auto
    from leave_inv [OF inv fl t(2) this v] v(2) True show ?thesis by (simp add: p)
  qed
  then show "fst p = (if queued then 1 else 0)" "jobs_inv ns (snd p)"
    "flying ns (snd p) = (if queued then flying ns s - {jid} else flying ns s)"
    "hash (snd p) = (if queued then (hash s)(job_key ns jid := ?h) else hash s)" by auto
qed

lemma claim_script:
  fixes jid :: string and now :: rat
  assumes inv: "jobs_inv ns s" and ttl: "0 < ttl"
  defines "p \<equiv> CLAIM_SCRIPT R (job_key ns jid) ttl now JOB_SCHEMA_VERSION s"
    and "queued \<equiv> hash s (job_key ns jid) ''status'' = Some (VStr ''queued'')"
  shows "fst p = (if queued then 1 else 0)" "jobs_inv ns (snd p)" "flying ns (snd p) = flying ns s"
    "hash (snd p) = (if queued then (hash s)(job_key ns jid := hash s (job_key ns jid) ++
       map_of [(''status'', VStr ''running''), (''updated_at'', VNum now),
         (''schema_version'', JOB_SCHEMA_VERSION)]) else hash s)"
proof -
  let ?fvs = "[(''status'', VStr ''running''), (''updated_at'', VNum now), (''schema_version'', JOB_SCHEMA_VERSION)]"
  let ?h = "hash s (job_key ns jid) ++ map_of ?fvs"
  note get = hget_hash [OF inv_keys(1) [OF inv, of jid]]
  have "fst p = (if queued then 1 else 0) \<and> jobs_inv ns (snd p) \<and> flying ns (snd p) = flying ns s
    \<and> hash (snd p) = (if queued then (hash s)(job_key ns jid := ?h) else hash s)"
  proof (cases queued)
    case False
    then have "p = (0, s)" by (simp add: p_def CLAIM_SCRIPT_def get queued_def)
    with False inv show ?thesis by simp
  next
    case True
    then have fl: "jid \<in> flying ns s" by (simp add: queued_def flying_status)
    note ff = flying_facts [OF inv fl]
    define s2 where "s2 = r_expire R (job_key ns jid) ttl (r_hset R (job_key ns jid) ?fvs s)"
    have v2: "hash s2 = (hash s)(job_key ns jid := ?h)" "kv s2 = kv s" "zset s2 = zset s" "rlist s2 = rlist s"
      unfolding s2_def by (rule hset_job [OF inv _ ttl], simp)+
    have p: "p = (1, s2)"
      using True ff(2) by (simp add: p_def CLAIM_SCRIPT_def get queued_def s2_def)
    have fl2: "flying ns s2 = flying ns s" using fl by (auto simp: in_flight_upd [OF v2(1)])
    have ow2: "owned ns s2 t = owned ns s t" for t
      using fl by (auto simp: owned_by_upd [OF v2(1)] map_add_def) (auto simp: owned_by_def)
    have keys: "job_keys_ok kv hash zset rlist ns s2"
      by (rule job_keys_okI [OF inv_counts(6) [OF inv], where t = "[]" and a = "kv s (total_count_key ns)" and
            b = "kv s (COUNT_KEY_TEMPLATE ns [])" and z = "zset s (queue_index_key ns)"])
        (simp_all add: v2 is_token_def)
    have "job_counts_ok kv hash zset ns s2"
      unfolding job_counts_ok_def fl2 ow2 v2(2,3)
      using inv_counts [OF inv] flying_facts [OF inv] by (auto simp: v2(1))
    with keys True v2(1) fl2 show ?thesis by (simp add: p job_inv_def)
  qed
  then show "fst p = (if queued then 1 else 0)" "jobs_inv ns (snd p)" "flying ns (snd p) = flying ns s"
    "hash (snd p) = (if queued then (hash s)(job_key ns jid := ?h) else hash s)" by auto
qed

end

section \<open>Runs of the store\<close>

text \<open>One operation of any process, with the faults of its client calls; the scripts are atomic.\<close>

datatype job_op =
  Create_op string rat string int int
| Claim_op string rat
| Cancel_op string rat
| Result_op string rat json
| Error_op string rat string
| Reap_op rat rat

fun job_step :: "'s redis \<Rightarrow> job_store \<Rightarrow> fault \<Rightarrow> fault \<Rightarrow> job_op \<Rightarrow> 's \<Rightarrow> 's" where
  "job_step R st f1 f2 (Create_op jid now owner m n) s = snd (create_admitted R st f1 jid now owner m n s)"
| "job_step R st f1 f2 (Claim_op jid now) s = snd (claim R st f1 now jid s)"
| "job_step R st f1 f2 (Cancel_op jid now) s = snd (cancel R st f1 f2 now jid s)"
| "job_step R st f1 f2 (Result_op jid now result) s = snd (set_result R st f1 f2 now jid result s)"
| "job_step R st f1 f2 (Error_op jid now err) s = snd (set_error R st f1 f2 now jid err s)"
| "job_step R st f1 f2 (Reap_op now age) s = snd (reap_stale_jobs R st now age s)"

fun run_jobs :: "'s redis \<Rightarrow> job_store \<Rightarrow> (fault \<times> fault \<times> job_op) list \<Rightarrow> 's \<Rightarrow> 's" where
  "run_jobs R st [] s = s"
| "run_jobs R st ((f1, f2, op) # ops) s = run_jobs R st ops (job_step R st f1 f2 op s)"

fun created_ids :: "job_op \<Rightarrow> string list" where
  "created_ids (Create_op jid now owner m n) = [jid]"
| "created_ids _ = []"

definition all_created :: "(fault \<times> fault \<times> job_op) list \<Rightarrow> string list" where
  "all_created ops = concat (map (\<lambda>(f1, f2, op). created_ids op) ops)"

definition hex_digest :: "(string \<Rightarrow> string) \<Rightarrow> bool" where
  "hex_digest sha \<longleftrightarrow> (\<forall>x. length (sha x) = 64)"

text \<open>New identifiers: without a colon, pairwise different, of no stored job.\<close>

definition fresh_ids :: "('s \<Rightarrow> string \<Rightarrow> string \<Rightarrow> rv option) \<Rightarrow> string \<Rightarrow> 's \<Rightarrow> string list \<Rightarrow> bool" where
  "fresh_ids hash ns s ids \<longleftrightarrow>
     distinct ids \<and> list_all (\<lambda>jid. CHR '':'' \<notin> set jid \<and> hash s (job_key ns jid) = Map.empty) ids"

lemma owner_is_token: "hex_digest sha \<Longrightarrow> is_token (owner_token sha x)"
  by (simp add: hex_digest_def owner_token_def is_token_def)

lemma snd_sbind_sreturn [simp]: "snd (sbind m (\<lambda>r. sreturn (g r)) s) = snd (m s)"
proof -
  obtain r s' where "m s = (r, s')" by force
  then show ?thesis by (cases r) (simp_all add: sbind_def sreturn_def)
qed

lemma snd_read_script:
  "snd (sbind (net f1 (read_only g)) (\<lambda>x. sbind (net f2 (h x)) (\<lambda>r. sreturn (k r))) s) \<in> {s, snd (h (g s) s)}"
proof (cases f1)
  case None
  then show ?thesis using net_cases [of f2 "h (g s)" s] by (simp add: None)
next
  case (Some p)
  then show ?thesis by (cases p) (simp add: sbind_def net_def read_only_def)
qed

context redis_laws
begin

text \<open>What every operation keeps: the invariant and the records of jobs that are not in flight.\<close>

definition good_step :: "string \<Rightarrow> string list \<Rightarrow> 's \<Rightarrow> 's \<Rightarrow> bool" where
  "good_step ns ids s s' \<longleftrightarrow> jobs_inv ns s' \<and> flying ns s' \<subseteq> flying ns s \<union> set ids
     \<and> (\<forall>j. j \<notin> flying ns s \<and> j \<notin> set ids \<longrightarrow> hash s' (job_key ns j) = hash s (job_key ns j))"

lemma good_refl: "jobs_inv ns s \<Longrightarrow> good_step ns ids s s"
  by (auto simp: good_step_def)

lemma good_trans: "good_step ns [] s s' \<Longrightarrow> good_step ns [] s' s'' \<Longrightarrow> good_step ns [] s s''"
proof -
  assume a: "good_step ns [] s s'" "good_step ns [] s' s''"
  have "hash s'' (job_key ns j) = hash s (job_key ns j)" if "j \<notin> flying ns s" for j
  proof -
    have "j \<notin> flying ns s'" using a(1) that by (auto simp: good_step_def)
    with a that show ?thesis by (simp add: good_step_def)
  qed
  moreover have "flying ns s'' \<subseteq> flying ns s" using a by (fastforce simp: good_step_def)
  ultimately show ?thesis using a(2) by (simp add: good_step_def)
qed

lemma text_owner: "hash s k ''owner'' = Some (VStr t) \<Longrightarrow> text_or_empty st (hash s k ''owner'') = t"
  by (simp add: text_or_empty_def)

lemma set_terminal_good:
  assumes inv: "jobs_inv (js_namespace st) s" and ttl: "0 < js_ttl st" and fin: "status \<notin> {''queued'', ''running''}"
  shows "good_step (js_namespace st) [] s
    (snd (set_terminal R st f1 f2 now (job_key (js_namespace st) jid) status res err s))"
proof -
  let ?ns = "js_namespace st"
  let ?own = "text_or_empty st (r_hget R (job_key ?ns jid) ''owner'' s)"
  have own: "hash s (job_key ?ns jid) ''owner'' = Some (VStr t) \<Longrightarrow> ?own = t" for t
    using hget_hash [OF inv_keys(1) [OF inv, of jid]] by (simp add: text_or_empty_def)
  define p where "p = TERMINAL_SCRIPT R (job_key ?ns jid) (COUNT_KEY_TEMPLATE ?ns ?own) (total_count_key ?ns)
      (queue_index_key ?ns) status res err (js_ttl st) now JOB_SCHEMA_VERSION JOB_SCHEMA_VERSION
      (rsplit_colon (job_key ?ns jid)) s"
  note ts = terminal_script [OF inv ttl fin own, where jid = jid and res = res and err = err and now = now, folded p_def]
  have "snd (set_terminal R st f1 f2 now (job_key ?ns jid) status res err s) \<in> {s, snd p}"
    unfolding set_terminal_def Let_def p_def by (rule snd_read_script)
  moreover have "good_step ?ns [] s (snd p)"
    using ts(2,3,4) by (auto simp: good_step_def)
  ultimately show ?thesis using good_refl [OF inv] by auto
qed

end

context redis_laws
begin

lemma set_result_good:
  "jobs_inv (js_namespace st) s \<Longrightarrow> 0 < js_ttl st \<Longrightarrow>
   good_step (js_namespace st) [] s (snd (set_result R st f1 f2 now jid result s))"
  by (simp add: set_result_def with_client_def set_terminal_good good_refl)

lemma set_error_good:
  "jobs_inv (js_namespace st) s \<Longrightarrow> 0 < js_ttl st \<Longrightarrow>
   good_step (js_namespace st) [] s (snd (set_error R st f1 f2 now jid err s))"
  by (simp add: set_error_def with_client_def set_terminal_good good_refl)

lemma claim_good:
  assumes inv: "jobs_inv (js_namespace st) s" and ttl: "0 < js_ttl st"
  shows "good_step (js_namespace st) [] s (snd (claim R st flt now jid s))"
proof -
  define p where "p = CLAIM_SCRIPT R (job_key (js_namespace st) jid) (js_ttl st) now JOB_SCHEMA_VERSION s"
  note cs = claim_script [OF inv ttl, where jid = jid and now = now, folded p_def]
  have "good_step (js_namespace st) [] s (snd p)"
    using cs(2,3,4) by (auto simp: good_step_def flying_status)
  moreover have "snd (claim R st flt now jid s) \<in> {s, snd p}"
    by (simp add: net_cases claim_def with_client_def p_def)
  ultimately show ?thesis using good_refl [OF inv] by auto
qed

lemma cancel_good:
  assumes inv: "jobs_inv (js_namespace st) s" and ttl: "0 < js_ttl st"
  shows "good_step (js_namespace st) [] s (snd (cancel R st f1 f2 now jid s))"
proof -
  let ?ns = "js_namespace st"
  let ?own = "text_or_empty st (r_hget R (job_key ?ns jid) ''owner'' s)"
  have own: "hash s (job_key ?ns jid) ''owner'' = Some (VStr t) \<Longrightarrow> ?own = t" for t
    using hget_hash [OF inv_keys(1) [OF inv, of jid]] by (simp add: text_or_empty_def)
  define p where "p = CANCEL_SCRIPT R (job_key ?ns jid) (COUNT_KEY_TEMPLATE ?ns ?own) (total_count_key ?ns)
      (queue_index_key ?ns) ''job cancelled'' now (js_ttl st) jid JOB_SCHEMA_VERSION s"
  note cs = cancel_script [OF inv ttl own, where jid = jid and err = "''job cancelled''" and now = now, folded p_def]
  have "good_step ?ns [] s (snd p)" using cs(2,3,4) by (auto simp: good_step_def flying_status)
  moreover have "snd (sbind (net f1 (read_only (r_hget R (job_key ?ns jid) ''owner''))) (\<lambda>owner.
         sbind (net f2 (CANCEL_SCRIPT R (job_key ?ns jid) (COUNT_KEY_TEMPLATE ?ns (text_or_empty st owner))
           (total_count_key ?ns) (queue_index_key ?ns) ''job cancelled'' now (js_ttl st) jid JOB_SCHEMA_VERSION))
         (\<lambda>r. sreturn (r \<noteq> 0))) s) \<in> {s, snd p}"
    unfolding p_def by (rule snd_read_script)
  ultimately show ?thesis using good_refl [OF inv] by (auto simp: cancel_def with_client_def Let_def)
qed

lemma reap_good:
  assumes "0 < js_ttl st"
  shows "jobs_inv (js_namespace st) s \<Longrightarrow>
    good_step (js_namespace st) [] s (snd (reap_keys R st now cutoff ks reaped s))"
proof (induction ks arbitrary: reaped s)
  case Nil
  then show ?case by (simp add: good_refl)
next
  case (Cons k ks)
  show ?case
  proof (cases "reap_due cutoff (r_hgetall R k s)")
    case False
    with Cons show ?thesis by simp
  next
    case due: True
    show ?thesis
    proof (cases "field_text st (r_hgetall R k s) ''id''")
      case (Inl e)
      with due Cons.prems show ?thesis by (simp add: good_refl)
    next
      case (Inr jid)
      obtain r s1 where se: "set_error R st None None now jid ''job lease expired'' s = (r, s1)" by force
      have g: "good_step (js_namespace st) [] s s1"
        using set_error_good [OF Cons.prems assms, of None None now jid "''job lease expired''"] se by simp
      then have "jobs_inv (js_namespace st) s1" by (simp add: good_step_def)
      from good_trans [OF g Cons.IH [OF this]] g show ?thesis
        using due Inr se by (cases r) (simp_all add: Let_def)
    qed
  qed
qed

lemma create_good:
  assumes inv: "jobs_inv (js_namespace st) s" and ttl: "0 < js_ttl st" and sha: "hex_digest (js_sha st)"
    and new: "hash s (job_key (js_namespace st) jid) = Map.empty" "CHR '':'' \<notin> set jid"
  shows "good_step (js_namespace st) [jid] s (snd (create_admitted R st flt jid now owner m n s))"
proof -
  let ?ns = "js_namespace st"
  let ?tok = "if owner \<noteq> [] then owner_token (js_sha st) owner else []"
  let ?t = "owner_token (js_sha st) owner"
  define p where "p = ADMIT_SCRIPT R (job_key ?ns jid) (COUNT_KEY_TEMPLATE ?ns ?t) (total_count_key ?ns)
      (queue_index_key ?ns) jid ''queued'' [] [] ?tok (js_ttl st) m n now JOB_SCHEMA_VERSION s"
  have t: "is_token ?t" "?tok \<noteq> [] \<Longrightarrow> ?t = ?tok" "is_token ?tok"
    using owner_is_token [OF sha] by (auto simp: is_token_def)
  have "good_step ?ns [jid] s (snd p)"
  proof (cases "int (card (flying ?ns s)) \<ge> m \<or> ?tok \<noteq> [] \<and> int (card (owned ?ns s ?tok)) \<ge> n")
    case True
    from admit_full(2) [OF inv t(1,2) True] show ?thesis by (simp add: p_def good_refl [OF inv])
  next
    case False
    then have free: "int (card (flying ?ns s)) < m" "?tok \<noteq> [] \<Longrightarrow> int (card (owned ?ns s ?tok)) < n" by auto
    note a = admit_inv [OF inv t free new ttl, of "[]" "[]" now, folded p_def]
    note v = admit_views(2) [OF inv t(1,2) free new(1) ttl, of "''queued''" "[]" "[]" now JOB_SCHEMA_VERSION, folded p_def]
    from a v show ?thesis by (auto simp: good_step_def)
  qed
  moreover have "snd (create_admitted R st flt jid now owner m n s) \<in> {s, snd p}"
    by (simp add: net_cases create_admitted_def with_client_def p_def Let_def count_key_def)
  ultimately show ?thesis using good_refl [OF inv] by auto
qed

lemma job_step_good:
  assumes inv: "jobs_inv (js_namespace st) s" and ttl: "0 < js_ttl st" and sha: "hex_digest (js_sha st)"
    and new: "fresh_ids hash (js_namespace st) s (created_ids op)"
  shows "good_step (js_namespace st) (created_ids op) s (job_step R st f1 f2 op s)"
  using new set_result_good [OF inv ttl] set_error_good [OF inv ttl] claim_good [OF inv ttl] cancel_good [OF inv ttl]
    create_good [OF inv ttl sha] reap_good [OF ttl inv] good_refl [OF inv]
  by (cases op) (simp_all add: fresh_ids_def reap_stale_jobs_def with_client_def)

lemma run_jobs_good:
  assumes ttl: "0 < js_ttl st" and sha: "hex_digest (js_sha st)"
  shows "jobs_inv (js_namespace st) s \<Longrightarrow> fresh_ids hash (js_namespace st) s (all_created ops) \<Longrightarrow>
    jobs_inv (js_namespace st) (run_jobs R st ops s)
    \<and> (\<forall>j. j \<notin> flying (js_namespace st) s \<and> j \<notin> set (all_created ops) \<longrightarrow>
         hash (run_jobs R st ops s) (job_key (js_namespace st) j) = hash s (job_key (js_namespace st) j))"
proof (induction ops arbitrary: s)
  case Nil
  then show ?case by simp
next
  case (Cons fop ops)
  obtain f1 f2 op where fop: "fop = (f1, f2, op)" by (cases fop)
  let ?ns = "js_namespace st" and ?s1 = "job_step R st f1 f2 op s"
  have ids: "all_created (fop # ops) = created_ids op @ all_created ops" by (simp add: all_created_def fop)
  have "fresh_ids hash ?ns s (created_ids op)" using Cons.prems(2) by (simp add: ids fresh_ids_def)
  from job_step_good [OF Cons.prems(1) ttl sha this, of f1 f2]
  have g: "good_step ?ns (created_ids op) s ?s1" .
  have out: "j \<notin> flying ?ns s" if "j \<in> set (all_created (fop # ops))" for j
    using Cons.prems(2) that by (auto simp: fresh_ids_def list_all_iff in_flight_def)
  have "hash ?s1 (job_key ?ns j) = hash s (job_key ?ns j)" if "j \<in> set (all_created ops)" for j
  proof -
    have "j \<notin> set (created_ids op)" using Cons.prems(2) that by (auto simp: fresh_ids_def ids)
    moreover have "j \<notin> flying ?ns s" using out that by (simp add: ids)
    ultimately show ?thesis using g by (simp add: good_step_def)
  qed
  then have "fresh_ids hash ?ns ?s1 (all_created ops)"
    using Cons.prems(2) by (simp add: fresh_ids_def list_all_iff ids)
  moreover have "jobs_inv ?ns ?s1" using g by (simp add: good_step_def)
  ultimately have IH: "jobs_inv ?ns (run_jobs R st ops ?s1)"
    "\<forall>j. j \<notin> flying ?ns ?s1 \<and> j \<notin> set (all_created ops) \<longrightarrow>
         hash (run_jobs R st ops ?s1) (job_key ?ns j) = hash ?s1 (job_key ?ns j)"
    using Cons.IH [of ?s1] by blast+
  have "hash (run_jobs R st ops ?s1) (job_key ?ns j) = hash s (job_key ?ns j)"
    if "j \<notin> flying ?ns s" "j \<notin> set (all_created (fop # ops))" for j
    using IH(2) g that by (auto simp: good_step_def ids)
  with IH(1) show ?case by (simp add: fop)
qed

end

section \<open>The contract of the store\<close>

definition demo_store :: job_store where
  "demo_store = \<lparr>js_client = True, js_namespace = ''rx'', js_ttl = 60, js_dead_letter_max = 2,
     js_sha = (\<lambda>x. replicate 64 CHR ''a''), js_text = (\<lambda>v. [])\<rparr>"

lemma demo_store_simps [simp]:
  "js_client demo_store" "js_namespace demo_store = ''rx''" "js_ttl demo_store = 60"
  "hex_digest (js_sha demo_store)"
  by (simp_all add: demo_store_def hex_digest_def)

lemma empty_job_inv: "job_inv st_kv st_hash st_zset st_list ns []"
  by (simp add: job_inv_def job_keys_ok_def job_counts_ok_def in_flight_def owned_by_def slots_def
      st_kv_def st_hash_def st_zset_def st_list_def st_fields_def st_members_def)

text \<open>
  C15. After any sequence of admissions, claims, cancellations, completions, failures and
  reaps by any processes, with any network faults, the shared counter is the number of
  queued or running jobs, each owner's counter is the number of its own, and the index
  holds exactly these jobs, on every server that keeps the documented behaviour.
\<close>

theorem job_accounting:
  assumes "redis_laws R kv hash zset rlist" "0 < js_ttl st" "hex_digest (js_sha st)"
    and "job_inv kv hash zset rlist (js_namespace st) s"
    and "fresh_ids hash (js_namespace st) s (all_created ops)" "ns = js_namespace st" "s' = run_jobs R st ops s"
  shows "job_inv kv hash zset rlist ns s'
    \<and> kv s' (total_count_key ns) = slots (in_flight hash ns s')
    \<and> dom (zset s' (queue_index_key ns)) = in_flight hash ns s'"
proof -
  have "job_inv kv hash zset rlist ns s'"
    using redis_laws.run_jobs_good [OF assms(1-5)] assms(6,7) by simp
  then show ?thesis by (simp add: job_inv_def job_counts_ok_def)
qed

definition demo_ops :: "(fault \<times> fault \<times> job_op) list" where
  "demo_ops = [(None, None, Create_op ''j1'' 1 ''k1'' 2 2), (Some (TimeoutError, True), None, Create_op ''j2'' 2 ''k1'' 2 2),
     (None, None, Claim_op ''j1'' 3), (None, None, Result_op ''j1'' 4 (JStr ''ok''))]"

theorem job_accounting_witness:
  "st_kv (run_jobs list_redis demo_store demo_ops []) (total_count_key ''rx'') =
     slots (in_flight st_hash ''rx'' (run_jobs list_redis demo_store demo_ops []))"
proof -
  have "fresh_ids st_hash (js_namespace demo_store) [] (all_created demo_ops)"
    by (simp add: demo_ops_def fresh_ids_def all_created_def st_hash_def st_fields_def)
  from job_accounting [OF list_store.redis_laws_axioms _ _ empty_job_inv this refl refl] show ?thesis
    by (simp only: demo_store_simps)
qed

context redis_laws
begin

lemma create_admitted_result:
  fixes m n :: int
  assumes ttl: "0 < js_ttl st" and sha: "hex_digest (js_sha st)" and cl: "js_client st"
    and inv: "jobs_inv (js_namespace st) s" and new: "hash s (job_key (js_namespace st) jid) = Map.empty"
    "CHR '':'' \<notin> set jid"
    and tok: "token = (if owner = [] then [] else owner_token (js_sha st) owner)"
  defines "ns \<equiv> js_namespace st"
  defines "admitted \<equiv> int (card (flying ns s)) < m \<and> (owner = [] \<or> int (card (owned ns s token)) < n)"
  shows "\<exists>s'. create_admitted R st None jid now owner m n s =
      (Inr (if admitted then Some \<lparr>jr_id = jid, jr_status = ''queued'', jr_result = None, jr_error = None,
         jr_owner = token\<rparr> else None), s')
    \<and> jobs_inv ns s'
    \<and> flying ns s' = (if admitted then insert jid (flying ns s) else flying ns s)
    \<and> (s' = s \<or> admitted \<and> hash s' (job_key ns jid) ''status'' = Some (VStr ''queued''))"
proof -
  let ?t = "owner_token (js_sha st) owner"
  define p where "p = ADMIT_SCRIPT R (job_key ns jid) (COUNT_KEY_TEMPLATE ns ?t) (total_count_key ns)
      (queue_index_key ns) jid ''queued'' [] [] token (js_ttl st) m n now JOB_SCHEMA_VERSION s"
  have len: "length ?t = 32" using sha by (simp add: hex_digest_def owner_token_def)
  have t: "is_token ?t" "token \<noteq> [] \<Longrightarrow> ?t = token" "is_token token" "token = [] \<longleftrightarrow> owner = []"
    using len by (auto simp: is_token_def tok)
  have inv': "jobs_inv ns s" using inv by (simp add: ns_def)
  have ca: "create_admitted R st None jid now owner m n s = (Inr (if fst p \<noteq> 1 then None
      else Some \<lparr>jr_id = jid, jr_status = ''queued'', jr_result = None, jr_error = None, jr_owner = token\<rparr>), snd p)"
    using cl by (simp add: create_admitted_def with_client_def Let_def p_def ns_def count_key_def tok sbind_def sreturn_def)
  have fst: "fst p = (if admitted then 1 else 0)"
    using admit_full(1) [OF inv' t(1,2), of jid "''queued''" "[]" "[]" "js_ttl st" m n now JOB_SCHEMA_VERSION] t(4)
    by (auto simp: p_def admitted_def)
  show ?thesis
  proof (cases admitted)
    case True
    then have free: "int (card (flying ns s)) < m" "token \<noteq> [] \<Longrightarrow> int (card (owned ns s token)) < n"
      using t(4) by (auto simp: admitted_def)
    note a = admit_inv [OF inv' t(1-3) free new [folded ns_def] ttl, of "[]" "[]" now, folded p_def]
    note v = admit_views(2) [OF inv' t(1,2) free new(1) [folded ns_def] ttl, of "''queued''" "[]" "[]" now
        JOB_SCHEMA_VERSION, folded p_def]
    from True a v show ?thesis by (simp add: ca fst)
  next
    case False
    then have "int (card (flying ns s)) \<ge> m \<or> token \<noteq> [] \<and> int (card (owned ns s token)) \<ge> n"
      using t(4) by (auto simp: admitted_def)
    from admit_full(2) [OF inv' t(1,2) this] have "snd p = s" by (simp add: p_def)
    with False inv' show ?thesis by (simp add: ca fst)
  qed
qed

end

text \<open>
  C16. Admission enforces both limits: a job is admitted exactly when the number of jobs in
  flight is below the limit and, for an authenticated owner, the number of its jobs is
  below the owner's limit; the admitted job is then in flight as queued, a refused one
  leaves no trace, and the accounting stays exact.
\<close>

theorem create_admitted_correct:
  assumes "redis_laws R kv hash zset rlist" "0 < js_ttl st" "hex_digest (js_sha st)" "js_client st"
    and "job_inv kv hash zset rlist (js_namespace st) s" "fresh_ids hash (js_namespace st) s [jid]"
    and "ns = js_namespace st" "token = (if owner = [] then [] else owner_token (js_sha st) owner)"
    and "admitted \<longleftrightarrow> int (card (in_flight hash ns s)) < m
      \<and> (owner = [] \<or> int (card (owned_by hash ns s token)) < n)"
  shows "\<exists>s'. create_admitted R st None jid now owner m n s =
      (Inr (if admitted then Some \<lparr>jr_id = jid, jr_status = ''queued'', jr_result = None, jr_error = None,
         jr_owner = token\<rparr> else None), s')
    \<and> job_inv kv hash zset rlist ns s'
    \<and> in_flight hash ns s' = (if admitted then insert jid (in_flight hash ns s) else in_flight hash ns s)
    \<and> (s' = s \<or> admitted \<and> hash s' (job_key ns jid) ''status'' = Some (VStr ''queued''))"
proof -
  have "hash s (job_key (js_namespace st) jid) = Map.empty" "CHR '':'' \<notin> set jid"
    using assms(6) by (simp_all add: fresh_ids_def)
  from redis_laws.create_admitted_result [OF assms(1-5) this assms(8), where m = m and n = n and now = now]
  show ?thesis unfolding assms(7,9) .
qed

theorem create_admitted_correct_witness:
  "\<exists>s'. create_admitted list_redis demo_store None ''j1'' 1 ''k1'' 2 2 [] =
      (Inr (Some \<lparr>jr_id = ''j1'', jr_status = ''queued'', jr_result = None, jr_error = None,
         jr_owner = replicate 32 CHR ''a''\<rparr>), s')
    \<and> in_flight st_hash ''rx'' s' = {''j1''}"
proof -
  have e: "in_flight st_hash ''rx'' [] = {}" "owned_by st_hash ''rx'' [] t = {}" for t
    by (simp_all add: in_flight_def owned_by_def st_hash_def st_fields_def)
  have f: "fresh_ids st_hash (js_namespace demo_store) [] [''j1'']"
    by (simp add: fresh_ids_def st_hash_def st_fields_def)
  have tok: "owner_token (js_sha demo_store) ''k1'' = replicate 32 CHR ''a''"
    by (simp add: owner_token_def demo_store_def)
  show ?thesis
    using create_admitted_correct [OF list_store.redis_laws_axioms _ _ _ empty_job_inv f refl refl refl,
        where owner = "''k1''" and m = 2 and n = 2 and now = 1]
    by (auto simp: e tok)
qed

text \<open>
  C17. A finished record is immutable: once a job is done, failed or cancelled, no later
  sequence of operations by any processes, with any faults, changes its record.
\<close>

theorem terminal_record_immutable:
  assumes "redis_laws R kv hash zset rlist" "0 < js_ttl st" "hex_digest (js_sha st)"
    and "job_inv kv hash zset rlist (js_namespace st) s"
    and "fresh_ids hash (js_namespace st) s (all_created ops)"
    and "hash s (job_key (js_namespace st) jid) ''status'' = Some (VStr x)" "x \<in> {''done'', ''failed'', ''cancelled''}"
  shows "hash (run_jobs R st ops s) (job_key (js_namespace st) jid) = hash s (job_key (js_namespace st) jid)"
proof -
  have "jid \<notin> in_flight hash (js_namespace st) s" using assms(6,7) by (auto simp: in_flight_def)
  moreover have "jid \<notin> set (all_created ops)" using assms(5,6) by (auto simp: fresh_ids_def list_all_iff)
  ultimately show ?thesis using redis_laws.run_jobs_good [OF assms(1-5)] by blast
qed

definition done_store :: store where
  "done_store = [(''rx:job:j0'', SHash [(''status'', VStr ''done''), (''result'', VJson JNull)])]"

lemma done_store_views:
  "st_hash done_store k = (if k = ''rx:job:j0''
    then map_of [(''status'', VStr ''done''), (''result'', VJson JNull)] else Map.empty)"
  "st_kv done_store k = None" "st_zset done_store k = Map.empty" "st_list done_store k = []"
  by (simp_all add: st_hash_def st_fields_def st_kv_def st_zset_def st_members_def st_list_def done_store_def)

lemma done_store_inv: "job_inv st_kv st_hash st_zset st_list ''rx'' done_store"
proof -
  have e: "in_flight st_hash ''rx'' done_store = {}" "owned_by st_hash ''rx'' done_store t = {}" for t
    by (auto simp: in_flight_def owned_by_def done_store_views(1) job_key_def split: if_splits)
  show ?thesis
    by (auto simp: job_inv_def job_keys_ok_def job_counts_ok_def e slots_def done_store_views total_count_key_def queue_index_key_def COUNT_KEY_TEMPLATE_def)
qed

theorem terminal_record_immutable_witness:
  "st_hash (run_jobs list_redis demo_store demo_ops done_store) ''rx:job:j0'' = st_hash done_store ''rx:job:j0''"
proof -
  have "fresh_ids st_hash (js_namespace demo_store) done_store (all_created demo_ops)"
    by (simp add: demo_ops_def fresh_ids_def all_created_def done_store_views(1) job_key_def)
  from terminal_record_immutable [OF list_store.redis_laws_axioms _ _ _ this, of "''j0''" "''done''"]
  show ?thesis by (simp add: done_store_inv done_store_views(1) job_key_def)
qed


end
