(* ===== verification/Idempotency.thy ===== *)
theory Idempotency
  imports Access
begin

text \<open>
  \<open>app/api/idempotency.py\<close> and \<open>app/api/cache.py\<close>: the idempotency lease with its two Lua
  scripts, and the identity and envelope of cached responses. The uuid of a lease and the
  key digests are arguments. The lemmas show that only the current holder of a lease can
  publish or release, that a published response is replayed for the same request only, and
  that cache entries of different requests or tenants have different identities.
\<close>

section \<open>The lease\<close>

datatype reservation =
  Acquired string | Completed "(json \<times> json) list" | Conflict | In_progress

text \<open>Python's \<open>==\<close> between a decoded value and an integer constant.\<close>

fun equals_int :: "json \<Rightarrow> int \<Rightarrow> bool" where
  "equals_int (JInt k) i = (k = i)"
| "equals_int (JFloat r) i = (r = of_int i)"
| "equals_int (JBool b) i = ((if b then 1 else 0) = i)"
| "equals_int _ i = False"

definition IDEMPOTENCY_VERSION :: int where
  "IDEMPOTENCY_VERSION = 3"

definition lock_key :: "string \<Rightarrow> string" where
  "lock_key storage_key = storage_key @ '':lock''"

definition decode_idem :: "rv option \<Rightarrow> (json \<times> json) list option" where
  "decode_idem raw =
     (case raw of
        None \<Rightarrow> None
      | Some v \<Rightarrow>
          if v = VStr [] then None
          else (case json_loads v of Inr (JDict d) \<Rightarrow> Some d | _ \<Rightarrow> None))"

text \<open>\<open>SET \<dots> EX ttl\<close>: Redis refuses a time to live that is not positive.\<close>

definition set_ex :: "'s redis \<Rightarrow> string \<Rightarrow> rv \<Rightarrow> int \<Rightarrow> 's \<Rightarrow> unit res \<times> 's" where
  "set_ex R k v ttl s = (if ttl \<le> 0 then (Inl RedisError, s) else (Inr (), r_expire R k ttl (r_set R k v s)))"

definition COMPLETE_SCRIPT :: "'s redis \<Rightarrow> string \<Rightarrow> string \<Rightarrow> string \<Rightarrow> rv \<Rightarrow> int \<Rightarrow> 's \<Rightarrow> int res \<times> 's" where
  "COMPLETE_SCRIPT R k1 k2 token envelope ttl s =
     (if r_get R k1 s = Some (VStr token)
      then (case set_ex R k2 envelope ttl s of
              (Inl e, s1) \<Rightarrow> (Inl e, s1)
            | (Inr _, s1) \<Rightarrow> (Inr 1, r_del R k1 s1))
      else (Inr 0, s))"

definition RELEASE_SCRIPT :: "'s redis \<Rightarrow> string \<Rightarrow> string \<Rightarrow> 's \<Rightarrow> int res \<times> 's" where
  "RELEASE_SCRIPT R k1 token s =
     (if r_get R k1 s = Some (VStr token) then (Inr 1, r_del R k1 s) else (Inr 0, s))"

text \<open>A client call whose answer may itself be an error, with the fault of the network.\<close>

definition net_res :: "fault \<Rightarrow> ('s \<Rightarrow> 'a res \<times> 's) \<Rightarrow> 's \<Rightarrow> 'a res \<times> 's" where
  "net_res flt f = sbind (net flt f) (\<lambda>r s. (r, s))"

text \<open>The two round trips of \<open>reserve\<close>: the inspection of the stored result, then the lock.\<close>

definition inspect_result :: "string \<Rightarrow> rv option \<Rightarrow> reservation option" where
  "inspect_result fingerprint raw =
     (case decode_idem raw of
        None \<Rightarrow> None
      | Some existing \<Rightarrow>
          if existing \<noteq> [] \<and> equals_int (jget existing ''version'') IDEMPOTENCY_VERSION
          then (if jget existing ''fingerprint'' \<noteq> JStr fingerprint then Some Conflict
                else if jget existing ''state'' = JStr ''complete'' \<and> is_JDict (jget existing ''response'')
                then Some (Completed (dict_items (jget existing ''response''))) else None)
          else None)"

definition lock_nx :: "'s redis \<Rightarrow> string \<Rightarrow> string \<Rightarrow> int \<Rightarrow> 's \<Rightarrow> bool res \<times> 's" where
  "lock_nx R k token ttl s =
     (if r_exists R k s then (if ttl \<le> 0 then Inl RedisError else Inr False, s)
      else (case set_ex R k (VStr token) ttl s of (Inl e, s1) \<Rightarrow> (Inl e, s1) | (Inr _, s1) \<Rightarrow> (Inr True, s1)))"

definition reserve ::
  "'s redis \<Rightarrow> fault \<Rightarrow> fault \<Rightarrow> string \<Rightarrow> string \<Rightarrow> string \<Rightarrow> int \<Rightarrow> 's \<Rightarrow> reservation res \<times> 's" where
  "reserve R f1 f2 token storage_key fingerprint ttl =
     sbind (net f1 (read_only (r_get R storage_key))) (\<lambda>raw.
       (case inspect_result fingerprint raw of
          Some r \<Rightarrow> sreturn r
        | None \<Rightarrow>
            sbind (net_res f2 (lock_nx R (lock_key storage_key) token ttl)) (\<lambda>acquired.
              sreturn (if acquired then Acquired token else In_progress))))"

definition idem_envelope :: "string \<Rightarrow> (json \<times> json) list \<Rightarrow> json" where
  "idem_envelope fingerprint response =
     JDict [(JStr ''version'', JInt IDEMPOTENCY_VERSION), (JStr ''state'', JStr ''complete''),
            (JStr ''fingerprint'', JStr fingerprint), (JStr ''response'', JDict response)]"

definition complete_idem ::
  "'s redis \<Rightarrow> fault \<Rightarrow> string \<Rightarrow> string \<Rightarrow> string \<Rightarrow> (json \<times> json) list \<Rightarrow> int \<Rightarrow> 's \<Rightarrow> bool res \<times> 's" where
  "complete_idem R flt storage_key fingerprint token response ttl =
     sbind (net_res flt (COMPLETE_SCRIPT R (lock_key storage_key) storage_key token
       (VJson (idem_envelope fingerprint response)) ttl)) (\<lambda>r. sreturn (r \<noteq> 0))"

definition release_idem :: "'s redis \<Rightarrow> fault \<Rightarrow> string \<Rightarrow> string \<Rightarrow> 's \<Rightarrow> bool res \<times> 's" where
  "release_idem R flt storage_key token =
     sbind (net_res flt (RELEASE_SCRIPT R (lock_key storage_key) token)) (\<lambda>r. sreturn (r \<noteq> 0))"

section \<open>The identity and the envelope of cached responses\<close>

definition CACHE_SCHEMA_VERSION :: int where
  "CACHE_SCHEMA_VERSION = 1"

text \<open>\<open>x or {}\<close> and \<open>x or []\<close> on optional arguments.\<close>

definition policy_or_empty :: "json option \<Rightarrow> json" where
  "policy_or_empty policy = (case policy of None \<Rightarrow> JDict [] | Some p \<Rightarrow> if truthy p then p else JDict [])"

definition types_or_empty :: "string list option \<Rightarrow> json" where
  "types_or_empty types = (case types of None \<Rightarrow> JList [] | Some ts \<Rightarrow> JList (map JStr ts))"

definition redaction_cache_payload ::
  "string \<Rightarrow> json option \<Rightarrow> string list option \<Rightarrow> string \<Rightarrow> bool \<Rightarrow> string \<Rightarrow> string \<Rightarrow> string \<Rightarrow> (json \<times> json) list" where
  "redaction_cache_payload t policy types salt shared mode det revision =
     [(JStr ''cache_version'', JInt 2), (JStr ''text'', JStr t), (JStr ''policy'', policy_or_empty policy),
      (JStr ''entity_types'', types_or_empty types), (JStr ''mode'', JStr mode), (JStr ''detector'', JStr det),
      (JStr ''model_revision'', JStr revision)]
     @ (if \<not> shared then [(JStr ''salt'', JStr salt)] else [])"

text \<open>\<open>json.dumps\<close> with sorted keys, encoded and hashed, is one argument.\<close>

definition redaction_cache_key :: "((json \<times> json) list \<Rightarrow> string) \<Rightarrow> (json \<times> json) list \<Rightarrow> string" where
  "redaction_cache_key digest payload = digest payload"

definition cache_envelope :: "(json \<times> json) list \<Rightarrow> json" where
  "cache_envelope response =
     JDict [(JStr ''schema_version'', JInt CACHE_SCHEMA_VERSION), (JStr ''response'', JDict response)]"

definition decode_cache_envelope :: "rv \<Rightarrow> (json \<times> json) list option" where
  "decode_cache_envelope raw =
     (case json_loads raw of
        Inr (JDict envelope) \<Rightarrow>
          if \<not> equals_int (jget envelope ''schema_version'') CACHE_SCHEMA_VERSION then None
          else (case jget envelope ''response'' of JDict d \<Rightarrow> Some d | _ \<Rightarrow> None)
      | _ \<Rightarrow> None)"

section \<open>The lease as an abstract machine\<close>

text \<open>
  What clients and the server can do to one storage key: a client tries the lock with its
  fresh token, publishes, releases, or the lock expires.
\<close>

datatype lease_event =
  Lock string | Publish string string "(json \<times> json) list" | Release string | Lapse

fun lease_step :: "'s redis \<Rightarrow> string \<Rightarrow> int \<Rightarrow> lease_event \<Rightarrow> 's \<Rightarrow> bool res \<times> 's" where
  "lease_step R k ttl (Lock t) s = lock_nx R (lock_key k) t ttl s"
| "lease_step R k ttl (Publish t fp response) s = complete_idem R None k fp t response ttl s"
| "lease_step R k ttl (Release t) s = release_idem R None k t s"
| "lease_step R k ttl Lapse s = (Inr True, r_del R (lock_key k) s)"

fun lease_run :: "'s redis \<Rightarrow> string \<Rightarrow> int \<Rightarrow> lease_event list \<Rightarrow> 's \<Rightarrow> bool res list \<times> 's" where
  "lease_run R k ttl [] s = ([], s)"
| "lease_run R k ttl (e # es) s =
     (let (r, s1) = lease_step R k ttl e s; (rs, s2) = lease_run R k ttl es s1 in (r # rs, s2))"

text \<open>The specification: who holds the lease, and the published envelope.\<close>

record lease =
  lease_holder :: "string option"
  lease_result :: "rv option"

fun lease_spec :: "lease_event \<Rightarrow> lease \<Rightarrow> bool \<times> lease" where
  "lease_spec (Lock t) l =
     (if lease_holder l = None then (True, l\<lparr>lease_holder := Some t\<rparr>) else (False, l))"
| "lease_spec (Publish t fp response) l =
     (if lease_holder l = Some t
      then (True, \<lparr>lease_holder = None, lease_result = Some (VJson (idem_envelope fp response))\<rparr>) else (False, l))"
| "lease_spec (Release t) l =
     (if lease_holder l = Some t then (True, l\<lparr>lease_holder := None\<rparr>) else (False, l))"
| "lease_spec Lapse l = (True, l\<lparr>lease_holder := None\<rparr>)"

fun lease_spec_run :: "lease_event list \<Rightarrow> lease \<Rightarrow> bool list \<times> lease" where
  "lease_spec_run [] l = ([], l)"
| "lease_spec_run (e # es) l =
     (let (b, l1) = lease_spec e l; (bs, l2) = lease_spec_run es l1 in (b # bs, l2))"

definition lease_of :: "('s \<Rightarrow> string \<Rightarrow> rv option) \<Rightarrow> string \<Rightarrow> 's \<Rightarrow> lease" where
  "lease_of kv k s =
     \<lparr>lease_holder = (case kv s (lock_key k) of Some (VStr t) \<Rightarrow> Some t | _ \<Rightarrow> None), lease_result = kv s k\<rparr>"

lemma lock_key_neq [simp]: "lock_key k \<noteq> k" "k \<noteq> lock_key k"
  by (simp_all add: lock_key_def)

context redis_laws
begin

definition lease_keys_ok :: "string \<Rightarrow> 's \<Rightarrow> bool" where
  "lease_keys_ok k s \<longleftrightarrow> str_key s k \<and> str_key s (lock_key k)
     \<and> (kv s (lock_key k) = None \<or> (\<exists>t. kv s (lock_key k) = Some (VStr t)))"

lemma set_ex_views:
  assumes "str_key s k" "0 < ttl"
  shows "fst (set_ex R k v ttl s) = Inr ()" "kv (snd (set_ex R k v ttl s)) = (kv s)(k \<mapsto> v)"
    "hash (snd (set_ex R k v ttl s)) = hash s" "zset (snd (set_ex R k v ttl s)) = zset s"
    "rlist (snd (set_ex R k v ttl s)) = rlist s"
  using assms by (simp_all add: set_ex_def expire_any set_str)

lemma lock_exists: "lease_keys_ok k s \<Longrightarrow> r_exists R (lock_key k) s \<longleftrightarrow> kv s (lock_key k) \<noteq> None"
  by (simp add: exists_iff lease_keys_ok_def str_key_def)

lemma lock_nx_views:
  assumes "lease_keys_ok k s" "0 < ttl"
  shows "lock_nx R (lock_key k) t ttl s =
    (Inr (kv s (lock_key k) = None),
     if kv s (lock_key k) = None then snd (set_ex R (lock_key k) (VStr t) ttl s) else s)"
proof -
  have sk: "str_key s (lock_key k)" using assms(1) by (simp add: lease_keys_ok_def)
  obtain r s1 where se: "set_ex R (lock_key k) (VStr t) ttl s = (r, s1)" by force
  with set_ex_views(1) [OF sk assms(2), of "VStr t"] have "r = Inr ()" by simp
  with se assms(2) show ?thesis by (simp add: lock_nx_def lock_exists [OF assms(1)])
qed

lemma complete_views:
  assumes "lease_keys_ok k s" "0 < ttl"
  shows "complete_idem R None k fp t response ttl s =
    (Inr (kv s (lock_key k) = Some (VStr t)),
     if kv s (lock_key k) = Some (VStr t)
     then r_del R (lock_key k) (snd (set_ex R k (VJson (idem_envelope fp response)) ttl s)) else s)"
proof -
  have sk: "str_key s k" "str_key s (lock_key k)" using assms(1) by (auto simp: lease_keys_ok_def)
  obtain r s1 where se: "set_ex R k (VJson (idem_envelope fp response)) ttl s = (r, s1)" by force
  with set_ex_views(1) [OF sk(1) assms(2), of "VJson (idem_envelope fp response)"] have "r = Inr ()" by simp
  with se show ?thesis
    by (simp add: complete_idem_def net_res_def sbind_def COMPLETE_SCRIPT_def get_str [OF sk(2)] sreturn_def)
qed

lemma release_views:
  assumes "lease_keys_ok k s"
  shows "release_idem R None k t s =
    (Inr (kv s (lock_key k) = Some (VStr t)),
     if kv s (lock_key k) = Some (VStr t) then r_del R (lock_key k) s else s)"
  using assms by (simp add: release_idem_def net_res_def sbind_def RELEASE_SCRIPT_def get_str lease_keys_ok_def sreturn_def)

lemma lease_step_refines:
  assumes ok: "lease_keys_ok k s" and ttl: "0 < ttl"
  shows "fst (lease_step R k ttl e s) = Inr (fst (lease_spec e (lease_of kv k s)))"
    "lease_of kv k (snd (lease_step R k ttl e s)) = snd (lease_spec e (lease_of kv k s))"
    "lease_keys_ok k (snd (lease_step R k ttl e s))"
proof -
  have sk: "str_key s k" "str_key s (lock_key k)" using ok by (auto simp: lease_keys_ok_def)
  have h: "lease_holder (lease_of kv k s) = Some t \<longleftrightarrow> kv s (lock_key k) = Some (VStr t)"
    "lease_holder (lease_of kv k s) = None \<longleftrightarrow> kv s (lock_key k) = None" for t
    using ok by (auto simp: lease_of_def lease_keys_ok_def)
  note se = set_ex_views [OF sk(1) ttl] set_ex_views [OF sk(2) ttl]
  have "fst (lease_step R k ttl e s) = Inr (fst (lease_spec e (lease_of kv k s)))
    \<and> lease_of kv k (snd (lease_step R k ttl e s)) = snd (lease_spec e (lease_of kv k s))
    \<and> lease_keys_ok k (snd (lease_step R k ttl e s))"
  proof (cases e)
    case (Lock t)
    show ?thesis using ok
      by (simp add: Lock lock_nx_views [OF ok ttl] h) (simp add: lease_of_def lease_keys_ok_def str_key_def se)
  next
    case (Publish t fp response)
    show ?thesis using ok
      by (simp add: Publish complete_views [OF ok ttl] h)
        (simp add: lease_of_def lease_keys_ok_def str_key_def se del_any)
  next
    case (Release t)
    show ?thesis using ok
      by (simp add: Release release_views [OF ok] h) (simp add: lease_of_def lease_keys_ok_def str_key_def del_any)
  next
    case Lapse
    show ?thesis using ok by (simp add: Lapse lease_of_def lease_keys_ok_def str_key_def del_any)
  qed
  then show "fst (lease_step R k ttl e s) = Inr (fst (lease_spec e (lease_of kv k s)))"
    "lease_of kv k (snd (lease_step R k ttl e s)) = snd (lease_spec e (lease_of kv k s))"
    "lease_keys_ok k (snd (lease_step R k ttl e s))" by blast+
qed

lemma lease_run_refines:
  assumes "0 < ttl"
  shows "lease_keys_ok k s \<Longrightarrow>
    fst (lease_run R k ttl es s) = map Inr (fst (lease_spec_run es (lease_of kv k s)))
    \<and> lease_of kv k (snd (lease_run R k ttl es s)) = snd (lease_spec_run es (lease_of kv k s))"
proof (induction es arbitrary: s)
  case (Cons e es)
  note st = lease_step_refines [OF Cons.prems assms, of e]
  from Cons.IH [OF st(3)] st(1,2) show ?case
    by (simp add: Let_def split_beta)
qed simp

end

section \<open>The contract of the lease\<close>

definition successes :: "(lease_event \<Rightarrow> bool) \<Rightarrow> lease_event list \<Rightarrow> bool res list \<Rightarrow> nat" where
  "successes P es rs = length (filter (\<lambda>(e, r). P e \<and> r = Inr True) (zip es rs))"

fun publishes :: "string \<Rightarrow> lease_event \<Rightarrow> bool" where
  "publishes t (Publish u fp response) = (u = t)"
| "publishes t _ = False"

fun locks :: "string \<Rightarrow> lease_event \<Rightarrow> bool" where
  "locks t (Lock u) = (u = t)"
| "locks t _ = False"

lemma successes_Cons:
  "successes P (e # es) (r # rs) = (if P e \<and> r = Inr True then 1 else 0) + successes P es rs"
  by (simp add: successes_def)

lemma spec_publishes_le_locks:
  "successes (publishes t) es (map Inr (fst (lease_spec_run es l))) \<le>
   successes (locks t) es (map Inr (fst (lease_spec_run es l))) + (if lease_holder l = Some t then 1 else 0)"
proof (induction es arbitrary: l)
  case Nil
  then show ?case by (simp add: successes_def)
next
  case (Cons e es)
  show ?case
    using Cons.IH [of "snd (lease_spec e l)"]
    by (cases e) (auto simp: Let_def split_beta successes_Cons split: if_splits)
qed

text \<open>
  C18. On every server that keeps the documented behaviour the lock, publish and release
  scripts with expiry implement the abstract lease: same answers, same holder, same
  published response, for any interleaving of any clients.
\<close>

theorem lease_refinement:
  assumes "redis_laws R kv hash zset rlist" "0 < ttl" "redis_laws.lease_keys_ok kv hash zset rlist k s"
  shows "fst (lease_run R k ttl es s) = map Inr (fst (lease_spec_run es (lease_of kv k s)))
    \<and> lease_of kv k (snd (lease_run R k ttl es s)) = snd (lease_spec_run es (lease_of kv k s))"
  using redis_laws.lease_run_refines [OF assms] .

lemma empty_lease_ok: "list_store.lease_keys_ok k []"
  by (simp add: list_store.lease_keys_ok_def list_store.str_key_def st_kv_def st_hash_def st_zset_def st_list_def
      st_fields_def st_members_def)

theorem lease_refinement_witness:
  "fst (lease_run list_redis ''i'' 5 [Lock ''a'', Lock ''b'', Release ''b'', Publish ''a'' ''f'' []] []) =
     [Inr True, Inr False, Inr False, Inr True]"
  using lease_refinement [OF list_store.redis_laws_axioms _ empty_lease_ok, of 5 "''i''"
      "[Lock ''a'', Lock ''b'', Release ''b'', Publish ''a'' ''f'' []]"]
  by (simp add: lease_of_def st_kv_def)

text \<open>
  A response is published only under a lease: of any interleaving of clients and
  expiries that starts without a lock, each token is published at most as often as it got
  the lock, hence once when tokens are fresh.
\<close>

theorem publish_needs_lease:
  assumes "redis_laws R kv hash zset rlist" "0 < ttl" "redis_laws.lease_keys_ok kv hash zset rlist k s"
    and "kv s (lock_key k) = None"
  shows "successes (publishes t) es (fst (lease_run R k ttl es s)) \<le> successes (locks t) es (fst (lease_run R k ttl es s))"
proof -
  have "lease_holder (lease_of kv k s) = None" by (simp add: lease_of_def assms(4))
  with spec_publishes_le_locks [of t es "lease_of kv k s"] show ?thesis
    by (simp add: redis_laws.lease_run_refines [OF assms(1-3)])
qed

theorem publish_needs_lease_witness:
  "successes (publishes ''b'') [Lock ''a'', Publish ''b'' ''f'' []]
     (fst (lease_run list_redis ''i'' 5 [Lock ''a'', Publish ''b'' ''f'' []] [])) = 0"
proof -
  let ?es = "[Lock ''a'', Publish ''b'' ''f'' []]"
  have "successes (locks ''b'') ?es rs = 0" for rs
    by (auto simp: successes_def filter_empty_conv dest!: set_zip_leftD)
  moreover have "st_kv [] (lock_key ''i'') = None" by (simp add: st_kv_def)
  ultimately show ?thesis
    using publish_needs_lease [OF list_store.redis_laws_axioms _ empty_lease_ok, of 5 "''i''" "''b''" ?es]
    by (simp del: lease_run.simps)
qed

context redis_laws
begin

lemma complete_then_reserve:
  fixes fp :: string and response :: "(json \<times> json) list"
  assumes ok: "lease_keys_ok k s" and ttl: "0 < ttl" and h: "kv s (lock_key k) = Some (VStr t)"
  defines "s1 \<equiv> snd (complete_idem R None k fp t response ttl s)"
  shows "fst (complete_idem R None k fp t response ttl s) = Inr True"
    "reserve R None f2 u k fp' ttl s1 = (Inr (if fp' = fp then Completed response else Conflict), s1)"
proof -
  have sk: "str_key s k" using ok by (auto simp: lease_keys_ok_def)
  note cv = complete_views [OF ok ttl, of fp t response] and se = set_ex_views [OF sk ttl]
  show "fst (complete_idem R None k fp t response ttl s) = Inr True" by (simp add: cv h)
  have "kv s1 k = Some (VJson (idem_envelope fp response))" "str_key s1 k"
    using sk by (simp_all add: s1_def cv h del_any se str_key_def)
  then have get: "r_get R k s1 = Some (VJson (idem_envelope fp response))" by (simp add: get_str)
  have "inspect_result fp' (Some (VJson (idem_envelope fp response))) =
      Some (if fp' = fp then Completed response else Conflict)"
    by (simp add: inspect_result_def decode_idem_def idem_envelope_def jget_def dict_get_def)
  then show "reserve R None f2 u k fp' ttl s1 = (Inr (if fp' = fp then Completed response else Conflict), s1)"
    by (simp add: reserve_def get sreturn_def)
qed

end

text \<open>
  C19. Publish and replay: once the holder of the lease has published a response, every
  request with the same key and the same fingerprint is answered with exactly this
  response, and one with another fingerprint is refused as a conflict; neither changes the
  store.
\<close>

theorem idempotent_replay:
  assumes "redis_laws R kv hash zset rlist" "redis_laws.lease_keys_ok kv hash zset rlist k s" "0 < ttl"
    and "kv s (lock_key k) = Some (VStr t)" "s1 = snd (complete_idem R None k fp t response ttl s)"
  shows "fst (complete_idem R None k fp t response ttl s) = Inr True
    \<and> reserve R None f2 u k fp' ttl s1 = (Inr (if fp' = fp then Completed response else Conflict), s1)"
  using redis_laws.complete_then_reserve [OF assms(1-4)] unfolding assms(5) by blast

theorem idempotent_replay_witness:
  "fst (reserve list_redis None None ''b'' ''i'' ''f'' 5
     (snd (complete_idem list_redis None ''i'' ''f'' ''a'' [(JStr ''text'', JStr ''x'')] 5
       (snd (lock_nx list_redis (lock_key ''i'') ''a'' 5 []))))) = Inr (Completed [(JStr ''text'', JStr ''x'')])"
proof -
  let ?s = "snd (lock_nx list_redis (lock_key ''i'') ''a'' 5 [])"
  have "list_store.lease_keys_ok ''i'' ?s"
    using list_store.lease_step_refines(3) [OF empty_lease_ok, of 5 "''i''" "Lock ''a''"] by simp
  moreover have "st_kv ?s (lock_key ''i'') = Some (VStr ''a'')" by code_simp
  ultimately show ?thesis
    using idempotent_replay [OF list_store.redis_laws_axioms _ _ _ refl, of "''i''" ?s 5 "''a''"] by simp
qed

text \<open>
  The two round trips of \<open>reserve\<close> are not one step: a client that inspected the key before
  another one locked, worked, published and unlocked still gets the lock, and works again.
\<close>

lemma idempotent_double_execution:
  "inspect_result ''f'' (r_get list_redis ''i'' []) = None
   \<and> fst (lease_run list_redis ''i'' 5
       [Lock ''b'', Publish ''b'' ''f'' [], Lock ''a'', Publish ''a'' ''f'' []] []) =
     [Inr True, Inr True, Inr True, Inr True]"
  by code_simp

section \<open>Cache identity and envelope\<close>

lemma types_or_empty_inj:
  "types_or_empty a = types_or_empty b \<longleftrightarrow> (case a of None \<Rightarrow> [] | Some x \<Rightarrow> x) = (case b of None \<Rightarrow> [] | Some x \<Rightarrow> x)"
proof -
  have "map JStr x = map JStr y \<longleftrightarrow> x = y" for x y :: "string list"
    by (rule inj_map_eq_map) (simp add: inj_def)
  then show ?thesis by (auto simp: types_or_empty_def split: option.splits)
qed

text \<open>
  Requests with the same cache identity ask for the same thing: same text, policy,
  entity types, mode, detector and model revision, and the same salt unless both share
  the cache; so a response is never served across salts in the isolated mode.
\<close>

theorem cache_identity_isolated:
  assumes "redaction_cache_payload t policy types salt shared mode det revision =
      redaction_cache_payload t' policy' types' salt' shared' mode' det' revision'"
  shows "t = t' \<and> policy_or_empty policy = policy_or_empty policy'
    \<and> (case types of None \<Rightarrow> [] | Some x \<Rightarrow> x) = (case types' of None \<Rightarrow> [] | Some x \<Rightarrow> x)
    \<and> mode = mode' \<and> det = det' \<and> revision = revision' \<and> shared = shared' \<and> (shared \<or> salt = salt')"
  using assms by (auto simp: redaction_cache_payload_def types_or_empty_inj split: if_splits)

theorem cache_identity_isolated_witness:
  "types_or_empty None = types_or_empty (Some []) \<and> policy_or_empty None = policy_or_empty (Some JNull)"
  using cache_identity_isolated [of "''x''" None None "''s''" False "''legacy''" "''d''" "[]"
      "''x''" "Some JNull" "Some []" "''s''" False "''legacy''" "''d''" "[]"]
  by (simp add: redaction_cache_payload_def policy_or_empty_def types_or_empty_def)

lemma cache_envelope_roundtrip: "decode_cache_envelope (VJson (cache_envelope response)) = Some response"
  by (simp add: decode_cache_envelope_def cache_envelope_def jget_def dict_get_def CACHE_SCHEMA_VERSION_def)

end
