(* ===== verification/Errors.thy ===== *)
theory Errors
  imports Json
begin

text \<open>
  \<open>app/errors.py\<close>: the RFC 7807 problem responses, the typed constructors with their texts,
  and the exception handlers of the application. A request is represented by the template
  of its matched route, if it has one. The lemmas show that the body always repeats the
  status of the response, that its \<open>instance\<close> depends on the matched route only, and which
  response each class of exceptions gets.
\<close>

section \<open>Problems\<close>

record problem =
  pb_type :: string
  pb_title :: string
  pb_status :: nat
  pb_detail :: "string option"
  pb_instance :: "string option"

record http_response =
  hr_status :: nat
  hr_body :: "(json \<times> json) list"

type_synonym route = "string option"

definition safe_problem_instance :: "route \<Rightarrow> string" where
  "safe_problem_instance route = (case route of Some path \<Rightarrow> path | None \<Rightarrow> ''<unmatched>'')"

definition to_response :: "route \<Rightarrow> problem \<Rightarrow> http_response" where
  "to_response route p =
     \<lparr>hr_status = pb_status p,
      hr_body =
        [(JStr ''type'', JStr (pb_type p)), (JStr ''title'', JStr (pb_title p)), (JStr ''status'', JInt (int (pb_status p)))]
        @ (case pb_detail p of None \<Rightarrow> [] | Some d \<Rightarrow> [(JStr ''detail'', JStr d)])
        @ [(JStr ''instance'', JStr (case pb_instance p of Some i \<Rightarrow> i | None \<Rightarrow> safe_problem_instance route))]\<rparr>"

definition problem_response :: "route \<Rightarrow> string \<Rightarrow> string \<Rightarrow> nat \<Rightarrow> string option \<Rightarrow> string option \<Rightarrow> http_response" where
  "problem_response route ty title status detail inst =
     to_response route \<lparr>pb_type = ty, pb_title = title, pb_status = status, pb_detail = detail, pb_instance = inst\<rparr>"

text \<open>The common prefix of the problem types.\<close>

definition error_type :: "string \<Rightarrow> string" where
  "error_type name = ''https://redax.ai/errors/'' @ name"

definition queue_full :: "route \<Rightarrow> string \<Rightarrow> http_response" where
  "queue_full route detail = problem_response route (error_type ''queue-full'') ''Queue Full'' 429 (Some detail) None"

definition job_store_unavailable :: "route \<Rightarrow> string \<Rightarrow> http_response" where
  "job_store_unavailable route detail =
     problem_response route (error_type ''job-store-unavailable'') ''Job Store Unavailable'' 503 (Some detail) None"

definition policy_unavailable :: "route \<Rightarrow> http_response" where
  "policy_unavailable route =
     problem_response route (error_type ''policy-unavailable'') ''Policy Unavailable'' 503
       (Some ''the configured default policy is temporarily unavailable'') None"

definition job_limit :: "route \<Rightarrow> string \<Rightarrow> http_response" where
  "job_limit route detail = problem_response route (error_type ''job-limit'') ''Too Many Jobs'' 429 (Some detail) None"

definition rate_limit_unavailable :: "route \<Rightarrow> string \<Rightarrow> http_response" where
  "rate_limit_unavailable route detail =
     problem_response route (error_type ''rate-limit-unavailable'') ''Rate Limit Unavailable'' 503 (Some detail) None"

definition idempotency_unavailable :: "route \<Rightarrow> string \<Rightarrow> http_response" where
  "idempotency_unavailable route detail =
     problem_response route (error_type ''idempotency-unavailable'') ''Idempotency Unavailable'' 503 (Some detail) None"

definition payload_too_large :: "route \<Rightarrow> string \<Rightarrow> http_response" where
  "payload_too_large route detail =
     problem_response route (error_type ''payload-too-large'') ''Payload Too Large'' 413 (Some detail) None"

definition internal_error :: "route \<Rightarrow> string \<Rightarrow> http_response" where
  "internal_error route detail =
     problem_response route (error_type ''internal'') ''Internal Server Error'' 500 (Some detail) None"

definition invalid_policy :: "route \<Rightarrow> http_response" where
  "invalid_policy route =
     problem_response route (error_type ''invalid-policy'') ''Invalid Policy'' 422
       (Some ''policy could not be validated'') None"

definition timeout_error :: "route \<Rightarrow> string \<Rightarrow> http_response" where
  "timeout_error route detail =
     problem_response route (error_type ''timeout'') ''Gateway Timeout'' 504 (Some detail) None"

text \<open>The default texts of the \<open>detail\<close> arguments.\<close>

definition TIMEOUT_DETAIL :: string where
  "TIMEOUT_DETAIL = ''Request exceeded the service timeout''"

definition RATE_LIMIT_DETAIL :: string where
  "RATE_LIMIT_DETAIL = ''Rate limiting is not available''"

definition INTERNAL_DETAIL :: string where
  "INTERNAL_DETAIL = ''Internal server error''"

definition IDEMPOTENCY_DETAIL :: string where
  "IDEMPOTENCY_DETAIL = ''Idempotency storage is not available''"

section \<open>Validation errors\<close>

text \<open>One error of pydantic: the parts of its location and its message.\<close>

definition join :: "string \<Rightarrow> string list \<Rightarrow> string" where
  "join sep xs = (case xs of [] \<Rightarrow> [] | x # rest \<Rightarrow> x @ concat (map (\<lambda>y. sep @ y) rest))"

definition flatten_validation_errors :: "(string list \<times> string option) list \<Rightarrow> string list" where
  "flatten_validation_errors errors =
     map (\<lambda>(loc, msg). join ''.'' loc @ '': '' @ (case msg of None \<Rightarrow> ''invalid'' | Some m \<Rightarrow> m)) errors"

definition validation_error :: "route \<Rightarrow> (string list \<times> string option) list \<Rightarrow> http_response" where
  "validation_error route errors =
     (let issues = flatten_validation_errors errors
      in problem_response route (error_type ''validation-error'') ''Validation error'' 422
           (Some (if issues \<noteq> [] then join ''; '' issues else ''Invalid request'')) None)"

section \<open>The handlers\<close>

definition http_exception :: "route \<Rightarrow> nat \<Rightarrow> string option \<Rightarrow> http_response" where
  "http_exception route status detail =
     (let title = (case detail of Some (c # cs) \<Rightarrow> c # cs | _ \<Rightarrow> ''Request failed'')
      in problem_response route (error_type (''http-'' @ dec status)) title status detail None)"

definition unhandled_error :: "route \<Rightarrow> http_response" where
  "unhandled_error route = problem_response route (error_type ''internal'') ''Internal Server Error'' 500 None None"

text \<open>
  \<open>install_error_handlers\<close>: the response to what a route lets through, given the detail
  of an \<open>HTTPException\<close>. A cancellation is not an \<open>Exception\<close> and has no handler.
\<close>

definition error_handler :: "route \<Rightarrow> string option \<Rightarrow> exn \<Rightarrow> http_response option" where
  "error_handler route detail e =
     (case e of
        HTTPException status \<Rightarrow> Some (http_exception route status detail)
      | TimeoutError \<Rightarrow> Some (timeout_error route TIMEOUT_DETAIL)
      | RateLimitUnavailable \<Rightarrow> Some (rate_limit_unavailable route RATE_LIMIT_DETAIL)
      | _ \<Rightarrow> if is_Exception e then Some (unhandled_error route) else None)"

lemma problem_response_status [simp]: "hr_status (problem_response route ty title status detail inst) = status"
  by (simp add: problem_response_def to_response_def)

lemmas response_defs =
  queue_full_def job_store_unavailable_def policy_unavailable_def job_limit_def rate_limit_unavailable_def
  idempotency_unavailable_def payload_too_large_def internal_error_def invalid_policy_def timeout_error_def
  unhandled_error_def http_exception_def validation_error_def

lemma response_status [simp]:
  "hr_status (queue_full route d) = 429" "hr_status (job_store_unavailable route d) = 503"
  "hr_status (policy_unavailable route) = 503" "hr_status (job_limit route d) = 429"
  "hr_status (rate_limit_unavailable route d) = 503" "hr_status (idempotency_unavailable route d) = 503"
  "hr_status (payload_too_large route d) = 413" "hr_status (internal_error route d) = 500"
  "hr_status (invalid_policy route) = 422" "hr_status (timeout_error route d) = 504"
  "hr_status (unhandled_error route) = 500" "hr_status (http_exception route s dt) = s"
  "hr_status (validation_error route errors) = 422"
  by (simp_all add: response_defs Let_def)

text \<open>
  Every problem body repeats the status of its response and names nothing of the request
  but the template of its route.
\<close>

lemma problem_response_body:
  "jget (hr_body (problem_response route ty title status detail None)) ''status'' = JInt (int status)
   \<and> jget (hr_body (problem_response route ty title status detail None)) ''instance''
       = JStr (case route of None \<Rightarrow> ''<unmatched>'' | Some p \<Rightarrow> p)"
  by (cases detail) (simp_all add: problem_response_def to_response_def safe_problem_instance_def jget_def dict_get_def
      split: option.split)

text \<open>
  Every exception a route lets through, except a cancellation, is answered by a problem:
  with the status of an \<open>HTTPException\<close>, 504 for a timeout, 503 for the rate limiter,
  else 500; the body repeats the status, its \<open>instance\<close> is the route template, and a 500
  tells nothing about the exception.
\<close>

theorem error_handler_uniform:
  "(case error_handler route detail e of
      None \<Rightarrow> e = CancelledError
    | Some r \<Rightarrow>
        hr_status r = (case e of HTTPException status \<Rightarrow> status | TimeoutError \<Rightarrow> 504 | RateLimitUnavailable \<Rightarrow> 503 | _ \<Rightarrow> 500)
        \<and> jget (hr_body r) ''status'' = JInt (int (hr_status r))
        \<and> jget (hr_body r) ''instance'' = JStr (case route of None \<Rightarrow> ''<unmatched>'' | Some p \<Rightarrow> p)
        \<and> (case e of HTTPException status \<Rightarrow> True | TimeoutError \<Rightarrow> True | RateLimitUnavailable \<Rightarrow> True
            | _ \<Rightarrow> r = unhandled_error route))"
  by (cases e) (simp_all add: error_handler_def is_Exception_def response_defs problem_response_body Let_def
      split del: option.split)

text \<open>Two validation errors can give the same detail text, as neither part is quoted.\<close>

lemma validation_detail_ambiguous:
  "validation_error route [([''a''], Some ''x; b: y'')] = validation_error route [([''a''], Some ''x''), ([''b''], Some ''y'')]"
  by (simp add: validation_error_def flatten_validation_errors_def join_def)

end
