(* ===== verification/AuditLog.thy ===== *)
theory AuditLog
  imports Access Spans
begin

text \<open>
  \<open>app/audit\<close>: the event and its signed serialisation (\<open>backend.py\<close>), the bounded list in
  Redis with its append script (\<open>redis.py\<close>), and the append-only file with rotation,
  retention and the queue (\<open>file.py\<close>). HMAC, the canonical JSON text and the parsing of time
  stamps are arguments. The lemmas show that a signature verifies exactly the signed
  content, that the summary counts every span once, that the two Redis lists stay aligned
  and bounded, and that rotation shifts the generations.
\<close>

section \<open>Events\<close>

record audit_event =
  ev_request_id :: string
  ev_ts :: string
  ev_policy_version :: string
  ev_text_chars :: int
  ev_principal_id :: string
  ev_entities :: json
  ev_inference_ms :: int
  ev_redactor_version :: string
  ev_model_name :: string
  ev_trace_id :: string
  ev_direction :: string

definition AUDIT_SCHEMA_VERSION :: int where
  "AUDIT_SCHEMA_VERSION = 1"

definition AUDIT_INTEGRITY_ALGORITHM :: string where
  "AUDIT_INTEGRITY_ALGORITHM = ''hmac-sha256''"

definition event_to_dict :: "audit_event \<Rightarrow> (json \<times> json) list" where
  "event_to_dict ev =
     [(JStr ''request_id'', JStr (ev_request_id ev)), (JStr ''ts'', JStr (ev_ts ev)),
      (JStr ''policy_version'', JStr (ev_policy_version ev)), (JStr ''text_chars'', JInt (ev_text_chars ev)),
      (JStr ''principal_id'', JStr (ev_principal_id ev)), (JStr ''entities_detected'', ev_entities ev),
      (JStr ''inference_ms'', JInt (ev_inference_ms ev)), (JStr ''redactor_version'', JStr (ev_redactor_version ev)),
      (JStr ''model_name'', JStr (ev_model_name ev)), (JStr ''trace_id'', JStr (ev_trace_id ev)),
      (JStr ''direction'', JStr (ev_direction ev)), (JStr ''schema_version'', JInt AUDIT_SCHEMA_VERSION)]"

definition with_timestamp :: "string \<Rightarrow> audit_event \<Rightarrow> audit_event" where
  "with_timestamp now ev = (if ev_ts ev \<noteq> [] then ev else ev\<lparr>ev_ts := now\<rparr>)"

text \<open>The canonical text: \<open>json.dumps\<close> with sorted keys; the digest: HMAC-SHA256 in hexadecimal.\<close>

record audit_env =
  ae_canonical :: "(json \<times> json) list \<Rightarrow> string"
  ae_hmac :: "string \<Rightarrow> string \<Rightarrow> string"

definition signed_event_payload :: "audit_env \<Rightarrow> string \<Rightarrow> audit_event \<Rightarrow> string \<Rightarrow> (json \<times> json) list" where
  "signed_event_payload ae now ev key =
     (let payload = event_to_dict (with_timestamp now ev)
      in if key \<noteq> []
         then payload @ [(JStr ''integrity'', JDict
           [(JStr ''algorithm'', JStr AUDIT_INTEGRITY_ALGORITHM),
            (JStr ''digest'', JStr (ae_hmac ae key (ae_canonical ae payload)))])]
         else payload)"

definition unsigned :: "(json \<times> json) list \<Rightarrow> (json \<times> json) list" where
  "unsigned payload = filter (\<lambda>(k, v). k \<noteq> JStr ''integrity'') payload"

definition verify_event_integrity :: "audit_env \<Rightarrow> (json \<times> json) list \<Rightarrow> string \<Rightarrow> bool res" where
  "verify_event_integrity ae payload key =
     (case jget payload ''integrity'' of
        JDict integrity \<Rightarrow>
          if jget integrity ''algorithm'' \<noteq> JStr AUDIT_INTEGRITY_ALGORITHM then Inr False
          else (case jget integrity ''digest'' of
                  JStr digest \<Rightarrow> compare_digest digest (ae_hmac ae key (ae_canonical ae (unsigned payload)))
                | _ \<Rightarrow> Inr False)
      | _ \<Rightarrow> Inr False)"

section \<open>\<open>span_summary\<close>\<close>

text \<open>\<open>grouped.setdefault(span.type, []).append(span.confidence)\<close>\<close>

fun group_add :: "span \<Rightarrow> (string \<times> rat list) list \<Rightarrow> (string \<times> rat list) list" where
  "group_add s [] = [(s_type s, [s_conf s])]"
| "group_add s ((t, cs) # g) = (if t = s_type s then (t, cs @ [s_conf s]) # g else (t, cs) # group_add s g)"

definition group_spans :: "span list \<Rightarrow> (string \<times> rat list) list" where
  "group_spans spans = foldl (\<lambda>g s. group_add s g) [] spans"

text \<open>\<open>round(x, 3)\<close>, to the even neighbour on a tie.\<close>

definition round3 :: "rat \<Rightarrow> rat" where
  "round3 x =
     (let y = x * 1000; f = \<lfloor>y\<rfloor>; d = y - of_int f
      in of_int (if d < 1 / 2 then f else if d > 1 / 2 then f + 1 else if even f then f else f + 1) / 1000)"

definition summary_entry :: "string \<Rightarrow> nat \<Rightarrow> rat \<Rightarrow> json" where
  "summary_entry ty n avg =
     JDict [(JStr ''type'', JStr ty), (JStr ''count'', JInt (int n)), (JStr ''confidence_avg'', JFloat avg)]"

definition span_summary :: "span list \<Rightarrow> json list" where
  "span_summary spans =
     map (\<lambda>(ty, cs). summary_entry ty (length cs)
            (if cs \<noteq> [] then round3 (sum_list cs / of_nat (length cs)) else 0))
       (sort_key fst (group_spans spans))"

definition fallback_entry :: json where
  "fallback_entry = summary_entry ''__used_fallback__'' 1 0"

definition pipeline_to_event ::
  "string \<Rightarrow> int \<Rightarrow> string \<Rightarrow> int \<Rightarrow> span list \<Rightarrow> bool \<Rightarrow> string \<Rightarrow> string \<Rightarrow> audit_event" where
  "pipeline_to_event request_id chars version ms spans used_fallback model_hash redactor =
     \<lparr>ev_request_id = request_id, ev_ts = [], ev_policy_version = version, ev_text_chars = chars,
      ev_principal_id = [], ev_entities = JList ((if used_fallback then [fallback_entry] else []) @ span_summary spans),
      ev_inference_ms = ms, ev_redactor_version = redactor, ev_model_name = model_hash, ev_trace_id = [],
      ev_direction = ''egress''\<rparr>"

section \<open>The Redis list\<close>

record redis_audit =
  ra_client :: bool
  ra_namespace :: string
  ra_max_events :: int
  ra_retention :: int
  ra_required :: bool
  ra_integrity_key :: string

definition audit_key :: "string \<Rightarrow> string" where
  "audit_key ns = ns @ '':audit:events''"

definition audit_time_key :: "string \<Rightarrow> string" where
  "audit_time_key ns = ns @ '':audit:event-timestamps''"

text \<open>\<open>for _ = timestamp_count + 1, event_count do RPUSH \<dots>\<close>\<close>

fun pad_list :: "'s redis \<Rightarrow> string \<Rightarrow> rv \<Rightarrow> nat \<Rightarrow> 's \<Rightarrow> 's" where
  "pad_list R k v 0 s = s"
| "pad_list R k v (Suc n) s = pad_list R k v n (r_rpush R k v s)"

text \<open>
  The closing loop removes the heads while they are older than the cutoff; the length of
  the list of times bounds the number of rounds.
\<close>

fun drop_expired :: "'s redis \<Rightarrow> string \<Rightarrow> string \<Rightarrow> rat \<Rightarrow> nat \<Rightarrow> 's \<Rightarrow> 's" where
  "drop_expired R k1 k2 cutoff 0 s = s"
| "drop_expired R k1 k2 cutoff (Suc n) s =
     (if r_llen R k2 s > 0
      then (case (case r_lhead R k2 s of None \<Rightarrow> None | Some v \<Rightarrow> tonumber v) of
              None \<Rightarrow> s
            | Some oldest \<Rightarrow>
                if oldest \<ge> cutoff then s
                else drop_expired R k1 k2 cutoff n (r_lpop R k2 (r_lpop R k1 s)))
      else s)"

definition APPEND_AUDIT_SCRIPT ::
  "'s redis \<Rightarrow> string \<Rightarrow> string \<Rightarrow> rv \<Rightarrow> rat \<Rightarrow> int \<Rightarrow> rat \<Rightarrow> int \<Rightarrow> 's \<Rightarrow> int \<times> 's" where
  "APPEND_AUDIT_SCRIPT R k1 k2 payload now max_events cutoff ttl s =
     (let event_count = r_llen R k1 s; timestamp_count = r_llen R k2 s;
          s1 = (if timestamp_count < event_count then pad_list R k2 (VNum now) (event_count - timestamp_count) s
                else if timestamp_count > event_count then r_ltrim_last R k2 (int event_count) s else s);
          s2 = r_rpush R k2 (VNum now) (r_rpush R k1 payload s1);
          s3 = r_ltrim_last R k2 max_events (r_ltrim_last R k1 max_events s2);
          s4 = drop_expired R k1 k2 cutoff (r_llen R k2 s3) s3
      in (1, r_expire R k2 ttl (r_expire R k1 ttl s4)))"

text \<open>\<open>record\<close>: the result, the new \<open>failed\<close> flag and the server state.\<close>

definition redis_audit_record ::
  "'s redis \<Rightarrow> audit_env \<Rightarrow> redis_audit \<Rightarrow> fault \<Rightarrow> rat \<Rightarrow> rat \<Rightarrow> string \<Rightarrow> audit_event \<Rightarrow> bool \<Rightarrow> 's \<Rightarrow>
   unit res \<times> bool \<times> 's" where
  "redis_audit_record R ae ra flt now later now_text ev is_failed s =
     (if \<not> ra_client ra then (Inl RuntimeError, is_failed, s)
      else
        (case net flt (APPEND_AUDIT_SCRIPT R (audit_key (ra_namespace ra)) (audit_time_key (ra_namespace ra))
                 (VJson (JDict (signed_event_payload ae now_text ev (ra_integrity_key ra)))) now
                 (ra_max_events ra) (later - of_int (ra_retention ra)) (ra_retention ra)) s of
           (Inr _, s1) \<Rightarrow> (Inr (), False, s1)
         | (Inl e, s1) \<Rightarrow>
             if is_os_error e \<or> e = RedisError \<or> is_runtime_error e \<or> is_value_error e
             then (if ra_required ra then Inl RuntimeError else Inr (), True, s1)
             else (Inl e, is_failed, s1)))"

section \<open>The file\<close>

text \<open>
  The file system maps a path to a content, one character per byte. An append may fail in
  the executor with an exception of the operating system, before or after it took effect.
\<close>

type_synonym files = "string \<Rightarrow> string option"

definition backup :: "string \<Rightarrow> nat \<Rightarrow> string" where
  "backup path i = path @ ''.'' @ dec i"

text \<open>The renames of \<open>range(rotation_backups, 1, -1)\<close>.\<close>

fun shift_backups :: "string \<Rightarrow> nat \<Rightarrow> files \<Rightarrow> files" where
  "shift_backups path (Suc (Suc i)) fs =
     shift_backups path (Suc i)
       (case fs (backup path (Suc i)) of
          None \<Rightarrow> fs
        | Some c \<Rightarrow> fs(backup path (Suc (Suc i)) \<mapsto> c, backup path (Suc i) := None))"
| "shift_backups path i fs = fs"

definition rotate_if_needed :: "string \<Rightarrow> int \<Rightarrow> int \<Rightarrow> files \<Rightarrow> files" where
  "rotate_if_needed path max_bytes rotation_backups fs =
     (if max_bytes \<le> 0 then fs
      else
        (case fs path of
           None \<Rightarrow> fs
         | Some c \<Rightarrow>
             if int (length c) < max_bytes then fs
             else if rotation_backups \<le> 0 then fs(path \<mapsto> [])
             else (let fs1 = shift_backups path (nat rotation_backups) fs
                   in fs1(backup path 1 := fs1 path, path := None))))"

definition append_line :: "string \<Rightarrow> string \<Rightarrow> int \<Rightarrow> int \<Rightarrow> files \<Rightarrow> files" where
  "append_line path line max_bytes rotation_backups fs =
     (let fs1 = rotate_if_needed path max_bytes rotation_backups fs
      in fs1(path \<mapsto> (case fs1 path of None \<Rightarrow> [] | Some c \<Rightarrow> c) @ line))"

definition newline :: char where
  "newline = CHR 10"

text \<open>\<open>str.splitlines\<close> on characters below 256.\<close>

definition line_break :: "char \<Rightarrow> bool" where
  "line_break c \<longleftrightarrow> code c \<in> {10, 11, 12, 13, 28, 29, 30, 133}"

function split_lines :: "string \<Rightarrow> string \<Rightarrow> string list" where
  "split_lines acc [] = (if acc = [] then [] else [rev acc])"
| "split_lines acc (c # cs) =
     (if code c = 13 \<and> cs \<noteq> [] \<and> code (hd cs) = 10 then rev acc # split_lines [] (tl cs)
      else if line_break c then rev acc # split_lines [] cs
      else split_lines (c # acc) cs)"
  by pat_completeness auto
termination by (relation "measure (\<lambda>(acc, cs). length cs)") auto

text \<open>Whether startup keeps a line; \<open>loads\<close> is \<open>json.loads\<close>, \<open>stamp\<close> the parsing of an ISO time.\<close>

definition keep_line :: "(string \<Rightarrow> json res) \<Rightarrow> (string \<Rightarrow> rat res) \<Rightarrow> rat \<Rightarrow> string \<Rightarrow> bool res" where
  "keep_line loads stamp cutoff line =
     (case bind_res (loads line) (\<lambda>j.
             case j of
               JDict d \<Rightarrow>
                 (if \<not> truthy (jget d ''ts'') then Inr True
                  else (case jget d ''ts'' of
                          JStr ts \<Rightarrow> map_res (\<lambda>t. t \<ge> cutoff) (stamp ts)
                        | _ \<Rightarrow> Inl TypeError))
             | _ \<Rightarrow> Inl AttributeError) of
        Inr b \<Rightarrow> Inr b
      | Inl e \<Rightarrow> if is_value_error e \<or> e = TypeError then Inr True else Inl e)"

fun keep_lines :: "(string \<Rightarrow> json res) \<Rightarrow> (string \<Rightarrow> rat res) \<Rightarrow> rat \<Rightarrow> string list \<Rightarrow> string list res" where
  "keep_lines loads stamp cutoff [] = Inr []"
| "keep_lines loads stamp cutoff (l # ls) =
     bind_res (keep_line loads stamp cutoff l) (\<lambda>b.
       map_res (\<lambda>kept. if b then l # kept else kept) (keep_lines loads stamp cutoff ls))"

definition join_lines :: "string list \<Rightarrow> string" where
  "join_lines kept = concat (map (\<lambda>l. l @ [newline]) kept)"

definition prune_old_events ::
  "(string \<Rightarrow> json res) \<Rightarrow> (string \<Rightarrow> rat res) \<Rightarrow> rat \<Rightarrow> string \<Rightarrow> int \<Rightarrow> files \<Rightarrow> files res" where
  "prune_old_events loads stamp now path retention fs =
     (if retention \<le> 0 \<or> fs path = None then Inr fs
      else
        (let lines = split_lines [] (case fs path of None \<Rightarrow> [] | Some c \<Rightarrow> c)
         in map_res (\<lambda>kept. if length kept < length lines then fs(path \<mapsto> join_lines kept) else fs)
              (keep_lines loads stamp (now - of_int retention) lines)))"

text \<open>The backend: its configuration, and the queue of the background flusher once started.\<close>

record file_audit =
  fa_path :: string
  fa_required :: bool
  fa_max_bytes :: int
  fa_backups :: int
  fa_retention :: int
  fa_integrity_key :: string
  fa_queue :: "audit_event list option"
  fa_dropped :: nat
  fa_failed :: bool

definition QUEUE_SIZE :: nat where
  "QUEUE_SIZE = 10000"

text \<open>The line of an event; \<open>dumps\<close> is \<open>json.dumps\<close>.\<close>

definition audit_line :: "audit_env \<Rightarrow> ((json \<times> json) list \<Rightarrow> string) \<Rightarrow> string \<Rightarrow> audit_event \<Rightarrow> string \<Rightarrow> string" where
  "audit_line ae dumps now_text ev key = dumps (signed_event_payload ae now_text ev key) @ [newline]"

definition write_line :: "file_audit \<Rightarrow> fault \<Rightarrow> string \<Rightarrow> files \<Rightarrow> unit res \<times> files" where
  "write_line fa flt line =
     net flt (write_only (append_line (fa_path fa) line (fa_max_bytes fa) (fa_backups fa)))"

definition file_start ::
  "(string \<Rightarrow> json res) \<Rightarrow> (string \<Rightarrow> rat res) \<Rightarrow> rat \<Rightarrow> file_audit \<Rightarrow> files \<Rightarrow> file_audit res \<times> files" where
  "file_start loads stamp now fa fs =
     (let fs1 = (if fs (fa_path fa) = None then fs(fa_path fa \<mapsto> []) else fs)
      in (case prune_old_events loads stamp now (fa_path fa) (fa_retention fa) fs1 of
            Inl e \<Rightarrow> (Inl e, fs1)
          | Inr fs2 \<Rightarrow> (Inr (fa\<lparr>fa_failed := False, fa_queue := Some []\<rparr>), fs2)))"

definition file_record ::
  "audit_env \<Rightarrow> ((json \<times> json) list \<Rightarrow> string) \<Rightarrow> fault \<Rightarrow> string \<Rightarrow> audit_event \<Rightarrow> file_audit \<Rightarrow> files \<Rightarrow>
   unit res \<times> file_audit \<times> files" where
  "file_record ae dumps flt now_text ev fa fs =
     (case fa_queue fa of
        None \<Rightarrow> (if fa_required fa then Inl RuntimeError else Inr (), fa, fs)
      | Some q \<Rightarrow>
          if fa_failed fa \<and> fa_required fa then (Inl RuntimeError, fa, fs)
          else if fa_required fa then
            (case write_line fa flt (audit_line ae dumps now_text ev (fa_integrity_key fa)) fs of
               (Inr _, fs1) \<Rightarrow> (Inr (), fa, fs1)
             | (Inl e, fs1) \<Rightarrow>
                 if is_os_error e \<or> is_runtime_error e \<or> is_value_error e
                 then (Inl RuntimeError, fa\<lparr>fa_failed := True\<rparr>, fs1) else (Inl e, fa, fs1))
          else if length q < QUEUE_SIZE then (Inr (), fa\<lparr>fa_queue := Some (q @ [ev])\<rparr>, fs)
          else (Inr (), fa\<lparr>fa_dropped := fa_dropped fa + 1\<rparr>, fs))"

text \<open>One round of \<open>drain\<close> on a queued event; an uncaught class ends the task.\<close>

definition drain_step ::
  "audit_env \<Rightarrow> ((json \<times> json) list \<Rightarrow> string) \<Rightarrow> fault \<Rightarrow> string \<Rightarrow> file_audit \<Rightarrow> files \<Rightarrow>
   unit res \<times> file_audit \<times> files" where
  "drain_step ae dumps flt now_text fa fs =
     (case fa_queue fa of
        Some (ev # q) \<Rightarrow>
          (case write_line fa flt (audit_line ae dumps now_text ev (fa_integrity_key fa)) fs of
             (Inr _, fs1) \<Rightarrow> (Inr (), fa\<lparr>fa_queue := Some q\<rparr>, fs1)
           | (Inl e, fs1) \<Rightarrow>
               if is_os_error e \<or> is_runtime_error e \<or> is_value_error e
               then (Inr (), fa\<lparr>fa_queue := Some q, fa_failed := True\<rparr>, fs1)
               else (Inl e, fa\<lparr>fa_queue := Some q\<rparr>, fs1))
      | _ \<Rightarrow> (Inr (), fa, fs))"

section \<open>Signatures\<close>

lemma map_of_event_integrity: "map_of (event_to_dict ev) (JStr ''integrity'') = None"
  by (simp add: event_to_dict_def)

lemma unsigned_event [simp]: "unsigned (event_to_dict ev) = event_to_dict ev"
  by (simp add: unsigned_def event_to_dict_def)

lemma verify_event_integrity_iff:
  assumes "\<And>k x. is_ascii (ae_hmac ae k x)"
  shows "verify_event_integrity ae p key = Inr True \<longleftrightarrow>
    (\<exists>i. jget p ''integrity'' = JDict i \<and> jget i ''algorithm'' = JStr AUDIT_INTEGRITY_ALGORITHM
       \<and> jget i ''digest'' = JStr (ae_hmac ae key (ae_canonical ae (unsigned p))))"
  using assms by (auto simp: verify_event_integrity_def compare_digest_def split: json.splits)

lemma signed_integrity:
  assumes "key \<noteq> []"
  shows "unsigned (signed_event_payload ae now ev key) = event_to_dict (with_timestamp now ev)"
    "jget (signed_event_payload ae now ev key) ''integrity'' = JDict
       [(JStr ''algorithm'', JStr AUDIT_INTEGRITY_ALGORITHM),
        (JStr ''digest'', JStr (ae_hmac ae key (ae_canonical ae (event_to_dict (with_timestamp now ev)))))]"
proof -
  have sp: "signed_event_payload ae now ev key = event_to_dict (with_timestamp now ev) @ [(JStr ''integrity'', JDict
       [(JStr ''algorithm'', JStr AUDIT_INTEGRITY_ALGORITHM),
        (JStr ''digest'', JStr (ae_hmac ae key (ae_canonical ae (event_to_dict (with_timestamp now ev)))))])]"
    using assms by (simp add: signed_event_payload_def Let_def)
  show "unsigned (signed_event_payload ae now ev key) = event_to_dict (with_timestamp now ev)"
    using unsigned_event [of "with_timestamp now ev"] by (simp add: sp unsigned_def)
  show "jget (signed_event_payload ae now ev key) ''integrity'' = JDict
       [(JStr ''algorithm'', JStr AUDIT_INTEGRITY_ALGORITHM),
        (JStr ''digest'', JStr (ae_hmac ae key (ae_canonical ae (event_to_dict (with_timestamp now ev)))))]"
    by (simp add: sp jget_def dict_get_def event_to_dict_def)
qed

text \<open>
  C25. The signature is exact, for any payload: it verifies if and only if its integrity
  field is an object that names the algorithm and whose digest is the string of the HMAC, under
  the key, of the payload without that field; an absent or malformed field never verifies.
  A signed event verifies. A payload that verifies and carries the signature of an event has
  the HMAC of the event's content, so tampering goes unnoticed only through a collision.
\<close>

theorem audit_tamper_evident:
  assumes "key \<noteq> []" "\<And>k x. is_ascii (ae_hmac ae k x)"
  shows "(verify_event_integrity ae p key = Inr True \<longleftrightarrow>
      (\<exists>i. jget p ''integrity'' = JDict i \<and> jget i ''algorithm'' = JStr AUDIT_INTEGRITY_ALGORITHM
         \<and> jget i ''digest'' = JStr (ae_hmac ae key (ae_canonical ae (unsigned p)))))
    \<and> verify_event_integrity ae (signed_event_payload ae now ev key) key = Inr True
    \<and> (verify_event_integrity ae p key = Inr True
        \<and> jget p ''integrity'' = jget (signed_event_payload ae now ev key) ''integrity'' \<longrightarrow>
        ae_hmac ae key (ae_canonical ae (unsigned p))
          = ae_hmac ae key (ae_canonical ae (event_to_dict (with_timestamp now ev))))"
proof -
  note iff = verify_event_integrity_iff [OF assms(2)] and sg = signed_integrity [OF assms(1), of ae now ev]
  have "verify_event_integrity ae (signed_event_payload ae now ev key) key = Inr True"
    unfolding iff sg by (simp add: jget_def dict_get_def)
  then show ?thesis unfolding iff sg by (auto simp: jget_def dict_get_def)
qed

definition demo_event :: audit_event where
  "demo_event = pipeline_to_event ''r1'' 10 ''1'' 5 [\<lparr>s_start = 0, s_end = 2, s_type = ''EMAIL'', s_conf = 1\<rparr>]
     False '''' ''0.1.0''"

definition demo_audit_env :: audit_env where
  "demo_audit_env = \<lparr>ae_canonical = (\<lambda>d. dec (length d)), ae_hmac = (\<lambda>k x. ''0a'')\<rparr>"

theorem audit_tamper_evident_witness:
  "verify_event_integrity demo_audit_env (signed_event_payload demo_audit_env ''t0'' demo_event ''k'') ''k'' = Inr True
    \<and> verify_event_integrity demo_audit_env (event_to_dict demo_event) ''k'' \<noteq> Inr True"
proof -
  have asc: "is_ascii (ae_hmac demo_audit_env k x)" for k x
    by (simp add: demo_audit_env_def is_ascii_def)
  have "jget (event_to_dict demo_event) ''integrity'' = JNull"
    using map_of_event_integrity [of demo_event] by (simp add: jget_def dict_get_def)
  with audit_tamper_evident [OF _ asc, of "''k''" "event_to_dict demo_event" "''t0''" demo_event]
  show ?thesis by simp
qed

section \<open>The summary counts every span once\<close>

lemma map_of_group_add:
  "map_of (group_add s g) t =
     (if t = s_type s then Some ((case map_of g t of None \<Rightarrow> [] | Some cs \<Rightarrow> cs) @ [s_conf s]) else map_of g t)"
  by (induction s g rule: group_add.induct) auto

lemma distinct_group_add:
  "distinct (map fst g) \<Longrightarrow>
   distinct (map fst (group_add s g)) \<and> fst ` set (group_add s g) = insert (s_type s) (fst ` set g)"
  by (induction s g rule: group_add.induct) auto

definition confs :: "span list \<Rightarrow> string \<Rightarrow> rat list" where
  "confs spans t = map s_conf (filter (\<lambda>s. s_type s = t) spans)"

lemma group_spans_map:
  "map_of (group_spans spans) t = (if t \<in> s_type ` set spans then Some (confs spans t) else None)
   \<and> distinct (map fst (group_spans spans)) \<and> fst ` set (group_spans spans) = s_type ` set spans"
proof (induction spans arbitrary: t rule: rev_induct)
  case Nil
  then show ?case by (simp add: group_spans_def)
next
  case (snoc s ss)
  have step: "group_spans (ss @ [s]) = group_add s (group_spans ss)" by (simp add: group_spans_def)
  have "confs ss (s_type s) = []" if "s_type s \<notin> s_type ` set ss"
    using that by (auto simp: confs_def filter_empty_conv image_iff)
  with snoc.IH [of t] snoc.IH [of "s_type s"] distinct_group_add [of "group_spans ss" s] show ?case
    by (auto simp: step map_of_group_add confs_def)
qed

text \<open>
  The audit summary is the reference summary: one entry for each entity type that
  occurs, in the order of the types, with the number of its spans and the rounded mean of
  their confidences.
\<close>

theorem span_summary_reference:
  "span_summary spans =
     map (\<lambda>ty. summary_entry ty (length (confs spans ty))
            (round3 (sum_list (confs spans ty) / of_nat (length (confs spans ty)))))
       (sorted_list_of_set (s_type ` set spans))"
proof -
  let ?g = "group_spans spans"
  let ?f = "\<lambda>ty cs. summary_entry ty (length cs) (if cs \<noteq> [] then round3 (sum_list cs / of_nat (length cs)) else 0)"
  have d: "distinct (map fst (sort_key fst ?g))" and s: "sorted (map fst (sort_key fst ?g))"
    and set: "set (map fst (sort_key fst ?g)) = s_type ` set spans"
    using group_spans_map [of spans] by (simp_all add: distinct_map)
  have keys: "map fst (sort_key fst ?g) = sorted_list_of_set (s_type ` set spans)"
    using sorted_list_of_set.idem_if_sorted_distinct [OF s d] set by simp
  have entry: "cs = confs spans ty \<and> cs \<noteq> []" if "(ty, cs) \<in> set (sort_key fst ?g)" for ty cs
  proof -
    have "distinct (map fst ?g)" using group_spans_map [of spans] by blast
    then have "map_of ?g ty = Some cs" using that by (intro map_of_is_SomeI) (simp_all add: distinct_map)
    with group_spans_map [of spans ty] have "cs = confs spans ty" "ty \<in> s_type ` set spans"
      by (simp_all split: if_splits)
    then show ?thesis by (auto simp: confs_def filter_empty_conv)
  qed
  have "span_summary spans = map (\<lambda>(ty, cs). ?f ty cs) (sort_key fst ?g)" by (simp add: span_summary_def)
  also have "\<dots> = map (\<lambda>ty. ?f ty (confs spans ty)) (map fst (sort_key fst ?g))"
    using entry by (auto simp del: set_sort)
  also have "\<dots> = map (\<lambda>ty. summary_entry ty (length (confs spans ty))
            (round3 (sum_list (confs spans ty) / of_nat (length (confs spans ty))))) (map fst (sort_key fst ?g))"
    using entry by (auto simp del: set_sort)
  finally show ?thesis by (simp only: keys)
qed

section \<open>The Redis log stays aligned and bounded\<close>

lemma audit_key_neq [simp]: "audit_key ns \<noteq> audit_time_key ns" "audit_time_key ns \<noteq> audit_key ns"
  by (simp_all add: audit_key_def audit_time_key_def)

context redis_laws
begin

text \<open>Both keys hold lists of the same length.\<close>

definition audit_aligned :: "string \<Rightarrow> string \<Rightarrow> 's \<Rightarrow> bool" where
  "audit_aligned k1 k2 s \<longleftrightarrow> list_key s k1 \<and> list_key s k2 \<and> length (rlist s k1) = length (rlist s k2)"

lemma drop_expired_suffix:
  assumes "k1 \<noteq> k2"
  shows "audit_aligned k1 k2 s \<Longrightarrow> rlist s k2 = ts @ [VNum now] \<Longrightarrow> cutoff \<le> now \<Longrightarrow>
    \<exists>n \<le> length ts. rlist (drop_expired R k1 k2 cutoff fuel s) k1 = drop n (rlist s k1)
      \<and> rlist (drop_expired R k1 k2 cutoff fuel s) k2 = drop n (rlist s k2)
      \<and> audit_aligned k1 k2 (drop_expired R k1 k2 cutoff fuel s)"
proof (induction fuel arbitrary: s ts)
  case 0
  then show ?case by (auto intro!: exI [of _ 0])
next
  case (Suc fuel)
  have lk: "list_key s k1" "list_key s k2" using Suc.prems(1) by (simp_all add: audit_aligned_def)
  let ?s1 = "r_lpop R k1 s" and ?s2 = "r_lpop R k2 (r_lpop R k1 s)"
  have lk1: "list_key ?s1 k2" using lk by (simp add: list_key_def lpop_list [OF lk(1)])
  have r2: "rlist ?s2 k1 = tl (rlist s k1)" "rlist ?s2 k2 = tl (rlist s k2)"
    using assms by (simp_all add: lpop_list [OF lk1] lpop_list [OF lk(1)])
  have step: "drop_expired R k1 k2 cutoff (Suc fuel) s = s
    \<or> drop_expired R k1 k2 cutoff (Suc fuel) s = drop_expired R k1 k2 cutoff fuel ?s2"
    by (simp split: option.split)
  show ?case
  proof (cases "ts = [] \<or> drop_expired R k1 k2 cutoff (Suc fuel) s = s")
    case True
    then have "drop_expired R k1 k2 cutoff (Suc fuel) s = s"
    proof
      assume "ts = []"
      then show ?thesis using Suc.prems(2,3) by (simp add: llen_list [OF lk(2)] lhead_list [OF lk(2)])
    qed
    then show ?thesis using Suc.prems(1) by (auto intro!: exI [of _ 0] simp del: drop_expired.simps)
  next
    case False
    then obtain t ts' where ts: "ts = t # ts'" by (cases ts) auto
    have de: "drop_expired R k1 k2 cutoff (Suc fuel) s = drop_expired R k1 k2 cutoff fuel ?s2"
      using step False by (simp del: drop_expired.simps)
    have "audit_aligned k1 k2 ?s2"
    proof -
      have "list_key ?s2 k1" "list_key ?s2 k2"
        using lk by (simp_all only: list_key_def lpop_list(2-4) [OF lk1] lpop_list(2-4) [OF lk(1)])
      moreover have "length (rlist ?s2 k1) = length (rlist ?s2 k2)"
        unfolding r2 length_tl using Suc.prems(1) by (simp only: audit_aligned_def)
      ultimately show ?thesis unfolding audit_aligned_def by blast
    qed
    moreover have "rlist ?s2 k2 = ts' @ [VNum now]" using Suc.prems(2) by (simp add: r2 ts)
    ultimately obtain n where "n \<le> length ts'" "rlist (drop_expired R k1 k2 cutoff fuel ?s2) k1 = drop n (tl (rlist s k1))"
      "rlist (drop_expired R k1 k2 cutoff fuel ?s2) k2 = drop n (tl (rlist s k2))"
      "audit_aligned k1 k2 (drop_expired R k1 k2 cutoff fuel ?s2)"
      using Suc.IH [OF _ _ Suc.prems(3), of ?s2 ts'] unfolding r2 by blast
    then show ?thesis
      by (intro exI [of _ "Suc n"]) (simp add: de ts drop_Suc del: drop_expired.simps)
  qed
qed

lemma append_script_views:
  fixes payload :: rv
  assumes neq: "k1 \<noteq> k2" and al: "audit_aligned k1 k2 s" and pos: "0 < m" "0 < ttl" and cut: "cutoff \<le> now"
  defines "s' \<equiv> snd (APPEND_AUDIT_SCRIPT R k1 k2 payload now m cutoff ttl s)"
  shows "audit_aligned k1 k2 s' \<and> int (length (rlist s' k1)) \<le> m
    \<and> (\<exists>n \<le> length (rlist s k1). rlist s' k1 = drop n (rlist s k1) @ [payload]
         \<and> rlist s' k2 = drop n (rlist s k2) @ [VNum now])"
proof -
  have lk: "list_key s k1" "list_key s k2" and len: "length (rlist s k1) = length (rlist s k2)"
    using al by (simp_all add: audit_aligned_def)
  define s1 where "s1 = r_rpush R k1 payload s"
  define s2 where "s2 = r_rpush R k2 (VNum now) s1"
  define s3a where "s3a = r_ltrim_last R k1 m s2"
  define s3 where "s3 = r_ltrim_last R k2 m s3a"
  define s4 where "s4 = drop_expired R k1 k2 cutoff (r_llen R k2 s3) s3"
  have s': "s' = r_expire R k2 ttl (r_expire R k1 ttl s4)"
    using len by (simp add: s'_def APPEND_AUDIT_SCRIPT_def Let_def llen_list [OF lk(1)] llen_list [OF lk(2)]
        s1_def s2_def s3_def s3a_def s4_def)
  note v1 = rpush_list [OF lk(1), of payload, folded s1_def]
  have l1: "list_key s1 k2" using lk by (simp add: list_key_def v1)
  note v2 = rpush_list [OF l1, of "VNum now", folded s2_def]
  have l2: "list_key s2 k1" "list_key s2 k2" using lk by (simp_all add: list_key_def v1 v2)
  note v3a = ltrim_list [OF l2(1) pos(1), folded s3a_def]
  have l3a: "list_key s3a k2" using l2 by (simp add: list_key_def v3a)
  note v3 = ltrim_list [OF l3a pos(1), folded s3_def]
  define L where "L = length (rlist s k1)"
  define d where "d = Suc L - nat m"
  have dL: "d \<le> L" using pos(1) by (simp add: d_def)
  have r3: "rlist s3 k1 = drop d (rlist s k1) @ [payload]" "rlist s3 k2 = drop d (rlist s k2) @ [VNum now]"
    using neq len dL by (simp_all add: v3 v3a v2 v1 L_def d_def)
  have al3: "audit_aligned k1 k2 s3"
  proof -
    have "list_key s3 k1" "list_key s3 k2" using l2 by (simp_all add: list_key_def v3(2-4) v3a(2-4))
    then show ?thesis by (simp add: audit_aligned_def r3 len)
  qed
  from drop_expired_suffix [OF neq al3 r3(2) cut, of "r_llen R k2 s3"] obtain n where n:
    "n \<le> length (drop d (rlist s k2))" "rlist s4 k1 = drop n (rlist s3 k1)" "rlist s4 k2 = drop n (rlist s3 k2)"
    "audit_aligned k1 k2 s4"
    unfolding s4_def by blast
  have r4: "rlist s4 k1 = drop (n + d) (rlist s k1) @ [payload]" "rlist s4 k2 = drop (n + d) (rlist s k2) @ [VNum now]"
    using n(1) len by (simp_all add: n(2,3) r3)
  have le: "n + d \<le> length (rlist s k1)" using n(1) len dL by (simp add: L_def)
  have "audit_aligned k1 k2 s'" using n(4) pos by (simp add: audit_aligned_def list_key_def s' expire_any)
  moreover have "int (length (rlist s' k1)) \<le> m"
    using pos le by (simp add: s' expire_any r4 d_def L_def)
  ultimately show ?thesis using r4 le pos by (auto simp: s' expire_any)
qed

end

text \<open>
  C26. Every append to the shared audit log keeps the events and their times aligned and
  within the bound, adds the new event at the end, and removes events only from the old
  end; in particular the event just written is never the one that is dropped.
\<close>

theorem audit_log_aligned:
  assumes "redis_laws R kv hash zset rlist" "k1 = audit_key ns" "k2 = audit_time_key ns"
    and "redis_laws.audit_aligned kv hash zset rlist k1 k2 s" "0 < m" "0 < ttl" "cutoff \<le> now"
    and "s' = snd (APPEND_AUDIT_SCRIPT R k1 k2 payload now m cutoff ttl s)"
  shows "redis_laws.audit_aligned kv hash zset rlist k1 k2 s' \<and> int (length (rlist s' k1)) \<le> m
    \<and> (\<exists>n \<le> length (rlist s k1). rlist s' k1 = drop n (rlist s k1) @ [payload]
         \<and> rlist s' k2 = drop n (rlist s k2) @ [VNum now])"
  unfolding assms(8) using assms(2,3)
  by (intro redis_laws.append_script_views [OF assms(1) _ assms(4-7)]) simp

theorem audit_log_aligned_witness:
  "int (length (st_list (snd (APPEND_AUDIT_SCRIPT list_redis (audit_key ''n'') (audit_time_key ''n'') (VInt 3) 9 1 5 60
     [(audit_key ''n'', SList [VInt 1]), (audit_time_key ''n'', SList [VNum 4])])) (audit_key ''n''))) \<le> 1"
proof -
  let ?s = "[(audit_key ''n'', SList [VInt 1]), (audit_time_key ''n'', SList [VNum 4])]"
  have "list_store.audit_aligned (audit_key ''n'') (audit_time_key ''n'') ?s"
    by (simp add: list_store.audit_aligned_def list_store.list_key_def st_kv_def st_hash_def st_zset_def
        st_list_def st_fields_def st_members_def)
  from audit_log_aligned [OF list_store.redis_laws_axioms refl refl this _ _ _ refl, of 1 60 5 9 "VInt 3"]
  show ?thesis by simp
qed

section \<open>Rotation and the failed flag\<close>

lemma backup_inj [simp]: "backup path i = backup path j \<longleftrightarrow> i = j"
proof
  assume "backup path i = backup path j"
  then have "dec i = dec j" by (simp add: backup_def)
  then have "undec (dec i) = undec (dec j)" by simp
  then show "i = j" by (simp add: undec_dec)
qed simp

lemma backup_neq [simp]: "backup path i \<noteq> path" "path \<noteq> backup path i"
  by (simp_all add: backup_def)

lemma shift_backups_other:
  "\<forall>j. p = backup path j \<longrightarrow> j = 0 \<or> N < j \<Longrightarrow> shift_backups path N fs p = fs p"
proof (induction path N fs rule: shift_backups.induct)
  case (1 path i fs)
  have "p \<noteq> backup path (Suc (Suc i))" "p \<noteq> backup path (Suc i)" using "1.prems" by auto
  moreover have "\<forall>j. p = backup path j \<longrightarrow> j = 0 \<or> Suc i < j" using "1.prems" by auto
  ultimately show ?case using "1.IH" by (auto split: option.split)
qed auto

lemma shift_backups_shift:
  "\<forall>i. 1 \<le> i \<and> i < N \<longrightarrow> fs (backup path i) \<noteq> None \<Longrightarrow> 2 \<le> j \<Longrightarrow> j \<le> N \<Longrightarrow>
   shift_backups path N fs (backup path j) = fs (backup path (j - 1))"
proof (induction path N fs rule: shift_backups.induct)
  case (1 path i fs)
  obtain c where c: "fs (backup path (Suc i)) = Some c" using "1.prems"(1) by force
  let ?fs1 = "fs(backup path (Suc (Suc i)) \<mapsto> c, backup path (Suc i) := None)"
  have sh: "shift_backups path (Suc (Suc i)) fs = shift_backups path (Suc i) ?fs1" by (simp add: c)
  show ?case
  proof (cases "j = Suc (Suc i)")
    case True
    have "shift_backups path (Suc i) ?fs1 (backup path j) = ?fs1 (backup path j)"
      by (rule shift_backups_other) (simp add: True)
    then show ?thesis by (simp add: sh True c del: shift_backups.simps)
  next
    case False
    then have j: "j \<le> Suc i" using "1.prems"(3) by simp
    have "shift_backups path (Suc i) ?fs1 (backup path j) = ?fs1 (backup path (j - 1))"
    proof -
      have "\<forall>ia. 1 \<le> ia \<and> ia < Suc i \<longrightarrow> ?fs1 (backup path ia) \<noteq> None"
        using "1.prems"(1) by auto
      with "1.IH" "1.prems"(2) j show ?thesis by (simp add: c del: shift_backups.simps fun_upd_apply)
    qed
    then show ?thesis using "1.prems"(2) j by (auto simp: sh simp del: shift_backups.simps)
  qed
qed auto

lemma rotation_shifts:
  fixes line :: string
  assumes "0 < m" "fs path = Some c" "m \<le> int (length c)" "0 < N"
    and "\<forall>i. 1 \<le> i \<and> i < nat N \<longrightarrow> fs (backup path i) \<noteq> None"
  defines "fs' \<equiv> append_line path line m N fs"
  shows "fs' path = Some line" "fs' (backup path 1) = Some c"
    "2 \<le> j \<Longrightarrow> j \<le> nat N \<Longrightarrow> fs' (backup path j) = fs (backup path (j - 1))"
proof -
  let ?g = "shift_backups path (nat N) fs"
  have p: "?g path = Some c" using shift_backups_other [of path path "nat N" fs] assms(2) by simp
  have r: "rotate_if_needed path m N fs = ?g(backup path 1 := ?g path, path := None)"
    using assms(1-4) by (simp add: rotate_if_needed_def Let_def)
  show "fs' path = Some line" "fs' (backup path 1) = Some c"
    by (simp_all add: fs'_def append_line_def r p)
  show "2 \<le> j \<Longrightarrow> j \<le> nat N \<Longrightarrow> fs' (backup path j) = fs (backup path (j - 1))"
    using shift_backups_shift [OF assms(5)] by (simp add: fs'_def append_line_def r)
qed

text \<open>
  The \<open>failed\<close> flag of the required file backend is never cleared by \<open>record\<close>: after one
  failed write every later request is refused, although the file may be writable again.
\<close>

lemma file_failed_forever:
  assumes "fa_required fa" "fa_failed fa"
  shows "file_record ae dumps flt now_text ev fa fs = (Inl RuntimeError, fa, fs)"
  using assms by (simp add: file_record_def split: option.split)

text \<open>A line that is valid JSON but not an object stops the startup.\<close>

lemma prune_non_object_fails:
  "keep_line (\<lambda>l. Inr (JList [])) stamp cutoff line = Inl AttributeError"
  by (simp add: keep_line_def is_value_error_def)

end
