(* ===== verification/RedisLocality.thy ===== *)
theory RedisLocality
  imports Pipeline AuditLog Idempotency
begin

text \<open>
  A command of Redis changes the key that it names and no other. \<open>keywise\<close> states this once for
  any view of the server by key, and its lemmas carry it to what the application runs on
  Redis: the breaker's scripts, the guarded model call, the audit script, the lease's scripts.
  \<open>redis_local\<close> adds it to the laws of \<open>redis_laws\<close>, and \<open>redis_expiry\<close> adds the times to live
  and the passing of time. Both are interpreted on the association-list store, the second
  with a table of remaining times beside it. At the end a server becomes a part of the state
  of the application.
\<close>

section \<open>Keys that a computation leaves alone\<close>

definition cell ::
  "('s \<Rightarrow> string \<Rightarrow> rv option) \<Rightarrow> ('s \<Rightarrow> string \<Rightarrow> string \<Rightarrow> rv option) \<Rightarrow>
   ('s \<Rightarrow> string \<Rightarrow> string \<Rightarrow> rat option) \<Rightarrow> ('s \<Rightarrow> string \<Rightarrow> rv list) \<Rightarrow> 's \<Rightarrow> string \<Rightarrow>
   rv option \<times> (string \<Rightarrow> rv option) \<times> (string \<Rightarrow> rat option) \<times> rv list" where
  "cell kv hash zset rlist s k = (kv s k, hash s k, zset s k, rlist s k)"

definition frame ::
  "('s \<Rightarrow> string \<Rightarrow> rv option) \<Rightarrow> ('s \<Rightarrow> string \<Rightarrow> string \<Rightarrow> rv option) \<Rightarrow>
   ('s \<Rightarrow> string \<Rightarrow> string \<Rightarrow> rat option) \<Rightarrow> ('s \<Rightarrow> string \<Rightarrow> rv list) \<Rightarrow> (string \<Rightarrow> bool) \<Rightarrow> 's \<Rightarrow> 's \<Rightarrow> bool" where
  "frame kv hash zset rlist K s s' \<longleftrightarrow>
     (\<forall>k. K k \<longrightarrow> cell kv hash zset rlist s' k = cell kv hash zset rlist s k)"

lemma frame_refl [simp]: "frame kv hash zset rlist K s s"
  by (simp add: frame_def)

lemma frame_trans:
  "frame kv hash zset rlist K a b \<Longrightarrow> frame kv hash zset rlist K b c \<Longrightarrow> frame kv hash zset rlist K a c"
  by (simp add: frame_def)

lemma frame_mono:
  "frame kv hash zset rlist K a b \<Longrightarrow> (\<And>k. L k \<Longrightarrow> K k) \<Longrightarrow> frame kv hash zset rlist L a b"
  by (simp add: frame_def)

lemma frameD:
  assumes "frame kv hash zset rlist K s s'" "K k"
  shows "kv s' k = kv s k" "hash s' k = hash s k" "zset s' k = zset s k" "rlist s' k = rlist s k"
  using assms by (simp_all add: frame_def cell_def)

definition clear_of :: "shared_breaker option \<Rightarrow> string \<Rightarrow> bool" where
  "clear_of shared k \<longleftrightarrow> (case shared of None \<Rightarrow> True | Some sb \<Rightarrow> k \<noteq> sb_key sb)"

section \<open>The locality of the commands\<close>

locale keywise =
  fixes R :: "'s redis" and look :: "'s \<Rightarrow> string \<Rightarrow> 'v"
  assumes other_set: "k' \<noteq> k \<Longrightarrow> look (r_set R k v s) k' = look s k'"
    and other_del: "k' \<noteq> k \<Longrightarrow> look (r_del R k s) k' = look s k'"
    and other_incr: "k' \<noteq> k \<Longrightarrow> look (snd (r_incr R k d s)) k' = look s k'"
    and other_expire: "k' \<noteq> k \<Longrightarrow> look (r_expire R k ttl s) k' = look s k'"
    and other_hset: "k' \<noteq> k \<Longrightarrow> look (r_hset R k fvs s) k' = look s k'"
    and other_hincr: "k' \<noteq> k \<Longrightarrow> look (snd (r_hincr R k f d s)) k' = look s k'"
    and other_zadd: "k' \<noteq> k \<Longrightarrow> look (r_zadd R k m x s) k' = look s k'"
    and other_zrem: "k' \<noteq> k \<Longrightarrow> look (r_zrem R k m s) k' = look s k'"
    and other_rpush: "k' \<noteq> k \<Longrightarrow> look (r_rpush R k v s) k' = look s k'"
    and other_ltrim: "k' \<noteq> k \<Longrightarrow> look (r_ltrim_last R k n s) k' = look s k'"
    and other_lpop: "k' \<noteq> k \<Longrightarrow> look (r_lpop R k s) k' = look s k'"
begin

lemmas others = other_set other_del other_incr other_expire other_hset other_hincr other_zadd other_zrem
  other_rpush other_ltrim other_lpop

lemma net_other: "look (snd (f s)) k = look s k \<Longrightarrow> look (snd (net flt f s)) k = look s k"
  using net_cases [of flt f s] by auto

lemma net_res_other: "look (snd (f s)) k = look s k \<Longrightarrow> look (snd (net_res flt f s)) k = look s k"
  using net_other [of f s k flt] by (auto simp: net_res_def sbind_def split: prod.splits sum.splits)

text \<open>The scripts of the breaker and the guarded call.\<close>

lemma breaker_scripts_other:
  assumes "k' \<noteq> k"
  shows "look (snd (ALLOW_SCRIPT R k now cooldown s)) k' = look s k'"
    "look (snd (SUCCESS_SCRIPT R k ttl s)) k' = look s k'"
    "look (snd (FAILURE_SCRIPT R k thr was_probe now ttl s)) k' = look s k'"
  using assms by (auto simp: ALLOW_SCRIPT_def SUCCESS_SCRIPT_def FAILURE_SCRIPT_def Let_def others split_beta)

lemma shared_calls_other:
  assumes "k \<noteq> sb_key sb"
  shows "look (snd (shared_allow R sb flt now s)) k = look s k"
    "look (snd (shared_success R sb flt was_probe s)) k = look s k"
    "look (snd (shared_failure R sb flt now was_probe s)) k = look s k"
  by (simp_all add: shared_allow_def shared_success_def shared_failure_def net_other breaker_scripts_other [OF assms])

lemma guarded_model_call_other:
  assumes "clear_of shared k"
  shows "look (snd (snd (guarded_model_call R env shared r b s))) k = look s k"
proof (cases shared)
  case None
  then show ?thesis by (simp add: guarded_model_call_def Let_def)
next
  case (Some sb)
  then have k: "k \<noteq> sb_key sb" using assms by (simp add: clear_of_def)
  obtain a s1 where al: "shared_allow R sb (pe_allow_fault env) (pe_wall0 env) s = (a, s1)" by force
  have s1: "look s1 k = look s k" using shared_calls_other(1) [OF k] al by (metis snd_conv)
  have ok: "shared_success R sb (pe_update_fault env) p s1 = (x, s2) \<Longrightarrow> look s2 k = look s k"
    "shared_failure R sb (pe_update_fault env) (pe_wall1 env) p s1 = (y, s2) \<Longrightarrow> look s2 k = look s k" for p x y s2
    using shared_calls_other(2,3) [OF k] s1 by (metis snd_conv)+
  show ?thesis using s1
    by (auto simp: guarded_model_call_def Some al Let_def split: sum.splits prod.splits dest: ok)
qed

lemma pipeline_call_other:
  assumes "clear_of (pp_shared pl) k"
  shows "look (snd (snd (pipeline_call hmac_hex R env pl t b s))) k = look s k"
proof -
  note g = guarded_model_call_other [OF assms, of env "detector_sync (pp_model pl) t (Some [])" b s]
  then have "look (snd (snd (model_stage_stage R env pl t b s))) k = look s k"
    by (auto simp: model_stage_stage_def Let_def split_beta)
  then show ?thesis by (auto simp: pipeline_call_def split: sum.splits prod.splits)
qed

text \<open>The audit script.\<close>

lemma pad_list_other: "k' \<noteq> k \<Longrightarrow> look (pad_list R k v n s) k' = look s k'"
  by (induction n arbitrary: s) (simp_all add: others)

lemma drop_expired_other:
  "k' \<noteq> k1 \<Longrightarrow> k' \<noteq> k2 \<Longrightarrow> look (drop_expired R k1 k2 cutoff n s) k' = look s k'"
  by (induction n arbitrary: s) (auto simp: others split: option.splits)

lemma APPEND_AUDIT_SCRIPT_other:
  assumes "k \<noteq> k1" "k \<noteq> k2"
  shows "look (snd (APPEND_AUDIT_SCRIPT R k1 k2 payload now max_events cutoff ttl s)) k = look s k"
  using assms by (simp add: APPEND_AUDIT_SCRIPT_def Let_def others drop_expired_other pad_list_other)

lemma redis_audit_record_other:
  assumes "k \<noteq> audit_key (ra_namespace ra)" "k \<noteq> audit_time_key (ra_namespace ra)"
  shows "look (snd (snd (redis_audit_record R ae ra flt now later now_text ev is_failed s))) k = look s k"
proof -
  let ?run = "APPEND_AUDIT_SCRIPT R (audit_key (ra_namespace ra)) (audit_time_key (ra_namespace ra))
    (VJson (JDict (signed_event_payload ae now_text ev (ra_integrity_key ra)))) now (ra_max_events ra)
    (later - of_int (ra_retention ra)) (ra_retention ra)"
  obtain x s1 where n: "net flt ?run s = (x, s1)" by force
  have "look (snd (net flt ?run s)) k = look s k"
    by (rule net_other) (rule APPEND_AUDIT_SCRIPT_other [OF assms])
  then show ?thesis by (auto simp: redis_audit_record_def n split: sum.splits)
qed

text \<open>The scripts of the lease.\<close>

lemma set_ex_other: "k' \<noteq> k \<Longrightarrow> look (snd (set_ex R k v ttl s)) k' = look s k'"
  by (simp add: set_ex_def others)

end

section \<open>Servers with local commands\<close>

locale redis_local = redis_laws R kv hash zset rlist + cells: keywise R "cell kv hash zset rlist"
  for R :: "'s redis" and kv hash zset rlist
begin

lemma frameI: "(\<And>k. K k \<Longrightarrow> cell kv hash zset rlist s' k = cell kv hash zset rlist s k) \<Longrightarrow> frame kv hash zset rlist K s s'"
  by (simp add: frame_def)

lemma pipeline_call_frame:
  assumes "\<And>k. K k \<Longrightarrow> clear_of (pp_shared pl) k"
  shows "frame kv hash zset rlist K s (snd (snd (pipeline_call hmac_hex R env pl t b s)))"
  using assms by (intro frameI cells.pipeline_call_other)

lemma redis_audit_record_frame:
  assumes "\<And>k. K k \<Longrightarrow> k \<noteq> audit_key (ra_namespace ra) \<and> k \<noteq> audit_time_key (ra_namespace ra)"
  shows "frame kv hash zset rlist K s (snd (snd (redis_audit_record R ae ra flt now later now_text ev is_failed s)))"
  using assms by (intro frameI cells.redis_audit_record_other) blast+

end

interpretation list_cells: keywise list_redis "cell st_kv st_hash st_zset st_list"
  by unfold_locales (simp_all add: cell_def st_simps)

interpretation list_local: redis_local list_redis st_kv st_hash st_zset st_list
  by unfold_locales

section \<open>Times to live\<close>

locale redis_expiry = redis_local R kv hash zset rlist + times: keywise R ttl
  for R :: "'s redis" and kv hash zset rlist and ttl :: "'s \<Rightarrow> string \<Rightarrow> rat option" +
  fixes elapse :: "rat \<Rightarrow> 's \<Rightarrow> 's"
  assumes set_ttl: "str_key s k \<Longrightarrow> ttl (r_set R k v s) k = None"
    and expire_ttl: "0 < n \<Longrightarrow> r_exists R k s \<Longrightarrow> ttl (r_expire R k n s) k = Some (of_int n)"
    and del_ttl: "ttl (r_del R k s) k = None"
    and elapse_kept: "(\<And>t. ttl s k = Some t \<Longrightarrow> d < t) \<Longrightarrow>
      cell kv hash zset rlist (elapse d s) k = cell kv hash zset rlist s k
      \<and> ttl (elapse d s) k = map_option (\<lambda>t. t - d) (ttl s k)"
    and elapse_gone: "ttl s k = Some t \<Longrightarrow> t \<le> d \<Longrightarrow>
      cell kv hash zset rlist (elapse d s) k = (None, Map.empty, Map.empty, []) \<and> ttl (elapse d s) k = None"
begin

lemma set_ex_ttl:
  assumes "str_key s k" "0 < t"
  shows "ttl (snd (set_ex R k v t s)) k = Some (of_int t)"
proof -
  have "r_exists R k (r_set R k v s)" by (simp add: exists_iff set_str [OF assms(1)])
  then show ?thesis using assms(2) by (simp add: set_ex_def expire_ttl)
qed

text \<open>A published result has the whole time to live, until it is over.\<close>

lemma published_ttl:
  assumes "lease_keys_ok k s" "0 < t" "complete_idem R flt k fp tok resp t s = (Inr True, s1)"
  shows "ttl s1 k = Some (of_int t)"
proof -
  have "flt = None" using assms(3) by (cases flt) (auto simp: complete_idem_def net_res_def sbind_def net_def)
  moreover have sk: "str_key s k" using assms(1) by (simp add: lease_keys_ok_def)
  ultimately have "s1 = r_del R (lock_key k) (snd (set_ex R k (VJson (idem_envelope fp resp)) t s))"
    using assms(3) by (auto simp: complete_views [OF assms(1,2)] split: if_splits)
  then show ?thesis by (simp add: times.other_del set_ex_ttl [OF sk assms(2)])
qed

lemma elapse_kv:
  assumes "ttl s k = Some t"
  shows "kv (elapse d s) k = (if d < t then kv s k else None)"
  using elapse_kept [of s k d] elapse_gone [of s k t d] assms by (auto simp: cell_def)

end

text \<open>The store with the remaining times of its keys; a key that is gone has none.\<close>

type_synonym timed_store = "store \<times> (string \<times> rat) list"

definition tidy :: "string \<Rightarrow> timed_store \<Rightarrow> timed_store" where
  "tidy k x = (fst x, if st_exists k (fst x) then snd x else AList.delete k (snd x))"

definition timed :: "(string \<Rightarrow> store \<Rightarrow> store) \<Rightarrow> string \<Rightarrow> timed_store \<Rightarrow> timed_store" where
  "timed f k x = tidy k (f k (fst x), snd x)"

definition timed_redis :: "timed_store redis" where
  "timed_redis =
     \<lparr>r_get = (\<lambda>k x. r_get list_redis k (fst x)),
      r_set = (\<lambda>k v x. (r_set list_redis k v (fst x), AList.delete k (snd x))),
      r_del = (\<lambda>k x. (r_del list_redis k (fst x), AList.delete k (snd x))),
      r_incr = (\<lambda>k d x. (fst (r_incr list_redis k d (fst x)), timed (\<lambda>k s. snd (r_incr list_redis k d s)) k x)),
      r_expire = (\<lambda>k t x. if st_exists k (fst x) then tidy k (r_expire list_redis k t (fst x), AList.update k (of_int t) (snd x)) else x),
      r_exists = (\<lambda>k x. r_exists list_redis k (fst x)), r_scan = (\<lambda>p x. r_scan list_redis p (fst x)),
      r_hget = (\<lambda>k f x. r_hget list_redis k f (fst x)), r_hgetall = (\<lambda>k x. r_hgetall list_redis k (fst x)),
      r_hset = (\<lambda>k fvs. timed (\<lambda>k. r_hset list_redis k fvs) k),
      r_hincr = (\<lambda>k f d x. (fst (r_hincr list_redis k f d (fst x)), timed (\<lambda>k s. snd (r_hincr list_redis k f d s)) k x)),
      r_zadd = (\<lambda>k m v. timed (\<lambda>k. r_zadd list_redis k m v) k), r_zrem = (\<lambda>k m. timed (\<lambda>k. r_zrem list_redis k m) k),
      r_zfirst = (\<lambda>k x. r_zfirst list_redis k (fst x)), r_rpush = (\<lambda>k v. timed (\<lambda>k. r_rpush list_redis k v) k),
      r_ltrim_last = (\<lambda>k n. timed (\<lambda>k. r_ltrim_last list_redis k n) k),
      r_llen = (\<lambda>k x. r_llen list_redis k (fst x)), r_lhead = (\<lambda>k x. r_lhead list_redis k (fst x)),
      r_lpop = timed (r_lpop list_redis)\<rparr>"

definition timed_ttl :: "timed_store \<Rightarrow> string \<Rightarrow> rat option" where
  "timed_ttl x = map_of (snd x)"

definition timed_elapse :: "rat \<Rightarrow> timed_store \<Rightarrow> timed_store" where
  "timed_elapse d x =
     (let alive = (\<lambda>k. case map_of (snd x) k of Some t \<Rightarrow> d < t | None \<Rightarrow> True)
      in (filter (\<lambda>(k, v). alive k) (fst x), map (\<lambda>(k, t). (k, t - d)) (filter (\<lambda>(k, t). alive k) (snd x))))"

lemma timed_fst [simp]: "fst (tidy k x) = fst x" "fst (timed f k x) = f k (fst x)"
  by (simp_all add: tidy_def timed_def)

lemma timed_redis_simps:
  "r_get timed_redis k x = r_get list_redis k (fst x)" "fst (r_set timed_redis k v x) = r_set list_redis k v (fst x)"
  "fst (r_del timed_redis k x) = r_del list_redis k (fst x)" "fst (r_incr timed_redis k d x) = fst (r_incr list_redis k d (fst x))"
  "fst (snd (r_incr timed_redis k d x)) = snd (r_incr list_redis k d (fst x))"
  "r_exists timed_redis k x = r_exists list_redis k (fst x)"
  "r_scan timed_redis p x = r_scan list_redis p (fst x)" "r_hget timed_redis k f x = r_hget list_redis k f (fst x)"
  "r_hgetall timed_redis k x = r_hgetall list_redis k (fst x)" "fst (r_hset timed_redis k fvs x) = r_hset list_redis k fvs (fst x)"
  "fst (r_hincr timed_redis k f d x) = fst (r_hincr list_redis k f d (fst x))"
  "fst (snd (r_hincr timed_redis k f d x)) = snd (r_hincr list_redis k f d (fst x))"
  "fst (r_zadd timed_redis k m y x) = r_zadd list_redis k m y (fst x)" "fst (r_zrem timed_redis k m x) = r_zrem list_redis k m (fst x)"
  "r_zfirst timed_redis k x = r_zfirst list_redis k (fst x)" "fst (r_rpush timed_redis k v x) = r_rpush list_redis k v (fst x)"
  "fst (r_ltrim_last timed_redis k n x) = r_ltrim_last list_redis k n (fst x)" "r_llen timed_redis k x = r_llen list_redis k (fst x)"
  "r_lhead timed_redis k x = r_lhead list_redis k (fst x)" "fst (r_lpop timed_redis k x) = r_lpop list_redis k (fst x)"
  by (simp_all add: timed_redis_def)

lemma timed_expire: "0 < t \<Longrightarrow> fst (r_expire timed_redis k t x) = r_expire list_redis k t (fst x)"
  by (simp add: timed_redis_def list_redis_def)

lemma timed_laws:
  "redis_laws timed_redis (\<lambda>x. st_kv (fst x)) (\<lambda>x. st_hash (fst x)) (\<lambda>x. st_zset (fst x)) (\<lambda>x. st_list (fst x))"
proof -
  note l = list_store.get list_store.set_views list_store.del_views list_store.incr_views list_store.expire_views
    list_store.exists_iff list_store.scan_set list_store.hget list_store.hgetall list_store.hset_views
    list_store.hincr_views list_store.zadd_views list_store.zrem_views list_store.zfirst list_store.rpush_views
    list_store.ltrim_views list_store.llen list_store.lhead list_store.lpop_views
  show ?thesis
    by unfold_locales (simp only: timed_redis_simps timed_expire; rule l; assumption)+
qed

lemma cell_fst:
  "cell (\<lambda>x. kv (fst x)) (\<lambda>x. hash (fst x)) (\<lambda>x. zset (fst x)) (\<lambda>x. rlist (fst x)) = (\<lambda>x. cell kv hash zset rlist (fst x))"
  by (simp add: cell_def fun_eq_iff)

lemma timed_cells:
  "keywise timed_redis (cell (\<lambda>x. st_kv (fst x)) (\<lambda>x. st_hash (fst x)) (\<lambda>x. st_zset (fst x)) (\<lambda>x. st_list (fst x)))"
  unfolding cell_fst
  by unfold_locales (simp_all add: timed_redis_def list_cells.others)

lemma timed_times: "keywise timed_redis timed_ttl"
  by unfold_locales (simp_all add: timed_redis_def timed_ttl_def timed_def tidy_def delete_conv')

lemma map_of_filter_key: "map_of (filter (\<lambda>(k, v). P k) xs) k = (if P k then map_of xs k else None)"
  by (induction xs) auto

lemma map_of_map_val: "map_of (map (\<lambda>(k, t). (k, f t)) xs) k = map_option f (map_of xs k)"
  by (induction xs) auto

lemma timed_elapse_views:
  "cell st_kv st_hash st_zset st_list (filter (\<lambda>(k, v). P k) s) k =
     (if P k then cell st_kv st_hash st_zset st_list s k else (None, Map.empty, Map.empty, []))"
  by (simp add: cell_def st_hash_def st_zset_def st_kv_def st_fields_def st_members_def st_list_def map_of_filter_key)

interpretation timed_store:
  redis_expiry timed_redis "\<lambda>x. st_kv (fst x)" "\<lambda>x. st_hash (fst x)" "\<lambda>x. st_zset (fst x)" "\<lambda>x. st_list (fst x)"
    timed_ttl timed_elapse
proof (intro redis_expiry.intro redis_local.intro redis_expiry_axioms.intro timed_laws timed_cells timed_times)
  show "timed_ttl (r_set timed_redis k v x) k = None" "timed_ttl (r_del timed_redis k x) k = None" for k v x
    by (simp_all add: timed_redis_def timed_ttl_def delete_conv')
next
  show "timed_ttl (r_expire timed_redis k n x) k = Some (of_int n)" if "0 < n" "r_exists timed_redis k x" for n k x
    using that by (simp add: timed_redis_def timed_ttl_def tidy_def list_redis_def update_conv')
next
  fix x :: timed_store and k and d :: rat
  assume "\<And>t. timed_ttl x k = Some t \<Longrightarrow> d < t"
  then show "cell (\<lambda>x. st_kv (fst x)) (\<lambda>x. st_hash (fst x)) (\<lambda>x. st_zset (fst x)) (\<lambda>x. st_list (fst x)) (timed_elapse d x) k
      = cell (\<lambda>x. st_kv (fst x)) (\<lambda>x. st_hash (fst x)) (\<lambda>x. st_zset (fst x)) (\<lambda>x. st_list (fst x)) x k
    \<and> timed_ttl (timed_elapse d x) k = map_option (\<lambda>t. t - d) (timed_ttl x k)"
    by (auto simp: cell_fst timed_elapse_def Let_def timed_elapse_views timed_ttl_def map_of_filter_key map_of_map_val
        split: option.splits)
next
  fix x :: timed_store and k and d t :: rat
  assume "timed_ttl x k = Some t" "t \<le> d"
  then show "cell (\<lambda>x. st_kv (fst x)) (\<lambda>x. st_hash (fst x)) (\<lambda>x. st_zset (fst x)) (\<lambda>x. st_list (fst x)) (timed_elapse d x) k
      = (None, Map.empty, Map.empty, []) \<and> timed_ttl (timed_elapse d x) k = None"
    by (auto simp: cell_fst timed_elapse_def Let_def timed_elapse_views timed_ttl_def map_of_filter_key map_of_map_val)
qed

section \<open>A server inside a larger state\<close>

definition on_fst :: "('r \<Rightarrow> 'r) \<Rightarrow> 'r \<times> 'b \<Rightarrow> 'r \<times> 'b" where
  "on_fst f s = (f (fst s), snd s)"

definition on_fst_res :: "('r \<Rightarrow> 'a \<times> 'r) \<Rightarrow> 'r \<times> 'b \<Rightarrow> 'a \<times> 'r \<times> 'b" where
  "on_fst_res f s = (fst (f (fst s)), snd (f (fst s)), snd s)"

definition lift_redis :: "'r redis \<Rightarrow> ('r \<times> 'b) redis" where
  "lift_redis R =
     \<lparr>r_get = (\<lambda>k s. r_get R k (fst s)), r_set = (\<lambda>k v. on_fst (r_set R k v)), r_del = (\<lambda>k. on_fst (r_del R k)),
      r_incr = (\<lambda>k d. on_fst_res (r_incr R k d)), r_expire = (\<lambda>k ttl. on_fst (r_expire R k ttl)),
      r_exists = (\<lambda>k s. r_exists R k (fst s)), r_scan = (\<lambda>p s. r_scan R p (fst s)),
      r_hget = (\<lambda>k f s. r_hget R k f (fst s)), r_hgetall = (\<lambda>k s. r_hgetall R k (fst s)),
      r_hset = (\<lambda>k fvs. on_fst (r_hset R k fvs)), r_hincr = (\<lambda>k f d. on_fst_res (r_hincr R k f d)),
      r_zadd = (\<lambda>k m x. on_fst (r_zadd R k m x)), r_zrem = (\<lambda>k m. on_fst (r_zrem R k m)),
      r_zfirst = (\<lambda>k s. r_zfirst R k (fst s)), r_rpush = (\<lambda>k v. on_fst (r_rpush R k v)),
      r_ltrim_last = (\<lambda>k n. on_fst (r_ltrim_last R k n)), r_llen = (\<lambda>k s. r_llen R k (fst s)),
      r_lhead = (\<lambda>k s. r_lhead R k (fst s)), r_lpop = (\<lambda>k. on_fst (r_lpop R k))\<rparr>"

lemma lift_redis_simps:
  "r_get (lift_redis R) k s = r_get R k (fst s)" "fst (r_set (lift_redis R) k v s) = r_set R k v (fst s)"
  "fst (r_del (lift_redis R) k s) = r_del R k (fst s)" "fst (r_incr (lift_redis R) k d s) = fst (r_incr R k d (fst s))"
  "fst (snd (r_incr (lift_redis R) k d s)) = snd (r_incr R k d (fst s))"
  "fst (r_expire (lift_redis R) k ttl s) = r_expire R k ttl (fst s)" "r_exists (lift_redis R) k s = r_exists R k (fst s)"
  "r_scan (lift_redis R) p s = r_scan R p (fst s)" "r_hget (lift_redis R) k f s = r_hget R k f (fst s)"
  "r_hgetall (lift_redis R) k s = r_hgetall R k (fst s)" "fst (r_hset (lift_redis R) k fvs s) = r_hset R k fvs (fst s)"
  "fst (r_hincr (lift_redis R) k f d s) = fst (r_hincr R k f d (fst s))"
  "fst (snd (r_hincr (lift_redis R) k f d s)) = snd (r_hincr R k f d (fst s))"
  "fst (r_zadd (lift_redis R) k m x s) = r_zadd R k m x (fst s)" "fst (r_zrem (lift_redis R) k m s) = r_zrem R k m (fst s)"
  "r_zfirst (lift_redis R) k s = r_zfirst R k (fst s)" "fst (r_rpush (lift_redis R) k v s) = r_rpush R k v (fst s)"
  "fst (r_ltrim_last (lift_redis R) k n s) = r_ltrim_last R k n (fst s)" "r_llen (lift_redis R) k s = r_llen R k (fst s)"
  "r_lhead (lift_redis R) k s = r_lhead R k (fst s)" "fst (r_lpop (lift_redis R) k s) = r_lpop R k (fst s)"
  by (simp_all add: lift_redis_def on_fst_def on_fst_res_def)

text \<open>A server keeps its documented behaviour when it is a part of the state of the application.\<close>

lemma lift_redis_laws:
  assumes "redis_laws R kv hash zset rlist"
  shows "redis_laws (lift_redis R) (\<lambda>s. kv (fst s)) (\<lambda>s. hash (fst s)) (\<lambda>s. zset (fst s)) (\<lambda>s. rlist (fst s))"
proof -
  note l = redis_laws.get [OF assms] redis_laws.set_views [OF assms] redis_laws.del_views [OF assms]
    redis_laws.incr_views [OF assms] redis_laws.expire_views [OF assms] redis_laws.exists_iff [OF assms]
    redis_laws.scan_set [OF assms] redis_laws.hget [OF assms] redis_laws.hgetall [OF assms]
    redis_laws.hset_views [OF assms] redis_laws.hincr_views [OF assms] redis_laws.zadd_views [OF assms]
    redis_laws.zrem_views [OF assms] redis_laws.zfirst [OF assms] redis_laws.rpush_views [OF assms]
    redis_laws.ltrim_views [OF assms] redis_laws.llen [OF assms] redis_laws.lhead [OF assms]
    redis_laws.lpop_views [OF assms]
  show ?thesis
    by (unfold_locales; unfold lift_redis_simps; rule l; assumption)
qed

lemma lift_keywise:
  assumes "keywise R look"
  shows "keywise (lift_redis R) (\<lambda>s. look (fst s))"
  using keywise.others [OF assms] by unfold_locales (simp_all add: lift_redis_simps)

lemma lift_local:
  assumes "redis_local R kv hash zset rlist"
  shows "redis_local (lift_redis R) (\<lambda>s. kv (fst s)) (\<lambda>s. hash (fst s)) (\<lambda>s. zset (fst s)) (\<lambda>s. rlist (fst s))"
  using assms unfolding redis_local_def cell_fst by (auto intro: lift_redis_laws lift_keywise)

lemma lift_expiry:
  assumes "redis_expiry R kv hash zset rlist ttl elapse"
  shows "redis_expiry (lift_redis R) (\<lambda>s. kv (fst s)) (\<lambda>s. hash (fst s)) (\<lambda>s. zset (fst s)) (\<lambda>s. rlist (fst s))
    (\<lambda>s. ttl (fst s)) (\<lambda>d. on_fst (elapse d))"
proof -
  note ax = redis_expiry.axioms [OF assms]
  have sk: "redis_laws.str_key (\<lambda>s. hash (fst s)) (\<lambda>s. zset (fst s)) (\<lambda>s. rlist (fst s)) s k
      = redis_laws.str_key hash zset rlist (fst s) k" for s :: "'a \<times> 'b" and k
    using redis_laws.str_key_def [OF lift_redis_laws [OF redis_local.axioms(1) [OF ax(1)]]]
      redis_laws.str_key_def [OF redis_local.axioms(1) [OF ax(1)]] by simp
  note e = redis_expiry.set_ttl [OF assms] redis_expiry.expire_ttl [OF assms] redis_expiry.del_ttl [OF assms]
    redis_expiry.elapse_kept [OF assms] redis_expiry.elapse_gone [OF assms]
  show ?thesis
    by (intro redis_expiry.intro lift_local [OF ax(1)] lift_keywise [OF ax(2)] redis_expiry_axioms.intro)
      (simp_all only: cell_fst lift_redis_simps sk on_fst_def fst_conv e)
qed

end
