(* ===== verification/RedactApi.thy ===== *)
theory RedactApi
  imports Errors RedisLocality Redactor Access
begin

text \<open>
  \<open>POST /v1/redact\<close> of \<open>app/api/redact.py\<close>:
  the checks in their order, the idempotency reservation, the response cache, the two
  redaction paths, the audit record, the publication and the clean-up. The redactor, the
  pipeline and the audit backend are arguments, which may fail with any exception; every
  Redis call has a fault of its own. The state contains the Redis server and whatever the
  pipeline and the backend change. The deadline of the request appears as a cancellation
  of an awaited call, which leaves the guarded block as \<open>TimeoutError\<close>. The lemmas say that
  nothing is published before the audit record is written and that a failing request
  leaves no lease behind.
\<close>

section \<open>Requests, responses, surroundings\<close>

record redact_request =
  rq_text :: string
  rq_types :: "string list option"
  rq_policy :: "json option"
  rq_pipeline :: bool

record redact_response =
  rp_text :: string
  rp_spans :: "span list"
  rp_relex_map :: "(string \<times> string) list"
  rp_used_pipeline :: bool
  rp_used_fallback :: bool
  rp_digest :: "string option"

text \<open>
  An HTTP answer: a problem, a stored body served again, or a new redaction. It comes with
  the status label of the \<open>REQUESTS\<close> metric.
\<close>

datatype http = Problem http_response | Replayed "(json \<times> json) list" | Redacted redact_response

fun http_status :: "http \<Rightarrow> nat" where
  "http_status (Problem p) = hr_status p"
| "http_status (Replayed b) = 200"
| "http_status (Redacted r) = 200"

type_synonym answer = "http \<times> nat"

definition answer :: "http_response \<Rightarrow> answer" where
  "answer p = (Problem p, hr_status p)"

definition redact_route :: route where
  "redact_route = Some ''/v1/redact''"

definition redact_problem :: "string \<Rightarrow> string \<Rightarrow> nat \<Rightarrow> string \<Rightarrow> answer" where
  "redact_problem ty title status detail =
     answer (problem_response redact_route (error_type ty) title status (Some detail) None)"

lemmas problem_defs = answer_def redact_problem_def

record 's redact_env =
  en_redis :: "'s redis"
  en_settings :: "settings option"
  en_files :: "string \<Rightarrow> string \<Rightarrow> json res option"
  en_store :: store_handle
  en_redactor :: "(string \<Rightarrow> json option \<Rightarrow> string list option \<Rightarrow> 's \<Rightarrow> redaction_result res \<times> 's) option"
  en_pipeline :: "(string \<Rightarrow> 's \<Rightarrow> pipeline_result res \<times> 's) option"
  en_audit :: "(audit_event \<Rightarrow> 's \<Rightarrow> unit res \<times> 's) option"
  en_detector :: "string option"
  en_digest :: "(json \<times> json) list \<Rightarrow> string"
  en_sha :: "string \<Rightarrow> string"
  en_hmac :: "string \<Rightarrow> string \<Rightarrow> string"
  en_now :: rat
  en_ms :: int
  en_token :: string
  en_trace :: string
  en_request_id :: string
  en_rate_fault :: fault
  en_inspect_fault :: fault
  en_lock_fault :: fault
  en_cache_get_fault :: fault
  en_complete_fault :: fault
  en_cache_set_fault :: fault
  en_release_fault :: fault

definition cfg :: "(settings \<Rightarrow> 'a) \<Rightarrow> 'a \<Rightarrow> settings option \<Rightarrow> 'a" where
  "cfg f d settings = (case settings of None \<Rightarrow> d | Some s \<Rightarrow> f s)"

definition policy_cfg :: "settings option \<Rightarrow> policy_settings option" where
  "policy_cfg settings =
     map_option (\<lambda>s. \<lparr>default_policy_name = cfg_default_policy s, policies_dir = cfg_policies_dir s\<rparr>) settings"

definition request_fingerprint :: "((json \<times> json) list \<Rightarrow> string) \<Rightarrow> redact_request \<Rightarrow> json option \<Rightarrow> string" where
  "request_fingerprint digest body policy =
     digest [(JStr ''text'', JStr (rq_text body)), (JStr ''entity_types'', types_or_empty (rq_types body)),
             (JStr ''policy'', policy_or_empty policy), (JStr ''use_pipeline'', JBool (rq_pipeline body))]"

definition idempotency_storage_key :: "(string \<Rightarrow> string) \<Rightarrow> string \<Rightarrow> string \<Rightarrow> string" where
  "idempotency_storage_key sha ns key = ns @ '':idem:'' @ sha key"

definition response_cache_key :: "'s redact_env \<Rightarrow> redact_request \<Rightarrow> json option \<Rightarrow> string" where
  "response_cache_key env body policy =
     cfg redis_namespace ''redax'' (en_settings env) @ '':cache:''
     @ redaction_cache_key (en_digest env)
         (redaction_cache_payload (rq_text body) policy (rq_types body) (cfg hash_salt [] (en_settings env))
           (cfg cache_shared False (en_settings env)) (if rq_pipeline body then ''pipeline'' else ''legacy'')
           (cfg detector_name [] (en_settings env)) (cfg model_revision [] (en_settings env)))"

section \<open>The checks\<close>

text \<open>Either an early answer or the effective policy.\<close>

definition resolve_policy :: "'s redact_env \<Rightarrow> redact_request \<Rightarrow> (answer + json option) res" where
  "resolve_policy env body =
     (if rq_policy body \<noteq> None
      then (case effective_policy (policy_cfg (en_settings env)) (en_files env) (rq_policy body) (rq_types body) of
              Inr p \<Rightarrow> Inr (Inr p)
            | Inl e \<Rightarrow> if e = TypeError \<or> is_value_error e then Inr (Inl (redact_problem ''invalid-policy'' ''Invalid Policy'' 422 ''policy could not be validated'')) else Inl e)
      else if rq_types body = None \<and> \<not> rq_pipeline body
      then (case effective_policy (policy_cfg (en_settings env)) (en_files env) None None of
              Inr p \<Rightarrow> Inr (Inr p)
            | Inl e \<Rightarrow>
                if e = PolicyUnavailableError then Inr (Inl (answer (policy_unavailable redact_route)))
                else if e = TypeError \<or> is_value_error e then Inr (Inl (redact_problem ''invalid-policy'' ''Invalid Policy'' 422 ''policy could not be validated'')) else Inl e)
      else Inr (Inr None))"

definition redact_checks :: "'s redact_env \<Rightarrow> redact_request \<Rightarrow> (answer + json option) res" where
  "redact_checks env body =
     (if int (length (rq_text body)) > cfg max_text_chars 100000 (en_settings env)
      then Inr (Inl (answer (payload_too_large redact_route
         (''text exceeds '' @ show_int (cfg max_text_chars 100000 (en_settings env)) @ '' chars''))))
      else if rq_policy body \<noteq> None \<and> rq_types body \<noteq> None
      then Inr (Inl (redact_problem ''policy-entity-types-conflict'' ''Policy and Entity Types Conflict'' 422
         ''Choose either policy or entity_types; do not send both.''))
      else if rq_pipeline body \<and> (rq_policy body \<noteq> None \<or> rq_types body \<noteq> None)
      then Inr (Inl (redact_problem ''pipeline-policy-conflict'' ''Pipeline Policy Conflict'' 422
         (''use_pipeline=true uses the staged typed-placeholder contract; ''
          @ ''omit policy and entity_types or use the policy redactor path.'')))
      else
        bind_res (resolve_policy env body) (\<lambda>r.
          case r of
            Inl a \<Rightarrow> Inr (Inl a)
          | Inr policy \<Rightarrow>
              if rq_pipeline body \<and> en_pipeline env = None
              then Inr (Inl (redact_problem ''pipeline-unavailable'' ''Pipeline Unavailable'' 422
                 ''use_pipeline=true requested but no pipeline is configured''))
              else if en_redactor env = None then Inr (Inl (Problem (internal_error redact_route ''redactor not initialized''), 503))
              else Inr (Inr policy)))"

section \<open>Redaction, audit, publication\<close>

definition span_json :: "span \<Rightarrow> json" where
  "span_json s = JDict [(JStr ''start'', JInt (s_start s)), (JStr ''end'', JInt (s_end s)),
     (JStr ''type'', JStr (s_type s)), (JStr ''confidence'', JFloat (s_conf s))]"

definition response_body :: "redact_response \<Rightarrow> (json \<times> json) list" where
  "response_body r = [(JStr ''text'', JStr (rp_text r)), (JStr ''spans'', JList (map span_json (rp_spans r))),
     (JStr ''relex_map'', JDict [])]"

text \<open>Re-identification maps never leave the process: both paths answer with an empty one.\<close>

definition run_redaction :: "'s redact_env \<Rightarrow> redact_request \<Rightarrow> json option \<Rightarrow> 's \<Rightarrow> redact_response res \<times> 's" where
  "run_redaction env body policy s =
     (if rq_pipeline body
      then (case en_pipeline env of
              None \<Rightarrow> (Inl RuntimeError, s)
            | Some run \<Rightarrow>
                (case run (rq_text body) s of
                   (Inl e, s1) \<Rightarrow> (Inl e, s1)
                 | (Inr p, s1) \<Rightarrow>
                     (Inr \<lparr>rp_text = pr_text p, rp_spans = pr_spans p, rp_relex_map = [], rp_used_pipeline = True,
                        rp_used_fallback = pr_used_fallback p, rp_digest = Some (pr_digest p)\<rparr>, s1)))
      else (case en_redactor env of
              None \<Rightarrow> (Inl AttributeError, s)
            | Some redact \<Rightarrow>
                (case redact (rq_text body) policy (rq_types body) s of
                   (Inl e, s1) \<Rightarrow> (Inl e, s1)
                 | (Inr r, s1) \<Rightarrow>
                     (Inr \<lparr>rp_text = rd_text r, rp_spans = rd_spans r, rp_relex_map = [], rp_used_pipeline = False,
                        rp_used_fallback = False, rp_digest = None\<rparr>, s1))))"

definition redact_event :: "'s redact_env \<Rightarrow> redact_request \<Rightarrow> json option \<Rightarrow> string \<Rightarrow> redact_response \<Rightarrow> audit_event" where
  "redact_event env body policy api_key r =
     \<lparr>ev_request_id = en_request_id env, ev_ts = [], ev_policy_version = policy_version policy,
      ev_text_chars = int (length (rq_text body)),
      ev_principal_id = principal_id (en_hmac env) api_key (cfg hash_salt [] (en_settings env)),
      ev_entities = JList ((if rp_used_fallback r then [fallback_entry] else []) @ span_summary (rp_spans r)),
      ev_inference_ms = en_ms env, ev_redactor_version = ''0.1.0'',
      ev_model_name = (if rp_used_pipeline r then (case en_detector env of None \<Rightarrow> [] | Some n \<Rightarrow> n) else []),
      ev_trace_id = en_trace env, ev_direction = ''egress''\<rparr>"

definition write_audit :: "'s redact_env \<Rightarrow> audit_event \<Rightarrow> 's \<Rightarrow> unit res \<times> 's" where
  "write_audit env ev s = (case en_audit env of None \<Rightarrow> (Inr (), s) | Some record_event \<Rightarrow> record_event ev s)"

text \<open>The lease of a request: the storage key and the token.\<close>

type_synonym held = "(string \<times> string) option"

definition publish_idem ::
  "'s redact_env \<Rightarrow> string option \<Rightarrow> string \<Rightarrow> held \<Rightarrow> redact_response \<Rightarrow> 's \<Rightarrow> bool res \<times> 's" where
  "publish_idem env idem_key fingerprint lease r s =
     (if idem_key \<noteq> None \<and> idem_key \<noteq> Some [] \<and> en_store env = Client
      then (case lease of
              None \<Rightarrow> (Inl RuntimeError, s)
            | Some (storage, token) \<Rightarrow>
                (case complete_idem (en_redis env) (en_complete_fault env) storage fingerprint token (response_body r)
                        (cfg idempotency_ttl_seconds 86400 (en_settings env)) s of
                   (Inl e, s1) \<Rightarrow> (Inl e, s1)
                 | (Inr ok, s1) \<Rightarrow> (if ok then Inr True else Inl RuntimeError, s1)))
      else (Inr False, s))"

text \<open>The cache is optional: a network error of its write is dropped.\<close>

definition cache_transient :: "exn \<Rightarrow> bool" where
  "cache_transient e \<longleftrightarrow> is_os_error e \<or> e = RedisError"

definition publish_cache :: "'s redact_env \<Rightarrow> redact_request \<Rightarrow> json option \<Rightarrow> redact_response \<Rightarrow> 's \<Rightarrow> unit res \<times> 's" where
  "publish_cache env body policy r s =
     (if en_store env \<noteq> Client then (Inr (), s)
      else
        (case net_res (en_cache_set_fault env)
                (set_ex (en_redis env) (response_cache_key env body policy) (VJson (cache_envelope (response_body r)))
                  (cfg cache_ttl_seconds 3600 (en_settings env))) s of
           (Inr u, s1) \<Rightarrow> (Inr u, s1)
         | (Inl e, s1) \<Rightarrow> (if cache_transient e then Inr () else Inl e, s1)))"

definition read_cache :: "'s redact_env \<Rightarrow> redact_request \<Rightarrow> json option \<Rightarrow> 's \<Rightarrow> (json \<times> json) list option res \<times> 's" where
  "read_cache env body policy s =
     (if en_store env \<noteq> Client then (Inr None, s)
      else
        (case net (en_cache_get_fault env) (read_only (r_get (en_redis env) (response_cache_key env body policy))) s of
           (Inl e, s1) \<Rightarrow> (if cache_transient e then Inr None else Inl e, s1)
         | (Inr raw, s1) \<Rightarrow>
             (Inr (case raw of None \<Rightarrow> None | Some v \<Rightarrow> if v = VStr [] then None else decode_cache_envelope v), s1)))"

text \<open>From the reservation on: the answer, and whether the lease was completed.\<close>

definition redact_leased ::
  "'s redact_env \<Rightarrow> redact_request \<Rightarrow> json option \<Rightarrow> string \<Rightarrow> string option \<Rightarrow> string \<Rightarrow> held \<Rightarrow> 's \<Rightarrow>
   (answer res \<times> bool) \<times> 's" where
  "redact_leased env body policy api_key idem_key fingerprint lease s =
     (case read_cache env body policy s of
        (Inl e, s1) \<Rightarrow> ((Inl e, False), s1)
      | (Inr (Some cached), s1) \<Rightarrow> ((Inr (Replayed cached, 200), False), s1)
      | (Inr None, s1) \<Rightarrow>
          (case run_redaction env body policy s1 of
             (Inl e, s2) \<Rightarrow> ((Inl e, False), s2)
           | (Inr r, s2) \<Rightarrow>
               (case write_audit env (redact_event env body policy api_key r) s2 of
                  (Inl e, s3) \<Rightarrow> ((Inl e, False), s3)
                | (Inr _, s3) \<Rightarrow>
                    (case publish_idem env idem_key fingerprint lease r s3 of
                       (Inl e, s4) \<Rightarrow> ((Inl e, False), s4)
                     | (Inr completed, s4) \<Rightarrow>
                         (case publish_cache env body policy r s4 of
                            (Inl e, s5) \<Rightarrow> ((Inl e, completed), s5)
                          | (Inr _, s5) \<Rightarrow> ((Inr (Redacted r, 200), completed), s5))))))"

definition redact_reserve ::
  "'s redact_env \<Rightarrow> redact_request \<Rightarrow> json option \<Rightarrow> string \<Rightarrow> string option \<Rightarrow> 's \<Rightarrow>
   (answer res \<times> bool \<times> held) \<times> 's" where
  "redact_reserve env body policy api_key idem_key s =
     (let fingerprint = request_fingerprint (en_digest env) body policy
      in (case idem_key of
            Some (c # cs) \<Rightarrow>
              if en_store env \<noteq> Client then ((Inr (answer (idempotency_unavailable redact_route IDEMPOTENCY_DETAIL)), False, None), s)
              else
                (let storage = idempotency_storage_key (en_sha env) (cfg redis_namespace ''redax'' (en_settings env)) (c # cs)
                 in (case reserve (en_redis env) (en_inspect_fault env) (en_lock_fault env) (en_token env) storage
                            fingerprint (cfg idempotency_ttl_seconds 86400 (en_settings env)) s of
                       (Inl e, s1) \<Rightarrow> ((Inl e, False, None), s1)
                     | (Inr Conflict, s1) \<Rightarrow>
                         ((Inr (redact_problem ''idempotency-key-reused'' ''Idempotency Key Reused'' 409
                            ''Idempotency-Key must be reused with the same request body''), False, None), s1)
                     | (Inr In_progress, s1) \<Rightarrow>
                         ((Inr (redact_problem ''idempotency-in-progress'' ''Idempotency Request In Progress'' 409
                            ''Retry after the request holding this Idempotency-Key completes''), False, None), s1)
                     | (Inr (Completed stored), s1) \<Rightarrow> ((Inr (Replayed stored, 200), False, None), s1)
                     | (Inr (Acquired token), s1) \<Rightarrow>
                         (let ((a, completed), s2) =
                            redact_leased env body policy api_key idem_key fingerprint (Some (storage, token)) s1
                          in ((a, completed, Some (storage, token)), s2))))
          | _ \<Rightarrow>
              (let ((a, completed), s1) = redact_leased env body policy api_key idem_key fingerprint None s
               in ((a, completed, None), s1))))"

section \<open>The handler\<close>

text \<open>The deadline: a cancellation inside the guarded block leaves it as \<open>TimeoutError\<close>.\<close>

definition deadline :: "'a res \<Rightarrow> 'a res" where
  "deadline r = (case r of Inl CancelledError \<Rightarrow> Inl TimeoutError | x \<Rightarrow> x)"

definition redact_except :: "answer res \<Rightarrow> answer res" where
  "redact_except r =
     (case r of
        Inr a \<Rightarrow> Inr a
      | Inl e \<Rightarrow>
          if e = TimeoutError then Inr (answer (timeout_error redact_route TIMEOUT_DETAIL))
          else if e = PipelineUnavailableError then Inr (redact_problem ''pipeline-unavailable'' ''Pipeline Unavailable'' 503
                 ''redaction pipeline is temporarily unavailable'')
          else if TRANSIENT_EXC e then Inr (answer (internal_error redact_route INTERNAL_DETAIL))
          else Inl e)"

definition redact_release :: "'s redact_env \<Rightarrow> held \<Rightarrow> bool \<Rightarrow> 's \<Rightarrow> unit res \<times> 's" where
  "redact_release env lease completed s =
     (case lease of
        Some (storage, token) \<Rightarrow>
          if completed \<or> en_store env \<noteq> Client then (Inr (), s)
          else
            (case release_idem (en_redis env) (en_release_fault env) storage token s of
               (Inl e, s1) \<Rightarrow> (if TRANSIENT_EXC e then Inr () else Inl e, s1)
             | (Inr _, s1) \<Rightarrow> (Inr (), s1))
      | None \<Rightarrow> (Inr (), s))"

definition redact_handler ::
  "'s redact_env \<Rightarrow> redact_request \<Rightarrow> string \<Rightarrow> string option \<Rightarrow> 's \<Rightarrow> answer res \<times> 's" where
  "redact_handler env body api_key idem_key s =
     (case rate_limit (en_redis env) (en_sha env) (en_settings env) (en_store env) (en_rate_fault env) (en_now env)
             api_key s of
        (Inl e, n, s1) \<Rightarrow> (Inl e, s1)
      | (Inr _, n, s1) \<Rightarrow>
          (case redact_checks env body of
             Inl e \<Rightarrow> (redact_except (Inl e), s1)
           | Inr (Inl a) \<Rightarrow> (Inr a, s1)
           | Inr (Inr policy) \<Rightarrow>
               (let ((a, completed, lease), s2) = redact_reserve env body policy api_key idem_key s1;
                    answer = redact_except (deadline a);
                    (released, s3) = redact_release env lease completed s2
                in (case released of Inl e \<Rightarrow> (Inl e, s3) | Inr _ \<Rightarrow> (answer, s3)))))"

section \<open>Frames\<close>

text \<open>
  The keys of the handler in Redis: rate buckets, leases with their results, cached
  responses. The breaker and the audit log have keys of their own in the same namespace.
\<close>

definition handler_key :: "string \<Rightarrow> string \<Rightarrow> bool" where
  "handler_key ns k \<longleftrightarrow> list_ex (\<lambda>p. take (length (ns @ p)) k = ns @ p) ['':rl:'', '':idem:'', '':cache:'']"

definition own_key :: "'s redact_env \<Rightarrow> string \<Rightarrow> bool" where
  "own_key env = handler_key (cfg redis_namespace ''redax'' (en_settings env))"

definition env_frames ::
  "('s \<Rightarrow> string \<Rightarrow> rv option) \<Rightarrow> ('s \<Rightarrow> string \<Rightarrow> string \<Rightarrow> rv option) \<Rightarrow>
   ('s \<Rightarrow> string \<Rightarrow> string \<Rightarrow> rat option) \<Rightarrow> ('s \<Rightarrow> string \<Rightarrow> rv list) \<Rightarrow> 's redact_env \<Rightarrow> bool" where
  "env_frames kv hash zset rlist env \<longleftrightarrow>
     (\<forall>f t p ts s. en_redactor env = Some f \<longrightarrow> frame kv hash zset rlist (own_key env) s (snd (f t p ts s)))
     \<and> (\<forall>f t s. en_pipeline env = Some f \<longrightarrow> frame kv hash zset rlist (own_key env) s (snd (f t s)))
     \<and> (\<forall>f ev s. en_audit env = Some f \<longrightarrow> frame kv hash zset rlist (own_key env) s (snd (f ev s)))"

definition request_storage :: "'s redact_env \<Rightarrow> string \<Rightarrow> string" where
  "request_storage env key =
     idempotency_storage_key (en_sha env) (cfg redis_namespace ''redax'' (en_settings env)) key"

definition request_bucket :: "'s redact_env \<Rightarrow> string \<Rightarrow> string" where
  "request_bucket env api_key =
     (case en_settings env of None \<Rightarrow> [] | Some s \<Rightarrow> rate_bucket (en_sha env) s api_key (en_now env))"

lemma request_keys_neq [simp]:
  "en_settings env = Some s \<Longrightarrow> request_storage env key \<noteq> rate_bucket sha s k now"
  "en_settings env = Some s \<Longrightarrow> rate_bucket sha s k now \<noteq> request_storage env key"
  "en_settings env = Some s \<Longrightarrow> lock_key (request_storage env key) \<noteq> rate_bucket sha s k now"
  "en_settings env = Some s \<Longrightarrow> response_cache_key env body p \<noteq> rate_bucket sha s k now"
  "request_storage env key \<noteq> response_cache_key env body p"
  "response_cache_key env body p \<noteq> request_storage env key"
  "lock_key (request_storage env key) \<noteq> response_cache_key env body p"
  "response_cache_key env body p \<noteq> lock_key (request_storage env key)"
  by (simp_all add: request_storage_def response_cache_key_def rate_bucket_def lock_key_def cfg_def
      idempotency_storage_key_def)

lemma handler_key_prefix [simp]:
  "handler_key ns (ns @ '':rl:'' @ x)" "handler_key ns (ns @ '':idem:'' @ x)" "handler_key ns (ns @ '':cache:'' @ x)"
  by (simp_all add: handler_key_def)

lemma own_keys [simp]:
  "own_key env (request_storage env key)" "own_key env (lock_key (request_storage env key))"
  "own_key env (response_cache_key env body p)"
  by (simp_all add: own_key_def handler_key_def request_storage_def idempotency_storage_key_def lock_key_def response_cache_key_def)

context redis_laws
begin

abbreviation same :: "(string \<Rightarrow> bool) \<Rightarrow> 's \<Rightarrow> 's \<Rightarrow> bool" where
  "same \<equiv> frame kv hash zset rlist"

lemma same_keys:
  assumes "same K s s'" "K k"
  shows "str_key s' k = str_key s k" "K (lock_key k) \<Longrightarrow> lease_keys_ok k s' = lease_keys_ok k s"
    "counter_key s' k = counter_key s k" "kv s' k = kv s k"
  using frameD [OF assms] frameD [OF assms(1), of "lock_key k"]
  by (simp_all add: str_key_def lease_keys_ok_def counter_key_def)

lemma read_cache_state: "snd (read_cache env body policy s) = s"
proof (cases "en_cache_get_fault env")
  case None
  then show ?thesis by (simp add: read_cache_def read_only_def)
next
  case (Some p)
  obtain e b where "p = (e, b)" by force
  then show ?thesis by (simp add: read_cache_def read_only_def net_def Some)
qed

lemma run_redaction_same:
  assumes "env_frames kv hash zset rlist env"
  shows "same (own_key env) s (snd (run_redaction env body policy s))"
proof (cases "rq_pipeline body")
  case True
  show ?thesis
  proof (cases "en_pipeline env")
    case (Some f)
    obtain r s1 where f: "f (rq_text body) s = (r, s1)" by force
    then have "same (own_key env) s s1" using assms Some unfolding env_frames_def by (metis snd_conv)
    then show ?thesis by (cases r) (simp_all add: run_redaction_def True Some f)
  qed (simp add: run_redaction_def True)
next
  case False
  show ?thesis
  proof (cases "en_redactor env")
    case (Some f)
    obtain r s1 where f: "f (rq_text body) policy (rq_types body) s = (r, s1)" by force
    then have "same (own_key env) s s1" using assms Some unfolding env_frames_def by (metis snd_conv)
    then show ?thesis by (cases r) (simp_all add: run_redaction_def False Some f)
  qed (simp add: run_redaction_def False)
qed

lemma write_audit_same:
  "env_frames kv hash zset rlist env \<Longrightarrow> same (own_key env) s (snd (write_audit env ev s))"
  by (auto simp: write_audit_def env_frames_def split: option.splits)

lemma leased_audit_fails:
  assumes fr: "env_frames kv hash zset rlist env"
    and af: "\<And>ev s. \<exists>e. fst (write_audit env ev s) = Inl e"
  obtains a s' where "redact_leased env body policy api_key idem_key fp lease s = ((a, False), s')" "same (own_key env) s s'"
    "\<And>r m. a \<noteq> Inr (Redacted r, m)"
proof -
  obtain c s1 where rc: "read_cache env body policy s = (c, s1)" by force
  then have s1: "s1 = s" using read_cache_state [of env body policy s] by simp
  obtain r s2 where rr: "run_redaction env body policy s = (r, s2)" by force
  then have s2: "same (own_key env) s s2" using run_redaction_same [OF fr, of s body policy] by simp
  show ?thesis
  proof (cases c)
    case (Inl e)
    show ?thesis by (rule that [of "Inl e" s]) (simp_all add: redact_leased_def rc s1 Inl)
  next
    case c: (Inr x)
    show ?thesis
    proof (cases x)
      case (Some cached)
      show ?thesis
        by (rule that [of "Inr (Replayed cached, 200)" s]) (simp_all add: redact_leased_def rc s1 c Some)
    next
      case None
      show ?thesis
      proof (cases r)
        case (Inl e)
        show ?thesis by (rule that [of "Inl e" s2]) (simp_all add: redact_leased_def rc s1 c None rr Inl s2)
      next
        case (Inr y)
        obtain w s3 where wa: "write_audit env (redact_event env body policy api_key y) s2 = (w, s3)" by force
        then obtain e where w: "w = Inl e" using af [of "redact_event env body policy api_key y" s2] by auto
        have "same (own_key env) s s3" using frame_trans [OF s2] write_audit_same [OF fr, of s2] wa by (metis snd_conv)
        then show ?thesis
          by (intro that [of "Inl e" s3]) (simp_all add: redact_leased_def rc s1 c None rr Inr wa w)
      qed
    qed
  qed
qed

end

section \<open>Nothing is published before the audit record\<close>

lemma inspect_not_acquired: "inspect_result fp raw \<noteq> Some (Acquired t)"
  by (auto simp: inspect_result_def split: option.splits if_splits)

context redis_laws
begin

lemma rate_limit_frame:
  assumes "\<And>c. settings = Some c \<Longrightarrow> counter_key s (rate_bucket sha c api_key now)"
    and "rate_limit R sha settings handle flt now api_key s = (r, n, s1)"
  shows "hash s1 = hash s \<and> zset s1 = zset s \<and> rlist s1 = rlist s
    \<and> (\<forall>k. (\<forall>c. settings = Some c \<longrightarrow> k \<noteq> rate_bucket sha c api_key now) \<longrightarrow> kv s1 k = kv s k)"
proof (cases settings)
  case None
  with assms(2) show ?thesis by (auto simp: rate_limit_def split: if_splits)
next
  case (Some c)
  let ?b = "rate_bucket sha c api_key now"
  let ?p = "RATE_LIMIT_SCRIPT R ?b 60 s"
  have ck: "counter_key s ?b" using assms(1) Some by simp
  note i = incr_counter [OF ck, of 1] and e = expire_any [of 60 ?b "snd (r_incr R ?b 1 s)", simplified]
  have p: "hash (snd ?p) = hash s \<and> zset (snd ?p) = zset s \<and> rlist (snd ?p) = rlist s
      \<and> (\<forall>k. k \<noteq> ?b \<longrightarrow> kv (snd ?p) k = kv s k)"
    using i e by (simp add: RATE_LIMIT_SCRIPT_def Let_def case_prod_beta)
  have "s1 = s \<or> s1 = snd ?p"
    using assms(2) net_cases [of flt "RATE_LIMIT_SCRIPT R ?b 60" s]
    by (auto simp: rate_limit_def Some Let_def split: if_splits sum.splits prod.splits)
  with p Some show ?thesis by auto
qed

lemma reserve_outcome:
  assumes ok: "lease_keys_ok k s" and ttl: "0 < ttl" and res: "reserve R f1 f2 tok k fp ttl s = (r, s1)"
  shows "(s1 = s \<and> (\<forall>t. r \<noteq> Inr (Acquired t)))
    \<or> (kv s (lock_key k) = None \<and> s1 = snd (set_ex R (lock_key k) (VStr tok) ttl s)
        \<and> (r = Inr (Acquired tok) \<and> f2 = None \<or> f2 \<noteq> None \<and> (\<exists>e. r = Inl e)))"
proof (cases f1)
  case (Some p)
  then show ?thesis using res by (cases p) (auto simp: reserve_def sbind_def net_def read_only_def split: if_splits)
next
  case None
  have get: "r_get R k s = kv s k" using ok by (simp add: lease_keys_ok_def get_str)
  show ?thesis
  proof (cases "inspect_result fp (kv s k)")
    case (Some x)
    then show ?thesis using res inspect_not_acquired [of fp "kv s k"]
      by (auto simp: reserve_def None get sreturn_def)
  next
    case inone: None
    let ?lock = "net_res f2 (lock_nx R (lock_key k) tok ttl)"
    let ?s1 = "if kv s (lock_key k) = None then snd (set_ex R (lock_key k) (VStr tok) ttl s) else s"
    have rs: "reserve R f1 f2 tok k fp ttl s =
        sbind ?lock (\<lambda>acquired. sreturn (if acquired then Acquired tok else In_progress)) s"
      by (simp add: reserve_def None get inone)
    show ?thesis
    proof (cases f2)
      case None
      then have "?lock s = (Inr (kv s (lock_key k) = None), ?s1)"
        by (simp add: net_res_def sbind_def lock_nx_views [OF ok ttl])
      then have "(r, s1) = (Inr (if kv s (lock_key k) = None then Acquired tok else In_progress), ?s1)"
        using res rs by (simp add: sbind_def [of ?lock] sreturn_def)
      then show ?thesis using None by (auto split: if_splits)
    next
      case (Some p)
      obtain e b where p: "p = (e, b)" by force
      have "?lock s = (Inl e, if b then ?s1 else s)"
        by (simp add: net_res_def sbind_def net_def Some p lock_nx_views [OF ok ttl])
      then have "(r, s1) = (Inl e, if b then ?s1 else s)" using res rs by (simp add: sbind_def [of ?lock])
      then show ?thesis using Some by (auto split: if_splits)
    qed
  qed
qed

lemma locked_views:
  fixes tok :: string
  assumes ok: "lease_keys_ok k s" and ttl: "0 < ttl" and free: "kv s (lock_key k) = None"
  defines "s1 \<equiv> snd (set_ex R (lock_key k) (VStr tok) ttl s)"
  shows "kv s1 = (kv s)(lock_key k \<mapsto> VStr tok)" "hash s1 = hash s" "zset s1 = zset s" "rlist s1 = rlist s"
    "lease_keys_ok k s1"
proof -
  have sk: "str_key s (lock_key k)" using ok by (simp add: lease_keys_ok_def)
  note v = set_ex_views [OF sk ttl, of "VStr tok", folded s1_def]
  show "kv s1 = (kv s)(lock_key k \<mapsto> VStr tok)" "hash s1 = hash s" "zset s1 = zset s" "rlist s1 = rlist s"
    using v by simp_all
  show "lease_keys_ok k s1" using ok v by (simp add: lease_keys_ok_def str_key_def)
qed

lemma release_outcome:
  assumes "lease_keys_ok k s" "kv s (lock_key k) = Some (VStr tok)" "release_idem R flt k tok s = (r, s1)"
  shows "kv s1 = (kv s)(lock_key k := None) \<or> flt \<noteq> None \<and> kv s1 = kv s"
proof (cases flt)
  case None
  then show ?thesis using assms release_views [OF assms(1), of tok] by (auto simp: del_any)
next
  case (Some p)
  obtain e b where p: "p = (e, b)" by force
  have "snd (RELEASE_SCRIPT R (lock_key k) tok s) = r_del R (lock_key k) s"
    using assms(1,2) by (simp add: RELEASE_SCRIPT_def get_str lease_keys_ok_def)
  then show ?thesis using assms(3)
    by (auto simp: release_idem_def net_res_def sbind_def net_def Some p del_any split: if_splits)
qed

text \<open>
  What a request without an audit record may leave: nothing, or its own lock, if the network
  failed when the lock was taken or released.
\<close>

definition unpublished :: "'s redact_env \<Rightarrow> string option \<Rightarrow> 's \<Rightarrow> 's \<Rightarrow> bool" where
  "unpublished env idem_key s s' \<longleftrightarrow>
     (\<forall>k. own_key env k \<longrightarrow> kv s' k = kv s k
        \<or> (\<exists>key. idem_key = Some key \<and> k = lock_key (request_storage env key) \<and> kv s k = None
             \<and> kv s' k = Some (VStr (en_token env)) \<and> (en_lock_fault env \<noteq> None \<or> en_release_fault env \<noteq> None)))"

lemma unpublished_same: "same (own_key env) s s' \<Longrightarrow> unpublished env idem_key s s'"
  by (auto simp: unpublished_def dest: frameD(1))

lemma unaudited_leaves_no_trace:
  assumes fr: "env_frames kv hash zset rlist env" and R: "en_redis env = R"
    and af: "\<And>ev s. \<exists>e. fst (write_audit env ev s) = Inl e"
    and ok: "\<And>key. lease_keys_ok (request_storage env key) s"
    and ttl: "0 < cfg idempotency_ttl_seconds 86400 (en_settings env)"
    and res: "redact_reserve env body policy api_key idem_key s = ((a, completed, lease), s2)"
  shows "unpublished env idem_key s (snd (redact_release env lease completed s2)) \<and> a \<noteq> Inr (Redacted r, m)"
proof (cases "idem_key = None \<or> idem_key = Some []")
  case True
  obtain a' s' where l: "redact_leased env body policy api_key idem_key
      (request_fingerprint (en_digest env) body policy) None s = ((a', False), s')" "same (own_key env) s s'"
      "\<And>r m. a' \<noteq> Inr (Redacted r, m)"
    using leased_audit_fails [OF fr af] by metis
  then have "(a, completed, lease) = (a', False, None)" "s2 = s'"
    using res True by (auto simp: redact_reserve_def Let_def)
  then show ?thesis using l(3) unpublished_same [OF l(2)] by (auto simp: redact_release_def)
next
  case False
  then obtain c cs where key: "idem_key = Some (c # cs)" by (metis list.exhaust not_Some_eq)
  let ?st = "request_storage env (c # cs)" and ?ttl = "cfg idempotency_ttl_seconds 86400 (en_settings env)"
  let ?fp = "request_fingerprint (en_digest env) body policy"
  let ?tok = "en_token env"
  have start: "unpublished env idem_key s s" by (simp add: unpublished_same)
  show ?thesis
  proof (cases "en_store env = Client")
    case False
    then show ?thesis using res start by (auto simp: redact_reserve_def key Let_def redact_release_def problem_defs)
  next
    case True
    obtain rr s1 where rv: "reserve R (en_inspect_fault env) (en_lock_fault env) ?tok ?st ?fp ?ttl s = (rr, s1)" by force
    note red = redact_reserve_def key R True rv request_storage_def [symmetric]
    from reserve_outcome [OF ok ttl rv] show ?thesis
    proof
      assume "s1 = s \<and> (\<forall>t. rr \<noteq> Inr (Acquired t))"
      then show ?thesis using res start
        by (cases rr; cases "projr rr") (auto simp: red Let_def redact_release_def problem_defs)
    next
      assume lk: "kv s (lock_key ?st) = None \<and> s1 = snd (set_ex R (lock_key ?st) (VStr ?tok) ?ttl s)
        \<and> (rr = Inr (Acquired ?tok) \<and> en_lock_fault env = None \<or> en_lock_fault env \<noteq> None \<and> (\<exists>e. rr = Inl e))"
      then have free: "kv s (lock_key ?st) = None" by simp
      note lv = locked_views [OF ok ttl free, of ?tok]
      have kv1: "kv s1 = (kv s)(lock_key ?st \<mapsto> VStr ?tok)" and ok1: "lease_keys_ok ?st s1" using lk lv by simp_all
      show ?thesis
      proof (cases "en_lock_fault env")
        case (Some flt)
        with lk obtain e where rr: "rr = Inl e" by auto
        then have "a = Inl e" "lease = None" "s2 = s1" using res by (auto simp: red Let_def)
        then show ?thesis using kv1 free Some by (auto simp: unpublished_def key redact_release_def)
      next
        case None
        with lk have rr: "rr = Inr (Acquired ?tok)" by auto
        obtain a' s' where l: "redact_leased env body policy api_key idem_key ?fp (Some (?st, ?tok)) s1
            = ((a', False), s')" "same (own_key env) s1 s'" "\<And>r m. a' \<noteq> Inr (Redacted r, m)"
          using leased_audit_fails [OF fr af] by metis
        have eq: "a = a'" "completed = False" "lease = Some (?st, ?tok)" "s2 = s'"
          using res l(1) by (auto simp: red rr Let_def)
        obtain rel s3 where rel: "release_idem R (en_release_fault env) ?st ?tok s' = (rel, s3)" by force
        have s3: "snd (redact_release env lease completed s2) = s3"
          by (cases rel) (simp_all add: eq redact_release_def R True rel)
        have s': "kv s' k = kv s1 k" if "own_key env k" for k using frameD(1) [OF l(2) that] .
        have "lease_keys_ok ?st s'" "kv s' (lock_key ?st) = Some (VStr ?tok)"
          using same_keys(2) [OF l(2)] ok1 s' kv1 by simp_all
        note out = release_outcome [OF this rel]
        have "unpublished env idem_key s s3"
          unfolding unpublished_def
        proof (intro allI impI)
          fix k assume "own_key env k"
          note k = s' [OF this] kv1 out
          show "kv s3 k = kv s k \<or> (\<exists>key. idem_key = Some key \<and> k = lock_key (request_storage env key) \<and> kv s k = None
            \<and> kv s3 k = Some (VStr ?tok) \<and> (en_lock_fault env \<noteq> None \<or> en_release_fault env \<noteq> None))"
          proof (cases "k = lock_key ?st")
            case True
            with k free show ?thesis by (elim disjE) (simp_all add: key)
          next
            case False
            with k show ?thesis by (elim disjE) simp_all
          qed
        qed
        then show ?thesis unfolding s3 using l(3) by (simp add: eq(1))
      qed
    qed
  qed
qed

end

lemma redact_except_not_redacted:
  "(\<And>r m. a \<noteq> Inr (Redacted r, m)) \<Longrightarrow> redact_except (deadline a) \<noteq> Inr (Redacted r, m)"
  by (auto simp: redact_except_def deadline_def problem_defs split: sum.splits exn.splits if_splits)

lemma redact_checks_not_redacted [simp]: "redact_checks env body \<noteq> Inr (Inl (Redacted r, m))"
  by (auto simp: redact_checks_def resolve_policy_def bind_res_Inr_iff problem_defs split: if_splits sum.splits)

lemma checked_redactor:
  assumes "redact_checks env body = Inr (Inr policy)"
  shows "en_redactor env \<noteq> None"
proof (cases "resolve_policy env body")
  case (Inr r)
  then show ?thesis using assms by (cases r) (auto simp: redact_checks_def problem_defs split: if_splits)
qed (use assms in \<open>auto simp: redact_checks_def problem_defs split: if_splits\<close>)

text \<open>The keys of a request are used by nothing else.\<close>

definition request_keys_ok ::
  "('s \<Rightarrow> string \<Rightarrow> rv option) \<Rightarrow> ('s \<Rightarrow> string \<Rightarrow> string \<Rightarrow> rv option) \<Rightarrow>
   ('s \<Rightarrow> string \<Rightarrow> string \<Rightarrow> rat option) \<Rightarrow> ('s \<Rightarrow> string \<Rightarrow> rv list) \<Rightarrow> 's redact_env \<Rightarrow> settings \<Rightarrow> string \<Rightarrow> 's \<Rightarrow> bool" where
  "request_keys_ok kv hash zset rlist env c api_key s \<longleftrightarrow>
     en_settings env = Some c
     \<and> (\<forall>now. redis_laws.counter_key kv hash zset rlist s (rate_bucket (en_sha env) c api_key now))
     \<and> (\<forall>key. redis_laws.lease_keys_ok kv hash zset rlist (request_storage env key) s)
     \<and> (\<forall>body p. redis_laws.str_key hash zset rlist s (response_cache_key env body p))"

context redis_laws
begin

lemma rate_limit_keys:
  assumes ok: "request_keys_ok kv hash zset rlist env c api_key s"
    and rl: "rate_limit R (en_sha env) (en_settings env) h flt now api_key s = (r, n, s1)"
  shows "\<forall>k. k \<noteq> rate_bucket (en_sha env) c api_key now \<longrightarrow> kv s1 k = kv s k"
    "lease_keys_ok (request_storage env key) s1" "str_key s1 (response_cache_key env body p)"
proof -
  have es: "en_settings env = Some c" using ok by (simp add: request_keys_ok_def)
  have ck: "en_settings env = Some c' \<Longrightarrow> counter_key s (rate_bucket (en_sha env) c' api_key now)" for c'
    using ok by (auto simp: request_keys_ok_def)
  note rf = rate_limit_frame [OF ck rl]
  show kv: "\<forall>k. k \<noteq> rate_bucket (en_sha env) c api_key now \<longrightarrow> kv s1 k = kv s k"
    using rf es by auto
  have "lease_keys_ok (request_storage env key) s" using ok by (simp add: request_keys_ok_def)
  then show "lease_keys_ok (request_storage env key) s1"
    using rf es by (auto simp: lease_keys_ok_def str_key_def)
  have "str_key s (response_cache_key env body p)" using ok by (simp add: request_keys_ok_def)
  then show "str_key s1 (response_cache_key env body p)" using rf by (simp add: str_key_def)
qed

lemma unaudited_handler:
  assumes fr: "env_frames kv hash zset rlist env" and R: "en_redis env = R"
    and af: "\<And>ev s. \<exists>e. fst (write_audit env ev s) = Inl e"
    and ok: "request_keys_ok kv hash zset rlist env c api_key s"
    and ttl: "0 < idempotency_ttl_seconds c"
    and res: "redact_handler env body api_key idem_key s = (a, s')"
  shows "(\<exists>s1. (\<forall>k. k \<noteq> rate_bucket (en_sha env) c api_key (en_now env) \<longrightarrow> kv s1 k = kv s k)
      \<and> unpublished env idem_key s1 s') \<and> (\<forall>r m. a \<noteq> Inr (Redacted r, m))"
proof -
  have es: "en_settings env = Some c" using ok by (simp add: request_keys_ok_def)
  obtain rl n s1 where rl: "rate_limit R (en_sha env) (en_settings env) (en_store env) (en_rate_fault env) (en_now env)
      api_key s = (rl, n, s1)" by (metis prod_cases3)
  note rk = rate_limit_keys [OF ok rl]
  show ?thesis
  proof (cases "\<exists>policy x. rl = Inr x \<and> redact_checks env body = Inr (Inr policy)")
    case False
    then show ?thesis using res rk(1) unpublished_same [OF frame_refl, of env idem_key]
      by (cases rl; cases "redact_checks env body"; cases "projr (redact_checks env body)")
        (auto simp: redact_handler_def R rl redact_except_def problem_defs split: if_splits)
  next
    case True
    then obtain policy x where t: "rl = Inr x" "redact_checks env body = Inr (Inr policy)" by blast
    obtain a0 fin lease s2 where rr: "redact_reserve env body policy api_key idem_key s1 = ((a0, fin, lease), s2)"
      by (metis prod_cases3 surj_pair)
    have ttl': "0 < cfg idempotency_ttl_seconds 86400 (en_settings env)" using ttl es by (simp add: cfg_def)
    note u = unaudited_leaves_no_trace [OF fr R af rk(2) ttl' rr]
    obtain rel s3 where rs: "redact_release env lease fin s2 = (rel, s3)" by force
    have "s' = s3" "a = Inr (Redacted r, m) \<Longrightarrow> redact_except (deadline a0) = Inr (Redacted r, m)" for r m
      using res by (auto simp: redact_handler_def R rl t rr rs split: sum.splits)
    moreover have "redact_except (deadline a0) \<noteq> Inr (Redacted r, m)" for r m
      by (rule redact_except_not_redacted) (use u in blast)
    ultimately show ?thesis using rk(1) u rs by auto
  qed
qed

lemma complete_success:
  assumes "complete_idem R flt k fp t resp ttl s = (Inr True, s1)"
  shows "flt = None"
  using assms by (cases flt) (auto simp: complete_idem_def net_res_def sbind_def net_def)

lemma publish_cache_frame:
  assumes "en_redis env = R" "str_key s (response_cache_key env body policy)"
  shows "\<forall>k. k \<noteq> response_cache_key env body policy \<longrightarrow> kv (snd (publish_cache env body policy r s)) k = kv s k"
    "hash (snd (publish_cache env body policy r s)) = hash s" "zset (snd (publish_cache env body policy r s)) = zset s"
    "rlist (snd (publish_cache env body policy r s)) = rlist s"
proof -
  let ?ttl = "cfg cache_ttl_seconds 3600 (en_settings env)" and ?k = "response_cache_key env body policy"
  let ?v = "VJson (cache_envelope (response_body r))"
  define s1 where "s1 = snd (set_ex R ?k ?v ?ttl s)"
  have se: "(\<forall>k. k \<noteq> ?k \<longrightarrow> kv s1 k = kv s k) \<and> hash s1 = hash s \<and> zset s1 = zset s \<and> rlist s1 = rlist s"
    using set_ex_views [OF assms(2), of ?ttl ?v] by (cases "0 < ?ttl") (auto simp: s1_def, auto simp: set_ex_def)
  have "snd (publish_cache env body policy r s) = s \<or> snd (publish_cache env body policy r s) = s1"
    using net_cases [of "en_cache_set_fault env" "set_ex R ?k ?v ?ttl" s]
    by (auto simp: publish_cache_def net_res_def sbind_def assms(1) s1_def split: prod.splits sum.splits)
  with se show "\<forall>k. k \<noteq> ?k \<longrightarrow> kv (snd (publish_cache env body policy r s)) k = kv s k"
    "hash (snd (publish_cache env body policy r s)) = hash s" "zset (snd (publish_cache env body policy r s)) = zset s"
    "rlist (snd (publish_cache env body policy r s)) = rlist s" by auto
qed

end

section \<open>A completed request is replayed\<close>

context keywise
begin

lemma publish_cache_other:
  assumes "en_redis env = R" "k \<noteq> response_cache_key env body policy"
  shows "look (snd (publish_cache env body policy r s)) k = look s k"
proof -
  let ?set = "set_ex R (response_cache_key env body policy) (VJson (cache_envelope (response_body r)))
    (cfg cache_ttl_seconds 3600 (en_settings env))"
  obtain x s1 where n: "net_res (en_cache_set_fault env) ?set s = (x, s1)" by force
  have "look (snd (net_res (en_cache_set_fault env) ?set s)) k = look s k"
    by (rule net_res_other) (rule set_ex_other [OF assms(2)])
  then show ?thesis by (auto simp: publish_cache_def assms(1) n split: sum.splits)
qed

end

context redis_laws
begin

lemma leased_success:
  assumes fr: "env_frames kv hash zset rlist env" and R: "en_redis env = R" and cl: "en_store env = Client"
    and key: "idem_key = Some (c # cs)" and st: "st = request_storage env (c # cs)"
    and ok: "lease_keys_ok st s" and ck: "str_key s (response_cache_key env body policy)"
    and ttl: "0 < cfg idempotency_ttl_seconds 86400 (en_settings env)"
    and res: "redact_leased env body policy api_key idem_key fp (Some (st, tok)) s = ((Inr (Redacted r, m), fin), s')"
  shows "fin \<and> kv s' st = Some (VJson (idem_envelope fp (response_body r))) \<and> lease_keys_ok st s'
    \<and> (\<exists>s3 s4. lease_keys_ok st s3
         \<and> complete_idem R (en_complete_fault env) st fp tok (response_body r)
             (cfg idempotency_ttl_seconds 86400 (en_settings env)) s3 = (Inr True, s4)
         \<and> s' = snd (publish_cache env body policy r s4))"
proof -
  let ?ttl = "cfg idempotency_ttl_seconds 86400 (en_settings env)"
  obtain c0 where rc: "read_cache env body policy s = (c0, s)"
    using read_cache_state [of env body policy s] by (metis prod.collapse)
  have c0: "c0 = Inr None"
    using res by (cases c0; cases "projr c0") (simp_all add: redact_leased_def rc)
  obtain r2 s2 where rr: "run_redaction env body policy s = (r2, s2)" by force
  obtain r' where r2: "r2 = Inr r'" using res by (cases r2) (simp_all add: redact_leased_def rc c0 rr)
  obtain w s3 where wa: "write_audit env (redact_event env body policy api_key r') s2 = (w, s3)" by force
  have w: "w = Inr ()" using res by (cases w) (simp_all add: redact_leased_def rc c0 rr r2 wa)
  obtain b s4 where pi: "publish_idem env idem_key fp (Some (st, tok)) r' s3 = (b, s4)" by force
  obtain b' where b: "b = Inr b'" using res by (cases b) (simp_all add: redact_leased_def rc c0 rr r2 wa w pi)
  obtain u s5 where pc: "publish_cache env body policy r' s4 = (u, s5)" by force
  have all: "r' = r" "b' = fin" "s' = s5"
    using res by (cases u; simp add: redact_leased_def rc c0 rr r2 wa w pi b pc)+
  have s2: "same (own_key env) s s2" using run_redaction_same [OF fr, of s body policy] rr by simp
  have s3: "same (own_key env) s s3" using frame_trans [OF s2] write_audit_same [OF fr, of s2] wa by (metis snd_conv)
  obtain z where ci: "complete_idem R (en_complete_fault env) st fp tok (response_body r) ?ttl s3 = (z, s4)" "z = Inr True" "fin"
  proof -
    obtain z s4' where z: "complete_idem R (en_complete_fault env) st fp tok (response_body r) ?ttl s3 = (z, s4')" by force
    show ?thesis
    proof (cases z)
      case (Inl e)
      then show ?thesis using pi b by (simp add: publish_idem_def key cl R z all)
    next
      case (Inr granted)
      then show ?thesis using pi b that z by (cases granted) (auto simp: publish_idem_def key cl R all)
    qed
  qed
  have ok3: "lease_keys_ok st s3" using same_keys(2) [OF s3] ok by (simp add: st)
  from complete_success ci have nf: "en_complete_fault env = None" by blast
  note cv = complete_views [OF ok3 ttl, of fp tok "response_body r"]
  have h: "kv s3 (lock_key st) = Some (VStr tok)" using ci cv nf by simp
  have s4: "s4 = r_del R (lock_key st) (snd (set_ex R st (VJson (idem_envelope fp (response_body r))) ?ttl s3))"
    using ci cv nf h by simp
  have sk: "str_key s3 st" using ok3 by (simp add: lease_keys_ok_def)
  note se = set_ex_views [OF sk ttl, of "VJson (idem_envelope fp (response_body r))"]
  have k4: "kv s4 st = Some (VJson (idem_envelope fp (response_body r)))" "kv s4 (lock_key st) = None"
    "lease_keys_ok st s4" "str_key s4 (response_cache_key env body policy)"
    using ok3 ck same_keys(1) [OF s3, of "response_cache_key env body policy"]
    by (simp_all add: s4 del_any se lease_keys_ok_def str_key_def)
  note pf = publish_cache_frame [OF R k4(4), of r]
  have "snd (publish_cache env body policy r s4) = s'" using pc all by simp
  then have last: "s' = snd (publish_cache env body policy r s4)" by simp
  have "kv s' st = Some (VJson (idem_envelope fp (response_body r))) \<and> lease_keys_ok st s'"
    using pf k4 unfolding last by (auto simp: st lease_keys_ok_def str_key_def)
  with ok3 ci last show ?thesis by blast
qed

lemma handler_success:
  assumes fr: "env_frames kv hash zset rlist env" and R: "en_redis env = R"
    and ok: "request_keys_ok kv hash zset rlist env cf api_key s" and ttl: "0 < idempotency_ttl_seconds cf"
    and res: "redact_handler env body api_key (Some (c # cs)) s = (Inr (Redacted r, m), s')"
  obtains policy s3 s4 where "redact_checks env body = Inr (Inr policy)" "en_store env = Client"
    "kv s' (request_storage env (c # cs)) =
       Some (VJson (idem_envelope (request_fingerprint (en_digest env) body policy) (response_body r)))"
    "lease_keys_ok (request_storage env (c # cs)) s'" "lease_keys_ok (request_storage env (c # cs)) s3"
    "complete_idem R (en_complete_fault env) (request_storage env (c # cs)) (request_fingerprint (en_digest env) body policy)
       (en_token env) (response_body r) (idempotency_ttl_seconds cf) s3 = (Inr True, s4)"
    "s' = snd (publish_cache env body policy r s4)" "en_redactor env \<noteq> None"
proof -
  let ?st = "request_storage env (c # cs)"
  have es: "en_settings env = Some cf" using ok by (simp add: request_keys_ok_def)
  have ttl': "0 < cfg idempotency_ttl_seconds 86400 (en_settings env)" using ttl es by (simp add: cfg_def)
  obtain rl n s1 where rl: "rate_limit R (en_sha env) (en_settings env) (en_store env) (en_rate_fault env) (en_now env)
      api_key s = (rl, n, s1)" by (metis prod_cases3)
  note rk = rate_limit_keys [OF ok rl]
  obtain policy where pol: "redact_checks env body = Inr (Inr policy)" and rlo: "\<exists>x. rl = Inr x"
    using res by (cases rl; cases "redact_checks env body"; cases "projr (redact_checks env body)")
      (auto simp: redact_handler_def R rl redact_except_def problem_defs split: if_splits)
  obtain a0 fin lease s2 where rr: "redact_reserve env body policy api_key (Some (c # cs)) s1 = ((a0, fin, lease), s2)"
    by (metis prod_cases3 surj_pair)
  obtain rel s3 where rs: "redact_release env lease fin s2 = (rel, s3)" by force
  have hh: "redact_except (deadline a0) = Inr (Redacted r, m)" "s3 = s'"
    using res rlo by (auto simp: redact_handler_def R rl pol rr rs split: sum.splits)
  then have a0: "a0 = Inr (Redacted r, m)"
    using redact_except_not_redacted [of a0 r m]
    by (auto simp: redact_except_def deadline_def problem_defs split: sum.splits exn.splits if_splits)
  let ?fp = "request_fingerprint (en_digest env) body policy"
  obtain rv sv where rv: "reserve R (en_inspect_fault env) (en_lock_fault env) (en_token env) ?st ?fp
      (cfg idempotency_ttl_seconds 86400 (en_settings env)) s1 = (rv, sv)" by force
  note red = redact_reserve_def R rv request_storage_def [symmetric]
  have cl: "en_store env = Client" using rr a0 by (auto simp: red problem_defs Let_def split: if_splits)
  from reserve_outcome [OF rk(2) ttl' rv] have rvt: "rv = Inr (Acquired (en_token env))" and
    free: "kv s1 (lock_key ?st) = None" and
    svd: "sv = snd (set_ex R (lock_key ?st) (VStr (en_token env)) (cfg idempotency_ttl_seconds 86400 (en_settings env)) s1)"
    using rr a0 by (cases rv; cases "projr rv"; auto simp: red cl problem_defs Let_def)+
  note lv = locked_views [OF rk(2) ttl' free, of "en_token env", folded svd]
  have ck: "str_key sv (response_cache_key env body policy)"
    using rk(3) [of body policy] lv by (simp add: str_key_def)
  obtain l where l: "redact_leased env body policy api_key (Some (c # cs)) ?fp (Some (?st, en_token env)) sv
      = ((Inr (Redacted r, m), fin), s2)" "lease = Some (?st, en_token env)"
    using rr a0 by (auto simp: red cl rvt Let_def split: prod.splits)
  note ls = leased_success [OF fr R cl refl refl lv(5) ck ttl' l(1)]
  then have s2: "s' = s2" using rs hh(2) l(2) by (auto simp: redact_release_def)
  note rd = checked_redactor [OF pol]
  have T: "cfg idempotency_ttl_seconds 86400 (en_settings env) = idempotency_ttl_seconds cf" by (simp add: es cfg_def)
  from ls s2 show ?thesis by (auto simp: T intro: that [OF pol cl _ _ _ _ _ rd])
qed

lemma replay_after_success:
  assumes ok: "lease_keys_ok (request_storage env (c # cs)) s" and R: "en_redis env = R" and cl: "en_store env = Client"
    and pol: "redact_checks env body = Inr (Inr policy)" and nf: "en_inspect_fault env = None"
    and stored: "kv s (request_storage env (c # cs)) =
       Some (VJson (idem_envelope (request_fingerprint (en_digest env) body policy) resp))"
    and keys: "request_keys_ok kv hash zset rlist env cf api_key s"
    and rl: "rate_limit R (en_sha env) (en_settings env) Client (en_rate_fault env) (en_now env) api_key s = (Inr x, n, s1)"
  shows "redact_handler env body api_key (Some (c # cs)) s = (Inr (Replayed resp, 200), s1)"
proof -
  let ?st = "request_storage env (c # cs)"
  have es: "en_settings env = Some cf" using keys by (simp add: request_keys_ok_def)
  note rk = rate_limit_keys [OF keys rl]
  have st1: "kv s1 ?st = kv s ?st" using rk(1) es by simp
  have get: "r_get R ?st s1 = kv s ?st" using rk(2) [of "c # cs"] st1 by (simp add: lease_keys_ok_def get_str)
  let ?fp = "request_fingerprint (en_digest env) body policy"
  have "inspect_result ?fp (kv s ?st) = Some (Completed resp)"
    by (simp add: stored inspect_result_def decode_idem_def idem_envelope_def jget_def dict_get_def)
  then have "reserve R None f (en_token env) ?st ?fp t s1 = (Inr (Completed resp), s1)" for f t
    by (simp add: reserve_def get sreturn_def)
  then show ?thesis
    by (simp add: redact_handler_def R cl rl pol redact_reserve_def nf Let_def request_storage_def [symmetric]
        deadline_def redact_except_def redact_release_def)
qed

end

section \<open>The parts as the application wires them\<close>

text \<open>
  \<open>create_state\<close> of \<open>app/main.py\<close>: the redactor, the pipeline with its shared breaker and the
  Redis audit log, all on the server of the handler. The state is the server with the local
  breaker and the \<open>failed\<close> flag of the log.
\<close>

record app_parts =
  wp_detect :: detect_fun
  wp_strategies :: "(string \<times> strategy) list"
  wp_replacement :: string
  wp_hmac :: "string \<Rightarrow> string \<Rightarrow> string"
  wp_pipeline :: pipeline
  wp_pipe_env :: pipe_env
  wp_audit :: redis_audit
  wp_audit_env :: audit_env
  wp_audit_fault :: fault
  wp_audit_time :: rat
  wp_audit_stamp :: string

type_synonym 's app_state = "'s \<times> breaker \<times> bool"

definition wired_redactor :: "app_parts \<Rightarrow> string \<Rightarrow> json option \<Rightarrow> string list option \<Rightarrow> redaction_result res" where
  "wired_redactor w t policy types =
     (case policy of
        None \<Rightarrow> map_res fst (redactor_redact (wp_detect w) (wp_strategies w) (wp_replacement w) t None types)
      | Some (JDict p) \<Rightarrow> map_res fst (redactor_redact (wp_detect w) (wp_strategies w) (wp_replacement w) t (Some p) types)
      | Some _ \<Rightarrow> Inl AttributeError)"

definition wired_pipeline :: "'s redis \<Rightarrow> app_parts \<Rightarrow> string \<Rightarrow> 's app_state \<Rightarrow> pipeline_result res \<times> 's app_state" where
  "wired_pipeline R w t x =
     (let (s, b, f) = x; (r, b', s') = pipeline_call (wp_hmac w) R (wp_pipe_env w) (wp_pipeline w) t b s
      in (r, s', b', f))"

definition wired_audit :: "'s redis \<Rightarrow> app_parts \<Rightarrow> audit_event \<Rightarrow> 's app_state \<Rightarrow> unit res \<times> 's app_state" where
  "wired_audit R w ev x =
     (let (s, b, f) = x;
          (r, f', s') = redis_audit_record R (wp_audit_env w) (wp_audit w) (wp_audit_fault w) (wp_audit_time w)
            (wp_audit_time w) (wp_audit_stamp w) ev f s
      in (r, s', b, f'))"

definition wired_env :: "'s redis \<Rightarrow> app_parts \<Rightarrow> 's app_state redact_env \<Rightarrow> 's app_state redact_env" where
  "wired_env R w env =
     env\<lparr>en_redis := lift_redis R, en_redactor := Some (\<lambda>t p ts x. (wired_redactor w t p ts, x)),
         en_pipeline := Some (wired_pipeline R w), en_audit := Some (wired_audit R w)\<rparr>"

lemma other_keys:
  "\<not> handler_key ns (ns @ '':breaker:'' @ x)" "\<not> handler_key ns (audit_key ns)" "\<not> handler_key ns (audit_time_key ns)"
  by (simp_all add: handler_key_def audit_key_def audit_time_key_def)

context redis_local
begin

text \<open>The breaker and the audit log leave the keys of the handler alone.\<close>

lemma wired_frames:
  assumes "cfg redis_namespace ''redax'' (en_settings env) = ns" "ra_namespace (wp_audit w) = ns"
    and "pp_shared (wp_pipeline w) \<in> {None, Some (new_shared_breaker ns name thr cd t)}"
  shows "env_frames (\<lambda>x. kv (fst x)) (\<lambda>x. hash (fst x)) (\<lambda>x. zset (fst x)) (\<lambda>x. rlist (fst x)) (wired_env R w env)"
proof -
  have own: "own_key (wired_env R w env) = handler_key ns" by (simp add: own_key_def wired_env_def assms(1))
  have lift: "frame (\<lambda>x. kv (fst x)) (\<lambda>x. hash (fst x)) (\<lambda>x. zset (fst x)) (\<lambda>x. rlist (fst x)) K x y
      = frame kv hash zset rlist K (fst x) (fst y)" for K and x y :: "'s app_state"
    by (simp add: frame_def cell_def)
  have "clear_of (pp_shared (wp_pipeline w)) k" if "handler_key ns k" for k
    using assms(3) that other_keys(1) [of ns name] by (auto simp: clear_of_def new_shared_breaker_def)
  note p = pipeline_call_frame [of "handler_key ns", OF this]
  have "k \<noteq> audit_key (ra_namespace (wp_audit w)) \<and> k \<noteq> audit_time_key (ra_namespace (wp_audit w))"
    if "handler_key ns k" for k using that other_keys(2,3) [of ns] by (auto simp: assms(2))
  note a = redis_audit_record_frame [of "handler_key ns", OF this]
  show ?thesis
    unfolding env_frames_def own lift using p a
    by (auto simp: wired_env_def wired_pipeline_def wired_audit_def split_beta)
qed

end

section \<open>The contract of the endpoint\<close>

text \<open>
  C23. Audit before publication: when the audit record cannot be written, the request never
  answers with a new redaction, and of the keys of the handler it leaves every one as it
  was, so that no result and no cached response appear, except its rate-limit counter and,
  if the network failed when the lock was taken or released, its own lock, which then stays
  until it expires. The redactor, the pipeline and the audit log may change other keys.
\<close>

theorem unaudited_not_published:
  assumes "redis_laws (en_redis env) kv hash zset rlist" "env_frames kv hash zset rlist env"
    and "\<And>ev s. \<exists>e. fst (write_audit env ev s) = Inl e"
    and "request_keys_ok kv hash zset rlist env c api_key s" "0 < idempotency_ttl_seconds c"
    and "redact_handler env body api_key idem_key s = (a, s')"
  shows "(\<forall>r m. a \<noteq> Inr (Redacted r, m))
    \<and> (\<forall>k. own_key env k \<and> k \<noteq> rate_bucket (en_sha env) c api_key (en_now env) \<longrightarrow>
         kv s' k = kv s k
         \<or> (\<exists>key. idem_key = Some key \<and> k = lock_key (request_storage env key) \<and> kv s k = None
              \<and> kv s' k = Some (VStr (en_token env)) \<and> (en_lock_fault env \<noteq> None \<or> en_release_fault env \<noteq> None)))"
proof -
  obtain s1 where s1: "\<forall>k. k \<noteq> rate_bucket (en_sha env) c api_key (en_now env) \<longrightarrow> kv s1 k = kv s k"
    "redis_laws.unpublished kv env idem_key s1 s'" and "\<forall>r m. a \<noteq> Inr (Redacted r, m)"
    using redis_laws.unaudited_handler [OF assms(1,2) refl assms(3-6)] by blast
  then show ?thesis unfolding redis_laws.unpublished_def [OF assms(1)] by metis
qed

definition demo_env :: "(audit_event \<Rightarrow> store \<Rightarrow> unit res \<times> store) option \<Rightarrow> store redact_env" where
  "demo_env audit =
     \<lparr>en_redis = list_redis, en_settings = Some demo_settings, en_files = (\<lambda>d f. Some (Inr (JDict []))),
      en_store = Client,
      en_redactor = Some (\<lambda>t p ts s. (Inr \<lparr>rd_text = rev t, rd_spans = [], rd_relex_map = []\<rparr>, s)),
      en_pipeline = None, en_audit = audit, en_detector = None, en_digest = (\<lambda>d. dec (length d)),
      en_sha = (\<lambda>x. ''h''), en_hmac = (\<lambda>k x. ''p''), en_now = 60, en_ms = 0, en_token = ''tok'', en_trace = [],
      en_request_id = ''r'', en_rate_fault = None, en_inspect_fault = None, en_lock_fault = None,
      en_cache_get_fault = None, en_complete_fault = None, en_cache_set_fault = None, en_release_fault = None\<rparr>"

definition demo_request :: redact_request where
  "demo_request = \<lparr>rq_text = ''abc'', rq_types = Some [], rq_policy = None, rq_pipeline = False\<rparr>"

definition failing_audit :: "audit_event \<Rightarrow> store \<Rightarrow> unit res \<times> store" where
  "failing_audit ev s = (Inl RuntimeError, s)"

definition silent_audit :: "audit_event \<Rightarrow> store \<Rightarrow> unit res \<times> store" where
  "silent_audit ev s = (Inr (), s)"

lemma empty_views: "st_kv [] k = None" "st_hash [] k = Map.empty" "st_zset [] k = Map.empty" "st_list [] k = []"
  by (simp_all add: st_kv_def st_hash_def st_zset_def st_list_def st_fields_def st_members_def)

lemma demo_env_simps [simp]:
  "en_redis (demo_env a) = list_redis" "en_settings (demo_env a) = Some demo_settings" "en_store (demo_env a) = Client"
  "en_lock_fault (demo_env a) = None" "en_release_fault (demo_env a) = None" "en_inspect_fault (demo_env a) = None"
  "en_audit (demo_env a) = a" "0 < idempotency_ttl_seconds demo_settings"
  by (simp_all add: demo_env_def demo_settings_def)

text \<open>
  The wired application in the small: a pipeline whose model fails, with the shared breaker,
  and a required audit log, on any server.
\<close>

definition demo_parts :: "fault \<Rightarrow> app_parts" where
  "demo_parts flt =
     \<lparr>wp_detect = regex_detector RULES, wp_strategies = [], wp_replacement = ''x'', wp_hmac = (\<lambda>k m. k),
      wp_pipeline = demo_pipeline\<lparr>pp_shared := Some (new_shared_breaker ''redax'' ''model'' 3 5 60)\<rparr>,
      wp_pipe_env = Pipeline.demo_env,
      wp_audit = \<lparr>ra_client = True, ra_namespace = ''redax'', ra_max_events = 10, ra_retention = 3600, ra_required = True,
                  ra_integrity_key = []\<rparr>,
      wp_audit_env = demo_audit_env, wp_audit_fault = flt, wp_audit_time = 60, wp_audit_stamp = ''t''\<rparr>"

definition demo_wired :: "'s redis \<Rightarrow> fault \<Rightarrow> 's app_state redact_env" where
  "demo_wired R flt =
     wired_env R (demo_parts flt)
     \<lparr>en_redis = lift_redis R, en_settings = Some demo_settings, en_files = (\<lambda>d f. Some (Inr (JDict []))),
      en_store = Client, en_redactor = None, en_pipeline = None, en_audit = None, en_detector = None,
      en_digest = (\<lambda>d. dec (length d)), en_sha = (\<lambda>x. ''h''), en_hmac = (\<lambda>k x. ''p''), en_now = 60, en_ms = 0,
      en_token = ''tok'', en_trace = [], en_request_id = ''r'', en_rate_fault = None, en_inspect_fault = None,
      en_lock_fault = None, en_cache_get_fault = None, en_complete_fault = None, en_cache_set_fault = None,
      en_release_fault = None\<rparr>"

definition demo_text :: redact_request where
  "demo_text = \<lparr>rq_text = ''a b@c.de'', rq_types = None, rq_policy = None, rq_pipeline = True\<rparr>"

lemma demo_wired_frames:
  assumes "redis_local R kv hash zset rlist"
  shows "env_frames (\<lambda>x. kv (fst x)) (\<lambda>x. hash (fst x)) (\<lambda>x. zset (fst x)) (\<lambda>x. rlist (fst x)) (demo_wired R flt)"
  unfolding demo_wired_def
  by (rule redis_local.wired_frames [OF assms, where ns = "''redax''"])
    (simp_all add: demo_parts_def demo_settings_def cfg_def)

lemma demo_wired_simps [simp]:
  "en_redis (demo_wired R flt) = lift_redis R" "en_settings (demo_wired R flt) = Some demo_settings"
  "en_sha (demo_wired R flt) = (\<lambda>x. ''h'')" "en_now (demo_wired R flt) = 60"
  "en_digest (demo_wired R flt) = (\<lambda>d. dec (length d))"
  by (simp_all add: demo_wired_def wired_env_def)

text \<open>Where the keys of the handler hold nothing, they are as it expects them.\<close>

lemma empty_keys_ok:
  assumes "redis_laws R kv hash zset rlist" "en_settings env = Some c"
    and "\<And>k. handler_key (redis_namespace c) k \<Longrightarrow> kv s k = None \<and> hash s k = Map.empty \<and> zset s k = Map.empty \<and> rlist s k = []"
  shows "request_keys_ok kv hash zset rlist env c api_key s"
proof -
  have own: "own_key env = handler_key (redis_namespace c)" by (simp add: own_key_def assms(2) cfg_def)
  have "handler_key (redis_namespace c) (rate_bucket (en_sha env) c api_key now)" for now
    by (simp add: rate_bucket_def handler_key_def)
  note keys = assms(3) [OF this] assms(3) [OF own_keys(1) [of env, unfolded own]]
    assms(3) [OF own_keys(2) [of env, unfolded own]] assms(3) [OF own_keys(3) [of env, unfolded own]]
  show ?thesis
    unfolding request_keys_ok_def redis_laws.counter_key_def [OF assms(1)] redis_laws.lease_keys_ok_def [OF assms(1)]
      redis_laws.str_key_def [OF assms(1)] using keys assms(2) by simp
qed

lemma lifted_list_laws:
  "redis_laws (lift_redis list_redis) (\<lambda>x. st_kv (fst x)) (\<lambda>x. st_hash (fst x)) (\<lambda>x. st_zset (fst x)) (\<lambda>x. st_list (fst x))"
  by (rule lift_redis_laws [OF list_store.redis_laws_axioms])

definition demo_start :: "store app_state" where
  "demo_start = ([], new_breaker 3 5, False)"

text \<open>The audit log is down: the breaker has counted the call, and nothing is published.\<close>

lemma demo_unaudited_run:
  "st_hash (fst (snd (redact_handler (demo_wired list_redis (Some (RedisError, False))) demo_text ''k1'' (Some ''i1'') demo_start)))
     ''redax:breaker:model'' ''total_calls'' = Some (VInt 1)"
  by code_simp

theorem unaudited_not_published_witness:
  "st_kv (fst (snd (redact_handler (demo_wired list_redis (Some (RedisError, False))) demo_text ''k1'' (Some ''i1'') demo_start)))
     ''redax:cache:8'' = None"
proof -
  let ?env = "demo_wired list_redis (Some (RedisError, False))"
  have af: "\<exists>e. fst (write_audit ?env ev s) = Inl e" for ev s
    by (simp add: write_audit_def demo_wired_def wired_env_def wired_audit_def demo_parts_def redis_audit_record_def
        net_def split_beta Let_def)
  have "''redax:cache:8'' \<noteq> rate_bucket (en_sha ?env) demo_settings ''k1'' (en_now ?env)"
    "\<And>key. ''redax:cache:8'' \<noteq> lock_key (request_storage ?env key)" "own_key ?env ''redax:cache:8''"
    by (simp_all add: rate_bucket_def demo_settings_def default_settings_def lock_key_def request_storage_def
        idempotency_storage_key_def own_key_def handler_key_def cfg_def)
  moreover have "request_keys_ok (\<lambda>x. st_kv (fst x)) (\<lambda>x. st_hash (fst x)) (\<lambda>x. st_zset (fst x)) (\<lambda>x. st_list (fst x))
      ?env demo_settings ''k1'' demo_start"
    by (rule empty_keys_ok [OF lifted_list_laws]) (simp_all add: demo_start_def empty_views)
  moreover obtain a s' where "redact_handler ?env demo_text ''k1'' (Some ''i1'') demo_start = (a, s')"
    by (cases "redact_handler ?env demo_text ''k1'' (Some ''i1'') demo_start")
  ultimately show ?thesis
    using unaudited_not_published [of ?env "\<lambda>x. st_kv (fst x)" "\<lambda>x. st_hash (fst x)" "\<lambda>x. st_zset (fst x)"
        "\<lambda>x. st_list (fst x)" demo_settings "''k1''" demo_start demo_text "Some ''i1''" a s']
      lifted_list_laws demo_wired_frames [OF list_local.redis_local_axioms] af
    by (auto simp: demo_start_def empty_views)
qed

text \<open>
  C24. Retries are safe for the time to live of the record: once a request with an idempotency
  key was answered with a new redaction, its record lives for \<open>idempotency_ttl_seconds\<close>. If
  nothing else has written the record, the same request, repeated before that time by any
  caller whom the rate limit lets through and whose lookup does not fail, is answered with
  the stored body of that redaction; neither the redactor nor the audit log is used, and
  only the rate counter moves. Afterwards the record is gone. Nothing is assumed about the
  faults of the first request.
\<close>

theorem redact_idempotent:
  assumes "redis_expiry (en_redis env) kv hash zset rlist ttl elapse" "env_frames kv hash zset rlist env"
    and "request_keys_ok kv hash zset rlist env c api_key s" "0 < idempotency_ttl_seconds c"
    and "redact_handler env body api_key (Some (x # xs)) s = (Inr (Redacted r, m), s1)"
    and "env' = env\<lparr>en_token := tok, en_now := later, en_rate_fault := flt, en_inspect_fault := None,
           en_redactor := Some redact', en_audit := audit'\<rparr>"
    and "kv s2 (request_storage env (x # xs)) = kv (elapse d s1) (request_storage env (x # xs))"
    and "request_keys_ok kv hash zset rlist env' c api_key' s2"
    and "rate_limit (en_redis env) (en_sha env) (en_settings env) Client flt later api_key' s2 = (Inr k, n, s3)"
  shows "if d < of_int (idempotency_ttl_seconds c)
    then redact_handler env' body api_key' (Some (x # xs)) s2 = (Inr (Replayed (response_body r), 200), s3)
    else kv s2 (request_storage env (x # xs)) = None"
proof -
  let ?st = "request_storage env (x # xs)"
  note laws = redis_local.axioms(1) [OF redis_expiry.axioms(1) [OF assms(1)]]
  obtain policy t3 t4 where p: "redact_checks env body = Inr (Inr policy)" "en_store env = Client"
    "kv s1 ?st = Some (VJson (idem_envelope (request_fingerprint (en_digest env) body policy) (response_body r)))"
    and t: "redis_laws.lease_keys_ok kv hash zset rlist ?st t3"
    "complete_idem (en_redis env) (en_complete_fault env) ?st (request_fingerprint (en_digest env) body policy)
       (en_token env) (response_body r) (idempotency_ttl_seconds c) t3 = (Inr True, t4)"
    "s1 = snd (publish_cache env body policy r t4)" and rd: "en_redactor env \<noteq> None"
    by (rule redis_laws.handler_success [OF laws assms(2) refl assms(3-5)])
  have "ttl s1 ?st = Some (of_int (idempotency_ttl_seconds c))"
    using redis_expiry.published_ttl [OF assms(1) t(1) assms(4) t(2)]
      keywise.publish_cache_other [OF redis_expiry.axioms(2) [OF assms(1)] refl, where k = ?st] t(3)
    by simp
  note left = redis_expiry.elapse_kv [OF assms(1) this, where d = d]
  have st: "request_storage env' key = request_storage env key" for key
    by (simp add: assms(6) request_storage_def)
  have ch: "redact_checks env' body = redact_checks env body"
  proof -
    have f: "en_settings env' = en_settings env" "en_files env' = en_files env" "en_pipeline env' = en_pipeline env"
      "(en_redactor env' = None) = (en_redactor env = None)" using rd by (simp_all add: assms(6))
    show ?thesis unfolding redact_checks_def resolve_policy_def f ..
  qed
  show ?thesis
  proof (cases "d < of_int (idempotency_ttl_seconds c)")
    case True
    have ok: "redis_laws.lease_keys_ok kv hash zset rlist (request_storage env' (x # xs)) s2"
      using assms(8) by (simp add: request_keys_ok_def)
    have "redact_handler env' body api_key' (Some (x # xs)) s2 = (Inr (Replayed (response_body r), 200), s3)"
      by (rule redis_laws.replay_after_success [OF laws ok, where policy = policy and cf = c and n = n and x = k])
        (use p left True assms(7-9) st ch in \<open>simp_all add: assms(6)\<close>)
    then show ?thesis using True by simp
  qed (use left assms(7) in simp)
qed

definition demo_published :: redact_response where
  "demo_published = \<lparr>rp_text = ''a [EMAIL_0001]'', rp_spans = [mk_span 2 8 ''EMAIL'' 1], rp_relex_map = [],
     rp_used_pipeline = True, rp_used_fallback = True, rp_digest = Some []\<rparr>"

text \<open>
  A degraded run of the pipeline leaves the count, the breaker's hash, the audit lists, the
  record and the cached response, with their times to live.
\<close>

definition demo_keys :: store where
  "demo_keys =
     [(''redax:rl:h:1'', SStr (VInt 1)),
      (''redax:breaker:model'',
       SHash [(''total_calls'', VInt 1), (''consecutive_failures'', VInt 1), (''total_failures'', VInt 1)]),
      (''redax:audit:events'',
       SList [VJson (JDict (signed_event_payload demo_audit_env ''t''
         (redact_event (demo_wired timed_redis None) demo_text None ''k1'' demo_published) []))]),
      (''redax:audit:event-timestamps'', SList [VNum 60]),
      (''redax:idem:h'', SStr (VJson (idem_envelope ''4'' (response_body demo_published)))),
      (''redax:cache:8'', SStr (VJson (cache_envelope (response_body demo_published))))]"

definition demo_end :: "timed_store app_state" where
  "demo_end =
     ((demo_keys, [(''redax:rl:h:1'', 60), (''redax:breaker:model'', 60), (''redax:audit:events'', 3600),
        (''redax:audit:event-timestamps'', 3600), (''redax:idem:h'', 60), (''redax:cache:8'', 60)]),
      new_breaker 3 5, False)"

lemma demo_first:
  "redact_handler (demo_wired timed_redis None) demo_text ''k1'' (Some ''i1'') (([], []), new_breaker 3 5, False) =
     (Inr (Redacted demo_published, 200), demo_end)"
  by code_simp

text \<open>Ten seconds later nothing has expired; with the redactor and the log out of order the retry is answered.\<close>

definition demo_retry :: "timed_store app_state redact_env" where
  "demo_retry = (demo_wired timed_redis None)\<lparr>en_token := ''t2'', en_now := 70, en_rate_fault := None,
     en_inspect_fault := None, en_redactor := Some (\<lambda>t p ts x. (Inl RuntimeError, x)),
     en_audit := Some (\<lambda>ev x. (Inl RuntimeError, x))\<rparr>"

definition demo_later :: "timed_store app_state" where
  "demo_later = on_fst (timed_elapse 10) demo_end"

lemma demo_later_keys: "fst (fst demo_later) = demo_keys"
  by code_simp

lemma demo_keys_views:
  "k \<noteq> ''redax:breaker:model'' \<Longrightarrow> st_hash demo_keys k = Map.empty" "st_zset demo_keys k = Map.empty"
  "k \<noteq> ''redax:audit:events'' \<Longrightarrow> k \<noteq> ''redax:audit:event-timestamps'' \<Longrightarrow> st_list demo_keys k = []"
  "st_kv demo_keys k = (if k = ''redax:rl:h:1'' then Some (VInt 1)
     else if k = ''redax:idem:h'' then Some (VJson (idem_envelope ''4'' (response_body demo_published)))
     else if k = ''redax:cache:8'' then Some (VJson (cache_envelope (response_body demo_published))) else None)"
  by (simp_all add: st_hash_def st_zset_def st_list_def st_kv_def st_fields_def st_members_def demo_keys_def)

lemma timed_lift:
  "redis_expiry (lift_redis timed_redis) (\<lambda>x. st_kv (fst (fst x))) (\<lambda>x. st_hash (fst (fst x)))
     (\<lambda>x. st_zset (fst (fst x))) (\<lambda>x. st_list (fst (fst x))) (\<lambda>x. timed_ttl (fst x)) (\<lambda>d. on_fst (timed_elapse d))"
  by (rule lift_expiry [OF timed_store.redis_expiry_axioms])

lemma demo_retry_keys:
  "request_keys_ok (\<lambda>x. st_kv (fst (fst x))) (\<lambda>x. st_hash (fst (fst x))) (\<lambda>x. st_zset (fst (fst x)))
     (\<lambda>x. st_list (fst (fst x))) demo_retry demo_settings ''k1'' demo_later"
proof -
  note laws = redis_local.axioms(1) [OF redis_expiry.axioms(1) [OF timed_lift]]
  show ?thesis
    unfolding request_keys_ok_def redis_laws.counter_key_def [OF laws] redis_laws.lease_keys_ok_def [OF laws]
      redis_laws.str_key_def [OF laws] demo_later_keys
    by (simp add: demo_retry_def demo_keys_views rate_bucket_def request_storage_def idempotency_storage_key_def
        lock_key_def response_cache_key_def cfg_def demo_settings_def default_settings_def)
qed

theorem redact_idempotent_witness:
  "fst (redact_handler demo_retry demo_text ''k1'' (Some ''i1'') demo_later) =
     Inr (Replayed (response_body demo_published), 200)"
proof -
  let ?env = "demo_wired timed_redis None"
  note laws = redis_local.axioms(1) [OF redis_expiry.axioms(1) [OF timed_lift]]
  obtain n s3 where rl: "rate_limit (en_redis ?env) (en_sha ?env) (en_settings ?env) Client None 70 ''k1'' demo_later =
      (Inr ''k1'', n, s3)"
  proof -
    have "fst (rate_limit (en_redis ?env) (en_sha ?env) (en_settings ?env) Client None 70 ''k1'' demo_later) = Inr ''k1''"
      by code_simp
    then show ?thesis using that by (metis prod.collapse)
  qed
  have start: "request_keys_ok (\<lambda>x. st_kv (fst (fst x))) (\<lambda>x. st_hash (fst (fst x))) (\<lambda>x. st_zset (fst (fst x)))
     (\<lambda>x. st_list (fst (fst x))) ?env demo_settings ''k1'' (([], []), new_breaker 3 5, False)"
    by (rule empty_keys_ok [OF laws]) (simp_all add: empty_views)
  have fr: "env_frames (\<lambda>x. st_kv (fst (fst x))) (\<lambda>x. st_hash (fst (fst x))) (\<lambda>x. st_zset (fst (fst x)))
     (\<lambda>x. st_list (fst (fst x))) ?env"
    by (rule demo_wired_frames [OF timed_store.redis_local_axioms])
  have T: "0 < idempotency_ttl_seconds demo_settings" "10 < (of_int (idempotency_ttl_seconds demo_settings) :: rat)"
    by (simp_all add: demo_settings_def)
  have law: "redis_expiry (en_redis ?env) (\<lambda>x. st_kv (fst (fst x))) (\<lambda>x. st_hash (fst (fst x)))
     (\<lambda>x. st_zset (fst (fst x))) (\<lambda>x. st_list (fst (fst x))) (\<lambda>x. timed_ttl (fst x)) (\<lambda>d. on_fst (timed_elapse d))"
    using timed_lift by simp
  have same: "st_kv (fst (fst demo_later)) k = st_kv (fst (fst (on_fst (timed_elapse 10) demo_end))) k" for k
    by (simp add: demo_later_def)
  show ?thesis
    using redact_idempotent [OF law fr start T(1) demo_first demo_retry_def same demo_retry_keys rl] T(2) by simp
qed

text \<open>
  What a replay loses: the stored body has no pipeline flags and no digest, so the answer
  of a degraded pipeline, once published, is served again without its fallback mark.
\<close>

lemma stored_body_drops_fallback:
  "response_body r = response_body (r\<lparr>rp_used_pipeline := u, rp_used_fallback := f, rp_digest := d\<rparr>)"
  by (simp add: response_body_def)

text \<open>Without a redactor the metric counts a 503 while the client gets a 500.\<close>

lemma missing_redactor_mislabelled:
  assumes "en_redactor env = None" "redact_checks env body = Inr (Inl (Problem (internal_error redact_route d), m))"
  shows "m = 503 \<and> http_status (Problem (internal_error redact_route d)) = 500"
  using assms
  by (auto simp: redact_checks_def resolve_policy_def bind_res_Inr_iff problem_defs
      dest!: arg_cong [where f = hr_status] split: if_splits sum.splits)

end
