(* ===== verification/StreamApi.thy ===== *)
theory StreamApi
  imports RedactApi
begin

text \<open>
  \<open>POST /v1/redact/stream\<close> of \<open>app/api/stream.py\<close>: the splitting of the text into chunks, the
  generator of the events with its timeouts, and the checks before it. The lemmas show that
  the chunks are a partition of the text within both budgets, as long as they can be, and
  that the completion marker is sent only after the audit record of the whole stream.
\<close>

section \<open>Chunks\<close>

text \<open>The length of the UTF-8 encoding, on code points below 256.\<close>

definition utf8_len :: "string \<Rightarrow> nat" where
  "utf8_len t = sum_list (map (\<lambda>c. if code c < 128 then 1 else 2) t)"

definition substring :: "string \<Rightarrow> nat \<Rightarrow> nat \<Rightarrow> string" where
  "substring t a b = take (b - a) (drop a t)"

text \<open>The inner loop: the end moves back while the chunk is too large.\<close>

fun shrink_end :: "string \<Rightarrow> nat \<Rightarrow> nat \<Rightarrow> nat \<Rightarrow> nat" where
  "shrink_end t start chunk_bytes 0 = 0"
| "shrink_end t start chunk_bytes (Suc e) =
     (if Suc e > start \<and> utf8_len (substring t start (Suc e)) > chunk_bytes
      then shrink_end t start chunk_bytes e else Suc e)"

lemma shrink_end_bounds: "start \<le> e \<Longrightarrow> start \<le> shrink_end t start cb e \<and> shrink_end t start cb e \<le> e"
  by (induction e) (auto simp: le_Suc_eq)

definition chunk_end :: "string \<Rightarrow> nat \<Rightarrow> nat \<Rightarrow> nat \<Rightarrow> nat" where
  "chunk_end t chunk_chars chunk_bytes start =
     (let e = shrink_end t start chunk_bytes (min (start + chunk_chars) (length t))
      in if e = start then start + 1 else e)"

lemma chunk_end_bounds:
  assumes "start < length t"
  shows "start < chunk_end t cc cb start" "chunk_end t cc cb start \<le> length t"
  using shrink_end_bounds [of start "min (start + cc) (length t)" t cb] assms
  by (auto simp: chunk_end_def Let_def)

function split_from :: "string \<Rightarrow> nat \<Rightarrow> nat \<Rightarrow> nat \<Rightarrow> string list" where
  "split_from t chunk_chars chunk_bytes start =
     (if start < length t
      then substring t start (chunk_end t chunk_chars chunk_bytes start)
        # split_from t chunk_chars chunk_bytes (chunk_end t chunk_chars chunk_bytes start)
      else [])"
  by pat_completeness auto
termination
  by (relation "measure (\<lambda>(t, cc, cb, start). length t - start)")
    (use chunk_end_bounds in \<open>auto intro: diff_less_mono2\<close>)

declare split_from.simps [simp del]

definition split_chunks :: "string \<Rightarrow> nat \<Rightarrow> nat \<Rightarrow> string list" where
  "split_chunks t chunk_chars chunk_bytes = split_from t chunk_chars chunk_bytes 0"

text \<open>A chunk respects both budgets, unless it is a single character.\<close>

definition chunk_ok :: "nat \<Rightarrow> nat \<Rightarrow> string \<Rightarrow> bool" where
  "chunk_ok cc cb c \<longleftrightarrow> c \<noteq> [] \<and> (length c = 1 \<or> length c \<le> cc \<and> utf8_len c \<le> cb)"

lemma length_substring: "a \<le> b \<Longrightarrow> b \<le> length t \<Longrightarrow> length (substring t a b) = b - a"
  by (simp add: substring_def)

lemma shrink_end_fits:
  "start < shrink_end t start cb e \<Longrightarrow> utf8_len (substring t start (shrink_end t start cb e)) \<le> cb"
  by (induction e) (auto simp: not_less)

lemma shrink_end_maximal:
  "start \<le> e \<Longrightarrow> shrink_end t start cb e < e' \<Longrightarrow> e' \<le> e \<Longrightarrow> utf8_len (substring t start e') > cb"
  by (induction e) (auto simp: le_Suc_eq split: if_splits)

lemma utf8_len_append [simp]: "utf8_len (a @ b) = utf8_len a + utf8_len b"
  by (simp add: utf8_len_def)

lemma chunk_end_ok:
  assumes "start < length t"
  shows "chunk_ok cc cb (substring t start (chunk_end t cc cb start))"
proof -
  let ?m = "min (start + cc) (length t)" and ?e = "chunk_end t cc cb start"
  define e1 where "e1 = shrink_end t start cb ?m"
  note b = chunk_end_bounds [OF assms, of cc cb]
  have len: "length (substring t start ?e) = ?e - start" using b by (simp add: length_substring)
  show ?thesis
  proof (cases "e1 = start")
    case True
    then have "?e = start + 1" by (simp add: chunk_end_def e1_def Let_def)
    with len show ?thesis by (auto simp: chunk_ok_def)
  next
    case False
    then have e: "?e = e1" by (simp add: chunk_end_def e1_def Let_def)
    have "start \<le> ?m" using assms by simp
    from shrink_end_bounds [OF this] have "e1 \<le> ?m" by (simp add: e1_def)
    moreover have "utf8_len (substring t start e1) \<le> cb"
      using shrink_end_fits [of start t cb ?m] b(1) e by (simp add: e1_def)
    ultimately show ?thesis using b(1) len e by (auto simp: chunk_ok_def)
  qed
qed

lemma split_from_concat: "concat (split_from t cc cb start) = drop start t"
proof (induction t cc cb start rule: split_from.induct)
  case (1 t cc cb start)
  show ?case
  proof (cases "start < length t")
    case True
    then have "concat (split_from t cc cb start)
        = substring t start (chunk_end t cc cb start) @ drop (chunk_end t cc cb start) t"
      using 1 by (subst split_from.simps) simp
    also have "\<dots> = drop start t"
      using chunk_end_bounds [OF True, of cc cb]
      by (metis append_take_drop_id drop_drop le_add_diff_inverse2 less_imp_le substring_def)
    finally show ?thesis .
  qed (simp add: split_from.simps)
qed

lemma split_from_ok: "c \<in> set (split_from t cc cb start) \<Longrightarrow> chunk_ok cc cb c"
proof (induction t cc cb start rule: split_from.induct)
  case (1 t cc cb start)
  then show ?case
    by (subst (asm) (2) split_from.simps) (auto simp: chunk_end_ok split: if_splits)
qed

lemma split_from_count: "start \<le> length t \<Longrightarrow> length (split_from t cc cb start) \<le> length t - start"
proof (induction t cc cb start rule: split_from.induct)
  case (1 t cc cb start)
  show ?case
  proof (cases "start < length t")
    case True
    note b = chunk_end_bounds [OF True, of cc cb]
    from 1(1) [OF True] b show ?thesis by (subst split_from.simps) (simp add: True)
  qed (simp add: split_from.simps)
qed

text \<open>A chunk cannot take the next character.\<close>

lemma chunk_end_greedy:
  assumes "start < length t" "chunk_end t cc cb start < length t"
  defines "c \<equiv> substring t start (chunk_end t cc cb start)"
  shows "cc \<le> length c \<or> cb < utf8_len (c @ [t ! chunk_end t cc cb start])"
proof -
  let ?m = "min (start + cc) (length t)" and ?e = "chunk_end t cc cb start"
  define e1 where "e1 = shrink_end t start cb ?m"
  note b = chunk_end_bounds [OF assms(1), of cc cb]
  have sm: "start \<le> ?m" using assms(1) by simp
  have len: "length c = ?e - start" using b by (simp add: length_substring c_def)
  have snoc: "substring t start (Suc ?e) = c @ [t ! ?e]"
    using b assms(2) by (simp add: substring_def c_def take_Suc_conv_app_nth Suc_diff_le)
  have big: "cb < utf8_len (substring t start e')" if "e1 < e'" "e' \<le> ?m" for e'
    using shrink_end_maximal [OF sm] that by (simp add: e1_def)
  show ?thesis
  proof (cases "e1 = start")
    case True
    then have e: "?e = start + 1" by (simp add: chunk_end_def e1_def Let_def)
    show ?thesis
    proof (cases "cc = 0")
      case False
      then have "cb < utf8_len c" using big [of ?e] True e assms(1) by (simp add: c_def)
      then show ?thesis by simp
    qed simp
  next
    case False
    then have e: "?e = e1" by (simp add: chunk_end_def e1_def Let_def)
    show ?thesis
    proof (cases "e1 < ?m")
      case True
      then show ?thesis using big [of "Suc ?e"] e snoc by simp
    next
      case False
      with shrink_end_bounds [OF sm, of t cb] have "e1 = ?m" unfolding e1_def by linarith
      with e assms(2) len show ?thesis by auto
    qed
  qed
qed

lemma split_from_greedy:
  "successively (\<lambda>c c'. cc \<le> length c \<or> cb < utf8_len (c @ [hd c'])) (split_from t cc cb start)"
proof (induction t cc cb start rule: split_from.induct)
  case (1 t cc cb start)
  show ?case
  proof (cases "start < length t")
    case True
    let ?e = "chunk_end t cc cb start"
    show ?thesis
    proof (cases "?e < length t")
      case nx: True
      note b = chunk_end_bounds [OF nx, of cc cb]
      have hd: "hd (substring t ?e (chunk_end t cc cb ?e)) = t ! ?e"
        using b nx by (simp add: substring_def hd_drop_conv_nth)
      have "split_from t cc cb ?e = substring t ?e (chunk_end t cc cb ?e) # split_from t cc cb (chunk_end t cc cb ?e)"
        using nx by (subst split_from.simps) simp
      with 1 [OF True] chunk_end_greedy [OF True nx] hd show ?thesis
        by (subst split_from.simps) (simp add: True)
    next
      case False
      then have "split_from t cc cb ?e = []" by (subst split_from.simps) simp
      then show ?thesis by (subst split_from.simps) simp
    qed
  qed (simp add: split_from.simps)
qed

text \<open>
  C31. Splitting terminates on every text and every pair of budgets, with at most one chunk
  per character: the chunks put together are the text, each is non-empty and within both
  budgets unless it is a single character, and no chunk could have taken the next
  character as well.
\<close>

theorem split_chunks_correct:
  "concat (split_chunks t cc cb) = t \<and> length (split_chunks t cc cb) \<le> length t
   \<and> list_all (chunk_ok cc cb) (split_chunks t cc cb)
   \<and> successively (\<lambda>c c'. cc \<le> length c \<or> cb < utf8_len (c @ [hd c'])) (split_chunks t cc cb)"
  using split_from_concat [of t cc cb 0] split_from_count [of 0 t cc cb] split_from_ok split_from_greedy
  by (auto simp: split_chunks_def list_all_iff)

section \<open>The events\<close>

record stream_request =
  st_text :: string
  st_policy :: "json option"
  st_types :: "string list option"
  st_chunk_chars :: "nat option"

datatype stream_event = Chunk_event redaction_result | Error_event string "nat option" | Done_event

definition event_payload :: "stream_event \<Rightarrow> (json \<times> json) list option" where
  "event_payload ev =
     (case ev of
        Chunk_event r \<Rightarrow> Some [(JStr ''text'', JStr (rd_text r)), (JStr ''spans'', JList (map span_json (rd_spans r))),
          (JStr ''relex_map'', JDict []), (JStr ''used_pipeline'', JBool False), (JStr ''used_fallback'', JBool False),
          (JStr ''digest'', JNull)]
      | Error_event msg None \<Rightarrow> Some [(JStr ''error'', JStr msg)]
      | Error_event msg (Some status) \<Rightarrow> Some [(JStr ''error'', JStr msg), (JStr ''status'', JInt (int status))]
      | Done_event \<Rightarrow> None)"

text \<open>The line of an event; \<open>dumps\<close> is \<open>json.dumps\<close>.\<close>

definition sse :: "((json \<times> json) list \<Rightarrow> string) \<Rightarrow> stream_event \<Rightarrow> string" where
  "sse dumps ev = ''data: '' @ (case event_payload ev of None \<Rightarrow> ''[DONE]'' | Some p \<Rightarrow> dumps p) @ [newline, newline]"

type_synonym 's redact_fun = "string \<Rightarrow> json option \<Rightarrow> string list option \<Rightarrow> 's \<Rightarrow> redaction_result res \<times> 's"

text \<open>How the loop over the chunks ends: with the spans of all chunks, at a deadline, or by an exception.\<close>

datatype stream_end = Finished_stream "span list" | Stopped nat | Broken exn

text \<open>
  The remaining time of the stream before chunk \<open>i\<close> is an argument. A chunk's redaction is
  awaited under a deadline of its own, which shows as \<open>TimeoutError\<close>.
\<close>

fun stream_loop ::
  "'s redact_fun \<Rightarrow> json option \<Rightarrow> string list option \<Rightarrow> (nat \<Rightarrow> rat) \<Rightarrow> nat \<Rightarrow> string list \<Rightarrow> 's \<Rightarrow>
   (stream_event list \<times> stream_end) \<times> 's" where
  "stream_loop redact policy types remaining i [] s = (([], Finished_stream []), s)"
| "stream_loop redact policy types remaining i (piece # pieces) s =
     (if remaining i \<le> 0 then (([Error_event ''stream timeout'' (Some 504)], Stopped 504), s)
      else
        (case redact piece policy types s of
           (Inl e, s1) \<Rightarrow>
             if e = TimeoutError then (([Error_event ''request timeout'' (Some 504)], Stopped 504), s1)
             else (([], Broken e), s1)
         | (Inr r, s1) \<Rightarrow>
             (let ((evs, e), s2) = stream_loop redact policy types remaining (Suc i) pieces s1
              in ((Chunk_event r # evs,
                   case e of Finished_stream spans \<Rightarrow> Finished_stream (rd_spans r @ spans) | _ \<Rightarrow> e), s2))))"

definition stream_audit_event :: "'s redact_env \<Rightarrow> stream_request \<Rightarrow> json option \<Rightarrow> string \<Rightarrow> span list \<Rightarrow> audit_event" where
  "stream_audit_event env body policy api_key spans =
     \<lparr>ev_request_id = en_request_id env, ev_ts = [], ev_policy_version = policy_version policy,
      ev_text_chars = int (length (st_text body)),
      ev_principal_id = principal_id (en_hmac env) api_key (cfg hash_salt [] (en_settings env)),
      ev_entities = JList (span_summary spans), ev_inference_ms = en_ms env, ev_redactor_version = ''0.1.0'',
      ev_model_name = [], ev_trace_id = en_trace env, ev_direction = ''egress''\<rparr>"

text \<open>The two \<open>except\<close> clauses: the last event and the status, and the exception if it goes on.\<close>

definition stream_except :: "exn \<Rightarrow> stream_event list \<times> nat option \<times> unit res" where
  "stream_except e =
     (if TRANSIENT_EXC e then ([Error_event ''internal error'' None], Some 500, Inr ())
      else ([], if e = CancelledError then Some 499 else None, Inl e))"

definition event_source ::
  "'s redact_env \<Rightarrow> 's redact_fun \<Rightarrow> stream_request \<Rightarrow> json option \<Rightarrow> string \<Rightarrow> (nat \<Rightarrow> rat) \<Rightarrow> 's \<Rightarrow>
   (stream_event list \<times> nat option \<times> unit res) \<times> 's" where
  "event_source env redact body policy api_key remaining s =
     (let chunk = (case st_chunk_chars body of Some (Suc n) \<Rightarrow> Suc n
                   | _ \<Rightarrow> nat (cfg stream_chunk_chars 2000 (en_settings env)));
          pieces = split_chunks (st_text body) chunk (nat (cfg stream_chunk_bytes 4096 (en_settings env)));
          ((evs, ending), s1) = stream_loop redact policy (st_types body) remaining 0 pieces s
      in (case ending of
            Stopped status \<Rightarrow> ((evs, Some status, Inr ()), s1)
          | Broken e \<Rightarrow> (let (last, m, r) = stream_except e in ((evs @ last, m, r), s1))
          | Finished_stream spans \<Rightarrow>
              (case write_audit env (stream_audit_event env body policy api_key spans) s1 of
                 (Inl e, s2) \<Rightarrow> (let (last, m, r) = stream_except e in ((evs @ last, m, r), s2))
               | (Inr _, s2) \<Rightarrow> ((evs @ [Done_event], Some 200, Inr ()), s2))))"

datatype stream_answer = Stream_problem http_response | Stream_events "stream_event list \<times> nat option \<times> unit res"

definition stream_route :: route where
  "stream_route = Some ''/v1/redact/stream''"

definition redact_stream ::
  "'s redact_env \<Rightarrow> stream_request \<Rightarrow> string \<Rightarrow> (nat \<Rightarrow> rat) \<Rightarrow> 's \<Rightarrow> stream_answer res \<times> 's" where
  "redact_stream env body api_key remaining s =
     (case en_redactor env of
        None \<Rightarrow> (Inr (Stream_problem (internal_error stream_route ''redactor not initialized'')), s)
      | Some redact \<Rightarrow>
          if int (length (st_text body)) > cfg max_text_chars 100000 (en_settings env)
          then (Inr (Stream_problem (payload_too_large stream_route
                  (''text exceeds '' @ show_int (cfg max_text_chars 100000 (en_settings env)) @ '' chars''))), s)
          else
            (case rate_limit (en_redis env) (en_sha env) (en_settings env) (en_store env) (en_rate_fault env) (en_now env)
                    api_key s of
               (Inl e, n, s1) \<Rightarrow> (Inl e, s1)
             | (Inr _, n, s1) \<Rightarrow>
                 if st_policy body \<noteq> None \<and> st_types body \<noteq> None
                 then (Inr (Stream_problem (problem_response stream_route (error_type ''policy-entity-types-conflict'')
                         ''Policy and Entity Types Conflict'' 422
                         (Some ''Choose either policy or entity_types; do not send both.'') None)), s1)
                 else
                   (case effective_policy (policy_cfg (en_settings env)) (en_files env) (st_policy body) (st_types body) of
                      Inl e \<Rightarrow>
                        (if e = PolicyUnavailableError then Inr (Stream_problem (policy_unavailable stream_route))
                         else if e = TypeError \<or> is_value_error e then Inr (Stream_problem (invalid_policy stream_route))
                         else Inl e, s1)
                    | Inr policy \<Rightarrow>
                        (let (out, s2) = event_source env redact body policy api_key remaining s1
                         in (Inr (Stream_events out), s2)))))"

lemma stream_loop_finished:
  "stream_loop redact policy types remaining i pieces s = ((evs, Finished_stream spans), s') \<Longrightarrow>
   \<exists>rs. evs = map Chunk_event rs \<and> spans = concat (map rd_spans rs)
     \<and> list_all2 (\<lambda>p r. \<exists>a b. redact p policy types a = (Inr r, b)) pieces rs"
proof (induction pieces arbitrary: i s evs spans)
  case (Cons p ps)
  from Cons.prems obtain r s1 where r: "redact p policy types s = (Inr r, s1)"
    by (auto split: if_splits prod.splits sum.splits)
  obtain evs1 e1 s2 where l: "stream_loop redact policy types remaining (Suc i) ps s1 = ((evs1, e1), s2)"
    by (metis prod.exhaust)
  from Cons.prems r l obtain sp where e: "e1 = Finished_stream sp" "evs = Chunk_event r # evs1"
    "spans = rd_spans r @ sp" "s2 = s'"
    by (cases e1) (auto split: if_splits)
  from Cons.IH [OF l [unfolded e(1,4)]] obtain rs where "evs1 = map Chunk_event rs" "sp = concat (map rd_spans rs)"
    "list_all2 (\<lambda>p r. \<exists>a b. redact p policy types a = (Inr r, b)) ps rs" by blast
  with r e show ?case by (intro exI [of _ "r # rs"]) auto
qed simp

lemma stream_loop_no_done:
  "Done_event \<notin> set (fst (fst (stream_loop redact policy types remaining i pieces s)))"
proof (induction pieces arbitrary: i s)
  case (Cons p ps)
  obtain x s1 where r: "redact p policy types s = (x, s1)" by force
  obtain evs1 e1 s2 where l: "stream_loop redact policy types remaining (Suc i) ps s1 = ((evs1, e1), s2)"
    by (metis prod.exhaust)
  from Cons.IH [of "Suc i" s1] l r show ?case by (cases x) auto
qed simp

lemma stream_done:
  assumes "event_source env redact body policy api_key remaining s = ((evs, m, r), s')" "Done_event \<in> set evs"
  shows "\<exists>pieces rs s1. concat pieces = st_text body
    \<and> list_all2 (\<lambda>p x. \<exists>a b. redact p policy (st_types body) a = (Inr x, b)) pieces rs
    \<and> evs = map Chunk_event rs @ [Done_event] \<and> m = Some 200 \<and> r = Inr ()
    \<and> write_audit env (stream_audit_event env body policy api_key (concat (map rd_spans rs))) s1 = (Inr (), s')"
proof -
  define pieces where "pieces = split_chunks (st_text body) (case st_chunk_chars body of Some (Suc n) \<Rightarrow> Suc n
    | _ \<Rightarrow> nat (cfg stream_chunk_chars 2000 (en_settings env))) (nat (cfg stream_chunk_bytes 4096 (en_settings env)))"
  obtain evs1 e1 s1 where l: "stream_loop redact policy (st_types body) remaining 0 pieces s = ((evs1, e1), s1)"
    by (metis prod.exhaust)
  have nd: "Done_event \<notin> set evs1"
    using stream_loop_no_done [of redact policy "st_types body" remaining 0 pieces s] l by simp
  have exc: "stream_except e = (l, m', r') \<Longrightarrow> Done_event \<notin> set l" for e l m' r'
    by (auto simp: stream_except_def split: if_splits)
  have ev: "event_source env redact body policy api_key remaining s =
     (case e1 of
            Stopped status \<Rightarrow> ((evs1, Some status, Inr ()), s1)
          | Broken e \<Rightarrow> (let (last, m, r) = stream_except e in ((evs1 @ last, m, r), s1))
          | Finished_stream spans \<Rightarrow>
              (case write_audit env (stream_audit_event env body policy api_key spans) s1 of
                 (Inl e, s2) \<Rightarrow> (let (last, m, r) = stream_except e in ((evs1 @ last, m, r), s2))
               | (Inr _, s2) \<Rightarrow> ((evs1 @ [Done_event], Some 200, Inr ()), s2)))"
    unfolding event_source_def pieces_def [symmetric] Let_def l by simp
  obtain spans where e1: "e1 = Finished_stream spans"
    using assms nd unfolding ev by (cases e1) (auto simp: Let_def dest: exc split: prod.splits)
  obtain w s2 where w: "write_audit env (stream_audit_event env body policy api_key spans) s1 = (w, s2)" by force
  have "w = Inr ()"
    using assms nd unfolding ev e1 by (cases w) (auto simp: w dest: exc split: prod.splits)
  with w assms(1) have fin: "evs = evs1 @ [Done_event]" "m = Some 200" "r = Inr ()" "s2 = s'"
    unfolding ev e1 by simp_all
  from stream_loop_finished [OF l [unfolded e1]] obtain rs where rs: "evs1 = map Chunk_event rs"
    "spans = concat (map rd_spans rs)"
    "list_all2 (\<lambda>p x. \<exists>a b. redact p policy (st_types body) a = (Inr x, b)) pieces rs" by blast
  have "concat pieces = st_text body" using split_from_concat [of "st_text body" _ _ 0] by (simp add: pieces_def split_chunks_def)
  with rs fin w \<open>w = Inr ()\<close> show ?thesis by blast
qed

lemma stream_done_audited:
  assumes "event_source env redact body policy api_key remaining s = ((evs, m, r), s')" "Done_event \<in> set evs"
  shows "\<exists>spans s1. write_audit env (stream_audit_event env body policy api_key spans) s1 = (Inr (), s')"
  using stream_done [OF assms] by blast

text \<open>
  C32. A stream is marked complete only after its audit record: when the events contain the
  completion marker, they are one event per chunk, in order, and the marker at the end;
  the chunks are the whole text, each was redacted, and the audit backend has accepted the
  record with the spans of all chunks.
\<close>

theorem stream_done_after_audit:
  assumes "event_source env redact body policy api_key remaining s = ((evs, m, r), s')" "Done_event \<in> set evs"
  shows "\<exists>pieces rs s1. concat pieces = st_text body
    \<and> list_all2 (\<lambda>p x. \<exists>a b. redact p policy (st_types body) a = (Inr x, b)) pieces rs
    \<and> evs = map Chunk_event rs @ [Done_event] \<and> m = Some 200 \<and> r = Inr ()
    \<and> write_audit env (stream_audit_event env body policy api_key (concat (map rd_spans rs))) s1 = (Inr (), s')"
  by (rule stream_done [OF assms])

definition demo_stream :: stream_request where
  "demo_stream = \<lparr>st_text = ''Ann'', st_policy = None, st_types = None, st_chunk_chars = Some 2\<rparr>"

lemma demo_stream_events:
  "event_source (demo_env (Some silent_audit)) (\<lambda>t p ts s. (Inr \<lparr>rd_text = t, rd_spans = [], rd_relex_map = []\<rparr>, s))
      demo_stream None ''k1'' (\<lambda>i. 1) [] =
    (([Chunk_event \<lparr>rd_text = ''An'', rd_spans = [], rd_relex_map = []\<rparr>,
       Chunk_event \<lparr>rd_text = ''n'', rd_spans = [], rd_relex_map = []\<rparr>, Done_event], Some 200, Inr ()), [])"
proof -
  have "split_chunks ''Ann'' 2 (nat (cfg stream_chunk_bytes 4096 (en_settings (demo_env (Some silent_audit))))) = [''An'', ''n'']"
    by code_simp
  then show ?thesis
    by (simp add: event_source_def demo_stream_def numeral_2_eq_2 write_audit_def demo_env_def silent_audit_def)
qed

theorem stream_done_after_audit_witness:
  "\<exists>pieces. concat pieces = ''Ann'' \<and> length pieces = 2"
proof -
  have d: "Done_event \<in> set [Chunk_event \<lparr>rd_text = ''An'', rd_spans = [], rd_relex_map = []\<rparr>,
       Chunk_event \<lparr>rd_text = ''n'', rd_spans = [], rd_relex_map = []\<rparr>, Done_event]" by simp
  from stream_done_after_audit [OF demo_stream_events d] obtain pieces rs where
    p: "concat pieces = st_text demo_stream" "length pieces = length rs"
    "[Chunk_event \<lparr>rd_text = ''An'', rd_spans = [], rd_relex_map = []\<rparr>,
       Chunk_event \<lparr>rd_text = ''n'', rd_spans = [], rd_relex_map = []\<rparr>, Done_event] = map Chunk_event rs @ [Done_event]"
    using list_all2_lengthD by blast
  from arg_cong [OF p(3), of length] p(1,2) show ?thesis by (auto simp: demo_stream_def)
qed

text \<open>
  The chunks are redacted one by one, so an address that lies across a boundary is not
  found: the whole text contains a match, its chunks do not. The example takes a small
  budget; the settings start at 64 bytes.
\<close>

lemma chunk_boundary_leak:
  "(let t = ''Hi a@b.co''; email = \<lparr>r_type = ''EMAIL'', r_pattern = email_rx, r_validator = None\<rparr>
    in regex_detect [email] t [] \<noteq> [] \<and> split_chunks t 100 7 = [''Hi a@b.'', ''co'']
      \<and> list_all (\<lambda>c. regex_detect [email] c [] = []) (split_chunks t 100 7))"
  by code_simp

end
