(* ===== verification/BatchApi.thy ===== *)
theory BatchApi
  imports RedactApi
begin

text \<open>
  The remaining data endpoints: \<open>POST /v1/redact/batch\<close> (\<open>app/api/batch.py\<close>),
  \<open>POST /v1/detect\<close> (\<open>app/api/detect.py\<close>), \<open>GET /v1/policies\<close> (\<open>app/api/policies.py\<close>) and the
  probes of \<open>app/api/health.py\<close>. The items of a batch run in their order here; the code runs
  them at the same time and stops at the first failure. The lemmas show that a batch is
  answered for all items or for none, after its audit record, that a detection answers with
  validated disjoint spans, and when the service counts as ready.
\<close>

section \<open>Batch\<close>

record batch_item =
  bi_text :: string
  bi_types :: "string list option"

definition batch_valid :: "batch_item list \<Rightarrow> bool" where
  "batch_valid items \<longleftrightarrow> 1 \<le> length items \<and> length items \<le> 1000 \<and> list_all (\<lambda>i. bi_text i \<noteq> []) items"

datatype 'a endpoint_answer = Failed_answer http_response | Answer 'a

text \<open>\<open>run_one\<close> on every item; a failure stops the batch.\<close>

fun run_batch ::
  "(string \<Rightarrow> json option \<Rightarrow> string list option \<Rightarrow> 's \<Rightarrow> redaction_result res \<times> 's) \<Rightarrow> json option \<Rightarrow>
   batch_item list \<Rightarrow> 's \<Rightarrow> redaction_result list res \<times> 's" where
  "run_batch redact policy [] s = (Inr [], s)"
| "run_batch redact policy (item # items) s =
     (case redact (bi_text item) (if bi_types item = None then policy else None) (bi_types item) s of
        (Inl e, s1) \<Rightarrow> (Inl e, s1)
      | (Inr r, s1) \<Rightarrow>
          (case run_batch redact policy items s1 of
             (Inl e, s2) \<Rightarrow> (Inl e, s2)
           | (Inr rs, s2) \<Rightarrow> (Inr (r # rs), s2)))"

definition batch_route :: route where
  "batch_route = Some ''/v1/redact/batch''"

definition total_chars :: "batch_item list \<Rightarrow> nat" where
  "total_chars items = sum_list (map (\<lambda>i. length (bi_text i)) items)"

definition batch_event :: "'s redact_env \<Rightarrow> batch_item list \<Rightarrow> json option \<Rightarrow> string \<Rightarrow> redaction_result list \<Rightarrow> audit_event" where
  "batch_event env items policy api_key results =
     \<lparr>ev_request_id = en_request_id env, ev_ts = [], ev_policy_version = policy_version policy,
      ev_text_chars = int (total_chars items),
      ev_principal_id = principal_id (en_hmac env) api_key (cfg hash_salt [] (en_settings env)),
      ev_entities = JList (span_summary (concat (map rd_spans results))), ev_inference_ms = en_ms env,
      ev_redactor_version = ''0.1.0'', ev_model_name = [], ev_trace_id = en_trace env, ev_direction = ''egress''\<rparr>"

definition batch_result :: "redaction_result \<Rightarrow> (json \<times> json) list" where
  "batch_result r = [(JStr ''text'', JStr (rd_text r)), (JStr ''spans'', JList (map span_json (rd_spans r))),
     (JStr ''relex_map'', JDict [])]"

definition batch_guarded ::
  "'s redact_env \<Rightarrow> batch_item list \<Rightarrow> string \<Rightarrow> 's \<Rightarrow> redaction_result list endpoint_answer res \<times> 's" where
  "batch_guarded env items api_key s =
     (case en_redactor env of
        None \<Rightarrow> (Inr (Failed_answer (internal_error batch_route ''redactor not initialized'')), s)
      | Some redact \<Rightarrow>
          let max_chars = cfg max_text_chars 100000 (en_settings env); max_batch = cfg max_batch_chars 1000000 (en_settings env)
          in if list_ex (\<lambda>i. int (length (bi_text i)) > max_chars) items
             then (Inr (Failed_answer (payload_too_large batch_route (''item exceeds '' @ show_int max_chars @ '' chars''))), s)
             else if int (total_chars items) > max_batch
             then (Inr (Failed_answer (payload_too_large batch_route (''batch exceeds '' @ show_int max_batch @ '' chars''))), s)
             else
               (case default_policy (policy_cfg (en_settings env)) (en_files env) of
                  Inl e \<Rightarrow> (if e = PolicyUnavailableError then Inr (Failed_answer (policy_unavailable batch_route)) else Inl e, s)
                | Inr policy \<Rightarrow>
                    (case run_batch redact policy items s of
                       (Inl e, s1) \<Rightarrow> (deadline (Inl e), s1)
                     | (Inr results, s1) \<Rightarrow>
                         (case write_audit env (batch_event env items policy api_key results) s1 of
                            (Inl e, s2) \<Rightarrow> (Inl e, s2)
                          | (Inr _, s2) \<Rightarrow> (Inr (Answer results), s2)))))"

definition endpoint_except :: "route \<Rightarrow> 'a endpoint_answer res \<Rightarrow> 'a endpoint_answer res" where
  "endpoint_except route r =
     (case r of
        Inr a \<Rightarrow> Inr a
      | Inl e \<Rightarrow>
          if e = TimeoutError then Inr (Failed_answer (timeout_error route TIMEOUT_DETAIL))
          else if TRANSIENT_EXC e then Inr (Failed_answer (internal_error route INTERNAL_DETAIL)) else Inl e)"

definition redact_batch ::
  "'s redact_env \<Rightarrow> batch_item list \<Rightarrow> string \<Rightarrow> 's \<Rightarrow> redaction_result list endpoint_answer res \<times> 's" where
  "redact_batch env items api_key s =
     (case rate_limit (en_redis env) (en_sha env) (en_settings env) (en_store env) (en_rate_fault env) (en_now env)
             api_key s of
        (Inl e, n, s1) \<Rightarrow> (Inl e, s1)
      | (Inr _, n, s1) \<Rightarrow>
          (let (r, s2) = batch_guarded env items api_key s1 in (endpoint_except batch_route r, s2)))"

lemma run_batch_results:
  "run_batch redact policy items s = (Inr rs, s') \<Longrightarrow>
   list_all2 (\<lambda>i r. \<exists>a b. redact (bi_text i) (if bi_types i = None then policy else None) (bi_types i) a = (Inr r, b)) items rs"
proof (induction items arbitrary: s rs)
  case (Cons i items)
  from Cons.prems obtain r s1 rs1 where
    "redact (bi_text i) (if bi_types i = None then policy else None) (bi_types i) s = (Inr r, s1)"
    "run_batch redact policy items s1 = (Inr rs1, s')" "rs = r # rs1"
    by (auto split: prod.splits sum.splits)
  with Cons.IH show ?case unfolding list.rel_inject(2) by blast
qed simp

lemma deadline_Inr [simp]: "deadline r = Inr x \<longleftrightarrow> r = Inr x"
  by (auto simp: deadline_def split: sum.splits exn.splits)

lemma endpoint_except_Answer [simp]: "endpoint_except route r = Inr (Answer x) \<longleftrightarrow> r = Inr (Answer x)"
  by (auto simp: endpoint_except_def split: sum.split)

lemma batch_answer_complete:
  assumes "redact_batch env items api_key s = (Inr (Answer results), s')"
  obtains redact policy s0 s1 where "en_redactor env = Some redact"
    "default_policy (policy_cfg (en_settings env)) (en_files env) = Inr policy"
    "run_batch redact policy items s0 = (Inr results, s1)"
    "\<not> list_ex (\<lambda>i. int (length (bi_text i)) > cfg max_text_chars 100000 (en_settings env)) items"
    "int (total_chars items) \<le> cfg max_batch_chars 1000000 (en_settings env)"
    "write_audit env (batch_event env items policy api_key results) s1 = (Inr (), s')"
proof -
  from assms obtain s0 where "batch_guarded env items api_key s0 = (Inr (Answer results), s')"
    by (auto simp: redact_batch_def split: sum.splits prod.splits)
  then show thesis
    by (auto simp: batch_guarded_def Let_def not_less intro: that split: option.splits if_splits sum.splits prod.splits)
qed

lemma batch_answer_audited:
  assumes "redact_batch env items api_key s = (Inr (Answer results), s')"
  shows "\<exists>policy s1. write_audit env (batch_event env items policy api_key results) s1 = (Inr (), s')"
  using batch_answer_complete [OF assms] by metis

text \<open>
  A batch is answered as a whole: an answer with results has one result per item, in
  order, each the redaction of its own text, under the default policy unless the item
  chooses entity types; every item respected the limit on characters, so did their sum,
  and the audit backend has accepted the record with the spans of all items.
\<close>

theorem redact_batch_complete:
  assumes "redact_batch env items api_key s = (Inr (Answer results), s')"
  shows "\<exists>redact policy s1. en_redactor env = Some redact
    \<and> default_policy (policy_cfg (en_settings env)) (en_files env) = Inr policy
    \<and> list_all2 (\<lambda>i r. \<exists>a b. redact (bi_text i) (if bi_types i = None then policy else None) (bi_types i) a = (Inr r, b))
        items results
    \<and> list_all (\<lambda>i. int (length (bi_text i)) \<le> cfg max_text_chars 100000 (en_settings env)) items
    \<and> int (total_chars items) \<le> cfg max_batch_chars 1000000 (en_settings env)
    \<and> write_audit env (batch_event env items policy api_key results) s1 = (Inr (), s')"
proof -
  from batch_answer_complete [OF assms] obtain redact policy s0 s1 where b: "en_redactor env = Some redact"
    "default_policy (policy_cfg (en_settings env)) (en_files env) = Inr policy"
    "run_batch redact policy items s0 = (Inr results, s1)"
    "\<not> list_ex (\<lambda>i. int (length (bi_text i)) > cfg max_text_chars 100000 (en_settings env)) items"
    "int (total_chars items) \<le> cfg max_batch_chars 1000000 (en_settings env)"
    "write_audit env (batch_event env items policy api_key results) s1 = (Inr (), s')" .
  then show ?thesis using run_batch_results [OF b(3)] by (auto simp: list_ex_iff list_all_iff not_less)
qed

definition demo_items :: "batch_item list" where
  "demo_items = [\<lparr>bi_text = ''Ann'', bi_types = None\<rparr>, \<lparr>bi_text = ''Bob'', bi_types = Some [''EMAIL'']\<rparr>]"

lemma demo_batch:
  "redact_batch (demo_env (Some silent_audit)) demo_items ANONYMOUS [] =
     (Inr (Answer [\<lparr>rd_text = ''nnA'', rd_spans = [], rd_relex_map = []\<rparr>,
        \<lparr>rd_text = ''boB'', rd_spans = [], rd_relex_map = []\<rparr>]), [])"
  by code_simp

theorem redact_batch_complete_witness:
  "\<exists>redact. en_redactor (demo_env (Some silent_audit)) = Some redact"
  using redact_batch_complete [OF demo_batch] by blast

section \<open>Detection\<close>

record detect_request =
  dq_text :: string
  dq_types :: "string list option"

text \<open>The two detectors of the state; the first that is set is used.\<close>

type_synonym 's detector_fun = "string \<Rightarrow> string list \<Rightarrow> 's \<Rightarrow> span list res \<times> 's"

definition detect_route :: route where
  "detect_route = Some ''/v1/detect''"

definition detect_event :: "'s redact_env \<Rightarrow> detect_request \<Rightarrow> string \<Rightarrow> span list \<Rightarrow> audit_event" where
  "detect_event env body api_key spans =
     \<lparr>ev_request_id = en_request_id env, ev_ts = [], ev_policy_version = ''detect'',
      ev_text_chars = int (length (dq_text body)),
      ev_principal_id = principal_id (en_hmac env) api_key (cfg hash_salt [] (en_settings env)),
      ev_entities = JList (span_summary spans), ev_inference_ms = 0, ev_redactor_version = ''0.1.0'',
      ev_model_name = [], ev_trace_id = en_trace env, ev_direction = ''detect''\<rparr>"

definition detect_guarded ::
  "'s redact_env \<Rightarrow> 's detector_fun option \<Rightarrow> 's detector_fun option \<Rightarrow> detect_request \<Rightarrow> string \<Rightarrow> 's \<Rightarrow>
   (string \<times> span list) endpoint_answer res \<times> 's" where
  "detect_guarded env model regex body api_key s =
     (let max_chars = cfg max_text_chars 100000 (en_settings env)
      in if int (length (dq_text body)) > max_chars
         then (Inr (Failed_answer (payload_too_large detect_route (''text exceeds '' @ show_int max_chars @ '' chars''))), s)
         else
           (case (case model of None \<Rightarrow> regex | Some d \<Rightarrow> Some d) of
              None \<Rightarrow> (Inr (Failed_answer (internal_error detect_route ''detector not initialized'')), s)
            | Some detect \<Rightarrow>
                (case detect (dq_text body) (case dq_types body of None \<Rightarrow> [] | Some ts \<Rightarrow> ts) s of
                   (Inl e, s1) \<Rightarrow> (deadline (Inl e), s1)
                 | (Inr raw_spans, s1) \<Rightarrow>
                     (let spans = dedupe_overlaps (validate_offsets (dq_text body) raw_spans)
                      in (case write_audit env (detect_event env body api_key spans) s1 of
                            (Inl e, s2) \<Rightarrow> (Inl e, s2)
                          | (Inr _, s2) \<Rightarrow> (Inr (Answer (dq_text body, spans)), s2))))))"

definition detect_handler ::
  "'s redact_env \<Rightarrow> 's detector_fun option \<Rightarrow> 's detector_fun option \<Rightarrow> detect_request \<Rightarrow> string \<Rightarrow> 's \<Rightarrow>
   (string \<times> span list) endpoint_answer res \<times> 's" where
  "detect_handler env model regex body api_key s =
     (case rate_limit (en_redis env) (en_sha env) (en_settings env) (en_store env) (en_rate_fault env) (en_now env)
             api_key s of
        (Inl e, n, s1) \<Rightarrow> (Inl e, s1)
      | (Inr _, n, s1) \<Rightarrow>
          (let (r, s2) = detect_guarded env model regex body api_key s1 in (endpoint_except detect_route r, s2)))"

lemma detect_answer_audited:
  assumes "detect_handler env model regex body api_key s = (Inr (Answer (t, spans)), s')"
  obtains raw s1 where "t = dq_text body" "spans = dedupe_overlaps (validate_offsets (dq_text body) raw)"
    "write_audit env (detect_event env body api_key spans) s1 = (Inr (), s')"
proof -
  from assms obtain s0 where "detect_guarded env model regex body api_key s0 = (Inr (Answer (t, spans)), s')"
    by (auto simp: detect_handler_def split: sum.splits prod.splits)
  then show thesis
    by (auto simp: detect_guarded_def Let_def intro: that split: option.splits if_splits sum.splits prod.splits)
qed

text \<open>
  A detection answers with the text it was given and with sorted, disjoint spans inside
  it, whatever the detector returned, and only after the audit backend has accepted the
  record of exactly these spans.
\<close>

theorem detect_answer_valid:
  assumes "detect_handler env model regex body api_key s = (Inr (Answer (t, spans)), s')"
  shows "t = dq_text body \<and> valid_spans (length t) spans \<and> sorted (map s_start spans)
    \<and> (\<exists>s1. write_audit env (detect_event env body api_key spans) s1 = (Inr (), s'))"
  using detect_answer_audited [OF assms] valid_dedupe_validate sorted_dedupe_overlaps by metis

lemma demo_detect:
  "detect_handler (demo_env (Some silent_audit)) None (Some (\<lambda>t ts s. (Inr [mk_span 3 6 ''P'' 1, mk_span 90 95 ''P'' 1], s)))
     \<lparr>dq_text = ''hi bob!'', dq_types = None\<rparr> ANONYMOUS [] = (Inr (Answer (''hi bob!'', [mk_span 3 6 ''P'' 1])), [])"
  by code_simp

theorem detect_answer_valid_witness:
  "valid_spans (length ''hi bob!'') [mk_span 3 6 ''P'' 1]"
  using detect_answer_valid [OF demo_detect] by blast

section \<open>Policies and probes\<close>

definition policy_summary :: "policy \<Rightarrow> (json \<times> json) list" where
  "policy_summary p = [(JStr ''name'', JStr (pl_name p)), (JStr ''version'', JStr (pl_version p)),
     (JStr ''description'', JStr (pl_description p)), (JStr ''fields'', JList (map fst (pl_fields p)))]"

text \<open>\<open>GET /v1/policies\<close>: the policy files of the directory; an exception is raised on.\<close>

definition policies_endpoint :: "(string \<times> json res) list option \<Rightarrow> (json \<times> json) list res" where
  "policies_endpoint directory =
     map_res (\<lambda>loaded. [(JStr ''policies'', JList (map (\<lambda>p. JDict (policy_summary p)) loaded))]) (list_policies directory)"

definition healthz :: "(json \<times> json) list" where
  "healthz = [(JStr ''status'', JStr ''ok'')]"

text \<open>
  What the readiness probe looks at. \<open>ping\<close> is the result of the Redis ping under its
  deadline, or \<open>None\<close> without a client that has one.
\<close>

record ready_state =
  rs_ready :: bool
  rs_redactor :: bool
  rs_redis_required :: bool
  rs_store :: bool
  rs_queue :: bool
  rs_ping :: "unit res option"
  rs_audit_required :: bool
  rs_audit_failed :: bool

definition ping_error :: "exn \<Rightarrow> bool" where
  "ping_error e \<longleftrightarrow> is_os_error e \<or> e = RedisError \<or> is_runtime_error e"

definition redis_ready :: "ready_state \<Rightarrow> bool res" where
  "redis_ready st =
     (if \<not> rs_redis_required st then Inr True
      else if rs_store st \<and> rs_queue st then
        (case rs_ping st of
           None \<Rightarrow> Inr False
         | Some (Inr _) \<Rightarrow> Inr True
         | Some (Inl e) \<Rightarrow> if ping_error e then Inr False else Inl e)
      else Inr False)"

definition readyz :: "ready_state \<Rightarrow> (json \<times> json) list endpoint_answer res" where
  "readyz st =
     map_res (\<lambda>redis_ok.
       let audit_ready = (\<not> (rs_audit_required st \<and> rs_audit_failed st))
       in if rs_ready st \<and> rs_redactor st \<and> redis_ok \<and> audit_ready
          then Answer [(JStr ''status'', JStr ''ready'')]
          else Failed_answer (problem_response (Some ''/readyz'') (error_type ''not-ready'') ''Not ready'' 503
            (Some (if rs_redis_required st \<and> \<not> redis_ok \<or> rs_audit_required st \<and> \<not> audit_ready
                   then ''Required dependencies are not ready'' else ''Service has not finished initializing'')) None))
       (redis_ready st)"

text \<open>
  The probe says ready exactly when the service has started with a redactor, a required
  Redis has a store, a queue and an answered ping, and a required audit log has not failed.
\<close>

lemma readyz_iff:
  "(\<exists>b. readyz st = Inr (Answer b)) \<longleftrightarrow>
     rs_ready st \<and> rs_redactor st \<and> \<not> (rs_audit_required st \<and> rs_audit_failed st)
     \<and> (\<not> rs_redis_required st \<or> rs_store st \<and> rs_queue st \<and> rs_ping st = Some (Inr ()))"
  by (auto simp: readyz_def redis_ready_def map_res_Inr_iff Let_def split: option.splits sum.splits if_splits)

text \<open>A required file audit that failed once keeps the service unready until a restart.\<close>

lemma failed_audit_unready:
  "rs_audit_required st \<Longrightarrow> rs_audit_failed st \<Longrightarrow> readyz st \<noteq> Inr (Answer b)"
  by (auto simp: readyz_def map_res_Inr_iff Let_def)

end
