(* ===== verification/AuditContract.thy ===== *)
theory AuditContract
  imports StreamApi BatchApi
begin

text \<open>
  What the endpoints rely on when they audit: a backend that acknowledges an event has
  stored it. The interface is a locale; what follows for the endpoints is proved in it
  once, and the required file log of \<open>app/audit/file.py\<close> is shown to provide it, so that an
  answer of an endpoint means a signed line at the end of the file.
\<close>

section \<open>The interface\<close>

locale audit_contract =
  fixes record_event :: "audit_event \<Rightarrow> 's \<Rightarrow> unit res \<times> 's"
    and stored :: "'s \<Rightarrow> audit_event \<Rightarrow> bool"
  assumes acknowledged: "record_event ev s = (Inr (), s') \<Longrightarrow> stored s' ev"
begin

lemma write_audit_stored:
  "en_audit env = Some record_event \<Longrightarrow> write_audit env ev s = (Inr (), s') \<Longrightarrow> stored s' ev"
  by (simp add: write_audit_def acknowledged)

lemma batch_stored:
  assumes "en_audit env = Some record_event" "redact_batch env items api_key s = (Inr (Answer results), s')"
  shows "\<exists>policy. stored s' (batch_event env items policy api_key results)"
proof -
  from batch_answer_audited [OF assms(2)] obtain policy s1
    where "write_audit env (batch_event env items policy api_key results) s1 = (Inr (), s')" by (elim exE)
  from write_audit_stored [OF assms(1) this] show ?thesis by (rule exI)
qed

lemma detect_stored:
  assumes "en_audit env = Some record_event" "detect_handler env model regex body api_key s = (Inr (Answer (t, spans)), s')"
  shows "stored s' (detect_event env body api_key spans)"
  by (rule detect_answer_audited [OF assms(2)]) (rule write_audit_stored [OF assms(1)])

lemma stream_stored:
  assumes "en_audit env = Some record_event"
    and "event_source env redact body policy api_key remaining s = ((evs, m, r), s')" "Done_event \<in> set evs"
  shows "\<exists>spans. stored s' (stream_audit_event env body policy api_key spans)"
proof -
  from stream_done_audited [OF assms(2,3)] obtain spans s1
    where "write_audit env (stream_audit_event env body policy api_key spans) s1 = (Inr (), s')" by (elim exE)
  from write_audit_stored [OF assms(1) this] show ?thesis by (rule exI)
qed

end

section \<open>The required file log\<close>

text \<open>The state of the application contains the backend and the file system as its second component.\<close>

definition file_log ::
  "audit_env \<Rightarrow> ((json \<times> json) list \<Rightarrow> string) \<Rightarrow> fault \<Rightarrow> string \<Rightarrow> audit_event \<Rightarrow> 'r \<times> file_audit \<times> files \<Rightarrow>
   unit res \<times> ('r \<times> file_audit \<times> files)" where
  "file_log ae dumps flt now_text ev s =
     (case s of (x, fa, fs) \<Rightarrow>
        (case file_record ae dumps flt now_text ev (fa\<lparr>fa_required := True\<rparr>) fs of (r, fa', fs') \<Rightarrow> (r, (x, fa', fs'))))"

definition file_stored ::
  "audit_env \<Rightarrow> ((json \<times> json) list \<Rightarrow> string) \<Rightarrow> string \<Rightarrow> 'r \<times> file_audit \<times> files \<Rightarrow> audit_event \<Rightarrow> bool" where
  "file_stored ae dumps now_text s ev =
     (case s of (x, fa, fs) \<Rightarrow>
        \<exists>before. fs (fa_path fa) = Some (before @ audit_line ae dumps now_text ev (fa_integrity_key fa)))"

lemma append_line_last: "\<exists>before. append_line path l m b fs path = Some (before @ l)"
  by (simp add: append_line_def Let_def)

lemma file_log_stored:
  assumes "file_log ae dumps flt now_text ev s = (Inr (), s')"
  shows "file_stored ae dumps now_text s' ev"
proof -
  obtain x fa fs where s: "s = (x, fa, fs)" by (cases s)
  let ?fa = "fa\<lparr>fa_required := True\<rparr>" and ?l = "audit_line ae dumps now_text ev (fa_integrity_key fa)"
  obtain w fs1 where w: "write_line ?fa flt ?l fs = (w, fs1)" by force
  from assms s w obtain q where "w = Inr ()" "s' = (x, ?fa, fs1)"
    by (auto simp: file_log_def file_record_def split: option.splits if_splits sum.splits prod.splits)
  moreover from w this(1) have "fs1 = append_line (fa_path fa) ?l (fa_max_bytes fa) (fa_backups fa) fs"
    by (cases flt) (auto simp: write_line_def net_def write_only_def)
  ultimately show ?thesis using append_line_last by (simp add: file_stored_def)
qed

interpretation required_file: audit_contract "file_log ae dumps flt now_text" "file_stored ae dumps now_text"
  for ae dumps flt now_text
  by unfold_locales (rule file_log_stored)

text \<open>
  C33. With the required file log an answered batch is in the file: when the endpoint answers
  with results, the log ends with the signed line of an event that names the request, the
  caller and the entities of exactly these results.
\<close>

theorem answered_batch_is_logged:
  assumes "en_audit env = Some (file_log ae dumps flt now_text)"
    and "redact_batch env items api_key s = (Inr (Answer results), (x, fa, fs))"
  shows "\<exists>policy before. fs (fa_path fa) = Some (before @
    audit_line ae dumps now_text (batch_event env items policy api_key results) (fa_integrity_key fa))"
  using required_file.batch_stored [OF assms] by (auto simp: file_stored_def)

section \<open>The endpoint with its file log\<close>

interpretation app_store:
  redis_laws "lift_redis list_redis" "\<lambda>s. st_kv (fst s)" "\<lambda>s. st_hash (fst s)" "\<lambda>s. st_zset (fst s)" "\<lambda>s. st_list (fst s)"
  by (rule lift_redis_laws [OF list_store.redis_laws_axioms])

definition demo_file :: file_audit where
  "demo_file = \<lparr>fa_path = ''log'', fa_required = True, fa_max_bytes = 0, fa_backups = 0, fa_retention = 0,
     fa_integrity_key = [], fa_queue = Some [], fa_dropped = 0, fa_failed = False\<rparr>"

type_synonym demo_state = "store \<times> file_audit \<times> files"

definition demo_log :: "audit_event \<Rightarrow> demo_state \<Rightarrow> unit res \<times> demo_state" where
  "demo_log = file_log demo_audit_env (\<lambda>d. ''{}'') None ''t''"

definition demo_file_env :: "demo_state redact_env" where
  "demo_file_env =
     \<lparr>en_redis = lift_redis list_redis, en_settings = None, en_files = (\<lambda>d f. None), en_store = Client,
      en_redactor = Some (\<lambda>t p ts s. (Inr \<lparr>rd_text = rev t, rd_spans = [], rd_relex_map = []\<rparr>, s)),
      en_pipeline = None, en_audit = Some demo_log, en_detector = None, en_digest = (\<lambda>d. []),
      en_sha = (\<lambda>x. ''h''), en_hmac = (\<lambda>k x. ''p''), en_now = 60, en_ms = 0, en_token = ''tok'', en_trace = [],
      en_request_id = ''r'', en_rate_fault = None, en_inspect_fault = None, en_lock_fault = None,
      en_cache_get_fault = None, en_complete_fault = None, en_cache_set_fault = None, en_release_fault = None\<rparr>"

theorem answered_batch_is_logged_witness:
  "\<exists>before. snd (snd (snd (redact_batch demo_file_env [\<lparr>bi_text = ''Ann'', bi_types = None\<rparr>] ANONYMOUS ([], demo_file, (\<lambda>p. None)))))
     ''log'' = Some (before @ ''{}'' @ [newline])"
proof -
  let ?b = "redact_batch demo_file_env [\<lparr>bi_text = ''Ann'', bi_types = None\<rparr>] ANONYMOUS ([], demo_file, (\<lambda>p. None))"
  have a: "en_audit demo_file_env = Some (file_log demo_audit_env (\<lambda>d. ''{}'') None ''t'')"
    by (simp add: demo_file_env_def demo_log_def)
  obtain rs fs where b: "?b = (Inr (Answer rs), ([], demo_file, fs))"
    by (simp add: redact_batch_def rate_limit_def ANONYMOUS_def batch_guarded_def demo_file_env_def cfg_def total_chars_def
        default_policy_def policy_cfg_def write_audit_def demo_log_def file_log_def file_record_def demo_file_def
        write_line_def write_only_def Let_def)
  show ?thesis
    using answered_batch_is_logged [OF a b] unfolding b by (auto simp: audit_line_def demo_file_def)
qed

end
