(* ===== verification/JobApi.thy ===== *)
theory JobApi
  imports JobAccounting RedactApi
begin

text \<open>
  The durable jobs: \<open>app/jobs/payload.py\<close> (the encrypted payload), \<open>app/api/jobs.py\<close> (the three
  endpoints, \<open>run_job\<close> and \<open>record_failure\<close>) and \<open>process_job\<close> of \<open>app/jobs/queue.py\<close>. The
  queue, the redactor, the audit backend and the cipher are arguments; the faults of the
  store calls are numbered in the order in which a handler makes them. The lemmas show
  that a payload survives the queue unchanged, that only the owner sees or cancels a job,
  that the worker uses the policy resolved at submission, and that a failed attempt
  strands its job.
\<close>

section \<open>The payload\<close>

text \<open>
  \<open>Fernet\<close> with the JSON text: what is encrypted, and what a token decrypts to, if it does.
\<close>

record cipher =
  cp_encrypt :: "json \<Rightarrow> string"
  cp_decrypt :: "string \<Rightarrow> json option"

definition MAX_ENTITY_TYPES :: nat where "MAX_ENTITY_TYPES = 128"
definition MAX_ENTITY_TYPE_CHARS :: nat where "MAX_ENTITY_TYPE_CHARS = 128"

definition payload_encode :: "cipher option \<Rightarrow> (json \<times> json) list \<Rightarrow> json" where
  "payload_encode cipher payload =
     (case cipher of
        None \<Rightarrow> JDict payload
      | Some c \<Rightarrow> JDict [(JStr ''encrypted'', JStr (cp_encrypt c (JDict payload)))])"

fun bad_type :: "json \<Rightarrow> bool" where
  "bad_type (JStr s) = (s = [] \<or> length s > MAX_ENTITY_TYPE_CHARS)"
| "bad_type _ = True"

fun bad_types :: "json \<Rightarrow> bool" where
  "bad_types JNull = False"
| "bad_types (JList ts) = (length ts > MAX_ENTITY_TYPES \<or> list_ex bad_type ts)"
| "bad_types _ = True"

definition payload_fields_ok :: "json \<Rightarrow> bool" where
  "payload_fields_ok j \<longleftrightarrow>
     is_JDict j \<and> is_JStr (jget (dict_items j) ''text'') \<and> \<not> bad_types (jget (dict_items j) ''entity_types'')
     \<and> (jget (dict_items j) ''policy'' = JNull \<or> is_JDict (jget (dict_items j) ''policy''))"

definition payload_decode :: "cipher option \<Rightarrow> json \<Rightarrow> (json \<times> json) list res" where
  "payload_decode cipher payload =
     (case payload of
        JDict d \<Rightarrow>
          bind_res
            (case jget d ''encrypted'' of
               JNull \<Rightarrow> (if cipher \<noteq> None then Inl ValueError else Inr (JDict d))
             | JStr token \<Rightarrow>
                 (case cipher of
                    None \<Rightarrow> Inl ValueError
                  | Some c \<Rightarrow> (case cp_decrypt c token of None \<Rightarrow> Inl ValueError | Some j \<Rightarrow> Inr j))
             | _ \<Rightarrow> Inl ValueError)
            (\<lambda>decoded. if payload_fields_ok decoded then Inr (dict_items decoded) else Inl ValueError)
      | _ \<Rightarrow> Inl ValueError)"

section \<open>Surroundings\<close>

record 's job_env =
  je_redis :: "'s redis"
  je_store :: "job_store option"
  je_settings :: "settings option"
  je_files :: "string \<Rightarrow> string \<Rightarrow> json res option"
  je_redactor :: "(string \<Rightarrow> json option \<Rightarrow> string list option \<Rightarrow> 's \<Rightarrow> redaction_result res \<times> 's) option"
  je_audit :: "(audit_event \<Rightarrow> 's \<Rightarrow> unit res \<times> 's) option"
  je_queue :: "(string \<Rightarrow> json \<Rightarrow> string \<Rightarrow> string \<Rightarrow> 's \<Rightarrow> bool res \<times> 's) option"
  je_cipher :: "string \<Rightarrow> cipher option"
  je_sha :: "string \<Rightarrow> string"
  je_hmac :: "string \<Rightarrow> string \<Rightarrow> string"
  je_new_id :: string
  je_now :: rat
  je_ms :: int
  je_trace :: string
  je_rate_fault :: fault
  je_fault :: "nat \<Rightarrow> fault"

definition store_error :: "exn \<Rightarrow> bool" where
  "store_error e \<longleftrightarrow> is_os_error e \<or> e = RedisError \<or> is_runtime_error e"

definition JOB_FAILED :: string where
  "JOB_FAILED = ''job failed''"

text \<open>\<open>record_failure\<close>; the calls of the store have the faults \<open>10\<close> to \<open>14\<close>.\<close>

definition record_failure :: "'s job_env \<Rightarrow> job_store \<Rightarrow> string \<Rightarrow> int \<Rightarrow> 's \<Rightarrow> unit res \<times> 's" where
  "record_failure env st jid attempts s =
     (case set_error (je_redis env) st (je_fault env 10) (je_fault env 11) (je_now env) jid JOB_FAILED s of
        (Inl e, s1) \<Rightarrow> (if store_error e then Inr () else Inl e, s1)
      | (Inr _, s1) \<Rightarrow>
          (case record_dead_letter (je_redis env) st (je_fault env 12) (je_fault env 13) (je_fault env 14) (je_now env)
                  jid JOB_FAILED attempts s1 of
             (Inl e, s2) \<Rightarrow> (if store_error e then Inr () else Inl e, s2)
           | (Inr _, s2) \<Rightarrow> (Inr (), s2)))"

section \<open>The worker\<close>

fun optional_types :: "json \<Rightarrow> string list option" where
  "optional_types (JList ts) = Some (map (\<lambda>t. case t of JStr s \<Rightarrow> s | _ \<Rightarrow> []) ts)"
| "optional_types _ = None"

definition optional_json :: "json \<Rightarrow> json option" where
  "optional_json j = (if j = JNull then None else Some j)"

fun the_text :: "json \<Rightarrow> string" where
  "the_text (JStr s) = s"
| "the_text _ = []"

definition job_result :: "redaction_result \<Rightarrow> int \<Rightarrow> json" where
  "job_result r ms =
     JDict [(JStr ''text'', JStr (rd_text r)), (JStr ''spans'', JList (map span_json (rd_spans r))),
            (JStr ''relex_map'', JDict []), (JStr ''inference_ms'', JInt ms)]"

definition job_event :: "'s job_env \<Rightarrow> json option \<Rightarrow> string \<Rightarrow> string \<Rightarrow> string \<Rightarrow> redaction_result \<Rightarrow> audit_event" where
  "job_event env policy t request_id princ r =
     \<lparr>ev_request_id = request_id, ev_ts = [], ev_policy_version = policy_version policy,
      ev_text_chars = int (length t), ev_principal_id = princ, ev_entities = JList (span_summary (rd_spans r)),
      ev_inference_ms = je_ms env, ev_redactor_version = ''0.1.0'', ev_model_name = [],
      ev_trace_id = je_trace env, ev_direction = ''egress''\<rparr>"

text \<open>The guarded part of an attempt: policy and redaction under the deadline, audit, result.\<close>

definition job_attempt ::
  "'s job_env \<Rightarrow> job_store \<Rightarrow> string \<Rightarrow> (json \<times> json) list \<Rightarrow> string \<Rightarrow> string \<Rightarrow> 's \<Rightarrow> unit res \<times> 's" where
  "job_attempt env st jid payload request_id princ s =
     (let types = optional_types (jget payload ''entity_types''); t = the_text (jget payload ''text'')
      in (case effective_policy (policy_cfg (je_settings env)) (je_files env) (optional_json (jget payload ''policy'')) types of
            Inl e \<Rightarrow> (deadline (Inl e), s)
          | Inr policy \<Rightarrow>
              (case je_redactor env of
                 None \<Rightarrow> (Inl AttributeError, s)
               | Some redact \<Rightarrow>
                   (case redact t policy types s of
                      (Inl e, s1) \<Rightarrow> (deadline (Inl e), s1)
                    | (Inr r, s1) \<Rightarrow>
                        (case (case je_audit env of None \<Rightarrow> (Inr (), s1)
                               | Some record_event \<Rightarrow> record_event (job_event env policy t request_id princ r) s1) of
                           (Inl e, s2) \<Rightarrow> (Inl e, s2)
                         | (Inr _, s2) \<Rightarrow>
                             (case set_result (je_redis env) st (je_fault env 2) (je_fault env 3) (je_now env) jid
                                     (job_result r (je_ms env)) s2 of
                                (Inl e, s3) \<Rightarrow> (Inl e, s3)
                              | (Inr _, s3) \<Rightarrow> (Inr (), s3)))))))"

definition run_job ::
  "'s job_env \<Rightarrow> job_store \<Rightarrow> string \<Rightarrow> (json \<times> json) list \<Rightarrow> string \<Rightarrow> string \<Rightarrow> bool \<Rightarrow> 's \<Rightarrow> bool res \<times> 's" where
  "run_job env st jid payload request_id princ mark_failure s =
     (let fail = (\<lambda>s'. if mark_failure
            then (case record_failure env st jid 1 s' of (Inl e, s2) \<Rightarrow> (Inl e, s2) | (Inr _, s2) \<Rightarrow> (Inr False, s2))
            else (Inr False, s'))
      in (case claim (je_redis env) st (je_fault env 0) (je_now env) jid s of
            (Inl e, s1) \<Rightarrow> (if store_error e then Inr False else Inl e, s1)
          | (Inr False, s1) \<Rightarrow>
              (case get_job (je_redis env) st (je_fault env 1) jid s1 of
                 (Inl e, s2) \<Rightarrow> (if store_error e then Inr False else Inl e, s2)
               | (Inr None, s2) \<Rightarrow> (Inr False, s2)
               | (Inr (Some existing), s2) \<Rightarrow>
                   (Inr (List.member [''running'', ''done'', ''failed'', ''cancelled''] (jr_status existing)), s2))
          | (Inr True, s1) \<Rightarrow>
              if je_redactor env = None then fail s1
              else
                (case job_attempt env st jid payload request_id princ s1 of
                   (Inr _, s2) \<Rightarrow> (Inr True, s2)
                 | (Inl e, s2) \<Rightarrow> if TRANSIENT_EXC e then fail s2 else (Inl e, s2))))"

datatype job_outcome = Finished | Retry rat | Raised exn

definition MAX_TRIES :: int where
  "MAX_TRIES = 5"

text \<open>\<open>min(60, 2 ** max(0, attempt - 1) + jitter)\<close>\<close>

definition retry_delay :: "int \<Rightarrow> rat \<Rightarrow> rat" where
  "retry_delay attempt jitter = min 60 (2 ^ nat (max 0 (attempt - 1)) + jitter)"

definition process_job ::
  "'s job_env \<Rightarrow> job_store \<Rightarrow> int \<Rightarrow> rat \<Rightarrow> string \<Rightarrow> json \<Rightarrow> string \<Rightarrow> string \<Rightarrow> 's \<Rightarrow> job_outcome \<times> 's" where
  "process_job env st job_try jitter jid payload request_id princ s =
     (let give_up = (\<lambda>s'. case record_failure env st jid job_try s' of
            (Inl e, s2) \<Rightarrow> (Raised e, s2) | (Inr _, s2) \<Rightarrow> (Finished, s2))
      in (case payload_decode (je_cipher env (cfg job_payload_encryption_key [] (je_settings env))) payload of
            Inl e \<Rightarrow> if is_value_error e then give_up s else (Raised e, s)
          | Inr d \<Rightarrow>
              (case run_job env st jid d request_id princ False s of
                 (Inl e, s1) \<Rightarrow> (Raised e, s1)
               | (Inr True, s1) \<Rightarrow> (Finished, s1)
               | (Inr False, s1) \<Rightarrow>
                   if job_try < MAX_TRIES then (Retry (retry_delay job_try jitter), s1) else give_up s1)))"

section \<open>The endpoints\<close>

record job_submit =
  sb_text :: string
  sb_policy :: "json option"
  sb_types :: "string list option"

text \<open>What pydantic checks: a text, and bounded entity types (\<open>app/api/models.py\<close>).\<close>

definition EntityType :: "string \<Rightarrow> bool" where
  "EntityType ty \<longleftrightarrow> 1 \<le> length ty \<and> length ty \<le> MAX_ENTITY_TYPE_CHARS"

definition EntityTypes :: "string list \<Rightarrow> bool" where
  "EntityTypes ts \<longleftrightarrow> list_all EntityType ts \<and> length ts \<le> MAX_ENTITY_TYPES"

definition submit_valid :: "job_submit \<Rightarrow> bool" where
  "submit_valid body \<longleftrightarrow> sb_text body \<noteq> [] \<and> (case sb_types body of None \<Rightarrow> True | Some ts \<Rightarrow> EntityTypes ts)"

datatype job_http = JobProblem http_response | JobBody nat "(json \<times> json) list"

definition jobs_route :: route where
  "jobs_route = Some ''/v1/jobs''"

definition job_route :: route where
  "job_route = Some ''/v1/jobs/{job_id}''"

definition job_problem :: "route \<Rightarrow> string \<Rightarrow> string \<Rightarrow> nat \<Rightarrow> string \<Rightarrow> job_http" where
  "job_problem route ty title status detail =
     JobProblem (problem_response route (error_type ty) title status (Some detail) None)"

definition job_not_found :: job_http where
  "job_not_found = job_problem job_route ''job-not-found'' ''Job not found'' 404 ''No matching job was found''"

definition not_cancellable :: "string \<Rightarrow> job_http" where
  "not_cancellable detail = job_problem job_route ''job-not-cancellable'' ''Job cannot be cancelled'' 409 detail"

definition store_available :: "job_store option \<Rightarrow> bool" where
  "store_available st \<longleftrightarrow> (case st of None \<Rightarrow> False | Some x \<Rightarrow> js_client x)"

definition job_handle :: "job_store option \<Rightarrow> store_handle" where
  "job_handle st = (case st of None \<Rightarrow> No_store | Some x \<Rightarrow> if js_client x then Client else No_client)"

text \<open>\<open>body.model_dump()\<close> with the validated policy in place of the requested one.\<close>

definition dump_types :: "string list option \<Rightarrow> json" where
  "dump_types types = (case types of None \<Rightarrow> JNull | Some ts \<Rightarrow> JList (map JStr ts))"

definition dump_policy :: "json option \<Rightarrow> json" where
  "dump_policy policy = (case policy of None \<Rightarrow> JNull | Some p \<Rightarrow> p)"

definition submit_payload :: "job_submit \<Rightarrow> json option \<Rightarrow> (json \<times> json) list" where
  "submit_payload body policy =
     [(JStr ''text'', JStr (sb_text body)), (JStr ''policy'', dump_policy policy),
      (JStr ''entity_types'', dump_types (sb_types body))]"

definition job_status_body :: "job_record \<Rightarrow> (json \<times> json) list" where
  "job_status_body r = [(JStr ''id'', JStr (jr_id r)), (JStr ''status'', JStr (jr_status r))]"

text \<open>The admission, with the branch for a store without \<open>create_admitted\<close>.\<close>

definition admit_job :: "'s job_env \<Rightarrow> job_store \<Rightarrow> string \<Rightarrow> 's \<Rightarrow> (job_http + job_record) res \<times> 's" where
  "admit_job env st api_key s =
     (let total = cfg max_inflight 32 (je_settings env); per_key = cfg max_jobs_per_key 50 (je_settings env)
      in (case create_admitted (je_redis env) st (je_fault env 0) (je_new_id env) (je_now env) api_key total per_key s of
            (Inr None, s1) \<Rightarrow> (Inr (Inl (JobProblem (queue_full jobs_route ''Job queue is full''))), s1)
          | (Inr (Some r), s1) \<Rightarrow> (Inr (Inr r), s1)
          | (Inl e, s1) \<Rightarrow>
              if e = AttributeError then
                (case count_inflight (je_redis env) st (je_fault env 1) s1 of
                   (Inl e, s2) \<Rightarrow> (Inl e, s2)
                 | (Inr n, s2) \<Rightarrow>
                     if n \<ge> total then (Inr (Inl (JobProblem (queue_full jobs_route ''Job queue is full''))), s2)
                     else
                       (case count_for_key (je_redis env) st (je_fault env 2) api_key s2 of
                          (Inl e, s3) \<Rightarrow> (Inl e, s3)
                        | (Inr k, s3) \<Rightarrow>
                            if k \<ge> per_key then (Inr (Inl (JobProblem (job_limit jobs_route ''Too many jobs for this API key''))), s3)
                            else (case create (je_redis env) st (je_new_id env) (je_now env) api_key s3 of
                                    (Inl e, s4) \<Rightarrow> (Inl e, s4) | (Inr r, s4) \<Rightarrow> (Inr (Inr r), s4))))
              else if store_error e \<or> is_value_error e \<or> e = KeyError then (Inr (Inl (JobProblem (internal_error jobs_route ''job counter write failed''))), s1)
              else (Inl e, s1)))"

definition enqueue_job ::
  "'s job_env \<Rightarrow> (string \<Rightarrow> json \<Rightarrow> string \<Rightarrow> string \<Rightarrow> 's \<Rightarrow> bool res \<times> 's) \<Rightarrow> job_store \<Rightarrow> job_submit \<Rightarrow>
   json option \<Rightarrow> string \<Rightarrow> string \<Rightarrow> job_record \<Rightarrow> 's \<Rightarrow> job_http res \<times> 's" where
  "enqueue_job env enqueue st body policy api_key request_id r s =
     (let queue_payload = payload_encode (je_cipher env (cfg job_payload_encryption_key [] (je_settings env)))
            (submit_payload body policy);
          princ = principal_id (je_hmac env) api_key (cfg hash_salt [] (je_settings env));
          (queued, s1) = enqueue (jr_id r) queue_payload request_id princ s
      in (case (case queued of Inr True \<Rightarrow> Inr () | Inr False \<Rightarrow> Inl RuntimeError | Inl e \<Rightarrow> Inl e) of
            Inr _ \<Rightarrow> (Inr (JobBody 202 (job_status_body r)), s1)
          | Inl e \<Rightarrow>
              if TRANSIENT_EXC e then
                (case record_failure env st (jr_id r) 1 s1 of
                   (Inl e, s2) \<Rightarrow> (Inl e, s2) | (Inr _, s2) \<Rightarrow> (Inr (JobProblem (job_store_unavailable jobs_route ''durable job queue unavailable'')), s2))
              else (Inl e, s1)))"

definition submit_guarded :: "'s job_env \<Rightarrow> job_submit \<Rightarrow> string \<Rightarrow> string \<Rightarrow> 's \<Rightarrow> job_http res \<times> 's" where
  "submit_guarded env body api_key request_id s =
     (if int (length (sb_text body)) > cfg max_text_chars 100000 (je_settings env) then
        (Inr (JobProblem (payload_too_large jobs_route
           (''text exceeds '' @ show_int (cfg max_text_chars 100000 (je_settings env)) @ '' chars''))), s)
      else if sb_policy body \<noteq> None \<and> sb_types body \<noteq> None then
        (Inr (job_problem jobs_route ''policy-entity-types-conflict'' ''Policy and Entity Types Conflict'' 422
           ''Choose either policy or entity_types; do not send both.''), s)
      else
        (case effective_policy (policy_cfg (je_settings env)) (je_files env) (sb_policy body) (sb_types body) of
           Inl e \<Rightarrow>
             (if e = PolicyUnavailableError then Inr (JobProblem (policy_unavailable jobs_route))
              else if e = TypeError \<or> is_value_error e then Inr (JobProblem (invalid_policy jobs_route)) else Inl e, s)
         | Inr policy \<Rightarrow>
             if api_key = ANONYMOUS then
               (Inr (job_problem jobs_route ''anonymous-jobs'' ''Anonymous Jobs Disabled'' 401
                  (''/v1/jobs requires authentication; configure REDAX_API_KEYS ''
                   @ ''and pass the matching X-API-Key header.'')), s)
             else
               (case (je_store env, je_queue env) of
                  (Some st, Some enqueue) \<Rightarrow>
                    if \<not> store_available (Some st) then (Inr (JobProblem (job_store_unavailable jobs_route ''durable job queue not initialized'')), s)
                    else
                      (case admit_job env st api_key s of
                         (Inl e, s1) \<Rightarrow> (Inl e, s1)
                       | (Inr (Inl p), s1) \<Rightarrow> (Inr p, s1)
                       | (Inr (Inr r), s1) \<Rightarrow> enqueue_job env enqueue st body policy api_key request_id r s1)
                | _ \<Rightarrow> (Inr (JobProblem (job_store_unavailable jobs_route ''durable job queue not initialized'')), s))))"

definition submit_job :: "'s job_env \<Rightarrow> job_submit \<Rightarrow> string \<Rightarrow> string \<Rightarrow> 's \<Rightarrow> job_http res \<times> 's" where
  "submit_job env body api_key request_id s =
     (case rate_limit (je_redis env) (je_sha env) (je_settings env) (job_handle (je_store env)) (je_rate_fault env)
             (je_now env) api_key s of
        (Inl e, n, s1) \<Rightarrow> (Inl e, s1)
      | (Inr _, n, s1) \<Rightarrow>
          (case submit_guarded env body api_key request_id s1 of
             (Inl e, s2) \<Rightarrow> (if TRANSIENT_EXC e then Inr (JobProblem (internal_error jobs_route INTERNAL_DETAIL)) else Inl e, s2)
           | (Inr a, s2) \<Rightarrow> (Inr a, s2)))"

definition job_view :: "job_record \<Rightarrow> (json \<times> json) list" where
  "job_view r = job_status_body r @
     [(JStr ''result'', dump_policy (jr_result r)),
      (JStr ''error'', if jr_status r = ''failed'' then JStr JOB_FAILED else JNull)]"

definition get_job_handler :: "'s job_env \<Rightarrow> string \<Rightarrow> string \<Rightarrow> 's \<Rightarrow> job_http res \<times> 's" where
  "get_job_handler env jid api_key s =
     (case je_store env of
        None \<Rightarrow> (Inr (JobProblem (job_store_unavailable job_route ''durable job store unavailable'')), s)
      | Some st \<Rightarrow>
          if \<not> store_available (Some st) then (Inr (JobProblem (job_store_unavailable job_route ''durable job store unavailable'')), s)
          else
            (case get_job (je_redis env) st (je_fault env 0) jid s of
               (Inl e, s1) \<Rightarrow> (Inl e, s1)
             | (Inr None, s1) \<Rightarrow> (Inr job_not_found, s1)
             | (Inr (Some r), s1) \<Rightarrow>
                 (Inr (if jr_owner r \<noteq> owner_token (js_sha st) api_key then job_not_found
                       else JobBody 200 (job_view r)), s1)))"

definition cancel_guarded :: "'s job_env \<Rightarrow> job_store \<Rightarrow> string \<Rightarrow> string \<Rightarrow> 's \<Rightarrow> job_http res \<times> 's" where
  "cancel_guarded env st jid api_key s =
     (case get_job (je_redis env) st (je_fault env 0) jid s of
        (Inl e, s1) \<Rightarrow> (Inl e, s1)
      | (Inr None, s1) \<Rightarrow> (Inr job_not_found, s1)
      | (Inr (Some r), s1) \<Rightarrow>
          if jr_owner r \<noteq> owner_token (js_sha st) api_key then (Inr job_not_found, s1)
          else if jr_status r = ''cancelled'' then (Inr (JobBody 200 (job_status_body r)), s1)
          else if jr_status r \<noteq> ''queued'' then
            (Inr (not_cancellable ''Only queued jobs can be cancelled; running or terminal jobs are immutable.''), s1)
          else
            (case cancel (je_redis env) st (je_fault env 1) (je_fault env 2) (je_now env) jid s1 of
               (Inl e, s2) \<Rightarrow> (Inl e, s2)
             | (Inr True, s2) \<Rightarrow>
                 (Inr (JobBody 200 [(JStr ''id'', JStr jid), (JStr ''status'', JStr ''cancelled'')]), s2)
             | (Inr False, s2) \<Rightarrow>
                 (case get_job (je_redis env) st (je_fault env 3) jid s2 of
                    (Inl e, s3) \<Rightarrow> (Inl e, s3)
                  | (Inr (Some current), s3) \<Rightarrow>
                      (Inr (if jr_status current = ''cancelled'' then JobBody 200 (job_status_body current)
                            
                            else not_cancellable ''The job was claimed before cancellation completed.''), s3)
                  | (Inr None, s3) \<Rightarrow> (Inr (not_cancellable ''The job was claimed before cancellation completed.''), s3))))"

definition cancel_job_handler :: "'s job_env \<Rightarrow> string \<Rightarrow> string \<Rightarrow> 's \<Rightarrow> job_http res \<times> 's" where
  "cancel_job_handler env jid api_key s =
     (case je_store env of
        None \<Rightarrow> (Inr (JobProblem (job_store_unavailable job_route ''durable job store unavailable'')), s)
      | Some st \<Rightarrow>
          if \<not> store_available (Some st) then (Inr (JobProblem (job_store_unavailable job_route ''durable job store unavailable'')), s)
          else
            (case cancel_guarded env st jid api_key s of
               (Inl e, s1) \<Rightarrow> (if TRANSIENT_EXC e then Inr (JobProblem (job_store_unavailable job_route ''durable job queue unavailable'')) else Inl e, s1)
             | (Inr a, s1) \<Rightarrow> (Inr a, s1)))"

section \<open>The payload reaches the worker as submitted\<close>

lemma effective_policy_stable:
  assumes "effective_policy cfg0 files types_policy types = Inr (Some p)"
  shows "is_JDict p" "effective_policy cfg1 files1 (Some p) ts = Inr (Some p)"
proof -
  obtain raw where "normalized_policy raw = Inr p"
    using assms unfolding effective_policy_def default_policy_def
    by (auto simp: map_res_Inr_iff bind_res_Inr_iff Let_def split: option.splits if_splits sum.splits)
  note n = normalized_idem [OF this] this
  show "is_JDict p" using n(2) by (auto simp: normalized_policy_def map_res_Inr_iff)
  show "effective_policy cfg1 files1 (Some p) ts = Inr (Some p)"
    by (simp add: effective_policy_def n(1))
qed

lemma bad_types_dump: "bad_types (dump_types types) \<longleftrightarrow> (case types of None \<Rightarrow> False | Some ts \<Rightarrow> \<not> EntityTypes ts)"
  by (auto simp: dump_types_def EntityTypes_def EntityType_def list_ex_iff list_all_iff not_le Suc_le_eq split: option.splits)

lemma optional_dump_types [simp]: "optional_types (dump_types types) = types"
  by (cases types) (simp_all add: dump_types_def comp_def)

lemma submit_payload_fields [simp]:
  "jget (submit_payload body policy) ''text'' = JStr (sb_text body)"
  "jget (submit_payload body policy) ''policy'' = dump_policy policy"
  "jget (submit_payload body policy) ''entity_types'' = dump_types (sb_types body)"
  "jget (submit_payload body policy) ''encrypted'' = JNull"
  by (simp_all add: submit_payload_def jget_def dict_get_def)

text \<open>
  What an attempt does once the text, the policy and the entity types are known: redaction,
  audit, result.
\<close>

definition attempt_on ::
  "'s job_env \<Rightarrow> job_store \<Rightarrow> string \<Rightarrow> string \<Rightarrow> json option \<Rightarrow> string list option \<Rightarrow> string \<Rightarrow> string \<Rightarrow> 's \<Rightarrow>
   unit res \<times> 's" where
  "attempt_on env st jid t policy types request_id princ s =
     (case je_redactor env of
        None \<Rightarrow> (Inl AttributeError, s)
      | Some redact \<Rightarrow>
          (case redact t policy types s of
             (Inl e, s1) \<Rightarrow> (deadline (Inl e), s1)
           | (Inr r, s1) \<Rightarrow>
               (case je_audit env of
                  None \<Rightarrow> map_prod (map_res (\<lambda>_. ())) id
                    (set_result (je_redis env) st (je_fault env 2) (je_fault env 3) (je_now env) jid (job_result r (je_ms env)) s1)
                | Some record_event \<Rightarrow>
                    sbind (record_event (job_event env policy t request_id princ r)) (\<lambda>_ s2.
                      map_prod (map_res (\<lambda>_. ())) id
                        (set_result (je_redis env) st (je_fault env 2) (je_fault env 3) (je_now env) jid
                          (job_result r (je_ms env)) s2)) s1)))"

lemma job_attempt_on:
  assumes "effective_policy (policy_cfg (je_settings env)) (je_files env) (optional_json (jget payload ''policy''))
      (optional_types (jget payload ''entity_types'')) = Inr policy"
  shows "job_attempt env st jid payload request_id princ s =
    attempt_on env st jid (the_text (jget payload ''text'')) policy (optional_types (jget payload ''entity_types''))
      request_id princ s"
  using assms
  by (auto simp: job_attempt_def attempt_on_def sbind_def Let_def split: option.splits sum.splits prod.splits)

lemma dumped_policy:
  assumes "effective_policy cfg0 files raw types = Inr policy"
  shows "dump_policy policy = JNull \<or> is_JDict (dump_policy policy)" "optional_json (dump_policy policy) = policy"
proof -
  have "policy = None \<or> (\<exists>d. policy = Some (JDict d))"
  proof (cases policy)
    case (Some p)
    then have "is_JDict p" using effective_policy_stable(1) assms by blast
    then show ?thesis using Some by (cases p) simp_all
  qed simp
  then show "dump_policy policy = JNull \<or> is_JDict (dump_policy policy)" "optional_json (dump_policy policy) = policy"
    by (auto simp: dump_policy_def optional_json_def)
qed

text \<open>
  C27. The payload survives the queue: what a submission encodes, with or without a key, the
  worker decodes, and its attempt runs on exactly the submitted text and entity types and on
  the policy resolved at submission. That policy is the worker's whatever its own settings
  and policy files are, unless the submission named neither a policy nor types and no default
  was configured: then the worker takes its own default. With a key the cipher must decrypt
  the token that it made.
\<close>

theorem queued_payload_as_submitted:
  assumes "submit_valid body"
    and "effective_policy cfg0 files (sb_policy body) (sb_types body) = Inr policy"
    and "case cipher of None \<Rightarrow> True | Some c \<Rightarrow> cp_decrypt c (cp_encrypt c (JDict (submit_payload body policy)))
      = Some (JDict (submit_payload body policy))"
  shows "\<exists>d. payload_decode cipher (payload_encode cipher (submit_payload body policy)) = Inr d
    \<and> (case (if policy = None \<and> sb_types body = None
             then default_policy (policy_cfg (je_settings env)) (je_files env) else Inr policy) of
         Inr p \<Rightarrow> job_attempt env st jid d request_id princ s =
           attempt_on env st jid (sb_text body) p (sb_types body) request_id princ s
       | Inl e \<Rightarrow> job_attempt env st jid d request_id princ s = (deadline (Inl e), s))"
proof -
  let ?d = "submit_payload body policy"
  note dp = dumped_policy [OF assms(2)]
  have ok: "payload_fields_ok (JDict ?d)"
    using assms(1) dp(1)
    by (auto simp: payload_fields_ok_def submit_valid_def bad_types_dump split: option.splits)
  have "payload_decode cipher (payload_encode cipher ?d) = Inr ?d"
  proof (cases cipher)
    case None
    then show ?thesis using ok by (simp add: payload_decode_def payload_encode_def)
  next
    case (Some c)
    then show ?thesis using ok assms(3)
      by (simp add: payload_decode_def payload_encode_def jget_def dict_get_def)
  qed
  moreover have "effective_policy (policy_cfg (je_settings env)) (je_files env) (optional_json (jget ?d ''policy''))
      (optional_types (jget ?d ''entity_types'')) = (if policy = None \<and> sb_types body = None
        then default_policy (policy_cfg (je_settings env)) (je_files env) else Inr policy)"
  proof -
    have "effective_policy (policy_cfg (je_settings env)) (je_files env) policy (sb_types body) = Inr policy"
      if "policy \<noteq> None \<or> sb_types body \<noteq> None"
      using that effective_policy_stable(2) assms(2) by (cases policy) (auto simp: effective_policy_def)
    then show ?thesis by (auto simp: dp(2) effective_policy_def)
  qed
  note pol = this
  let ?P = "if policy = None \<and> sb_types body = None
    then default_policy (policy_cfg (je_settings env)) (je_files env) else Inr policy"
  have "case ?P of
         Inr p \<Rightarrow> job_attempt env st jid ?d request_id princ s =
           attempt_on env st jid (sb_text body) p (sb_types body) request_id princ s
       | Inl e \<Rightarrow> job_attempt env st jid ?d request_id princ s = (deadline (Inl e), s)"
  proof (cases ?P)
    case (Inl e)
    then show ?thesis using pol by (simp add: job_attempt_def Let_def del: submit_payload_fields)
  next
    case (Inr p)
    then show ?thesis using job_attempt_on [OF pol [unfolded Inr]] by simp
  qed
  ultimately show ?thesis by blast
qed

definition demo_cipher :: cipher where
  "demo_cipher = \<lparr>cp_encrypt = (\<lambda>j. ''token''),
     cp_decrypt = (\<lambda>t. if t = ''token'' then Some (JDict (submit_payload
        \<lparr>sb_text = ''Ann'', sb_policy = Some (JDict [(JStr ''fields'', JDict [])]), sb_types = None\<rparr>
        (Some (JDict [(JStr ''name'', JStr ''default''), (JStr ''version'', JStr ''0.0.0''),
           (JStr ''description'', JStr []), (JStr ''fields'', JDict [])])))) else None)\<rparr>"

text \<open>
  With a key configured the worker takes only payloads that it can authenticate: an
  accepted one is a single token that decrypts to a well-formed request; everything else,
  an unencrypted payload included, is a \<open>ValueError\<close>, never another exception.
\<close>

theorem payload_decode_authentic:
  "(\<exists>d. payload_decode (Some c) payload = Inr d \<and> payload_fields_ok (JDict d)
      \<and> (\<exists>e token. payload = JDict e \<and> jget e ''encrypted'' = JStr token \<and> cp_decrypt c token = Some (JDict d)))
   \<or> payload_decode (Some c) payload = Inl ValueError"
proof -
  have dict [simp]: "payload_fields_ok j \<Longrightarrow> JDict (dict_items j) = j" for j
    by (cases j) (simp_all add: payload_fields_ok_def)
  show ?thesis
    by (cases payload) (auto simp: payload_decode_def split: json.splits option.splits)
qed

lemma accepted_policy_example:
  "effective_policy None (\<lambda>d n. None) (Some (JDict [(JStr ''fields'', JDict [])])) None =
     Inr (Some (JDict [(JStr ''name'', JStr ''default''), (JStr ''version'', JStr ''0.0.0''),
           (JStr ''description'', JStr []), (JStr ''fields'', JDict [])]))"
  by code_simp

definition demo_job_env :: "store job_env" where
  "demo_job_env = \<lparr>je_redis = list_redis, je_store = Some demo_store, je_settings = None, je_files = (\<lambda>d n. None),
     je_redactor = Some (\<lambda>t p ts s. (Inr \<lparr>rd_text = ''[X]'', rd_spans = [], rd_relex_map = []\<rparr>, s)), je_audit = None,
     je_queue = Some (\<lambda>jid p rid pid s. (Inl OSError, s)), je_cipher = (\<lambda>k. None), je_sha = (\<lambda>x. replicate 64 CHR ''a''),
     je_hmac = (\<lambda>k x. x), je_new_id = ''j1'', je_now = 7, je_ms = 1, je_trace = [], je_rate_fault = None,
     je_fault = (\<lambda>n. None)\<rparr>"

theorem queued_payload_as_submitted_witness:
  "\<exists>d. payload_decode (Some demo_cipher) (JDict [(JStr ''encrypted'', JStr ''token'')]) = Inr d
    \<and> job_attempt demo_job_env demo_store ''j0'' d [] [] [] = attempt_on demo_job_env demo_store ''j0'' ''Ann''
        (Some (JDict [(JStr ''name'', JStr ''default''), (JStr ''version'', JStr ''0.0.0''),
           (JStr ''description'', JStr []), (JStr ''fields'', JDict [])])) None [] [] []"
proof -
  let ?p = "JDict [(JStr ''name'', JStr ''default''), (JStr ''version'', JStr ''0.0.0''),
           (JStr ''description'', JStr []), (JStr ''fields'', JDict [])]"
  let ?body = "\<lparr>sb_text = ''Ann'', sb_policy = Some (JDict [(JStr ''fields'', JDict [])]), sb_types = None\<rparr>"
  have e: "payload_encode (Some demo_cipher) d = JDict [(JStr ''encrypted'', JStr ''token'')]" for d
    by (simp add: payload_encode_def demo_cipher_def)
  have "effective_policy None (\<lambda>d n. None) (sb_policy ?body) (sb_types ?body) = Inr (Some ?p)"
    using accepted_policy_example by simp
  note q = queued_payload_as_submitted [of ?body None, OF _ this, of "Some demo_cipher" demo_job_env demo_store "''j0''" "[]" "[]" "[]"]
  show ?thesis
    using q [unfolded e] by (simp add: submit_valid_def demo_cipher_def)
qed

section \<open>Only the owner\<close>

lemma get_job_state: "snd (get_job R st flt jid s) = s"
proof (cases flt)
  case None
  then show ?thesis by (simp add: get_job_def with_client_def)
next
  case (Some p)
  then show ?thesis
    by (cases p) (simp add: get_job_def with_client_def sbind_def net_def read_only_def split: sum.splits)
qed

text \<open>
  C28. A job is visible to its owner only: unless the stored owner is the token of the
  caller's key, looking a job up and cancelling it both answer 404 exactly as for an
  unknown job, and neither changes the state.
\<close>

theorem job_owner_only:
  assumes "je_store env = Some st" "js_client st" "get_job (je_redis env) st (je_fault env 0) jid s = (Inr r, s0)"
    and "case r of None \<Rightarrow> True | Some x \<Rightarrow> jr_owner x \<noteq> owner_token (js_sha st) api_key"
  shows "get_job_handler env jid api_key s = (Inr job_not_found, s)
    \<and> cancel_job_handler env jid api_key s = (Inr job_not_found, s)"
proof -
  have "s0 = s" using get_job_state [of "je_redis env" st "je_fault env 0" jid s] assms(3) by simp
  with assms show ?thesis
    by (auto simp: get_job_handler_def cancel_job_handler_def cancel_guarded_def store_available_def split: option.splits)
qed

section \<open>One execution\<close>

text \<open>A refused claim changes nothing.\<close>

lemma refused_claim: "claim R st flt now jid s = (Inr False, s1) \<Longrightarrow> s1 = s"
  by (cases flt) (auto simp: claim_def with_client_def sbind_def net_def sreturn_def CLAIM_SCRIPT_def split: if_splits)


definition running_store :: store where
  "running_store = [(''rx:job:j0'', SHash [(''id'', VStr ''j0''), (''status'', VStr ''running''), (''result'', VStr []),
     (''error'', VStr []), (''owner'', VStr ''someone else''), (''schema_version'', VInt 1)])]"

lemma running_store_get:
  "get_job list_redis demo_store None ''j0'' running_store =
     (Inr (Some \<lparr>jr_id = ''j0'', jr_status = ''running'', jr_result = None, jr_error = None,
        jr_owner = ''someone else''\<rparr>), running_store)"
  by code_simp

lemma running_store_claim: "claim list_redis demo_store None 7 ''j0'' running_store = (Inr False, running_store)"
  by code_simp

lemma demo_job_env_simps [simp]:
  "je_redis demo_job_env = list_redis" "je_store demo_job_env = Some demo_store" "je_settings demo_job_env = None"
  "je_fault demo_job_env n = None" "je_now demo_job_env = 7" "je_cipher demo_job_env k = None"
  by (simp_all add: demo_job_env_def)

theorem job_owner_only_witness:
  "get_job_handler demo_job_env ''j0'' ''k1'' running_store = (Inr job_not_found, running_store)"
proof -
  have "owner_token (js_sha demo_store) ''k1'' \<noteq> ''someone else''" by (simp add: owner_token_def demo_store_def numeral_eq_Suc)
  then show ?thesis
    using job_owner_only [of demo_job_env demo_store "''j0''" running_store _ running_store "''k1''"]
    by (simp add: running_store_get)
qed


section \<open>A submission that cannot be queued\<close>

text \<open>The keys of the job store; the queue itself has \<open>redax:jobs\<close> and keys of its own.\<close>

definition job_area :: "string \<Rightarrow> string \<Rightarrow> bool" where
  "job_area ns k \<longleftrightarrow> list_ex (\<lambda>p. take (length (ns @ p)) k = ns @ p) ['':job:'', '':jobs:'']"

lemma job_area_keys [simp]:
  "job_area ns (job_key ns jid)" "job_area ns (COUNT_KEY_TEMPLATE ns t)" "job_area ns (total_count_key ns)"
  "job_area ns (queue_index_key ns)" "job_area ns (dead_letter_key ns)"
  by (simp_all add: job_area_def job_key_def COUNT_KEY_TEMPLATE_def total_count_key_def queue_index_key_def
      dead_letter_key_def)

context redis_laws
begin

lemma frame_inv:
  assumes "same (job_area ns) s s'" "jobs_inv ns s"
  shows "jobs_inv ns s'" "flying ns s' = flying ns s" "list_key s' (dead_letter_key ns) = list_key s (dead_letter_key ns)"
proof -
  have v: "kv s' k = kv s k" "hash s' k = hash s k" "zset s' k = zset s k" "rlist s' k = rlist s k"
    if "job_area ns k" for k using frameD [OF assms(1) that] by simp_all
  show fl: "flying ns s' = flying ns s" by (simp add: in_flight_def v)
  have "owned ns s' t = owned ns s t" for t by (simp add: owned_by_def fl v)
  moreover have "job_keys_ok kv hash zset rlist ns s'"
    using inv_counts(6) [OF assms(2)] unfolding job_keys_ok_def by (metis v job_area_keys)
  ultimately show "jobs_inv ns s'"
    using assms(2) by (simp add: job_inv_def job_counts_ok_def fl v)
  show "list_key s' (dead_letter_key ns) = list_key s (dead_letter_key ns)" by (simp add: list_key_def v)
qed

lemma set_error_result:
  assumes inv: "jobs_inv (js_namespace st) s" and ttl: "0 < js_ttl st" and cl: "js_client st"
    and fl: "jid \<in> flying (js_namespace st) s" and dl: "list_key s (dead_letter_key (js_namespace st))"
  shows "\<exists>s'. set_error R st None None now jid err s = (Inr True, s') \<and> jobs_inv (js_namespace st) s'
    \<and> flying (js_namespace st) s' = flying (js_namespace st) s - {jid}
    \<and> hash s' (job_key (js_namespace st) jid) ''status'' = Some (VStr ''failed'')
    \<and> list_key s' (dead_letter_key (js_namespace st))"
proof -
  let ?ns = "js_namespace st"
  let ?own = "text_or_empty st (r_hget R (job_key ?ns jid) ''owner'' s)"
  have own: "hash s (job_key ?ns jid) ''owner'' = Some (VStr t) \<Longrightarrow> ?own = t" for t
    using hget_hash [OF inv_keys(1) [OF inv, of jid]] by (simp add: text_or_empty_def)
  define p where "p = TERMINAL_SCRIPT R (job_key ?ns jid) (COUNT_KEY_TEMPLATE ?ns ?own) (total_count_key ?ns)
      (queue_index_key ?ns) ''failed'' (VStr []) err (js_ttl st) now JOB_SCHEMA_VERSION JOB_SCHEMA_VERSION
      (rsplit_colon (job_key ?ns jid)) s"
  note ts = terminal_script [OF inv ttl _ own, where jid = jid and res = "VStr []" and err = err and now = now
      and status = "''failed''", folded p_def]
  have "set_error R st None None now jid err s = (Inr True, snd p)"
    using ts(1) fl cl by (simp add: set_error_def with_client_def set_terminal_def sbind_def sreturn_def Let_def
        read_only_def p_def [symmetric])
  then show ?thesis using ts(2-4) ts(5) [OF _ _ dl] fl by auto
qed

text \<open>With faults: the script has its effect or none, and the answer is the fault's exception.\<close>

lemma set_error_faulty:
  "js_client st \<Longrightarrow> f1 \<noteq> None \<or> f2 \<noteq> None \<Longrightarrow>
   \<exists>e. (\<exists>b. f1 = Some (e, b) \<or> f2 = Some (e, b)) \<and> fst (set_error R st f1 f2 now jid err s) = Inl e
     \<and> snd (set_error R st f1 f2 now jid err s) \<in> {s, snd (set_error R st None None now jid err s)}"
  by (cases f1; cases f2)
    (auto simp: set_error_def with_client_def set_terminal_def sbind_def net_def read_only_def Let_def sreturn_def
      split: prod.splits)

text \<open>The dead-letter list, whatever the network does.\<close>

definition only_list :: "string \<Rightarrow> 's \<Rightarrow> 's \<Rightarrow> bool" where
  "only_list k s s' \<longleftrightarrow> kv s' = kv s \<and> hash s' = hash s \<and> zset s' = zset s \<and> (\<forall>k'. k' \<noteq> k \<longrightarrow> rlist s' k' = rlist s k')"

lemma only_list_key: "only_list k s s' \<Longrightarrow> list_key s' k = list_key s k"
  by (simp add: only_list_def list_key_def)

lemma only_list_net:
  "only_list k s (f s) \<Longrightarrow> only_list k s (snd (net flt (write_only f) s))
    \<and> (\<forall>e. fst (net flt (write_only f) s) = Inl e \<longrightarrow> (\<exists>b. flt = Some (e, b)))"
  by (cases flt) (auto simp: net_def write_only_def only_list_def)

lemma record_dead_letter_faulty:
  assumes "list_key s (dead_letter_key (js_namespace st))" "0 < js_ttl st" "0 < js_dead_letter_max st" "js_client st"
    and "record_dead_letter R st f1 f2 f3 now jid err n s = (r, s')"
  shows "only_list (dead_letter_key (js_namespace st)) s s'"
    "r = Inl e \<Longrightarrow> \<exists>b. f1 = Some (e, b) \<or> f2 = Some (e, b) \<or> f3 = Some (e, b)"
proof -
  let ?k = "dead_letter_key (js_namespace st)"
  let ?e = "JDict [(JStr ''schema_version'', JInt 1), (JStr ''job_id'', JStr jid), (JStr ''error'', JStr err),
              (JStr ''attempts'', JInt n), (JStr ''recorded_at'', JFloat now)]"
  obtain x1 s1 where 1: "net f1 (write_only (r_rpush R ?k (VJson ?e))) s = (x1, s1)" by force
  obtain x2 s2 where 2: "net f2 (write_only (r_ltrim_last R ?k (js_dead_letter_max st))) s1 = (x2, s2)" by force
  obtain x3 s3 where 3: "net f3 (write_only (r_expire R ?k (js_ttl st))) s2 = (x3, s3)" by force
  have "only_list ?k s (r_rpush R ?k (VJson ?e) s)"
    using rpush_list [OF assms(1)] by (simp add: only_list_def)
  from only_list_net [where f = "r_rpush R ?k (VJson ?e)", OF this, of f1] 1
  have o1: "only_list ?k s s1" "x1 = Inl e' \<Longrightarrow> \<exists>b. f1 = Some (e', b)" for e' by simp_all
  have k1: "list_key s1 ?k" using only_list_key [OF o1(1)] assms(1) by simp
  have "only_list ?k s1 (r_ltrim_last R ?k (js_dead_letter_max st) s1)"
    using ltrim_list [OF k1 assms(3)] by (simp add: only_list_def)
  from only_list_net [where f = "r_ltrim_last R ?k (js_dead_letter_max st)", OF this, of f2] 2
  have o2: "only_list ?k s1 s2" "x2 = Inl e' \<Longrightarrow> \<exists>b. f2 = Some (e', b)" for e' by simp_all
  have "only_list ?k s2 (r_expire R ?k (js_ttl st) s2)"
    using expire_any [OF assms(2)] by (simp add: only_list_def)
  from only_list_net [where f = "r_expire R ?k (js_ttl st)", OF this, of f3] 3
  have o3: "only_list ?k s2 s3" "x3 = Inl e' \<Longrightarrow> \<exists>b. f3 = Some (e', b)" for e' by simp_all
  have tr: "only_list ?k s s2" "only_list ?k s s3" using o1(1) o2(1) o3(1) by (simp_all add: only_list_def)
  have "record_dead_letter R st f1 f2 f3 now jid err n s =
      (case x1 of Inl e \<Rightarrow> (Inl e, s1) | Inr _ \<Rightarrow> (case x2 of Inl e \<Rightarrow> (Inl e, s2) | Inr _ \<Rightarrow> (x3, s3)))"
    using assms(4) by (simp add: record_dead_letter_def with_client_def Let_def sbind_def 1 2 3 split: sum.splits)
  note run = this [unfolded assms(5)]
  show "only_list ?k s s'" using run o1(1) tr by (cases x1; cases x2) simp_all
  show "r = Inl e \<Longrightarrow> \<exists>b. f1 = Some (e, b) \<or> f2 = Some (e, b) \<or> f3 = Some (e, b)"
    using run o1(2) o2(2) o3(2) by (cases x1; cases x2) auto
qed

lemma jobs_inv_lists:
  assumes "jobs_inv ns s" "only_list (dead_letter_key ns) s s'"
  shows "jobs_inv ns s'" "flying ns s' = flying ns s"
proof -
  note v = assms(2) [unfolded only_list_def]
  have "rlist s' k = rlist s k" if "k \<noteq> dead_letter_key ns" for k using v that by blast
  moreover have "k \<noteq> dead_letter_key ns"
    if "k = total_count_key ns \<or> (\<exists>t. is_token t \<and> k = COUNT_KEY_TEMPLATE ns t) \<or> k = job_key ns jid \<or> k = queue_index_key ns"
    for k jid using that dead_letter_key_neq dead_letter_key_neq_count by metis
  ultimately show "jobs_inv ns s'"
    using assms(1) v by (auto simp: job_inv_def job_keys_ok_def job_counts_ok_def in_flight_def owned_by_def)
  show "flying ns s' = flying ns s" using v by (simp add: in_flight_def)
qed

text \<open>
  The outcome of \<open>record_failure\<close> for a job in flight: it is \<open>failed\<close> and its slot is free, or
  one of the two calls of \<open>set_error\<close> failed and nothing has changed.
\<close>

definition failure_recorded :: "'s job_env \<Rightarrow> string \<Rightarrow> string \<Rightarrow> 's \<Rightarrow> 's \<Rightarrow> bool" where
  "failure_recorded env ns jid s s' \<longleftrightarrow> jobs_inv ns s'
     \<and> (flying ns s' = flying ns s - {jid} \<and> hash s' (job_key ns jid) ''status'' = Some (VStr ''failed'')
        \<or> (je_fault env 10 \<noteq> None \<or> je_fault env 11 \<noteq> None) \<and> flying ns s' = flying ns s)"

lemma record_failure_result:
  assumes inv: "jobs_inv (js_namespace st) s" and fl: "jid \<in> flying (js_namespace st) s"
    and dl: "list_key s (dead_letter_key (js_namespace st))" and ttl: "0 < js_ttl st" and mx: "0 < js_dead_letter_max st"
    and cl: "js_client st" and R: "je_redis env = R"
    and ft: "\<forall>n e b. je_fault env n = Some (e, b) \<longrightarrow> store_error e"
  shows "\<exists>s'. record_failure env st jid n s = (Inr (), s') \<and> failure_recorded env (js_namespace st) jid s s'"
proof -
  let ?ns = "js_namespace st" and ?set = "\<lambda>f g. set_error R st f g (je_now env) jid JOB_FAILED s"
  from set_error_result [OF inv ttl cl fl dl, where now = "je_now env" and err = JOB_FAILED]
  obtain s1 where s1: "?set None None = (Inr True, s1)" "jobs_inv ?ns s1" "flying ?ns s1 = flying ?ns s - {jid}"
    "hash s1 (job_key ?ns jid) ''status'' = Some (VStr ''failed'')" "list_key s1 (dead_letter_key ?ns)" by blast
  show ?thesis
  proof (cases "je_fault env 10 \<noteq> None \<or> je_fault env 11 \<noteq> None")
    case True
    from set_error_faulty [OF cl True, of "je_now env" jid JOB_FAILED s]
    obtain e b where e: "je_fault env 10 = Some (e, b) \<or> je_fault env 11 = Some (e, b)"
      "fst (?set (je_fault env 10) (je_fault env 11)) = Inl e"
      "snd (?set (je_fault env 10) (je_fault env 11)) \<in> {s, s1}" using s1(1) by auto
    obtain s' where s': "?set (je_fault env 10) (je_fault env 11) = (Inl e, s')" "s' \<in> {s, s1}"
      using e(2,3) by (metis prod.collapse)
    have "store_error e" using e(1) ft by blast
    then have "record_failure env st jid n s = (Inr (), s')" using s' by (simp add: record_failure_def R)
    moreover have "failure_recorded env ?ns jid s s'" using s' True s1 inv by (auto simp: failure_recorded_def)
    ultimately show ?thesis by blast
  next
    case False
    obtain r s2 where d: "record_dead_letter R st (je_fault env 12) (je_fault env 13) (je_fault env 14) (je_now env) jid
        JOB_FAILED n s1 = (r, s2)" by force
    note dead = record_dead_letter_faulty [OF s1(5) ttl mx cl d]
    have nf: "je_fault env 10 = None" "je_fault env 11 = None" using False by blast+
    have "record_failure env st jid n s = (Inr (), s2)"
      using dead(2) ft by (cases r) (auto simp: record_failure_def R nf s1(1) d)
    moreover have "failure_recorded env ?ns jid s s2"
      using jobs_inv_lists [OF s1(2) dead(1)] dead(1) s1(3,4) by (simp add: failure_recorded_def only_list_def)
    ultimately show ?thesis by blast
  qed
qed

lemma failed_enqueue:
  assumes "jobs_inv (js_namespace st) s" "jr_id r \<in> flying (js_namespace st) s"
    and "list_key s (dead_letter_key (js_namespace st))" "0 < js_ttl st" "0 < js_dead_letter_max st" "js_client st"
    and "je_redis env = R" "\<forall>n e b. je_fault env n = Some (e, b) \<longrightarrow> store_error e"
    and "\<forall>jid p rid pid. same (job_area (js_namespace st)) s (snd (enqueue jid p rid pid s))"
    and "\<forall>jid p rid pid. fst (enqueue jid p rid pid s) = Inr False
      \<or> (\<exists>e. fst (enqueue jid p rid pid s) = Inl e \<and> TRANSIENT_EXC e)"
  shows "\<exists>s'. enqueue_job env enqueue st body policy api_key rid r s = (Inr (JobProblem (job_store_unavailable jobs_route ''durable job queue unavailable'')), s')
    \<and> failure_recorded env (js_namespace st) (jr_id r) s s'"
proof -
  let ?p = "payload_encode (je_cipher env (cfg job_payload_encryption_key [] (je_settings env))) (submit_payload body policy)"
  let ?pid = "principal_id (je_hmac env) api_key (cfg hash_salt [] (je_settings env))"
  obtain q s1 where q: "enqueue (jr_id r) ?p rid ?pid s = (q, s1)" by force
  have same: "same (job_area (js_namespace st)) s s1" using assms(9) q by (metis snd_conv)
  note inv = frame_inv [OF same assms(1)]
  have "jr_id r \<in> flying (js_namespace st) s1" "list_key s1 (dead_letter_key (js_namespace st))"
    using inv assms(2,3) by simp_all
  from record_failure_result [OF inv(1) this assms(4-8), where n = 1]
  obtain s2 where s2: "record_failure env st (jr_id r) 1 s1 = (Inr (), s2)"
    "failure_recorded env (js_namespace st) (jr_id r) s1 s2" by blast
  have "q = Inr False \<or> (\<exists>e. q = Inl e \<and> TRANSIENT_EXC e)" using assms(10) q by (metis fst_conv)
  then have "enqueue_job env enqueue st body policy api_key rid r s = (Inr (JobProblem (job_store_unavailable jobs_route ''durable job queue unavailable'')), s2)"
    by (auto simp: enqueue_job_def q s2(1) exn_class_defs)
  with s2(2) inv(2) show ?thesis by (simp add: failure_recorded_def)
qed

end

text \<open>
  C29. A submission that cannot be queued gives its slot back: when the queue refuses the
  admitted job or fails, even after it has changed keys of its own, the client gets 503, the
  counters stay exact, every other job is in flight as before, and the job is \<open>failed\<close> and
  not in flight any more. The exception is a failing network: if a call of \<open>set_error\<close> fails
  as well, the job may stay in flight, with its slot taken, until the reaper finds it. Any
  store call may fail, with an error of the store. The queue leaves the keys of the job store
  alone, as ARQ does.
\<close>

theorem failed_enqueue_releases_slot:
  assumes "redis_laws R kv hash zset rlist" "je_redis env = R" "0 < js_ttl st" "0 < js_dead_letter_max st" "js_client st"
    and "job_inv kv hash zset rlist (js_namespace st) s" "jr_id r \<in> in_flight hash (js_namespace st) s"
    and "redis_laws.list_key kv hash zset s (dead_letter_key (js_namespace st))"
    and "\<forall>n e b. je_fault env n = Some (e, b) \<longrightarrow> store_error e"
    and "\<forall>jid p rid pid. frame kv hash zset rlist (job_area (js_namespace st)) s (snd (enqueue jid p rid pid s))"
    and "\<forall>jid p rid pid. fst (enqueue jid p rid pid s) = Inr False
      \<or> (\<exists>e. fst (enqueue jid p rid pid s) = Inl e \<and> TRANSIENT_EXC e)"
  shows "\<exists>s'. enqueue_job env enqueue st body policy api_key rid r s = (Inr (JobProblem (job_store_unavailable jobs_route ''durable job queue unavailable'')), s')
    \<and> job_inv kv hash zset rlist (js_namespace st) s'
    \<and> (in_flight hash (js_namespace st) s' = in_flight hash (js_namespace st) s - {jr_id r}
         \<and> hash s' (job_key (js_namespace st) (jr_id r)) ''status'' = Some (VStr ''failed'')
       \<or> (je_fault env 10 \<noteq> None \<or> je_fault env 11 \<noteq> None)
         \<and> in_flight hash (js_namespace st) s' = in_flight hash (js_namespace st) s)"
proof -
  note laws = assms(1)
  obtain s' where "enqueue_job env enqueue st body policy api_key rid r s = (Inr (JobProblem (job_store_unavailable jobs_route ''durable job queue unavailable'')), s')"
    "redis_laws.failure_recorded kv hash zset rlist env (js_namespace st) (jr_id r) s s'"
    using redis_laws.failed_enqueue [where enqueue = enqueue, OF laws assms(6-8) assms(3-5) assms(2) assms(9-11)] by blast
  then show ?thesis unfolding redis_laws.failure_recorded_def [OF laws] by blast
qed

definition admitted_demo :: store where
  "admitted_demo = snd (create_admitted list_redis demo_store None ''j1'' 1 ''k1'' 2 2 [])"

lemma admitted_demo_inv:
  "job_inv st_kv st_hash st_zset st_list ''rx'' admitted_demo" "''j1'' \<in> in_flight st_hash ''rx'' admitted_demo"
proof -
  have e: "in_flight st_hash ''rx'' [] = {}" "owned_by st_hash ''rx'' [] t = {}" for t
    by (simp_all add: in_flight_def owned_by_def st_hash_def st_fields_def)
  have n: "st_hash [] (job_key (js_namespace demo_store) ''j1'') = Map.empty" by (simp add: st_hash_def st_fields_def)
  have c: "CHR '':'' \<notin> set ''j1''" by simp
  have i: "job_inv st_kv st_hash st_zset st_list (js_namespace demo_store) []" by (rule empty_job_inv)
  obtain s' r where "create_admitted list_redis demo_store None ''j1'' 1 ''k1'' 2 2 [] = (r, s')"
    "job_inv st_kv st_hash st_zset st_list ''rx'' s'" "in_flight st_hash ''rx'' s' = {''j1''}"
    using list_store.create_admitted_result [OF _ _ _ i n c refl, where owner = "''k1''" and m = 2 and n = 2 and now = 1]
    by (auto simp: e)
  then show "job_inv st_kv st_hash st_zset st_list ''rx'' admitted_demo" "''j1'' \<in> in_flight st_hash ''rx'' admitted_demo"
    by (simp_all add: admitted_demo_def)
qed

lemma admitted_demo_list: "list_store.list_key admitted_demo (dead_letter_key ''rx'')"
proof -
  have "st_kv admitted_demo (dead_letter_key ''rx'') = None" "st_fields admitted_demo (dead_letter_key ''rx'') = []"
    "st_members admitted_demo (dead_letter_key ''rx'') = []"
    by code_simp+
  then show ?thesis by (simp add: list_store.list_key_def st_hash_fun)
qed

text \<open>The queue has taken the job before its connection breaks, and the dead-letter list is half written.\<close>

definition broken_queue :: "string \<Rightarrow> json \<Rightarrow> string \<Rightarrow> string \<Rightarrow> store \<Rightarrow> bool res \<times> store" where
  "broken_queue jid p rid pid s = (Inl OSError, r_zadd list_redis ''redax:jobs'' jid 7 s)"

theorem failed_enqueue_releases_slot_witness:
  "\<exists>s'. enqueue_job (demo_job_env\<lparr>je_fault := (\<lambda>n. if n = 13 then Some (RedisError, True) else None)\<rparr>) broken_queue demo_store
      \<lparr>sb_text = ''Ann'', sb_policy = None, sb_types = None\<rparr> None ''k1'' []
      \<lparr>jr_id = ''j1'', jr_status = ''queued'', jr_result = None, jr_error = None, jr_owner = []\<rparr> admitted_demo
      = (Inr (JobProblem (job_store_unavailable jobs_route ''durable job queue unavailable'')), s')
    \<and> ''j1'' \<notin> in_flight st_hash ''rx'' s'"
proof -
  let ?r = "\<lparr>jr_id = ''j1'', jr_status = ''queued'', jr_result = None, jr_error = None, jr_owner = []\<rparr>"
  let ?env = "demo_job_env\<lparr>je_fault := (\<lambda>n. if n = 13 then Some (RedisError, True) else None)\<rparr>"
  have d: "0 < js_dead_letter_max demo_store" by (simp add: demo_store_def)
  have i: "jr_id ?r \<in> in_flight st_hash (js_namespace demo_store) admitted_demo"
    "job_inv st_kv st_hash st_zset st_list (js_namespace demo_store) admitted_demo"
    "list_store.list_key admitted_demo (dead_letter_key (js_namespace demo_store))"
    using admitted_demo_inv admitted_demo_list by simp_all
  have R: "je_redis ?env = list_redis" by simp
  have f: "\<forall>n e b. je_fault ?env n = Some (e, b) \<longrightarrow> store_error e"
    by (auto simp: store_error_def)
  have "\<not> job_area (js_namespace demo_store) ''redax:jobs''" by (simp add: job_area_def demo_store_def)
  then have fr: "\<forall>jid p rid pid. frame st_kv st_hash st_zset st_list (job_area (js_namespace demo_store)) admitted_demo
      (snd (broken_queue jid p rid pid admitted_demo))"
    by (intro allI list_local.frameI) (auto simp: broken_queue_def intro!: list_cells.other_zadd)
  have t: "\<forall>jid p rid pid. fst (broken_queue jid p rid pid admitted_demo) = Inr False
      \<or> (\<exists>e. fst (broken_queue jid p rid pid admitted_demo) = Inl e \<and> TRANSIENT_EXC e)"
    by (simp add: exn_class_defs broken_queue_def)
  have "0 < js_ttl demo_store" "js_client demo_store" by simp_all
  note q = failed_enqueue_releases_slot [where enqueue = broken_queue, OF list_store.redis_laws_axioms R
      this(1) d this(2) i(2,1,3) f fr t]
  from q [where body = "\<lparr>sb_text = ''Ann'', sb_policy = None, sb_types = None\<rparr>" and policy = None and api_key = "''k1''"
        and rid = "[]"]
  show ?thesis by auto
qed

end
