(* ===== verification/Middleware.thy ===== *)
theory Middleware
  imports Errors Access
begin

text \<open>
  \<open>app/middleware.py\<close>, with the drain of \<open>teardown_state\<close> in \<open>app/main.py\<close>: the bounded
  reading of the body, the checks before admission, the request slots and their release,
  and the response. The processing of a request is cut at its \<open>await\<close> points; the step
  relation interleaves any number of requests. The lemmas show that a slot is neither lost
  nor released twice, that a body never exceeds its budget, and that the drain event,
  which is never cleared, lets a shutdown pass while requests are active.
\<close>

section \<open>Bodies and identifiers\<close>

text \<open>ASGI messages; bytes are characters. A source that has no message left blocks until the timeout.\<close>

datatype message = Http_request string bool | Http_disconnect | Other_message

datatype body_error = Body_too_large | Body_timeout

fun read_body ::
  "int \<Rightarrow> message list \<Rightarrow> string list \<Rightarrow> nat \<Rightarrow> body_error + (string list \<times> bool)" where
  "read_body budget [] chunks received = Inl Body_timeout"
| "read_body budget (Http_disconnect # msgs) chunks received = Inr (chunks, True)"
| "read_body budget (Other_message # msgs) chunks received = Inr (chunks, False)"
| "read_body budget (Http_request chunk more_body # msgs) chunks received =
     (let received' = received + length chunk
      in if int received' > budget then Inl Body_too_large
         else if more_body then read_body budget msgs (chunks @ [chunk]) received'
         else Inr (chunks @ [chunk], False))"

definition read_bounded_body :: "int \<Rightarrow> message list \<Rightarrow> body_error + (string list \<times> bool)" where
  "read_bounded_body budget msgs = read_body budget msgs [] 0"

lemma read_body_bounded:
  "read_body m msgs chunks received = Inr (cs, d) \<Longrightarrow> received = length (concat chunks) \<Longrightarrow> int received \<le> m \<Longrightarrow>
   int (length (concat cs)) \<le> m"
  by (induction m msgs chunks received rule: read_body.induct) (auto simp: Let_def split: if_splits)

text \<open>The chunks of the messages that belong to the body.\<close>

fun body_of :: "message list \<Rightarrow> string list" where
  "body_of (Http_request chunk more_body # msgs) = chunk # (if more_body then body_of msgs else [])"
| "body_of _ = []"

lemma read_body_content:
  "read_body m msgs chunks received = Inr (cs, d) \<Longrightarrow> cs = chunks @ body_of msgs"
  by (induction m msgs chunks received rule: read_body.induct) (auto simp: Let_def split: if_splits)

lemma read_body_too_large:
  "read_body m msgs chunks received = Inl Body_too_large \<Longrightarrow> m < int (received + length (concat (body_of msgs)))"
  by (induction m msgs chunks received rule: read_body.induct) (auto simp: Let_def split: if_splits)

text \<open>
  A body that is read is exactly the body of the request and within the budget; one
  that is refused as too large exceeds it. So no more than the budget is ever held.
\<close>

theorem read_bounded_body_correct:
  assumes "0 \<le> m"
  shows "case read_bounded_body m msgs of
      Inr (cs, d) \<Rightarrow> cs = body_of msgs \<and> int (length (concat cs)) \<le> m
    | Inl Body_too_large \<Rightarrow> m < int (length (concat (body_of msgs)))
    | Inl Body_timeout \<Rightarrow> True"
proof (cases "read_bounded_body m msgs")
  case (Inl e)
  then show ?thesis using read_body_too_large [of m msgs "[]" 0] by (cases e) (simp_all add: read_bounded_body_def)
next
  case (Inr x)
  then show ?thesis
    using read_body_bounded [of m msgs "[]" 0 "fst x" "snd x"] read_body_content [of m msgs "[]" 0 "fst x" "snd x"] assms
    by (cases x) (simp add: read_bounded_body_def)
qed

theorem read_bounded_body_correct_witness:
  "int (length (concat (body_of [Http_request ''ab'' True, Http_request ''c'' False, Other_message]))) \<le> 3"
  using read_bounded_body_correct [of 3 "[Http_request ''ab'' True, Http_request ''c'' False, Other_message]"]
  by (simp add: read_bounded_body_def)

text \<open>\<open>fullmatch(r"[A-Za-z0-9._:-]+", value)\<close>\<close>

definition request_id_char :: "char \<Rightarrow> bool" where
  "request_id_char c \<longleftrightarrow>
     (let n = of_char c :: nat in 65 \<le> n \<and> n \<le> 90 \<or> 97 \<le> n \<and> n \<le> 122 \<or> 48 \<le> n \<and> n \<le> 57
        \<or> c \<in> {CHR ''.'', CHR ''_'', CHR '':'', CHR ''-''})"

text \<open>The fresh identifier is an argument.\<close>

definition safe_request_id :: "string \<Rightarrow> string option \<Rightarrow> string" where
  "safe_request_id fresh value =
     (case value of
        Some v \<Rightarrow> if v \<noteq> [] \<and> length v \<le> 128 \<and> list_all request_id_char v then v else fresh
      | None \<Rightarrow> fresh)"

definition get_request_id :: "string option \<Rightarrow> string \<Rightarrow> string option \<Rightarrow> string" where
  "get_request_id bound fresh header =
     (case bound of Some (c # cs) \<Rightarrow> c # cs | _ \<Rightarrow> safe_request_id fresh header)"

definition safe_access_path :: "route \<Rightarrow> string" where
  "safe_access_path route = (case route of Some path \<Rightarrow> path | None \<Rightarrow> ''<unmatched>'')"

text \<open>No control character or line break of a client gets into a log line.\<close>

lemma safe_request_id_clean:
  "list_all request_id_char fresh \<Longrightarrow> list_all request_id_char (safe_request_id fresh value)"
  by (auto simp: safe_request_id_def split: option.split)

section \<open>Slots\<close>

text \<open>
  The part of \<open>State\<close> that the middleware uses: readiness, the permits of the semaphore
  left (if it is configured), the number of active requests, the drain event (if there is
  one) and the gauge.
\<close>

record mw_state =
  mw_ready :: bool
  mw_free :: "nat option"
  mw_active :: int
  mw_drain :: "bool option"
  mw_gauge :: int

definition release_admission :: "bool \<Rightarrow> mw_state \<Rightarrow> mw_state" where
  "release_admission admitted st =
     (case mw_free st of
        None \<Rightarrow> st
      | Some free \<Rightarrow>
          if \<not> admitted then st
          else
            (let active = max 0 (mw_active st - 1)
             in st\<lparr>mw_active := active,
                   mw_drain := (case mw_drain st of Some was_set \<Rightarrow> Some (was_set \<or> active = 0) | None \<Rightarrow> None),
                   mw_gauge := mw_gauge st - 1, mw_free := Some (free + 1)\<rparr>))"

text \<open>What is known of a request before its body: the header is absent, unreadable or a number.\<close>

record mw_request =
  mr_probe :: bool
  mr_route :: route
  mr_content_length :: "int option option"

definition body_too_large :: "route \<Rightarrow> int \<Rightarrow> http_response" where
  "body_too_large route budget =
     problem_response route (error_type ''request-body-too-large'') ''Request body too large'' 413
       (Some (''request body exceeds '' @ show_int budget @ '' bytes'')) None"

datatype 'a entry = Refuse http_response | Wait_slot | Enter 'a

text \<open>The checks up to the acquisition of a slot; an unreadable length counts as \<open>- 1\<close>.\<close>

definition entry_checks :: "int \<Rightarrow> mw_request \<Rightarrow> mw_state \<Rightarrow> unit entry" where
  "entry_checks budget r st =
     (let too_large = (case mr_content_length r of
            None \<Rightarrow> False
          | Some l \<Rightarrow> (let body_bytes = (case l of None \<Rightarrow> - 1 | Some n \<Rightarrow> n) in body_bytes < 0 \<or> body_bytes > budget))
      in if too_large then Refuse (body_too_large (mr_route r) budget)
         else if mw_free st \<noteq> None \<and> \<not> mr_probe r then
           (if \<not> mw_ready st
            then Refuse (problem_response (mr_route r) (error_type ''not-ready'') ''Not ready'' 503
                   (Some ''Service is draining or has not finished initializing'') None)
            else Wait_slot)
         else Enter ())"

definition saturated :: "route \<Rightarrow> http_response" where
  "saturated route = problem_response route (error_type ''request-capacity'') ''Request capacity exhausted'' 503
     (Some ''Request capacity is temporarily exhausted'') None"

definition acquire_slot :: "mw_state \<Rightarrow> mw_state" where
  "acquire_slot st = st\<lparr>mw_free := map_option (\<lambda>n. n - 1) (mw_free st), mw_active := mw_active st + 1,
     mw_gauge := mw_gauge st + 1\<rparr>"

text \<open>
  The phase of a request: waiting for a slot, running (with or without one), or its response
  is being sent and the release deferred to its end.
\<close>

datatype phase = Waiting | Running bool | Sending

type_synonym mw_config = "mw_state \<times> (nat \<Rightarrow> phase option)"

text \<open>
  The steps. A running request ends early (a refused body, an exception) and releases its
  slot at once, or returns a response: then a slot is released when the response has been
  sent. The shutdown clears the readiness.
\<close>

inductive mw_step :: "int \<Rightarrow> mw_config \<Rightarrow> mw_config \<Rightarrow> bool" for m where
  refuse: "ph i = None \<Longrightarrow> entry_checks m r st = Refuse p \<Longrightarrow> mw_step m (st, ph) (st, ph)"
| enter: "ph i = None \<Longrightarrow> entry_checks m r st = Enter () \<Longrightarrow> mw_step m (st, ph) (st, ph(i \<mapsto> Running False))"
| wait: "ph i = None \<Longrightarrow> entry_checks m r st = Wait_slot \<Longrightarrow> mw_step m (st, ph) (st, ph(i \<mapsto> Waiting))"
| acquire: "ph i = Some Waiting \<Longrightarrow> mw_free st = Some (Suc n) \<Longrightarrow>
    mw_step m (st, ph) (acquire_slot st, ph(i \<mapsto> Running True))"
| saturate: "ph i = Some Waiting \<Longrightarrow> mw_step m (st, ph) (st, ph(i := None))"
| fail: "ph i = Some (Running a) \<Longrightarrow> mw_step m (st, ph) (release_admission a st, ph(i := None))"
| respond: "ph i = Some (Running a) \<Longrightarrow> mw_step m (st, ph) (st, ph(i := if a then Some Sending else None))"
| sent: "ph i = Some Sending \<Longrightarrow> mw_step m (st, ph) (release_admission True st, ph(i := None))"
| shutdown: "mw_step m (st, ph) (st\<lparr>mw_ready := False\<rparr>, ph)"

inductive mw_reachable :: "int \<Rightarrow> mw_config \<Rightarrow> mw_config \<Rightarrow> bool" for m where
  start: "mw_reachable m c c"
| step: "mw_reachable m c c' \<Longrightarrow> mw_step m c' c'' \<Longrightarrow> mw_reachable m c c''"

text \<open>The state of \<open>build_state\<close> after start-up.\<close>

definition initial_mw :: "nat \<Rightarrow> mw_config" where
  "initial_mw cap = (\<lparr>mw_ready = True, mw_free = Some cap, mw_active = 0, mw_drain = Some False, mw_gauge = 0\<rparr>, \<lambda>i. None)"

definition holders :: "(nat \<Rightarrow> phase option) \<Rightarrow> nat set" where
  "holders ph = {i. ph i = Some (Running True) \<or> ph i = Some Sending}"

definition mw_inv :: "nat \<Rightarrow> mw_config \<Rightarrow> bool" where
  "mw_inv cap c \<longleftrightarrow> (let (st, ph) = c in
     finite (holders ph) \<and> card (holders ph) \<le> cap \<and> mw_free st = Some (cap - card (holders ph))
     \<and> mw_active st = int (card (holders ph)) \<and> mw_gauge st = int (card (holders ph)) \<and> mw_drain st \<noteq> None)"

lemma holders_upd:
  "holders (ph(i := p)) = (if p = Some (Running True) \<or> p = Some Sending then insert i (holders ph) else holders ph - {i})"
  by (auto simp: holders_def)

lemma mw_inv_release:
  assumes "mw_inv cap (st, ph)" "i \<in> holders ph"
  shows "mw_inv cap (release_admission True st, ph(i := None))"
proof -
  from assms have c: "finite (holders ph)" "card (holders ph) \<le> cap" "mw_free st = Some (cap - card (holders ph))"
    "mw_active st = int (card (holders ph))" "mw_gauge st = int (card (holders ph))" "mw_drain st \<noteq> None"
    by (simp_all add: mw_inv_def)
  have pos: "0 < card (holders ph)" using c(1) assms(2) by (auto simp: card_gt_0_iff)
  have "card (holders ph - {i}) = card (holders ph) - 1" using c(1) assms(2) by simp
  with c pos show ?thesis
    by (auto simp: mw_inv_def release_admission_def holders_upd Let_def split: option.split)
qed

lemma holders_same:
  "ph i \<noteq> Some (Running True) \<Longrightarrow> ph i \<noteq> Some Sending \<Longrightarrow> holders ph - {i} = holders ph"
  by (auto simp: holders_def)

lemma mw_inv_same_holders:
  assumes "mw_inv cap (st, ph)" "holders ph' = holders ph"
  shows "mw_inv cap (st, ph')"
  using assms by (simp add: mw_inv_def)

lemma mw_inv_step: "mw_step m c c' \<Longrightarrow> mw_inv cap c \<Longrightarrow> mw_inv cap c'"
proof (induction rule: mw_step.induct)
  case (acquire ph i st n)
  then have "i \<notin> holders ph" by (simp add: holders_def)
  with acquire show ?case by (auto simp: mw_inv_def acquire_slot_def holders_upd)
next
  case (fail ph i a st)
  show ?case
  proof (cases a)
    case True
    then show ?thesis using mw_inv_release [OF fail.prems, of i] fail.hyps by (simp add: holders_def)
  next
    case False
    then have "release_admission a st = st" by (simp add: release_admission_def split: option.split)
    moreover have "holders (ph(i := None)) = holders ph"
      using fail.hyps False by (simp add: holders_upd holders_same)
    ultimately show ?thesis using mw_inv_same_holders [OF fail.prems] by simp
  qed
next
  case (respond ph i a st)
  have "holders (ph(i := if a then Some Sending else None)) = holders ph"
    using respond.hyps by (auto simp: holders_def)
  then show ?case by (rule mw_inv_same_holders [OF respond.prems])
next
  case (sent ph i st)
  then show ?case using mw_inv_release [OF sent.prems, of i] by (simp add: holders_def)
next
  case (enter ph i r st)
  have "holders (ph(i \<mapsto> Running False)) = holders ph" using enter.hyps by (simp add: holders_upd holders_same)
  then show ?case by (rule mw_inv_same_holders [OF enter.prems])
next
  case (wait ph i r st)
  have "holders (ph(i \<mapsto> Waiting)) = holders ph" using wait.hyps by (simp add: holders_upd holders_same)
  then show ?case by (rule mw_inv_same_holders [OF wait.prems])
next
  case (saturate ph i st)
  have "holders (ph(i := None)) = holders ph" using saturate.hyps by (simp add: holders_upd holders_same)
  then show ?case by (rule mw_inv_same_holders [OF saturate.prems])
qed (simp_all add: mw_inv_def)

lemma mw_inv_initial: "mw_inv cap (initial_mw cap)"
  by (simp add: mw_inv_def initial_mw_def holders_def) blast

lemma mw_reachable_inv: "mw_reachable m c c' \<Longrightarrow> mw_inv cap c \<Longrightarrow> mw_inv cap c'"
  by (induction rule: mw_reachable.induct) (auto intro: mw_inv_step)

definition probe_free :: mw_request where
  "probe_free = \<lparr>mr_probe = False, mr_route = None, mr_content_length = None\<rparr>"

lemma mw_admit:
  assumes "mw_reachable m c (st, ph)" "ph i = None" "mw_ready st" "mw_free st = Some (Suc n)"
  shows "mw_reachable m c (acquire_slot st, ph(i \<mapsto> Running True))"
proof -
  have "entry_checks m probe_free st = Wait_slot" using assms(3,4) by (simp add: entry_checks_def probe_free_def)
  from mw_step.wait [where ph = ph and i = i, OF assms(2) this] have w: "mw_reachable m c (st, ph(i \<mapsto> Waiting))"
    using assms(1) mw_reachable.step by blast
  have "mw_step m (st, ph(i \<mapsto> Waiting)) (acquire_slot st, (ph(i \<mapsto> Waiting))(i \<mapsto> Running True))"
    by (rule mw_step.acquire) (use assms(4) in simp_all)
  then show ?thesis using mw_reachable.step [OF w] by (simp only: fun_upd_upd)
qed

text \<open>
  C30. Slots are neither lost nor released twice: however any number of requests interleave,
  with refusals, exceptions, streamed responses and a shutdown among them, at most the
  configured number of requests hold a slot, the free permits and the holders add up to
  that number, and the active count and the gauge are the number of holders; once no
  request holds a slot, all permits are back.
\<close>

theorem admission_slots_exact:
  assumes "mw_reachable m (initial_mw cap) (st, ph)"
  shows "card (holders ph) \<le> cap \<and> mw_free st = Some (cap - card (holders ph))
    \<and> mw_active st = int (card (holders ph)) \<and> mw_gauge st = mw_active st
    \<and> (if holders ph = {} then mw_free st = Some cap \<and> mw_active st = 0 else 0 < mw_active st)"
proof -
  have "mw_inv cap (st, ph)" by (rule mw_reachable_inv [OF assms mw_inv_initial])
  then show ?thesis by (auto simp: mw_inv_def card_gt_0_iff)
qed

theorem admission_slots_exact_witness:
  "mw_active (acquire_slot (fst (initial_mw 2))) = int (card (holders ((\<lambda>i. None)(0 \<mapsto> Running True))))"
proof -
  have "mw_reachable 100 (initial_mw 2) (fst (initial_mw 2), \<lambda>i. None)"
    using mw_reachable.start [of 100 "initial_mw 2"] by (simp add: initial_mw_def)
  then have "mw_reachable 100 (initial_mw 2) (acquire_slot (fst (initial_mw 2)), (\<lambda>i. None)(0 \<mapsto> Running True))"
    by (rule mw_admit) (simp_all add: initial_mw_def numeral_2_eq_2)
  from admission_slots_exact [OF this] show ?thesis by blast
qed

section \<open>The drain at shutdown\<close>

text \<open>
  Whether \<open>teardown_state\<close> waits for the active requests, once readiness is cleared, with
  time remaining.
\<close>

definition teardown_waits :: "rat \<Rightarrow> mw_state \<Rightarrow> bool" where
  "teardown_waits remaining st \<longleftrightarrow> (mw_drain st \<noteq> None \<and> mw_active st \<noteq> 0) \<and> remaining > 0 \<and> mw_drain st = Some False"

lemma teardown_waits_fresh:
  "mw_drain st = Some False \<Longrightarrow> 0 < mw_active st \<Longrightarrow> 0 < remaining \<Longrightarrow> teardown_waits remaining st"
  by (simp add: teardown_waits_def)

inductive_cases mw_stepE: "mw_step m (st, ph) (st', ph')"

text \<open>Once the service drains, no request starts to wait, so only those already waiting can get a slot.\<close>

lemma draining_refuses:
  assumes "mw_step m (st, ph) (st', ph')" "\<not> mw_ready st" "ph' i = Some Waiting"
  shows "ph i = Some Waiting"
  using assms(1)
proof (rule mw_stepE)
  fix j r
  assume "ph' = ph(j \<mapsto> Waiting)" "entry_checks m r st = Wait_slot"
  then show ?thesis using assms(2) by (simp add: entry_checks_def Let_def split: if_splits)
qed (use assms(3) in \<open>auto split: if_splits\<close>)

text \<open>
  The drain event is set whenever the active count falls to zero and is never cleared: as
  soon as one request has come and gone, a shutdown no longer waits for the requests that
  are active then.
\<close>

lemma drain_event_stale:
  assumes "0 < cap"
  obtains st ph where "mw_reachable m (initial_mw cap) (st, ph)" "\<not> mw_ready st" "0 < mw_active st"
    "\<not> teardown_waits remaining st"
proof -
  obtain n where cap: "cap = Suc n" using assms by (cases cap) auto
  define s0 where "s0 = \<lparr>mw_ready = True, mw_free = Some cap, mw_active = 0, mw_drain = Some False, mw_gauge = 0\<rparr>"
  define s1 where "s1 = acquire_slot s0"
  define s2 where "s2 = release_admission True s1"
  define s3 where "s3 = acquire_slot s2"
  have r0: "mw_reachable m (initial_mw cap) (s0, \<lambda>i. None)"
    unfolding initial_mw_def s0_def by (rule mw_reachable.start)
  have r1: "mw_reachable m (initial_mw cap) (s1, (\<lambda>i. None)(0 \<mapsto> Running True))"
    unfolding s1_def by (rule mw_admit [OF r0]) (simp_all add: s0_def cap)
  have f1: "mw_step m (s1, (\<lambda>i. None)(0 \<mapsto> Running True))
      (release_admission True s1, ((\<lambda>i. None)(0 \<mapsto> Running True))(0 := None))"
    by (rule mw_step.fail) simp
  have r2: "mw_reachable m (initial_mw cap) (s2, ((\<lambda>i. None)(0 \<mapsto> Running True))(0 := None))"
    unfolding s2_def by (rule mw_reachable.step [OF r1 f1])
  have s2: "s2 = s0\<lparr>mw_drain := Some True\<rparr>"
    by (simp add: s2_def s1_def s0_def release_admission_def acquire_slot_def cap)
  have r3: "mw_reachable m (initial_mw cap) (s3, ((\<lambda>i. None)(0 \<mapsto> Running True))(0 := None, 1 \<mapsto> Running True))"
    unfolding s3_def by (rule mw_admit [OF r2]) (simp_all add: s2 s0_def cap)
  from mw_reachable.step [OF r3 mw_step.shutdown]
  show ?thesis
    by (rule that) (simp_all add: teardown_waits_def s3_def s2 s0_def acquire_slot_def)
qed

text \<open>A request that waits for a slot is admitted even when the service has begun to drain.\<close>

lemma admitted_while_draining:
  assumes "ph i = Some Waiting" "mw_free st = Some (Suc n)" "\<not> mw_ready st"
  shows "mw_step m (st, ph) (acquire_slot st, ph(i \<mapsto> Running True))"
  using assms(1,2) by (rule mw_step.acquire)

section \<open>Responses\<close>

text \<open>Headers by lower-case name.\<close>

record response =
  re_status :: nat
  re_headers :: "(string \<times> string) list"

definition setdefault :: "string \<Rightarrow> string \<Rightarrow> (string \<times> string) list \<Rightarrow> (string \<times> string) list" where
  "setdefault k v hs = (if map_of hs k = None then hs @ [(k, v)] else hs)"

definition set_header :: "string \<Rightarrow> string \<Rightarrow> (string \<times> string) list \<Rightarrow> (string \<times> string) list" where
  "set_header k v hs = filter (\<lambda>(k', _). k' \<noteq> k) hs @ [(k, v)]"

definition SECURITY_HEADERS :: "(string \<times> string) list" where
  "SECURITY_HEADERS =
     [(''x-content-type-options'', ''nosniff''), (''x-frame-options'', ''DENY''),
      (''referrer-policy'', ''strict-origin-when-cross-origin''),
      (''strict-transport-security'', ''max-age=31536000; includeSubDomains''),
      (''permissions-policy'', ''camera=(), geolocation=(), microphone=(), payment=(), usb=()'')]"

text \<open>
  What is done to the response of the application; \<open>num\<close> reads the number of a
  \<open>content-length\<close> header and \<open>len\<close> is the length of a problem's JSON text.
\<close>

definition limit_response :: "route \<Rightarrow> (string \<Rightarrow> rat option) \<Rightarrow> int \<Rightarrow> response \<Rightarrow> http_response option" where
  "limit_response route num limit r =
     (case map_of (re_headers r) ''content-length'' of
        None \<Rightarrow> None
      | Some v \<Rightarrow>
          (case num v of
             None \<Rightarrow> None
           | Some response_size \<Rightarrow>
               if response_size > of_int limit
               then Some (problem_response route (error_type ''response-body-too-large'') ''Response too large'' 500
                      (Some ''response exceeds the configured byte limit'') None)
               else None))"

definition finish_response ::
  "route \<Rightarrow> (string \<Rightarrow> rat option) \<Rightarrow> (http_response \<Rightarrow> string) \<Rightarrow> int \<Rightarrow> string \<Rightarrow> response \<Rightarrow> response" where
  "finish_response route num len limit request_id r =
     (let r1 = (case limit_response route num limit r of
            None \<Rightarrow> r | Some p \<Rightarrow> \<lparr>re_status = hr_status p, 
               re_headers = [(''content-type'', ''application/problem+json''), (''content-length'', len p)]\<rparr>);
          hs = fold (\<lambda>(k, v). setdefault k v) SECURITY_HEADERS (re_headers r1)
      in r1\<lparr>re_headers := set_header ''x-request-id'' request_id hs\<rparr>)"

lemma map_of_setdefault [simp]:
  "map_of (setdefault k v hs) x = (if x = k \<and> map_of hs k = None then Some v else map_of hs x)"
  by (auto simp: setdefault_def map_add_def split: option.splits)

lemma map_of_filter_ne: "map_of (filter (\<lambda>(k', _). k' \<noteq> k) hs) x = (if x = k then None else map_of hs x)"
  by (induction hs) auto

lemma map_of_set_header [simp]: "map_of (set_header k v hs) x = (if x = k then Some v else map_of hs x)"
  by (simp add: set_header_def map_of_filter_ne map_add_def split: option.splits)

text \<open>
  Every response that comes back from the application carries the request identifier and
  the five security headers. The refusals before it do not pass here.
\<close>

lemma finished_headers:
  assumes "r' = finish_response route num len m request_id r"
  shows "map_of (re_headers r') ''x-request-id'' = Some request_id"
    "k \<in> fst ` set SECURITY_HEADERS \<Longrightarrow> map_of (re_headers r') k \<noteq> None"
  using assms by (auto simp: finish_response_def Let_def SECURITY_HEADERS_def)

lemma oversized_response_replaced:
  assumes "map_of (re_headers r) ''content-length'' = Some v" "num v = Some n" "of_int m < n"
  shows "re_status (finish_response route num len m request_id r) = 500
    \<and> map_of (re_headers (finish_response route num len m request_id r)) ''content-type'' = Some ''application/problem+json''"
  using assms by (simp add: finish_response_def limit_response_def Let_def SECURITY_HEADERS_def)

end
