(* ===== verification/Startup.thy ===== *)
theory Startup
  imports Config Middleware
begin

text \<open>
  \<open>app/main.py\<close>: what \<open>build_state\<close> wires for a configuration and the outcomes of its
  awaited calls, the start and the stop of the process around it, and one round of
  \<open>refresh_job_metrics\<close>; \<open>start\<close> and \<open>stop\<close> of the job store of \<open>app/jobs/store.py\<close>. The
  lemmas show that production never runs without the configured detector, that readiness
  means a complete start, and that the stop never fails and keeps its order.
\<close>

section \<open>The client of the job store\<close>

text \<open>Whether the store has a client, then the outcome of the ping of \<open>start\<close> or of closing it.\<close>

definition store_start :: "bool \<Rightarrow> unit res \<Rightarrow> unit res \<times> bool" where
  "store_start has_client ping = (if has_client then (Inr (), True) else (ping, True))"

definition store_stop :: "bool \<Rightarrow> unit res \<Rightarrow> unit res \<times> bool" where
  "store_stop has_client close = (if has_client then (close, case close of Inl e \<Rightarrow> True | Inr _ \<Rightarrow> False) else (Inr (), False))"

section \<open>\<open>build_state\<close>\<close>

datatype active_detector = Regex_active | Gliner_active

datatype audit_kind = Redis_backend | File_backend

text \<open>The outcomes of the awaited calls.\<close>

record boot_env =
  bo_gliner :: "unit res"
  bo_ping :: "unit res"
  bo_reap :: "nat res"
  bo_audit :: "unit res"
  bo_queue :: "unit res"

record app_state =
  as_ready :: bool
  as_detector :: active_detector
  as_registry :: "string list"
  as_pipeline :: bool
  as_shared_breaker :: bool
  as_client :: bool
  as_audit :: audit_kind
  as_queue :: bool
  as_capacity :: int

definition gliner_failure :: "exn \<Rightarrow> bool" where
  "gliner_failure e \<longleftrightarrow> is_os_error e \<or> is_runtime_error e \<or> is_value_error e"

definition load_detectors :: "settings \<Rightarrow> unit res \<Rightarrow> (active_detector \<times> string list) res" where
  "load_detectors s gliner =
     (if detector_name s = ''gliner2'' then
        (case gliner of
           Inr _ \<Rightarrow> Inr (Gliner_active, [''regex'', ''gliner2''])
         | Inl e \<Rightarrow>
             if gliner_failure e then (if deploy_env s = Prod then Inl RuntimeError else Inr (Regex_active, [''regex'']))
             else Inl e)
      else Inr (Regex_active, [''regex'']))"

text \<open>
  The store is started and stale jobs are reaped; every \<open>Exception\<close> is logged only. The
  result is whether Redis has started, and whether the store has a client.
\<close>

definition start_redis :: "boot_env \<Rightarrow> (bool \<times> bool) res" where
  "start_redis bo =
     (case store_start False (bo_ping bo) of
        (Inl e, client) \<Rightarrow> (if is_Exception e then Inr (False, client) else Inl e)
      | (Inr _, client) \<Rightarrow>
          (case bo_reap bo of
             Inr n \<Rightarrow> Inr (True, client)
           | Inl e \<Rightarrow> if is_Exception e then Inr (True, client) else Inl e))"

definition build_state :: "settings \<Rightarrow> boot_env \<Rightarrow> app_state res" where
  "build_state s bo =
     bind_res (load_detectors s (bo_gliner bo)) (\<lambda>(active, names).
     bind_res (start_redis bo) (\<lambda>(redis_started, client).
       let pipeline = (pipeline_enabled s \<and> active \<noteq> Regex_active);
           shared = (pipeline \<and> client);
           kind = (if audit_backend s = ''redis'' then Redis_backend else File_backend)
       in if kind = Redis_backend \<and> \<not> redis_started then Inl RuntimeError
          else
            map_res (\<lambda>_. \<lparr>as_ready = False, as_detector = active, as_registry = names, as_pipeline = pipeline,
               as_shared_breaker = shared, as_client = client, as_audit = kind, as_queue = False,
               as_capacity = max_concurrent_requests s\<rparr>) (bo_audit bo)))"

text \<open>\<open>lifespan\<close> up to the \<open>yield\<close>: the queue is optional.\<close>

definition start_app :: "verify_env \<Rightarrow> settings \<Rightarrow> boot_env \<Rightarrow> app_state res" where
  "start_app ve s bo =
     bind_res (verify ve s) (\<lambda>_.
     bind_res (build_state s bo) (\<lambda>st.
       case bo_queue bo of
         Inr _ \<Rightarrow> Inr (st\<lparr>as_queue := True, as_ready := True\<rparr>)
       | Inl e \<Rightarrow> if is_Exception e then Inr (st\<lparr>as_ready := True\<rparr>) else Inl e))"

text \<open>
  An application that is ready has passed \<open>verify\<close> and runs what is configured: in
  production the configured detector and no other, so a model that cannot be loaded stops
  the start; the pipeline only with the model; and a Redis audit log only on a Redis that
  answered.
\<close>

theorem started_as_configured:
  assumes "start_app ve s bo = Inr st"
  shows "verify ve s = Inr () \<and> as_ready st
    \<and> (deploy_env s = Prod \<and> detector_name s = ''gliner2'' \<longrightarrow> as_detector st = Gliner_active \<and> bo_gliner bo = Inr ())
    \<and> (as_detector st = Gliner_active \<longleftrightarrow> detector_name s = ''gliner2'' \<and> bo_gliner bo = Inr ())
    \<and> (as_pipeline st \<longleftrightarrow> pipeline_enabled s \<and> as_detector st = Gliner_active)
    \<and> (as_audit st = Redis_backend \<longleftrightarrow> audit_backend s = ''redis'')
    \<and> (as_audit st = Redis_backend \<longrightarrow> bo_ping bo = Inr ()) \<and> bo_audit bo = Inr ()"
proof -
  from assms obtain b where v: "verify ve s = Inr ()" and b: "build_state s bo = Inr b"
    and st: "st = b\<lparr>as_ready := True\<rparr> \<or> st = b\<lparr>as_queue := True, as_ready := True\<rparr>"
    by (cases "bo_queue bo") (auto simp: start_app_def bind_res_Inr_iff split: if_splits)
  from b obtain active names started client where
    d: "load_detectors s (bo_gliner bo) = Inr (active, names)" and r: "start_redis bo = Inr (started, client)"
    and k: "audit_backend s = ''redis'' \<Longrightarrow> started" and a: "bo_audit bo = Inr ()"
    and bb: "b = \<lparr>as_ready = False, as_detector = active, as_registry = names,
      as_pipeline = (pipeline_enabled s \<and> active \<noteq> Regex_active), as_shared_breaker = (pipeline_enabled s \<and> active \<noteq> Regex_active \<and> client),
      as_client = client, as_audit = (if audit_backend s = ''redis'' then Redis_backend else File_backend),
      as_queue = False, as_capacity = max_concurrent_requests s\<rparr>"
    by (auto simp: build_state_def bind_res_Inr_iff map_res_Inr_iff Let_def split: if_splits prod.splits)
  have g: "active = Gliner_active \<longleftrightarrow> detector_name s = ''gliner2'' \<and> bo_gliner bo = Inr ()"
    "deploy_env s = Prod \<and> detector_name s = ''gliner2'' \<Longrightarrow> bo_gliner bo = Inr ()"
    using d by (auto simp: load_detectors_def split: sum.splits if_splits)
  have p: "started \<Longrightarrow> bo_ping bo = Inr ()"
    using r by (auto simp: start_redis_def store_start_def split: sum.splits if_splits)
  have n: "active \<noteq> Regex_active \<longleftrightarrow> active = Gliner_active" by (cases active) simp_all
  have f: "as_ready st" "as_detector st = active" "as_pipeline st \<longleftrightarrow> pipeline_enabled s \<and> active \<noteq> Regex_active"
    "as_audit st = (if audit_backend s = ''redis'' then Redis_backend else File_backend)"
    using st unfolding bb by (elim disjE; simp)+
  have kind: "as_audit st = Redis_backend \<longleftrightarrow> audit_backend s = ''redis''" unfolding f by simp
  show ?thesis unfolding kind using v f(1-3) g p k a n by blast
qed

text \<open>
  A failing ping leaves the client set, although a missing client is how the rest of the
  code recognises that Redis is down; the shared breaker then uses a dead connection.
\<close>

lemma failed_ping_keeps_client:
  assumes "bo_ping bo = Inl OSError" "build_state s bo = Inr st"
  shows "as_client st"
  using assms
  by (auto simp: build_state_def start_redis_def store_start_def is_Exception_def bind_res_Inr_iff map_res_Inr_iff Let_def
      split: if_splits prod.splits)

section \<open>\<open>teardown_state\<close>\<close>

text \<open>
  The components in the order in which they are closed, each with its outcome and the time
  remaining before it; \<open>waited\<close> is whether the drain was awaited.
\<close>

datatype component = Job_queue_c | Audit_c | Job_store_c

datatype close_outcome = Closed | Failed_close exn | Timed_out | Skipped

definition close_component :: "rat \<Rightarrow> unit res \<Rightarrow> close_outcome res" where
  "close_component remaining outcome =
     (if remaining \<le> 0 then Inr Skipped
      else
        (case outcome of
           Inr _ \<Rightarrow> Inr Closed
         | Inl e \<Rightarrow> if e = TimeoutError then Inr Timed_out else if is_Exception e then Inr (Failed_close e) else Inl e))"

fun close_all ::
  "(component \<Rightarrow> rat) \<Rightarrow> (component \<Rightarrow> unit res) \<Rightarrow> component list \<Rightarrow> (component \<times> close_outcome) list \<times> unit res" where
  "close_all remaining_at outcome [] = ([], Inr ())"
| "close_all remaining_at outcome (c # cs) =
     (case close_component (remaining_at c) (outcome c) of
        Inl e \<Rightarrow> ([], Inl e)
      | Inr o1 \<Rightarrow> (let (os, r) = close_all remaining_at outcome cs in ((c, o1) # os, r)))"

definition present_components :: "bool \<Rightarrow> bool \<Rightarrow> bool \<Rightarrow> component list" where
  "present_components queue audit store =
     (if queue then [Job_queue_c] else []) @ (if audit then [Audit_c] else []) @ (if store then [Job_store_c] else [])"

definition teardown_state ::
  "mw_state \<Rightarrow> rat \<Rightarrow> (component \<Rightarrow> rat) \<Rightarrow> (component \<Rightarrow> unit res) \<Rightarrow> component list \<Rightarrow>
   bool \<times> ((component \<times> close_outcome) list \<times> unit res) \<times> mw_state" where
  "teardown_state st remaining remaining_at outcome components =
     (let st1 = st\<lparr>mw_ready := False\<rparr>
      in (teardown_waits remaining st1, close_all remaining_at outcome components, st1))"

text \<open>
  The stop ends without an exception unless it is cancelled itself, and it has handled
  every component in its order, whatever closing them raised.
\<close>

lemma close_all_total:
  "(\<And>c. outcome c \<noteq> Inl CancelledError) \<Longrightarrow>
   \<exists>os. close_all remaining_at outcome components = (os, Inr ()) \<and> map fst os = components"
proof (induction components)
  case (Cons c cs)
  have "\<exists>o1. close_component (remaining_at c) (outcome c) = Inr o1"
    using Cons.prems [of c] by (cases "outcome c") (auto simp: close_component_def is_Exception_def)
  with Cons show ?case by auto
qed simp

section \<open>\<open>refresh_job_metrics\<close>\<close>

text \<open>
  One round of the recovery task on (has client, has queue), with the outcomes of \<open>start\<close> or
  the ping, of \<open>stop\<close> and of creating a queue. The gauges are left out.
\<close>

definition refresh_error :: "exn \<Rightarrow> bool" where
  "refresh_error e \<longleftrightarrow> is_os_error e \<or> e = RedisError \<or> is_runtime_error e \<or> is_value_error e"

definition refresh_round ::
  "unit res \<Rightarrow> unit res \<Rightarrow> unit res \<Rightarrow> bool \<times> bool \<Rightarrow> (bool \<times> bool) res" where
  "refresh_round ping close create c =
     (let (client, queue) = c;
          (r, client1) = (if client then (ping, True) else store_start False ping)
      in bind_res
           (case r of
              Inr _ \<Rightarrow> Inr (client1, queue)
            | Inl e \<Rightarrow>
                if \<not> refresh_error e then Inl e
                else
                  (case store_stop client1 close of
                     (Inl e', client2) \<Rightarrow> (if refresh_error e' then Inr (client2, False) else Inl e')
                   | (Inr _, client2) \<Rightarrow> Inr (client2, False)))
           (\<lambda>(client2, queue2).
              if \<not> queue2 \<and> client2 then
                (case create of
                   Inr _ \<Rightarrow> Inr (client2, True)
                 | Inl e \<Rightarrow> if refresh_error e then Inr (client2, False) else Inl e)
              else Inr (client2, queue2)))"

text \<open>
  The recovery task recovers: after a failing ping that closes cleanly both handles are
  gone, and the next round with a Redis that answers restores both.
\<close>

lemma refresh_recovers:
  assumes "refresh_error e"
  shows "refresh_round (Inl e) (Inr ()) create (True, queue) = Inr (False, False)"
    "refresh_round (Inr ()) close (Inr ()) (False, False) = Inr (True, True)"
  using assms by (simp_all add: refresh_round_def store_stop_def store_start_def)

section \<open>An example\<close>

definition demo_boot :: boot_env where
  "demo_boot = \<lparr>bo_gliner = Inr (), bo_ping = Inr (), bo_reap = Inr 0, bo_audit = Inr (), bo_queue = Inl OSError\<rparr>"

definition gliner_settings :: settings where
  "gliner_settings = demo_settings\<lparr>detector_name := ''gliner2'', model_name := ''m'', model_revision := ''r''\<rparr>"

theorem started_as_configured_witness:
  "\<exists>st. start_app demo_verify_env gliner_settings demo_boot = Inr st \<and> as_ready st \<and> as_detector st = Gliner_active"
proof -
  have v: "verify demo_verify_env gliner_settings = Inr ()" by code_simp
  have "detector_name gliner_settings = ''gliner2''" "audit_backend gliner_settings = ''file''"
    by (simp_all add: gliner_settings_def demo_settings_def)
  then have "\<exists>st. start_app demo_verify_env gliner_settings demo_boot = Inr st"
    by (simp add: start_app_def v build_state_def load_detectors_def start_redis_def store_start_def demo_boot_def
        is_Exception_def)
  then obtain st where st: "start_app demo_verify_env gliner_settings demo_boot = Inr st" by blast
  have "detector_name gliner_settings = ''gliner2''" "bo_gliner demo_boot = Inr ()"
    by (simp_all add: gliner_settings_def demo_boot_def)
  with started_as_configured [OF st] st show ?thesis by blast
qed

text \<open>Production does not fall back to the regex detector.\<close>

lemma production_refuses_downgrade:
  assumes "deploy_env s = Prod" "detector_name s = ''gliner2''" "bo_gliner bo = Inl OSError"
  shows "build_state s bo = Inl RuntimeError"
  using assms by (simp add: build_state_def load_detectors_def gliner_failure_def is_os_error_def)

end
