(* ===== verification/BenchSpans.thy ===== *)
theory BenchSpans
  imports Prelude
begin

text \<open>
  \<open>app/bench/annotation.py\<close>: labelled spans of a benchmark document, the rule that a span
  is broken at every newline it encloses, and the normalisation of an annotation. A
  normalised annotation is sorted, free of duplicates and newlines, inside its document,
  covers for each category exactly the positions that were labelled (newlines apart), and
  is left unchanged by a second normalisation.
\<close>

section \<open>Labelled spans\<close>

datatype span_category = MANDATORY | CONTEXTUAL

text \<open>\<open>SpanCategory\<close> is a \<open>StrEnum\<close>: \<open>.value\<close> is its string, and categories are sorted by it.\<close>

fun category_value :: "span_category \<Rightarrow> string" where
  "category_value MANDATORY = ''mandatory''"
| "category_value CONTEXTUAL = ''contextual''"

instantiation span_category :: linorder
begin

definition less_eq_span_category :: "span_category \<Rightarrow> span_category \<Rightarrow> bool" where
  "a \<le> b \<longleftrightarrow> category_value a \<le> category_value b"

definition less_span_category :: "span_category \<Rightarrow> span_category \<Rightarrow> bool" where
  "a < b \<longleftrightarrow> category_value a < category_value b"

instance
proof
  fix a b :: span_category
  assume "a \<le> b" "b \<le> a"
  then show "a = b"
    by (cases a; cases b) (auto simp: less_eq_span_category_def)
qed (auto simp: less_eq_span_category_def less_span_category_def)

end

record labelled_span =
  ls_start :: int
  ls_end :: int
  ls_cat :: span_category

text \<open>The key \<open>(span.start, span.end, span.category)\<close> under which the code stores a span.\<close>

datatype span_key = SpanId int int span_category

definition span_id :: "labelled_span \<Rightarrow> span_key" where
  "span_id s = SpanId (ls_start s) (ls_end s) (ls_cat s)"

text \<open>The sort key \<open>(s.start, s.end, s.category.value)\<close>.\<close>

definition full_order :: "labelled_span \<Rightarrow> int \<times> int \<times> span_category" where
  "full_order s = (ls_start s, ls_end s, ls_cat s)"

lemma span_id_eq_iff [simp]: "span_id a = span_id b \<longleftrightarrow> a = b"
  by (cases a, cases b) (simp add: span_id_def)

lemma inj_span_id: "inj_on span_id A"
  by (simp add: inj_on_def)

text \<open>The positions of a span, and those of a list of spans.\<close>

definition span_chars :: "labelled_span \<Rightarrow> int set" where
  "span_chars s = {ls_start s..<ls_end s}"

definition chars_of :: "labelled_span list \<Rightarrow> int set" where
  "chars_of spans = (\<Union>s \<in> set spans. span_chars s)"

lemma chars_of_simps [simp]:
  "chars_of [] = {}"
  "chars_of (s # spans) = span_chars s \<union> chars_of spans"
  "chars_of (xs @ ys) = chars_of xs \<union> chars_of ys"
  by (auto simp: chars_of_def)

definition well_placed :: "int \<Rightarrow> labelled_span \<Rightarrow> bool" where
  "well_placed n s \<longleftrightarrow> 0 \<le> ls_start s \<and> ls_start s < ls_end s \<and> ls_end s \<le> n"

definition of_category :: "span_category \<Rightarrow> labelled_span list \<Rightarrow> labelled_span list" where
  "of_category c spans = filter (\<lambda>s. ls_cat s = c) spans"

definition mandatory :: "labelled_span list \<Rightarrow> labelled_span list" where
  "mandatory spans = filter (\<lambda>s. ls_cat s = MANDATORY) spans"

definition contextual :: "labelled_span list \<Rightarrow> labelled_span list" where
  "contextual spans = filter (\<lambda>s. ls_cat s = CONTEXTUAL) spans"

section \<open>\<open>str.find\<close> of one character in \<open>text[a:b]\<close>\<close>

fun index_of :: "'a \<Rightarrow> 'a list \<Rightarrow> nat option" where
  "index_of c [] = None"
| "index_of c (x # xs) = (if x = c then Some 0 else map_option Suc (index_of c xs))"

definition find_char :: "char \<Rightarrow> string \<Rightarrow> int \<Rightarrow> int \<Rightarrow> int" where
  "find_char c t a b =
     (case index_of c (py_slice a b t) of
        None \<Rightarrow> -1
      | Some i \<Rightarrow> py_clamp (length t) a + int i)"

lemma index_of_None: "index_of c xs = None \<longleftrightarrow> c \<notin> set xs"
  by (induction xs) auto

lemma index_of_Some:
  "index_of c xs = Some i \<longleftrightarrow> i < length xs \<and> xs ! i = c \<and> (\<forall>j < i. xs ! j \<noteq> c)"
proof (induction xs arbitrary: i)
  case (Cons x xs)
  then show ?case by (cases i) (auto simp: less_Suc_eq_0_disj nth_Cons')
qed simp

lemma index_of_slice_clamp:
  assumes "index_of c (py_slice a b t) = Some i"
  shows "a \<le> py_clamp (length t) a + int i"
proof -
  from assms have "py_slice a b t \<noteq> []" by auto
  then have "a < int (length t)"
    by (rule contrapos_np) (simp add: py_slice_def py_clamp_def Let_def)
  then show ?thesis by (auto simp: py_clamp_def)
qed

text \<open>In range: the first position of the character in \<open>[a, b)\<close>, or \<open>-1\<close>.\<close>

lemma nth_py_slice:
  assumes "0 \<le> a" "a \<le> b" "b \<le> int (length t)" "i < nat (b - a)"
  shows "py_slice a b t ! i = t ! nat (a + int i)"
  using assms by (simp add: py_slice_in_range nat_add_distrib)

lemma set_py_slice:
  assumes "0 \<le> a" "a \<le> b" "b \<le> int (length t)"
  shows "set (py_slice a b t) = {t ! nat p | p. a \<le> p \<and> p < b}"
proof -
  have "set (py_slice a b t) = {py_slice a b t ! i | i. i < nat (b - a)}"
    using assms by (simp add: set_conv_nth)
  also have "\<dots> = {t ! nat (a + int i) | i. i < nat (b - a)}"
    by (intro Collect_cong ex_cong1) (auto simp: nth_py_slice assms)
  also have "\<dots> = {t ! nat p | p. a \<le> p \<and> p < b}"
  proof safe
    fix p assume "a \<le> p" "p < b"
    then show "\<exists>i. t ! nat p = t ! nat (a + int i) \<and> i < nat (b - a)"
      by (intro exI [of _ "nat (p - a)"]) auto
  qed (use assms in auto)
  finally show ?thesis .
qed

lemma find_char_cases:
  assumes "0 \<le> a" "a \<le> b" "b \<le> int (length t)"
  obtains (none) "find_char c t a b = -1" "\<forall>p. a \<le> p \<and> p < b \<longrightarrow> t ! nat p \<noteq> c"
  | (found) q where "find_char c t a b = q" "a \<le> q" "q < b" "t ! nat q = c"
      "\<forall>p. a \<le> p \<and> p < q \<longrightarrow> t ! nat p \<noteq> c"
proof (cases "index_of c (py_slice a b t)")
  case None
  with assms show ?thesis
    using index_of_None [of c "py_slice a b t"]
    by (intro none) (auto simp: find_char_def set_py_slice)
next
  case (Some i)
  have clamp: "py_clamp (length t) a = a" using assms by (simp add: py_clamp_def)
  from Some have i: "i < nat (b - a)" "py_slice a b t ! i = c" "\<forall>j < i. py_slice a b t ! j \<noteq> c"
    using assms by (auto simp: index_of_Some)
  show ?thesis
  proof (rule found [of "a + int i"])
    show "\<forall>p. a \<le> p \<and> p < a + int i \<longrightarrow> t ! nat p \<noteq> c"
    proof (intro allI impI notI, elim conjE)
      fix p assume p: "t ! nat p = c" "a \<le> p" "p < a + int i"
      have "nat (p - a) < i" "nat (p - a) < nat (b - a)" "a + int (nat (p - a)) = p"
        using p(2,3) i(1) by linarith+
      then have "nat (p - a) < i" "py_slice a b t ! nat (p - a) = t ! nat p"
        using nth_py_slice [OF assms, of "nat (p - a)"] by simp_all
      with i(3) p(1) show False by metis
    qed
  qed (use Some clamp i assms in \<open>auto simp: find_char_def nth_py_slice\<close>)
qed

section \<open>\<open>split_on_newlines\<close>\<close>

abbreviation NL :: char where
  "NL \<equiv> CHR 0x0A"

function split_loop :: "string \<Rightarrow> span_category \<Rightarrow> int \<Rightarrow> int \<Rightarrow> labelled_span list" where
  "split_loop t c cursor e =
     (if cursor < e then
        (let next_nl = find_char NL t cursor e
         in if next_nl = -1 then [\<lparr>ls_start = cursor, ls_end = e, ls_cat = c\<rparr>]
            else (if next_nl > cursor then [\<lparr>ls_start = cursor, ls_end = next_nl, ls_cat = c\<rparr>] else [])
                 @ split_loop t c (next_nl + 1) e)
      else [])"
  by pat_completeness auto

lemma find_char_ge: "find_char c t a b \<noteq> -1 \<Longrightarrow> a \<le> find_char c t a b"
  by (auto simp: find_char_def split: option.splits dest: index_of_slice_clamp)

termination split_loop
proof (relation "measure (\<lambda>(t, c, cursor, e). nat (e - cursor))", goal_cases)
  case (2 t c cursor e next_nl)
  then show ?case using find_char_ge [of NL t cursor e] by auto
qed simp

declare split_loop.simps [simp del]

definition split_on_newlines :: "labelled_span \<Rightarrow> string \<Rightarrow> labelled_span list" where
  "split_on_newlines s t =
     (if NL \<notin> set (py_slice (ls_start s) (ls_end s) t) then [s]
      else split_loop t (ls_cat s) (ls_start s) (ls_end s))"

text \<open>The positions that remain when the newlines are taken out.\<close>

definition line_chars :: "string \<Rightarrow> int set \<Rightarrow> int set" where
  "line_chars t A = {p \<in> A. t ! nat p \<noteq> NL}"

lemma line_chars_union: "line_chars t (A \<union> B) = line_chars t A \<union> line_chars t B"
  by (auto simp: line_chars_def)

lemma line_chars_UN: "line_chars t (\<Union>x \<in> X. f x) = (\<Union>x \<in> X. line_chars t (f x))"
  by (auto simp: line_chars_def)

lemma line_chars_id: "line_chars t A = A \<longleftrightarrow> (\<forall>p \<in> A. t ! nat p \<noteq> NL)"
  unfolding line_chars_def by blast

lemma split_loop_pieces:
  assumes "0 \<le> a" "b \<le> int (length t)" "s \<in> set (split_loop t c a b)"
  shows "a \<le> ls_start s \<and> ls_start s < ls_end s \<and> ls_end s \<le> b \<and> ls_cat s = c
    \<and> line_chars t (span_chars s) = span_chars s"
  using assms
proof (induction t c a b rule: split_loop.induct)
  case (1 t c a b)
  from "1.prems"(3) have ab: "a < b" by (auto simp: split_loop.simps [of t c a b] split: if_splits)
  with "1.prems" have bounds: "0 \<le> a" "a \<le> b" "b \<le> int (length t)" by simp_all
  show ?case
  proof (cases rule: find_char_cases [OF bounds, of NL, case_names none found])
    case none
    with "1.prems"(3) ab have "s = \<lparr>ls_start = a, ls_end = b, ls_cat = c\<rparr>"
      by (simp add: split_loop.simps [of t c a b])
    with none ab show ?thesis by (auto simp: line_chars_def span_chars_def)
  next
    case (found q)
    with bounds have q: "q \<noteq> -1" "0 \<le> q + 1" by simp_all
    from "1.prems"(3) ab found q
    consider "q > a" "s = \<lparr>ls_start = a, ls_end = q, ls_cat = c\<rparr>"
      | "s \<in> set (split_loop t c (q + 1) b)"
      by (auto simp: split_loop.simps [of t c a b] split: if_splits)
    then show ?thesis
    proof cases
      case 1
      with found show ?thesis by (auto simp: line_chars_def span_chars_def)
    next
      case 2
      with "1.IH" [OF ab refl] found q bounds show ?thesis by auto
    qed
  qed
qed

lemma split_loop_chars:
  assumes "0 \<le> a" "b \<le> int (length t)"
  shows "chars_of (split_loop t c a b) = line_chars t {a..<b}"
  using assms
proof (induction t c a b rule: split_loop.induct)
  case (1 t c a b)
  show ?case
  proof (cases "a < b")
    case False
    then show ?thesis by (simp add: split_loop.simps [of t c a b] line_chars_def)
  next
    case ab: True
    with "1.prems" have bounds: "0 \<le> a" "a \<le> b" "b \<le> int (length t)" by simp_all
    show ?thesis
    proof (cases rule: find_char_cases [OF bounds, of NL, case_names none found])
      case none
      with ab show ?thesis
        by (auto simp: split_loop.simps [of t c a b] line_chars_def span_chars_def)
    next
      case (found q)
      with bounds have q: "q \<noteq> -1" "0 \<le> q + 1" by simp_all
      have "chars_of (split_loop t c a b) = {a..<q} \<union> chars_of (split_loop t c (q + 1) b)"
        using ab found q by (simp add: split_loop.simps [of t c a b] span_chars_def)
      also have "chars_of (split_loop t c (q + 1) b) = line_chars t {q + 1..<b}"
        using "1.IH" [OF ab refl] found q bounds by simp
      also have "{a..<q} = line_chars t {a..<q}"
        using found(5) by (auto simp: line_chars_def)
      also have "line_chars t {a..<q} \<union> line_chars t {q + 1..<b} = line_chars t {a..<b}"
      proof -
        have "{a..<b} = {a..<q} \<union> {q} \<union> {q + 1..<b}" using found(2,3) by auto
        moreover have "line_chars t {q} = {}" using found(4) by (auto simp: line_chars_def)
        ultimately show ?thesis by (simp only: line_chars_union) simp
      qed
      finally show ?thesis .
    qed
  qed
qed

lemma split_on_newlines_pieces:
  assumes "well_placed (int (length t)) s" "x \<in> set (split_on_newlines s t)"
  shows "well_placed (int (length t)) x \<and> ls_cat x = ls_cat s \<and> line_chars t (span_chars x) = span_chars x"
proof (cases "NL \<in> set (py_slice (ls_start s) (ls_end s) t)")
  case True
  with assms split_loop_pieces [of "ls_start s" "ls_end s" t x "ls_cat s"] show ?thesis
    by (auto simp: split_on_newlines_def well_placed_def)
next
  case False
  then have "\<forall>p. ls_start s \<le> p \<and> p < ls_end s \<longrightarrow> t ! nat p \<noteq> NL"
    using assms(1) set_py_slice [of "ls_start s" "ls_end s" t] by (fastforce simp: well_placed_def)
  with False assms show ?thesis
    by (auto simp: split_on_newlines_def line_chars_def span_chars_def)
qed

lemma split_on_newlines_chars:
  assumes "well_placed (int (length t)) s"
  shows "chars_of (split_on_newlines s t) = line_chars t (span_chars s)"
proof (cases "NL \<in> set (py_slice (ls_start s) (ls_end s) t)")
  case True
  with assms show ?thesis
    by (simp add: split_on_newlines_def split_loop_chars well_placed_def span_chars_def)
next
  case False
  with split_on_newlines_pieces [OF assms, of s] show ?thesis
    by (simp add: split_on_newlines_def)
qed

text \<open>A span that contains no newline is returned unchanged.\<close>

lemma split_on_newlines_id:
  assumes "well_placed (int (length t)) s" "line_chars t (span_chars s) = span_chars s"
  shows "split_on_newlines s t = [s]"
proof -
  from assms(2) have "\<forall>p. ls_start s \<le> p \<and> p < ls_end s \<longrightarrow> t ! nat p \<noteq> NL"
    by (simp add: line_chars_id span_chars_def)
  then have "NL \<notin> set (py_slice (ls_start s) (ls_end s) t)"
    using assms(1) set_py_slice [of "ls_start s" "ls_end s" t] by (fastforce simp: well_placed_def)
  then show ?thesis by (simp add: split_on_newlines_def)
qed

section \<open>\<open>normalize_spans\<close>\<close>

text \<open>One round of the inner loop: a piece whose key was seen is skipped.\<close>

definition add_piece ::
  "span_key list \<times> labelled_span list \<Rightarrow> labelled_span \<Rightarrow> span_key list \<times> labelled_span list" where
  "add_piece st piece =
     (case st of (seen, out) \<Rightarrow>
        if span_id piece \<in> set seen then (seen, out)
        else (span_id piece # seen, out @ [piece]))"

fun normalize_loop ::
  "string \<Rightarrow> int \<Rightarrow> labelled_span list \<Rightarrow> span_key list \<times> labelled_span list \<Rightarrow>
   (span_key list \<times> labelled_span list) res" where
  "normalize_loop t n [] st = Inr st"
| "normalize_loop t n (s # spans) st =
     (if ls_start s < 0 \<or> ls_end s > n \<or> ls_start s \<ge> ls_end s then Inl ValueError
      else normalize_loop t n spans (foldl add_piece st (split_on_newlines s t)))"

definition normalize_spans :: "labelled_span list \<Rightarrow> string \<Rightarrow> int \<Rightarrow> labelled_span list res" where
  "normalize_spans spans t n =
     map_res (\<lambda>(seen, out). sort_key full_order out) (normalize_loop t n spans ([], []))"

definition pieces_seen :: "span_key list \<times> labelled_span list \<Rightarrow> bool" where
  "pieces_seen st \<longleftrightarrow> set (fst st) = span_id ` set (snd st) \<and> distinct (snd st)"

lemma add_piece_seen:
  assumes "pieces_seen st"
  shows "pieces_seen (add_piece st x) \<and> set (snd (add_piece st x)) = insert x (set (snd st))"
  using assms by (auto simp: pieces_seen_def add_piece_def split: prod.splits)

lemma add_pieces_seen:
  assumes "pieces_seen st"
  shows "pieces_seen (foldl add_piece st xs) \<and> set (snd (foldl add_piece st xs)) = set (snd st) \<union> set xs"
  using assms
proof (induction xs arbitrary: st)
  case (Cons x xs)
  from Cons.IH [of "add_piece st x"] add_piece_seen [OF Cons.prems, of x] show ?case by simp
qed simp

lemma normalize_loop_seen:
  assumes "pieces_seen st" "normalize_loop t n spans st = Inr st'"
  shows "pieces_seen st' \<and> set (snd st') = set (snd st) \<union> (\<Union>s \<in> set spans. set (split_on_newlines s t))
    \<and> list_all (well_placed n) spans"
  using assms
proof (induction spans arbitrary: st)
  case (Cons s spans)
  from Cons.prems(2) have s: "well_placed n s"
    and rest: "normalize_loop t n spans (foldl add_piece st (split_on_newlines s t)) = Inr st'"
    by (auto simp: well_placed_def split: if_splits)
  from Cons.IH [OF conjunct1 [OF add_pieces_seen [OF Cons.prems(1)]] rest]
    add_pieces_seen [OF Cons.prems(1), of "split_on_newlines s t"] s
  show ?case by auto
qed simp

lemma normalize_loop_raises:
  "(\<exists>e. normalize_loop t n spans st = Inl e) \<longleftrightarrow> \<not> list_all (well_placed n) spans"
  by (induction spans arbitrary: st) (auto simp: well_placed_def)

text \<open>Pieces that are already split and distinct are collected as they come.\<close>

lemma normalize_loop_id:
  assumes "list_all (well_placed (int (length t))) spans" "distinct spans"
    and "\<forall>s \<in> set spans. split_on_newlines s t = [s]" "pieces_seen st" "set spans \<inter> set (snd st) = {}"
  shows "\<exists>seen. normalize_loop t (int (length t)) spans st = Inr (seen, snd st @ spans)"
  using assms
proof (induction spans arbitrary: st)
  case Nil
  then show ?case by (cases st) simp
next
  case (Cons s spans)
  have "add_piece st s = (span_id s # fst st, snd st @ [s])"
    using Cons.prems(4,5) by (auto simp: add_piece_def pieces_seen_def split: prod.splits)
  moreover have "pieces_seen (add_piece st s)" using add_piece_seen [OF Cons.prems(4)] by blast
  ultimately show ?case
    using Cons.IH [of "add_piece st s"] Cons.prems by (auto simp: well_placed_def)
qed

lemma normalize_spans_set:
  assumes "normalize_spans spans t n = Inr out"
  shows "set out = (\<Union>s \<in> set spans. set (split_on_newlines s t)) \<and> distinct out
    \<and> sorted (map full_order out) \<and> list_all (well_placed n) spans"
proof -
  from assms obtain seen xs where loop: "normalize_loop t n spans ([], []) = Inr (seen, xs)"
    and out: "out = sort_key full_order xs"
    by (auto simp: normalize_spans_def map_res_Inr_iff)
  have "pieces_seen ([], [])" by (simp add: pieces_seen_def)
  from normalize_loop_seen [OF this loop] out show ?thesis by (simp add: pieces_seen_def)
qed

lemma chars_of_category_split:
  assumes "list_all (well_placed (int (length t))) spans"
    and "set out = (\<Union>s \<in> set spans. set (split_on_newlines s t))"
  shows "chars_of (of_category c out) = line_chars t (chars_of (of_category c spans))"
proof -
  have cat: "ls_cat x = ls_cat s" if "s \<in> set spans" "x \<in> set (split_on_newlines s t)" for s x
    using split_on_newlines_pieces that assms(1) by (auto simp: list_all_iff)
  have "chars_of (of_category c out)
      = (\<Union>s \<in> set (of_category c spans). chars_of (split_on_newlines s t))"
    using assms(2) cat by (fastforce simp: chars_of_def of_category_def)
  also have "\<dots> = (\<Union>s \<in> set (of_category c spans). line_chars t (span_chars s))"
    using assms(1) by (intro SUP_cong) (auto simp: of_category_def list_all_iff split_on_newlines_chars)
  finally show ?thesis by (simp add: chars_of_def line_chars_UN)
qed

lemma normalize_spans_pieces:
  assumes "normalize_spans spans t (int (length t)) = Inr out" "x \<in> set out"
  shows "well_placed (int (length t)) x \<and> line_chars t (span_chars x) = span_chars x"
  using normalize_spans_set [OF assms(1)] split_on_newlines_pieces assms(2)
  by (auto simp: list_all_iff)

lemma normalize_spans_idem:
  assumes "normalize_spans spans t (int (length t)) = Inr out"
  shows "normalize_spans out t (int (length t)) = Inr out"
proof -
  note out = normalize_spans_set [OF assms] and pieces = normalize_spans_pieces [OF assms]
  have "list_all (well_placed (int (length t))) out" "\<forall>s \<in> set out. split_on_newlines s t = [s]"
    using pieces by (simp_all add: list_all_iff split_on_newlines_id)
  then have "\<exists>seen. normalize_loop t (int (length t)) out ([], []) = Inr (seen, out)"
    using out normalize_loop_id [of t out "([], [])"] by (simp add: pieces_seen_def)
  with out show ?thesis by (auto simp: normalize_spans_def sort_key_id_if_sorted)
qed

lemma normalize_spans_raises:
  "(\<exists>e. normalize_spans spans t n = Inl e) \<longleftrightarrow> \<not> list_all (well_placed n) spans"
  using normalize_loop_raises [of t n spans "([], [])"]
  by (simp add: normalize_spans_def map_res_Inl_iff)

section \<open>\<open>build_annotation\<close>\<close>

record annotation =
  an_doc_id :: string
  an_spans :: "labelled_span list"
  an_meta :: "(string \<times> string) list"

definition an_mandatory :: "annotation \<Rightarrow> labelled_span list" where
  "an_mandatory a = mandatory (an_spans a)"

definition an_contextual :: "annotation \<Rightarrow> labelled_span list" where
  "an_contextual a = contextual (an_spans a)"

record annotation_input =
  ai_doc_id :: string
  ai_spans :: "labelled_span list"
  ai_text :: string
  ai_meta :: "(string \<times> string) list"

definition build_annotation :: "annotation_input \<Rightarrow> annotation res" where
  "build_annotation inp =
     map_res (\<lambda>spans. \<lparr>an_doc_id = ai_doc_id inp, an_spans = spans, an_meta = ai_meta inp\<rparr>)
       (normalize_spans (ai_spans inp) (ai_text inp) (int (length (ai_text inp))))"

lemma build_annotation_spans:
  assumes "build_annotation inp = Inr a" "s \<in> set (an_spans a)"
  shows "well_placed (int (length (ai_text inp))) s"
  using assms normalize_spans_pieces
  by (auto simp: build_annotation_def map_res_Inr_iff)

section \<open>Property\<close>

text \<open>C36. A normalised annotation is sorted by start, end and category and free of duplicates;
  its spans are non-empty, lie inside the text and contain no newline; for each category it
  covers exactly the positions that were labelled with it, newlines apart; and normalising it
  again changes nothing.\<close>

theorem normalize_spans_correct:
  assumes "normalize_spans spans t (int (length t)) = Inr out"
  shows "sorted (map full_order out) \<and> distinct out
    \<and> list_all (well_placed (int (length t))) out
    \<and> (\<forall>c. chars_of (of_category c out) = line_chars t (chars_of (of_category c spans)))
    \<and> (\<forall>p \<in> chars_of out. t ! nat p \<noteq> NL)
    \<and> normalize_spans out t (int (length t)) = Inr out"
proof -
  have "\<forall>p \<in> chars_of out. t ! nat p \<noteq> NL"
    using normalize_spans_pieces [OF assms] line_chars_id by (fastforce simp: chars_of_def)
  with normalize_spans_set [OF assms] normalize_spans_pieces [OF assms]
    normalize_spans_idem [OF assms] chars_of_category_split [of t spans out]
  show ?thesis by (simp add: list_all_iff)
qed

definition two_lines :: string where
  "two_lines = ''ab'' @ [NL] @ ''cd''"

theorem normalize_spans_correct_witness:
  "normalize_spans [\<lparr>ls_start = 1, ls_end = 5, ls_cat = MANDATORY\<rparr>] two_lines 5
     = Inr [\<lparr>ls_start = 1, ls_end = 2, ls_cat = MANDATORY\<rparr>, \<lparr>ls_start = 3, ls_end = 5, ls_cat = MANDATORY\<rparr>]
   \<and> chars_of (of_category MANDATORY [\<lparr>ls_start = 1, ls_end = 2, ls_cat = MANDATORY\<rparr>,
        \<lparr>ls_start = 3, ls_end = 5, ls_cat = MANDATORY\<rparr>])
     = line_chars two_lines (chars_of (of_category MANDATORY [\<lparr>ls_start = 1, ls_end = 5, ls_cat = MANDATORY\<rparr>]))"
proof -
  have run: "normalize_spans [\<lparr>ls_start = 1, ls_end = 5, ls_cat = MANDATORY\<rparr>] two_lines 5
     = Inr [\<lparr>ls_start = 1, ls_end = 2, ls_cat = MANDATORY\<rparr>, \<lparr>ls_start = 3, ls_end = 5, ls_cat = MANDATORY\<rparr>]"
    by code_simp
  have "int (length two_lines) = 5" by code_simp
  with run normalize_spans_correct [of "[\<lparr>ls_start = 1, ls_end = 5, ls_cat = MANDATORY\<rparr>]" two_lines]
  show ?thesis by simp
qed

end
