(* ===== verification/Components.thy ===== *)
theory Components
  imports BenchSpans
begin

text \<open>
  The search for connected components that \<open>connected_components\<close> of
  \<open>app/bench/combinators.py\<close> and \<open>fused_entity_groups\<close> of \<open>app/bench/fusion.py\<close> share: a
  depth-first search with an explicit stack from every node that was not seen yet. The
  locale \<open>link_graph\<close> states what the search relies on (links are symmetric and lead to
  known spans); under it the search returns, and the groups are the classes of the spans
  that a chain of links connects. \<open>Combinators\<close> and \<open>Fusion\<close> interpret it on their graphs.
\<close>

section \<open>The inner loop\<close>

text \<open>
  The stack is a list with its top first: \<open>stack.append\<close> for each neighbour in order puts
  the last one on top. \<open>guard\<close> is the extra test on a neighbour before it is pushed. The
  lookup \<open>by_key[cur]\<close> raises \<open>KeyError\<close> for a key that is not there.
\<close>

function visit ::
  "('k \<Rightarrow> 'k list) \<Rightarrow> ('k \<Rightarrow> bool) \<Rightarrow> ('k \<times> 'v) list \<Rightarrow> 'k list \<Rightarrow> 'v list \<Rightarrow> 'k list \<Rightarrow>
   ('k list \<times> 'v list) res" where
  "visit adj guard by_key seen part [] = Inr (seen, part)"
| "visit adj guard by_key seen part (cur # stack) =
     (if cur \<in> set seen then visit adj guard by_key seen part stack
      else case map_of by_key cur of
             None \<Rightarrow> Inl KeyError
           | Some s \<Rightarrow>
               visit adj guard by_key (cur # seen) (part @ [s])
                 (rev (filter (\<lambda>n. n \<notin> set (cur # seen) \<and> guard n) (adj cur)) @ stack))"
  by pat_completeness auto

lemma length_filter_less:
  assumes "x \<in> set xs" "P x" "\<not> Q x" "\<And>y. Q y \<Longrightarrow> P y"
  shows "length (filter Q xs) < length (filter P xs)"
  using assms(1)
proof (induction xs)
  case (Cons y ys)
  have "length (filter Q ys) \<le> length (filter P ys)"
    using assms(4) by (induction ys) (auto simp: le_Suc_eq)
  with Cons assms(2-4) show ?case by (auto simp: le_Suc_eq less_Suc_eq_le)
qed simp

termination visit
proof (relation "measures [\<lambda>(adj, guard, by_key, seen, part, stack).
        length (filter (\<lambda>k. k \<notin> set seen) (map fst by_key)),
      \<lambda>(adj, guard, by_key, seen, part, stack). length stack]", goal_cases)
  case (3 adj guard by_key seen part cur stack s)
  have "cur \<in> set (map fst by_key)" using 3(2) by (force dest: map_of_SomeD)
  then have "length (filter (\<lambda>k. k \<notin> set (cur # seen)) (map fst by_key))
      < length (filter (\<lambda>k. k \<notin> set seen) (map fst by_key))"
    using 3(1) by (rule length_filter_less) auto
  then show ?case by simp
qed simp_all

text \<open>The links that the search follows.\<close>

definition links ::
  "('k \<Rightarrow> 'k list) \<Rightarrow> ('k \<Rightarrow> bool) \<Rightarrow> ('k \<times> 'v) list \<Rightarrow> ('k \<times> 'k) set" where
  "links adj guard by_key =
     {(a, b). map_of by_key a \<noteq> None \<and> b \<in> set (adj a) \<and> guard b}"

lemma visit_sound:
  assumes "visit adj guard by_key seen part stack = Inr (seen', part')"
  shows "\<exists>new. set seen' = set new \<union> set seen \<and> part' = part @ map (\<lambda>k. the (map_of by_key k)) new
    \<and> distinct new \<and> set new \<inter> set seen = {} \<and> set new \<subseteq> {k. map_of by_key k \<noteq> None}
    \<and> set new \<subseteq> (links adj guard by_key)\<^sup>* `` set stack"
  using assms
proof (induction adj guard by_key seen part stack rule: visit.induct)
  case (1 adj guard by_key seen part)
  then show ?case by (intro exI [of _ "[]"]) auto
next
  case (2 adj guard by_key seen part cur stack)
  let ?R = "links adj guard by_key"
  show ?case
  proof (cases "cur \<in> set seen")
    case True
    with "2.prems" have "visit adj guard by_key seen part stack = Inr (seen', part')" by simp
    from "2.IH"(1) [OF True this] show ?thesis by (elim ex_forward) auto
  next
    case False
    with "2.prems" obtain s where s: "map_of by_key cur = Some s"
      by (auto split: option.splits)
    let ?push = "rev (filter (\<lambda>n. n \<notin> set (cur # seen) \<and> guard n) (adj cur))"
    from "2.prems" False s
    have "visit adj guard by_key (cur # seen) (part @ [s]) (?push @ stack) = Inr (seen', part')"
      by simp
    from "2.IH"(2) [OF False s this] obtain new where
      new: "set seen' = set new \<union> set (cur # seen)"
      "part' = (part @ [s]) @ map (\<lambda>k. the (map_of by_key k)) new"
      "distinct new" "set new \<inter> set (cur # seen) = {}" "set new \<subseteq> {k. map_of by_key k \<noteq> None}"
      "set new \<subseteq> ?R\<^sup>* `` set (?push @ stack)"
      by blast
    have "set ?push \<subseteq> ?R `` {cur}" using s by (auto simp: links_def)
    then have "?R\<^sup>* `` set (?push @ stack) \<subseteq> ?R\<^sup>* `` set (cur # stack)"
      by (auto intro: converse_rtrancl_into_rtrancl)
    with new(6) have "set (cur # new) \<subseteq> ?R\<^sup>* `` set (cur # stack)" by auto
    with new s False show ?thesis by (intro exI [of _ "cur # new"]) auto
  qed
qed

lemma visit_closed:
  assumes "visit adj guard by_key seen part stack = Inr (seen', part')"
    and "links adj guard by_key `` set seen \<subseteq> set seen \<union> set stack"
  shows "links adj guard by_key `` set seen' \<subseteq> set seen' \<and> set seen \<union> set stack \<subseteq> set seen'"
  using assms
proof (induction adj guard by_key seen part stack rule: visit.induct)
  case (2 adj guard by_key seen part cur stack)
  show ?case
  proof (cases "cur \<in> set seen")
    case True
    with 2 show ?thesis by auto
  next
    case False
    with "2.prems" obtain s where s: "map_of by_key cur = Some s"
      by (auto split: option.splits)
    let ?push = "rev (filter (\<lambda>n. n \<notin> set (cur # seen) \<and> guard n) (adj cur))"
    from "2.prems" False s
    have run: "visit adj guard by_key (cur # seen) (part @ [s]) (?push @ stack) = Inr (seen', part')"
      by simp
    have "links adj guard by_key `` set (cur # seen) \<subseteq> set (cur # seen) \<union> set (?push @ stack)"
      using "2.prems"(2) by (auto simp: links_def)
    from "2.IH"(2) [OF False s run this] show ?thesis by auto
  qed
qed simp

lemma visit_total:
  assumes "links adj guard by_key `` UNIV \<subseteq> {k. map_of by_key k \<noteq> None}"
    and "set stack \<subseteq> {k. map_of by_key k \<noteq> None}"
  shows "\<exists>r. visit adj guard by_key seen part stack = Inr r"
  using assms
proof (induction adj guard by_key seen part stack rule: visit.induct)
  case (2 adj guard by_key seen part cur stack)
  then obtain s where s: "map_of by_key cur = Some s" by auto
  let ?push = "rev (filter (\<lambda>n. n \<notin> set (cur # seen) \<and> guard n) (adj cur))"
  have "set ?push \<subseteq> links adj guard by_key `` UNIV" using s by (auto simp: links_def)
  with 2 s have "set (?push @ stack) \<subseteq> {k. map_of by_key k \<noteq> None}" by auto
  with 2 s show ?case by (cases "cur \<in> set seen") simp_all
qed simp

section \<open>The outer loop\<close>

text \<open>
  Every key that was not seen starts a search; the spans that it finds, sorted by start and
  end, are a component. The components are sorted by the start of their first span.
\<close>

fun search ::
  "('v \<Rightarrow> 'o::linorder) \<Rightarrow> ('k \<Rightarrow> 'k list) \<Rightarrow> ('k \<Rightarrow> bool) \<Rightarrow> ('k \<times> 'v) list \<Rightarrow>
   'k list \<Rightarrow> 'k list \<Rightarrow> 'v list list \<Rightarrow> 'v list list res" where
  "search ord adj guard by_key [] seen comps = Inr comps"
| "search ord adj guard by_key (k # ks) seen comps =
     (if k \<in> set seen then search ord adj guard by_key ks seen comps
      else case visit adj guard by_key seen [] [k] of
             Inl e \<Rightarrow> Inl e
           | Inr (seen', part) \<Rightarrow>
               search ord adj guard by_key ks seen' (comps @ [sort_key ord part]))"

definition span_order :: "labelled_span \<Rightarrow> int \<times> int" where
  "span_order s = (ls_start s, ls_end s)"

definition sort_components :: "labelled_span list list \<Rightarrow> labelled_span list list" where
  "sort_components comps = sort_key (\<lambda>c. ls_start (hd c)) comps"

text \<open>
  The specification: non-empty groups without repetition that cover exactly the given
  spans, where a part holds with a span all those that a chain of links leads to, and no
  others.
\<close>

definition components_of ::
  "('v \<Rightarrow> 'k) \<Rightarrow> ('k \<times> 'k) set \<Rightarrow> 'v set \<Rightarrow> 'v list list \<Rightarrow> bool" where
  "components_of id_of R A comps \<longleftrightarrow>
     (\<forall>c \<in> set comps. c \<noteq> []) \<and> distinct (concat comps) \<and> set (concat comps) = A
     \<and> (\<forall>c \<in> set comps. \<forall>a \<in> set c. \<forall>b \<in> A. b \<in> set c \<longleftrightarrow> (id_of a, id_of b) \<in> R\<^sup>*)"

lemma components_of_sort: "components_of id_of R A (sort_components comps) \<longleftrightarrow> components_of id_of R A comps"
proof -
  have "mset (concat (sort_components comps)) = mset (concat comps)"
    by (simp add: mset_concat sort_components_def flip: sum_mset_sum_list)
  then have "distinct (concat (sort_components comps)) \<longleftrightarrow> distinct (concat comps)"
    by (rule mset_eq_imp_distinct_iff)
  then show ?thesis by (simp add: components_of_def sort_components_def)
qed

lemma components_of_add:
  assumes "components_of id_of R A comps" "part \<noteq> []" "distinct part" "set part = B" "A \<inter> B = {}"
    and "\<And>a b. a \<in> B \<Longrightarrow> b \<in> A \<union> B \<Longrightarrow> (id_of a, id_of b) \<in> R\<^sup>* \<longleftrightarrow> b \<in> B"
    and "\<And>a b. a \<in> A \<Longrightarrow> b \<in> B \<Longrightarrow> (id_of a, id_of b) \<notin> R\<^sup>*"
  shows "components_of id_of R (A \<union> B) (comps @ [part])"
proof -
  have cls: "\<forall>c \<in> set comps. \<forall>a \<in> set c. \<forall>b \<in> A. b \<in> set c \<longleftrightarrow> (id_of a, id_of b) \<in> R\<^sup>*"
    using assms(1) by (simp add: components_of_def)
  have sub: "set c \<subseteq> A" if "c \<in> set comps" for c using that assms(1) by (auto simp: components_of_def)
  have "\<forall>c \<in> set comps. \<forall>a \<in> set c. \<forall>b \<in> A \<union> B. b \<in> set c \<longleftrightarrow> (id_of a, id_of b) \<in> R\<^sup>*"
  proof (intro ballI)
    fix c a b assume *: "c \<in> set comps" "a \<in> set c" "b \<in> A \<union> B"
    then have "a \<in> A" using sub by blast
    show "b \<in> set c \<longleftrightarrow> (id_of a, id_of b) \<in> R\<^sup>*"
    proof (cases "b \<in> A")
      case True
      with * cls show ?thesis by blast
    next
      case False
      with *(3) have "b \<in> B" by simp
      with assms(7) [OF \<open>a \<in> A\<close> this] False sub [OF *(1)] show ?thesis by blast
    qed
  qed
  moreover have "\<forall>a \<in> set part. \<forall>b \<in> A \<union> B. b \<in> set part \<longleftrightarrow> (id_of a, id_of b) \<in> R\<^sup>*"
    using assms(4,6) by blast
  moreover have "distinct (concat (comps @ [part]))" "set (concat (comps @ [part])) = A \<union> B"
    using assms(1,3-5) by (auto simp: components_of_def)
  ultimately show ?thesis using assms(1,2) by (simp add: components_of_def)
qed

section \<open>The interface of the search\<close>

locale link_graph =
  fixes id_of :: "'v \<Rightarrow> 'k" and ord :: "'v \<Rightarrow> 'o::linorder"
    and adj :: "'k \<Rightarrow> 'k list" and guard :: "'k \<Rightarrow> bool" and by_key :: "('k \<times> 'v) list"
  assumes inj: "id_of s = id_of s' \<Longrightarrow> s = s'"
    and key: "map_of by_key k = Some s \<Longrightarrow> id_of s = k"
    and known: "(a, b) \<in> links adj guard by_key \<Longrightarrow> map_of by_key b \<noteq> None"
    and symmetric: "(a, b) \<in> links adj guard by_key \<Longrightarrow> (b, a) \<in> links adj guard by_key"
begin

abbreviation keys :: "'k set" where
  "keys \<equiv> {k. map_of by_key k \<noteq> None}"

abbreviation R :: "('k \<times> 'k) set" where
  "R \<equiv> links adj guard by_key"

lemma sym_star: "(a, b) \<in> R\<^sup>* \<Longrightarrow> (b, a) \<in> R\<^sup>*"
  using sym_rtrancl [of R] symmetric by (auto simp: sym_def)

lemma closed_star:
  assumes "R `` A \<subseteq> A" "a \<in> A" "(a, b) \<in> R\<^sup>*"
  shows "b \<in> A"
  using assms(3,2) by (induction rule: rtrancl_induct) (use assms(1) in auto)

text \<open>From a fresh key the inner loop finds exactly its class.\<close>

lemma visit_class:
  assumes "R `` set seen \<subseteq> set seen" "k \<notin> set seen" "k \<in> keys"
  obtains seen' part where "visit adj guard by_key seen [] [k] = Inr (seen', part)"
    "set seen' = R\<^sup>* `` {k} \<union> set seen" "R `` set seen' \<subseteq> set seen'" "R\<^sup>* `` {k} \<inter> set seen = {}"
    "R\<^sup>* `` {k} \<subseteq> keys" "distinct part" "set part = {s. id_of s \<in> R\<^sup>* `` {k}}"
proof -
  have "R `` UNIV \<subseteq> keys" using known by blast
  from visit_total [OF this, of "[k]" seen "[]"] assms(3)
  obtain seen' part where run: "visit adj guard by_key seen [] [k] = Inr (seen', part)" by auto
  from visit_sound [OF run] obtain new where new: "set seen' = set new \<union> set seen"
    "part = map (\<lambda>k. the (map_of by_key k)) new" "distinct new" "set new \<inter> set seen = {}"
    "set new \<subseteq> keys" "set new \<subseteq> R\<^sup>* `` {k}"
    by auto
  have closed: "R `` set seen' \<subseteq> set seen'" "k \<in> set seen'"
    using visit_closed [OF run] assms(1) by auto
  have disj: "R\<^sup>* `` {k} \<inter> set seen = {}"
    using closed_star [OF assms(1)] sym_star assms(2) by blast
  have "R\<^sup>* `` {k} \<subseteq> set seen'" using closed_star [OF closed] by blast
  with disj new(1,6) have cls: "set new = R\<^sup>* `` {k}" by blast
  have id_at: "id_of (the (map_of by_key x)) = x" if "x \<in> set new" for x
    using that new(5) key by auto
  have of_id: "the (map_of by_key (id_of s)) = s" if "id_of s \<in> set new" for s
    by (rule inj) (rule id_at [OF that])
  have "set part = {s. id_of s \<in> R\<^sup>* `` {k}}"
    unfolding cls [symmetric] new(2) using id_at of_id by (force simp: image_iff)
  moreover have "distinct part"
    unfolding new(2) using new(3) id_at by (simp add: distinct_map inj_on_def) metis
  ultimately show thesis
    using that [OF run _ closed(1) disj] new(1,5) cls by simp
qed

definition explored :: "'k list \<Rightarrow> 'v list list \<Rightarrow> bool" where
  "explored seen comps \<longleftrightarrow>
     set seen \<subseteq> keys \<and> R `` set seen \<subseteq> set seen \<and> components_of id_of R {s. id_of s \<in> set seen} comps"

lemma search_explored:
  assumes "explored seen comps" "set ks \<subseteq> keys"
  shows "\<exists>seen' comps'. search ord adj guard by_key ks seen comps = Inr comps' \<and> explored seen' comps'
    \<and> set ks \<union> set seen \<subseteq> set seen'"
  using assms
proof (induction ks arbitrary: seen comps)
  case (Cons k ks)
  show ?case
  proof (cases "k \<in> set seen")
    case True
    with Cons.IH [OF Cons.prems(1)] Cons.prems(2) show ?thesis by fastforce
  next
    case False
    from Cons.prems have closed: "R `` set seen \<subseteq> set seen" and "k \<in> keys"
      by (auto simp: explored_def)
    from visit_class [OF closed False this(2)] obtain seen' part where
      v: "visit adj guard by_key seen [] [k] = Inr (seen', part)"
      "set seen' = R\<^sup>* `` {k} \<union> set seen" "R `` set seen' \<subseteq> set seen'" "R\<^sup>* `` {k} \<inter> set seen = {}"
      "R\<^sup>* `` {k} \<subseteq> keys" "distinct part" "set part = {s. id_of s \<in> R\<^sup>* `` {k}}" .
    let ?A = "{s. id_of s \<in> set seen}" and ?B = "{s. id_of s \<in> R\<^sup>* `` {k}}"
    have "components_of id_of R (?A \<union> ?B) (comps @ [sort_key ord part])"
    proof (rule components_of_add)
      show "components_of id_of R ?A comps" using Cons.prems(1) by (simp add: explored_def)
      obtain s where "map_of by_key k = Some s" using \<open>k \<in> keys\<close> by blast
      with key have "s \<in> ?B" by auto
      with v(7) show "sort_key ord part \<noteq> []" by (metis empty_iff set_empty set_sort)
      show "(id_of a, id_of b) \<in> R\<^sup>* \<longleftrightarrow> b \<in> ?B" if "a \<in> ?B" for a b
        using that sym_star by (auto intro: rtrancl_trans)
      show "(id_of a, id_of b) \<notin> R\<^sup>*" if "a \<in> ?A" "b \<in> ?B" for a b
        using that closed_star [OF closed] v(4) by blast
    qed (use v in auto)
    moreover have "?A \<union> ?B = {s. id_of s \<in> set seen'}" using v(2) by blast
    ultimately have "explored seen' (comps @ [sort_key ord part])"
      using Cons.prems(1) v(2,3,5) by (simp add: explored_def)
    from Cons.IH [OF this] Cons.prems(2) obtain seen'' comps'' where
      "search ord adj guard by_key ks seen' (comps @ [sort_key ord part]) = Inr comps''"
      "explored seen'' comps''" "set ks \<union> set seen' \<subseteq> set seen''" by auto
    moreover have "k \<in> set seen'" using v(2) by blast
    ultimately show ?thesis using v(1,2) False by (intro exI [of _ seen''] exI [of _ comps'']) auto
  qed
qed auto

theorem search_correct:
  assumes "set ks = keys"
  shows "\<exists>comps. search ord adj guard by_key ks [] [] = Inr comps
    \<and> components_of id_of R (ran (map_of by_key)) comps"
proof -
  have "explored [] []" by (simp add: explored_def components_of_def)
  from search_explored [OF this, of ks] assms obtain seen' comps where
    run: "search ord adj guard by_key ks [] [] = Inr comps" and
    "explored seen' comps" "keys \<subseteq> set seen'" by auto
  moreover from this have "set seen' = keys" by (auto simp: explored_def)
  moreover have "{s. id_of s \<in> keys} = ran (map_of by_key)"
    using key inj by (fastforce simp: ran_def)
  ultimately show ?thesis by (simp add: explored_def)
qed

end

end
