(* ===== verification/Combinators.thy ===== *)
theory Combinators
  imports Components
begin

text \<open>
  \<open>app/bench/combinators.py\<close>: the connector structure of a document (Algorithm 1 of the
  benchmark). Characters between neighbouring spans give links in two graphs, a scan with a
  stack finds the matched delimiter pairs, and the connected components of the graphs are
  the fusion groups. The graphs are symmetric, so \<open>link_graph\<close> applies: the structure is
  always built, and its groups are the classes of linked spans. The delimiter pairs are
  matched, enclose a contextual span and no mandatory one, and are nested or disjoint.
\<close>

section \<open>Character classes\<close>

definition PUNCT :: string where
  "PUNCT = [CHR 0x5C, CHR 0x2F, CHR 0x40] @ ''[]{}()<>'' @ [CHR 0x22, CHR 0x27, CHR 0x60]"

definition LETTERS :: string where
  "LETTERS = ''abcdefghijklmnopqrstuvwxyzABCDEFGHIJKLMNOPQRSTUVWXYZ''"

definition DIGITS :: string where
  "DIGITS = ''0123456789''"

definition PAIRS :: "(char \<times> char) list" where
  "PAIRS =
     [(CHR ''('', CHR '')''), (CHR ''['', CHR '']''), (CHR ''{'', CHR ''}''),
      (CHR ''<'', CHR ''>''), (CHR 0x22, CHR 0x22), (CHR 0x27, CHR 0x27), (CHR 0x60, CHR 0x60)]"

definition SYMMETRIC :: string where
  "SYMMETRIC = [CHR 0x22, CHR 0x27, CHR 0x60]"

definition OPENERS :: string where
  "OPENERS = filter (\<lambda>c. c \<notin> set SYMMETRIC) (map fst PAIRS)"

definition CLOSERS :: string where
  "CLOSERS = filter (\<lambda>c. c \<notin> set SYMMETRIC) (map snd PAIRS)"

definition is_punct_char :: "char \<Rightarrow> bool" where
  "is_punct_char ch \<longleftrightarrow> ch \<notin> set PUNCT \<and> ch \<notin> set LETTERS \<and> ch \<notin> set DIGITS"

definition is_whitespace :: "char \<Rightarrow> bool" where
  "is_whitespace ch \<longleftrightarrow> ch = CHR '' '' \<or> ch = CHR 0x09"

definition span_text :: "string \<Rightarrow> labelled_span \<Rightarrow> string" where
  "span_text t s = py_slice (ls_start s) (ls_end s) t"

definition is_digit_only :: "string \<Rightarrow> labelled_span \<Rightarrow> bool" where
  "is_digit_only t s \<longleftrightarrow> list_all (\<lambda>c. c \<in> set DIGITS) (span_text t s)"

definition iter_neighbor_pairs ::
  "labelled_span list \<Rightarrow> (labelled_span \<times> labelled_span \<times> int \<times> int) list" where
  "iter_neighbor_pairs spans =
     (let ordered = sort_key span_order spans
      in map (\<lambda>(a, b). (a, b, ls_end a, ls_start b)) (zip ordered (tl ordered)))"

section \<open>Data\<close>

record pair_range =
  pr_o :: int
  pr_end :: int

record span_group =
  members :: "labelled_span list"

text \<open>\<open>SpanGroup.start\<close>; a group has at least one member.\<close>

definition sg_start :: "span_group \<Rightarrow> int" where
  "sg_start g = ls_start (hd (members g))"

record connector_structure =
  red_fusion_groups :: "span_group list"
  context_components :: "span_group list"
  pair_ranges :: "pair_range list"
  effective_markers :: string

section \<open>The graphs\<close>

type_synonym graph = "(span_key \<times> span_key list) list"

text \<open>\<open>graph.get(k, ())\<close> and \<open>graph.setdefault(a, []).append(b)\<close>.\<close>

definition neighbours :: "graph \<Rightarrow> span_key \<Rightarrow> span_key list" where
  "neighbours g k = dict_get g k []"

definition add_edge :: "span_key \<Rightarrow> span_key \<Rightarrow> graph \<Rightarrow> graph" where
  "add_edge a b g = AList.update a (neighbours g a @ [b]) g"

definition link_both :: "span_key \<Rightarrow> span_key \<Rightarrow> graph \<Rightarrow> graph" where
  "link_both a b g = add_edge b a (add_edge a b g)"

lemma neighbours_add_edge:
  "neighbours (add_edge a b g) k = (if k = a then neighbours g k @ [b] else neighbours g k)"
  by (simp add: neighbours_def add_edge_def dict_get_def)

lemma neighbours_link_both:
  "x \<in> set (neighbours (link_both a b g) k) \<longleftrightarrow>
   x \<in> set (neighbours g k) \<or> (k = a \<and> x = b) \<or> (k = b \<and> x = a)"
  by (auto simp: link_both_def neighbours_add_edge)

definition symmetric_graph :: "graph \<Rightarrow> bool" where
  "symmetric_graph g \<longleftrightarrow> (\<forall>a b. b \<in> set (neighbours g a) \<longrightarrow> a \<in> set (neighbours g b))"

lemma symmetric_graph_Nil [simp]: "symmetric_graph []"
  by (simp add: symmetric_graph_def neighbours_def dict_get_def)

lemma symmetric_graph_link_both: "symmetric_graph g \<Longrightarrow> symmetric_graph (link_both a b g)"
  unfolding symmetric_graph_def neighbours_link_both by blast

text \<open>The mutable arguments of \<open>red_edges\<close>: the two graphs and the list of markers.\<close>

record edge_state =
  yellow_graph :: graph
  red_graph :: graph
  markers :: string

definition link_yellow :: "span_key \<Rightarrow> span_key \<Rightarrow> edge_state \<Rightarrow> edge_state" where
  "link_yellow a b st = st\<lparr>yellow_graph := link_both a b (yellow_graph st)\<rparr>"

definition link_red :: "span_key \<Rightarrow> span_key \<Rightarrow> edge_state \<Rightarrow> edge_state" where
  "link_red a b st = st\<lparr>red_graph := link_both a b (red_graph st)\<rparr>"

definition add_markers :: "string \<Rightarrow> edge_state \<Rightarrow> edge_state" where
  "add_markers cs st = st\<lparr>markers := markers st @ cs\<rparr>"

definition red_edge_step ::
  "string \<Rightarrow> edge_state \<Rightarrow> labelled_span \<times> labelled_span \<times> int \<times> int \<Rightarrow> edge_state" where
  "red_edge_step t st p =
     (case p of (a, b, a_end, b_start) \<Rightarrow>
       let between = py_slice a_end b_start t;
           a_text = span_text t a;
           ka = span_id a;
           kb = span_id b
       in if between = [] then st
          else if hd between = CHR '' '' \<and> a_text \<noteq> [] \<and> last a_text \<in> set CLOSERS
          then add_markers [last a_text, hd between] (link_yellow ka kb st)
          else if length between = 1
          then (let ch = hd between
                in if is_punct_char ch
                   then add_markers [ch] (link_yellow ka kb (link_red ka kb st))
                   else if ch = CHR ''/'' \<and> is_digit_only t a \<and> is_digit_only t b
                   then add_markers [ch] (link_yellow ka kb st)
                   else st)
          else if length between = 2
          then (let d = between ! 0; w = between ! 1
                in if d \<in> set CLOSERS \<and> is_whitespace w
                   then add_markers [d, w] (link_yellow ka kb st)
                   else st)
          else st)"

definition red_edges :: "labelled_span list \<Rightarrow> edge_state \<Rightarrow> string \<Rightarrow> edge_state" where
  "red_edges spans st t = foldl (red_edge_step t) st (iter_neighbor_pairs spans)"

definition symmetric_state :: "edge_state \<Rightarrow> bool" where
  "symmetric_state st \<longleftrightarrow> symmetric_graph (yellow_graph st) \<and> symmetric_graph (red_graph st)"

lemma symmetric_red_edge_step: "symmetric_state st \<Longrightarrow> symmetric_state (red_edge_step t st p)"
  by (auto simp: symmetric_state_def red_edge_step_def link_yellow_def link_red_def add_markers_def
      Let_def symmetric_graph_link_both split: prod.splits)

lemma symmetric_red_edges: "symmetric_state st \<Longrightarrow> symmetric_state (red_edges spans st t)"
proof -
  have "symmetric_state st \<Longrightarrow> symmetric_state (foldl (red_edge_step t) st ps)" for ps
    by (induction ps arbitrary: st) (simp_all add: symmetric_red_edge_step)
  then show "symmetric_state st \<Longrightarrow> ?thesis" by (simp add: red_edges_def)
qed

section \<open>\<open>connected_components\<close>\<close>

text \<open>\<open>{(n.start, n.end, n.category): n for n in nodes}\<close>\<close>

definition key_dict :: "labelled_span list \<Rightarrow> (span_key \<times> labelled_span) list" where
  "key_dict nodes = foldl (\<lambda>d n. AList.update (span_id n) n d) [] nodes"

lemma map_of_key_dict:
  "map_of (key_dict nodes) k = Some s \<longleftrightarrow> s \<in> set nodes \<and> span_id s = k"
proof -
  have "map_of (foldl (\<lambda>d n. AList.update (span_id n) n d) d nodes) k = Some s
    \<longleftrightarrow> (s \<in> set nodes \<and> span_id s = k)
      \<or> (k \<notin> span_id ` set nodes \<and> map_of d k = Some s)" for d
    by (induction nodes arbitrary: d) auto
  from this [of "[]"] show ?thesis by (simp add: key_dict_def)
qed

lemma key_dict_keys: "map_of (key_dict nodes) k \<noteq> None \<longleftrightarrow> k \<in> span_id ` set nodes"
  using map_of_key_dict [of nodes k] by fastforce

lemma ran_key_dict: "ran (map_of (key_dict nodes)) = set nodes"
  unfolding ran_def map_of_key_dict by blast

definition connected_components :: "labelled_span list \<Rightarrow> graph \<Rightarrow> span_group list res" where
  "connected_components nodes g =
     (let by_key = key_dict nodes
      in if nodes = [] then Inr []
         else map_res (\<lambda>comps. map (\<lambda>c. \<lparr>members = c\<rparr>) (sort_components comps))
           (search span_order (neighbours g) (\<lambda>k. map_of by_key k \<noteq> None) by_key
             (map span_id nodes) [] []))"

text \<open>Two nodes are linked when one is in the list of the other.\<close>

definition linked :: "graph \<Rightarrow> labelled_span list \<Rightarrow> (span_key \<times> span_key) set" where
  "linked g nodes =
     {(a, b). a \<in> span_id ` set nodes \<and> b \<in> span_id ` set nodes \<and> b \<in> set (neighbours g a)}"

lemma links_key_dict:
  "links (neighbours g) (\<lambda>k. map_of (key_dict nodes) k \<noteq> None) (key_dict nodes) = linked g nodes"
  unfolding links_def linked_def key_dict_keys by blast

lemma link_graph_connectors:
  assumes "symmetric_graph g"
  shows "link_graph span_id (neighbours g) (\<lambda>k. map_of (key_dict nodes) k \<noteq> None) (key_dict nodes)"
proof (unfold_locales, unfold links_key_dict)
  show "(b, a) \<in> linked g nodes" if "(a, b) \<in> linked g nodes" for a b
    using that assms unfolding linked_def symmetric_graph_def by blast
  show "map_of (key_dict nodes) b \<noteq> None" if "(a, b) \<in> linked g nodes" for a b
    using that unfolding linked_def key_dict_keys by blast
qed (simp_all add: map_of_key_dict)

text \<open>What a successful grouping of the nodes is.\<close>

definition groups_of :: "graph \<Rightarrow> labelled_span list \<Rightarrow> span_group list \<Rightarrow> bool" where
  "groups_of g nodes groups \<longleftrightarrow>
     components_of span_id (linked g nodes) (set nodes) (map members groups)
     \<and> sorted (map sg_start groups)"

lemma connected_components_groups:
  assumes "search span_order (neighbours g) (\<lambda>k. map_of (key_dict nodes) k \<noteq> None) (key_dict nodes)
      (map span_id nodes) [] [] = Inr comps"
    and comps: "components_of span_id (linked g nodes) (set nodes) comps"
  shows "\<exists>groups. connected_components nodes g = Inr groups \<and> groups_of g nodes groups"
proof (cases "nodes = []")
  case True
  then show ?thesis by (simp add: connected_components_def groups_of_def components_of_def)
next
  case False
  let ?groups = "map (\<lambda>c. \<lparr>members = c\<rparr>) (sort_components comps)"
  have "map sg_start ?groups = map (\<lambda>c. ls_start (hd c)) (sort_components comps)"
    by (simp add: sg_start_def o_def)
  moreover have "sorted (map (\<lambda>c. ls_start (hd c)) (sort_components comps))"
    by (simp add: sort_components_def)
  ultimately have "sorted (map sg_start ?groups)" by (simp only:)
  moreover have "map members ?groups = sort_components comps" by (simp add: o_def)
  ultimately show ?thesis
    using False assms by (simp add: connected_components_def groups_of_def components_of_sort)
qed

section \<open>Matched delimiters\<close>

definition overlaps_yellow :: "labelled_span list \<Rightarrow> int \<Rightarrow> int \<Rightarrow> bool" where
  "overlaps_yellow yellow_spans p l_end \<longleftrightarrow>
     list_ex (\<lambda>s. ls_start s < l_end + 1 \<and> ls_end s > p) yellow_spans"

definition crosses_red :: "labelled_span list \<Rightarrow> int \<Rightarrow> int \<Rightarrow> bool" where
  "crosses_red spans p l_end \<longleftrightarrow>
     list_ex (\<lambda>s. ls_cat s = MANDATORY \<and> ls_start s \<ge> p \<and> ls_end s \<le> l_end + 1) spans"

text \<open>
  The state of the scan: the stack of opening positions, top first, the ranges found and the
  markers. A position on the stack was taken from the text, so \<open>text[pos]\<close> does not raise;
  its character is a key of \<open>PAIRS\<close>.
\<close>

record scan_state =
  sc_stack :: "nat list"
  accumulated :: "pair_range list"
  pair_markers :: string

definition record_pair :: "nat \<Rightarrow> nat \<Rightarrow> string \<Rightarrow> scan_state \<Rightarrow> scan_state" where
  "record_pair p i cs st =
     st\<lparr>accumulated := accumulated st @ [\<lparr>pr_o = int p, pr_end = int i\<rparr>],
       pair_markers := pair_markers st @ cs\<rparr>"

definition scan_step ::
  "labelled_span list \<Rightarrow> labelled_span list \<Rightarrow> string \<Rightarrow> nat \<Rightarrow> char \<Rightarrow> scan_state \<Rightarrow> scan_state" where
  "scan_step spans yellow_spans t i ch st =
     (if ch \<in> set SYMMETRIC then
        (if sc_stack st \<noteq> [] \<and> t ! hd (sc_stack st) = ch then
           (let opener_pos = hd (sc_stack st); st1 = st\<lparr>sc_stack := tl (sc_stack st)\<rparr>
            in if overlaps_yellow yellow_spans (int opener_pos) (int i)
                 \<and> \<not> crosses_red spans (int opener_pos) (int i)
               then record_pair opener_pos i [ch, ch] st1 else st1)
         else st\<lparr>sc_stack := i # sc_stack st\<rparr>)
      else if ch \<in> set OPENERS then st\<lparr>sc_stack := i # sc_stack st\<rparr>
      else if ch \<in> set CLOSERS then
        (if sc_stack st = [] then st
         else let opener_pos = hd (sc_stack st); st1 = st\<lparr>sc_stack := tl (sc_stack st)\<rparr>;
                  opener_ch = t ! opener_pos
              in if Some ch \<noteq> map_of PAIRS opener_ch then st1
                 else if \<not> overlaps_yellow yellow_spans (int opener_pos) (int i) then st1
                 else if crosses_red spans (int opener_pos) (int i) then st1
                 else record_pair opener_pos i [opener_ch, ch] st1)
      else st)"

fun scan_text ::
  "labelled_span list \<Rightarrow> labelled_span list \<Rightarrow> string \<Rightarrow> nat \<Rightarrow> string \<Rightarrow> scan_state \<Rightarrow> scan_state" where
  "scan_text spans yellow_spans t i [] st = st"
| "scan_text spans yellow_spans t i (ch # rest) st =
     scan_text spans yellow_spans t (Suc i) rest (scan_step spans yellow_spans t i ch st)"

definition find_pair_ranges ::
  "labelled_span list \<Rightarrow> labelled_span list \<Rightarrow> string \<Rightarrow> pair_range list \<times> string" where
  "find_pair_ranges spans yellow_spans t =
     (if yellow_spans = [] then ([], [])
      else let st = scan_text spans yellow_spans t 0 t
                 \<lparr>sc_stack = [], accumulated = [], pair_markers = []\<rparr>
           in (accumulated st, pair_markers st))"

text \<open>A range that may be recorded, and ranges that do not cross.\<close>

definition good_range ::
  "labelled_span list \<Rightarrow> labelled_span list \<Rightarrow> string \<Rightarrow> pair_range \<Rightarrow> bool" where
  "good_range spans yellow_spans t p \<longleftrightarrow>
     0 \<le> pr_o p \<and> pr_o p < pr_end p \<and> pr_end p < int (length t)
     \<and> map_of PAIRS (t ! nat (pr_o p)) = Some (t ! nat (pr_end p))
     \<and> overlaps_yellow yellow_spans (pr_o p) (pr_end p) \<and> \<not> crosses_red spans (pr_o p) (pr_end p)"

definition non_crossing :: "pair_range \<Rightarrow> pair_range \<Rightarrow> bool" where
  "non_crossing p q \<longleftrightarrow>
     pr_end p < pr_o q \<or> pr_end q < pr_o p
     \<or> (pr_o p < pr_o q \<and> pr_end q < pr_end p) \<or> (pr_o q < pr_o p \<and> pr_end p < pr_end q)"

text \<open>
  The invariant of the scan before position \<open>i\<close>: the stack holds opening positions below
  \<open>i\<close> with the latest on top, and no recorded range reaches over one of them.
\<close>

definition scan_inv ::
  "labelled_span list \<Rightarrow> labelled_span list \<Rightarrow> string \<Rightarrow> nat \<Rightarrow> scan_state \<Rightarrow> bool" where
  "scan_inv spans yellow_spans t i st \<longleftrightarrow>
     sorted_wrt (>) (sc_stack st)
     \<and> (\<forall>q \<in> set (sc_stack st). q < i \<and> t ! q \<in> set (OPENERS @ SYMMETRIC))
     \<and> (\<forall>p \<in> set (accumulated st). good_range spans yellow_spans t p \<and> pr_end p < int i
          \<and> (\<forall>q \<in> set (sc_stack st). int q < pr_o p \<or> pr_end p < int q))
     \<and> sorted_wrt non_crossing (accumulated st)"

lemma scan_inv_push:
  assumes "scan_inv spans yellow_spans t i st" "t ! i \<in> set (OPENERS @ SYMMETRIC)"
  shows "scan_inv spans yellow_spans t (Suc i) (st\<lparr>sc_stack := i # sc_stack st\<rparr>)"
  using assms unfolding scan_inv_def by (fastforce simp: less_Suc_eq)

lemma scan_inv_next: "scan_inv spans yellow_spans t i st \<Longrightarrow> scan_inv spans yellow_spans t (Suc i) st"
  unfolding scan_inv_def by (fastforce simp: less_Suc_eq)

lemma scan_inv_pop:
  assumes "scan_inv spans yellow_spans t i st"
  shows "scan_inv spans yellow_spans t i (st\<lparr>sc_stack := tl (sc_stack st)\<rparr>)"
  using assms by (cases "sc_stack st") (auto simp: scan_inv_def)

lemma scan_inv_record:
  assumes "scan_inv spans yellow_spans t i st" "sc_stack st = p # rest"
    and "good_range spans yellow_spans t \<lparr>pr_o = int p, pr_end = int i\<rparr>"
  shows "scan_inv spans yellow_spans t (Suc i) (record_pair p i cs (st\<lparr>sc_stack := rest\<rparr>))"
proof -
  have "non_crossing q \<lparr>pr_o = int p, pr_end = int i\<rparr>" if "q \<in> set (accumulated st)" for q
    using assms(1,2) that by (auto simp: scan_inv_def non_crossing_def)
  with assms show ?thesis
    by (auto simp: scan_inv_def record_pair_def sorted_wrt_append less_Suc_eq)
qed

lemma PAIRS_symmetric: "ch \<in> set SYMMETRIC \<Longrightarrow> map_of PAIRS ch = Some ch"
  by (auto simp: SYMMETRIC_def PAIRS_def)

lemma scan_inv_close:
  assumes inv: "scan_inv spans yellow_spans t i st" and st: "sc_stack st = p # rest"
    and "i < length t" "map_of PAIRS (t ! p) = Some (t ! i)"
    and "overlaps_yellow yellow_spans (int p) (int i)" "\<not> crosses_red spans (int p) (int i)"
  shows "scan_inv spans yellow_spans t (Suc i) (record_pair p i cs (st\<lparr>sc_stack := rest\<rparr>))"
proof (rule scan_inv_record [OF inv st])
  have "p < i" using inv st by (simp add: scan_inv_def)
  with assms(3-6) show "good_range spans yellow_spans t \<lparr>pr_o = int p, pr_end = int i\<rparr>"
    by (simp add: good_range_def)
qed

lemma scan_step_inv:
  assumes inv: "scan_inv spans yellow_spans t i st" and "i < length t"
  shows "scan_inv spans yellow_spans t (Suc i) (scan_step spans yellow_spans t i (t ! i) st)"
proof -
  note stay = scan_inv_next [OF inv] and pop = scan_inv_next [OF scan_inv_pop [OF inv]]
    and push = scan_inv_push [OF inv]
  show ?thesis
  proof (cases "sc_stack st")
    case Nil
    with stay push show ?thesis by (simp add: scan_step_def)
  next
    case (Cons p rest)
    with pop have pop': "scan_inv spans yellow_spans t (Suc i) (st\<lparr>sc_stack := rest\<rparr>)" by simp
    note close = scan_inv_close [OF inv Cons assms(2)]
    show ?thesis
    proof (cases "t ! i \<in> set SYMMETRIC")
      case True
      with PAIRS_symmetric [OF True] Cons pop' push close show ?thesis
        by (simp add: scan_step_def Let_def)
    next
      case False
      with Cons pop' push stay close show ?thesis by (simp add: scan_step_def Let_def)
    qed
  qed
qed

lemma scan_text_inv:
  assumes "scan_inv spans yellow_spans t i st" "t = take i t @ rest" "i + length rest = length t"
  shows "scan_inv spans yellow_spans t (length t) (scan_text spans yellow_spans t i rest st)"
  using assms
proof (induction rest arbitrary: i st)
  case (Cons ch rest)
  have i: "i < length t" using Cons.prems(3) by simp
  have "t ! i = (take i t @ ch # rest) ! i" using Cons.prems(2) by simp
  then have ch: "ch = t ! i" using i by (simp add: nth_append)
  then have "t = take (Suc i) t @ rest"
    using Cons.prems(2) i by (simp add: take_Suc_conv_app_nth)
  from Cons.IH [OF scan_step_inv [OF Cons.prems(1) i] this] Cons.prems(3) ch show ?case by simp
qed simp

lemma find_pair_ranges_inv:
  assumes "find_pair_ranges spans yellow_spans t = (ranges, ms)"
  shows "(\<forall>p \<in> set ranges. good_range spans yellow_spans t p) \<and> sorted_wrt non_crossing ranges"
proof -
  have "scan_inv spans yellow_spans t 0 \<lparr>sc_stack = [], accumulated = [], pair_markers = []\<rparr>"
    by (simp add: scan_inv_def)
  from scan_text_inv [OF this, of t] assms show ?thesis
    by (auto simp: find_pair_ranges_def Let_def scan_inv_def split: if_splits)
qed

section \<open>\<open>build_connector_structure\<close>\<close>

definition connector_edges ::
  "string \<Rightarrow> labelled_span list \<Rightarrow> labelled_span list \<Rightarrow> edge_state" where
  "connector_edges t red yellow =
     red_edges (red @ yellow) \<lparr>yellow_graph = [], red_graph = [], markers = []\<rparr> t"

definition build_connector_structure ::
  "string \<Rightarrow> labelled_span list \<Rightarrow> labelled_span list \<Rightarrow> connector_structure res" where
  "build_connector_structure t red yellow =
     (let edges = connector_edges t red yellow;
          (found_pairs, more_markers) = find_pair_ranges (red @ yellow) yellow t
      in bind_res (connected_components red (red_graph edges)) (\<lambda>red_groups.
           map_res (\<lambda>context_comps.
              \<lparr>red_fusion_groups = red_groups, context_components = context_comps,
               pair_ranges = found_pairs, effective_markers = markers edges @ more_markers\<rparr>)
             (connected_components yellow (yellow_graph edges))))"

lemma symmetric_connector_edges:
  "symmetric_graph (yellow_graph (connector_edges t red yellow))"
  "symmetric_graph (red_graph (connector_edges t red yellow))"
  using symmetric_red_edges [of "\<lparr>yellow_graph = [], red_graph = [], markers = []\<rparr>" "red @ yellow" t]
  by (simp_all add: connector_edges_def symmetric_state_def)

interpretation red_links: link_graph span_id span_order
    "neighbours (red_graph (connector_edges t red yellow))"
    "\<lambda>k. map_of (key_dict red) k \<noteq> None" "key_dict red" for t red yellow
  by (rule link_graph_connectors) (rule symmetric_connector_edges)

interpretation yellow_links: link_graph span_id span_order
    "neighbours (yellow_graph (connector_edges t red yellow))"
    "\<lambda>k. map_of (key_dict yellow) k \<noteq> None" "key_dict yellow" for t red yellow
  by (rule link_graph_connectors) (rule symmetric_connector_edges)

text \<open>The relation between the arguments and the structure that is built from them.\<close>

definition structure_of ::
  "string \<Rightarrow> labelled_span list \<Rightarrow> labelled_span list \<Rightarrow> connector_structure \<Rightarrow> bool" where
  "structure_of t red yellow cs \<longleftrightarrow>
     groups_of (red_graph (connector_edges t red yellow)) red (red_fusion_groups cs)
     \<and> groups_of (yellow_graph (connector_edges t red yellow)) yellow (context_components cs)
     \<and> (\<forall>p \<in> set (pair_ranges cs). good_range (red @ yellow) yellow t p)
     \<and> sorted_wrt non_crossing (pair_ranges cs)"

theorem build_connector_structure_correct:
  "\<exists>cs. build_connector_structure t red yellow = Inr cs \<and> structure_of t red yellow cs"
proof -
  have ks: "set (map span_id nodes) = {k. map_of (key_dict nodes) k \<noteq> None}" for nodes
    unfolding key_dict_keys by simp
  obtain red_groups where
    "connected_components red (red_graph (connector_edges t red yellow)) = Inr red_groups"
    "groups_of (red_graph (connector_edges t red yellow)) red red_groups"
    using red_links.search_correct [OF ks] connected_components_groups
    unfolding links_key_dict ran_key_dict by blast
  moreover obtain groups where
    "connected_components yellow (yellow_graph (connector_edges t red yellow)) = Inr groups"
    "groups_of (yellow_graph (connector_edges t red yellow)) yellow groups"
    using yellow_links.search_correct [OF ks] connected_components_groups
    unfolding links_key_dict ran_key_dict by blast
  moreover obtain ranges ms where "find_pair_ranges (red @ yellow) yellow t = (ranges, ms)"
    by (cases "find_pair_ranges (red @ yellow) yellow t") simp
  moreover note find_pair_ranges_inv [OF this]
  ultimately show ?thesis by (simp add: build_connector_structure_def structure_of_def)
qed

section \<open>Property\<close>

text \<open>C37. The connector structure is built for every text and spans, without an exception. Its
  red fusion groups are the classes of mandatory spans that a chain of red links connects,
  its context components those of contextual spans under the yellow links, each span in
  exactly one group; every recorded pair range is a matched pair of delimiters in the text
  that overlaps a contextual span and contains no mandatory one, and any two ranges are
  disjoint or properly nested.\<close>

theorem connector_groups:
  "\<exists>cs. build_connector_structure t red yellow = Inr cs
    \<and> components_of span_id (linked (red_graph (connector_edges t red yellow)) red) (set red)
        (map members (red_fusion_groups cs))
    \<and> components_of span_id (linked (yellow_graph (connector_edges t red yellow)) yellow) (set yellow)
        (map members (context_components cs))
    \<and> (\<forall>p \<in> set (pair_ranges cs).
         0 \<le> pr_o p \<and> pr_o p < pr_end p \<and> pr_end p < int (length t)
         \<and> map_of PAIRS (t ! nat (pr_o p)) = Some (t ! nat (pr_end p))
         \<and> overlaps_yellow yellow (pr_o p) (pr_end p)
         \<and> \<not> crosses_red (red @ yellow) (pr_o p) (pr_end p))
    \<and> sorted_wrt non_crossing (pair_ranges cs)"
  using build_connector_structure_correct [of t red yellow]
  by (elim ex_forward) (simp add: structure_of_def groups_of_def good_range_def)

text \<open>A document with a delimiter pair and two fused groups.\<close>

definition fused_red :: "labelled_span list" where
  "fused_red = map (\<lambda>i. \<lparr>ls_start = i, ls_end = i + 1, ls_cat = MANDATORY\<rparr>) [4, 6, 9]"

definition paren_yellow :: "labelled_span list" where
  "paren_yellow = [\<lparr>ls_start = 1, ls_end = 2, ls_cat = CONTEXTUAL\<rparr>]"

theorem connector_groups_witness:
  "\<exists>cs. build_connector_structure ''(x) a.b c'' fused_red paren_yellow = Inr cs
    \<and> map (map ls_start \<circ> members) (red_fusion_groups cs) = [[4, 6], [9]]
    \<and> pair_ranges cs = [\<lparr>pr_o = 0, pr_end = 2\<rparr>]
    \<and> components_of span_id (linked (red_graph (connector_edges ''(x) a.b c'' fused_red paren_yellow)) fused_red)
        (set fused_red) (map members (red_fusion_groups cs))"
proof -
  have "map_res (\<lambda>cs. (map (map ls_start \<circ> members) (red_fusion_groups cs), pair_ranges cs))
      (build_connector_structure ''(x) a.b c'' fused_red paren_yellow)
    = Inr ([[4, 6], [9]], [\<lparr>pr_o = 0, pr_end = 2\<rparr>])" by code_simp
  moreover obtain cs where "build_connector_structure ''(x) a.b c'' fused_red paren_yellow = Inr cs"
    "components_of span_id (linked (red_graph (connector_edges ''(x) a.b c'' fused_red paren_yellow)) fused_red)
        (set fused_red) (map members (red_fusion_groups cs))"
    using connector_groups [of "''(x) a.b c''" fused_red paren_yellow] by blast
  ultimately show ?thesis by simp
qed

end
