(* ===== verification/Fusion.thy ===== *)
theory Fusion
  imports Combinators
begin

text \<open>
  \<open>app/bench/fusion.py\<close> (Algorithm 2 of the benchmark): which contextual spans a prediction
  attempts, and the entities over which the score is taken. The test for a hit by binary
  search is right for overlapping predictions too; the propagation ends and computes the
  least set that contains the hits and is closed under the two rules; the contextual
  entities are the classes of linked spans without the lone markers.
\<close>

section \<open>\<open>intersect\<close>\<close>

definition intersect :: "labelled_span \<Rightarrow> int list \<Rightarrow> int list \<Rightarrow> bool" where
  "intersect s pred_starts pred_ends =
     (if pred_starts = [] then False
      else let idx = bisect_right pred_ends (ls_start s)
           in if idx \<ge> length pred_starts then False else pred_starts ! idx < ls_end s)"

text \<open>The specification: some prediction shares a position with the span.\<close>

definition hit_by :: "labelled_span list \<Rightarrow> labelled_span \<Rightarrow> bool" where
  "hit_by preds s \<longleftrightarrow> list_ex (\<lambda>p. ls_start p < ls_end s \<and> ls_start s < ls_end p) preds"

lemma sorted_takeWhile_filter:
  "sorted xs \<Longrightarrow> length (takeWhile (\<lambda>y. y \<le> (x::'a::linorder)) xs) = length (filter (\<lambda>y. y \<le> x) xs)"
  by (induction xs) (auto simp: filter_empty_conv)

lemma sorted_nth_less_iff:
  "sorted xs \<Longrightarrow> (i < length xs \<and> xs ! i < (e::'a::linorder)) \<longleftrightarrow> i < length (filter (\<lambda>x. x < e) xs)"
proof (induction xs arbitrary: i)
  case (Cons x xs)
  have "filter (\<lambda>y. y < e) xs = []" if "\<not> x < e"
    using that Cons.prems by (auto simp: filter_empty_conv)
  with Cons show ?case by (cases i) (auto dest: nth_mem)
qed simp

lemma length_filter_sort: "length (filter P (sort xs)) = length (filter P xs)"
  by (metis mset_filter mset_sort size_mset)

lemma intersect_correct:
  assumes "\<forall>p \<in> set preds. ls_start p \<le> ls_end p" "ls_start s < ls_end s"
  shows "intersect s (sort (map ls_start preds)) (sort (map ls_end preds)) \<longleftrightarrow> hit_by preds s"
proof -
  let ?before = "filter (\<lambda>p. ls_end p \<le> ls_start s) preds"
  let ?starts = "filter (\<lambda>p. ls_start p < ls_end s) preds"
  let ?hits = "filter (\<lambda>p. ls_start p < ls_end s \<and> ls_start s < ls_end p) preds"
  have idx: "bisect_right (sort (map ls_end preds)) (ls_start s) = length ?before"
    by (simp add: bisect_right_eq_takeWhile sorted_takeWhile_filter length_filter_sort filter_map o_def)
  have "intersect s (sort (map ls_start preds)) (sort (map ls_end preds))
      \<longleftrightarrow> length ?before < length preds \<and> sort (map ls_start preds) ! length ?before < ls_end s"
  proof -
    have "sort (map ls_start preds) = [] \<longleftrightarrow> preds = []"
      by (metis length_0_conv length_map length_sort)
    then show ?thesis by (auto simp: intersect_def idx Let_def)
  qed
  also have "\<dots> \<longleftrightarrow> length ?before < length ?starts"
    using sorted_nth_less_iff [of "sort (map ls_start preds)" "length ?before" "ls_end s"]
    by (simp add: length_filter_sort filter_map o_def)
  also have "length ?starts = length ?before + length ?hits"
    using assms by (induction preds) auto
  also have "length ?before < length ?before + length ?hits \<longleftrightarrow> hit_by preds s"
    by (auto simp: hit_by_def list_ex_iff filter_empty_conv)
  finally show ?thesis .
qed

section \<open>Selected contextual spans\<close>

text \<open>
  \<open>selected_ids\<close> is a list in the order of insertion, together with \<open>changed\<close>. Python
  iterates over a set in an order that it does not specify; the callers only rebuild a set
  from the result.
\<close>

type_synonym selection = "span_key list \<times> bool"

definition add_id :: "selection \<Rightarrow> span_key \<Rightarrow> selection" where
  "add_id st mid =
     (case st of (sel, changed) \<Rightarrow> if mid \<notin> set sel then (sel @ [mid], True) else (sel, changed))"

definition yellow_at_pos :: "labelled_span list \<Rightarrow> int \<Rightarrow> labelled_span option" where
  "yellow_at_pos target_yellow pos = find (\<lambda>s. ls_start s \<le> pos \<and> pos < ls_end s) target_yellow"

type_synonym lookup = "(span_key \<times> span_group) list"

definition component_lookup :: "span_group list \<Rightarrow> lookup" where
  "component_lookup groups =
     foldl (\<lambda>d g. foldl (\<lambda>d m. AList.update (span_id m) g d) d (members g)) [] groups"

definition spread_component :: "lookup \<Rightarrow> selection \<Rightarrow> span_key \<Rightarrow> selection" where
  "spread_component lookup st sid =
     (case map_of lookup sid of
        None \<Rightarrow> st
      | Some g \<Rightarrow> foldl add_id st (map span_id (members g)))"

definition is_selected :: "span_key list \<Rightarrow> labelled_span option \<Rightarrow> bool" where
  "is_selected sel x = (case x of None \<Rightarrow> False | Some s \<Rightarrow> span_id s \<in> set sel)"

definition inside_pair :: "pair_range \<Rightarrow> labelled_span \<Rightarrow> bool" where
  "inside_pair pr s \<longleftrightarrow> ls_start s \<ge> pr_o pr \<and> ls_end s \<le> pr_end pr"

definition spread_pair :: "labelled_span list \<Rightarrow> selection \<Rightarrow> pair_range \<Rightarrow> selection" where
  "spread_pair target_yellow st pr =
     (let o_span = yellow_at_pos target_yellow (pr_o pr);
          l_span = yellow_at_pos target_yellow (pr_end pr)
      in if o_span = None \<and> l_span = None then st
         else if \<not> (is_selected (fst st) o_span \<or> is_selected (fst st) l_span) then st
         else foldl add_id st (map span_id (filter (inside_pair pr) target_yellow)))"

definition select_round ::
  "lookup \<Rightarrow> labelled_span list \<Rightarrow> pair_range list \<Rightarrow> span_key list \<Rightarrow> selection" where
  "select_round lookup target_yellow ranges sel =
     foldl (spread_pair target_yellow) (foldl (spread_component lookup) (sel, False) sel) ranges"

text \<open>
  One step only adds fresh identifiers from \<open>U\<close>, and raises the flag exactly when it adds
  some.
\<close>

definition grows :: "span_key set \<Rightarrow> selection \<Rightarrow> selection \<Rightarrow> bool" where
  "grows U st st' \<longleftrightarrow>
     (\<exists>new. fst st' = fst st @ new \<and> (snd st' \<longleftrightarrow> snd st \<or> new \<noteq> []) \<and> distinct new
        \<and> set new \<inter> set (fst st) = {} \<and> set new \<subseteq> U)"

lemma grows_refl [simp]: "grows U st st"
  unfolding grows_def by (intro exI [of _ "[]"]) simp

lemma grows_trans [trans]:
  assumes "grows U st st'" "grows U st' st''"
  shows "grows U st st''"
proof -
  from assms(1) obtain new where
    "fst st' = fst st @ new" "snd st' \<longleftrightarrow> snd st \<or> new \<noteq> []" "distinct new"
    "set new \<inter> set (fst st) = {}" "set new \<subseteq> U" unfolding grows_def by blast
  moreover from assms(2) obtain more where
    "fst st'' = fst st' @ more" "snd st'' \<longleftrightarrow> snd st' \<or> more \<noteq> []" "distinct more"
    "set more \<inter> set (fst st') = {}" "set more \<subseteq> U" unfolding grows_def by blast
  ultimately show ?thesis unfolding grows_def by (intro exI [of _ "new @ more"]) auto
qed

lemma grows_subset: "grows U st st' \<Longrightarrow> set (fst st') \<subseteq> set (fst st) \<union> U"
  unfolding grows_def by auto

lemma grows_mono: "grows U st st' \<Longrightarrow> set (fst st) \<subseteq> set (fst st')"
  unfolding grows_def by auto

lemma grows_flag: "grows U st st' \<Longrightarrow> snd st \<Longrightarrow> snd st'"
  unfolding grows_def by auto

lemma grows_same: "grows U st st' \<Longrightarrow> \<not> snd st' \<Longrightarrow> st' = st"
  unfolding grows_def by (cases st; cases st') auto

lemma grows_add_id: "mid \<in> U \<Longrightarrow> grows U st (add_id st mid)"
  by (cases st) (auto simp: grows_def add_id_def)

lemma grows_foldl:
  assumes "\<And>x st. x \<in> set xs \<Longrightarrow> set (fst st) \<subseteq> V \<Longrightarrow> grows U st (f st x)" "U \<subseteq> V" "set (fst st) \<subseteq> V"
  shows "grows U st (foldl f st xs)"
  using assms
proof (induction xs arbitrary: st)
  case (Cons x xs)
  have step: "grows U st (f st x)" using Cons.prems by simp
  from grows_subset [OF this] Cons.prems(2,3) have "set (fst (f st x)) \<subseteq> V" by blast
  from grows_trans [OF step Cons.IH [OF _ Cons.prems(2) this]] Cons.prems(1) show ?case by simp
qed simp

lemma foldl_unchanged:
  assumes "\<And>x st. grows UNIV st (f st x)" "\<not> snd (foldl f st xs)"
  shows "foldl f st xs = st \<and> (\<forall>x \<in> set xs. f st x = st)"
  using assms(2)
proof (induction xs arbitrary: st)
  case (Cons x xs)
  have rest: "grows UNIV (f st x) (foldl f (f st x) xs)"
    by (rule grows_foldl [where V = UNIV]) (simp_all add: assms(1))
  have "\<not> snd (f st x)" using grows_flag [OF rest] Cons.prems by auto
  then have "f st x = st" using grows_same [OF assms(1)] by blast
  with Cons show ?case by simp
qed simp

text \<open>
  The specification in terms of positions: the first contextual span that covers a position,
  and the least set with the hits that is closed under the component rule and the pair
  rule. A pair range whose opening or closing delimiter belongs to an attempted span pulls in
  the contextual spans inside it, from the position of the opening delimiter on; \<open>closing\<close> is 1
  if the position of the closing delimiter counts as inside, as the docstring has it, and
  0 if not, as the comparison in the code has it.
\<close>

definition first_at :: "labelled_span list \<Rightarrow> int \<Rightarrow> labelled_span \<Rightarrow> bool" where
  "first_at target_yellow pos d \<longleftrightarrow>
     (\<exists>before behind. target_yellow = before @ d # behind \<and> pos \<in> {ls_start d..<ls_end d}
        \<and> (\<forall>y \<in> set before. pos \<notin> {ls_start y..<ls_end y}))"

inductive attempted ::
  "int \<Rightarrow> labelled_span list \<Rightarrow> labelled_span list \<Rightarrow> connector_structure \<Rightarrow> labelled_span \<Rightarrow> bool"
  for closing target_yellow preds cs where
  hit: "y \<in> set target_yellow \<Longrightarrow> hit_by preds y \<Longrightarrow> attempted closing target_yellow preds cs y"
| component: "attempted closing target_yellow preds cs a \<Longrightarrow> g \<in> set (context_components cs) \<Longrightarrow>
    a \<in> set (members g) \<Longrightarrow> m \<in> set (members g) \<Longrightarrow> attempted closing target_yellow preds cs m"
| pair: "attempted closing target_yellow preds cs d \<Longrightarrow> pr \<in> set (pair_ranges cs) \<Longrightarrow>
    first_at target_yellow (pr_o pr) d \<or> first_at target_yellow (pr_end pr) d \<Longrightarrow>
    s \<in> set target_yellow \<Longrightarrow> {ls_start s..<ls_end s} \<subseteq> {pr_o pr..<pr_end pr + closing} \<Longrightarrow>
    attempted closing target_yellow preds cs s"

lemma find_first:
  "find P ys = Some d \<longleftrightarrow> (\<exists>before behind. ys = before @ d # behind \<and> P d \<and> (\<forall>y \<in> set before. \<not> P y))"
proof (induction ys)
  case (Cons y ys)
  show ?case
  proof (cases "P y")
    case True
    then show ?thesis by (auto simp: Cons_eq_append_conv)
  next
    case False
    have "(\<exists>before behind. y # ys = before @ d # behind \<and> P d \<and> (\<forall>x \<in> set before. \<not> P x))
      \<longleftrightarrow> (\<exists>before behind. ys = before @ d # behind \<and> P d \<and> (\<forall>x \<in> set before. \<not> P x))" (is "?l \<longleftrightarrow> ?r")
    proof
      assume ?l
      then obtain before behind where l: "y # ys = before @ d # behind" "P d" "\<forall>x \<in> set before. \<not> P x" by blast
      with False obtain rest where "before = y # rest" by (cases before) auto
      with l show ?r by auto
    next
      assume ?r
      then obtain before behind where "ys = before @ d # behind" "P d" "\<forall>x \<in> set before. \<not> P x" by blast
      with False show ?l by (intro exI [of _ "y # before"] exI [of _ behind]) simp
    qed
    with Cons False show ?thesis by simp
  qed
qed simp

lemma yellow_at_pos_first: "yellow_at_pos target_yellow pos = Some d \<longleftrightarrow> first_at target_yellow pos d"
  by (simp add: yellow_at_pos_def first_at_def find_first)

lemma inside_pair_cells:
  "ls_start s < ls_end s \<Longrightarrow> inside_pair pr s \<longleftrightarrow> {ls_start s..<ls_end s} \<subseteq> {pr_o pr..<pr_end pr + 0}"
  by (auto simp: inside_pair_def)

lemma attempted_closing_mono:
  "attempted 0 target_yellow preds cs s \<Longrightarrow> attempted 1 target_yellow preds cs s"
proof (induction rule: attempted.induct)
  case (pair d pr s)
  have "{ls_start s..<ls_end s} \<subseteq> {pr_o pr..<pr_end pr + 1}" using pair.hyps(5) by auto
  with pair show ?case by (auto intro: attempted.pair)
qed (auto intro: attempted.hit attempted.component)

text \<open>The two readings differ only in spans that end on a closing delimiter.\<close>

lemma attempted_closing_eq:
  assumes "\<forall>pr \<in> set (pair_ranges cs). \<forall>y \<in> set target_yellow. ls_end y \<noteq> pr_end pr + 1"
    and "\<forall>y \<in> set target_yellow. ls_start y < ls_end y" "attempted 1 target_yellow preds cs s"
  shows "attempted 0 target_yellow preds cs s"
  using assms(3)
proof (induction rule: attempted.induct)
  case (pair d pr s)
  have "ls_start s < ls_end s" "ls_end s \<noteq> pr_end pr + 1" using assms(1,2) pair.hyps by auto
  then have "{ls_start s..<ls_end s} \<subseteq> {pr_o pr..<pr_end pr + 0}" using pair.hyps(5) by auto
  with pair show ?case by (auto intro: attempted.pair)
qed (auto intro: attempted.hit attempted.component)

text \<open>The identifiers that a round can add.\<close>

definition universe :: "lookup \<Rightarrow> labelled_span list \<Rightarrow> span_key list" where
  "universe lookup target_yellow =
     map span_id target_yellow @ concat (map (\<lambda>g. map span_id (members g)) (map snd lookup))"

lemma grows_add_ids: "span_id ` A \<subseteq> U \<Longrightarrow> set xs \<subseteq> A \<Longrightarrow> grows U st (foldl add_id st (map span_id xs))"
  by (rule grows_foldl [where V = UNIV]) (auto intro: grows_add_id)

lemma grows_spread_component:
  assumes "\<And>g. map_of lookup sid = Some g \<Longrightarrow> span_id ` set (members g) \<subseteq> U"
  shows "grows U st (spread_component lookup st sid)"
proof (cases "map_of lookup sid")
  case (Some g)
  with grows_add_ids [OF assms [OF Some] subset_refl, of st] show ?thesis
    by (simp add: spread_component_def)
qed (simp add: spread_component_def)

lemma grows_spread_pair:
  assumes "is_selected (fst st) (yellow_at_pos target_yellow (pr_o pr))
      \<or> is_selected (fst st) (yellow_at_pos target_yellow (pr_end pr)) \<Longrightarrow>
    span_id ` set (filter (inside_pair pr) target_yellow) \<subseteq> U"
  shows "grows U st (spread_pair target_yellow st pr)"
  using assms grows_add_ids [of "set (filter (inside_pair pr) target_yellow)" U]
  by (simp add: spread_pair_def Let_def)

lemma grows_round_universe:
  "grows (set (universe lookup target_yellow)) (sel, False) (select_round lookup target_yellow ranges sel)"
proof -
  let ?U = "set (universe lookup target_yellow)"
  have "span_id ` set (members g) \<subseteq> ?U" if "map_of lookup sid = Some g" for sid g
  proof -
    have "g \<in> snd ` set lookup" using map_of_SomeD [OF that] by force
    then show ?thesis unfolding universe_def by auto
  qed
  then have "grows ?U (sel, False) (foldl (spread_component lookup) (sel, False) sel)"
    by (intro grows_foldl [where V = UNIV] grows_spread_component) simp_all
  also have "grows ?U \<dots> (select_round lookup target_yellow ranges sel)"
    unfolding select_round_def
    by (intro grows_foldl [where V = UNIV] grows_spread_pair) (auto simp: universe_def)
  finally show ?thesis .
qed

text \<open>The loop \<open>while changed\<close>: each further round has fewer identifiers left to add.\<close>

function select_loop ::
  "lookup \<Rightarrow> labelled_span list \<Rightarrow> pair_range list \<Rightarrow> span_key list \<Rightarrow> span_key list" where
  "select_loop lookup target_yellow ranges sel =
     (let st = select_round lookup target_yellow ranges sel
      in if snd st then select_loop lookup target_yellow ranges (fst st) else fst st)"
  by pat_completeness auto

termination select_loop
proof (relation "measure (\<lambda>(lookup, target_yellow, ranges, sel).
    length (filter (\<lambda>k. k \<notin> set sel) (universe lookup target_yellow)))", goal_cases)
  case (2 lookup target_yellow ranges sel st)
  with grows_round_universe [of lookup target_yellow sel ranges] obtain new where
    "fst st = sel @ new" "new \<noteq> []" "set new \<inter> set sel = {}"
    "set new \<subseteq> set (universe lookup target_yellow)"
    unfolding grows_def by auto
  then have "length (filter (\<lambda>k. k \<notin> set (fst st)) (universe lookup target_yellow))
      < length (filter (\<lambda>k. k \<notin> set sel) (universe lookup target_yellow))"
    by (intro length_filter_less [where x = "hd new"]) (auto dest: hd_in_set)
  then show ?case by simp
qed simp

declare select_loop.simps [simp del]

text \<open>\<open>[by_id[sid] for sid in selected_ids]\<close>\<close>

fun spans_of :: "(span_key \<times> labelled_span) list \<Rightarrow> span_key list \<Rightarrow> labelled_span list res" where
  "spans_of by_id [] = Inr []"
| "spans_of by_id (k # ks) =
     (case map_of by_id k of
        None \<Rightarrow> Inl KeyError
      | Some s \<Rightarrow> map_res ((#) s) (spans_of by_id ks))"

definition selected_contextual_spans ::
  "labelled_span list \<Rightarrow> labelled_span list \<Rightarrow> connector_structure \<Rightarrow> labelled_span list res" where
  "selected_contextual_spans target_yellow pred_merged cs =
     (if target_yellow = [] then Inr []
      else let by_id = key_dict target_yellow;
               pred_starts = sort (map ls_start pred_merged);
               pred_ends = sort (map ls_end pred_merged);
               hits = fst (foldl add_id ([], False)
                 (map span_id (filter (\<lambda>y. intersect y pred_starts pred_ends) target_yellow)))
           in if hits = [] then Inr []
              else spans_of by_id
                (select_loop (component_lookup (context_components cs)) target_yellow (pair_ranges cs) hits))"

lemma add_ids_set: "set (fst (foldl add_id st xs)) = set (fst st) \<union> set xs"
  by (induction xs arbitrary: st) (auto simp: add_id_def split: prod.splits)

lemma add_ids_distinct: "distinct (fst st) \<Longrightarrow> distinct (fst (foldl add_id st xs))"
  by (induction xs arbitrary: st) (auto simp: add_id_def split: prod.splits)

lemma add_ids_same: "foldl add_id (sel, False) xs = (sel, False) \<Longrightarrow> set xs \<subseteq> set sel"
  using add_ids_set [of "(sel, False)" xs] by auto

lemma grows_distinct: "grows U st st' \<Longrightarrow> distinct (fst st) \<Longrightarrow> distinct (fst st')"
  unfolding grows_def by auto

text \<open>A round that changes nothing shows that the identifiers are closed under both rules.\<close>

lemma round_unchanged:
  assumes "\<not> snd (select_round lookup target_yellow ranges sel)"
  shows "fst (select_round lookup target_yellow ranges sel) = sel"
    and "\<And>k g. k \<in> set sel \<Longrightarrow> map_of lookup k = Some g \<Longrightarrow> span_id ` set (members g) \<subseteq> set sel"
    and "\<And>pr s. pr \<in> set ranges \<Longrightarrow> is_selected sel (yellow_at_pos target_yellow (pr_o pr))
        \<or> is_selected sel (yellow_at_pos target_yellow (pr_end pr)) \<Longrightarrow>
      s \<in> set target_yellow \<Longrightarrow> inside_pair pr s \<Longrightarrow> span_id s \<in> set sel"
proof -
  let ?st = "foldl (spread_component lookup) (sel, False) sel"
  have "grows UNIV st (spread_pair target_yellow st pr)" for st pr
    by (rule grows_spread_pair) simp
  from foldl_unchanged [where f = "spread_pair target_yellow", OF this] assms
  have pairs: "select_round lookup target_yellow ranges sel = ?st"
    "\<forall>pr \<in> set ranges. spread_pair target_yellow ?st pr = ?st"
    unfolding select_round_def by blast+
  have "grows UNIV st (spread_component lookup st sid)" for st sid
    by (rule grows_spread_component) simp
  from foldl_unchanged [where f = "spread_component lookup", OF this, of "(sel, False)" sel] assms pairs(1)
  have st: "?st = (sel, False)" and comps: "\<forall>sid \<in> set sel. spread_component lookup (sel, False) sid = (sel, False)"
    by auto
  show "fst (select_round lookup target_yellow ranges sel) = sel" using pairs(1) st by simp
  show "span_id ` set (members g) \<subseteq> set sel" if "k \<in> set sel" "map_of lookup k = Some g" for k g
  proof -
    from comps that have "foldl add_id (sel, False) (map span_id (members g)) = (sel, False)"
      by (fastforce simp: spread_component_def)
    from add_ids_same [OF this] show ?thesis by simp
  qed
  show "span_id s \<in> set sel"
    if "pr \<in> set ranges" "is_selected sel (yellow_at_pos target_yellow (pr_o pr))
        \<or> is_selected sel (yellow_at_pos target_yellow (pr_end pr))"
      "s \<in> set target_yellow" "inside_pair pr s" for pr s
  proof -
    from that(1) pairs(2) st have "spread_pair target_yellow (sel, False) pr = (sel, False)" by simp
    with that(2) have "foldl add_id (sel, False) (map span_id (filter (inside_pair pr) target_yellow)) = (sel, False)"
      by (auto simp: spread_pair_def is_selected_def Let_def split: option.splits if_splits)
    from add_ids_same [OF this] that(3,4) show ?thesis by auto
  qed
qed

lemma select_loop_distinct: "distinct sel \<Longrightarrow> distinct (select_loop lookup target_yellow ranges sel)"
proof (induction lookup target_yellow ranges sel rule: select_loop.induct)
  case (1 lookup target_yellow ranges sel)
  then show ?case
    using grows_distinct [OF grows_round_universe, of sel lookup target_yellow ranges]
    by (simp add: select_loop.simps [of lookup target_yellow ranges sel] Let_def)
qed

lemma yellow_at_pos_mem: "yellow_at_pos target_yellow pos = Some d \<Longrightarrow> d \<in> set target_yellow"
  by (auto simp: yellow_at_pos_def find_Some_iff)

text \<open>The lookup of a partition: the group that contains a span.\<close>

definition lookup_of :: "connector_structure \<Rightarrow> lookup \<Rightarrow> bool" where
  "lookup_of cs lookup \<longleftrightarrow>
     (\<forall>k g. map_of lookup k = Some g \<longleftrightarrow>
        g \<in> set (context_components cs) \<and> k \<in> span_id ` set (members g))"

lemma round_attempted:
  assumes "lookup_of cs lookup" "set sel \<subseteq> span_id ` Collect (attempted 0 target_yellow preds cs)"
  shows "set (fst (select_round lookup target_yellow (pair_ranges cs) sel))
    \<subseteq> span_id ` Collect (attempted 0 target_yellow preds cs)"
proof -
  let ?T = "span_id ` Collect (attempted 0 target_yellow preds cs)"
  let ?st = "foldl (spread_component lookup) (sel, False) sel"
  have step: "span_id ` set (members g) \<subseteq> ?T" if "sid \<in> ?T" "map_of lookup sid = Some g" for sid g
    using that assms(1) unfolding lookup_of_def by (blast intro: attempted.component dest: span_id_eq_iff [THEN iffD1])
  have comps: "grows ?T (sel, False) ?st"
  proof (rule grows_foldl [where V = ?T])
    show "grows ?T st (spread_component lookup st sid)" if "sid \<in> set sel" for sid st
      using that assms(2) step by (intro grows_spread_component) blast
  qed (use assms(2) in simp_all)
  have within: "span_id ` set (filter (inside_pair pr) target_yellow) \<subseteq> ?T"
    if "pr \<in> set (pair_ranges cs)" "set (fst st) \<subseteq> ?T"
      "is_selected (fst st) (yellow_at_pos target_yellow (pr_o pr))
        \<or> is_selected (fst st) (yellow_at_pos target_yellow (pr_end pr))" for pr st
  proof -
    from that(2,3) obtain d where "attempted 0 target_yellow preds cs d"
      "yellow_at_pos target_yellow (pr_o pr) = Some d \<or> yellow_at_pos target_yellow (pr_end pr) = Some d"
      by (auto simp: is_selected_def split: option.splits)
    from attempted.pair [OF this(1) that(1) this(2) [unfolded yellow_at_pos_first]] show ?thesis
      by (force simp: inside_pair_def)
  qed
  have "grows ?T ?st (select_round lookup target_yellow (pair_ranges cs) sel)"
    unfolding select_round_def
  proof (rule grows_foldl [where V = ?T])
    show "grows ?T st (spread_pair target_yellow st pr)"
      if "pr \<in> set (pair_ranges cs)" "set (fst st) \<subseteq> ?T" for pr st
      using within [OF that] by (rule grows_spread_pair)
    show "set (fst ?st) \<subseteq> ?T" using grows_subset [OF comps] assms(2) by auto
  qed simp
  from grows_subset [OF this] grows_subset [OF comps] assms(2) show ?thesis by auto
qed

lemma attempted_closed:
  assumes "lookup_of cs lookup" "\<And>y. y \<in> set target_yellow \<Longrightarrow> hit_by preds y \<Longrightarrow> span_id y \<in> set sel"
    and "\<not> snd (select_round lookup target_yellow (pair_ranges cs) sel)"
    and "\<forall>y \<in> set target_yellow. ls_start y < ls_end y" "attempted 0 target_yellow preds cs s"
  shows "span_id s \<in> set sel"
  using assms(5)
proof (induction rule: attempted.induct)
  case (component a g m)
  have "map_of lookup (span_id a) = Some g"
    using component assms(1) unfolding lookup_of_def by blast
  with round_unchanged(2) [OF assms(3) component.IH] component.hyps show ?case by blast
next
  case (pair d pr s)
  then have "is_selected sel (yellow_at_pos target_yellow (pr_o pr))
      \<or> is_selected sel (yellow_at_pos target_yellow (pr_end pr))"
    unfolding yellow_at_pos_first [symmetric] by (auto simp: is_selected_def)
  moreover have "inside_pair pr s" using pair.hyps assms(4) inside_pair_cells by blast
  ultimately show ?case using round_unchanged(3) [OF assms(3)] pair.hyps by blast
qed (rule assms(2))

lemma select_loop_attempted:
  assumes "lookup_of cs lookup" "set sel \<subseteq> span_id ` Collect (attempted 0 target_yellow preds cs)"
    and "\<And>y. y \<in> set target_yellow \<Longrightarrow> hit_by preds y \<Longrightarrow> span_id y \<in> set sel"
    and "\<forall>y \<in> set target_yellow. ls_start y < ls_end y"
  shows "set (select_loop lookup target_yellow (pair_ranges cs) sel)
    = span_id ` Collect (attempted 0 target_yellow preds cs)"
  using assms
proof (induction lookup target_yellow "pair_ranges cs" sel rule: select_loop.induct)
  case (1 lookup target_yellow sel)
  let ?st = "select_round lookup target_yellow (pair_ranges cs) sel"
  show ?case
  proof (cases "snd ?st")
    case True
    have "set sel \<subseteq> set (fst ?st)" using grows_mono [OF grows_round_universe] by fastforce
    with "1.hyps" [OF refl True "1.prems"(1) round_attempted [OF "1.prems"(1,2)]] "1.prems"(3,4) True
    show ?thesis by (auto simp: select_loop.simps [of lookup target_yellow _ sel] Let_def)
  next
    case False
    have "span_id ` Collect (attempted 0 target_yellow preds cs) \<subseteq> set sel"
      using attempted_closed [OF "1.prems"(1,3) False "1.prems"(4)] by blast
    with "1.prems"(2) False round_unchanged(1) [OF False] show ?thesis
      by (simp add: select_loop.simps [of lookup target_yellow _ sel] Let_def)
  qed
qed

lemma map_of_group_members:
  "map_of (foldl (\<lambda>d m. AList.update (span_id m) g d) d ms) k
    = (if k \<in> span_id ` set ms then Some g else map_of d k)"
  by (induction ms arbitrary: d) auto

lemma map_of_component_lookup:
  assumes "distinct (concat (map members groups))"
  shows "map_of (component_lookup groups) k = Some g \<longleftrightarrow> g \<in> set groups \<and> k \<in> span_id ` set (members g)"
proof -
  have "map_of (foldl (\<lambda>d g. foldl (\<lambda>d m. AList.update (span_id m) g d) d (members g)) d groups) k = Some g
    \<longleftrightarrow> (g \<in> set groups \<and> k \<in> span_id ` set (members g))
      \<or> ((\<forall>h \<in> set groups. k \<notin> span_id ` set (members h)) \<and> map_of d k = Some g)" for d
    using assms
  proof (induction groups arbitrary: d)
    case (Cons h hs)
    have "k \<notin> span_id ` set (members f)" if "k \<in> span_id ` set (members h)" "f \<in> set hs" for f
      using that Cons.prems by auto
    with Cons.IH [of "foldl (\<lambda>d m. AList.update (span_id m) h d) d (members h)"] Cons.prems
    show ?case by (auto simp: map_of_group_members)
  qed simp
  from this [of "[]"] show ?thesis by (simp add: component_lookup_def)
qed

lemma lookup_of_structure:
  assumes "structure_of t red yellow cs"
  shows "lookup_of cs (component_lookup (context_components cs))"
  using assms map_of_component_lookup [of "context_components cs"]
  by (simp add: structure_of_def groups_of_def components_of_def lookup_of_def)

lemma attempted_yellow:
  assumes "structure_of t red yellow cs" "attempted 0 yellow preds cs s"
  shows "s \<in> set yellow"
  using assms(2)
proof (induction rule: attempted.induct)
  case (component a g m)
  have "set (concat (map members (context_components cs))) = set yellow"
    using assms(1) by (simp add: structure_of_def groups_of_def components_of_def)
  with component.hyps show ?case by auto
qed

lemma spans_of_key_dict:
  assumes "set ks \<subseteq> span_id ` set nodes"
  shows "\<exists>out. spans_of (key_dict nodes) ks = Inr out \<and> map span_id out = ks \<and> set out \<subseteq> set nodes"
  using assms
proof (induction ks)
  case (Cons k ks)
  then obtain s out where "s \<in> set nodes" "span_id s = k"
    "spans_of (key_dict nodes) ks = Inr out" "map span_id out = ks" "set out \<subseteq> set nodes" by auto
  moreover from this have "map_of (key_dict nodes) k = Some s" by (simp add: map_of_key_dict)
  ultimately show ?case by (intro exI [of _ "s # out"]) simp
qed simp

theorem selected_spans_least:
  assumes "structure_of t red yellow cs"
    and "\<forall>p \<in> set preds. ls_start p \<le> ls_end p" "\<forall>y \<in> set yellow. ls_start y < ls_end y"
  shows "\<exists>out. selected_contextual_spans yellow preds cs = Inr out \<and> distinct out
    \<and> set out = Collect (attempted 0 yellow preds cs)"
proof -
  let ?T = "Collect (attempted 0 yellow preds cs)"
  let ?hits = "fst (foldl add_id ([], False) (map span_id
    (filter (\<lambda>y. intersect y (sort (map ls_start preds)) (sort (map ls_end preds))) yellow)))"
  let ?loop = "select_loop (component_lookup (context_components cs)) yellow (pair_ranges cs) ?hits"
  have hits: "set ?hits = span_id ` {y \<in> set yellow. hit_by preds y}"
    using assms(2,3) intersect_correct by (auto simp: add_ids_set)
  have sub: "?T \<subseteq> set yellow" using attempted_yellow [OF assms(1)] by blast
  show ?thesis
  proof (cases "yellow = [] \<or> ?hits = []")
    case True
    then have none: "\<And>y. y \<in> set yellow \<Longrightarrow> \<not> hit_by preds y" using hits by auto
    have "\<not> attempted 0 yellow preds cs s" for s
    proof
      assume "attempted 0 yellow preds cs s"
      then show False by induction (use none in auto)
    qed
    with True show ?thesis by (auto simp: selected_contextual_spans_def Let_def)
  next
    case False
    have "set ?loop = span_id ` ?T"
    proof (rule select_loop_attempted [OF lookup_of_structure [OF assms(1)]])
      show "set ?hits \<subseteq> span_id ` ?T" unfolding hits by (auto intro: attempted.hit)
    qed (use hits assms(3) in auto)
    moreover have "distinct ?loop" by (intro select_loop_distinct add_ids_distinct) simp
    moreover from \<open>set ?loop = span_id ` ?T\<close> sub obtain out where
      "spans_of (key_dict yellow) ?loop = Inr out" "map span_id out = ?loop"
      using spans_of_key_dict [of ?loop yellow] by auto
    ultimately have "distinct (map span_id out)" "span_id ` set out = span_id ` ?T"
      by (metis, metis list.set_map)
    then have "distinct out \<and> set out = ?T" by (auto simp: distinct_map inj_image_eq_iff inj_span_id)
    with False \<open>spans_of (key_dict yellow) ?loop = Inr out\<close> show ?thesis
      by (auto simp: selected_contextual_spans_def Let_def)
  qed
qed

section \<open>Fused entities\<close>

record fused_entities =
  red_entities :: "span_group list"
  contextual_entities :: "span_group list"

text \<open>
  A connector marker is a contextual span of one character that is an effective marker;
  \<open>text[s.start]\<close> may raise.
\<close>

fun marker_positions :: "labelled_span list \<Rightarrow> connector_structure \<Rightarrow> string \<Rightarrow> int list res" where
  "marker_positions [] cs t = Inr []"
| "marker_positions (s # yellow) cs t =
     (if ls_end s - ls_start s \<noteq> 1 then marker_positions yellow cs t
      else bind_res (py_index t (ls_start s)) (\<lambda>ch.
        map_res (\<lambda>ps. if ch \<in> set (effective_markers cs) then ls_start s # ps else ps)
          (marker_positions yellow cs t)))"

text \<open>\<open>adjacent\<close> maps every contextual span to the set of its neighbours, here a list.\<close>

definition link_spans :: "graph \<Rightarrow> labelled_span \<Rightarrow> labelled_span \<Rightarrow> graph" where
  "link_spans adjacent a b =
     (let ka = span_id a; kb = span_id b
      in if ka = kb then adjacent
         else if map_of adjacent ka \<noteq> None \<and> map_of adjacent kb \<noteq> None
         then link_both ka kb adjacent else adjacent)"

fun link_all :: "graph \<Rightarrow> labelled_span list \<Rightarrow> graph" where
  "link_all adjacent [] = adjacent"
| "link_all adjacent (s # spans) = link_all (foldl (\<lambda>g s'. link_spans g s s') adjacent spans) spans"

definition context_adjacency :: "labelled_span list \<Rightarrow> connector_structure \<Rightarrow> graph" where
  "context_adjacency target_yellow cs =
     (let adjacent0 = map (\<lambda>(k, _). (k, [])) (key_dict target_yellow);
          adjacent1 = foldl (\<lambda>g grp. link_all g (contextual (members grp))) adjacent0 (context_components cs)
      in foldl (\<lambda>g pr. link_all g
             (filter (\<lambda>s. ls_start s \<ge> pr_o pr \<and> ls_end s \<le> pr_end pr + 1) target_yellow))
           adjacent1 (pair_ranges cs))"

definition fused_entity_groups ::
  "labelled_span list \<Rightarrow> connector_structure \<Rightarrow> string \<Rightarrow> fused_entities res" where
  "fused_entity_groups target_yellow cs t =
     (let yellow_set = key_dict target_yellow;
          adjacent = context_adjacency target_yellow cs
      in bind_res (search span_order (neighbours adjacent) (\<lambda>_. True) yellow_set (map fst yellow_set) [] [])
        (\<lambda>comps. map_res (\<lambda>positions.
             \<lparr>red_entities = red_fusion_groups cs,
              contextual_entities = map (\<lambda>c. \<lparr>members = c\<rparr>)
                (filter (\<lambda>c. \<not> (length c = 1 \<and> ls_start (hd c) \<in> set positions)) (sort_components comps))\<rparr>)
           (marker_positions target_yellow cs t)))"

text \<open>The adjacency keeps its keys, is symmetric, and leads to contextual spans only.\<close>

definition adjacency_ok :: "labelled_span list \<Rightarrow> graph \<Rightarrow> bool" where
  "adjacency_ok yellow g \<longleftrightarrow> symmetric_graph g
     \<and> (\<forall>k. map_of g k \<noteq> None \<longleftrightarrow> k \<in> span_id ` set yellow)
     \<and> (\<forall>a b. b \<in> set (neighbours g a) \<longrightarrow> b \<in> span_id ` set yellow)"

lemma adjacency_ok_link_spans: "adjacency_ok yellow g \<Longrightarrow> adjacency_ok yellow (link_spans g a b)"
proof -
  have keys: "map_of (link_both ka kb g) k \<noteq> None \<longleftrightarrow> k = ka \<or> k = kb \<or> map_of g k \<noteq> None" for ka kb k
    by (auto simp: link_both_def add_edge_def)
  assume ok: "adjacency_ok yellow g"
  show ?thesis
  proof (cases "map_of g (span_id a) \<noteq> None \<and> map_of g (span_id b) \<noteq> None")
    case True
    with ok have "adjacency_ok yellow (link_both (span_id a) (span_id b) g)"
      unfolding adjacency_ok_def keys neighbours_link_both
      by (intro conjI symmetric_graph_link_both) blast+
    with ok show ?thesis by (simp add: link_spans_def Let_def)
  next
    case False
    then have "link_spans g a b = g" by (auto simp: link_spans_def Let_def)
    with ok show ?thesis by simp
  qed
qed

lemma adjacency_ok_foldl:
  assumes "\<And>g x. adjacency_ok yellow g \<Longrightarrow> adjacency_ok yellow (f g x)" "adjacency_ok yellow g"
  shows "adjacency_ok yellow (foldl f g xs)"
  using assms(2) by (induction xs arbitrary: g) (simp_all add: assms(1))

lemma adjacency_ok_link_all: "adjacency_ok yellow g \<Longrightarrow> adjacency_ok yellow (link_all g spans)"
  by (induction g spans rule: link_all.induct)
    (simp_all add: adjacency_ok_foldl adjacency_ok_link_spans)

lemma context_adjacency_ok: "adjacency_ok yellow (context_adjacency yellow cs)"
proof -
  let ?g0 = "map (\<lambda>(k, _). (k, [])) (key_dict yellow) :: graph"
  have get: "map_of ?g0 k = map_option (\<lambda>_. []) (map_of (key_dict yellow) k)" for k
    using map_of_map [of "(\<lambda>_. []) :: labelled_span \<Rightarrow> span_key list" "key_dict yellow"] by (simp add: fun_eq_iff)
  then have "neighbours ?g0 k = []" for k by (simp add: neighbours_def dict_get_def split: option.splits)
  with get have "adjacency_ok yellow ?g0"
    using key_dict_keys [of yellow] by (auto simp: adjacency_ok_def symmetric_graph_def)
  then show ?thesis
    unfolding context_adjacency_def Let_def
    by (intro adjacency_ok_foldl adjacency_ok_link_all)
qed

interpretation context_links: link_graph span_id span_order
    "neighbours (context_adjacency yellow cs)" "\<lambda>_. True" "key_dict yellow" for yellow cs
proof
  note ok = context_adjacency_ok [of yellow cs, unfolded adjacency_ok_def]
  show "map_of (key_dict yellow) b \<noteq> None"
    if "(a, b) \<in> links (neighbours (context_adjacency yellow cs)) (\<lambda>_. True) (key_dict yellow)" for a b
    using that ok unfolding links_def key_dict_keys by blast
  show "(b, a) \<in> links (neighbours (context_adjacency yellow cs)) (\<lambda>_. True) (key_dict yellow)"
    if "(a, b) \<in> links (neighbours (context_adjacency yellow cs)) (\<lambda>_. True) (key_dict yellow)" for a b
    using that ok unfolding links_def key_dict_keys symmetric_graph_def by blast
qed (simp_all add: map_of_key_dict)

lemma context_links_linked:
  "links (neighbours (context_adjacency yellow cs)) (\<lambda>_. True) (key_dict yellow)
   = linked (context_adjacency yellow cs) yellow"
  using context_adjacency_ok [of yellow cs]
  unfolding links_def linked_def key_dict_keys adjacency_ok_def by blast

lemma marker_positions_total:
  assumes "list_all (well_placed (int (length t))) yellow"
  shows "\<exists>ps. marker_positions yellow cs t = Inr ps
    \<and> set ps = {ls_start s | s. s \<in> set yellow \<and> ls_end s = ls_start s + 1
        \<and> t ! nat (ls_start s) \<in> set (effective_markers cs)}"
  using assms
proof (induction yellow)
  case (Cons s yellow)
  then obtain ps where ps: "marker_positions yellow cs t = Inr ps"
    "set ps = {ls_start s | s. s \<in> set yellow \<and> ls_end s = ls_start s + 1
        \<and> t ! nat (ls_start s) \<in> set (effective_markers cs)}" by auto
  have "py_index t (ls_start s) = Inr (t ! nat (ls_start s))"
    using Cons.prems by (simp add: py_index_def well_placed_def)
  with ps show ?case by auto
qed simp

text \<open>The entities: the classes of linked contextual spans, less the lone markers.\<close>

definition lone_marker :: "labelled_span list \<Rightarrow> connector_structure \<Rightarrow> string \<Rightarrow> labelled_span list \<Rightarrow> bool" where
  "lone_marker yellow cs t c \<longleftrightarrow>
     length c = 1 \<and> (\<exists>s \<in> set yellow. ls_start s = ls_start (hd c) \<and> ls_end s = ls_start s + 1
       \<and> t ! nat (ls_start s) \<in> set (effective_markers cs))"

theorem fused_entity_groups_correct:
  assumes "list_all (well_placed (int (length t))) yellow"
  shows "\<exists>fe comps. fused_entity_groups yellow cs t = Inr fe
    \<and> red_entities fe = red_fusion_groups cs
    \<and> map members (contextual_entities fe) = filter (\<lambda>c. \<not> lone_marker yellow cs t c) comps
    \<and> components_of span_id (linked (context_adjacency yellow cs) yellow) (set yellow) comps"
proof -
  have ks: "set (map fst (key_dict yellow)) = {k. map_of (key_dict yellow) k \<noteq> None}"
    by (auto simp: map_of_eq_None_iff image_iff)
  from context_links.search_correct [OF ks, of cs] obtain comps where
    run: "search span_order (neighbours (context_adjacency yellow cs)) (\<lambda>_. True) (key_dict yellow)
      (map fst (key_dict yellow)) [] [] = Inr comps"
    and comps: "components_of span_id (linked (context_adjacency yellow cs) yellow) (set yellow) comps"
    unfolding context_links_linked ran_key_dict by blast
  from marker_positions_total [OF assms, of cs] obtain ps where
    ps: "marker_positions yellow cs t = Inr ps"
      "set ps = {ls_start s | s. s \<in> set yellow \<and> ls_end s = ls_start s + 1
        \<and> t ! nat (ls_start s) \<in> set (effective_markers cs)}" by blast
  have "(\<lambda>c. \<not> (length c = 1 \<and> ls_start (hd c) \<in> set ps)) = (\<lambda>c. \<not> lone_marker yellow cs t c)"
    unfolding ps(2) lone_marker_def by (intro ext) force
  with run ps(1) comps show ?thesis
    by (intro exI [of _ "sort_components comps"] exI conjI)
      (auto simp: fused_entity_groups_def components_of_sort o_def)
qed

text \<open>
  The propagation leaves out a span that is the closing delimiter itself, since it compares
  \<open>s.end\<close> with the inclusive position \<open>pr.end\<close>, while the entities are formed with
  \<open>pr.end + 1\<close>: in \<open>(A)\<close>, redacting the opening delimiter attempts two of the three spans
  of one entity.
\<close>

definition delimiter_spans :: "labelled_span list" where
  "delimiter_spans = map (\<lambda>i. \<lparr>ls_start = i, ls_end = i + 1, ls_cat = CONTEXTUAL\<rparr>) [0, 1, 2]"

lemma closing_delimiter_not_selected:
  "bind_res (build_connector_structure ''(A)'' [] delimiter_spans) (\<lambda>cs.
     map_res (\<lambda>out. map ls_start out)
      (selected_contextual_spans delimiter_spans [delimiter_spans ! 0] cs)) = Inr [0, 1]
   \<and> bind_res (build_connector_structure ''(A)'' [] delimiter_spans) (\<lambda>cs.
     map_res (\<lambda>fe. map (map ls_start \<circ> members) (contextual_entities fe))
      (fused_entity_groups delimiter_spans cs ''(A)'')) = Inr [[0, 1, 2]]"
  by code_simp

section \<open>Property\<close>

text \<open>C38. For the structure of a document, the propagation of Algorithm 2 ends without an
  exception and returns, once each, exactly the spans of the least set that contains every
  contextual span which some prediction overlaps (also when predictions overlap each other)
  and is closed under the component rule and the pair rule. In the pair rule of the code the
  position of the closing delimiter does not count as inside. The docstring, which has the
  whole range selected, describes a set that contains the result, and the result is exactly
  that set when no contextual span ends on a closing delimiter.\<close>

theorem attempted_spans_least:
  assumes "build_connector_structure t red yellow = Inr cs"
    and "\<forall>p \<in> set preds. ls_start p \<le> ls_end p" "\<forall>y \<in> set yellow. ls_start y < ls_end y"
  shows "\<exists>out. selected_contextual_spans yellow preds cs = Inr out \<and> distinct out
    \<and> set out = Collect (attempted 0 yellow preds cs)
    \<and> set out \<subseteq> Collect (attempted 1 yellow preds cs)
    \<and> ((\<forall>pr \<in> set (pair_ranges cs). \<forall>y \<in> set yellow. ls_end y \<noteq> pr_end pr + 1) \<longrightarrow>
         set out = Collect (attempted 1 yellow preds cs))"
proof -
  have "structure_of t red yellow cs"
    using build_connector_structure_correct [of t red yellow] assms(1) by auto
  from selected_spans_least [OF this assms(2,3)] obtain out where
    out: "selected_contextual_spans yellow preds cs = Inr out" "distinct out"
      "set out = Collect (attempted 0 yellow preds cs)" by blast
  have "set out \<subseteq> Collect (attempted 1 yellow preds cs)"
    unfolding out(3) using attempted_closing_mono by blast
  moreover have "Collect (attempted 1 yellow preds cs) \<subseteq> set out"
    if "\<forall>pr \<in> set (pair_ranges cs). \<forall>y \<in> set yellow. ls_end y \<noteq> pr_end pr + 1"
    unfolding out(3) using attempted_closing_eq [OF that assms(3)] by blast
  ultimately show ?thesis using out by blast
qed

theorem attempted_spans_least_witness:
  "\<exists>cs. build_connector_structure ''(A)'' [] delimiter_spans = Inr cs
    \<and> set [delimiter_spans ! 0, delimiter_spans ! 1]
        = Collect (attempted 0 delimiter_spans [delimiter_spans ! 0] cs)"
proof -
  obtain cs where cs: "build_connector_structure ''(A)'' [] delimiter_spans = Inr cs"
    using build_connector_structure_correct by blast
  have "\<forall>y \<in> set delimiter_spans. ls_start y < ls_end y" by (simp add: delimiter_spans_def)
  with attempted_spans_least [OF cs, of "[delimiter_spans ! 0]"] obtain out where
    "selected_contextual_spans delimiter_spans [delimiter_spans ! 0] cs = Inr out"
    "set out = Collect (attempted 0 delimiter_spans [delimiter_spans ! 0] cs)"
    by (auto simp: delimiter_spans_def)
  moreover have "bind_res (build_connector_structure ''(A)'' [] delimiter_spans)
      (selected_contextual_spans delimiter_spans [delimiter_spans ! 0])
    = Inr [delimiter_spans ! 0, delimiter_spans ! 1]" by code_simp
  ultimately show ?thesis using cs by auto
qed

end
