(* ===== verification/RScore.thy ===== *)
theory RScore
  imports Fusion
begin

text \<open>
  \<open>app/bench/rscore.py\<close>: the score of one document and of a corpus. Lists of intervals are
  related to the sets of positions that they cover: predictions become disjoint separated
  runs with the same positions, false positives cover exactly the predicted positions
  outside the support, gaps cover exactly the rest of the text, and the coverage of a span is
  the share of its positions that are predicted. The score of every document lies between 0
  and 1, and so do the statistics of a corpus.
\<close>

type_synonym run = "int \<times> int"

definition run_chars :: "run list \<Rightarrow> int set" where
  "run_chars runs = (\<Union>(s, e) \<in> set runs. {s..<e})"

lemma run_chars_simps [simp]:
  "run_chars [] = {}"
  "run_chars ((s, e) # runs) = {s..<e} \<union> run_chars runs"
  "run_chars (xs @ ys) = run_chars xs \<union> run_chars ys"
  by (auto simp: run_chars_def)

text \<open>Non-empty runs in order with a position between each two: the canonical form.\<close>

definition separated :: "run list \<Rightarrow> bool" where
  "separated runs \<longleftrightarrow> (\<forall>(s, e) \<in> set runs. s < e) \<and> sorted_wrt (\<lambda>(s, e) (s', e'). e < s') runs"

lemma separated_Cons: "separated ((s, e) # runs) \<longleftrightarrow>
    s < e \<and> (\<forall>(s', e') \<in> set runs. e < s') \<and> separated runs"
  by (auto simp: separated_def)

lemma separated_append: "separated (xs @ ys) \<longleftrightarrow>
    separated xs \<and> separated ys \<and> (\<forall>(s, e) \<in> set xs. \<forall>(s', e') \<in> set ys. e < s')"
  by (auto simp: separated_def sorted_wrt_append)

lemma separated_Nil [simp]: "separated []"
  by (simp add: separated_def)

section \<open>Predictions as runs\<close>

definition clamp :: "int \<Rightarrow> int \<Rightarrow> int" where
  "clamp text_len x = max 0 (min x text_len)"

definition merge_step :: "int \<Rightarrow> run list \<Rightarrow> run \<Rightarrow> run list" where
  "merge_step text_len merged p =
     (let s = clamp text_len (fst p); e = clamp text_len (snd p)
      in if s \<ge> e then merged
         else if merged \<noteq> [] \<and> s \<le> snd (last merged)
         then butlast merged @ [(fst (last merged), max (snd (last merged)) e)]
         else merged @ [(s, e)])"

definition prediction_chars :: "labelled_span list \<Rightarrow> int \<Rightarrow> run list" where
  "prediction_chars spans text_len =
     (let intervals = sort (map (\<lambda>s. (ls_start s, ls_end s)) spans)
      in foldl (merge_step text_len) [] intervals)"

definition support_runs :: "labelled_span list \<Rightarrow> int \<Rightarrow> run list" where
  "support_runs spans text_len = prediction_chars spans text_len"

lemma clamp_mono: "x \<le> y \<Longrightarrow> clamp n x \<le> clamp n y"
  by (auto simp: clamp_def)

lemma clamp_bounds: "0 \<le> n \<Longrightarrow> 0 \<le> clamp n x \<and> clamp n x \<le> n"
  by (auto simp: clamp_def)

lemma clamp_interval: "0 \<le> n \<Longrightarrow> {clamp n s..<clamp n e} = {s..<e} \<inter> {0..<n}"
  by (auto simp: clamp_def)

text \<open>What the loop keeps: the next interval does not start before the last run.\<close>

lemma merge_step_correct:
  assumes "0 \<le> n" "separated merged" "\<forall>(s, e) \<in> set merged. 0 \<le> s \<and> e \<le> n \<and> s \<le> clamp n (fst p)"
  shows "separated (merge_step n merged p)"
    and "run_chars (merge_step n merged p) = run_chars merged \<union> ({fst p..<snd p} \<inter> {0..<n})"
    and "\<forall>(s, e) \<in> set (merge_step n merged p). 0 \<le> s \<and> e \<le> n \<and> s \<le> clamp n (fst p)"
proof -
  let ?s = "clamp n (fst p)" and ?e = "clamp n (snd p)"
  have chars: "{fst p..<snd p} \<inter> {0..<n} = {?s..<?e}" using clamp_interval [OF assms(1)] by simp
  have b: "0 \<le> ?s" "?e \<le> n" using clamp_bounds [OF assms(1)] by simp_all
  consider (skip) "?s \<ge> ?e" | (new) "?s < ?e" "merged = [] \<or> snd (last merged) < ?s"
    | (join) pre a e where "?s < ?e" "merged = pre @ [(a, e)]" "?s \<le> e"
  proof (cases "?s < ?e \<and> merged \<noteq> [] \<and> ?s \<le> snd (last merged)")
    case True
    then obtain pre l where "merged = pre @ [l]" by (metis rev_exhaust)
    with True show thesis by (intro that(3) [of pre "fst l" "snd l"]) auto
  qed (use that in fastforce)
  then have "separated (merge_step n merged p)
    \<and> run_chars (merge_step n merged p) = run_chars merged \<union> {?s..<?e}
    \<and> (\<forall>(s, e) \<in> set (merge_step n merged p). 0 \<le> s \<and> e \<le> n \<and> s \<le> ?s)"
  proof cases
    case skip
    with assms show ?thesis by (simp add: merge_step_def)
  next
    case new
    then have eq: "merge_step n merged p = merged @ [(?s, ?e)]" by (auto simp: merge_step_def)
    have "e < ?s" if "(s, e) \<in> set merged" for s e
    proof -
      from that new(2) have "merged \<noteq> []" "snd (last merged) < ?s" by auto
      moreover have "e \<le> snd (last merged)"
        using that assms(2) \<open>merged \<noteq> []\<close>
        by (cases merged rule: rev_cases) (auto simp: separated_append separated_Cons)
      ultimately show ?thesis by simp
    qed
    with new(1) assms(2,3) b show ?thesis
      unfolding eq by (auto simp: separated_append separated_Cons)
  next
    case join
    then have eq: "merge_step n merged p = pre @ [(a, max e ?e)]" by (auto simp: merge_step_def)
    from join(2) assms(2) have "a < e" by (simp add: separated_append separated_Cons)
    moreover from join(2) assms(3) have "a \<le> ?s" by auto
    ultimately have "{a..<max e ?e} = {a..<e} \<union> {?s..<?e}" using join(1,3) by auto
    with join assms(2,3) b show ?thesis
      unfolding eq by (auto simp: separated_append separated_Cons)
  qed
  then show "separated (merge_step n merged p)"
    "run_chars (merge_step n merged p) = run_chars merged \<union> ({fst p..<snd p} \<inter> {0..<n})"
    "\<forall>(s, e) \<in> set (merge_step n merged p). 0 \<le> s \<and> e \<le> n \<and> s \<le> clamp n (fst p)"
    unfolding chars by blast+
qed

lemma prediction_chars_correct:
  assumes "0 \<le> n"
  shows "separated (prediction_chars spans n)"
    and "run_chars (prediction_chars spans n) = chars_of spans \<inter> {0..<n}"
    and "\<forall>(s, e) \<in> set (prediction_chars spans n). 0 \<le> s \<and> e \<le> n"
proof -
  have loop: "separated (foldl (merge_step n) merged ps)
      \<and> run_chars (foldl (merge_step n) merged ps) = run_chars merged \<union> (run_chars ps \<inter> {0..<n})
      \<and> (\<forall>(s, e) \<in> set (foldl (merge_step n) merged ps). 0 \<le> s \<and> e \<le> n)"
    if "separated merged" "sorted ps" "\<forall>(s, e) \<in> set merged. 0 \<le> s \<and> e \<le> n"
      "\<forall>p \<in> set ps. \<forall>(s, e) \<in> set merged. s \<le> clamp n (fst p)" for merged ps
    using that
  proof (induction ps arbitrary: merged)
    case (Cons p ps)
    have "\<forall>(s, e) \<in> set merged. 0 \<le> s \<and> e \<le> n \<and> s \<le> clamp n (fst p)" using Cons.prems(3,4) by fastforce
    note step = merge_step_correct [OF assms Cons.prems(1) this]
    have "clamp n (fst p) \<le> clamp n (fst q)" if "q \<in> set ps" for q
      using Cons.prems(2) that by (intro clamp_mono) (auto simp: less_eq_prod_def)
    then have "\<forall>q \<in> set ps. \<forall>(s, e) \<in> set (merge_step n merged p). s \<le> clamp n (fst q)"
      using step(3) by fastforce
    moreover have "\<forall>(s, e) \<in> set (merge_step n merged p). 0 \<le> s \<and> e \<le> n" using step(3) by auto
    ultimately have IH: "separated (foldl (merge_step n) (merge_step n merged p) ps)"
      "run_chars (foldl (merge_step n) (merge_step n merged p) ps)
        = run_chars (merge_step n merged p) \<union> (run_chars ps \<inter> {0..<n})"
      "\<forall>(s, e) \<in> set (foldl (merge_step n) (merge_step n merged p) ps). 0 \<le> s \<and> e \<le> n"
      using Cons.IH [OF step(1)] Cons.prems(2) by simp_all
    have "run_chars (p # ps) = {fst p..<snd p} \<union> run_chars ps" by (cases p) simp
    with IH(2) step(2) have "run_chars (foldl (merge_step n) merged (p # ps))
        = run_chars merged \<union> (run_chars (p # ps) \<inter> {0..<n})" by (simp add: Int_Un_distrib2 Un_assoc)
    with IH(1,3) show ?case by simp
  qed simp
  have "run_chars (sort (map (\<lambda>s. (ls_start s, ls_end s)) spans)) = chars_of spans"
    by (simp add: run_chars_def chars_of_def span_chars_def)
  with loop [of "[]" "sort (map (\<lambda>s. (ls_start s, ls_end s)) spans)"]
  show "separated (prediction_chars spans n)"
    "run_chars (prediction_chars spans n) = chars_of spans \<inter> {0..<n}"
    "\<forall>(s, e) \<in> set (prediction_chars spans n). 0 \<le> s \<and> e \<le> n"
    by (simp_all add: prediction_chars_def)
qed

section \<open>False positives\<close>

definition run_overlap :: "int \<Rightarrow> int \<Rightarrow> run list \<Rightarrow> bool" where
  "run_overlap a b runs \<longleftrightarrow> list_ex (\<lambda>(s, e). s < b \<and> e > a) runs"

definition run_covered :: "run list \<Rightarrow> int \<Rightarrow> bool" where
  "run_covered runs p \<longleftrightarrow> run_overlap p (p + 1) runs"

lemma run_covered_iff: "run_covered runs p \<longleftrightarrow> p \<in> run_chars runs"
  by (fastforce simp: run_covered_def run_overlap_def run_chars_def list_ex_iff)

text \<open>\<open>while cursor < pe and P(cursor): cursor += 1\<close>\<close>

function advance :: "(int \<Rightarrow> bool) \<Rightarrow> int \<Rightarrow> int \<Rightarrow> int" where
  "advance P cursor pe = (if cursor < pe \<and> P cursor then advance P (cursor + 1) pe else cursor)"
  by pat_completeness auto
termination by (relation "measure (\<lambda>(P, cursor, pe). nat (pe - cursor))") auto

declare advance.simps [simp del]

lemma advance_correct:
  "cursor \<le> advance P cursor pe \<and> (\<forall>p. cursor \<le> p \<and> p < advance P cursor pe \<longrightarrow> P p)
   \<and> (advance P cursor pe < pe \<longrightarrow> \<not> P (advance P cursor pe))
   \<and> (cursor \<le> pe \<longrightarrow> advance P cursor pe \<le> pe)"
proof (induction P cursor pe rule: advance.induct)
  case (1 P cursor pe)
  show ?case
  proof (cases "cursor < pe \<and> P cursor")
    case True
    with 1 have "\<forall>p. cursor \<le> p \<and> p < advance P (cursor + 1) pe \<longrightarrow> P p"
      by (metis linorder_not_less order_antisym_conv zless_imp_add1_zle)
    with 1 True show ?thesis by (auto simp: advance.simps [of P cursor pe])
  qed (auto simp: advance.simps [of P cursor pe])
qed

function fp_loop :: "run list \<Rightarrow> int \<Rightarrow> int \<Rightarrow> run list" where
  "fp_loop support cursor pe =
     (if cursor < pe then
        (let start = advance (run_covered support) cursor pe
         in if start \<ge> pe then []
            else let stop = advance (\<lambda>p. \<not> run_covered support p) start pe
                 in (start, stop) # fp_loop support stop pe)
      else [])"
  by pat_completeness auto

lemma advance_first:
  assumes "advance P cursor pe < pe"
  shows "advance P cursor pe < advance (\<lambda>p. \<not> P p) (advance P cursor pe) pe"
proof -
  define a where "a = advance P cursor pe"
  have "a < pe" "\<not> P a" using assms advance_correct [of cursor P pe] by (simp_all add: a_def)
  then have "advance (\<lambda>p. \<not> P p) a pe = advance (\<lambda>p. \<not> P p) (a + 1) pe"
    by (simp add: advance.simps [of _ a pe])
  with advance_correct [of "a + 1" "\<lambda>p. \<not> P p" pe] show ?thesis by (simp add: a_def)
qed

termination fp_loop
proof (relation "measure (\<lambda>(support, cursor, pe). nat (pe - cursor))", goal_cases)
  case (2 support cursor pe start stop)
  then show ?case
    using advance_correct [of cursor "run_covered support" pe]
      advance_first [of "run_covered support" cursor pe] by auto
qed simp

declare fp_loop.simps [simp del]

definition false_positive_runs :: "run list \<Rightarrow> run list \<Rightarrow> int \<Rightarrow> run list" where
  "false_positive_runs prediction_runs support text_len =
     (if prediction_runs = [] then []
      else concat (map (\<lambda>(ps, pe). fp_loop support ps pe) prediction_runs))"

lemma fp_loop_correct:
  "run_chars (fp_loop support cursor pe) = {cursor..<pe} - run_chars support
   \<and> separated (fp_loop support cursor pe)
   \<and> (\<forall>(s, e) \<in> set (fp_loop support cursor pe). cursor \<le> s \<and> e \<le> pe \<and> s \<notin> run_chars support)"
proof (induction support cursor pe rule: fp_loop.induct)
  case (1 support cursor pe)
  define a where "a = advance (run_covered support) cursor pe"
  define b where "b = advance (\<lambda>p. \<not> run_covered support p) a pe"
  have a: "cursor \<le> a" "\<And>p. cursor \<le> p \<Longrightarrow> p < a \<Longrightarrow> p \<in> run_chars support"
    "a < pe \<Longrightarrow> a \<notin> run_chars support"
    using advance_correct [of cursor "run_covered support" pe] by (simp_all add: a_def run_covered_iff)
  show ?case
  proof (cases "cursor < pe \<and> a < pe")
    case True
    have b: "\<And>p. a \<le> p \<Longrightarrow> p < b \<Longrightarrow> p \<notin> run_chars support"
      "b < pe \<Longrightarrow> b \<in> run_chars support" "b \<le> pe" "a < b"
      using advance_correct [of a "\<lambda>p. \<not> run_covered support p" pe]
        advance_first [of "run_covered support" cursor pe] True
      by (simp_all add: a_def b_def run_covered_iff)
    let ?rest = "fp_loop support b pe"
    have eq: "fp_loop support cursor pe = (a, b) # ?rest"
      using True by (simp add: fp_loop.simps [of support cursor pe] Let_def a_def b_def)
    from 1 [OF _ a_def _ b_def] True have
      IH: "run_chars ?rest = {b..<pe} - run_chars support" "separated ?rest"
        "\<And>s e. (s, e) \<in> set ?rest \<Longrightarrow> b \<le> s \<and> e \<le> pe \<and> s \<notin> run_chars support" by auto
    have "b < s" if "(s, e) \<in> set ?rest" for s e
    proof -
      have "s < e" using that IH(2) by (auto simp: separated_def)
      with IH(3) [OF that] b(2) show ?thesis by (cases "s = b") auto
    qed
    then have "separated ((a, b) # ?rest)" using IH(2) b(4) by (auto simp: separated_Cons)
    moreover have "{cursor..<pe} = {cursor..<a} \<union> {a..<b} \<union> {b..<pe}"
      using a(1) b(3,4) by auto
    then have "{cursor..<pe} - run_chars support = {a..<b} \<union> ({b..<pe} - run_chars support)"
      using a(2) b(1) by auto
    moreover have "\<forall>(s, e) \<in> set ((a, b) # ?rest). cursor \<le> s \<and> e \<le> pe \<and> s \<notin> run_chars support"
      using IH(3) a(1,3) b(3,4) True by fastforce
    ultimately show ?thesis unfolding eq using IH(1) by simp
  next
    case False
    then have "fp_loop support cursor pe = []"
      by (auto simp: fp_loop.simps [of support cursor pe] Let_def a_def)
    with False a(2) show ?thesis by auto
  qed
qed

theorem false_positive_runs_correct:
  assumes "separated preds"
  shows "run_chars (false_positive_runs preds support n) = run_chars preds - run_chars support
    \<and> separated (false_positive_runs preds support n)"
proof -
  let ?fps = "\<lambda>preds. concat (map (\<lambda>(ps, pe). fp_loop support ps pe) preds)"
  have "run_chars (?fps preds) = run_chars preds - run_chars support \<and> separated (?fps preds)
    \<and> (\<forall>(s, e) \<in> set (?fps preds). \<exists>(ps, pe) \<in> set preds. ps \<le> s \<and> e \<le> pe)"
    using assms
  proof (induction preds)
    case (Cons p preds)
    obtain ps pe where p: "p = (ps, pe)" by (cases p)
    note loop = fp_loop_correct [of support ps pe]
    have IH: "run_chars (?fps preds) = run_chars preds - run_chars support" "separated (?fps preds)"
      "\<And>s e. (s, e) \<in> set (?fps preds) \<Longrightarrow> \<exists>(ps, pe) \<in> set preds. ps \<le> s \<and> e \<le> pe"
      using Cons p by (auto simp: separated_Cons)
    have "e < s'" if "(s, e) \<in> set (fp_loop support ps pe)" "(s', e') \<in> set (?fps preds)" for s e s' e'
      using IH(3) [OF that(2)] loop that(1) Cons.prems p by (fastforce simp: separated_Cons)
    then have "separated (fp_loop support ps pe @ ?fps preds)"
      using loop IH(2) by (auto simp: separated_append simp del: set_concat)
    moreover have "\<exists>(ps', pe') \<in> set (p # preds). ps' \<le> s \<and> e \<le> pe'"
      if "(s, e) \<in> set (fp_loop support ps pe) \<or> (s, e) \<in> set (?fps preds)" for s e
      using that
    proof
      assume "(s, e) \<in> set (fp_loop support ps pe)"
      with loop have "ps \<le> s \<and> e \<le> pe" by auto
      then show ?thesis using p by simp
    next
      assume "(s, e) \<in> set (?fps preds)"
      from IH(3) [OF this] show ?thesis by simp
    qed
    moreover have "?fps (p # preds) = fp_loop support ps pe @ ?fps preds" using p by simp
    ultimately show ?case
      using loop IH(1) p by (simp only: run_chars_simps Un_Diff set_append) blast
  qed simp
  then show ?thesis by (simp add: false_positive_runs_def)
qed

section \<open>Gaps\<close>

fun gap_loop :: "run list \<Rightarrow> int \<Rightarrow> int \<Rightarrow> run list" where
  "gap_loop [] cursor n = (if cursor < n then [(cursor, n)] else [])"
| "gap_loop ((s, e) # support) cursor n =
     (if cursor < s then [(cursor, s)] else []) @ gap_loop support (max cursor e) n"

definition gap_runs :: "run list \<Rightarrow> int \<Rightarrow> run list" where
  "gap_runs support n = (if n = 0 then [] else gap_loop support 0 n)"

lemma gap_loop_correct:
  assumes "separated support" "\<forall>(s, e) \<in> set support. cursor \<le> s \<and> e \<le> n"
  shows "run_chars (gap_loop support cursor n) = {cursor..<n} - run_chars support
    \<and> separated (gap_loop support cursor n) \<and> (\<forall>(s, e) \<in> set (gap_loop support cursor n). cursor \<le> s)"
  using assms
proof (induction support cursor n rule: gap_loop.induct)
  case (2 s e support cursor n)
  from "2.prems" have se: "cursor \<le> s" "s < e" "e \<le> n" and rest: "separated support"
    and after: "\<forall>(s', e') \<in> set support. e < s' \<and> e' \<le> n"
    by (auto simp: separated_Cons)
  let ?gaps = "gap_loop support e n"
  have IH: "run_chars ?gaps = {e..<n} - run_chars support" "separated ?gaps"
    "\<And>s' e'. (s', e') \<in> set ?gaps \<Longrightarrow> e \<le> s'"
  proof -
    have "max cursor e = e" "\<forall>(s', e') \<in> set support. e \<le> s' \<and> e' \<le> n"
      using se after by fastforce+
    with "2.IH" [OF rest] show "run_chars ?gaps = {e..<n} - run_chars support" "separated ?gaps"
      "\<And>s' e'. (s', e') \<in> set ?gaps \<Longrightarrow> e \<le> s'" by auto
  qed
  have "p \<notin> run_chars support" if "p < e" for p using after that by (fastforce simp: run_chars_def)
  moreover have "{cursor..<n} = {cursor..<s} \<union> {s..<e} \<union> {e..<n}" using se by auto
  ultimately have "{cursor..<n} - run_chars ((s, e) # support)
      = {cursor..<s} \<union> ({e..<n} - run_chars support)" using se by auto
  moreover have "gap_loop ((s, e) # support) cursor n = (if cursor < s then [(cursor, s)] else []) @ ?gaps"
    using se by (simp add: max_def)
  moreover have "separated ((if cursor < s then [(cursor, s)] else []) @ ?gaps)"
    using IH(2,3) se by (force simp: separated_append separated_Cons)
  moreover have "\<forall>(s', e') \<in> set ((if cursor < s then [(cursor, s)] else []) @ ?gaps). cursor \<le> s'"
    using IH(3) se by force
  ultimately show ?case using IH(1) by simp
qed (simp add: separated_Cons)

theorem gap_runs_correct:
  assumes "separated support" "\<forall>(s, e) \<in> set support. 0 \<le> s \<and> e \<le> n" "0 \<le> n"
  shows "run_chars (gap_runs support n) = {0..<n} - run_chars support \<and> separated (gap_runs support n)"
  using gap_loop_correct [OF assms(1,2)] assms(3) by (auto simp: gap_runs_def)

section \<open>Coverage\<close>

fun hit_count :: "labelled_span \<Rightarrow> run list \<Rightarrow> int" where
  "hit_count s [] = 0"
| "hit_count s ((ps, pe) # runs) =
     (if pe \<le> ls_start s then hit_count s runs
      else if ps \<ge> ls_end s then 0
      else (min pe (ls_end s) - max ps (ls_start s)) + hit_count s runs)"

definition coverage :: "labelled_span \<Rightarrow> run list \<Rightarrow> rat" where
  "coverage s pred_runs =
     (let total = ls_end s - ls_start s
      in if total \<le> 0 then 0 else of_int (hit_count s pred_runs) / of_int total)"

text \<open>On separated runs the loop, with its early exit, counts the positions in common.\<close>

lemma hit_count_card:
  assumes "separated runs" "ls_start s < ls_end s"
  shows "hit_count s runs = int (card (span_chars s \<inter> run_chars runs))"
  using assms
proof (induction s runs rule: hit_count.induct)
  case (2 s ps pe runs)
  let ?S = "span_chars s"
  from "2.prems" have sep: "ps < pe" "separated runs" "ls_start s < ls_end s" "\<And>s' e'. (s', e') \<in> set runs \<Longrightarrow> pe < s'"
    by (auto simp: separated_Cons)
  note IH = "2.IH"(1) [OF _ sep(2,3)] "2.IH"(2) [OF _ _ sep(2,3)]
  have after: "pe < p" if "p \<in> run_chars runs" for p
    using that sep(4) by (fastforce simp: run_chars_def)
  consider "pe \<le> ls_start s" | "pe > ls_start s" "ps \<ge> ls_end s"
    | "pe > ls_start s" "ps < ls_end s" by linarith
  then show ?case
  proof cases
    case 1
    then have "?S \<inter> {ps..<pe} = {}" by (auto simp: span_chars_def)
    with 1 IH(1) show ?thesis by (simp add: Int_Un_distrib)
  next
    case 2
    then have "?S \<inter> run_chars ((ps, pe) # runs) = {}"
      using after sep(1) by (fastforce simp: span_chars_def)
    with 2 show ?thesis by simp
  next
    case 3
    have "card (?S \<inter> run_chars ((ps, pe) # runs)) = card ((?S \<inter> {ps..<pe}) \<union> (?S \<inter> run_chars runs))"
      by (simp add: Int_Un_distrib)
    also have "\<dots> = card (?S \<inter> {ps..<pe}) + card (?S \<inter> run_chars runs)"
      using after by (intro card_Un_disjoint) (fastforce simp: span_chars_def)+
    also have "?S \<inter> {ps..<pe} = {max ps (ls_start s)..<min pe (ls_end s)}"
      by (auto simp: span_chars_def)
    finally have "card (?S \<inter> run_chars ((ps, pe) # runs))
      = nat (min pe (ls_end s) - max ps (ls_start s)) + card (?S \<inter> run_chars runs)" by simp
    moreover have "max ps (ls_start s) \<le> min pe (ls_end s)"
      using 3 sep(1,3) unfolding max_def min_def by auto
    ultimately show ?thesis using 3 IH(2) by simp
  qed
qed simp

lemma coverage_correct:
  assumes "separated runs"
  shows "coverage s runs
    = of_nat (card (span_chars s \<inter> run_chars runs)) / of_nat (card (span_chars s))"
proof (cases "ls_start s < ls_end s")
  case True
  then have "of_nat (card (span_chars s)) = (of_int (ls_end s - ls_start s) :: rat)"
    by (simp add: span_chars_def)
  with True show ?thesis by (simp add: coverage_def hit_count_card [OF assms True] Let_def)
next
  case False
  then show ?thesis by (simp add: coverage_def span_chars_def)
qed

lemma coverage_bounds:
  assumes "separated runs"
  shows "0 \<le> coverage s runs \<and> coverage s runs \<le> 1"
proof -
  have "card (span_chars s \<inter> run_chars runs) \<le> card (span_chars s)"
    by (intro card_mono) (auto simp: span_chars_def)
  then show ?thesis unfolding coverage_correct [OF assms]
    by (cases "card (span_chars s) = 0") (auto simp: divide_le_eq_1)
qed

lemma coverage_one_iff:
  assumes "separated runs" "ls_start s < ls_end s"
  shows "coverage s runs = 1 \<longleftrightarrow> span_chars s \<subseteq> run_chars runs"
proof -
  have fin: "finite (span_chars s)" "card (span_chars s) \<noteq> 0"
    using assms(2) by (simp_all add: span_chars_def)
  then have "coverage s runs = 1 \<longleftrightarrow> card (span_chars s \<inter> run_chars runs) = card (span_chars s)"
    unfolding coverage_correct [OF assms(1)] by (auto simp: divide_eq_1_iff)
  also have "\<dots> \<longleftrightarrow> span_chars s \<inter> run_chars runs = span_chars s"
    using fin by (auto dest: card_subset_eq [OF fin(1) Int_lower1])
  finally show ?thesis by blast
qed

end
