(* ===== verification/ScoreDocument.thy ===== *)
theory ScoreDocument
  imports RScore
begin

text \<open>
  \<open>score_document\<close>, \<open>percentile\<close> and \<open>rscore\<close> of \<open>app/bench/rscore.py\<close> over the intervals of
  \<open>RScore\<close> and the entities of \<open>Fusion\<close>. A well-formed document is always scored, its score
  lies between 0 and 1, and the score is 1 exactly when there is something to score, all
  mandatory positions are redacted, nothing outside the annotation is, and every attempted
  contextual span is redacted in full. Division is exact: floats are rationals.
\<close>

section \<open>Means and sums\<close>

text \<open>\<open>statistics.mean\<close> of a non-empty list.\<close>

definition mean :: "rat list \<Rightarrow> rat" where
  "mean xs = sum_list xs / of_nat (length xs)"

lemma sum_list_le: "(\<And>x. x \<in> set xs \<Longrightarrow> f x \<le> (g x :: rat)) \<Longrightarrow> sum_list (map f xs) \<le> sum_list (map g xs)"
  by (rule sum_list_mono)

lemma sum_list_eq_iff:
  assumes "\<And>x. x \<in> set xs \<Longrightarrow> f x \<le> (g x :: rat)"
  shows "sum_list (map f xs) = sum_list (map g xs) \<longleftrightarrow> (\<forall>x \<in> set xs. f x = g x)"
  using assms
proof (induction xs)
  case (Cons x xs)
  have "f x \<le> g x" "sum_list (map f xs) \<le> sum_list (map g xs)"
    using Cons.prems by (auto intro: sum_list_le)
  then have "f x + sum_list (map f xs) = g x + sum_list (map g xs)
      \<longleftrightarrow> f x = g x \<and> sum_list (map f xs) = sum_list (map g xs)" by linarith
  with Cons show ?case by simp
qed simp

lemma sum_list_const: "sum_list (map (\<lambda>_. c) xs) = of_nat (length xs) * (c :: rat)"
  by (induction xs) (simp_all add: algebra_simps)

lemma mean_bounds:
  assumes "xs \<noteq> []" "\<And>x. x \<in> set xs \<Longrightarrow> a \<le> x \<and> x \<le> b"
  shows "a \<le> mean xs \<and> mean xs \<le> b"
proof -
  have "of_nat (length xs) * a \<le> sum_list xs" "sum_list xs \<le> of_nat (length xs) * b"
    using sum_list_le [of xs "\<lambda>_. a" "\<lambda>x. x"] sum_list_le [of xs "\<lambda>x. x" "\<lambda>_. b"] assms(2)
    by (auto simp: sum_list_const)
  moreover have "0 < (of_nat (length xs) :: rat)" using assms(1) by simp
  ultimately show ?thesis by (simp add: mean_def le_divide_eq divide_le_eq algebra_simps)
qed

lemma mean_one_iff:
  assumes "xs \<noteq> []" "\<And>x. x \<in> set xs \<Longrightarrow> x \<le> 1"
  shows "mean xs = 1 \<longleftrightarrow> (\<forall>x \<in> set xs. x = 1)"
proof -
  have "mean xs = 1 \<longleftrightarrow> sum_list (map (\<lambda>x. x) xs) = sum_list (map (\<lambda>_. 1) xs)"
    using assms(1) by (auto simp: mean_def sum_list_const divide_eq_1_iff)
  also have "\<dots> \<longleftrightarrow> (\<forall>x \<in> set xs. x = 1)" by (rule sum_list_eq_iff) (rule assms(2))
  finally show ?thesis .
qed

section \<open>Score terms\<close>

definition GAP_THRESHOLD :: int where
  "GAP_THRESHOLD = 3"

record entity_score =
  es_index :: nat
  es_kind :: string
  es_n :: rat
  es_d :: rat
  es_active :: "labelled_span list"

record fp_score =
  fs_index :: nat
  fs_n :: rat
  fs_d :: rat
  fs_gap :: bool

record r_document =
  rdoc_id :: string
  rdoc_mandatory :: "entity_score list"
  rdoc_contextual :: "entity_score list"
  rdoc_fps :: "fp_score list"
  rdoc_skipped :: nat
  rdoc_reason :: string
  rdoc_n :: rat
  rdoc_d :: rat
  rdoc_score :: rat

definition has_mandatory :: "r_document \<Rightarrow> bool" where
  "has_mandatory d \<longleftrightarrow> rdoc_mandatory d \<noteq> []"

fun red_scores :: "run list \<Rightarrow> nat \<Rightarrow> span_group list \<Rightarrow> entity_score list" where
  "red_scores pred_runs idx [] = []"
| "red_scores pred_runs idx (g # groups) =
     (if members g = [] then red_scores pred_runs (idx + 1) groups
      else \<lparr>es_index = idx, es_kind = ''mandatory'',
             es_n = mean (map (\<lambda>s. coverage s pred_runs) (members g)), es_d = 1, es_active = []\<rparr>
           # red_scores pred_runs (idx + 1) groups)"

definition context_term :: "run list \<Rightarrow> bool \<Rightarrow> nat \<Rightarrow> labelled_span list \<Rightarrow> entity_score" where
  "context_term pred_runs all_ctx_active idx active =
     (let cov = mean (map (\<lambda>s. coverage s pred_runs) active)
      in if all_ctx_active
         then \<lparr>es_index = idx, es_kind = ''contextual-optional'', es_n = cov, es_d = 1,
                es_active = active\<rparr>
         else \<lparr>es_index = idx, es_kind = ''contextual-penalty'', es_n = 0, es_d = 1 - cov,
                es_active = active\<rparr>)"

definition active_members :: "labelled_span list \<Rightarrow> span_group \<Rightarrow> labelled_span list" where
  "active_members selected g = filter (\<lambda>m. span_id m \<in> span_id ` set selected) (members g)"

text \<open>The contextual terms and the number of entities without an attempted member.\<close>

fun contextual_scores ::
  "run list \<Rightarrow> bool \<Rightarrow> labelled_span list \<Rightarrow> nat \<Rightarrow> span_group list \<Rightarrow> entity_score list \<times> nat" where
  "contextual_scores pred_runs all_ctx_active selected idx [] = ([], 0)"
| "contextual_scores pred_runs all_ctx_active selected idx (g # groups) =
     (case contextual_scores pred_runs all_ctx_active selected (idx + 1) groups of
        (scores, skipped) \<Rightarrow>
          let active = active_members selected g
          in if active = [] then (scores, skipped + 1)
             else (context_term pred_runs all_ctx_active idx active # scores, skipped))"

definition covers_gap :: "run list \<Rightarrow> run \<Rightarrow> bool" where
  "covers_gap gaps_ge3 fp \<longleftrightarrow> list_ex (\<lambda>g. fst fp \<le> fst g \<and> snd fp \<ge> snd g) gaps_ge3"

definition fp_scores :: "run list \<Rightarrow> run list \<Rightarrow> fp_score list" where
  "fp_scores gaps_ge3 fp_runs =
     map (\<lambda>(i, fp). \<lparr>fs_index = i, fs_n = 0, fs_d = (if covers_gap gaps_ge3 fp then 2 else 1),
                       fs_gap = covers_gap gaps_ge3 fp\<rparr>)
       (enumerate 0 fp_runs)"

text \<open>The second half of \<open>score_document\<close>: the terms and their sums.\<close>

definition aggregate ::
  "string \<Rightarrow> run list \<Rightarrow> run list \<Rightarrow> int \<Rightarrow> bool \<Rightarrow> labelled_span list \<Rightarrow> fused_entities \<Rightarrow> r_document" where
  "aggregate doc_id pred_runs support_segments text_len all_ctx_active selected entities =
     (let reds = red_scores pred_runs 0 (red_entities entities);
          ctxs = contextual_scores pred_runs all_ctx_active selected 0 (contextual_entities entities);
          fp_runs = false_positive_runs pred_runs support_segments text_len;
          gaps = gap_runs support_segments text_len;
          gaps_ge3 = filter (\<lambda>g. snd g - fst g \<ge> GAP_THRESHOLD) gaps;
          fps = fp_scores gaps_ge3 fp_runs;
          total_n = sum_list (map es_n reds) + sum_list (map es_n (fst ctxs));
          total_d = sum_list (map es_d reds) + sum_list (map es_d (fst ctxs)) + sum_list (map fs_d fps)
      in \<lparr>rdoc_id = doc_id, rdoc_mandatory = reds, rdoc_contextual = fst ctxs, rdoc_fps = fps,
          rdoc_skipped = snd ctxs,
          rdoc_reason = (if snd ctxs \<noteq> 0 then ''empty_active_subset'' else []),
          rdoc_n = total_n, rdoc_d = total_d,
          rdoc_score = (if total_d > 0 then total_n / total_d else 0)\<rparr>)"

definition score_document ::
  "string \<Rightarrow> labelled_span list \<Rightarrow> labelled_span list \<Rightarrow> string \<Rightarrow> r_document res" where
  "score_document t annotation_spans prediction_spans doc_id =
     (let text_len = int (length t);
          pred_runs = prediction_chars prediction_spans text_len;
          support_spans = filter (\<lambda>s. ls_cat s \<in> {MANDATORY, CONTEXTUAL}) annotation_spans;
          support_segments = support_runs support_spans text_len;
          mand = mandatory annotation_spans;
          ctx = contextual annotation_spans
      in bind_res (build_connector_structure t mand ctx) (\<lambda>cs.
         bind_res (selected_contextual_spans ctx prediction_spans cs) (\<lambda>selected.
         map_res (aggregate doc_id pred_runs support_segments text_len (mand = [] \<and> ctx \<noteq> []) selected)
          (fused_entity_groups ctx cs t))))"

section \<open>The terms are between 0 and 1\<close>

definition term_ok :: "entity_score \<Rightarrow> bool" where
  "term_ok e \<longleftrightarrow> 0 \<le> es_n e \<and> es_n e \<le> es_d e"

lemma mean_coverage_bounds:
  assumes "separated runs" "xs \<noteq> []"
  shows "0 \<le> mean (map (\<lambda>s. coverage s runs) xs) \<and> mean (map (\<lambda>s. coverage s runs) xs) \<le> 1"
  by (rule mean_bounds) (use assms coverage_bounds in auto)

lemma mean_coverage_one_iff:
  assumes "separated runs" "xs \<noteq> []" "\<forall>s \<in> set xs. ls_start s < ls_end s"
  shows "mean (map (\<lambda>s. coverage s runs) xs) = 1 \<longleftrightarrow> (\<forall>s \<in> set xs. span_chars s \<subseteq> run_chars runs)"
proof -
  have "mean (map (\<lambda>s. coverage s runs) xs) = 1 \<longleftrightarrow> (\<forall>s \<in> set xs. coverage s runs = 1)"
    using assms(1,2) coverage_bounds by (subst mean_one_iff) auto
  with assms(1,3) coverage_one_iff show ?thesis by blast
qed

lemma red_scores_ok: "separated runs \<Longrightarrow> list_all term_ok (red_scores runs idx groups)"
  by (induction groups arbitrary: idx) (auto simp: term_ok_def mean_coverage_bounds)

lemma set_active_members [simp]: "set (active_members selected g) = set (members g) \<inter> set selected"
  by (auto simp: active_members_def)

lemma fst_contextual_scores_Cons [simp]:
  "fst (contextual_scores runs all selected idx (g # groups)) =
     (let active = active_members selected g; rest = fst (contextual_scores runs all selected (idx + 1) groups)
      in if active = [] then rest else context_term runs all idx active # rest)"
  by (simp add: Let_def split: prod.splits)

lemma context_term_ok:
  "separated runs \<Longrightarrow> active \<noteq> [] \<Longrightarrow> term_ok (context_term runs all idx active)"
  by (simp add: term_ok_def context_term_def mean_coverage_bounds Let_def)

lemma context_term_full:
  "es_n (context_term runs all idx active) = es_d (context_term runs all idx active)
   \<longleftrightarrow> mean (map (\<lambda>s. coverage s runs) active) = 1"
  by (auto simp: context_term_def Let_def)

lemma contextual_scores_ok:
  "separated runs \<Longrightarrow> list_all term_ok (fst (contextual_scores runs all selected idx groups))"
  by (induction groups arbitrary: idx)
    (simp_all add: context_term_ok Let_def del: contextual_scores.simps(2))

lemma fp_scores_d: "e \<in> set (fp_scores gaps fps) \<Longrightarrow> 1 \<le> fs_d e"
  by (auto simp: fp_scores_def)

lemma length_fp_scores [simp]: "length (fp_scores gaps fps) = length fps"
  by (simp add: fp_scores_def)

lemma fp_scores_sum: "of_nat (length fps) \<le> sum_list (map fs_d (fp_scores gaps fps))"
  using sum_list_le [of "fp_scores gaps fps" "\<lambda>_. 1" fs_d, OF fp_scores_d]
  by (simp add: sum_list_const)

text \<open>Mandatory terms are full exactly when their spans are redacted, and so are the penalties.\<close>

lemma red_scores_full:
  assumes "separated runs" "\<forall>g \<in> set groups. \<forall>s \<in> set (members g). ls_start s < ls_end s"
  shows "(\<forall>e \<in> set (red_scores runs idx groups). es_n e = es_d e) \<longleftrightarrow>
    (\<forall>g \<in> set groups. \<forall>s \<in> set (members g). span_chars s \<subseteq> run_chars runs)"
  using assms(2)
proof (induction groups arbitrary: idx)
  case (Cons g groups)
  then show ?case using mean_coverage_one_iff [OF assms(1), of "members g"] by auto
qed simp

lemma contextual_scores_full:
  assumes "separated runs" "\<forall>g \<in> set groups. \<forall>s \<in> set (members g). ls_start s < ls_end s"
  shows "(\<forall>e \<in> set (fst (contextual_scores runs all selected idx groups)). es_n e = es_d e) \<longleftrightarrow>
    (\<forall>g \<in> set groups. \<forall>s \<in> set (members g). s \<in> set selected \<longrightarrow> span_chars s \<subseteq> run_chars runs)"
  using assms(2)
proof (induction groups arbitrary: idx)
  case (Cons g groups)
  have "active_members selected g \<noteq> [] \<Longrightarrow>
      mean (map (\<lambda>s. coverage s runs) (active_members selected g)) = 1 \<longleftrightarrow>
      (\<forall>s \<in> set (members g). s \<in> set selected \<longrightarrow> span_chars s \<subseteq> run_chars runs)"
    using Cons.prems mean_coverage_one_iff [OF assms(1), of "active_members selected g"] by auto
  moreover have "active_members selected g = [] \<Longrightarrow> \<forall>s \<in> set (members g). s \<notin> set selected"
    using set_active_members [of selected g] by auto
  moreover have "(\<forall>e \<in> set (fst (contextual_scores runs all selected (idx + 1) groups)). es_n e = es_d e)
      \<longleftrightarrow> (\<forall>g \<in> set groups. \<forall>s \<in> set (members g). s \<in> set selected \<longrightarrow> span_chars s \<subseteq> run_chars runs)"
    using Cons by simp
  ultimately show ?case
    by (cases "active_members selected g = []")
      (simp_all add: context_term_full Let_def del: contextual_scores.simps(2))
qed simp

section \<open>The score of a document\<close>

text \<open>The second half on its own: the sums of terms between 0 and 1.\<close>

lemma terms_le:
  assumes "list_all term_ok es"
  shows "0 \<le> sum_list (map es_n es) \<and> sum_list (map es_n es) \<le> sum_list (map es_d es)"
  using assms by (auto simp: list_all_iff term_ok_def intro!: sum_list_nonneg sum_list_le)

lemma aggregate_sums:
  assumes "separated runs"
  shows "0 \<le> rdoc_n (aggregate doc_id runs segs n all sel fe)
    \<and> rdoc_n (aggregate doc_id runs segs n all sel fe) \<le> rdoc_d (aggregate doc_id runs segs n all sel fe)"
proof -
  have "0 \<le> sum_list (map fs_d (fp_scores gaps fps))" for gaps fps
    using fp_scores_sum [of fps gaps] by (rule order_trans [rotated]) simp
  note terms_le [OF red_scores_ok [OF assms, of 0 "red_entities fe"]]
    terms_le [OF contextual_scores_ok [OF assms, of all sel 0 "contextual_entities fe"]] this
  then show ?thesis unfolding aggregate_def Let_def by (simp add: add_increasing2 add_mono)
qed

lemma aggregate_score:
  "rdoc_score (aggregate doc_id runs segs n all sel fe) =
     (let d = rdoc_d (aggregate doc_id runs segs n all sel fe)
      in if d > 0 then rdoc_n (aggregate doc_id runs segs n all sel fe) / d else 0)"
  by (simp add: aggregate_def Let_def)

lemma support_all: "filter (\<lambda>s. ls_cat s \<in> {MANDATORY, CONTEXTUAL}) ann = ann"
  by (rule filter_True) (metis insert_iff span_category.exhaust)

lemma score_document_total:
  assumes "list_all (well_placed (int (length t))) ann" "\<forall>p \<in> set preds. ls_start p \<le> ls_end p"
  shows "\<exists>doc. score_document t ann preds doc_id = Inr doc"
proof -
  have ctx: "list_all (well_placed (int (length t))) (contextual ann)"
    using assms(1) by (simp add: contextual_def list_all_iff)
  then have "\<forall>y \<in> set (contextual ann). ls_start y < ls_end y"
    by (auto simp: list_all_iff well_placed_def)
  moreover obtain cs where "build_connector_structure t (mandatory ann) (contextual ann) = Inr cs"
    "structure_of t (mandatory ann) (contextual ann) cs"
    using build_connector_structure_correct by blast
  ultimately show ?thesis
    using selected_spans_least [OF _ assms(2)] fused_entity_groups_correct [OF ctx, of cs]
    by (fastforce simp: score_document_def Let_def split: prod.splits)
qed

lemma score_document_sums:
  assumes "score_document t ann preds doc_id = Inr doc"
  shows "0 \<le> rdoc_n doc \<and> rdoc_n doc \<le> rdoc_d doc \<and> 0 \<le> rdoc_score doc \<and> rdoc_score doc \<le> 1"
proof -
  from assms obtain segs all sel fe where doc:
    "doc = aggregate doc_id (prediction_chars preds (int (length t))) segs (int (length t)) all sel fe"
    by (auto simp: score_document_def Let_def bind_res_Inr_iff map_res_Inr_iff)
  have "separated (prediction_chars preds (int (length t)))" by (rule prediction_chars_correct) simp
  from aggregate_sums [OF this] show ?thesis
    unfolding doc by (simp add: aggregate_score Let_def divide_le_eq_1)
qed

theorem score_document_bounds:
  assumes "list_all (well_placed (int (length t))) ann" "\<forall>p \<in> set preds. ls_start p \<le> ls_end p"
  shows "\<exists>doc. score_document t ann preds doc_id = Inr doc
    \<and> 0 \<le> rdoc_n doc \<and> rdoc_n doc \<le> rdoc_d doc \<and> 0 \<le> rdoc_score doc \<and> rdoc_score doc \<le> 1"
  using score_document_total [OF assms, of doc_id] score_document_sums by blast

section \<open>The perfect score\<close>

lemma sum_terms_eq_iff:
  assumes "list_all term_ok es"
  shows "sum_list (map es_n es) = sum_list (map es_d es) \<longleftrightarrow> (\<forall>e \<in> set es. es_n e = es_d e)"
  using assms by (intro sum_list_eq_iff) (auto simp: list_all_iff term_ok_def)

lemma red_scores_positive: "\<exists>g \<in> set groups. members g \<noteq> [] \<Longrightarrow> 0 < sum_list (map es_d (red_scores runs idx groups))"
proof (induction groups arbitrary: idx)
  case (Cons g groups)
  have nonneg: "0 \<le> sum_list (map es_d (red_scores runs (Suc idx) groups))"
    by (induction groups arbitrary: idx) simp_all
  show ?case
  proof (cases "members g = []")
    case True
    with Cons show ?thesis by simp
  next
    case False
    with nonneg show ?thesis by simp
  qed
qed simp

lemma red_scores_none: "\<forall>g \<in> set groups. members g = [] \<Longrightarrow> red_scores runs idx groups = []"
  by (induction groups arbitrary: idx) auto

lemma contextual_scores_none:
  "\<forall>g \<in> set groups. active_members sel g = [] \<Longrightarrow> fst (contextual_scores runs all sel idx groups) = []"
  by (induction groups arbitrary: idx) (simp_all add: Let_def del: contextual_scores.simps(2))

lemma contextual_penalties:
  "sum_list (map es_n (fst (contextual_scores runs False sel idx groups))) = 0"
  by (induction groups arbitrary: idx) (simp_all add: context_term_def Let_def del: contextual_scores.simps(2))

lemma contextual_scores_positive:
  assumes "\<exists>g \<in> set groups. active_members sel g \<noteq> []"
  shows "0 < sum_list (map es_d (fst (contextual_scores runs True sel idx groups)))"
  using assms
proof (induction groups arbitrary: idx)
  case (Cons g groups)
  have nonneg: "0 \<le> sum_list (map es_d (fst (contextual_scores runs True sel (idx + 1) groups)))"
    by (induction groups arbitrary: idx) (simp_all add: context_term_def Let_def del: contextual_scores.simps(2))
  show ?case
  proof (cases "active_members sel g = []")
    case True
    with Cons show ?thesis by (simp add: Let_def del: contextual_scores.simps(2))
  next
    case False
    with nonneg show ?thesis by (simp add: context_term_def Let_def del: contextual_scores.simps(2))
  qed
qed simp

text \<open>
  A score of 1 needs something to score: a mandatory entity or, in a document that has only
  contextual entities (\<open>all\<close>), an attempted one.
\<close>

lemma aggregate_one_iff:
  assumes "separated runs"
  shows "rdoc_score (aggregate doc_id runs segs n all sel fe) = 1 \<longleftrightarrow>
    ((\<exists>g \<in> set (red_entities fe). members g \<noteq> [])
      \<or> all \<and> (\<exists>g \<in> set (contextual_entities fe). active_members sel g \<noteq> []))
    \<and> (\<forall>e \<in> set (red_scores runs 0 (red_entities fe)). es_n e = es_d e)
    \<and> (\<forall>e \<in> set (fst (contextual_scores runs all sel 0 (contextual_entities fe))). es_n e = es_d e)
    \<and> false_positive_runs runs segs n = []" (is "_ = 1 \<longleftrightarrow> ?some \<and> _")
proof -
  let ?reds = "red_scores runs 0 (red_entities fe)"
  let ?ctxs = "fst (contextual_scores runs all sel 0 (contextual_entities fe))"
  define fps where "fps = fp_scores (filter (\<lambda>g. snd g - fst g \<ge> GAP_THRESHOLD) (gap_runs segs n))
    (false_positive_runs runs segs n)"
  note reds = red_scores_ok [OF assms, of 0 "red_entities fe"]
    and ctxs = contextual_scores_ok [OF assms, of all sel 0 "contextual_entities fe"]
  have fps: "of_nat (length (false_positive_runs runs segs n)) \<le> sum_list (map fs_d fps)"
    unfolding fps_def by (rule fp_scores_sum)
  have empty: "sum_list (map fs_d fps) = 0 \<longleftrightarrow> false_positive_runs runs segs n = []"
  proof
    assume "sum_list (map fs_d fps) = 0"
    with fps have "(of_nat (length (false_positive_runs runs segs n)) :: rat) \<le> 0" by simp
    then show "false_positive_runs runs segs n = []" by simp
  qed (simp add: fps_def fp_scores_def)
  have agg: "rdoc_n (aggregate doc_id runs segs n all sel fe)
      = sum_list (map es_n ?reds) + sum_list (map es_n ?ctxs)"
    "rdoc_d (aggregate doc_id runs segs n all sel fe)
      = sum_list (map es_d ?reds) + sum_list (map es_d ?ctxs) + sum_list (map fs_d fps)"
    by (simp_all add: aggregate_def fps_def Let_def)
  note le = terms_le [OF reds] terms_le [OF ctxs]
  show ?thesis
  proof (cases ?some)
    case False
    then have "?reds = []" by (intro red_scores_none) blast
    moreover have "sum_list (map es_n ?ctxs) = 0"
      using False contextual_penalties contextual_scores_none by (cases all) auto
    ultimately have "rdoc_score (aggregate doc_id runs segs n all sel fe) = 0"
      unfolding aggregate_score Let_def agg by simp
    with False show ?thesis by auto
  next
    case True
    have "0 < sum_list (map es_d ?reds) \<or> 0 < sum_list (map es_d ?ctxs)"
    proof (cases "\<exists>g \<in> set (red_entities fe). members g \<noteq> []")
      case True
      then show ?thesis using red_scores_positive by blast
    next
      case False
      with \<open>?some\<close> have "all = True" "\<exists>g \<in> set (contextual_entities fe). active_members sel g \<noteq> []" by blast+
      then show ?thesis using contextual_scores_positive by simp
    qed
    moreover have "0 \<le> sum_list (map fs_d fps)" using fps by (rule order_trans [rotated]) simp
    ultimately have "rdoc_score (aggregate doc_id runs segs n all sel fe) = 1 \<longleftrightarrow>
        sum_list (map es_n ?reds) = sum_list (map es_d ?reds)
        \<and> sum_list (map es_n ?ctxs) = sum_list (map es_d ?ctxs) \<and> sum_list (map fs_d fps) = 0"
      using le unfolding aggregate_score Let_def agg by (auto simp: divide_eq_1_iff)
    then show ?thesis using True unfolding sum_terms_eq_iff [OF reds] sum_terms_eq_iff [OF ctxs] empty by simp
  qed
qed

lemma separated_empty_iff: "separated runs \<Longrightarrow> runs = [] \<longleftrightarrow> run_chars runs = {}"
  by (cases runs) (auto simp: separated_Cons)

lemma chars_of_groups:
  "chars_of (concat (map members groups)) = (\<Union>g \<in> set groups. \<Union>s \<in> set (members g). span_chars s)"
  by (auto simp: chars_of_def)

lemma chars_of_within:
  assumes "list_all (well_placed n) spans"
  shows "chars_of spans \<subseteq> {0..<n}"
  using assms by (auto simp: chars_of_def span_chars_def list_all_iff well_placed_def)

text \<open>C39. A document whose annotation lies inside the text is scored without an exception, and
  the score is 1 exactly when there is something to score, that is a mandatory span or, in a
  document without one, an attempted contextual span of an entity; every mandatory position
  is predicted; every predicted position of the text is labelled; and every attempted
  contextual span of an entity is predicted in full. So a document without mandatory spans
  scores 0 as long as no prediction attempts its contextual spans.\<close>

theorem perfect_score_iff:
  assumes ann: "list_all (well_placed (int (length t))) ann"
    and preds: "\<forall>p \<in> set preds. ls_start p \<le> ls_end p"
  shows "\<exists>doc cs fe. score_document t ann preds doc_id = Inr doc
    \<and> build_connector_structure t (mandatory ann) (contextual ann) = Inr cs
    \<and> fused_entity_groups (contextual ann) cs t = Inr fe
    \<and> (rdoc_score doc = 1 \<longleftrightarrow>
         (mandatory ann \<noteq> [] \<or> (\<exists>g \<in> set (contextual_entities fe). \<exists>s \<in> set (members g).
              attempted 0 (contextual ann) preds cs s))
         \<and> chars_of (mandatory ann) \<subseteq> chars_of preds
         \<and> chars_of preds \<inter> {0..<int (length t)} \<subseteq> chars_of ann
         \<and> (\<forall>g \<in> set (contextual_entities fe). \<forall>s \<in> set (members g).
              attempted 0 (contextual ann) preds cs s \<longrightarrow> span_chars s \<subseteq> chars_of preds))"
proof -
  let ?n = "int (length t)" and ?M = "mandatory ann" and ?C = "contextual ann"
  let ?P = "prediction_chars preds ?n" and ?S = "prediction_chars ann ?n"
  have len: "0 \<le> ?n" by simp
  note P = prediction_chars_correct [OF len, of preds] and S = prediction_chars_correct [OF len, of ann]
  have M: "list_all (well_placed ?n) ?M" and C: "list_all (well_placed ?n) ?C"
    using ann by (auto simp: mandatory_def contextual_def list_all_iff)
  then have nonempty: "\<forall>s \<in> set ?M \<union> set ?C. ls_start s < ls_end s"
    by (auto simp: list_all_iff well_placed_def)
  obtain cs where cs: "build_connector_structure t ?M ?C = Inr cs" "structure_of t ?M ?C cs"
    using build_connector_structure_correct by blast
  obtain sel where sel: "selected_contextual_spans ?C preds cs = Inr sel"
    "set sel = Collect (attempted 0 ?C preds cs)"
    using selected_spans_least [OF cs(2) preds] nonempty by blast
  obtain fe comps where fe: "fused_entity_groups ?C cs t = Inr fe" "red_entities fe = red_fusion_groups cs"
    "map members (contextual_entities fe) = filter (\<lambda>c. \<not> lone_marker ?C cs t c) comps"
    "components_of span_id (linked (context_adjacency ?C cs) ?C) (set ?C) comps"
    using fused_entity_groups_correct [OF C, of cs] by blast
  let ?doc = "aggregate doc_id ?P ?S ?n (?M = [] \<and> ?C \<noteq> []) sel fe"
  have doc: "score_document t ann preds doc_id = Inr ?doc"
    unfolding score_document_def support_all support_runs_def Let_def using cs(1) sel(1) fe(1) by simp
  have groups: "set (concat (map members (red_entities fe))) = set ?M"
    using cs(2) fe(2) by (simp add: structure_of_def groups_of_def components_of_def)
  have ctx_sub: "set (members g) \<subseteq> set ?C" if "g \<in> set (contextual_entities fe)" for g
  proof -
    from that have "members g \<in> set (map members (contextual_entities fe))" by simp
    then have "members g \<in> set comps" unfolding fe(3) by simp
    with fe(4) show ?thesis by (auto simp: components_of_def)
  qed
  have red_some: "(\<exists>g \<in> set (red_entities fe). members g \<noteq> []) \<longleftrightarrow> ?M \<noteq> []"
  proof -
    have "concat (map members (red_entities fe)) = [] \<longleftrightarrow> ?M = []" using groups by (metis set_empty)
    then show ?thesis by auto
  qed
  have ctx_some: "(\<exists>g \<in> set (contextual_entities fe). active_members sel g \<noteq> [])
      \<longleftrightarrow> (\<exists>g \<in> set (contextual_entities fe). \<exists>s \<in> set (members g). attempted 0 ?C preds cs s)"
  proof -
    have "active_members sel g \<noteq> [] \<longleftrightarrow> (\<exists>s \<in> set (members g). attempted 0 ?C preds cs s)" for g
      using set_active_members [of sel g] sel(2) by (metis (no_types, lifting) Int_iff ex_in_conv mem_Collect_eq set_empty)
    then show ?thesis by blast
  qed
  have "?C \<noteq> []" if "g \<in> set (contextual_entities fe)" "s \<in> set (members g)" for g s
    using ctx_sub [OF that(1)] that(2) by auto
  then have some: "(\<exists>g \<in> set (red_entities fe). members g \<noteq> [])
        \<or> (?M = [] \<and> ?C \<noteq> []) \<and> (\<exists>g \<in> set (contextual_entities fe). active_members sel g \<noteq> [])
      \<longleftrightarrow> ?M \<noteq> [] \<or> (\<exists>g \<in> set (contextual_entities fe). \<exists>s \<in> set (members g). attempted 0 ?C preds cs s)"
    unfolding red_some ctx_some by blast
  note one = aggregate_one_iff [OF P(1), of doc_id ?S ?n "?M = [] \<and> ?C \<noteq> []" sel fe, unfolded some]
  have in_P: "A \<subseteq> run_chars ?P \<longleftrightarrow> A \<subseteq> chars_of preds" if "A \<subseteq> {0..<?n}" for A
    using that P(2) by auto
  have M_sub: "span_chars s \<subseteq> {0..<?n}" if "s \<in> set ?M \<union> set ?C" for s
    using that chars_of_within [OF M] chars_of_within [OF C] by (auto simp: chars_of_def)
  have reds: "(\<forall>e \<in> set (red_scores ?P 0 (red_entities fe)). es_n e = es_d e)
      \<longleftrightarrow> chars_of ?M \<subseteq> chars_of preds"
  proof -
    have "(\<forall>g \<in> set (red_entities fe). \<forall>s \<in> set (members g). Q s) \<longleftrightarrow> (\<forall>s \<in> set ?M. Q s)" for Q
      unfolding groups [symmetric] by auto
    with red_scores_full [OF P(1), of "red_entities fe" 0] nonempty in_P M_sub show ?thesis
      by (simp add: chars_of_def UN_subset_iff)
  qed
  have ctxs: "(\<forall>e \<in> set (fst (contextual_scores ?P (?M = [] \<and> ?C \<noteq> []) sel 0 (contextual_entities fe))).
        es_n e = es_d e)
      \<longleftrightarrow> (\<forall>g \<in> set (contextual_entities fe). \<forall>s \<in> set (members g).
            attempted 0 ?C preds cs s \<longrightarrow> span_chars s \<subseteq> chars_of preds)"
  proof -
    have "\<forall>g \<in> set (contextual_entities fe). \<forall>s \<in> set (members g). ls_start s < ls_end s"
      using ctx_sub nonempty by blast
    note full = contextual_scores_full [OF P(1) this, of "?M = [] \<and> ?C \<noteq> []" sel 0]
    have "span_chars s \<subseteq> run_chars ?P \<longleftrightarrow> span_chars s \<subseteq> chars_of preds"
      if "g \<in> set (contextual_entities fe)" "s \<in> set (members g)" for g s
      by (rule in_P) (use M_sub ctx_sub that in blast)
    with full sel(2) show ?thesis by simp
  qed
  have "false_positive_runs ?P ?S ?n = [] \<longleftrightarrow> run_chars ?P - run_chars ?S = {}"
    using false_positive_runs_correct [OF P(1), of ?S ?n] separated_empty_iff by metis
  also have "\<dots> \<longleftrightarrow> chars_of preds \<inter> {0..<?n} \<subseteq> chars_of ann"
    using P(2) S(2) by blast
  finally show ?thesis using doc cs(1) fe(1) one reds ctxs by blast
qed

definition name_span :: labelled_span where
  "name_span = \<lparr>ls_start = 0, ls_end = 3, ls_cat = MANDATORY\<rparr>"

theorem perfect_score_iff_witness:
  "(\<exists>doc cs fe. score_document ''Ann x'' [name_span] [name_span] [] = Inr doc
    \<and> build_connector_structure ''Ann x'' [name_span] [] = Inr cs
    \<and> fused_entity_groups [] cs ''Ann x'' = Inr fe \<and> rdoc_score doc = 1)
   \<and> map_res rdoc_score (score_document ''Ann x'' [name_span] [name_span] []) = Inr 1
   \<and> map_res rdoc_score (score_document ''Ann x'' [name_span] [name_span\<lparr>ls_end := 4\<rparr>] []) = Inr (1 / 2)
   \<and> map_res rdoc_score (score_document ''Ann x'' [name_span\<lparr>ls_cat := CONTEXTUAL\<rparr>] [] []) = Inr 0
   \<and> map_res rdoc_score (score_document ''Ann x'' [name_span\<lparr>ls_cat := CONTEXTUAL\<rparr>] [name_span] []) = Inr 1"
proof -
  have ctx: "mandatory [name_span] = [name_span]" "contextual [name_span] = []"
    by (simp_all add: mandatory_def contextual_def name_span_def)
  have ann: "list_all (well_placed (int (length ''Ann x''))) [name_span]"
    "\<forall>p \<in> set [name_span]. ls_start p \<le> ls_end p"
    by (simp_all add: well_placed_def name_span_def)
  from perfect_score_iff [OF ann, of "[]"] obtain doc cs fe where
    "score_document ''Ann x'' [name_span] [name_span] [] = Inr doc"
    "build_connector_structure ''Ann x'' [name_span] [] = Inr cs"
    "fused_entity_groups [] cs ''Ann x'' = Inr fe" unfolding ctx by blast
  moreover have "map_res rdoc_score (score_document ''Ann x'' [name_span] [name_span] []) = Inr 1"
    "map_res rdoc_score (score_document ''Ann x'' [name_span] [name_span\<lparr>ls_end := 4\<rparr>] []) = Inr (1 / 2)"
    "map_res rdoc_score (score_document ''Ann x'' [name_span\<lparr>ls_cat := CONTEXTUAL\<rparr>] [] []) = Inr 0"
    "map_res rdoc_score (score_document ''Ann x'' [name_span\<lparr>ls_cat := CONTEXTUAL\<rparr>] [name_span] []) = Inr 1"
    by code_simp+
  ultimately show ?thesis by auto
qed

end
