(* ===== verification/RScoreReport.thy ===== *)
theory RScoreReport
  imports ScoreDocument
begin

text \<open>
  The aggregation of \<open>app/bench/rscore.py\<close>: the interpolated percentile and the report of a
  corpus with its categories. A percentile lies between its neighbours in the sorted scores and grows with
  the rank; every statistic of a report is between 0 and 1.
\<close>

section \<open>\<open>percentile\<close>\<close>

definition percentile :: "rat list \<Rightarrow> rat \<Rightarrow> rat res" where
  "percentile sorted_scores pct =
     (if sorted_scores = [] then Inr 0
      else if length sorted_scores = 1 then Inr (sorted_scores ! 0)
      else let rank = (pct / 100) * (of_nat (length sorted_scores) - 1);
               lo = \<lfloor>rank\<rfloor>;
               hi = \<lceil>rank\<rceil>
           in if lo = hi then py_index sorted_scores lo
              else bind_res (py_index sorted_scores lo) (\<lambda>a.
                   map_res (\<lambda>b. a + (rank - of_int lo) * (b - a)) (py_index sorted_scores hi)))"

text \<open>The value at a real rank, on a list that is long enough.\<close>

definition interpolate :: "rat list \<Rightarrow> rat \<Rightarrow> rat" where
  "interpolate xs rank =
     (let lo = nat \<lfloor>rank\<rfloor>; hi = nat \<lceil>rank\<rceil>
      in xs ! lo + (rank - of_nat lo) * (xs ! hi - xs ! lo))"

lemma rank_bounds:
  assumes "0 \<le> rank" "rank \<le> of_nat (length xs) - (1 :: rat)" "xs \<noteq> []"
  shows "0 \<le> \<lfloor>rank\<rfloor> \<and> \<lceil>rank\<rceil> < int (length xs)
    \<and> nat \<lfloor>rank\<rfloor> \<le> nat \<lceil>rank\<rceil> \<and> nat \<lceil>rank\<rceil> < length xs \<and> nat \<lfloor>rank\<rfloor> < length xs"
proof -
  have "\<lceil>rank\<rceil> \<le> int (length xs) - 1" by (rule ceiling_le) (use assms(2) in simp)
  moreover have "\<lfloor>rank\<rfloor> \<le> \<lceil>rank\<rceil>" by (rule floor_le_ceiling)
  moreover have "0 \<le> \<lfloor>rank\<rfloor>" using assms(1) by simp
  ultimately show ?thesis by linarith
qed

lemma percentile_interpolate:
  assumes "1 < length xs" "0 \<le> pct" "pct \<le> 100"
  shows "percentile xs pct = Inr (interpolate xs ((pct / 100) * (of_nat (length xs) - 1)))"
    and "0 \<le> (pct / 100) * (of_nat (length xs) - 1)"
    and "(pct / 100) * (of_nat (length xs) - 1) \<le> of_nat (length xs) - 1"
proof -
  let ?r = "(pct / 100) * (of_nat (length xs) - 1)"
  have n: "0 < of_nat (length xs) - (1 :: rat)" using assms(1) by simp
  show r: "0 \<le> ?r" using assms(2) n by simp
  show r1: "?r \<le> of_nat (length xs) - 1" using mult_right_mono [of "pct / 100" 1, OF _ less_imp_le [OF n]] assms(3) by simp
  have xs: "xs \<noteq> []" using assms(1) by auto
  note b = rank_bounds [OF r r1 xs]
  have "of_nat (nat \<lfloor>?r\<rfloor>) = (of_int \<lfloor>?r\<rfloor> :: rat)" using b by simp
  with b assms(1) show "percentile xs pct = Inr (interpolate xs ?r)"
    by (auto simp: percentile_def interpolate_def py_index_def Let_def)
qed

text \<open>Between two ranks of the same gap the value moves on a line, elsewhere over the gap's ends.\<close>

lemma interpolate_bounds:
  assumes "sorted xs" "xs \<noteq> []" "0 \<le> rank" "rank \<le> of_nat (length xs) - 1"
  shows "xs ! nat \<lfloor>rank\<rfloor> \<le> interpolate xs rank \<and> interpolate xs rank \<le> xs ! nat \<lceil>rank\<rceil>"
proof -
  note b = rank_bounds [OF assms(3,4,2)]
  then have le: "xs ! nat \<lfloor>rank\<rfloor> \<le> xs ! nat \<lceil>rank\<rceil>"
    using assms(1) by (intro sorted_nth_mono) simp_all
  let ?f = "rank - of_nat (nat \<lfloor>rank\<rfloor>)" and ?d = "xs ! nat \<lceil>rank\<rceil> - xs ! nat \<lfloor>rank\<rfloor>"
  have "of_nat (nat \<lfloor>rank\<rfloor>) = (of_int \<lfloor>rank\<rfloor> :: rat)" using b by simp
  then have f: "0 \<le> ?f" "?f \<le> 1" by (simp, linarith)
  then have "0 \<le> ?f * ?d" "?f * ?d \<le> ?d" using le by (simp_all add: mult_left_le_one_le)
  then show ?thesis by (simp add: interpolate_def Let_def)
qed

lemma interpolate_mono:
  assumes "sorted xs" "xs \<noteq> []" "0 \<le> r" "r \<le> r'" "r' \<le> of_nat (length xs) - 1"
  shows "interpolate xs r \<le> interpolate xs r'"
proof -
  have r': "0 \<le> r'" and r: "r \<le> of_nat (length xs) - 1" using assms(3-5) by simp_all
  note b = rank_bounds [OF assms(3) r assms(2)] and b' = rank_bounds [OF r' assms(5,2)]
  note v = interpolate_bounds [OF assms(1-3) r] and v' = interpolate_bounds [OF assms(1,2) r' assms(5)]
  show ?thesis
  proof (cases "\<lfloor>r\<rfloor> = \<lfloor>r'\<rfloor>")
    case False
    then have "\<lceil>r\<rceil> \<le> \<lfloor>r'\<rfloor>"
      using floor_mono [OF assms(4)] by (simp add: ceiling_le_iff) linarith
    then have "xs ! nat \<lceil>r\<rceil> \<le> xs ! nat \<lfloor>r'\<rfloor>"
      using assms(1) b' by (intro sorted_nth_mono nat_mono) simp_all
    with v v' show ?thesis by linarith
  next
    case same: True
    show ?thesis
    proof (cases "\<lceil>r\<rceil> = \<lceil>r'\<rceil>")
      case True
      have "xs ! nat \<lfloor>r\<rfloor> \<le> xs ! nat \<lceil>r\<rceil>" using v by linarith
      then have "(r - of_nat (nat \<lfloor>r\<rfloor>)) * (xs ! nat \<lceil>r\<rceil> - xs ! nat \<lfloor>r\<rfloor>)
          \<le> (r' - of_nat (nat \<lfloor>r\<rfloor>)) * (xs ! nat \<lceil>r\<rceil> - xs ! nat \<lfloor>r\<rfloor>)"
        using assms(4) by (intro mult_right_mono) auto
      then show ?thesis using same True by (simp add: interpolate_def Let_def)
    next
      case False
      text \<open>Then \<open>r\<close> is the common lower end.\<close>
      have "\<lceil>r\<rceil> \<le> \<lceil>r'\<rceil>" using assms(4) by (rule ceiling_mono)
      with False same have "\<lceil>r\<rceil> = \<lfloor>r\<rfloor>" by (simp add: ceiling_altdef split: if_splits)
      with same v v' show ?thesis by simp
    qed
  qed
qed

lemma percentile_mono:
  assumes "sorted xs" "xs \<noteq> []" "0 \<le> p" "p \<le> q" "q \<le> 100"
  shows "\<exists>v w. percentile xs p = Inr v \<and> percentile xs q = Inr w \<and> v \<le> w \<and> hd xs \<le> v \<and> w \<le> last xs"
proof (cases "length xs = 1")
  case True
  then obtain x where "xs = [x]" by (auto simp: length_Suc_conv)
  then show ?thesis by (simp add: percentile_def)
next
  case False
  with assms(2) have len: "1 < length xs" by (cases xs) auto
  let ?r = "\<lambda>pct. (pct / 100) * (of_nat (length xs) - 1) :: rat"
  have le: "p \<le> 100" "0 \<le> q" using assms by simp_all
  note P = percentile_interpolate [OF len assms(3) le(1)] and Q = percentile_interpolate [OF len le(2) assms(5)]
  have "?r p \<le> ?r q" using assms(4) len by (intro mult_right_mono) (auto simp: divide_right_mono)
  from interpolate_mono [OF assms(1,2) P(2) this Q(3)]
  have "interpolate xs (?r p) \<le> interpolate xs (?r q)" .
  moreover have "hd xs \<le> interpolate xs (?r p)"
  proof -
    have "xs ! 0 \<le> xs ! nat \<lfloor>?r p\<rfloor>"
      using rank_bounds [OF P(2,3) assms(2)] assms(1) by (intro sorted_nth_mono) (simp_all del: times_divide_eq_left)
    with interpolate_bounds [OF assms(1,2) P(2,3)] assms(2) show ?thesis by (simp add: hd_conv_nth)
  qed
  moreover have "interpolate xs (?r q) \<le> last xs"
  proof -
    have "nat \<lceil>?r q\<rceil> \<le> length xs - 1" using rank_bounds [OF Q(2,3) assms(2)] by linarith
    from sorted_nth_mono [OF assms(1) this] len
    have "xs ! nat \<lceil>?r q\<rceil> \<le> xs ! (length xs - 1)" by simp
    with interpolate_bounds [OF assms(1,2) Q(2,3)] assms(2) show ?thesis by (simp add: last_conv_nth)
  qed
  ultimately show ?thesis using P(1) Q(1) by blast
qed

section \<open>The report\<close>

record rscore_report =
  per_document :: "(string \<times> r_document) list"
  corpus_mean :: rat
  per_category :: "(string \<times> rat \<times> rat \<times> nat) list"

text \<open>\<open>RScoreReport.percentiles\<close>: p20, p50 and mean.\<close>

definition percentiles :: "rscore_report \<Rightarrow> (rat \<times> rat \<times> rat) res" where
  "percentiles report =
     (if per_document report = [] then Inr (0, 0, 0)
      else let scores = sort (map (rdoc_score \<circ> snd) (per_document report))
           in bind_res (percentile scores 20) (\<lambda>p20.
              map_res (\<lambda>p50. (p20, p50, mean scores)) (percentile scores 50)))"

text \<open>The documents are scored in order; a repeated identifier replaces the earlier result.\<close>

type_synonym corpus = "(string \<times> string \<times> labelled_span list \<times> labelled_span list) list"

fun score_corpus :: "(string \<times> r_document) list \<Rightarrow> corpus \<Rightarrow> (string \<times> r_document) list res" where
  "score_corpus per_doc [] = Inr per_doc"
| "score_corpus per_doc ((doc_id, t, ann, pred) # corpus) =
     bind_res (score_document t ann pred doc_id) (\<lambda>d.
       score_corpus (AList.update doc_id d per_doc) corpus)"

definition add_to_category ::
  "(string \<times> string) list \<Rightarrow> (string \<times> rat list) list \<Rightarrow> string \<times> r_document \<Rightarrow> (string \<times> rat list) list" where
  "add_to_category cats acc p =
     (let cat = dict_get cats (fst p) []
      in if cat = [] then acc
         else AList.update cat (dict_get acc cat [] @ [rdoc_score (snd p)]) acc)"

fun category_summaries :: "(string \<times> rat list) list \<Rightarrow> (string \<times> rat \<times> rat \<times> nat) list res" where
  "category_summaries [] = Inr []"
| "category_summaries ((cat, v) # rest) =
     bind_res (percentile (sort v) 50) (\<lambda>p50.
       map_res ((#) (cat, mean v, p50, length v)) (category_summaries rest))"

text \<open>\<open>per_doc_categories\<close> is \<open>None\<close> or a dictionary; an empty one counts as absent.\<close>

definition rscore :: "corpus \<Rightarrow> (string \<times> string) list option \<Rightarrow> rscore_report res" where
  "rscore corpus per_doc_categories =
     bind_res (score_corpus [] corpus) (\<lambda>per_doc.
       if per_doc = [] then Inr \<lparr>per_document = [], corpus_mean = 0, per_category = []\<rparr>
       else let by_category = (case per_doc_categories of
                    None \<Rightarrow> []
                  | Some cats \<Rightarrow> foldl (add_to_category cats) [] per_doc)
            in map_res (\<lambda>summaries.
                 \<lparr>per_document = per_doc, corpus_mean = mean (map (rdoc_score \<circ> snd) per_doc),
                  per_category = summaries\<rparr>)
              (category_summaries by_category))"

definition unit_score :: "rat \<Rightarrow> bool" where
  "unit_score x \<longleftrightarrow> 0 \<le> x \<and> x \<le> 1"

lemma percentile_unit:
  assumes "xs \<noteq> []" "\<forall>x \<in> set xs. unit_score x" "0 \<le> p" "p \<le> q" "q \<le> 100"
  shows "\<exists>v w. percentile (sort xs) p = Inr v \<and> percentile (sort xs) q = Inr w
    \<and> unit_score v \<and> unit_score w \<and> v \<le> w"
proof -
  have ne: "sort xs \<noteq> []" using assms(1) by (metis set_empty set_sort)
  from percentile_mono [OF sorted_sort [of xs] ne assms(3-5)] obtain v w where
    "percentile (sort xs) p = Inr v" "percentile (sort xs) q = Inr w" "v \<le> w"
    "hd (sort xs) \<le> v" "w \<le> last (sort xs)" by blast
  moreover have "unit_score (hd (sort xs))" "unit_score (last (sort xs))"
    using hd_in_set [OF ne] last_in_set [OF ne] assms(2) by simp_all
  ultimately show ?thesis by (auto simp: unit_score_def)
qed

lemma mean_unit: "xs \<noteq> [] \<Longrightarrow> \<forall>x \<in> set xs. unit_score x \<Longrightarrow> unit_score (mean xs)"
  using mean_bounds [of xs 0 1] by (auto simp: unit_score_def)

lemma set_update_snd: "snd ` set (AList.update k v d) \<subseteq> insert v (snd ` set d)"
  by (induction d) auto

lemma score_corpus_unit:
  assumes "score_corpus per_doc corpus = Inr out" "\<forall>d \<in> snd ` set per_doc. unit_score (rdoc_score d)"
  shows "\<forall>d \<in> snd ` set out. unit_score (rdoc_score d)"
  using assms
proof (induction per_doc corpus rule: score_corpus.induct)
  case (2 per_doc doc_id t ann pred corpus)
  from "2.prems"(1) obtain d where d: "score_document t ann pred doc_id = Inr d"
    and rest: "score_corpus (AList.update doc_id d per_doc) corpus = Inr out"
    by (auto simp: bind_res_Inr_iff)
  have "unit_score (rdoc_score d)" using score_document_sums [OF d] by (simp add: unit_score_def)
  with "2.prems"(2) set_update_snd [of doc_id d per_doc]
  have "\<forall>d \<in> snd ` set (AList.update doc_id d per_doc). unit_score (rdoc_score d)" by blast
  from "2.IH" [OF rest this] show ?case .
qed simp

definition unit_lists :: "(string \<times> rat list) list \<Rightarrow> bool" where
  "unit_lists acc \<longleftrightarrow> (\<forall>v \<in> snd ` set acc. v \<noteq> [] \<and> (\<forall>x \<in> set v. unit_score x))"

lemma unit_lists_add:
  assumes "unit_lists acc" "unit_score (rdoc_score (snd p))"
  shows "unit_lists (add_to_category cats acc p)"
proof -
  have "\<forall>x \<in> set (dict_get acc c []). unit_score x" for c
  proof (cases "map_of acc c")
    case (Some v)
    then have "v \<in> snd ` set acc" by (force dest: map_of_SomeD)
    with assms(1) Some show ?thesis by (auto simp: unit_lists_def dict_get_def)
  qed (simp add: dict_get_def)
  with assms(2) have new: "\<forall>x \<in> set (dict_get acc c [] @ [rdoc_score (snd p)]). unit_score x" for c by auto
  show ?thesis
  proof (cases "dict_get cats (fst p) [] = []")
    case True
    with assms(1) show ?thesis by (simp add: add_to_category_def)
  next
    case False
    let ?c = "dict_get cats (fst p) []"
    have "snd ` set (AList.update ?c (dict_get acc ?c [] @ [rdoc_score (snd p)]) acc)
        \<subseteq> insert (dict_get acc ?c [] @ [rdoc_score (snd p)]) (snd ` set acc)"
      by (rule set_update_snd)
    moreover have "\<forall>v \<in> insert (dict_get acc ?c [] @ [rdoc_score (snd p)]) (snd ` set acc).
        v \<noteq> [] \<and> (\<forall>x \<in> set v. unit_score x)"
      using assms(1) new [of ?c] by (simp add: unit_lists_def)
    ultimately have "unit_lists (AList.update ?c (dict_get acc ?c [] @ [rdoc_score (snd p)]) acc)"
      unfolding unit_lists_def by blast
    with False show ?thesis by (simp add: add_to_category_def Let_def)
  qed
qed

lemma unit_lists_foldl:
  assumes "unit_lists acc" "\<forall>p \<in> set ps. unit_score (rdoc_score (snd p))"
  shows "unit_lists (foldl (add_to_category cats) acc ps)"
  using assms by (induction ps arbitrary: acc) (simp_all add: unit_lists_add)

definition unit_summary :: "string \<times> rat \<times> rat \<times> nat \<Rightarrow> bool" where
  "unit_summary c \<longleftrightarrow> (case c of (_, m, p50, n) \<Rightarrow> unit_score m \<and> unit_score p50 \<and> 0 < n)"

lemma category_summaries_unit:
  assumes "unit_lists acc"
  shows "\<exists>out. category_summaries acc = Inr out \<and> list_all unit_summary out"
  using assms
proof (induction acc rule: category_summaries.induct)
  case (2 cat v rest)
  then have v: "v \<noteq> []" "\<forall>x \<in> set v. unit_score x" and rest: "unit_lists rest"
    by (auto simp: unit_lists_def)
  from percentile_unit [OF v, of 50 50] obtain p50 where "percentile (sort v) 50 = Inr p50" "unit_score p50"
    by auto
  with "2.IH" [OF rest] mean_unit [OF v] v(1) show ?case by (auto simp: unit_summary_def)
qed simp

text \<open>In every report each document's score, the corpus mean, and the mean and median of
  each category lie between 0 and 1, every listed category has a document, and the
  percentiles exist, lie between 0 and 1, with the 20th not above the 50th.\<close>

theorem rscore_report_bounds:
  assumes "rscore corpus cats = Inr report"
  shows "(\<forall>d \<in> snd ` set (per_document report). unit_score (rdoc_score d))
    \<and> unit_score (corpus_mean report) \<and> list_all unit_summary (per_category report)
    \<and> (\<exists>p20 p50 m. percentiles report = Inr (p20, p50, m)
        \<and> unit_score p20 \<and> unit_score p50 \<and> unit_score m \<and> p20 \<le> p50)"
proof -
  from assms obtain per_doc where corpus: "score_corpus [] corpus = Inr per_doc"
    by (auto simp: rscore_def bind_res_Inr_iff)
  have docs: "\<forall>d \<in> snd ` set per_doc. unit_score (rdoc_score d)"
    by (rule score_corpus_unit [OF corpus]) simp
  show ?thesis
  proof (cases "per_doc = []")
    case True
    with assms corpus show ?thesis by (auto simp: rscore_def percentiles_def unit_score_def)
  next
    case False
    let ?by = "case cats of None \<Rightarrow> [] | Some cats \<Rightarrow> foldl (add_to_category cats) [] per_doc"
    have "unit_lists []" by (simp add: unit_lists_def)
    then have "unit_lists ?by" using docs by (auto intro!: unit_lists_foldl split: option.splits)
    from category_summaries_unit [OF this] obtain out where out: "category_summaries ?by = Inr out"
      "list_all unit_summary out" by blast
    with assms corpus False have report: "report = \<lparr>per_document = per_doc,
      corpus_mean = mean (map (rdoc_score \<circ> snd) per_doc), per_category = out\<rparr>"
      by (auto simp: rscore_def Let_def)
    let ?scores = "map (rdoc_score \<circ> snd) per_doc"
    have scores: "?scores \<noteq> []" "\<forall>x \<in> set ?scores. unit_score x" using False docs by auto
    moreover have "sum_list (sort ?scores) = sum_list ?scores" by (metis mset_sort sum_mset_sum_list)
    then have "mean (sort ?scores) = mean ?scores" by (simp add: mean_def)
    ultimately show ?thesis
      using percentile_unit [OF scores, of 20 50] mean_unit [OF scores] docs out(2) False
      unfolding report percentiles_def Let_def by auto
  qed
qed

definition small_corpus :: corpus where
  "small_corpus =
     [(''a'', ''Ann x'', [\<lparr>ls_start = 0, ls_end = 3, ls_cat = MANDATORY\<rparr>],
         [\<lparr>ls_start = 0, ls_end = 3, ls_cat = MANDATORY\<rparr>]),
      (''b'', ''Bob y'', [\<lparr>ls_start = 0, ls_end = 3, ls_cat = MANDATORY\<rparr>], [])]"

theorem rscore_report_bounds_witness:
  "\<exists>report. rscore small_corpus (Some [(''a'', ''legal'')]) = Inr report
    \<and> corpus_mean report = 1 / 2 \<and> unit_score (corpus_mean report)
    \<and> (\<exists>p20 p50 m. percentiles report = Inr (p20, p50, m) \<and> p20 \<le> p50)"
proof -
  have "map_res corpus_mean (rscore small_corpus (Some [(''a'', ''legal'')])) = Inr (1 / 2)" by code_simp
  then obtain report where "rscore small_corpus (Some [(''a'', ''legal'')]) = Inr report"
    "corpus_mean report = 1 / 2" by (auto simp: map_res_Inr_iff)
  with rscore_report_bounds [OF this(1)] show ?thesis by blast
qed

end
