(* ===== verification/Disagreement.thy ===== *)
theory Disagreement
  imports ScoreDocument
begin

text \<open>
  \<open>app/bench/disagreement.py\<close>: agreement between the raters of a user study. The
  disagreement of a unit is the share of its pairs of ratings that differ; Krippendorff's
  alpha is at most 1, and 1 exactly for unanimous units; Wilson's interval contains the
  observed proportion and stays within 0 and 1.
\<close>

record rating =
  ra_unit :: string
  ra_kind :: string
  ra_rater :: string
  ra_redacted :: bool

text \<open>\<open>d.setdefault(k, []).append(v)\<close>\<close>

definition append_at :: "'k \<Rightarrow> 'v \<Rightarrow> ('k \<times> 'v list) list \<Rightarrow> ('k \<times> 'v list) list" where
  "append_at k v d = AList.update k (dict_get d k [] @ [v]) d"

definition by_unit :: "rating list \<Rightarrow> (string \<times> bool list) list" where
  "by_unit ratings = foldl (\<lambda>d r. append_at (ra_unit r) (ra_redacted r) d) [] ratings"

definition votes :: "bool list \<Rightarrow> nat" where
  "votes labels = length (filter (\<lambda>v. v) labels)"

lemma map_of_append_at: "map_of (append_at k v d) = (map_of d)(k \<mapsto> dict_get d k [] @ [v])"
  by (simp add: append_at_def)

lemma by_unit_get: "dict_get (by_unit ratings) u [] = map ra_redacted (filter (\<lambda>r. ra_unit r = u) ratings)"
proof -
  have "dict_get (foldl (\<lambda>d r. append_at (ra_unit r) (ra_redacted r) d) d rs) u []
    = dict_get d u [] @ map ra_redacted (filter (\<lambda>r. ra_unit r = u) rs)" for d rs
    by (induction rs arbitrary: d) (auto simp: dict_get_def map_of_append_at)
  from this [of "[]"] show ?thesis by (simp add: by_unit_def dict_get_def)
qed

lemma by_unit_nonempty: "(u, labels) \<in> set (by_unit ratings) \<Longrightarrow> labels \<noteq> []"
proof -
  have "\<forall>(u, l) \<in> set d. l \<noteq> [] \<Longrightarrow>
    \<forall>(u, l) \<in> set (foldl (\<lambda>d r. append_at (ra_unit r) (ra_redacted r) d) d rs). l \<noteq> []" for d rs
  proof (induction rs arbitrary: d)
    case (Cons r rs)
    have "set (AList.update k v d) \<subseteq> insert (k, v) (set d)" for k and v :: "bool list"
      by (induction d) auto
    from this [of "ra_unit r" "dict_get d (ra_unit r) [] @ [ra_redacted r]"] Cons.prems
    have "\<forall>(u, l) \<in> set (append_at (ra_unit r) (ra_redacted r) d). l \<noteq> []"
      unfolding append_at_def by fastforce
    from Cons.IH [OF this] show ?case by simp
  qed simp
  from this [of "[]" ratings] show "(u, labels) \<in> set (by_unit ratings) \<Longrightarrow> ?thesis"
    by (auto simp: by_unit_def)
qed

section \<open>Pairwise disagreement\<close>

definition disagreement_of :: "nat \<Rightarrow> nat \<Rightarrow> rat" where
  "disagreement_of k m =
     (if m < 2 then 0
      else let total = m choose 2
           in if total = 0 then 0 else of_nat (k * (m - k)) / of_nat total)"

definition mean_or_zero :: "rat list \<Rightarrow> rat" where
  "mean_or_zero xs = (if xs = [] then 0 else sum_list xs / of_nat (length xs))"

definition unit_disagreements :: "(string \<times> bool list) list \<Rightarrow> rat list" where
  "unit_disagreements units =
     map (\<lambda>(u, labels). disagreement_of (votes labels) (length labels))
       (filter (\<lambda>(u, labels). \<not> length labels < 2) units)"

definition pairwise_disagreement :: "rating list \<Rightarrow> rat" where
  "pairwise_disagreement ratings = mean_or_zero (unit_disagreements (by_unit ratings))"

text \<open>The reference: the pairs of positions, and those that differ, in a list of labels.\<close>

fun pairs :: "'a list \<Rightarrow> nat" where
  "pairs [] = 0"
| "pairs (x # xs) = length xs + pairs xs"

fun differing_pairs :: "'a list \<Rightarrow> nat" where
  "differing_pairs [] = 0"
| "differing_pairs (x # xs) = length (filter (\<lambda>y. y \<noteq> x) xs) + differing_pairs xs"

lemma pairs_choose: "pairs xs = length xs choose 2"
  by (induction xs) (simp_all add: numeral_2_eq_2)

lemma differing_le_pairs: "differing_pairs xs \<le> pairs xs"
  by (induction xs) (simp_all add: add_mono)

lemma votes_le: "votes labels \<le> length labels"
  by (simp add: votes_def)

lemma differing_pairs_votes: "differing_pairs labels = votes labels * (length labels - votes labels)"
proof (induction labels)
  case (Cons v labels)
  have no: "length (filter (\<lambda>y. \<not> y) labels) = length labels - votes labels"
    using sum_length_filter_compl [of "\<lambda>v. v" labels] by (simp add: votes_def)
  have yes: "length (filter (\<lambda>y. y) labels) = votes labels" by (simp add: votes_def)
  show ?case
  proof (cases v)
    case True
    then have "votes (v # labels) = Suc (votes labels)" by (simp add: votes_def)
    moreover have "differing_pairs (v # labels)
        = (length labels - votes labels) + votes labels * (length labels - votes labels)"
      using True Cons.IH no by simp
    ultimately show ?thesis by simp
  next
    case False
    then have "votes (v # labels) = votes labels" by (simp add: votes_def)
    moreover have "differing_pairs (v # labels)
        = votes labels + votes labels * (length labels - votes labels)"
      using False Cons.IH yes by simp
    moreover have "Suc (length labels) - votes labels = Suc (length labels - votes labels)"
      using votes_le [of labels] by (rule Suc_diff_le)
    ultimately show ?thesis by simp
  qed
qed (simp add: votes_def)

lemma disagreement_reference:
  "disagreement_of (votes labels) (length labels)
    = (if length labels < 2 then 0 else of_nat (differing_pairs labels) / of_nat (pairs labels))"
  by (simp add: disagreement_of_def differing_pairs_votes pairs_choose Let_def)

lemma disagreement_unit:
  "0 \<le> disagreement_of (votes labels) (length labels) \<and> disagreement_of (votes labels) (length labels) \<le> 1"
  using differing_le_pairs [of labels] by (auto simp: disagreement_reference divide_le_eq_1)

lemma pairwise_disagreement_bounds: "0 \<le> pairwise_disagreement ratings \<and> pairwise_disagreement ratings \<le> 1"
proof -
  let ?xs = "unit_disagreements (by_unit ratings)"
  have "0 \<le> x \<and> x \<le> 1" if "x \<in> set ?xs" for x
    using that disagreement_unit by (auto simp: unit_disagreements_def)
  with mean_bounds [of ?xs 0 1] show ?thesis
    by (auto simp: pairwise_disagreement_def mean_or_zero_def mean_def)
qed

section \<open>Krippendorff's alpha\<close>

text \<open>The sums of the loop over the units: ratings, votes against and for, and the observed term.\<close>

record alpha_sums =
  n_total :: nat
  n0 :: nat
  n1 :: nat
  per_unit :: rat

definition observed :: "bool list \<Rightarrow> rat" where
  "observed labels =
     (let m = length labels; k = votes labels
      in if m < 2 then 0 else of_nat (2 * (m - k) * k) / of_nat (m - 1))"

definition alpha_step :: "alpha_sums \<Rightarrow> string \<times> bool list \<Rightarrow> alpha_sums" where
  "alpha_step st p =
     (let labels = snd p; m = length labels; k = votes labels
      in \<lparr>n_total = n_total st + m, n0 = n0 st + (m - k), n1 = n1 st + k,
          per_unit = per_unit st + observed labels\<rparr>)"

definition alpha_of :: "(string \<times> bool list) list \<Rightarrow> alpha_sums" where
  "alpha_of units = foldl alpha_step \<lparr>n_total = 0, n0 = 0, n1 = 0, per_unit = 0\<rparr> units"

definition alpha_value :: "alpha_sums \<Rightarrow> rat" where
  "alpha_value st =
     (let observed_d = per_unit st / of_nat (n_total st);
          expected_d = of_nat (2 * n0 st * n1 st) / of_nat (n_total st * (n_total st - 1))
      in if expected_d = 0 then (if observed_d = 0 then 1 else 0) else 1 - observed_d / expected_d)"

definition krippendorff_alpha :: "rating list \<Rightarrow> rat" where
  "krippendorff_alpha ratings =
     (let st = alpha_of (by_unit ratings) in if n_total st < 2 then 1 else alpha_value st)"

definition by_kind :: "rating list \<Rightarrow> (string \<times> (string \<times> bool list) list) list" where
  "by_kind ratings =
     foldl (\<lambda>d r. AList.update (ra_kind r)
         (append_at (ra_unit r) (ra_redacted r) (dict_get d (ra_kind r) [])) d) [] ratings"

text \<open>Per kind a missing pair gives 0, where the global value is 1.\<close>

definition per_unit_type_alpha :: "rating list \<Rightarrow> (string \<times> rat) list" where
  "per_unit_type_alpha ratings =
     map (\<lambda>(kind, units).
       (kind, let st = alpha_of units
              in if n_total st < 2 then 0
                 else if list_all (\<lambda>(u, labels). length labels < 2) units then 0
                 else alpha_value st)) (by_kind ratings)"

definition per_unit_type_disagreement :: "rating list \<Rightarrow> (string \<times> rat \<times> rat \<times> rat) list" where
  "per_unit_type_disagreement ratings =
     map (\<lambda>(kind, units).
       (let qualifying = filter (\<lambda>(u, labels). \<not> length labels < 2) units;
            dus = unit_disagreements units;
            rates = map (\<lambda>(u, labels). of_nat (votes labels) / of_nat (length labels)) qualifying
        in if dus = [] then (kind, 0, 0, 0)
           else (kind, of_nat (length dus), sum_list dus / of_nat (length dus),
                 sum_list rates / of_nat (length rates)))) (by_kind ratings)"

record disagreement_report_data =
  n_qualifying_units :: nat
  n_redact_votes :: nat
  n_no_redact_votes :: nat
  global_alpha :: rat
  per_kind :: "(string \<times> rat \<times> rat \<times> rat) list"

definition disagreement_report :: "rating list \<Rightarrow> disagreement_report_data" where
  "disagreement_report ratings =
     (let redact = length (filter ra_redacted ratings)
      in \<lparr>n_qualifying_units = length (filter (\<lambda>(u, v). length v \<ge> 2) (by_unit ratings)),
          n_redact_votes = redact, n_no_redact_votes = length ratings - redact,
          global_alpha = krippendorff_alpha ratings,
          per_kind = per_unit_type_disagreement ratings\<rparr>)"

lemma alpha_of_sums:
  "alpha_of units = \<lparr>n_total = sum_list (map (length \<circ> snd) units),
     n0 = sum_list (map (\<lambda>(u, l). length l - votes l) units), n1 = sum_list (map (votes \<circ> snd) units),
     per_unit = sum_list (map (observed \<circ> snd) units)\<rparr>"
proof -
  have "foldl alpha_step st units = \<lparr>n_total = n_total st + sum_list (map (length \<circ> snd) units),
      n0 = n0 st + sum_list (map (\<lambda>(u, l). length l - votes l) units),
      n1 = n1 st + sum_list (map (votes \<circ> snd) units),
      per_unit = per_unit st + sum_list (map (observed \<circ> snd) units)\<rparr>" for st
    by (induction units arbitrary: st) (simp_all add: alpha_step_def Let_def split_beta)
  then show ?thesis by (simp add: alpha_of_def)
qed

lemma observed_nonneg: "0 \<le> observed labels"
  by (simp add: observed_def Let_def)

text \<open>The observed disagreement of a unit vanishes exactly when its raters agree.\<close>

lemma observed_zero_iff: "observed labels = 0 \<longleftrightarrow> length labels < 2 \<or> votes labels = 0 \<or> votes labels = length labels"
  using votes_le [of labels] by (auto simp: observed_def Let_def)

lemma krippendorff_alpha_one:
  assumes "n_total (alpha_of (by_unit ratings)) \<ge> 2"
    and "n0 (alpha_of (by_unit ratings)) > 0" "n1 (alpha_of (by_unit ratings)) > 0"
  shows "krippendorff_alpha ratings \<le> 1
    \<and> (krippendorff_alpha ratings = 1 \<longleftrightarrow>
        (\<forall>(u, labels) \<in> set (by_unit ratings). length labels < 2 \<or> votes labels = 0 \<or> votes labels = length labels))"
proof -
  let ?st = "alpha_of (by_unit ratings)"
  define x :: rat where "x = per_unit ?st / of_nat (n_total ?st)"
  define e :: rat where "e = of_nat (2 * n0 ?st * n1 ?st) / of_nat (n_total ?st * (n_total ?st - 1))"
  have e: "0 < e" using assms by (simp add: e_def)
  have sum: "per_unit ?st = sum_list (map (observed \<circ> snd) (by_unit ratings))" by (simp add: alpha_of_sums)
  have nonneg: "0 \<le> per_unit ?st" unfolding sum by (rule sum_list_nonneg) (auto simp: observed_nonneg)
  have "per_unit ?st = 0 \<longleftrightarrow> (\<forall>p \<in> set (by_unit ratings). observed (snd p) = 0)"
    unfolding sum by (subst sum_list_nonneg_eq_0_iff) (auto simp: observed_nonneg)
  moreover have "krippendorff_alpha ratings = 1 - x / e"
    using assms by (simp add: krippendorff_alpha_def alpha_value_def x_def e_def Let_def)
  moreover have "0 \<le> x" "x = 0 \<longleftrightarrow> per_unit ?st = 0" using nonneg assms(1) by (simp_all add: x_def)
  ultimately show ?thesis using e by (auto simp: observed_zero_iff split_beta)
qed

text \<open>
  The documented value is over the qualifying units; the sums also count the ratings of
  units with a single rater, which changes the value.
\<close>

definition rate :: "string \<Rightarrow> string \<Rightarrow> bool \<Rightarrow> rating" where
  "rate u who v = \<lparr>ra_unit = u, ra_kind = ''gap'', ra_rater = who, ra_redacted = v\<rparr>"

lemma alpha_counts_single_ratings:
  "krippendorff_alpha [rate ''u'' ''a'' True, rate ''u'' ''b'' False] = 0
   \<and> krippendorff_alpha [rate ''u'' ''a'' True, rate ''u'' ''b'' False, rate ''v'' ''a'' True, rate ''w'' ''a'' False]
     = 1 / 4"
  by code_simp

section \<open>Wilson's interval\<close>

definition wilson_interval :: "int \<Rightarrow> int \<Rightarrow> real \<Rightarrow> real \<times> real" where
  "wilson_interval k n z =
     (if n \<le> 0 then (0, 1)
      else let p_hat = of_int k / of_int n;
               z2 = z * z;
               denom = 1 + z2 / of_int n;
               center = (p_hat + z2 / (2 * of_int n)) / denom;
               half = (z / denom) * sqrt (p_hat * (1 - p_hat) / of_int n + z2 / (4 * of_int n * of_int n))
           in (max 0 (center - half), min 1 (center + half)))"

text \<open>The interval lies between 0 and 1 and contains the observed proportion.\<close>

lemma wilson_distance:
  fixes p z2 n :: real
  assumes "0 \<le> p" "p \<le> 1" "0 < n" "0 \<le> z2"
  shows "((p + z2 / (2 * n)) - p * (1 + z2 / n))\<^sup>2 \<le> z2 * (p * (1 - p) / n + z2 / (4 * n * n))"
proof -
  have "z2 * (p * (1 - p) / n + z2 / (4 * n * n)) - ((p + z2 / (2 * n)) - p * (1 + z2 / n))\<^sup>2
      = z2 * (p * (1 - p)) / n + z2 * z2 * (p * (1 - p)) / (n * n)"
    using assms(3) by (simp add: power2_eq_square field_simps)
  also have "\<dots> \<ge> 0" using assms by (intro add_nonneg_nonneg divide_nonneg_nonneg mult_nonneg_nonneg) auto
  finally show ?thesis by simp
qed

theorem wilson_interval_contains:
  assumes "0 \<le> k" "k \<le> n" "0 < n" "0 \<le> z"
  shows "case wilson_interval k n z of (lo, hi) \<Rightarrow>
    0 \<le> lo \<and> lo \<le> of_int k / of_int n \<and> of_int k / of_int n \<le> hi \<and> hi \<le> 1"
proof -
  define p :: real where "p = of_int k / of_int n"
  define m :: real where "m = of_int n"
  define d where "d = 1 + z * z / m"
  define c where "c = (p + z * z / (2 * m)) / d"
  define h where "h = (z / d) * sqrt (p * (1 - p) / m + z * z / (4 * m * m))"
  have m: "0 < m" using assms(3) by (simp add: m_def)
  have p: "0 \<le> p" "p \<le> 1" using assms(1-3) by (simp_all add: p_def)
  have d: "0 < d" using m by (auto simp: d_def intro: add_pos_nonneg)
  have w: "wilson_interval k n z = (max 0 (c - h), min 1 (c + h))"
    using assms(3) by (simp add: wilson_interval_def Let_def p_def m_def d_def c_def h_def)
  have "\<bar>(p + z * z / (2 * m)) - p * d\<bar> \<le> sqrt (z * z * (p * (1 - p) / m + z * z / (4 * m * m)))"
    unfolding d_def using wilson_distance [OF p m, of "z * z"] by (intro real_le_rsqrt) simp
  also have "\<dots> = z * sqrt (p * (1 - p) / m + z * z / (4 * m * m))"
    using assms(4) by (simp add: real_sqrt_mult)
  finally have "\<bar>(p + z * z / (2 * m)) - p * d\<bar> / d
      \<le> z * sqrt (p * (1 - p) / m + z * z / (4 * m * m)) / d" using d by (simp add: divide_right_mono)
  moreover have "c - p = ((p + z * z / (2 * m)) - p * d) / d" using d by (simp add: c_def diff_divide_distrib)
  ultimately have "\<bar>c - p\<bar> \<le> h" using d by (simp add: h_def abs_divide)
  with p show ?thesis unfolding w by (auto simp flip: p_def)
qed

end
