(* ===== verification/Lines.thy ===== *)
theory Lines
  imports AuditLog
begin

text \<open>
  Files of lines: a file whose lines are written one by one with a line feed is read back by
  \<open>splitlines\<close> when every line is clean. The benchmark corpus and the manifest of the model
  snapshots share these facts.
\<close>

text \<open>A line that survives: without a line break, not blank, with no space at its ends.\<close>

definition clean_line :: "string \<Rightarrow> bool" where
  "clean_line l \<longleftrightarrow> l \<noteq> [] \<and> py_strip l = l \<and> list_all (\<lambda>c. \<not> line_break c) l"

lemma split_lines_clean:
  assumes "list_all (\<lambda>c. \<not> line_break c) l"
  shows "split_lines acc (l @ newline # rest) = (rev acc @ l) # split_lines [] rest"
  using assms
proof (induction l arbitrary: acc)
  case Nil
  then show ?case by (simp add: newline_def line_break_def)
next
  case (Cons c l)
  then have "code c \<noteq> 13" by (auto simp: line_break_def)
  with Cons show ?case by simp
qed

lemma split_lines_lines:
  assumes "list_all clean_line ls"
  shows "split_lines [] (concat (map (\<lambda>l. l @ [newline]) ls)) = ls"
  using assms by (induction ls) (simp_all add: split_lines_clean clean_line_def)

end
