(* ===== verification/Corpus.thy ===== *)
theory Corpus
  imports Lines BenchSpans
begin

text \<open>
  \<open>app/bench/corpus.py\<close> and the JSONL reader and writer of \<open>app/bench/annotation.py\<close>:
  categories and their structure, one JSON object per line. \<open>loads\<close> and \<open>dumps\<close> are the
  functions of \<open>json\<close>, \<open>to_str\<close> is \<open>str\<close> on decoded values, the content of a file is a
  string. What was written is read back when no line contains a line break; a text with
  U+0085, which \<open>dumps\<close> leaves as it is, is torn apart by \<open>splitlines\<close>.
\<close>

section \<open>Categories\<close>

datatype structure_kind = UNSTRUCTURED | STRUCTURED

datatype category =
  ACADEMIC | EMAILS | FINANCIAL | GOVERNMENT | LEGAL | MEDICAL | OPERATIONS
  | CODE | FILES | LOGS | TERMINAL

definition CATEGORY_VALUES :: "(category \<times> string) list" where
  "CATEGORY_VALUES =
     [(ACADEMIC, ''academic''), (EMAILS, ''emails''), (FINANCIAL, ''financial''),
      (GOVERNMENT, ''government''), (LEGAL, ''legal''), (MEDICAL, ''medical''),
      (OPERATIONS, ''operations''), (CODE, ''code''), (FILES, ''files''), (LOGS, ''logs''),
      (TERMINAL, ''terminal'')]"

definition CATEGORY_TO_STRUCTURE :: "(category \<times> structure_kind) list" where
  "CATEGORY_TO_STRUCTURE =
     [(ACADEMIC, UNSTRUCTURED), (EMAILS, UNSTRUCTURED), (FINANCIAL, UNSTRUCTURED),
      (GOVERNMENT, UNSTRUCTURED), (LEGAL, UNSTRUCTURED), (MEDICAL, UNSTRUCTURED),
      (OPERATIONS, UNSTRUCTURED), (CODE, STRUCTURED), (FILES, STRUCTURED), (LOGS, STRUCTURED),
      (TERMINAL, STRUCTURED)]"

definition structure_of_category :: "category \<Rightarrow> structure_kind res" where
  "structure_of_category c =
     (case map_of CATEGORY_TO_STRUCTURE c of None \<Rightarrow> Inl KeyError | Some s \<Rightarrow> Inr s)"

text \<open>\<open>category.value\<close> and the call \<open>Category(value)\<close>, which refuses other values.\<close>

definition cat_string :: "category \<Rightarrow> string" where
  "cat_string c = (case map_of CATEGORY_VALUES c of None \<Rightarrow> [] | Some s \<Rightarrow> s)"

definition to_category :: "json \<Rightarrow> category res" where
  "to_category j =
     (case find (\<lambda>(c, s). j = JStr s) CATEGORY_VALUES of
        None \<Rightarrow> Inl ValueError
      | Some (c, s) \<Rightarrow> Inr c)"

lemma to_category_value: "to_category (JStr (cat_string c)) = Inr c"
  by (cases c) (simp_all add: to_category_def cat_string_def CATEGORY_VALUES_def)

lemma structure_of_category_total: "\<exists>s. structure_of_category c = Inr s"
  by (cases c) (simp_all add: structure_of_category_def CATEGORY_TO_STRUCTURE_def)

section \<open>Documents\<close>

record document =
  doc_id :: string
  doc_text :: string
  doc_category :: category
  doc_genre :: string
  doc_source :: string

definition doc_structure :: "document \<Rightarrow> structure_kind res" where
  "doc_structure d = structure_of_category (doc_category d)"

text \<open>\<open>obj[k]\<close> on a decoded line.\<close>

definition get_item :: "json \<Rightarrow> string \<Rightarrow> json res" where
  "get_item obj k =
     (case obj of
        JDict d \<Rightarrow> (case map_of d (JStr k) of None \<Rightarrow> Inl KeyError | Some v \<Rightarrow> Inr v)
      | _ \<Rightarrow> Inl TypeError)"

definition parse_document :: "(json \<Rightarrow> string) \<Rightarrow> json \<Rightarrow> document res" where
  "parse_document to_str obj =
     bind_res (get_item obj ''id'') (\<lambda>i.
     bind_res (get_item obj ''text'') (\<lambda>t.
     bind_res (get_item obj ''category'') (\<lambda>c.
     map_res (\<lambda>cat.
       \<lparr>doc_id = to_str i, doc_text = to_str t, doc_category = cat,
        doc_genre = to_str (jget_or (dict_items obj) ''genre'' (JStr [])),
        doc_source = to_str (jget_or (dict_items obj) ''source'' (JStr ''synthetic''))\<rparr>)
       (to_category c))))"

text \<open>One object per line; blank lines are skipped. \<open>parse\<close> is the body of the loop after \<open>loads\<close>.\<close>

fun load_lines :: "(string \<Rightarrow> json res) \<Rightarrow> (json \<Rightarrow> 'a res) \<Rightarrow> string list \<Rightarrow> 'a list res" where
  "load_lines loads parse [] = Inr []"
| "load_lines loads parse (l # ls) =
     (let line = py_strip l
      in if line = [] then load_lines loads parse ls
         else bind_res (bind_res (loads line) parse) (\<lambda>x.
           map_res ((#) x) (load_lines loads parse ls)))"

definition load_corpus ::
  "(string \<Rightarrow> json res) \<Rightarrow> (json \<Rightarrow> string) \<Rightarrow> string \<Rightarrow> document list res" where
  "load_corpus loads to_str content = load_lines loads (parse_document to_str) (split_lines [] content)"

definition document_json :: "document \<Rightarrow> json" where
  "document_json d =
     JDict [(JStr ''id'', JStr (doc_id d)), (JStr ''text'', JStr (doc_text d)),
            (JStr ''category'', JStr (cat_string (doc_category d))),
            (JStr ''genre'', JStr (doc_genre d)), (JStr ''source'', JStr (doc_source d))]"

definition write_corpus :: "(json \<Rightarrow> string) \<Rightarrow> document list \<Rightarrow> string" where
  "write_corpus dumps documents = concat (map (\<lambda>d. dumps (document_json d) @ [newline]) documents)"

section \<open>Reading back\<close>

lemma load_lines_clean:
  assumes "list_all clean_line ls" "list_all2 (\<lambda>l x. bind_res (loads l) parse = Inr x) ls xs"
  shows "load_lines loads parse ls = Inr xs"
  using assms(2,1) by (induction rule: list_all2_induct) (auto simp: clean_line_def Let_def)

lemma parse_document_json:
  assumes "\<And>s. to_str (JStr s) = s"
  shows "parse_document to_str (document_json d) = Inr d"
  by (simp add: parse_document_def document_json_def get_item_def jget_or_def dict_get_def
      to_category_value assms)

text \<open>What \<open>write_corpus\<close> writes, \<open>load_corpus\<close> reads, as long as the lines are clean.\<close>

theorem corpus_roundtrip:
  assumes "\<And>j. loads (dumps j) = Inr j" "\<And>s. to_str (JStr s) = s"
    and "\<forall>d \<in> set documents. clean_line (dumps (document_json d))"
  shows "load_corpus loads to_str (write_corpus dumps documents) = Inr documents"
proof -
  let ?ls = "map (\<lambda>d. dumps (document_json d)) documents"
  have clean: "list_all clean_line ?ls" using assms(3) by (simp add: list_all_iff)
  have "write_corpus dumps documents = concat (map (\<lambda>l. l @ [newline]) ?ls)"
    by (simp add: write_corpus_def o_def)
  with split_lines_lines [OF clean] have "split_lines [] (write_corpus dumps documents) = ?ls" by simp
  moreover have "list_all2 (\<lambda>l x. bind_res (loads l) (parse_document to_str) = Inr x) ?ls documents"
    by (simp add: list_all2_conv_all_nth assms(1) parse_document_json [of to_str, OF assms(2)])
  ultimately show ?thesis
    unfolding load_corpus_def by (simp add: load_lines_clean [OF clean])
qed

text \<open>
  A line with U+0085 inside is read as two, so the reader gets the text before it alone and
  fails as \<open>loads\<close> does.
\<close>

theorem corpus_torn_line:
  assumes "dumps (document_json d) = a @ [char_of (133 :: nat)] @ b" "clean_line a" "loads a = Inl e"
  shows "load_corpus loads to_str (write_corpus dumps [d]) = Inl e"
proof -
  have brk: "line_break (char_of (133 :: nat))" by (simp add: line_break_def)
  have no: "list_all (\<lambda>c. \<not> line_break c) a" using assms(2) by (simp add: clean_line_def)
  have "split_lines acc (a @ char_of (133 :: nat) # rest) = (rev acc @ a) # split_lines [] rest" for acc rest
    using no
  proof (induction a arbitrary: acc)
    case (Cons c l)
    then have "code c \<noteq> 13" by (auto simp: line_break_def)
    with Cons show ?case by simp
  qed (simp add: brk)
  with assms show ?thesis
    by (simp add: load_corpus_def write_corpus_def clean_line_def Let_def)
qed

section \<open>Annotations\<close>

text \<open>\<open>to_int\<close> is the built-in \<open>int\<close> on decoded values.\<close>

definition to_span_category :: "json \<Rightarrow> span_category res" where
  "to_span_category j =
     (if j = JStr (category_value MANDATORY) then Inr MANDATORY
      else if j = JStr (category_value CONTEXTUAL) then Inr CONTEXTUAL
      else Inl ValueError)"

definition parse_span :: "(json \<Rightarrow> int res) \<Rightarrow> json \<Rightarrow> labelled_span res" where
  "parse_span to_int s =
     bind_res (bind_res (get_item s ''start'') to_int) (\<lambda>a.
     bind_res (bind_res (get_item s ''end'') to_int) (\<lambda>b.
     map_res (\<lambda>c. \<lparr>ls_start = a, ls_end = b, ls_cat = c\<rparr>)
       (bind_res (get_item s ''category'') to_span_category)))"

fun parse_spans :: "(json \<Rightarrow> int res) \<Rightarrow> json list \<Rightarrow> labelled_span list res" where
  "parse_spans to_int [] = Inr []"
| "parse_spans to_int (s # ss) =
     bind_res (parse_span to_int s) (\<lambda>x. map_res ((#) x) (parse_spans to_int ss))"

text \<open>Iterating over a decoded value: of other values than lists only the empty ones do not raise.\<close>

fun iterate :: "json \<Rightarrow> json list res" where
  "iterate (JList xs) = Inr xs"
| "iterate (JStr []) = Inr []"
| "iterate (JDict []) = Inr []"
| "iterate _ = Inl TypeError"

fun key_string :: "json \<Rightarrow> string" where
  "key_string (JStr k) = k"
| "key_string _ = []"

definition parse_annotation ::
  "(json \<Rightarrow> string) \<Rightarrow> (json \<Rightarrow> int res) \<Rightarrow> (string \<times> string) list option \<Rightarrow> json \<Rightarrow> annotation res" where
  "parse_annotation to_str to_int documents obj =
     bind_res (get_item obj ''doc_id'') (\<lambda>i.
       let doc = to_str i;
           t = (case documents of
                  None \<Rightarrow> to_str (jget_or (dict_items obj) ''text'' (JStr []))
                | Some ds \<Rightarrow> (case map_of ds doc of
                     None \<Rightarrow> to_str (jget_or (dict_items obj) ''text'' (JStr []))
                   | Some t \<Rightarrow> t))
       in bind_res (bind_res (iterate (jget_or (dict_items obj) ''spans'' (JList []))) (parse_spans to_int))
         (\<lambda>raw_spans.
            case jget_or (dict_items obj) ''meta'' (JDict []) of
              JDict m \<Rightarrow> build_annotation \<lparr>ai_doc_id = doc, ai_spans = raw_spans, ai_text = t,
                           ai_meta = map (\<lambda>(k, v). (key_string k, to_str v)) m\<rparr>
            | _ \<Rightarrow> Inl AttributeError))"

definition load_annotations ::
  "(string \<Rightarrow> json res) \<Rightarrow> (json \<Rightarrow> string) \<Rightarrow> (json \<Rightarrow> int res) \<Rightarrow> (string \<times> string) list option \<Rightarrow> string \<Rightarrow>
   annotation list res" where
  "load_annotations loads to_str to_int documents content =
     load_lines loads (parse_annotation to_str to_int documents) (split_lines [] content)"

definition labelled_json :: "labelled_span \<Rightarrow> json" where
  "labelled_json s =
     JDict [(JStr ''start'', JInt (ls_start s)), (JStr ''end'', JInt (ls_end s)),
            (JStr ''category'', JStr (category_value (ls_cat s)))]"

definition annotation_json :: "annotation \<Rightarrow> json" where
  "annotation_json a =
     JDict [(JStr ''doc_id'', JStr (an_doc_id a)), (JStr ''spans'', JList (map labelled_json (an_spans a))),
            (JStr ''meta'', JDict (map (\<lambda>(k, v). (JStr k, JStr v)) (an_meta a)))]"

definition write_annotations :: "(json \<Rightarrow> string) \<Rightarrow> annotation list \<Rightarrow> string" where
  "write_annotations dumps annotations = concat (map (\<lambda>a. dumps (annotation_json a) @ [newline]) annotations)"

lemma parse_spans_json:
  assumes "\<And>i. to_int (JInt i) = Inr i"
  shows "parse_spans to_int (map labelled_json spans) = Inr spans"
proof (induction spans)
  case (Cons s spans)
  have "parse_span to_int (labelled_json s) = Inr s"
    using assms by (cases "ls_cat s")
      (simp_all add: parse_span_def labelled_json_def get_item_def to_span_category_def)
  with Cons show ?case by simp
qed simp

text \<open>
  A written annotation has no text, so the reader needs the documents; with them it returns
  the normalised annotation unchanged.
\<close>

lemma parse_annotation_json:
  assumes "\<And>s. to_str (JStr s) = s" "\<And>i. to_int (JInt i) = Inr i"
    and "map_of ds (an_doc_id a) = Some t" "normalize_spans spans t (int (length t)) = Inr (an_spans a)"
  shows "parse_annotation to_str to_int (Some ds) (annotation_json a) = Inr a"
  by (simp add: parse_annotation_def annotation_json_def get_item_def jget_or_def dict_get_def assms(1,3)
      parse_spans_json [of to_int, OF assms(2)] build_annotation_def normalize_spans_idem [OF assms(4)]
      o_def split_beta)

theorem annotations_roundtrip:
  assumes "\<And>j. loads (dumps j) = Inr j" "\<And>s. to_str (JStr s) = s" "\<And>i. to_int (JInt i) = Inr i"
    and "\<forall>a \<in> set anns. clean_line (dumps (annotation_json a))
      \<and> (\<exists>t spans. map_of ds (an_doc_id a) = Some t
           \<and> normalize_spans spans t (int (length t)) = Inr (an_spans a))"
  shows "load_annotations loads to_str to_int (Some ds) (write_annotations dumps anns) = Inr anns"
proof -
  let ?ls = "map (\<lambda>a. dumps (annotation_json a)) anns"
  have clean: "list_all clean_line ?ls" using assms(4) by (simp add: list_all_iff)
  have "write_annotations dumps anns = concat (map (\<lambda>l. l @ [newline]) ?ls)"
    by (simp add: write_annotations_def o_def)
  with split_lines_lines [OF clean] have "split_lines [] (write_annotations dumps anns) = ?ls" by simp
  moreover have "parse_annotation to_str to_int (Some ds) (annotation_json a) = Inr a" if "a \<in> set anns" for a
    using parse_annotation_json [of to_str to_int, OF assms(2,3)] assms(4) that by blast
  then have "list_all2 (\<lambda>l x. bind_res (loads l) (parse_annotation to_str to_int (Some ds)) = Inr x) ?ls anns"
    by (simp add: list_all2_conv_all_nth assms(1))
  ultimately show ?thesis
    unfolding load_annotations_def by (simp add: load_lines_clean [OF clean])
qed

end
