(* ===== verification/Snapshot.thy ===== *)
theory Snapshot
  imports Lines "HOL-Library.Word"
begin

text \<open>
  \<open>app/integrity.py\<close> and \<open>scripts/download_models.py\<close>: the digest of a model snapshot, the
  manifest of the pinned digests and the decision whether a download is accepted. SHA-256
  is an argument on lists of bytes; the download is one as well. The lemmas show that the
  digest depends on the files only and not on the order of the walk, that the hashed stream
  is read back uniquely as long as no path contains a line feed, that recording an entry
  is read back, and what an accepted download has in common with the recorded one.
\<close>

section \<open>Bytes and their hexadecimal text\<close>

type_synonym bytes = "8 word list"

definition hex_digit :: "nat \<Rightarrow> char" where
  "hex_digit n = char_of (if n < 10 then 48 + n else 87 + n)"

definition hexlify :: "bytes \<Rightarrow> string" where
  "hexlify bs = concat (map (\<lambda>b. [hex_digit (unat b div 16), hex_digit (unat b mod 16)]) bs)"

definition hex_val :: "char \<Rightarrow> nat option" where
  "hex_val c =
     (if 48 \<le> code c \<and> code c \<le> 57 then Some (code c - 48)
      else if 97 \<le> code c \<and> code c \<le> 102 then Some (code c - 87)
      else if 65 \<le> code c \<and> code c \<le> 70 then Some (code c - 55) else None)"

text \<open>\<open>bytes.fromhex\<close>, on texts without white space.\<close>

fun fromhex :: "string \<Rightarrow> bytes res" where
  "fromhex [] = Inr []"
| "fromhex [c] = Inl ValueError"
| "fromhex (c # d # cs) =
     (case (hex_val c, hex_val d) of
        (Some a, Some b) \<Rightarrow> map_res ((#) (of_nat (16 * a + b))) (fromhex cs)
      | _ \<Rightarrow> Inl ValueError)"

lemma hex_val_digit [simp]: "n < 16 \<Longrightarrow> hex_val (hex_digit n) = Some n"
  by (auto simp: hex_val_def hex_digit_def)

lemma fromhex_hexlify [simp]: "fromhex (hexlify bs) = Inr bs"
proof (induction bs)
  case (Cons b bs)
  have "unat b < 256" using unsigned_less [of b] by simp
  then have "unat b div 16 < 16" "unat b mod 16 < 16" by auto
  moreover have "word_of_nat (16 * (unat b div 16) + unat b mod 16) = b" by simp
  ultimately show ?case using Cons by (simp add: hexlify_def)
qed (simp add: hexlify_def)

lemma hexlify_inj: "hexlify a = hexlify b \<longleftrightarrow> a = b"
  by (metis fromhex_hexlify sum.inject(2))

lemma length_hexlify: "length (hexlify bs) = 2 * length bs"
  by (induction bs) (simp_all add: hexlify_def)

section \<open>\<open>sha256_file\<close>\<close>

text \<open>The chunks that \<open>iter(lambda: fh.read(n), b"")\<close> delivers; the hash object is the bytes it was fed.\<close>

function read_chunks :: "nat \<Rightarrow> bytes \<Rightarrow> bytes list" where
  "read_chunks n content =
     (let chunk = take n content
      in if chunk = [] then [] else chunk # read_chunks n (drop n content))"
  by pat_completeness auto
termination by (relation "measure (\<lambda>(n, content). length content)") auto

declare read_chunks.simps [simp del]

definition CHUNK :: nat where
  "CHUNK = 2 ^ 20"

definition sha256_file :: "(bytes \<Rightarrow> bytes) \<Rightarrow> bytes \<Rightarrow> string" where
  "sha256_file sha content = hexlify (sha (foldl (\<lambda>h chunk. h @ chunk) [] (read_chunks CHUNK content)))"

lemma concat_read_chunks: "0 < n \<Longrightarrow> concat (read_chunks n content) = content"
proof (induction n content rule: read_chunks.induct)
  case (1 n content)
  show ?case
  proof (cases "content = []")
    case True
    then show ?thesis by (simp add: read_chunks.simps)
  next
    case False
    with 1 show ?thesis by (subst read_chunks.simps) (simp add: Let_def)
  qed
qed

lemma foldl_append: "foldl (\<lambda>h c. h @ c) h cs = h @ concat cs"
  by (induction cs arbitrary: h) simp_all

text \<open>Reading in chunks does not change the digest.\<close>

lemma sha256_file_eq: "sha256_file sha content = hexlify (sha content)"
  by (simp add: sha256_file_def foldl_append concat_read_chunks CHUNK_def)

section \<open>\<open>snapshot_digest\<close>\<close>

text \<open>
  A directory: what \<open>rglob\<close> yields in its order, the relative path as bytes with the content
  of a regular file. Bytes are compared as unsigned numbers.
\<close>

type_synonym tree = "(bytes \<times> bytes option) list"

definition line_feed :: "8 word" where
  "line_feed = 10"

definition snapshot_files :: "tree \<Rightarrow> (bytes \<times> bytes) list" where
  "snapshot_files tree = sort_key fst (List.map_filter (\<lambda>(p, c). map_option (Pair p) c) tree)"

fun snapshot_stream :: "(bytes \<Rightarrow> bytes) \<Rightarrow> (bytes \<times> bytes) list \<Rightarrow> bytes res" where
  "snapshot_stream sha [] = Inr []"
| "snapshot_stream sha ((p, c) # files) =
     bind_res (fromhex (sha256_file sha c)) (\<lambda>d.
       map_res (\<lambda>rest. p @ [line_feed] @ d @ [line_feed] @ rest) (snapshot_stream sha files))"

definition snapshot_digest :: "(bytes \<Rightarrow> bytes) \<Rightarrow> tree \<Rightarrow> string res" where
  "snapshot_digest sha tree = map_res (\<lambda>stream. hexlify (sha stream)) (snapshot_stream sha (snapshot_files tree))"

text \<open>The same stream without the detour through hexadecimal.\<close>

definition frame_of :: "(bytes \<Rightarrow> bytes) \<Rightarrow> (bytes \<times> bytes) list \<Rightarrow> bytes" where
  "frame_of sha files = concat (map (\<lambda>(p, c). p @ [line_feed] @ sha c @ [line_feed]) files)"

lemma snapshot_stream_eq: "snapshot_stream sha files = Inr (frame_of sha files)"
  by (induction sha files rule: snapshot_stream.induct) (simp_all add: frame_of_def sha256_file_eq)

lemma snapshot_digest_eq: "snapshot_digest sha tree = Inr (hexlify (sha (frame_of sha (snapshot_files tree))))"
  by (simp add: snapshot_digest_def snapshot_stream_eq)

text \<open>The walk may come in any order.\<close>

definition tree_files :: "tree \<Rightarrow> (bytes \<times> bytes) set" where
  "tree_files tree = {(p, c). (p, Some c) \<in> set tree}"

definition proper_tree :: "tree \<Rightarrow> bool" where
  "proper_tree tree \<longleftrightarrow> distinct (map fst tree) \<and> (\<forall>(p, c) \<in> set tree. line_feed \<notin> set p)"

lemma set_snapshot_files: "set (snapshot_files tree) = tree_files tree"
  by (force simp: snapshot_files_def tree_files_def map_filter_def)

lemma distinct_map_filter_fst:
  "distinct (map fst tree) \<Longrightarrow> distinct (map fst (List.map_filter (\<lambda>(p, c). map_option (Pair p) c) tree))"
proof (induction tree)
  case (Cons x tree)
  obtain p c where x: "x = (p, c)" by force
  have "fst ` set (List.map_filter (\<lambda>(p, c). map_option (Pair p) c) tree) \<subseteq> fst ` set tree"
    by (force simp: map_filter_def)
  with Cons show ?case by (cases c) (auto simp: x map_filter_simps)
qed (simp add: map_filter_simps)

lemma snapshot_files_sorted:
  assumes "distinct (map fst tree)"
  shows "sorted (map fst (snapshot_files tree))" "distinct (map fst (snapshot_files tree))"
proof -
  show "sorted (map fst (snapshot_files tree))" by (simp add: snapshot_files_def)
  have "mset (map fst (snapshot_files tree)) = mset (map fst (List.map_filter (\<lambda>(p, c). map_option (Pair p) c) tree))"
    by (simp add: snapshot_files_def)
  then show "distinct (map fst (snapshot_files tree))"
    using distinct_map_filter_fst [OF assms] mset_eq_imp_distinct_iff by blast
qed

lemma snapshot_files_unique:
  assumes "distinct (map fst t1)" "distinct (map fst t2)"
  shows "snapshot_files t1 = snapshot_files t2 \<longleftrightarrow> tree_files t1 = tree_files t2"
proof
  assume e: "tree_files t1 = tree_files t2"
  have s: "set (snapshot_files t1) = set (snapshot_files t2)" using e by (simp add: set_snapshot_files)
  have "inj_on fst (set (snapshot_files t1) \<union> set (snapshot_files t2))"
    using snapshot_files_sorted(2) [OF assms(1)] s by (simp add: distinct_map)
  from map_sorted_distinct_set_unique [OF this snapshot_files_sorted [OF assms(1)] snapshot_files_sorted [OF assms(2)] s]
  show "snapshot_files t1 = snapshot_files t2" .
next
  assume "snapshot_files t1 = snapshot_files t2"
  then show "tree_files t1 = tree_files t2" by (simp add: set_snapshot_files [symmetric])
qed

text \<open>A stream without line feeds in its paths is read back: the path, then 32 bytes, then the rest.\<close>

lemma frame_of_inject:
  assumes "\<And>x. length (sha x) = 32"
    and "\<forall>(p, c) \<in> set f1. line_feed \<notin> set p" "\<forall>(p, c) \<in> set f2. line_feed \<notin> set p"
    and "frame_of sha f1 = frame_of sha f2"
  shows "map (\<lambda>(p, c). (p, sha c)) f1 = map (\<lambda>(p, c). (p, sha c)) f2"
  using assms(2-4)
proof (induction f1 arbitrary: f2)
  case Nil
  then show ?case by (cases f2) (auto simp: frame_of_def)
next
  case (Cons x f1)
  obtain p c where x: "x = (p, c)" by force
  from Cons.prems(3) obtain q d g where f2: "f2 = (q, d) # g" by (cases f2) (auto simp: frame_of_def x)
  have no: "line_feed \<notin> set p" "line_feed \<notin> set q" using Cons.prems(1,2) by (auto simp: x f2)
  have eq: "p @ line_feed # (sha c @ line_feed # frame_of sha f1) = q @ line_feed # (sha d @ line_feed # frame_of sha g)"
    using Cons.prems(3) by (simp add: x f2 frame_of_def)
  have "takeWhile (\<lambda>b. b \<noteq> line_feed) (p @ line_feed # u) = p" if "line_feed \<notin> set p" for p u
    using that by (induction p) auto
  with eq no have p: "p = q" by metis
  with eq have "sha c @ line_feed # frame_of sha f1 = sha d @ line_feed # frame_of sha g" by simp
  with assms(1) have "sha c = sha d" "frame_of sha f1 = frame_of sha g" by (auto simp: append_eq_append_conv)
  with p Cons.IH [of g] Cons.prems(1,2) show ?case by (simp add: x f2)
qed

text \<open>
  Two snapshots with the same stream have the same paths with the same content digests; if
  moreover the hash does not collide on the inputs at hand, equal digests mean equal files.
\<close>

definition hashed_inputs :: "(bytes \<Rightarrow> bytes) \<Rightarrow> tree \<Rightarrow> bytes set" where
  "hashed_inputs sha tree = insert (frame_of sha (snapshot_files tree)) (snd ` tree_files tree)"

lemma snapshot_digest_inject:
  assumes "\<And>x. length (sha x) = 32" "proper_tree t1" "proper_tree t2"
    and inj: "inj_on sha (hashed_inputs sha t1 \<union> hashed_inputs sha t2)"
  shows "snapshot_digest sha t1 = snapshot_digest sha t2 \<longleftrightarrow> tree_files t1 = tree_files t2"
proof
  have d: "distinct (map fst t1)" "distinct (map fst t2)" using assms(2,3) by (simp_all add: proper_tree_def)
  have lf: "\<forall>(p, c) \<in> set (snapshot_files t1). line_feed \<notin> set p" "\<forall>(p, c) \<in> set (snapshot_files t2). line_feed \<notin> set p"
    using assms(2,3) by (auto simp: set_snapshot_files tree_files_def proper_tree_def)
  assume "snapshot_digest sha t1 = snapshot_digest sha t2"
  then have "sha (frame_of sha (snapshot_files t1)) = sha (frame_of sha (snapshot_files t2))"
    by (simp add: snapshot_digest_eq hexlify_inj)
  then have "frame_of sha (snapshot_files t1) = frame_of sha (snapshot_files t2)"
    by (rule inj_onD [OF inj]) (simp_all add: hashed_inputs_def)
  from arg_cong [OF frame_of_inject [OF assms(1) lf this], of set]
  have images: "(\<lambda>(p, c). (p, sha c)) ` tree_files t1 = (\<lambda>(p, c). (p, sha c)) ` tree_files t2"
    by (simp only: set_map set_snapshot_files)
  have contents: "inj_on sha (snd ` (tree_files t1 \<union> tree_files t2))"
    by (rule inj_on_subset [OF inj]) (simp add: hashed_inputs_def image_Un subset_insertI2 le_supI2 le_supI1)
  have "inj_on (\<lambda>(p, c). (p, sha c)) (tree_files t1 \<union> tree_files t2)"
  proof (rule inj_onI)
    fix x y assume m: "x \<in> tree_files t1 \<union> tree_files t2" "y \<in> tree_files t1 \<union> tree_files t2"
      and e: "(\<lambda>(p, c). (p, sha c)) x = (\<lambda>(p, c). (p, sha c)) y"
    from e have "fst x = fst y" "sha (snd x) = sha (snd y)" by (simp_all add: case_prod_unfold)
    moreover from inj_onD [OF contents this(2) imageI [OF m(1)] imageI [OF m(2)]] have "snd x = snd y" .
    ultimately show "x = y" by (simp add: prod_eq_iff)
  qed
  from inj_on_image_eq_iff [OF this Un_upper1 Un_upper2] images show "tree_files t1 = tree_files t2" by (rule iffD1)
next
  assume "tree_files t1 = tree_files t2"
  then have "snapshot_files t1 = snapshot_files t2"
    using assms(2,3) snapshot_files_unique by (simp add: proper_tree_def)
  then show "snapshot_digest sha t1 = snapshot_digest sha t2" by (simp add: snapshot_digest_eq)
qed

text \<open>
  A path with a line feed is not framed: one file whose name contains the digest of another
  gives the stream of the two, whatever the hash is, so a change of layout can leave the
  digest as it was.
\<close>

theorem line_feed_in_path_collides:
  assumes "p < q" "tree1 = [(p, Some a), (q, Some b)]" "tree2 = [(p @ [line_feed] @ sha a @ [line_feed] @ q, Some b)]"
  shows "snapshot_digest sha tree1 = snapshot_digest sha tree2" "tree_files tree1 \<noteq> tree_files tree2"
proof -
  have "snapshot_files tree1 = [(p, a), (q, b)]" using assms(1) by (simp add: assms(2) snapshot_files_def map_filter_simps less_imp_le)
  moreover have "snapshot_files tree2 = [(p @ [line_feed] @ sha a @ [line_feed] @ q, b)]"
    by (simp add: assms(3) snapshot_files_def map_filter_simps)
  ultimately show "snapshot_digest sha tree1 = snapshot_digest sha tree2" by (simp add: snapshot_digest_eq frame_of_def)
  have "(p, a) \<in> tree_files tree1" "(p, a) \<notin> tree_files tree2" by (simp_all add: assms(2,3) tree_files_def)
  then show "tree_files tree1 \<noteq> tree_files tree2" by blast
qed

section \<open>The manifest\<close>

text \<open>\<open>str.split()\<close>\<close>

fun split_space :: "string \<Rightarrow> string \<Rightarrow> string list" where
  "split_space acc [] = (if acc = [] then [] else [rev acc])"
| "split_space acc (c # cs) =
     (if is_space c then (if acc = [] then split_space [] cs else rev acc # split_space [] cs)
      else split_space (c # acc) cs)"

type_synonym manifest = "((string \<times> string) \<times> string) list"

fun manifest_lines :: "string list \<Rightarrow> manifest \<Rightarrow> manifest res" where
  "manifest_lines [] entries = Inr entries"
| "manifest_lines (l # ls) entries =
     (let line = py_strip l
      in if line = [] \<or> hd line = CHR ''#'' then manifest_lines ls entries
         else (case split_space [] line of
                 [digest, repo, revision] \<Rightarrow> manifest_lines ls (AList.update (repo, revision) digest entries)
               | _ \<Rightarrow> Inl ValueError))"

text \<open>The content of the manifest, if the file exists.\<close>

definition read_manifest :: "string option \<Rightarrow> manifest res" where
  "read_manifest content =
     (case content of None \<Rightarrow> Inr [] | Some c \<Rightarrow> manifest_lines (split_lines [] c) [])"

definition MANIFEST_HEADER :: "string list" where
  "MANIFEST_HEADER =
     [''# sha256 digests of pinned model snapshots.'',
      ''# Format: <sha256> <repo_id> <revision>'',
      ''# Regenerate with: python scripts/download_models.py --record'']"

definition manifest_line :: "(string \<times> string) \<times> string \<Rightarrow> string" where
  "manifest_line e = snd e @ '' '' @ fst (fst e) @ '' '' @ snd (fst e)"

definition record_manifest :: "string \<Rightarrow> string \<Rightarrow> string \<Rightarrow> string option \<Rightarrow> string res" where
  "record_manifest repo revision digest content =
     map_res (\<lambda>entries. concat (map (\<lambda>l. l @ [newline])
         (MANIFEST_HEADER @ map manifest_line (sort (AList.update (repo, revision) digest entries)))))
       (read_manifest content)"

text \<open>What a field of the manifest looks like, and an entry that can be written.\<close>

definition token_ok :: "string \<Rightarrow> bool" where
  "token_ok x \<longleftrightarrow> x \<noteq> [] \<and> list_all (\<lambda>c. \<not> is_space c) x"

definition entry_ok :: "(string \<times> string) \<times> string \<Rightarrow> bool" where
  "entry_ok e \<longleftrightarrow> token_ok (fst (fst e)) \<and> token_ok (snd (fst e)) \<and> token_ok (snd e) \<and> hd (snd e) \<noteq> CHR ''#''"

lemma split_space_field:
  "list_all (\<lambda>c. \<not> is_space c) x \<Longrightarrow> split_space acc (x @ cs) = split_space (rev x @ acc) cs"
  by (induction x arbitrary: acc) simp_all

lemma space_is_space [simp]: "is_space CHR '' ''"
  by (simp add: is_space_def)

lemma split_space_last: "token_ok x \<Longrightarrow> split_space [] x = [x]"
  using split_space_field [of x "[]" "[]"] by (simp add: token_ok_def)

lemma split_space_more: "token_ok x \<Longrightarrow> split_space [] (x @ CHR '' '' # cs) = x # split_space [] cs"
  by (simp add: token_ok_def split_space_field)

lemma split_manifest_line: "entry_ok e \<Longrightarrow> split_space [] (manifest_line e) = [snd e, fst (fst e), snd (fst e)]"
  by (simp add: manifest_line_def entry_ok_def split_space_last split_space_more)

lemma split_space_fields: "list_all (\<lambda>c. \<not> is_space c) acc \<Longrightarrow> \<forall>x \<in> set (split_space acc cs). token_ok x"
proof (induction cs arbitrary: acc)
  case Nil
  then show ?case by (simp add: token_ok_def)
next
  case (Cons c cs)
  have "token_ok (rev acc)" if "acc \<noteq> []" using that Cons.prems by (simp add: token_ok_def)
  with Cons.IH [of "[]"] Cons.IH [of "c # acc"] Cons.prems show ?case by simp
qed

lemma line_break_is_space: "line_break c \<Longrightarrow> is_space c"
  by (auto simp: line_break_def is_space_def)

lemma py_strip_id: "l \<noteq> [] \<Longrightarrow> \<not> is_space (hd l) \<Longrightarrow> \<not> is_space (last l) \<Longrightarrow> py_strip l = l"
proof -
  assume a: "l \<noteq> []" "\<not> is_space (hd l)" "\<not> is_space (last l)"
  then have "dropWhile is_space l = l" "dropWhile is_space (rev l) = rev l"
    by (simp_all add: dropWhile_eq_self_iff hd_rev)
  then show ?thesis by (simp add: py_strip_def)
qed

lemma manifest_line_clean:
  assumes "entry_ok e"
  shows "clean_line (manifest_line e)" "hd (manifest_line e) \<noteq> CHR ''#''"
proof -
  obtain r v d where e: "e = ((r, v), d)" by (metis prod.collapse)
  have f: "token_ok r" "token_ok v" "token_ok d" "hd d \<noteq> CHR ''#''" using assms by (simp_all add: e entry_ok_def)
  have l: "manifest_line e = d @ CHR '' '' # r @ CHR '' '' # v" by (simp add: e manifest_line_def)
  have ends: "hd (manifest_line e) = hd d" "last (manifest_line e) = last v" using f by (simp_all add: l token_ok_def)
  show "hd (manifest_line e) \<noteq> CHR ''#''" using f(4) ends(1) by simp
  have "\<not> is_space (hd d)" "\<not> is_space (last v)" using f by (auto simp: token_ok_def list_all_iff)
  then have "py_strip (manifest_line e) = manifest_line e" using ends by (intro py_strip_id) (simp_all add: l)
  moreover have "list_all (\<lambda>c. \<not> line_break c) x" if "token_ok x" for x
    using that line_break_is_space by (auto simp: token_ok_def list_all_iff)
  then have "list_all (\<lambda>c. \<not> line_break c) (manifest_line e)" using f by (simp add: l line_break_def)
  ultimately show "clean_line (manifest_line e)" by (simp add: clean_line_def l)
qed

text \<open>Whatever is read can be written again, under distinct keys.\<close>

definition manifest_ok :: "manifest \<Rightarrow> bool" where
  "manifest_ok entries \<longleftrightarrow> distinct (map fst entries) \<and> list_all entry_ok entries"

lemma set_update_subset: "set (AList.update k v d) \<subseteq> insert (k, v) (set d)"
  by (induction d) auto

lemma manifest_ok_update: "manifest_ok d \<Longrightarrow> entry_ok (k, v) \<Longrightarrow> manifest_ok (AList.update k v d)"
  using set_update_subset [of k v d] by (fastforce simp: manifest_ok_def list_all_iff intro: distinct_update)

lemma hd_strip_field:
  assumes "split_space [] line = d # ds" "line \<noteq> []" "\<not> is_space (hd line)"
  shows "hd d = hd line"
proof -
  have "split_space acc cs = x # xs \<Longrightarrow> acc \<noteq> [] \<Longrightarrow> x \<noteq> [] \<and> hd x = last acc" for acc cs x xs
    by (induction cs arbitrary: acc) (auto simp: hd_rev split: if_splits)
  from this [of "[hd line]" "tl line" d ds] assms show ?thesis by (cases line) simp_all
qed

lemma strip_hd: "py_strip l \<noteq> [] \<Longrightarrow> \<not> is_space (hd (py_strip l))"
proof -
  assume ne: "py_strip l \<noteq> []"
  let ?d = "dropWhile is_space l"
  have "\<exists>ys. ?d = py_strip l @ ys"
    using takeWhile_dropWhile_id [of is_space "rev ?d"] by (metis py_strip_def rev_append rev_rev_ident)
  then obtain ys where ys: "?d = py_strip l @ ys" by blast
  with ne have "?d \<noteq> []" "hd ?d = hd (py_strip l)" by simp_all
  with hd_dropWhile [of is_space l] show ?thesis by simp
qed

lemma manifest_lines_ok: "manifest_lines ls d = Inr d' \<Longrightarrow> manifest_ok d \<Longrightarrow> manifest_ok d'"
proof (induction ls d rule: manifest_lines.induct)
  case (2 l ls entries)
  let ?l = "py_strip l"
  show ?case
  proof (cases "?l = [] \<or> hd ?l = CHR ''#''")
    case True
    with 2 show ?thesis by (simp add: Let_def)
  next
    case False
    then obtain d r v where s: "split_space [] ?l = [d, r, v]" and m: "manifest_lines ls (AList.update (r, v) d entries) = Inr d'"
      using 2(3) by (auto simp: Let_def split: list.splits)
    have "\<forall>x \<in> set (split_space [] ?l). token_ok x" by (rule split_space_fields) simp
    moreover have "hd d = hd ?l" using hd_strip_field [OF s] False strip_hd by blast
    ultimately have "entry_ok ((r, v), d)" using s False by (simp add: entry_ok_def)
    with 2(4) have "manifest_ok (AList.update (r, v) d entries)" by (rule manifest_ok_update)
    with 2(2) False s m show ?thesis by (simp add: Let_def)
  qed
qed simp

lemma read_manifest_ok: "read_manifest content = Inr entries \<Longrightarrow> manifest_ok entries"
  by (cases content) (auto simp: read_manifest_def manifest_ok_def [of "[]"] intro: manifest_lines_ok)

lemma manifest_lines_entries:
  "list_all entry_ok es \<Longrightarrow>
   manifest_lines (map manifest_line es) d = Inr (foldl (\<lambda>d (k, v). AList.update k v d) d es)"
proof (induction es arbitrary: d)
  case (Cons e es)
  then have "clean_line (manifest_line e)" "hd (manifest_line e) \<noteq> CHR ''#''" by (simp_all add: manifest_line_clean)
  with Cons show ?case by (simp add: clean_line_def split_manifest_line Let_def case_prod_unfold)
qed simp

lemma map_of_fold_update:
  "distinct (map fst es) \<Longrightarrow> map_of (foldl (\<lambda>d (k, v). AList.update k v d) d es) = map_of d ++ map_of es"
proof (induction es arbitrary: d)
  case (Cons e es)
  then have "map_of es (fst e) = None" by (simp add: map_of_eq_None_iff)
  with Cons show ?case by (cases e) (auto simp: fun_eq_iff map_add_def split: option.splits)
qed simp

lemma header_skipped: "manifest_lines (MANIFEST_HEADER @ ls) d = manifest_lines ls d"
proof -
  have "py_strip h = h \<and> hd h = CHR ''#'' \<and> h \<noteq> []" if "h \<in> set MANIFEST_HEADER" for h
    using that by (auto simp: MANIFEST_HEADER_def py_strip_id is_space_def)
  then show ?thesis by (simp add: MANIFEST_HEADER_def Let_def)
qed

lemma header_clean: "list_all clean_line MANIFEST_HEADER"
  by code_simp

text \<open>Recording an entry and reading the manifest again gives the old entries with the new one.\<close>

lemma record_then_read:
  assumes "read_manifest content = Inr entries" "entry_ok ((repo, revision), digest)"
  shows "\<exists>new entries'. record_manifest repo revision digest content = Inr new
    \<and> read_manifest (Some new) = Inr entries' \<and> map_of entries' = (map_of entries)((repo, revision) \<mapsto> digest)"
proof -
  let ?u = "AList.update (repo, revision) digest entries"
  have ok: "manifest_ok ?u" using manifest_ok_update [OF read_manifest_ok [OF assms(1)] assms(2)] .
  then have s: "list_all entry_ok (sort ?u)" "distinct (map fst (sort ?u))"
    by (simp_all add: manifest_ok_def list_all_iff) (metis distinct_map distinct_sort set_sort)
  have "map_of (sort ?u) = map_of ?u"
    using s(2) ok by (intro map_of_inject_set [THEN iffD2]) (simp_all add: manifest_ok_def)
  moreover have "list_all clean_line (MANIFEST_HEADER @ map manifest_line (sort ?u))"
    using header_clean s(1) manifest_line_clean(1) unfolding list_all_iff set_append set_map by blast
  ultimately show ?thesis using assms(1) s
    by (auto simp: record_manifest_def read_manifest_def split_lines_lines header_skipped manifest_lines_entries map_of_fold_update
        simp flip: map_append)
qed

section \<open>\<open>download_models.py\<close>\<close>

definition or_default :: "string option \<Rightarrow> string \<Rightarrow> string" where
  "or_default arg d = (case arg of None \<Rightarrow> d | Some a \<Rightarrow> if a = [] then d else a)"

text \<open>
  \<open>main\<close>, on the names of the settings, the outcome of \<open>snapshot_download\<close>, the arguments and
  the content of the manifest; the exit code, and the manifest afterwards.
\<close>

definition download_main ::
  "(bytes \<Rightarrow> bytes) \<Rightarrow> string \<times> string \<Rightarrow> (string \<Rightarrow> string \<Rightarrow> tree res) \<Rightarrow> string option \<Rightarrow> string option \<Rightarrow> bool \<Rightarrow>
   string option \<Rightarrow> int res \<times> string option" where
  "download_main sha names download model revision record_entry content =
     (let name = or_default model (fst names); rev = or_default revision (snd names)
      in (case bind_res (download name rev) (\<lambda>tree.
               bind_res (snapshot_digest sha tree) (\<lambda>digest.
               bind_res (read_manifest content) (\<lambda>entries.
                 let write = map_res (\<lambda>new. (0, Some new)) (record_manifest name rev digest content)
                 in (case map_of entries (name, rev) of
                       None \<Rightarrow> if \<not> record_entry then Inr (1, content) else write
                     | Some expected \<Rightarrow>
                         if expected = digest then Inr (0, content)
                         else if record_entry then write else Inr (1, content))))) of
            Inr (status, content') \<Rightarrow> (Inr status, content')
          | Inl e \<Rightarrow> (if is_Exception e then Inr 1 else Inl e, content)))"

lemma digest_field:
  assumes "bs \<noteq> []"
  shows "token_ok (hexlify bs)" "hd (hexlify bs) \<noteq> CHR ''#''"
proof -
  have h: "\<not> is_space (hex_digit n) \<and> hex_digit n \<noteq> CHR ''#''" if "n < 16" for n
  proof -
    have "code (hex_digit n) \<ge> 48 \<and> code (hex_digit n) < 103" using that by (simp add: hex_digit_def)
    then show ?thesis by (auto simp: is_space_def)
  qed
  have b: "unat b div 16 < 16 \<and> unat b mod 16 < 16" for b :: "8 word"
  proof -
    have "unat b < 256" using unsigned_less [of b] by simp
    then show ?thesis by auto
  qed
  show "token_ok (hexlify bs)" using assms h b by (cases bs) (auto simp: token_ok_def hexlify_def list_all_iff)
  show "hd (hexlify bs) \<noteq> CHR ''#''" using assms h b by (cases bs) (auto simp: hexlify_def)
qed

text \<open>A recording run that succeeds leaves a manifest with the digest of what it downloaded.\<close>

lemma recorded_digest:
  assumes "\<And>x. length (sha x) = 32" "token_ok (or_default model (fst names))" "token_ok (or_default revision (snd names))"
    and "download (or_default model (fst names)) (or_default revision (snd names)) = Inr t"
    and "download_main sha names download model revision True content = (Inr 0, Some new)"
  shows "\<exists>entries. read_manifest (Some new) = Inr entries
    \<and> map_of entries (or_default model (fst names), or_default revision (snd names))
        = Some (hexlify (sha (frame_of sha (snapshot_files t))))"
proof -
  let ?k = "(or_default model (fst names), or_default revision (snd names))"
  let ?d = "hexlify (sha (frame_of sha (snapshot_files t)))"
  have "sha x \<noteq> []" for x using assms(1) [of x] by auto
  then have e: "entry_ok (?k, ?d)" using assms(2,3) by (simp add: entry_ok_def digest_field)
  from assms(5) obtain entries where r: "read_manifest content = Inr entries"
    by (cases "read_manifest content") (auto simp: download_main_def assms(4) snapshot_digest_eq Let_def split: if_splits)
  from record_then_read [OF r e] obtain new' entries' where
    w: "record_manifest (fst ?k) (snd ?k) ?d content = Inr new'" "read_manifest (Some new') = Inr entries'"
      "map_of entries' = (map_of entries)(?k \<mapsto> ?d)" by auto
  from assms(5) have "new = new' \<or> (content = Some new \<and> map_of entries ?k = Some ?d)"
    using w(1) by (auto simp: download_main_def assms(4) snapshot_digest_eq r Let_def split: option.splits if_splits)
  with r w(2,3) show ?thesis by auto
qed

text \<open>
  C40. An accepted model is the recorded one: after a maintainer has recorded a snapshot, a
  verifying run exits with 0 if and only if it has downloaded the same files with the same
  contents, in whatever order the directory is walked, and it never changes the manifest.
  The hash need not be injective, only without a collision among the inputs of the two
  runs; the paths must not contain a line feed.
\<close>

theorem verified_download_is_recorded:
  assumes "\<And>x. length (sha x) = 32" "token_ok (or_default model (fst names))" "token_ok (or_default revision (snd names))"
    and "download1 (or_default model (fst names)) (or_default revision (snd names)) = Inr t1" "proper_tree t1"
    and "download2 (or_default model (fst names)) (or_default revision (snd names)) = Inr t2" "proper_tree t2"
    and "inj_on sha (hashed_inputs sha t1 \<union> hashed_inputs sha t2)"
    and "download_main sha names download1 model revision True content = (Inr 0, Some recorded)"
  shows "download_main sha names download2 model revision False (Some recorded)
    = (Inr (if tree_files t1 = tree_files t2 then 0 else 1), Some recorded)"
proof -
  from recorded_digest [of sha, OF assms(1,2,3,4,9)] obtain entries where e: "read_manifest (Some recorded) = Inr entries"
    "map_of entries (or_default model (fst names), or_default revision (snd names))
      = Some (hexlify (sha (frame_of sha (snapshot_files t1))))" by blast
  have "tree_files t1 = tree_files t2 \<longleftrightarrow> hexlify (sha (frame_of sha (snapshot_files t1))) = hexlify (sha (frame_of sha (snapshot_files t2)))"
    using snapshot_digest_inject [of sha, OF assms(1,5,7,8)] by (simp add: snapshot_digest_eq)
  then show ?thesis by (simp add: download_main_def assms(6) snapshot_digest_eq e Let_def)
qed

text \<open>Without \<open>--record\<close> the exit code is 1 whenever the manifest has no entry or cannot be read.\<close>

lemma unpinned_download_refused:
  assumes "\<forall>entries. read_manifest content = Inr entries \<longrightarrow>
      map_of entries (or_default model (fst names), or_default revision (snd names)) = None"
    and "download (or_default model (fst names)) (or_default revision (snd names)) = Inr t"
    and "\<forall>e. read_manifest content = Inl e \<longrightarrow> is_Exception e"
  shows "download_main sha names download model revision False content = (Inr 1, content)"
  using assms
  by (cases "read_manifest content") (simp_all add: download_main_def snapshot_digest_eq Let_def)

section \<open>An example\<close>

definition demo_sha :: "bytes \<Rightarrow> bytes" where
  "demo_sha x = take 32 (x @ replicate 32 0)"

definition demo_tree :: tree where
  "demo_tree = [([97], Some [1])]"

definition demo_walk :: tree where
  "demo_walk = [([98], None), ([97], Some [1])]"

theorem verified_download_is_recorded_witness:
  "\<exists>recorded. download_main demo_sha (''m'', ''r'') (\<lambda>n r. Inr demo_tree) None None True None = (Inr 0, Some recorded)
    \<and> download_main demo_sha (''m'', ''r'') (\<lambda>n r. Inr demo_walk) None None False (Some recorded) = (Inr 0, Some recorded)"
proof -
  have l: "length (demo_sha x) = 32" for x by (simp add: demo_sha_def)
  have f: "token_ok (or_default None (fst (''m'', ''r'')))" "token_ok (or_default None (snd (''m'', ''r'')))"
    by (simp_all add: or_default_def token_ok_def is_space_def)
  have t: "tree_files demo_tree = {([97], [1])}" "tree_files demo_walk = {([97], [1])}"
    by (auto simp: tree_files_def demo_tree_def demo_walk_def)
  have p: "proper_tree demo_tree" "proper_tree demo_walk"
    by (simp_all add: proper_tree_def demo_tree_def demo_walk_def line_feed_def)
  have s: "snapshot_files demo_tree = [([97], [1])]" "snapshot_files demo_walk = [([97], [1])]"
    by (simp_all add: snapshot_files_def demo_tree_def demo_walk_def map_filter_simps)
  have "hd (demo_sha (97 # y)) = 97" "hd (demo_sha (1 # y)) = 1" for y by (simp_all add: demo_sha_def numeral_eq_Suc)
  moreover have "(97 :: 8 word) \<noteq> 1" by simp
  ultimately have n: "demo_sha (97 # y) \<noteq> demo_sha [1]" for y by metis
  have i: "inj_on demo_sha (hashed_inputs demo_sha demo_tree \<union> hashed_inputs demo_sha demo_walk)"
    using n n [symmetric] by (simp add: hashed_inputs_def t s frame_of_def)
  have e: "entry_ok ((''m'', ''r''), hexlify (demo_sha x))" for x
  proof -
    have "demo_sha x \<noteq> []" using l [of x] by auto
    from digest_field [OF this] f show ?thesis by (simp add: entry_ok_def or_default_def)
  qed
  have "read_manifest None = Inr []" by (simp add: read_manifest_def)
  from record_then_read [OF this e [of "frame_of demo_sha (snapshot_files demo_tree)"]] obtain recorded where
    "record_manifest ''m'' ''r'' (hexlify (demo_sha (frame_of demo_sha (snapshot_files demo_tree)))) None = Inr recorded"
    by (elim exE conjE)
  then have r: "download_main demo_sha (''m'', ''r'') (\<lambda>n r. Inr demo_tree) None None True None = (Inr 0, Some recorded)"
    by (simp add: download_main_def or_default_def snapshot_digest_eq read_manifest_def)
  from verified_download_is_recorded [of demo_sha, OF l f _ p(1) _ p(2) i r] r t show ?thesis by auto
qed

end
