(* ===== verification/Worker.thy ===== *)
theory Worker
  imports JobApi Startup
begin

text \<open>
  The worker process of \<open>app/jobs/queue.py\<close> around \<open>process_job\<close>: the options it derives from
  the settings, the counter of active jobs under interleaved attempts, the heartbeat loop,
  and \<open>worker_main\<close> with its cleanup in the order of the \<open>finally\<close> block. What the ARQ worker
  does is an argument: the outcomes of its constructor, of its main loop and of \<open>close\<close>, and
  whether the attempts share the worker's \<open>ctx\<close>. The lemmas show what a heartbeat
  advertises, that the loop outlives every failure of the store, and what the cleanup needs
  to reach the audit backend.
\<close>

section \<open>Options\<close>

text \<open>Python's \<open>int\<close> on a float.\<close>

definition truncate_float :: "rat \<Rightarrow> int" where
  "truncate_float x = (if 0 \<le> x then \<lfloor>x\<rfloor> else \<lceil>x\<rceil>)"

text \<open>The fields that are overwritten; \<open>rs_dsn\<close> stands for what \<open>from_dsn\<close> has parsed.\<close>

record 'd redis_settings =
  rs_dsn :: 'd
  conn_timeout :: int
  max_connections :: int
  retry_on_timeout :: bool

definition worker_redis_settings :: "(string \<Rightarrow> 'd redis_settings) \<Rightarrow> settings \<Rightarrow> 'd redis_settings" where
  "worker_redis_settings from_dsn s =
     (from_dsn (redis_url s))\<lparr>conn_timeout := max 1 (truncate_float (redis_connect_timeout_seconds s)),
       max_connections := redis_max_connections s, retry_on_timeout := True\<rparr>"

definition shutdown_wait_seconds :: "settings \<Rightarrow> int" where
  "shutdown_wait_seconds s = max 1 (truncate_float (shutdown_timeout_seconds s))"

text \<open>
  Accepted settings give positive windows. Truncation shortens the drain window by less
  than a second, and only a window below one second is lengthened.
\<close>

lemma worker_windows:
  assumes "settings_fields_ok s"
  shows "1 \<le> conn_timeout (worker_redis_settings from_dsn s)"
    "1 \<le> max_connections (worker_redis_settings from_dsn s)" "1 \<le> shutdown_wait_seconds s"
    "shutdown_timeout_seconds s - 1 < of_int (shutdown_wait_seconds s)"
    "1 \<le> shutdown_timeout_seconds s \<Longrightarrow> of_int (shutdown_wait_seconds s) \<le> shutdown_timeout_seconds s"
proof -
  have r: "1 \<le> redis_max_connections s" "1 / 10 \<le> shutdown_timeout_seconds s"
    using assms unfolding settings_fields_ok_def by blast+
  show "1 \<le> max_connections (worker_redis_settings from_dsn s)"
    using r by (simp add: worker_redis_settings_def)
  show "1 \<le> conn_timeout (worker_redis_settings from_dsn s)" "1 \<le> shutdown_wait_seconds s"
    by (simp_all add: worker_redis_settings_def shutdown_wait_seconds_def)
  have p: "truncate_float (shutdown_timeout_seconds s) = \<lfloor>shutdown_timeout_seconds s\<rfloor>" using r by (simp add: truncate_float_def)
  show "shutdown_timeout_seconds s - 1 < of_int (shutdown_wait_seconds s)"
    unfolding shutdown_wait_seconds_def p by linarith
  show "of_int (shutdown_wait_seconds s) \<le> shutdown_timeout_seconds s" if "1 \<le> shutdown_timeout_seconds s"
    using that unfolding shutdown_wait_seconds_def p by (simp add: max_def)
qed

section \<open>The counter of active jobs\<close>

text \<open>\<open>ctx["active_jobs"]\<close>, a key that may be missing: before and after an attempt.\<close>

definition enter_job :: "int option \<Rightarrow> int option" where
  "enter_job c = Some ((case c of None \<Rightarrow> 0 | Some n \<Rightarrow> n) + 1)"

definition leave_job :: "int option \<Rightarrow> int option" where
  "leave_job c = Some (max 0 ((case c of None \<Rightarrow> 1 | Some n \<Rightarrow> n) - 1))"

definition active_jobs :: "int option \<Rightarrow> int" where
  "active_jobs c = (case c of None \<Rightarrow> 0 | Some n \<Rightarrow> n)"

text \<open>An attempt with its counter: the \<open>finally\<close> runs whatever the attempt ends with.\<close>

definition counted_job ::
  "'s job_env \<Rightarrow> job_store \<Rightarrow> int \<Rightarrow> rat \<Rightarrow> string \<Rightarrow> json \<Rightarrow> string \<Rightarrow> string \<Rightarrow> int option \<Rightarrow> 's \<Rightarrow>
   job_outcome \<times> int option \<times> 's" where
  "counted_job env st job_try jitter jid payload request_id princ c s =
     (let c1 = enter_job c; (r, s1) = process_job env st job_try jitter jid payload request_id princ s
      in (r, leave_job c1, s1))"

lemma counted_job_restores:
  "0 \<le> active_jobs c \<Longrightarrow>
   fst (snd (counted_job env st job_try jitter jid payload request_id princ c s)) = Some (active_jobs c)"
  by (auto simp: counted_job_def enter_job_def leave_job_def active_jobs_def split: option.splits prod.splits)

text \<open>
  Attempts overlap. With a shared \<open>ctx\<close> every attempt counts in the dictionary of the
  worker; otherwise each attempt counts in a copy made when it starts. An attempt does not
  yield between reading and writing the counter, so each update is one step.
\<close>

record worker_state =
  wk_ctx :: "int option"
  wk_running :: "nat set"
  wk_copy :: "nat \<Rightarrow> int option"

definition begin_attempt :: "bool \<Rightarrow> nat \<Rightarrow> worker_state \<Rightarrow> worker_state" where
  "begin_attempt shared j w =
     (if shared then w\<lparr>wk_running := insert j (wk_running w), wk_ctx := enter_job (wk_ctx w)\<rparr>
      else w\<lparr>wk_running := insert j (wk_running w), wk_copy := (wk_copy w)(j := enter_job (wk_ctx w))\<rparr>)"

definition end_attempt :: "bool \<Rightarrow> nat \<Rightarrow> worker_state \<Rightarrow> worker_state" where
  "end_attempt shared j w =
     (if shared then w\<lparr>wk_running := wk_running w - {j}, wk_ctx := leave_job (wk_ctx w)\<rparr>
      else w\<lparr>wk_running := wk_running w - {j}, wk_copy := (wk_copy w)(j := leave_job (wk_copy w j))\<rparr>)"

definition worker_init :: worker_state where
  "worker_init = \<lparr>wk_ctx = Some 0, wk_running = {}, wk_copy = (\<lambda>j. None)\<rparr>"

inductive worker_step :: "bool \<Rightarrow> worker_state \<Rightarrow> worker_state \<Rightarrow> bool" for shared where
  Begin: "j \<notin> wk_running w \<Longrightarrow> worker_step shared w (begin_attempt shared j w)"
| Finish: "j \<in> wk_running w \<Longrightarrow> worker_step shared w (end_attempt shared j w)"

inductive worker_reach :: "bool \<Rightarrow> worker_state \<Rightarrow> bool" for shared where
  Start: "worker_reach shared worker_init"
| Step: "worker_reach shared w \<Longrightarrow> worker_step shared w w' \<Longrightarrow> worker_reach shared w'"

inductive_cases worker_stepE: "worker_step shared w w'"

definition counter_inv :: "bool \<Rightarrow> worker_state \<Rightarrow> bool" where
  "counter_inv shared w \<longleftrightarrow>
     finite (wk_running w) \<and> wk_ctx w = Some (if shared then int (card (wk_running w)) else 0)
     \<and> (\<not> shared \<longrightarrow> (\<forall>j\<in>wk_running w. wk_copy w j = Some 1))"

lemma worker_step_inv: "worker_step shared w w' \<Longrightarrow> counter_inv shared w \<Longrightarrow> counter_inv shared w'"
proof (erule worker_stepE)
  fix j assume "counter_inv shared w" "w' = begin_attempt shared j w" "j \<notin> wk_running w"
  then show "counter_inv shared w'" by (auto simp: counter_inv_def begin_attempt_def enter_job_def)
next
  fix j assume a: "counter_inv shared w" "w' = end_attempt shared j w" "j \<in> wk_running w"
  then have "1 \<le> card (wk_running w)" by (auto simp: counter_inv_def Suc_le_eq card_gt_0_iff)
  with a show "counter_inv shared w'" by (auto simp: counter_inv_def end_attempt_def leave_job_def)
qed

text \<open>
  However attempts overlap, the counter that the heartbeat reads is the number of running
  attempts if they share the worker's dictionary, and always zero if each gets a copy.
\<close>

theorem worker_counts_attempts:
  "worker_reach shared w \<Longrightarrow> active_jobs (wk_ctx w) = (if shared then int (card (wk_running w)) else 0)"
proof -
  assume "worker_reach shared w"
  then have "counter_inv shared w"
  proof (induction rule: worker_reach.induct)
    case Start
    show ?case by (simp add: counter_inv_def worker_init_def)
  next
    case (Step w w')
    then show ?case by (blast intro: worker_step_inv)
  qed
  then show ?thesis by (simp add: counter_inv_def active_jobs_def)
qed

section \<open>The heartbeat\<close>

text \<open>
  A round: what the jobs did to the server since the last one, the faults of the two
  commands, the time, and the counter when it is read. The loop has no end of its own; it
  is cancelled while it sleeps after the given rounds.
\<close>

record 's beat =
  bt_jobs :: "'s \<Rightarrow> 's"
  bt_hset :: fault
  bt_expire :: fault
  bt_now :: rat
  bt_active :: "int option"

definition heartbeat_error :: "exn \<Rightarrow> bool" where
  "heartbeat_error e \<longleftrightarrow> is_os_error e \<or> e = RedisError \<or> is_runtime_error e \<or> is_value_error e"

fun heartbeat_loop :: "'s redis \<Rightarrow> job_store \<Rightarrow> string \<Rightarrow> int \<Rightarrow> 's beat list \<Rightarrow> 's \<Rightarrow> unit res \<times> 's" where
  "heartbeat_loop R st w max_jobs [] s = (Inl CancelledError, s)"
| "heartbeat_loop R st w max_jobs (b # bs) s =
     (case worker_heartbeat R st (bt_hset b) (bt_expire b) (bt_now b) w (active_jobs (bt_active b)) max_jobs (bt_jobs b s) of
        (Inr _, s1) \<Rightarrow> heartbeat_loop R st w max_jobs bs s1
      | (Inl e, s1) \<Rightarrow> if heartbeat_error e then heartbeat_loop R st w max_jobs bs s1 else (Inl e, s1))"

definition survivable :: "fault \<Rightarrow> bool" where
  "survivable flt \<longleftrightarrow> (case flt of None \<Rightarrow> True | Some (e, executed) \<Rightarrow> heartbeat_error e)"

lemma worker_heartbeat_error:
  assumes "survivable f1" "survivable f2" "worker_heartbeat R st f1 f2 now w a m s = (Inl e, s1)"
  shows "heartbeat_error e"
  using assms
  by (auto simp: worker_heartbeat_def with_client_def client_defs net_def survivable_def heartbeat_error_def
      is_runtime_error_def Let_def split: option.splits if_splits prod.splits)

lemma heartbeat_survives:
  assumes "\<forall>b\<in>set bs. survivable (bt_hset b) \<and> survivable (bt_expire b)"
  shows "fst (heartbeat_loop R st w max_jobs bs s) = Inl CancelledError"
  using assms
proof (induction bs arbitrary: s)
  case (Cons b bs)
  obtain r s1 where r: "worker_heartbeat R st (bt_hset b) (bt_expire b) (bt_now b) w (active_jobs (bt_active b)) max_jobs (bt_jobs b s)
      = (r, s1)" by force
  with Cons show ?case by (cases r) (auto dest: worker_heartbeat_error [rotated 2])
qed simp

lemma heartbeat_loop_append:
  assumes "\<forall>b\<in>set bs. survivable (bt_hset b) \<and> survivable (bt_expire b)"
  shows "heartbeat_loop R st w max_jobs (bs @ cs) s
    = heartbeat_loop R st w max_jobs cs (snd (heartbeat_loop R st w max_jobs bs s))"
  using assms
proof (induction bs arbitrary: s)
  case (Cons b bs)
  obtain r s1 where r: "worker_heartbeat R st (bt_hset b) (bt_expire b) (bt_now b) w (active_jobs (bt_active b)) max_jobs (bt_jobs b s)
      = (r, s1)" by force
  with Cons show ?case by (cases r) (auto dest: worker_heartbeat_error [rotated 2])
qed simp

text \<open>
  After a round without faults the key of the worker advertises the counter, whatever the
  rounds before it met; the time to live of the key is left to Redis.
\<close>

context redis_laws
begin

lemma heartbeat_hash_key:
  assumes "hash_key s (worker_key (js_namespace st) w)"
  shows "hash_key (snd (worker_heartbeat R st f1 f2 now w a m s)) (worker_key (js_namespace st) w)"
proof -
  let ?k = "worker_key (js_namespace st) w"
  let ?f = "[(''active_jobs'', VInt (max 0 a)), (''max_jobs'', VInt (max 1 m)), (''updated_at'', VNum now)]"
  have h: "hash_key (r_hset R ?k ?f s) ?k" using hset_hash [OF assms, of ?f] assms by (simp add: hash_key_def)
  have e: "hash_key (r_expire R ?k 15 s') ?k" if "hash_key s' ?k" for s'
    using expire_any [of 15 ?k s'] that by (simp add: hash_key_def)
  show ?thesis using assms h e
    by (auto simp: worker_heartbeat_def with_client_def client_defs net_def Let_def split: option.splits)
qed

definition keeps_hash_key :: "string \<Rightarrow> ('s \<Rightarrow> 's) \<Rightarrow> bool" where
  "keeps_hash_key k f \<longleftrightarrow> (\<forall>s. hash_key s k \<longrightarrow> hash_key (f s) k)"

lemma heartbeat_loop_hash_key:
  assumes "hash_key s (worker_key (js_namespace st) w)"
    and "\<forall>b\<in>set bs. keeps_hash_key (worker_key (js_namespace st) w) (bt_jobs b)"
  shows "hash_key (snd (heartbeat_loop R st w m bs s)) (worker_key (js_namespace st) w)"
  using assms
proof (induction bs arbitrary: s)
  case (Cons b bs)
  obtain r s1 where r: "worker_heartbeat R st (bt_hset b) (bt_expire b) (bt_now b) w (active_jobs (bt_active b)) m (bt_jobs b s)
      = (r, s1)" by force
  have "hash_key (bt_jobs b s) (worker_key (js_namespace st) w)" using Cons.prems by (simp add: keeps_hash_key_def)
  from heartbeat_hash_key [OF this] r have "hash_key s1 (worker_key (js_namespace st) w)" by (metis snd_conv)
  with Cons.IH Cons.prems(2) r show ?case by (cases r) simp_all
qed simp

lemma heartbeat_advertised:
  assumes "hash_key s (worker_key (js_namespace st) w)" "js_client st"
    and "\<forall>b\<in>set bs. survivable (bt_hset b) \<and> survivable (bt_expire b)" "bt_hset b = None" "bt_expire b = None"
    and "\<forall>c\<in>set (bs @ [b]). keeps_hash_key (worker_key (js_namespace st) w) (bt_jobs c)"
  shows "\<exists>s'. heartbeat_loop R st w m (bs @ [b]) s = (Inl CancelledError, s')
    \<and> hash s' (worker_key (js_namespace st) w) ''active_jobs'' = Some (VInt (max 0 (active_jobs (bt_active b))))
    \<and> hash s' (worker_key (js_namespace st) w) ''max_jobs'' = Some (VInt (max 1 m))
    \<and> worker_key (js_namespace st) w \<in> set (r_scan R (worker_key (js_namespace st) []) s')"
proof -
  let ?k = "worker_key (js_namespace st) w"
  let ?f = "[(''active_jobs'', VInt (max 0 (active_jobs (bt_active b)))), (''max_jobs'', VInt (max 1 m)),
    (''updated_at'', VNum (bt_now b))]"
  define s1 where "s1 = bt_jobs b (snd (heartbeat_loop R st w m bs s))"
  define s2 where "s2 = r_expire R ?k 15 (r_hset R ?k ?f s1)"
  have k: "hash_key s1 ?k" using heartbeat_loop_hash_key [OF assms(1), of bs] assms(6) by (simp add: keeps_hash_key_def s1_def)
  have h: "hash s2 ?k = hash s1 ?k ++ map_of ?f"
    unfolding s2_def using hset_hash [OF k, of ?f] expire_any [of 15 ?k "r_hset R ?k ?f s1"] by simp
  have l: "heartbeat_loop R st w m (bs @ [b]) s = (Inl CancelledError, s2)"
    unfolding heartbeat_loop_append [OF assms(3)] using assms(2,4,5)
    by (simp add: s1_def [symmetric] worker_heartbeat_def with_client_def client_defs Let_def s2_def)
  have f: "hash s2 ?k ''active_jobs'' = Some (VInt (max 0 (active_jobs (bt_active b))))"
    "hash s2 ?k ''max_jobs'' = Some (VInt (max 1 m))" unfolding h by simp_all
  have "?k \<in> set (r_scan R (worker_key (js_namespace st) []) s2)"
    using f(1) unfolding scan_set exists_iff by (auto simp: worker_key_def)
  with l f show ?thesis by blast
qed

end

section \<open>\<open>worker_main\<close>\<close>

text \<open>
  The surroundings: the outcomes of \<open>Worker(\<dots>)\<close> and of \<open>close\<close>, the rounds of the heartbeat,
  how the main loop ends after the last of them with what it did to the server, the fault of \<open>worker_stop\<close>, and what \<open>teardown_state\<close> needs.
\<close>

record 's worker_env =
  we_new :: "unit res"
  we_run :: "'s \<Rightarrow> unit res \<times> 's"
  we_close :: "unit res"
  we_id :: string
  we_beats :: "'s beat list"
  we_stop_fault :: fault
  we_remaining :: "component \<Rightarrow> rat"
  we_outcome :: "component \<Rightarrow> unit res"

definition suppress :: "(exn \<Rightarrow> bool) \<Rightarrow> unit res \<Rightarrow> unit res" where
  "suppress caught r = (case r of Inl e \<Rightarrow> if caught e then Inr () else Inl e | Inr u \<Rightarrow> Inr u)"

definition run_worker :: "unit res \<Rightarrow> unit res" where
  "run_worker r = suppress (\<lambda>e. e = CancelledError) r"

definition close_suppressed :: "exn \<Rightarrow> bool" where
  "close_suppressed e \<longleftrightarrow> is_os_error e \<or> is_runtime_error e \<or> e = CancelledError"

definition stop_suppressed :: "exn \<Rightarrow> bool" where
  "stop_suppressed e \<longleftrightarrow> is_os_error e \<or> is_runtime_error e \<or> is_value_error e"

text \<open>The store that \<open>build_state\<close> always constructs, with its client as the start left it.\<close>

definition worker_store :: "(string \<Rightarrow> string) \<Rightarrow> (rv \<Rightarrow> string) \<Rightarrow> settings \<Rightarrow> app_state \<Rightarrow> job_store option" where
  "worker_store sha show_rv s st =
     Some \<lparr>js_client = as_client st, js_namespace = redis_namespace s, js_ttl = job_ttl_seconds s,
       js_dead_letter_max = job_dead_letter_max s, js_sha = sha, js_text = show_rv\<rparr>"

text \<open>
  The \<open>finally\<close> block: the heartbeat is cancelled and awaited, then \<open>close\<close>, \<open>worker_stop\<close>
  and the teardown; the first exception that is not suppressed ends it. The result is the
  exception that replaces the outcome, what was closed, and the server state.
\<close>

definition worker_cleanup ::
  "'s redis \<Rightarrow> 's worker_env \<Rightarrow> job_store \<Rightarrow> unit res \<Rightarrow> 's \<Rightarrow>
   unit res \<times> (component \<times> close_outcome) list \<times> 's" where
  "worker_cleanup R we store heartbeat s =
     (case suppress (\<lambda>e. e = CancelledError) heartbeat of
        Inl e \<Rightarrow> (Inl e, [], s)
      | Inr _ \<Rightarrow>
          (case suppress close_suppressed (we_close we) of
             Inl e \<Rightarrow> (Inl e, [], s)
           | Inr _ \<Rightarrow>
               (case (if js_client store then net (we_stop_fault we) (write_only (worker_stop R store (we_id we))) s
                      else (Inr (), s)) of
                  (r, s1) \<Rightarrow>
                    (case suppress stop_suppressed r of
                       Inl e \<Rightarrow> (Inl e, [], s1)
                     | Inr _ \<Rightarrow>
                         (let (closed_list, r2) = close_all (we_remaining we) (we_outcome we) (present_components False True True)
                          in (r2, closed_list, s1))))))"

definition worker_main ::
  "'s redis \<Rightarrow> verify_env \<Rightarrow> boot_env \<Rightarrow> (settings \<Rightarrow> app_state \<Rightarrow> job_store option) \<Rightarrow> 's worker_env \<Rightarrow> settings \<Rightarrow> 's \<Rightarrow>
   unit res \<times> (component \<times> close_outcome) list \<times> 's" where
  "worker_main R ve bo store_of we s srv =
     (case bind_res (verify ve s) (\<lambda>_. build_state s bo) of
        Inl e \<Rightarrow> (Inl e, [], srv)
      | Inr st \<Rightarrow>
          (case store_of s st of
             None \<Rightarrow> (Inl RuntimeError, [], srv)
           | Some store \<Rightarrow>
               (case we_new we of
                  Inl e \<Rightarrow> (Inl e, [], srv)
                | Inr _ \<Rightarrow>
                    (let (heartbeat, srv1) = heartbeat_loop R store (we_id we) (worker_concurrency s) (we_beats we) srv;
                         (ran, srv2) = we_run we srv1;
                         (r, closed_list, srv3) = worker_cleanup R we store heartbeat srv2
                     in (case r of Inl e \<Rightarrow> Inl e | Inr _ \<Rightarrow> run_worker ran, closed_list, srv3)))))"

section \<open>What the cleanup reaches\<close>

lemma suppress_Inr_iff: "suppress caught r = Inr u \<longleftrightarrow> r = Inr () \<or> (\<exists>e. r = Inl e \<and> caught e)"
  by (cases r) (auto simp: suppress_def)

lemma suppress_caught [simp]: "caught e \<Longrightarrow> suppress caught (Inl e) = Inr ()"
  by (simp add: suppress_def)

lemma suppress_uncaught [simp]: "\<not> caught e \<Longrightarrow> suppress caught (Inl e) = Inl e"
  by (simp add: suppress_def)

lemma suppress_Inr [simp]: "suppress caught (Inr ()) = Inr ()"
  by (simp add: suppress_def)

text \<open>
  An orderly stop: if the heartbeat met only errors of the store, ARQ closes with nothing
  outside the suppressed classes and so does \<open>worker_stop\<close>, then the audit backend and the
  store are handled in this order and the result is that of the run, where a cancellation
  by a signal is a normal end.
\<close>

theorem worker_stops_orderly:
  assumes "verify ve s = Inr ()" "build_state s bo = Inr st" "store_of s st = Some store" "we_new we = Inr ()"
    and "\<forall>b\<in>set (we_beats we). survivable (bt_hset b) \<and> survivable (bt_expire b)"
    and "we_close we = Inr () \<or> (\<exists>e. we_close we = Inl e \<and> close_suppressed e)"
    and "\<forall>e x. we_stop_fault we = Some (e, x) \<longrightarrow> stop_suppressed e"
    and "\<And>c. we_outcome we c \<noteq> Inl CancelledError"
  shows "\<exists>closed_list srv1 srv'. worker_main R ve bo store_of we s srv = (run_worker (fst (we_run we srv1)), closed_list, srv')
    \<and> map fst closed_list = [Audit_c, Job_store_c]"
proof -
  let ?hb = "heartbeat_loop R store (we_id we) (worker_concurrency s) (we_beats we) srv"
  have hb: "fst ?hb = Inl CancelledError" by (rule heartbeat_survives [OF assms(5)])
  obtain ran srv2 where run: "we_run we (snd ?hb) = (ran, srv2)" by force
  obtain closed_list where c: "close_all (we_remaining we) (we_outcome we) [Audit_c, Job_store_c] = (closed_list, Inr ())"
    "map fst closed_list = [Audit_c, Job_store_c]"
    using close_all_total [of "we_outcome we", OF assms(8)] by metis
  have k: "suppress close_suppressed (we_close we) = Inr ()" using assms(6) by auto
  obtain r srv3 where stop: "(if js_client store then net (we_stop_fault we) (write_only (worker_stop R store (we_id we))) srv2
      else (Inr (), srv2)) = (r, srv3)" by force
  have "suppress stop_suppressed r = Inr ()"
    using stop assms(7) by (auto simp: net_def write_only_def split: if_splits option.splits)
  then have cleanup: "worker_cleanup R we store (Inl CancelledError) srv2 = (Inr (), closed_list, srv3)"
    using stop c(1) by (simp add: worker_cleanup_def k present_components_def)
  have "?hb = (Inl CancelledError, snd ?hb)" using hb by (metis prod.collapse)
  then obtain srv1 where hb1: "?hb = (Inl CancelledError, srv1)" by blast
  have "worker_main R ve bo store_of we s srv = (run_worker ran, closed_list, srv3)"
    using run by (simp add: worker_main_def assms(1-4) hb1 cleanup)
  moreover have "ran = fst (we_run we (snd ?hb))" by (simp add: run)
  ultimately show ?thesis using c(2) by (intro exI conjI) simp_all
qed

text \<open>
  \<open>worker_stop\<close> deletes a key, so it raises \<open>RedisError\<close> while Redis is away; that class is
  not suppressed here, though the heartbeat catches it: the teardown is skipped, and with
  it the flush of the audit backend.
\<close>

lemma redis_outage_skips_teardown:
  assumes "js_client store" "we_close we = Inr ()" "we_stop_fault we = Some (RedisError, x)"
  shows "\<exists>s'. worker_cleanup R we store (Inl CancelledError) s = (Inl RedisError, [], s')"
  using assms by (auto simp: worker_cleanup_def net_def stop_suppressed_def exn_class_defs)

text \<open>
  The guard that is to refuse a worker without Redis never fires: the store is an object
  even when its first ping failed.
\<close>

lemma worker_store_always: "worker_store sha show_rv s st \<noteq> None"
  by (simp add: worker_store_def)

lemma worker_starts_without_redis:
  assumes "verify ve s = Inr ()" "detector_name s = ''regex''" "audit_backend s = ''file''"
    and "bo_ping bo = Inl OSError" "bo_audit bo = Inr ()"
  shows "\<exists>st. bind_res (verify ve s) (\<lambda>_. build_state s bo) = Inr st \<and> worker_store sha show_rv s st \<noteq> None"
  using assms
  by (simp add: build_state_def load_detectors_def start_redis_def store_start_def is_Exception_def worker_store_def)

text \<open>An instance: the store is reachable again when the worker stops, and ARQ closes late.\<close>

definition demo_worker :: "store worker_env" where
  "demo_worker = \<lparr>we_new = Inr (), we_run = (\<lambda>s. (Inl CancelledError, s)), we_close = Inl TimeoutError, we_id = ''w1'',
     we_beats = [\<lparr>bt_jobs = (\<lambda>s. s), bt_hset = None, bt_expire = Some (RedisError, False), bt_now = 1, bt_active = Some 0\<rparr>],
     we_stop_fault = None, we_remaining = (\<lambda>c. 1), we_outcome = (\<lambda>c. if c = Audit_c then Inl OSError else Inr ())\<rparr>"

lemma worker_stops_orderly_example:
  "\<exists>closed_list srv'. worker_main list_redis demo_verify_env demo_boot (\<lambda>s st. Some demo_store) demo_worker gliner_settings []
     = (Inr (), closed_list, srv') \<and> map fst closed_list = [Audit_c, Job_store_c]"
proof -
  have v: "verify demo_verify_env gliner_settings = Inr ()" by code_simp
  have "detector_name gliner_settings = ''gliner2''" "audit_backend gliner_settings = ''file''"
    by (simp_all add: gliner_settings_def demo_settings_def)
  then obtain st where b: "build_state gliner_settings demo_boot = Inr st"
    by (auto simp: build_state_def load_detectors_def start_redis_def store_start_def demo_boot_def)
  have h: "\<forall>b\<in>set (we_beats demo_worker). survivable (bt_hset b) \<and> survivable (bt_expire b)"
    by (simp add: demo_worker_def survivable_def heartbeat_error_def)
  have o: "we_outcome demo_worker c \<noteq> Inl CancelledError" for c by (simp add: demo_worker_def)
  have e: "we_new demo_worker = Inr ()" "we_close demo_worker = Inl TimeoutError" "we_stop_fault demo_worker = None"
    "we_run demo_worker s = (Inl CancelledError, s)" for s
    by (simp_all add: demo_worker_def)
  from worker_stops_orderly [of _ _ _ _ "\<lambda>s st. Some demo_store", OF v b refl e(1) h _ _ o, of list_redis "[]"]
  show ?thesis by (simp add: e close_suppressed_def is_os_error_def run_worker_def)
qed

end
