(* ===== verification/Executor.thy ===== *)
theory Executor
  imports Pipeline
begin

text \<open>
  \<open>run_async\<close> of \<open>app/redaction/stages/model.py\<close> with the module-level executor that it
  shares between calls. A coroutine is the outcome of awaiting it; it can be awaited once.
  The lemmas show that on the threads where the pipeline calls it the result is that of the
  coroutine, and that inside a running loop only the first call gets through.
\<close>

datatype executor = No_executor | Open_executor | Shut_executor

datatype event_loop = No_loop | Idle_loop | Running_loop

definition get_executor :: "executor \<Rightarrow> executor" where
  "get_executor ex = (if ex = No_executor then Open_executor else ex)"

definition shutdown_executor :: "executor \<Rightarrow> executor" where
  "shutdown_executor ex = (if ex \<noteq> No_executor then No_executor else ex)"

text \<open>
  \<open>asyncio.run\<close> on the calling thread refuses a running loop, and a coroutine that has been
  awaited before; both are \<open>RuntimeError\<close>s.
\<close>

definition asyncio_run :: "event_loop \<Rightarrow> bool \<Rightarrow> 'a res \<Rightarrow> 'a res" where
  "asyncio_run lp awaited coro = (if lp = Running_loop \<or> awaited then Inl RuntimeError else coro)"

text \<open>
  The \<open>try\<close> block: its outcome, whether it has awaited the coroutine, and the executor
  after it. The \<open>with\<close> block shuts the executor down whatever its body did, and a submission
  to an executor that is shut fails.
\<close>

definition run_guarded :: "event_loop \<Rightarrow> 'a res \<Rightarrow> executor \<Rightarrow> 'a res \<times> bool \<times> executor" where
  "run_guarded lp coro ex =
     (case lp of
        No_loop \<Rightarrow> (Inl RuntimeError, False, ex)
      | Running_loop \<Rightarrow>
          (if get_executor ex = Shut_executor then (Inl RuntimeError, False, Shut_executor)
           else (coro, True, Shut_executor))
      | Idle_loop \<Rightarrow> (coro, True, ex))"

definition run_async :: "event_loop \<Rightarrow> 'a res \<Rightarrow> executor \<Rightarrow> 'a res \<times> executor" where
  "run_async lp coro ex =
     (case run_guarded lp coro ex of
        (Inl e, awaited, ex1) \<Rightarrow> (if is_runtime_error e then asyncio_run lp awaited coro else Inl e, ex1)
      | (Inr v, awaited, ex1) \<Rightarrow> (Inr v, ex1))"

lemmas run_async_defs = run_async_def run_guarded_def asyncio_run_def get_executor_def

text \<open>A worker thread has no loop: the call is exactly the coroutine and leaves the executor alone.\<close>

lemma run_async_off_loop: "run_async No_loop coro ex = (coro, ex)"
  by (simp add: run_async_defs is_runtime_error_def)

text \<open>The stage with its fallback is the stage of the pipeline, which runs on such a thread.\<close>

definition detector_sync_on :: "event_loop \<Rightarrow> model_stage \<Rightarrow> string \<Rightarrow> string list option \<Rightarrow> executor \<Rightarrow> span list res \<times> executor" where
  "detector_sync_on lp m t types ex =
     (case ms_detect_sync m of
        Some f \<Rightarrow> (f t types, ex)
      | None \<Rightarrow> run_async lp (ms_detect m t types) ex)"

lemma detector_sync_off_loop: "detector_sync_on No_loop m t types ex = (detector_sync m t types, ex)"
  by (simp add: detector_sync_on_def detector_sync_def run_async_off_loop split: option.splits)

text \<open>
  In every setting a result is the coroutine's own: no call makes one up, and an exception
  that is no \<open>RuntimeError\<close> is passed on.
\<close>

lemma run_async_sound: "fst (run_async lp coro ex) = Inr v \<Longrightarrow> coro = Inr v"
  by (auto simp: run_async_defs split: event_loop.splits sum.splits if_splits)

lemma run_async_other_error:
  assumes "coro = Inl e" "\<not> is_runtime_error e" "lp \<noteq> Running_loop \<or> ex \<noteq> Shut_executor"
  shows "fst (run_async lp coro ex) = Inl e"
  using assms by (cases lp) (auto simp: run_async_defs is_runtime_error_def)

text \<open>
  Inside a running loop the first call gets the result and leaves the executor shut; from
  then on every call fails, until \<open>shutdown_executor\<close> forgets the executor. The reuse that
  the comment promises does not take place.
\<close>

primrec run_async_calls :: "nat \<Rightarrow> 'a res \<Rightarrow> executor \<Rightarrow> 'a res list \<times> executor" where
  "run_async_calls 0 coro ex = ([], ex)"
| "run_async_calls (Suc n) coro ex =
     (let (r, ex1) = run_async Running_loop coro ex; (rs, ex2) = run_async_calls n coro ex1 in (r # rs, ex2))"

lemma run_async_calls_shut: "run_async_calls n coro Shut_executor = (replicate n (Inl RuntimeError), Shut_executor)"
  by (induction n) (simp_all add: run_async_defs is_runtime_error_def)

theorem run_async_once_per_executor:
  assumes "ex \<noteq> Shut_executor" "coro = Inr v"
  shows "run_async_calls (Suc n) coro ex = (Inr v # replicate n (Inl RuntimeError), Shut_executor)"
    and "fst (run_async Running_loop coro (shutdown_executor Shut_executor)) = Inr v"
proof -
  have "run_async Running_loop coro ex = (Inr v, Shut_executor)" using assms by (cases ex) (simp_all add: run_async_defs)
  then show "run_async_calls (Suc n) coro ex = (Inr v # replicate n (Inl RuntimeError), Shut_executor)"
    by (simp add: run_async_calls_shut)
  show "fst (run_async Running_loop coro (shutdown_executor Shut_executor)) = Inr v"
    using assms by (simp add: run_async_defs shutdown_executor_def)
qed

end
