(* ===== verification/AuditStop.thy ===== *)
theory AuditStop
  imports AuditLog
begin

text \<open>
  The end of the file log of \<open>app/audit/file.py\<close>: the loop of \<open>drain\<close> up to the sentinel and
  \<open>stop\<close>. The lemmas show what is in the file when the process ends: every queued event in
  its order if the sentinel gets into the queue and the disk takes the lines, and that an
  event is lost only with its own write or when the sentinel does not fit.
\<close>

section \<open>The loop of \<open>drain\<close>\<close>

text \<open>\<open>n\<close> rounds; the faults and times are numbered downwards. An uncaught class ends the task.\<close>

primrec drain_rounds ::
  "audit_env \<Rightarrow> ((json \<times> json) list \<Rightarrow> string) \<Rightarrow> (nat \<Rightarrow> fault) \<Rightarrow> (nat \<Rightarrow> string) \<Rightarrow> nat \<Rightarrow> file_audit \<Rightarrow> files \<Rightarrow>
   unit res \<times> file_audit \<times> files" where
  "drain_rounds ae dumps flt now_text 0 fa fs = (Inr (), fa, fs)"
| "drain_rounds ae dumps flt now_text (Suc n) fa fs =
     (case drain_step ae dumps (flt n) (now_text n) fa fs of
        (Inl e, fa1, fs1) \<Rightarrow> (Inl e, fa1, fs1)
      | (Inr _, fa1, fs1) \<Rightarrow> drain_rounds ae dumps flt now_text n fa1 fs1)"

datatype drain_task = No_task | Task_done | Task_running

text \<open>
  \<open>stop\<close>: with a running task the sentinel is put behind the queued events, which may first
  wait for room, and the task is awaited; when the sentinel does not fit in time the task is
  cancelled after \<open>k\<close> more rounds. Whatever awaiting the task raises is swallowed.
\<close>

definition file_stop ::
  "audit_env \<Rightarrow> ((json \<times> json) list \<Rightarrow> string) \<Rightarrow> (nat \<Rightarrow> fault) \<Rightarrow> (nat \<Rightarrow> string) \<Rightarrow> nat option \<Rightarrow> drain_task \<Rightarrow>
   file_audit \<Rightarrow> files \<Rightarrow> file_audit \<times> files" where
  "file_stop ae dumps flt now_text timed_out task fa fs =
     (if task \<noteq> Task_running then (fa\<lparr>fa_queue := None\<rparr>, fs)
      else
        (let rounds = (case timed_out of
               None \<Rightarrow> length (case fa_queue fa of None \<Rightarrow> [] | Some q \<Rightarrow> q)
             | Some k \<Rightarrow> k);
             (r, fa1, fs1) = drain_rounds ae dumps flt now_text rounds fa fs
         in (fa1\<lparr>fa_queue := None\<rparr>, fs1)))"

section \<open>What is in the file afterwards\<close>

definition write_error :: "exn \<Rightarrow> bool" where
  "write_error e \<longleftrightarrow> is_os_error e \<or> is_runtime_error e \<or> is_value_error e"

text \<open>The lines of a queue with the fault of each write, and those that reach the file.\<close>

fun reached_lines ::
  "audit_env \<Rightarrow> ((json \<times> json) list \<Rightarrow> string) \<Rightarrow> (nat \<Rightarrow> fault) \<Rightarrow> (nat \<Rightarrow> string) \<Rightarrow> string \<Rightarrow> audit_event list \<Rightarrow> string list" where
  "reached_lines ae dumps flt now_text key [] = []"
| "reached_lines ae dumps flt now_text key (ev # q) =
     (case flt (length q) of Some (e, False) \<Rightarrow> [] | _ \<Rightarrow> [audit_line ae dumps (now_text (length q)) ev key])
     @ reached_lines ae dumps flt now_text key q"

definition file_text :: "file_audit \<Rightarrow> files \<Rightarrow> string" where
  "file_text fa fs = (case fs (fa_path fa) of None \<Rightarrow> [] | Some c \<Rightarrow> c)"

lemma append_line_unrotated:
  "max_bytes \<le> 0 \<Longrightarrow> append_line path line max_bytes n fs path = Some ((case fs path of None \<Rightarrow> [] | Some c \<Rightarrow> c) @ line)"
  by (simp add: append_line_def rotate_if_needed_def)

lemma drain_step_unrotated:
  assumes "fa_queue fa = Some (ev # q)" "fa_max_bytes fa \<le> 0" "\<forall>e x. flt = Some (e, x) \<longrightarrow> write_error e"
  shows "\<exists>fa1 fs1. drain_step ae dumps flt now_text fa fs = (Inr (), fa1, fs1)
    \<and> (fa1 = fa\<lparr>fa_queue := Some q\<rparr> \<or> fa1 = fa\<lparr>fa_queue := Some q, fa_failed := True\<rparr>)
    \<and> file_text fa1 fs1 = file_text fa fs
        @ (case flt of Some (e, False) \<Rightarrow> [] | _ \<Rightarrow> audit_line ae dumps now_text ev (fa_integrity_key fa))"
  using assms
  by (auto simp: drain_step_def write_line_def net_def write_only_def file_text_def append_line_unrotated write_error_def
      split: option.splits bool.splits)

lemma drain_rounds_unrotated:
  assumes "fa_queue fa = Some q" "fa_max_bytes fa \<le> 0" "\<forall>n e x. flt n = Some (e, x) \<longrightarrow> write_error e"
  shows "\<exists>fa1 fs1. drain_rounds ae dumps flt now_text (length q) fa fs = (Inr (), fa1, fs1)
    \<and> fa_path fa1 = fa_path fa
    \<and> file_text fa1 fs1 = file_text fa fs @ concat (reached_lines ae dumps flt now_text (fa_integrity_key fa) q)"
  using assms
proof (induction q arbitrary: fa fs)
  case (Cons ev q)
  from drain_step_unrotated [OF Cons.prems(1,2), of "flt (length q)"] Cons.prems(3)
  obtain fa1 fs1 where s: "drain_step ae dumps (flt (length q)) (now_text (length q)) fa fs = (Inr (), fa1, fs1)"
    and f: "fa1 = fa\<lparr>fa_queue := Some q\<rparr> \<or> fa1 = fa\<lparr>fa_queue := Some q, fa_failed := True\<rparr>"
    and t: "file_text fa1 fs1 = file_text fa fs
        @ (case flt (length q) of Some (e, False) \<Rightarrow> [] | _ \<Rightarrow> audit_line ae dumps (now_text (length q)) ev (fa_integrity_key fa))"
    by blast
  from f have a: "fa_queue fa1 = Some q" "fa_max_bytes fa1 \<le> 0" "fa_path fa1 = fa_path fa"
    "fa_integrity_key fa1 = fa_integrity_key fa" using Cons.prems(2) by (elim disjE; simp)+
  from Cons.IH [OF a(1,2) Cons.prems(3), of fs1] s a t show ?case
    by (auto split: option.splits bool.splits)
qed simp

text \<open>
  A stop whose sentinel fits writes the queued events in their order: the file is its old
  content and then the lines whose own write went through, all of them on a disk without
  faults. No failing write takes a later event with it.
\<close>

theorem stop_flushes_queue:
  assumes "fa_queue fa = Some q" "fa_max_bytes fa \<le> 0" "\<forall>n e x. flt n = Some (e, x) \<longrightarrow> write_error e"
    and "file_stop ae dumps flt now_text None Task_running fa fs = (fa', fs')"
  shows "fa_queue fa' = None
    \<and> file_text fa' fs' = file_text fa fs @ concat (reached_lines ae dumps flt now_text (fa_integrity_key fa) q)"
proof -
  from drain_rounds_unrotated [OF assms(1-3), of ae dumps now_text fs]
  obtain fa1 fs1 where d: "drain_rounds ae dumps flt now_text (length q) fa fs = (Inr (), fa1, fs1)"
    "file_text fa1 fs1 = file_text fa fs @ concat (reached_lines ae dumps flt now_text (fa_integrity_key fa) q)" by blast
  from d(1) assms(1,4) have "fa' = fa1\<lparr>fa_queue := None\<rparr>" "fs' = fs1" by (auto simp: file_stop_def)
  with d(2) show ?thesis by (simp add: file_text_def)
qed

lemma reached_all:
  "\<forall>n. flt n = None \<Longrightarrow> length (reached_lines ae dumps flt now_text key q) = length q"
  by (induction q) simp_all

text \<open>
  When the sentinel does not fit within its second the task is cancelled and what is left in
  the queue is lost, without a word in \<open>dropped\<close>.
\<close>

lemma timed_out_stop_drops:
  assumes "fa_queue fa = Some q" "q \<noteq> []"
  shows "file_stop ae dumps flt now_text (Some 0) Task_running fa fs = (fa\<lparr>fa_queue := None\<rparr>, fs)"
  using assms by (simp add: file_stop_def)

text \<open>After a stop a required log refuses every event, and an optional one drops it uncounted.\<close>

lemma record_after_stop:
  "fa_queue fa = None \<Longrightarrow>
   file_record ae dumps flt now_text ev fa fs = (if fa_required fa then Inl RuntimeError else Inr (), fa, fs)"
  by (simp add: file_record_def)

end
