(* ===== verification/Spearman.thy ===== *)
theory Spearman
  imports Disagreement
begin

text \<open>
  \<open>spearman_rank\<close> of \<open>app/bench/disagreement.py\<close>: average ranks by a scan over the sorted
  observations, and the coefficient. The distribution function of the normal distribution
  is an argument. The scan gives the textbook rank of every observation, so the result
  depends on the order of the observations only.
\<close>

section \<open>Ranks\<close>

text \<open>
  The scan from position \<open>i\<close> of the sorted list: a group of equal values gets the average of
  its positions, counted from 1.
\<close>

function rank_loop :: "nat \<Rightarrow> (nat \<times> rat) list \<Rightarrow> rat list \<Rightarrow> rat list" where
  "rank_loop i [] out = out"
| "rank_loop i ((k, v) # rest) out =
     (let same = takeWhile (\<lambda>p. snd p = v) rest;
          j = i + length same;
          avg = of_nat (i + j) / 2 + 1
      in rank_loop (j + 1) (dropWhile (\<lambda>p. snd p = v) rest)
           (foldl (\<lambda>acc p. acc[fst p := avg]) out ((k, v) # same)))"
  by pat_completeness auto
termination by (relation "measure (\<lambda>(i, xs, out). length xs)") (auto simp: less_Suc_eq_le length_dropWhile_le)

definition ranks :: "rat list \<Rightarrow> rat list" where
  "ranks values = rank_loop 0 (sort_key snd (enumerate 0 values)) (replicate (length values) 0)"

text \<open>The reference: one more than the smaller values, and half of the other equal ones.\<close>

definition below :: "rat \<Rightarrow> rat list \<Rightarrow> nat" where
  "below v values = length (filter (\<lambda>x. x < v) values)"

definition same_as :: "rat \<Rightarrow> rat list \<Rightarrow> nat" where
  "same_as v values = length (filter (\<lambda>x. x = v) values)"

definition average_rank :: "rat list \<Rightarrow> rat \<Rightarrow> rat" where
  "average_rank values v = of_nat (below v values) + (of_nat (same_as v values) + 1) / 2"

lemma foldl_update_nth:
  "\<forall>p \<in> set ps. fst p < length out \<Longrightarrow> k < length out \<Longrightarrow>
   foldl (\<lambda>acc p. acc[fst p := a]) out ps ! k = (if k \<in> fst ` set ps then a else out ! k)
   \<and> length (foldl (\<lambda>acc p. acc[fst p := a]) out ps) = length out"
  by (induction ps arbitrary: out) (auto simp: nth_list_update)

lemma sorted_split_group:
  assumes "sorted (map snd ((k, v) # rest))"
  shows "\<forall>p \<in> set (dropWhile (\<lambda>p. snd p = v) rest). v < snd p"
proof
  fix p assume p: "p \<in> set (dropWhile (\<lambda>p. snd p = v) rest)"
  let ?d = "dropWhile (\<lambda>p. snd p = v) rest"
  have "sorted (map snd ?d)" using assms sorted_dropWhile [of "map snd rest" "\<lambda>x. x = v"] by (simp add: dropWhile_map comp_def)
  moreover have ne: "?d \<noteq> []" using p by (metis empty_iff empty_set)
  then have "snd (hd ?d) \<noteq> v" by (rule hd_dropWhile)
  moreover have "v \<le> snd (hd ?d)" using assms hd_in_set [OF ne] set_dropWhileD by fastforce
  ultimately show "v < snd p" using p by (cases ?d) force+
qed

lemma rank_loop_nth:
  assumes "sorted (map snd xs)" "distinct (map fst xs)" "\<forall>p \<in> set xs. fst p < length out" "n < length out"
  shows "rank_loop i xs out ! n =
      (case map_of xs n of
         None \<Rightarrow> out ! n
       | Some v \<Rightarrow> of_nat i + average_rank (map snd xs) v)
    \<and> length (rank_loop i xs out) = length out"
  using assms
proof (induction "length xs" arbitrary: xs i out rule: less_induct)
  case less
  show ?case
  proof (cases xs)
    case Nil
    then show ?thesis by simp
  next
    case (Cons x rest)
    obtain k v where x: "x = (k, v)" by force
    define same where "same = takeWhile (\<lambda>p. snd p = v) rest"
    define more where "more = dropWhile (\<lambda>p. snd p = v) rest"
    define avg :: rat where "avg = of_nat (i + (i + length same)) / 2 + 1"
    define out' where "out' = foldl (\<lambda>acc p. acc[fst p := avg]) out ((k, v) # same)"
    have xs: "xs = ((k, v) # same) @ more" by (simp add: Cons x same_def more_def)
    have step: "rank_loop i xs out = rank_loop (i + length same + 1) more out'"
      by (simp add: Cons x same_def more_def out'_def avg_def Let_def)
    have equal: "\<forall>p \<in> set ((k, v) # same). snd p = v" by (auto simp: same_def dest: set_takeWhileD)
    have greater: "\<forall>p \<in> set more. v < snd p" using sorted_split_group [of k v rest] less.prems(1) by (simp add: more_def Cons x)
    have o: "out' ! n = (if n \<in> fst ` set ((k, v) # same) then avg else out ! n)" "length out' = length out"
      using foldl_update_nth [of "(k, v) # same" out n avg] less.prems(3,4) by (auto simp: out'_def xs)
    have IH: "rank_loop (i + length same + 1) more out' ! n =
        (case map_of more n of None \<Rightarrow> out' ! n | Some w \<Rightarrow> of_nat (i + length same + 1) + average_rank (map snd more) w)
      \<and> length (rank_loop (i + length same + 1) more out') = length out'"
      by (rule less.hyps) (use less.prems o(2) in \<open>auto simp: xs sorted_append\<close>)
    have counts: "below w (map snd xs) = length same + 1 + below w (map snd more)" "same_as w (map snd xs) = same_as w (map snd more)"
      if "v < w" for w
      using equal that by (auto simp: xs below_def same_as_def filter_id_conv filter_empty_conv)
    have first: "below v (map snd xs) = 0" "same_as v (map snd xs) = length same + 1"
      using equal greater by (auto simp: xs below_def same_as_def filter_id_conv filter_empty_conv)
    have dist: "fst ` set ((k, v) # same) \<inter> fst ` set more = {}" using less.prems(2) by (auto simp: xs)
    show ?thesis
    proof (cases "n \<in> fst ` set ((k, v) # same)")
      case True
      then have "map_of more n = None" using dist by (auto simp: map_of_eq_None_iff)
      moreover have "map_of xs n = Some v"
      proof -
        from True obtain q where q: "q \<in> set ((k, v) # same)" "fst q = n" by blast
        with equal have "q = (n, v)" by (auto simp: prod_eq_iff)
        with q(1) have "(n, v) \<in> set xs" by (auto simp: xs)
        with less.prems(2) show ?thesis by simp
      qed
      ultimately show ?thesis using IH o True first
        by (simp add: step average_rank_def avg_def field_simps)
    next
      case False
      then have "map_of ((k, v) # same) n = None" by (simp only: map_of_eq_None_iff not_False_eq_True)
      then have m: "map_of xs n = map_of more n" unfolding xs map_of_append by (cases "map_of more n") (simp_all only: map_add_def option.case)
      have "v < w" if "map_of more n = Some w" for w using greater map_of_SomeD [OF that] by auto
      with IH o False m counts show ?thesis by (auto simp: step average_rank_def split: option.splits)
    qed
  qed
qed

text \<open>Every observation gets its textbook rank.\<close>

theorem ranks_average:
  assumes "n < length values"
  shows "ranks values ! n = average_rank values (values ! n)" "length (ranks values) = length values"
proof -
  let ?e = "sort_key snd (enumerate 0 values)"
  have p: "mset ?e = mset (enumerate 0 values)" by simp
  have keys: "distinct (map fst (enumerate 0 values))" by (simp add: map_fst_enumerate)
  then have d: "distinct (map fst ?e)" by (metis mset_eq_imp_distinct_iff mset_map p)
  have "(n, values ! n) \<in> set ?e" using assms by (simp add: in_set_enumerate_eq)
  with d have m: "map_of ?e n = Some (values ! n)" by simp
  have "mset (map snd ?e) = mset values" by (metis mset_map p map_snd_enumerate)
  then have c: "mset (filter P (map snd ?e)) = mset (filter P values)" for P by (simp add: mset_filter)
  have "average_rank (map snd ?e) v = average_rank values v" for v
    using c [of "\<lambda>x. x < v"] c [of "\<lambda>x. x = v"] by (simp add: average_rank_def below_def same_as_def flip: size_mset)
  moreover have "sorted (map snd ?e)" by simp
  moreover have "\<forall>q \<in> set ?e. fst q < length (replicate (length values) (0 :: rat))"
    by (auto simp: in_set_enumerate_eq)
  ultimately show "ranks values ! n = average_rank values (values ! n)" "length (ranks values) = length values"
    using rank_loop_nth [OF _ d, of "replicate (length values) 0" n 0] m assms by (simp_all add: ranks_def)
qed

lemma length_ranks: "length (ranks values) = length values"
  by (cases "values") (use ranks_average(2) [of 0 "values"] in \<open>auto simp: ranks_def\<close>)

text \<open>Only the order of the observations matters.\<close>

definition same_order :: "rat list \<Rightarrow> rat list \<Rightarrow> bool" where
  "same_order xs ys \<longleftrightarrow> length xs = length ys \<and> (\<forall>i < length xs. \<forall>j < length xs. xs ! i < xs ! j \<longleftrightarrow> ys ! i < ys ! j)"

lemma ranks_same_order:
  assumes "same_order xs ys"
  shows "ranks xs = ranks ys"
proof (rule nth_equalityI)
  show l: "length (ranks xs) = length (ranks ys)" using assms by (simp add: length_ranks same_order_def)
  fix n assume "n < length (ranks xs)"
  then have n: "n < length xs" "n < length ys" using assms by (simp_all add: length_ranks same_order_def)
  have lt: "xs ! i < xs ! j \<longleftrightarrow> ys ! i < ys ! j" if "i < length xs" "j < length xs" for i j
    using assms that by (simp add: same_order_def)
  have eq: "xs ! i = xs ! j \<longleftrightarrow> ys ! i = ys ! j" if "i < length xs" "j < length xs" for i j
    using lt [OF that] lt [OF that(2,1)] by linarith
  have "below (xs ! n) xs = below (ys ! n) ys" "same_as (xs ! n) xs = same_as (ys ! n) ys"
    unfolding below_def same_as_def length_filter_conv_card using assms n lt eq
    by (auto simp: same_order_def intro!: arg_cong [of _ _ card])
  then show "ranks xs ! n = ranks ys ! n" using n by (simp add: ranks_average average_rank_def)
qed

section \<open>The coefficient\<close>

definition rank_distance :: "rat list \<Rightarrow> rat list \<Rightarrow> rat" where
  "rank_distance rx ry = sum_list (map (\<lambda>(a, b). (a - b) ^ 2) (zip rx ry))"

text \<open>\<open>cdf\<close> is \<open>NormalDist().cdf\<close>.\<close>

definition spearman_rank :: "(real \<Rightarrow> real) \<Rightarrow> rat list \<Rightarrow> rat list \<Rightarrow> (rat \<times> real) res" where
  "spearman_rank cdf xs ys =
     (let n = length xs
      in if n \<noteq> length ys then Inl ValueError
         else if n < 3 then Inl ValueError
         else
           (let d2 = rank_distance (ranks xs) (ranks ys);
                rho = 1 - (6 * d2) / of_nat (n * (n * n - 1))
            in if \<bar>rho\<bar> \<ge> 999999 / 1000000 then Inr (rho, 0)
               else
                 (let r = of_rat rho;
                      t_stat = r * sqrt ((of_nat n - 2) / (1 - r * r))
                  in Inr (rho, 2 * (1 - cdf \<bar>t_stat\<bar>)))))"

lemma rank_distance_commute: "rank_distance rx ry = rank_distance ry rx"
  unfolding rank_distance_def
  by (induction rx ry rule: list_induct2') (simp_all add: power2_commute)

lemma rank_distance_zero:
  assumes "length rx = length ry"
  shows "0 \<le> rank_distance rx ry" "rank_distance rx ry = 0 \<longleftrightarrow> rx = ry"
proof -
  show n: "0 \<le> rank_distance rx ry" for rx ry
    unfolding rank_distance_def by (rule sum_list_nonneg) auto
  show "rank_distance rx ry = 0 \<longleftrightarrow> rx = ry" using assms
  proof (induction rx ry rule: list_induct2)
    case (Cons a rx b ry)
    have "rank_distance (a # rx) (b # ry) = (a - b)\<^sup>2 + rank_distance rx ry" by (simp add: rank_distance_def)
    with Cons n [of rx ry] show ?case by (simp add: add_nonneg_eq_0_iff)
  qed (simp add: rank_distance_def)
qed

text \<open>
  The coefficient is symmetric, depends on the order only, is at most 1, and is 1 exactly
  when the two samples are ranked alike; the p-value is a probability if the distribution
  function is at least one half on the positive side.
\<close>

theorem spearman_rank_correct:
  assumes "length xs = length ys" "3 \<le> length xs" "\<And>t. 0 \<le> t \<Longrightarrow> 1 / 2 \<le> cdf t \<and> cdf t \<le> 1"
  shows "\<exists>rho p. spearman_rank cdf xs ys = Inr (rho, p) \<and> spearman_rank cdf ys xs = Inr (rho, p)
    \<and> rho \<le> 1 \<and> (rho = 1 \<longleftrightarrow> ranks xs = ranks ys) \<and> 0 \<le> p \<and> p \<le> 1"
proof -
  let ?d = "rank_distance (ranks xs) (ranks ys)"
  let ?m = "of_nat (length xs * (length xs * length xs - 1)) :: rat"
  define rho where "rho = 1 - (6 * ?d) / ?m"
  have l: "length (ranks xs) = length (ranks ys)" by (simp add: length_ranks assms(1))
  have "1 < length xs * length xs" using assms(2) by (simp add: one_less_mult)
  then have m: "0 < ?m" using assms(2) by (simp only: of_nat_0_less_iff) auto
  note d = rank_distance_zero [OF l]
  have r: "rho \<le> 1" "rho = 1 \<longleftrightarrow> ranks xs = ranks ys" using d m unfolding rho_def by (auto simp del: of_nat_mult)
  have c: "rank_distance (ranks ys) (ranks xs) = ?d" by (rule rank_distance_commute)
  show ?thesis
  proof (cases "\<bar>rho\<bar> \<ge> 999999 / 1000000")
    case True
    then have "spearman_rank cdf xs ys = Inr (rho, 0)" "spearman_rank cdf ys xs = Inr (rho, 0)"
      using assms(1,2) c by (simp_all add: spearman_rank_def Let_def rho_def)
    with r show ?thesis by auto
  next
    case False
    define t where "t = \<bar>of_rat rho * sqrt ((of_nat (length xs) - 2) / (1 - of_rat rho * of_rat rho))\<bar> "
    have "spearman_rank cdf xs ys = Inr (rho, 2 * (1 - cdf t))" "spearman_rank cdf ys xs = Inr (rho, 2 * (1 - cdf t))"
      using False assms(1,2) c by (simp_all add: spearman_rank_def Let_def rho_def t_def)
    moreover have "1 / 2 \<le> cdf t \<and> cdf t \<le> 1" by (rule assms(3)) (simp add: t_def)
    ultimately show ?thesis using r by auto
  qed
qed

lemma spearman_same_order: "same_order xs xs' \<Longrightarrow> spearman_rank cdf xs ys = spearman_rank cdf xs' ys"
  using ranks_same_order [of xs xs'] by (simp add: spearman_rank_def Let_def) (simp add: same_order_def)

text \<open>
  The formula is the coefficient of the ranks only without ties: a constant sample, which
  correlates with nothing, gets one half.
\<close>

lemma constant_sample_correlates: "\<exists>p. spearman_rank cdf [1, 1, 1] [1, 2, 3] = Inr (1 / 2, p)"
proof -
  have "ranks [1, 1, 1] = [2, 2, 2]" "ranks [1, 2, 3] = [1, 2, 3]" by code_simp+
  then show ?thesis by (simp add: spearman_rank_def rank_distance_def Let_def)
qed

end
