(* ===== verification/Evaluation.thy ===== *)
theory Evaluation
  imports RegexDetector Detectors
begin

text \<open>
  \<open>scripts/eval.py\<close>: precision, recall and F1 of a detector on labelled items, where a span
  counts only if its position and type match exactly. Sets are lists without repetition;
  reading the fixture and printing the table are left out. Every labelled and every
  predicted span is counted once, and the scores are the textbook ratios.
\<close>

type_synonym labelled = "int \<times> int \<times> string"

record eval_item =
  ei_text :: string
  ei_entities :: "labelled list"

record tally =
  tp :: nat
  fp :: nat
  fn :: nat

definition no_tally :: tally where
  "no_tally = \<lparr>tp = 0, fp = 0, fn = 0\<rparr>"

text \<open>\<open>by_type[t][key] += 1\<close> on the default dictionary.\<close>

definition bump :: "string \<Rightarrow> (tally \<Rightarrow> tally) \<Rightarrow> (string \<times> tally) list \<Rightarrow> (string \<times> tally) list" where
  "bump t f d = AList.update t (f (dict_get d t no_tally)) d"

definition count_gold :: "labelled list \<Rightarrow> labelled \<Rightarrow> (string \<times> tally) list \<Rightarrow> (string \<times> tally) list" where
  "count_gold predicted g d =
     (if g \<in> set predicted then bump (snd (snd g)) (\<lambda>c. c\<lparr>tp := tp c + 1\<rparr>) d
      else bump (snd (snd g)) (\<lambda>c. c\<lparr>fn := fn c + 1\<rparr>) d)"

definition count_predicted :: "labelled list \<Rightarrow> labelled \<Rightarrow> (string \<times> tally) list \<Rightarrow> (string \<times> tally) list" where
  "count_predicted gold p d =
     (if p \<notin> set gold then bump (snd (snd p)) (\<lambda>c. c\<lparr>fp := fp c + 1\<rparr>) d else d)"

definition span_label :: "span \<Rightarrow> labelled" where
  "span_label s = (s_start s, s_end s, s_type s)"

definition count_item :: "labelled list \<Rightarrow> labelled list \<Rightarrow> (string \<times> tally) list \<Rightarrow> (string \<times> tally) list" where
  "count_item gold predicted d = fold (count_predicted gold) predicted (fold (count_gold predicted) gold d)"

fun evaluate :: "detect_fun \<Rightarrow> eval_item list \<Rightarrow> (string \<times> tally) list \<Rightarrow> (string \<times> tally) list res" where
  "evaluate detect [] d = Inr d"
| "evaluate detect (item # fixture) d =
     bind_res (detect (ei_text item) (Some [])) (\<lambda>spans.
       evaluate detect fixture
         (count_item (remdups (ei_entities item)) (remdups (map span_label spans)) d))"

definition ratio :: "nat \<Rightarrow> nat \<Rightarrow> rat" where
  "ratio a b = (if b \<noteq> 0 then of_nat a / of_nat b else 0)"

definition f1_of :: "rat \<Rightarrow> rat \<Rightarrow> rat" where
  "f1_of p r = (if p + r \<noteq> 0 then 2 * p * r / (p + r) else 0)"

definition tally_scores :: "tally \<Rightarrow> rat \<times> rat \<times> rat" where
  "tally_scores c =
     (let precision = ratio (tp c) (tp c + fp c); recall = ratio (tp c) (tp c + fn c)
      in (precision, recall, f1_of precision recall))"

text \<open>The rows in the order of the types, and the scores of the totals.\<close>

definition add_tally :: "tally \<Rightarrow> tally \<Rightarrow> tally" where
  "add_tally a b = \<lparr>tp = tp a + tp b, fp = fp a + fp b, fn = fn a + fn b\<rparr>"

definition summarize :: "(string \<times> tally) list \<Rightarrow> (string \<times> tally \<times> rat \<times> rat \<times> rat) list \<times> (rat \<times> rat \<times> rat) \<times> tally" where
  "summarize by_type =
     (let rows = sort_key fst by_type; total = foldl (\<lambda>a r. add_tally a (snd r)) no_tally rows
      in (map (\<lambda>(t, c). (t, c, tally_scores c)) rows, tally_scores total, total))"

section \<open>Every span is counted once\<close>

definition of_type :: "string \<Rightarrow> labelled list \<Rightarrow> labelled list" where
  "of_type t spans = filter (\<lambda>g. snd (snd g) = t) spans"

lemma get_bump: "dict_get (bump t f d) u no_tally = (if u = t then f (dict_get d t no_tally) else dict_get d u no_tally)"
  by (simp add: bump_def dict_get_def)

lemma fold_count_gold:
  "dict_get (fold (count_gold predicted) gold d) t no_tally =
     (let c = dict_get d t no_tally
      in c\<lparr>tp := tp c + length (filter (\<lambda>g. g \<in> set predicted) (of_type t gold)),
           fn := fn c + length (filter (\<lambda>g. g \<notin> set predicted) (of_type t gold))\<rparr>)"
  by (induction gold arbitrary: d) (simp_all add: count_gold_def get_bump of_type_def Let_def)

lemma fold_count_predicted:
  "dict_get (fold (count_predicted gold) predicted d) t no_tally =
     (let c = dict_get d t no_tally
      in c\<lparr>fp := fp c + length (filter (\<lambda>p. p \<notin> set gold) (of_type t predicted))\<rparr>)"
  by (induction predicted arbitrary: d) (simp_all add: count_predicted_def get_bump of_type_def Let_def)

lemma common_length:
  assumes "distinct xs" "distinct ys"
  shows "length (filter (\<lambda>x. x \<in> set ys) (of_type t xs)) = length (filter (\<lambda>y. y \<in> set xs) (of_type t ys))"
proof -
  have "set (filter (\<lambda>x. x \<in> set ys) (of_type t xs)) = set (filter (\<lambda>y. y \<in> set xs) (of_type t ys))"
    by (auto simp: of_type_def)
  moreover have "distinct (filter (\<lambda>x. x \<in> set ys) (of_type t xs))" "distinct (filter (\<lambda>y. y \<in> set xs) (of_type t ys))"
    using assms by (simp_all add: of_type_def)
  ultimately show ?thesis by (metis distinct_card)
qed

lemma count_item_totals:
  assumes "distinct gold" "distinct predicted"
  shows "tp (dict_get (count_item gold predicted d) t no_tally) + fn (dict_get (count_item gold predicted d) t no_tally)
      = tp (dict_get d t no_tally) + fn (dict_get d t no_tally) + length (of_type t gold)"
    and "tp (dict_get (count_item gold predicted d) t no_tally) + fp (dict_get (count_item gold predicted d) t no_tally)
      = tp (dict_get d t no_tally) + fp (dict_get d t no_tally) + length (of_type t predicted)"
  using sum_length_filter_compl [of "\<lambda>g. g \<in> set predicted" "of_type t gold"]
    sum_length_filter_compl [of "\<lambda>p. p \<in> set gold" "of_type t predicted"] common_length [OF assms, of t]
  by (simp_all add: count_item_def fold_count_gold fold_count_predicted Let_def)

text \<open>
  Over a whole fixture true positives and misses add up to the labelled spans of a type, and
  true and false positives to the predicted ones.
\<close>

fun gold_of :: "string \<Rightarrow> eval_item list \<Rightarrow> nat" where
  "gold_of t [] = 0"
| "gold_of t (item # fixture) = length (of_type t (remdups (ei_entities item))) + gold_of t fixture"

fun predicted_of :: "detect_fun \<Rightarrow> string \<Rightarrow> eval_item list \<Rightarrow> nat" where
  "predicted_of detect t [] = 0"
| "predicted_of detect t (item # fixture) =
     (case detect (ei_text item) (Some []) of
        Inl e \<Rightarrow> 0
      | Inr spans \<Rightarrow> length (of_type t (remdups (map span_label spans)))) + predicted_of detect t fixture"

theorem evaluate_counts:
  assumes "evaluate detect fixture [] = Inr d"
  shows "tp (dict_get d t no_tally) + fn (dict_get d t no_tally) = gold_of t fixture"
    and "tp (dict_get d t no_tally) + fp (dict_get d t no_tally) = predicted_of detect t fixture"
proof -
  have g: "evaluate detect fixture d0 = Inr d \<Longrightarrow>
      tp (dict_get d t no_tally) + fn (dict_get d t no_tally)
        = tp (dict_get d0 t no_tally) + fn (dict_get d0 t no_tally) + gold_of t fixture
      \<and> tp (dict_get d t no_tally) + fp (dict_get d t no_tally)
        = tp (dict_get d0 t no_tally) + fp (dict_get d0 t no_tally) + predicted_of detect t fixture" for d0
  proof (induction fixture arbitrary: d0)
    case (Cons item fixture)
    then obtain spans where s: "detect (ei_text item) (Some []) = Inr spans"
      "evaluate detect fixture (count_item (remdups (ei_entities item)) (remdups (map span_label spans)) d0) = Inr d"
      by (auto simp: bind_res_Inr_iff)
    from Cons.IH [OF s(2)] show ?case by (simp add: count_item_totals s(1))
  qed simp
  from g [OF assms] show "tp (dict_get d t no_tally) + fn (dict_get d t no_tally) = gold_of t fixture"
    "tp (dict_get d t no_tally) + fp (dict_get d t no_tally) = predicted_of detect t fixture"
    by (simp_all add: dict_get_def no_tally_def)
qed

section \<open>The scores\<close>

lemma ratio_bounds: "a \<le> b \<Longrightarrow> 0 \<le> ratio a b \<and> ratio a b \<le> 1"
  by (simp add: ratio_def)

text \<open>F1 in its closed form, within 0 and 1, and 1 exactly without an error.\<close>

theorem tally_scores_f1:
  "snd (snd (tally_scores c)) = ratio (2 * tp c) (2 * tp c + fp c + fn c)"
proof (cases "tp c = 0")
  case True
  then show ?thesis by (simp add: tally_scores_def ratio_def f1_of_def Let_def)
next
  case False
  define a b e :: rat where "a = of_nat (tp c)" and "b = of_nat (fp c)" and "e = of_nat (fn c)"
  have pos: "0 < a" "0 \<le> b" "0 \<le> e" using False by (simp_all add: a_def b_def e_def)
  have "2 * (a / (a + b)) * (a / (a + e)) / (a / (a + b) + a / (a + e)) = 2 * a / (2 * a + b + e)"
  proof -
    have "2 * (a / x) * (a / y) / (a / x + a / y) = 2 * a / (x + y)" if "0 < x" "0 < y" for x y
    proof -
      have "a / x + a / y = a * (x + y) / (x * y)" using that by (simp add: field_simps)
      then have "2 * (a / x) * (a / y) / (a / x + a / y) = (2 * a * a / (x * y)) / (a * (x + y) / (x * y))" by simp
      also have "\<dots> = 2 * a * a / (a * (x + y))" using that by simp
      also have "\<dots> = 2 * a / (x + y)" using pos(1) by simp
      finally show ?thesis .
    qed
    from this [of "a + b" "a + e"] pos show ?thesis by (simp add: algebra_simps)
  qed
  moreover have "a / (a + b) + a / (a + e) \<noteq> 0"
  proof -
    have "0 < a / (a + b)" "0 < a / (a + e)" using pos by simp_all
    then show ?thesis by linarith
  qed
  ultimately show ?thesis using False
    by (simp add: tally_scores_def ratio_def f1_of_def Let_def a_def b_def e_def)
qed

lemma f1_bounds: "0 \<le> snd (snd (tally_scores c)) \<and> snd (snd (tally_scores c)) \<le> 1"
  by (simp only: tally_scores_f1) (rule ratio_bounds, simp)

lemma f1_one_iff: "snd (snd (tally_scores c)) = 1 \<longleftrightarrow> 0 < tp c \<and> fp c = 0 \<and> fn c = 0"
  by (auto simp: tally_scores_f1 ratio_def field_simps) 

end
