(* ===== verification/RequestContext.thy ===== *)
theory RequestContext
  imports Middleware
begin

text \<open>
  \<open>request_context\<close> of \<open>app/middleware.py\<close> as one function: the identifier, the checks, the
  slot, the body and its replay to the application, the response with its deferred release,
  the rejection counters and the access line. At every \<open>await\<close> other requests move. The
  lemmas show that a run is a path of the step relation of \<open>Middleware\<close>, so its
  invariants hold for the whole handler, and what the handler guarantees to the application.
\<close>

section \<open>The parts of the handler\<close>

text \<open>The settings of the application, if there is a state; otherwise the defaults.\<close>

definition body_limit :: "settings option \<Rightarrow> int" where
  "body_limit cfg = (case cfg of Some s \<Rightarrow> max_body_bytes s | None \<Rightarrow> 4000000)"

definition response_limit :: "settings option \<Rightarrow> int" where
  "response_limit cfg = (case cfg of Some s \<Rightarrow> max_response_bytes s | None \<Rightarrow> body_limit cfg)"

text \<open>
  The replayed body: one message on the first call; afterwards the call stays pending, which
  is \<open>None\<close>. The flag is \<open>replayed\<close>.
\<close>

definition replay_receive :: "string list \<times> bool \<Rightarrow> bool \<Rightarrow> message option \<times> bool" where
  "replay_receive body replayed =
     (if replayed then (None, replayed)
      else (Some (if snd body then Http_disconnect else Http_request (concat (fst body)) False), True))"

text \<open>
  What the handler does not decide: the request with its messages, whether the slot came
  before the timeout, and whether the task is cancelled at its first or second \<open>await\<close>. The
  application reads the body through the replay; it returns the matched route and raises or
  gives a response, which may be streamed.
\<close>

record rc_request =
  rq_entry :: mw_request
  rq_id :: "string option"
  rq_messages :: "message list"
  rq_slot_in_time :: bool
  rq_cancelled :: "nat set"

type_synonym application = "(bool \<Rightarrow> message option \<times> bool) \<Rightarrow> route \<times> (response \<times> bool) option"

text \<open>
  The result: a problem before the application, with its headers; a response of the
  application, with \<open>True\<close> for a streamed one; or an exception that is passed on.
\<close>

datatype rc_result = Problem http_response "(string \<times> string) list" | Response response bool | Propagated

datatype rejection = Body_too_large_rejection | Draining_rejection | Saturated_rejection | Body_timeout_rejection

definition retry_after :: "(string \<times> string) list" where
  "retry_after = [(''retry-after'', ''1'')]"

definition body_timeout :: "route \<Rightarrow> http_response" where
  "body_timeout route = problem_response route (error_type ''request-body-timeout'') ''Request body timeout'' 408
     (Some ''request body was not received within the configured time limit'') None"

text \<open>The interference: what other requests do to the configuration at the n-th \<open>await\<close>.\<close>

type_synonym interference = "nat \<Rightarrow> mw_config \<Rightarrow> mw_config"

definition set_phase :: "nat \<Rightarrow> phase option \<Rightarrow> mw_config \<Rightarrow> mw_config" where
  "set_phase i p c = (fst c, (snd c)(i := p))"

definition release_now :: "nat \<Rightarrow> bool \<Rightarrow> mw_config \<Rightarrow> mw_config" where
  "release_now i admitted c = set_phase i None (release_admission admitted (fst c), snd c)"

text \<open>
  The checks and the slot. A refusal has the local variable \<open>status\<close>, which is 500 until a
  branch sets it, and the problem with its counter, or \<open>None\<close> for a cancellation; otherwise the
  request goes on, with or without a slot.
\<close>

type_synonym refusal = "nat \<times> (http_response \<times> (string \<times> string) list \<times> rejection) option"

definition unset_status :: nat where
  "unset_status = 500"

definition take_slot :: "interference \<Rightarrow> nat \<Rightarrow> rc_request \<Rightarrow> mw_config \<Rightarrow> (refusal + bool) \<times> mw_config" where
  "take_slot others i r c =
     (let c1 = others 0 (set_phase i (Some Waiting) c)
      in if 0 \<in> rq_cancelled r then (Inl (unset_status, None), set_phase i None c1)
         else if rq_slot_in_time r \<and> mw_free (fst c1) \<noteq> Some 0
         then (Inr True, set_phase i (Some (Running True)) (acquire_slot (fst c1), snd c1))
         else (let p = saturated (mr_route (rq_entry r)); status = hr_status p
               in (Inl (status, Some (p, retry_after, Saturated_rejection)), set_phase i None c1)))"

definition admit :: "interference \<Rightarrow> nat \<Rightarrow> settings option \<Rightarrow> rc_request \<Rightarrow> mw_config \<Rightarrow> (refusal + bool) \<times> mw_config" where
  "admit others i l r c =
     (case entry_checks (body_limit l) (rq_entry r) (fst c) of
        Refuse p \<Rightarrow>
          (let status = hr_status p
           in (Inl (status, Some (if hr_status p = 413 then (p, [], Body_too_large_rejection) else (p, retry_after, Draining_rejection))), c))
      | Enter u \<Rightarrow> (Inr False, set_phase i (Some (Running False)) c)
      | Wait_slot \<Rightarrow> take_slot others i r c)"

text \<open>The body; a request that fails here gives its slot back at once.\<close>

definition receive_body ::
  "interference \<Rightarrow> nat \<Rightarrow> settings option \<Rightarrow> rc_request \<Rightarrow> bool \<Rightarrow> mw_config \<Rightarrow> (refusal + (string list \<times> bool)) \<times> mw_config" where
  "receive_body others i l r admitted c =
     (let c1 = others 1 c; route = mr_route (rq_entry r)
      in if 1 \<in> rq_cancelled r then (Inl (unset_status, None), release_now i admitted c1)
         else
           (case read_bounded_body (body_limit l) (rq_messages r) of
              Inl Body_too_large \<Rightarrow>
                (let p = body_too_large route (body_limit l); status = hr_status p
                 in (Inl (status, Some (p, [], Body_too_large_rejection)), release_now i admitted c1))
            | Inl Body_timeout \<Rightarrow>
                (let p = body_timeout route; status = hr_status p
                 in (Inl (status, Some (p, [], Body_timeout_rejection)), release_now i admitted c1))
            | Inr body \<Rightarrow> (Inr body, c1)))"

text \<open>Everything before the application.\<close>

definition before_app ::
  "interference \<Rightarrow> nat \<Rightarrow> settings option \<Rightarrow> rc_request \<Rightarrow> mw_config \<Rightarrow> (refusal + (bool \<times> string list \<times> bool)) \<times> mw_config" where
  "before_app others i l r c =
     (case admit others i l r c of
        (Inl e, c1) \<Rightarrow> (Inl e, c1)
      | (Inr admitted, c1) \<Rightarrow>
          (case receive_body others i l r admitted c1 of
             (Inl e, c2) \<Rightarrow> (Inl e, c2)
           | (Inr body, c2) \<Rightarrow> (Inr (admitted, body), c2)))"

text \<open>
  The application and its response. A response that is too large is replaced by a problem,
  which is not streamed; with a slot the release is left to the end of the response. The
  second component is \<open>status\<close>, which stays as it was when the application raises.
\<close>

definition respond ::
  "interference \<Rightarrow> nat \<Rightarrow> settings option \<Rightarrow> (string \<Rightarrow> rat option) \<Rightarrow> (http_response \<Rightarrow> string) \<Rightarrow> application \<Rightarrow> string \<Rightarrow>
   bool \<Rightarrow> string list \<times> bool \<Rightarrow> mw_config \<Rightarrow> (route \<times> nat \<times> rc_result) \<times> mw_config" where
  "respond others i l num len app request_id admitted body c =
     (let (route, outcome) = app (replay_receive body); c1 = others 2 c
      in case outcome of
           None \<Rightarrow> ((route, unset_status, Propagated), release_now i admitted c1)
         | Some (r, streamed) \<Rightarrow>
             (let response = finish_response route num len (response_limit l) request_id r;
                  status = re_status response
              in ((route, status, Response response (streamed \<and> limit_response route num (response_limit l) r = None)),
                  set_phase i (if admitted then Some Sending else None) c1)))"

text \<open>The line of \<open>emit_access_line\<close>, without the method, the duration and the trace.\<close>

record access_line =
  al_path :: string
  al_status :: nat
  al_request_id :: string

record rc_run =
  rr_result :: rc_result
  rr_access :: access_line
  rr_rejection :: "rejection option"

text \<open>The \<open>finally\<close> block: the line gets the local variable as it is at the end.\<close>

definition access_of :: "route \<Rightarrow> nat \<Rightarrow> string \<Rightarrow> access_line" where
  "access_of route status request_id =
     \<lparr>al_path = safe_access_path route, al_status = status, al_request_id = request_id\<rparr>"

definition refused :: "route \<Rightarrow> string \<Rightarrow> refusal \<Rightarrow> rc_run" where
  "refused route request_id e =
     (let (status, early) = e;
          res = (case early of Some (p, hs, _) \<Rightarrow> Problem p hs | None \<Rightarrow> Propagated)
      in \<lparr>rr_result = res, rr_access = access_of route status request_id,
          rr_rejection = map_option (\<lambda>(_, _, reason). reason) early\<rparr>)"

definition request_context ::
  "interference \<Rightarrow> nat \<Rightarrow> settings option \<Rightarrow> (string \<Rightarrow> rat option) \<Rightarrow> (http_response \<Rightarrow> string) \<Rightarrow> application \<Rightarrow> string \<Rightarrow>
   rc_request \<Rightarrow> mw_config \<Rightarrow> rc_run \<times> mw_config" where
  "request_context others i l num len app fresh r c =
     (let request_id = safe_request_id fresh (rq_id r)
      in case before_app others i l r c of
           (Inl e, c1) \<Rightarrow> (refused (mr_route (rq_entry r)) request_id e, c1)
         | (Inr (admitted, body), c1) \<Rightarrow>
             (let ((route, status, res), c2) = respond others i l num len app request_id admitted body c1
              in (\<lparr>rr_result = res, rr_access = access_of route status request_id, rr_rejection = None\<rparr>, c2)))"

text \<open>
  The sending. A streamed response gives its slot back when it ends or is cancelled; any
  other one in its background task, which runs only when the whole body has been sent.
\<close>

definition send_response :: "nat \<Rightarrow> bool \<Rightarrow> bool \<Rightarrow> mw_config \<Rightarrow> mw_config" where
  "send_response i streamed sent c =
     (if snd c i = Some Sending \<and> (streamed \<or> sent) then release_now i True c else c)"

text \<open>The request as the handler reads it; \<open>num\<close> is \<open>int\<close> on a header.\<close>

definition PROBE_PATHS :: "string list" where
  "PROBE_PATHS = [''/healthz'', ''/readyz'', ''/metrics'']"

definition entry_of :: "(string \<Rightarrow> int option) \<Rightarrow> string \<Rightarrow> route \<Rightarrow> string option \<Rightarrow> mw_request" where
  "entry_of num path route content_length =
     \<lparr>mr_probe = (path \<in> set PROBE_PATHS), mr_route = route, mr_content_length = map_option num content_length\<rparr>"

section \<open>A run is a path of the step relation\<close>

lemma mw_reachable_trans: "mw_reachable m b c \<Longrightarrow> mw_reachable m a b \<Longrightarrow> mw_reachable m a c"
  by (induction rule: mw_reachable.induct) (auto intro: mw_reachable.step)

lemma mw_step_reachable: "mw_step m c c' \<Longrightarrow> mw_reachable m c c'"
  by (rule mw_reachable.step [OF mw_reachable.start])

text \<open>Whether a semaphore is configured never changes.\<close>

lemma mw_step_configured: "mw_step m c c' \<Longrightarrow> (mw_free (fst c') = None) = (mw_free (fst c) = None)"
  by (induction rule: mw_step.induct) (auto simp: acquire_slot_def release_admission_def Let_def split: option.splits)

lemma mw_reachable_configured: "mw_reachable m c c' \<Longrightarrow> (mw_free (fst c') = None) = (mw_free (fst c) = None)"
  by (induction rule: mw_reachable.induct) (auto dest: mw_step_configured)

text \<open>The other requests follow the step relation as well and leave the phase of this one alone.\<close>

definition foreign :: "int \<Rightarrow> nat \<Rightarrow> interference \<Rightarrow> bool" where
  "foreign m i others \<longleftrightarrow> (\<forall>n c. mw_reachable m c (others n c) \<and> snd (others n c) i = snd c i)"

lemma foreignD:
  "foreign m i others \<Longrightarrow> mw_reachable m c (others n c)"
  "foreign m i others \<Longrightarrow> snd (others n c) i = snd c i"
  unfolding foreign_def by blast+

lemma set_phase_simps [simp]:
  "fst (set_phase i p c) = fst c" "snd (set_phase i p c) i = p"
  by (simp_all add: set_phase_def)

lemma release_now_phase [simp]: "snd (release_now i a c) i = None"
  by (simp add: release_now_def)

lemma release_now_step:
  assumes "snd c i = Some (Running a)"
  shows "mw_reachable m c (release_now i a c)"
  using mw_step.fail [where ph = "snd c" and st = "fst c" and i = i and a = a and m = m] assms
  by (cases c) (auto simp: release_now_def set_phase_def intro: mw_step_reachable)

lemma saturate_step: "snd c i = Some Waiting \<Longrightarrow> mw_reachable m c (set_phase i None c)"
  using mw_step.saturate [where ph = "snd c" and st = "fst c" and i = i and m = m]
  by (cases c) (auto simp: set_phase_def intro: mw_step_reachable)

lemma acquire_step:
  assumes "snd c i = Some Waiting" "mw_free (fst c) \<noteq> None" "mw_free (fst c) \<noteq> Some 0"
  shows "mw_reachable m c (set_phase i (Some (Running True)) (acquire_slot (fst c), snd c))"
proof -
  obtain n where "mw_free (fst c) = Some (Suc n)" using assms(2,3) by (metis not0_implies_Suc option.exhaust)
  from mw_step.acquire [where ph = "snd c", OF assms(1) this] show ?thesis
    by (cases c) (auto simp: set_phase_def intro: mw_step_reachable)
qed

text \<open>What the checks before the slot decide.\<close>

lemma entry_checks_cases:
  "entry_checks m r st = Wait_slot \<Longrightarrow> mw_free st \<noteq> None \<and> \<not> mr_probe r \<and> mw_ready st"
  "entry_checks m r st = Enter u \<Longrightarrow> mw_free st = None \<or> mr_probe r"
  by (auto simp: entry_checks_def Let_def split: if_splits)

lemma take_slot_path:
  assumes f: "foreign m i others" and "snd c i = None" and w: "entry_checks m r st = Wait_slot" and "st = fst c"
    and "take_slot others i rq c = (res, c')"
  shows "mw_reachable m c c' \<and> (case res of Inl e \<Rightarrow> snd c' i = None | Inr a \<Rightarrow> a \<and> snd c' i = Some (Running a))"
proof -
  let ?c0 = "set_phase i (Some Waiting) c"
  let ?c1 = "others 0 ?c0"
  have s0: "mw_reachable m c ?c0"
    using mw_step.wait [where ph = "snd c" and st = "fst c", OF assms(2)] w assms(4)
    by (cases c) (auto simp: set_phase_def intro: mw_step_reachable)
  have s1: "mw_reachable m c ?c1" by (rule mw_reachable_trans [OF foreignD(1) [OF f] s0])
  have p1: "snd ?c1 i = Some Waiting" by (simp add: foreignD(2) [OF f])
  have "mw_free (fst ?c1) \<noteq> None"
    using mw_reachable_configured [OF s1] entry_checks_cases(1) [OF w] assms(4) by simp
  note acq = mw_reachable_trans [OF acquire_step [OF p1 this] s1]
  note sat = mw_reachable_trans [OF saturate_step [OF p1] s1]
  show ?thesis using assms(5) acq sat by (auto simp: take_slot_def Let_def split: if_splits)
qed

lemma admit_path:
  assumes f: "foreign (body_limit l) i others" and "snd c i = None" and "admit others i l r c = (res, c')"
  shows "mw_reachable (body_limit l) c c' \<and> (case res of Inl e \<Rightarrow> snd c' i = None
    | Inr a \<Rightarrow> snd c' i = Some (Running a) \<and> a = (mw_free (fst c) \<noteq> None \<and> \<not> mr_probe (rq_entry r)))"
proof (cases "entry_checks (body_limit l) (rq_entry r) (fst c)")
  case (Refuse p)
  then show ?thesis using assms by (auto simp: admit_def intro: mw_reachable.start)
next
  case Wait_slot
  then have "take_slot others i r c = (res, c')" using assms(3) by (simp add: admit_def)
  from take_slot_path [OF f assms(2) Wait_slot refl this] entry_checks_cases(1) [OF Wait_slot]
  show ?thesis by (auto split: sum.splits)
next
  case (Enter u)
  then have "mw_step (body_limit l) (fst c, snd c) (fst c, (snd c)(i \<mapsto> Running False))"
    using assms(2) by (intro mw_step.enter) simp_all
  then show ?thesis using Enter assms(3) entry_checks_cases(2) [OF Enter]
    by (auto simp: admit_def set_phase_def intro: mw_step_reachable)
qed

lemma receive_body_path:
  assumes f: "foreign m i others" and "snd c i = Some (Running a)" and "receive_body others i l r a c = (res, c')"
  shows "mw_reachable m c c' \<and> (case res of Inl e \<Rightarrow> snd c' i = None
    | Inr body \<Rightarrow> snd c' i = Some (Running a) \<and> read_bounded_body (body_limit l) (rq_messages r) = Inr body)"
proof -
  have p: "snd (others 1 c) i = Some (Running a)" using assms(2) by (simp add: foreignD(2) [OF f])
  note rel = mw_reachable_trans [OF release_now_step [OF p] foreignD(1) [OF f]]
  show ?thesis using assms(3) rel p foreignD(1) [OF f, of c 1]
    by (auto simp: receive_body_def Let_def split: if_splits sum.splits body_error.splits)
qed

lemma before_app_path:
  assumes f: "foreign (body_limit l) i others" and "snd c i = None" and "before_app others i l r c = (res, c')"
  shows "mw_reachable (body_limit l) c c' \<and> (case res of Inl e \<Rightarrow> snd c' i = None
    | Inr (a, body) \<Rightarrow> snd c' i = Some (Running a) \<and> a = (mw_free (fst c) \<noteq> None \<and> \<not> mr_probe (rq_entry r))
        \<and> read_bounded_body (body_limit l) (rq_messages r) = Inr body)"
proof -
  obtain x c1 where ad: "admit others i l r c = (x, c1)" by (cases "admit others i l r c")
  note A = admit_path [OF f assms(2) ad]
  show ?thesis
  proof (cases x)
    case (Inl e)
    then show ?thesis using A ad assms(3) by (auto simp: before_app_def)
  next
    case (Inr a)
    obtain y c2 where rb: "receive_body others i l r a c1 = (y, c2)" by (cases "receive_body others i l r a c1")
    have "snd c1 i = Some (Running a)" using A Inr by simp
    from receive_body_path [OF f this rb] A Inr ad rb assms(3) show ?thesis
      by (auto simp: before_app_def intro: mw_reachable_trans split: sum.splits)
  qed
qed

text \<open>The status that a client sees for a result; an exception becomes a 500 outside.\<close>

definition result_status :: "rc_result \<Rightarrow> nat" where
  "result_status res = (case res of Problem p _ \<Rightarrow> hr_status p | Response r _ \<Rightarrow> re_status r | Propagated \<Rightarrow> 500)"

definition early_status :: "refusal \<Rightarrow> nat" where
  "early_status e = (case snd e of Some (p, _, _) \<Rightarrow> hr_status p | None \<Rightarrow> 500)"

lemma refusal_status:
  "take_slot others i r c = (Inl e, c') \<Longrightarrow> fst e = early_status e"
  "admit others i l r c = (Inl e, c') \<Longrightarrow> fst e = early_status e"
  "receive_body others i l r a c = (Inl e, c') \<Longrightarrow> fst e = early_status e"
proof -
  show t: "take_slot others i r c = (Inl e, c') \<Longrightarrow> fst e = early_status e" for e c'
    by (auto simp: take_slot_def early_status_def unset_status_def Let_def split: if_splits)
  show "admit others i l r c = (Inl e, c') \<Longrightarrow> fst e = early_status e"
    using t by (auto simp: admit_def early_status_def split: entry.splits if_splits)
  show "receive_body others i l r a c = (Inl e, c') \<Longrightarrow> fst e = early_status e"
    by (auto simp: receive_body_def early_status_def unset_status_def Let_def split: if_splits sum.splits body_error.splits)
qed

lemma before_app_refused:
  assumes "before_app others i l r c = (Inl e, c')"
  obtains c1 where "admit others i l r c = (Inl e, c1)" | a c1 c2 where "receive_body others i l r a c1 = (Inl e, c2)"
proof -
  obtain x c1 where Pair: "admit others i l r c = (x, c1)" by (cases "admit others i l r c")
  show ?thesis
  proof (cases x)
    case (Inl y)
    with Pair assms have "admit others i l r c = (Inl e, c1)" by (simp add: before_app_def)
    then show ?thesis by (rule that(1))
  next
    case (Inr a)
    with Pair assms have "receive_body others i l r a c1 = (Inl e, c')"
      by (simp add: before_app_def split: prod.splits sum.splits)
    then show ?thesis by (rule that(2))
  qed
qed

lemma respond_path:
  assumes f: "foreign m i others" and "snd c i = Some (Running a)"
    and "respond others i l num len app request_id a body c = ((route, status, res), c')"
  shows "mw_reachable m c c' \<and> snd c' i = (if a \<and> res \<noteq> Propagated then Some Sending else None)"
proof -
  let ?c1 = "others 2 c"
  have p: "snd ?c1 i = Some (Running a)" using assms(2) by (simp add: foreignD(2) [OF f])
  note rel = mw_reachable_trans [OF release_now_step [OF p] foreignD(1) [OF f]]
  have "mw_step m (fst ?c1, snd ?c1) (fst ?c1, (snd ?c1)(i := if a then Some Sending else None))"
    by (rule mw_step.respond [where ph = "snd ?c1" and i = i, OF p])
  then have snt: "mw_reachable m c (set_phase i (if a then Some Sending else None) ?c1)"
    using mw_reachable_trans [OF mw_step_reachable foreignD(1) [OF f]] by (simp add: set_phase_def)
  show ?thesis using assms(3) rel snt
    by (auto simp: respond_def Let_def split: prod.splits option.splits)
qed

text \<open>What the application gets, and how its answer becomes the result.\<close>

definition app_result ::
  "settings option \<Rightarrow> (string \<Rightarrow> rat option) \<Rightarrow> (http_response \<Rightarrow> string) \<Rightarrow> string \<Rightarrow> route \<times> (response \<times> bool) option \<Rightarrow>
   rc_result" where
  "app_result l num len request_id answer =
     (case answer of
        (route, None) \<Rightarrow> Propagated
      | (route, Some (r, streamed)) \<Rightarrow>
          Response (finish_response route num len (response_limit l) request_id r)
            (streamed \<and> limit_response route num (response_limit l) r = None))"

lemma respond_result:
  assumes "respond others i l num len app request_id a body c = ((route, status, res), c')"
  shows "res = app_result l num len request_id (app (replay_receive body))" "status = result_status res"
  using assms
  by (auto simp: respond_def app_result_def result_status_def unset_status_def Let_def split: prod.splits option.splits)

text \<open>A body may end with the client's disconnection.\<close>

fun disconnected :: "message list \<Rightarrow> bool" where
  "disconnected (Http_request chunk more_body # msgs) = (more_body \<and> disconnected msgs)"
| "disconnected (Http_disconnect # msgs) = True"
| "disconnected _ = False"

lemma read_body_disconnected: "read_body m msgs chunks received = Inr (cs, d) \<Longrightarrow> d = disconnected msgs"
  by (induction m msgs chunks received rule: read_body.induct) (auto simp: Let_def split: if_splits)

text \<open>The stream that the application must see: the whole body in one message, then silence.\<close>

definition whole_body :: "message list \<Rightarrow> bool \<Rightarrow> message option \<times> bool" where
  "whole_body msgs taken =
     (if taken then (None, True)
      else if disconnected msgs then (Some Http_disconnect, True)
      else (Some (Http_request (concat (body_of msgs)) False), True))"

lemma replay_whole_body:
  assumes "read_bounded_body m msgs = Inr (chunks, d)" "0 \<le> m"
  shows "replay_receive (chunks, d) = whole_body msgs"
proof -
  have "chunks = body_of msgs" "d = disconnected msgs"
    using read_bounded_body_correct [OF assms(2), of msgs] read_body_disconnected assms(1)
    by (auto simp: read_bounded_body_def)
  then show ?thesis by (auto simp: replay_receive_def whole_body_def)
qed

lemma send_response_path: "mw_reachable m c (send_response i streamed sent c)"
  using mw_step.sent [where ph = "snd c" and st = "fst c" and i = i and m = m]
  by (cases c) (auto simp: send_response_def release_now_def set_phase_def intro: mw_step_reachable mw_reachable.start)

section \<open>The whole handler\<close>

lemma foreign_none: "foreign m i (\<lambda>_ c. c)"
  by (simp add: foreign_def mw_reachable.start)

lemma foreign_shutdown: "foreign m i (\<lambda>n c. if n = k then ((fst c)\<lparr>mw_ready := False\<rparr>, snd c) else c)"
  unfolding foreign_def by (auto intro: mw_reachable.start mw_step_reachable mw_step.shutdown)

text \<open>
  C34. Whatever other requests do at its \<open>await\<close>s, a run of the handler is a path of the step
  relation, so the slots stay exact; it keeps a slot only for a response that is still to be
  sent. The status in the access line, which every branch of the handler sets on its own, is
  the one of the result, and its identifier is safe. The application runs only with a slot
  (unless none is configured or the path is a probe), and the result is the one that it gives
  to a stream with exactly the body of the request in one message (or the disconnection of
  the client), which is within the budget.
\<close>

theorem request_context_refines:
  assumes f: "foreign (body_limit l) i others" and n: "snd c i = None" and b: "0 \<le> body_limit l"
    and run: "request_context others i l num len app fresh r c = (rn, c')"
  shows "mw_reachable (body_limit l) c c'
    \<and> (snd c' i = None \<or> snd c' i = Some Sending \<and> (\<exists>resp s. rr_result rn = Response resp s))
    \<and> al_status (rr_access rn) = result_status (rr_result rn)
    \<and> al_request_id (rr_access rn) = safe_request_id fresh (rq_id r)
    \<and> (case before_app others i l r c of
         (Inl (status, early), c1) \<Rightarrow>
           rr_result rn = (case early of Some (p, hs, reason) \<Rightarrow> Problem p hs | None \<Rightarrow> Propagated)
       | (Inr (admitted, chunks, d), c1) \<Rightarrow>
           (if mw_free (fst c) = None \<or> mr_probe (rq_entry r) then \<not> admitted else i \<in> holders (snd c1))
           \<and> rr_result rn = app_result l num len (safe_request_id fresh (rq_id r)) (app (whole_body (rq_messages r)))
           \<and> int (length (concat (body_of (rq_messages r)))) \<le> body_limit l)"
proof -
  obtain x c1 where ba: "before_app others i l r c = (x, c1)" by (cases "before_app others i l r c")
  note B = before_app_path [OF f n ba]
  show ?thesis
  proof (cases x)
    case (Inl e)
    have "fst e = early_status e"
      using ba unfolding Inl by (rule before_app_refused) (erule refusal_status)+
    then show ?thesis using Inl B ba run
      by (auto simp: request_context_def Let_def refused_def access_of_def result_status_def early_status_def
          split: prod.splits option.splits)
  next
    case (Inr y)
    obtain a chunks d where y: "y = (a, chunks, d)" by (cases y)
    obtain route status res c2 where
      rs: "respond others i l num len app (safe_request_id fresh (rq_id r)) a (chunks, d) c1 = ((route, status, res), c2)"
      by (metis surj_pair)
    have p: "snd c1 i = Some (Running a)" and rb: "read_bounded_body (body_limit l) (rq_messages r) = Inr (chunks, d)"
      using B Inr y by auto
    note R = respond_path [OF f p rs] and res = respond_result [OF rs, unfolded replay_whole_body [OF rb b]]
    have body: "int (length (concat (body_of (rq_messages r)))) \<le> body_limit l"
      using read_bounded_body_correct [OF b, of "rq_messages r"] unfolding rb by auto
    have "res \<noteq> Propagated \<Longrightarrow> \<exists>resp s. res = Response resp s"
      unfolding res(1) by (auto simp: app_result_def split: prod.splits option.splits)
    moreover have "rr_result rn = res" "al_status (rr_access rn) = status"
      "al_request_id (rr_access rn) = safe_request_id fresh (rq_id r)" "c' = c2"
      using run ba rs Inr y by (auto simp: request_context_def Let_def access_of_def)
    ultimately show ?thesis using B R body Inr y ba p res mw_reachable_trans [of "body_limit l" c1 c2 c]
      by (auto simp: holders_def)
  qed
qed

definition sample_request :: rc_request where
  "sample_request = \<lparr>rq_entry = entry_of (\<lambda>s. Some 2) ''/v1/redact'' None (Some ''2''), rq_id = Some ''a-1'',
     rq_messages = [Http_request ''a'' True, Http_request ''b'' False], rq_slot_in_time = True, rq_cancelled = {}\<rparr>"

definition small_limits :: settings where
  "small_limits = demo_settings\<lparr>max_body_bytes := 4, max_response_bytes := 9\<rparr>"

definition sample_app :: application where
  "sample_app receive = (Some ''/v1/redact'', Some (\<lparr>re_status = 200, re_headers = []\<rparr>, True))"

lemmas request_run_simps = request_context_def before_app_def admit_def take_slot_def receive_body_def respond_def
  refused_def release_now_def set_phase_def entry_of_def PROBE_PATHS_def sample_request_def sample_app_def small_limits_def access_of_def
  body_limit_def response_limit_def limit_response_def entry_checks_def initial_mw_def read_bounded_body_def
  safe_request_id_def request_id_char_def acquire_slot_def unset_status_def Let_def

lemma sample_run:
  "al_status (rr_access (fst (request_context (\<lambda>_ c. c) 0 (Some small_limits) (\<lambda>_. None) (\<lambda>_. []) sample_app ''f'' sample_request (initial_mw 1)))) = 200"
  by (simp add: request_run_simps result_status_def finish_response_def)

theorem request_context_refines_witness:
  "mw_reachable 4 (initial_mw 1)
     (snd (request_context (\<lambda>_ c. c) 0 (Some small_limits) (\<lambda>_. None) (\<lambda>_. []) sample_app ''f'' sample_request (initial_mw 1)))"
  using request_context_refines [OF foreign_none, where l = "Some small_limits" and i = 0 and c = "initial_mw 1" and r = sample_request
      and num = "\<lambda>_. None" and len = "\<lambda>_. []" and app = sample_app and fresh = "''f''", OF _ _ surjective_pairing]
  by (simp add: body_limit_def initial_mw_def small_limits_def)

lemma others_untouched:
  "take_slot (\<lambda>_ c. c) i r c = (x, c') \<Longrightarrow> (snd c')(i := None) = (snd c)(i := None)"
  "admit (\<lambda>_ c. c) i l r c = (x, c') \<Longrightarrow> (snd c')(i := None) = (snd c)(i := None)"
  "receive_body (\<lambda>_ c. c) i l r a c = (y, c') \<Longrightarrow> (snd c')(i := None) = (snd c)(i := None)"
  "respond (\<lambda>_ c. c) i l num len app request_id a body c = (z, c') \<Longrightarrow> (snd c')(i := None) = (snd c)(i := None)"
proof -
  show t: "take_slot (\<lambda>_ c. c) i r c = (x, c') \<Longrightarrow> (snd c')(i := None) = (snd c)(i := None)" for x c'
    by (auto simp: take_slot_def set_phase_def Let_def split: if_splits)
  show "admit (\<lambda>_ c. c) i l r c = (x, c') \<Longrightarrow> (snd c')(i := None) = (snd c)(i := None)"
    using t by (auto simp: admit_def set_phase_def split: entry.splits)
  show "receive_body (\<lambda>_ c. c) i l r a c = (y, c') \<Longrightarrow> (snd c')(i := None) = (snd c)(i := None)"
    by (auto simp: receive_body_def release_now_def set_phase_def Let_def split: if_splits sum.splits body_error.splits)
  show "respond (\<lambda>_ c. c) i l num len app request_id a body c = (z, c') \<Longrightarrow> (snd c')(i := None) = (snd c)(i := None)"
    by (auto simp: respond_def release_now_def set_phase_def Let_def split: prod.splits option.splits)
qed

lemma run_alone:
  assumes "request_context (\<lambda>_ c. c) i l num len app fresh r c = (rn, c')"
  shows "(snd c')(i := None) = (snd c)(i := None)"
proof -
  obtain x c1 where ba: "before_app (\<lambda>_ c. c) i l r c = (x, c1)" by (cases "before_app (\<lambda>_ c. c) i l r c")
  obtain y c2 where ad: "admit (\<lambda>_ c. c) i l r c = (y, c2)" by (cases "admit (\<lambda>_ c. c) i l r c")
  have b: "(snd c1)(i := None) = (snd c)(i := None)"
  proof (cases y)
    case (Inl e)
    then show ?thesis using ba ad others_untouched(2) [OF ad] by (simp add: before_app_def)
  next
    case (Inr a)
    obtain z c3 where rb: "receive_body (\<lambda>_ c. c) i l r a c2 = (z, c3)" by (cases "receive_body (\<lambda>_ c. c) i l r a c2")
    then have "c1 = c3" using ba ad Inr by (simp add: before_app_def split: sum.splits)
    then show ?thesis using others_untouched(2) [OF ad] others_untouched(3) [OF rb] by simp
  qed
  show ?thesis
  proof (cases x)
    case (Inl e)
    then show ?thesis using assms ba b by (simp add: request_context_def)
  next
    case (Inr q)
    obtain a body where q: "q = (a, body)" by (cases q)
    obtain z c3 where rs: "respond (\<lambda>_ c. c) i l num len app (safe_request_id fresh (rq_id r)) a body c1 = (z, c3)"
      by (metis surj_pair)
    then have "c' = c3" using assms ba Inr q by (simp add: request_context_def Let_def split: prod.splits)
    then show ?thesis using b others_untouched(4) [OF rs] by simp
  qed
qed

text \<open>Alone, a request whose response is sent leaves as many free slots as it found, whatever happened on the way.\<close>

lemma request_gives_slot_back:
  assumes "mw_reachable (body_limit l) (initial_mw cap) c" "snd c i = None" "0 \<le> body_limit l"
    and run: "request_context (\<lambda>_ c. c) i l num len app fresh r c = (rn, c')"
  shows "mw_free (fst (send_response i streamed True c')) = mw_free (fst c)"
proof -
  let ?c2 = "send_response i streamed True c'"
  have "mw_reachable (body_limit l) c c'"
    using request_context_refines [OF foreign_none assms(2,3) run] by blast
  then have "mw_reachable (body_limit l) (initial_mw cap) ?c2"
    using assms(1) send_response_path mw_reachable_trans by blast
  then have 2: "mw_inv cap ?c2" by (rule mw_reachable_inv [OF _ mw_inv_initial])
  have 1: "mw_inv cap c" using assms(1) by (rule mw_reachable_inv [OF _ mw_inv_initial])
  have "(snd c')(i := None) = (snd c)(i := None)" using run by (rule run_alone)
  moreover have "snd c' i = None \<or> snd c' i = Some Sending"
    using request_context_refines [OF foreign_none assms(2,3) run] by blast
  ultimately have "snd ?c2 = snd c"
    using assms(2) by (auto simp: send_response_def release_now_def set_phase_def) (metis fun_upd_triv)+
  with 1 2 show ?thesis by (auto simp: mw_inv_def Let_def split: prod.splits)
qed

text \<open>
  A response that is not streamed gives its slot back in its background task only: if the
  client goes away while it is sent, the slot stays taken.
\<close>

lemma unsent_response_keeps_slot:
  "send_response i False False c = c"
  by (simp add: send_response_def)

text \<open>A refusal or an exception carries no identifier, although the access line has one.\<close>

lemma refusal_kinds:
  "take_slot others i r c = (Inl (status, Some (p, hs, reason)), c') \<Longrightarrow> hs = retry_after \<and> hr_status p = 503"
  "entry_checks m q st = Refuse p \<Longrightarrow> hr_status p \<in> {413, 503}"
  "admit others i l r c = (Inl (status, Some (p, hs, reason)), c') \<Longrightarrow> (hs = [] \<or> hs = retry_after) \<and> hr_status p \<in> {413, 503}"
  "receive_body others i l r a c = (Inl (status, Some (p, hs, reason)), c') \<Longrightarrow> hs = [] \<and> hr_status p \<in> {408, 413}"
proof -
  show t: "take_slot others i r c = (Inl (status, Some (p, hs, reason)), c') \<Longrightarrow> hs = retry_after \<and> hr_status p = 503"
    by (auto simp: take_slot_def saturated_def problem_response_def to_response_def Let_def split: if_splits)
  show e: "entry_checks m q st = Refuse p \<Longrightarrow> hr_status p \<in> {413, 503}" for m q st
    by (auto simp: entry_checks_def body_too_large_def problem_response_def to_response_def Let_def split: if_splits)
  show "admit others i l r c = (Inl (status, Some (p, hs, reason)), c') \<Longrightarrow> (hs = [] \<or> hs = retry_after) \<and> hr_status p \<in> {413, 503}"
    using t e [of "body_limit l" "rq_entry r" "fst c"] by (auto simp: admit_def split: entry.splits if_splits)
  show "receive_body others i l r a c = (Inl (status, Some (p, hs, reason)), c') \<Longrightarrow> hs = [] \<and> hr_status p \<in> {408, 413}"
    by (auto simp: receive_body_def body_too_large_def body_timeout_def problem_response_def to_response_def Let_def
        split: if_splits sum.splits body_error.splits)
qed

lemma refusal_without_identifier:
  assumes "rr_result (fst (request_context others i l num len app fresh r c)) = Problem p hs"
  shows "map_of hs ''x-request-id'' = None \<and> hr_status p \<in> {408, 413, 503}"
proof -
  obtain x c1 where Pair: "before_app others i l r c = (x, c1)" by (cases "before_app others i l r c")
  have "\<exists>status reason. x = Inl (status, Some (p, hs, reason))"
  proof (cases x)
    case (Inl e)
    then show ?thesis using assms Pair
      by (cases e) (auto simp: request_context_def refused_def Let_def split: option.splits)
  next
    case (Inr q)
    then show ?thesis using assms Pair
      by (auto simp: request_context_def respond_def Let_def split: prod.splits option.splits)
  qed
  then obtain status reason where "before_app others i l r c = (Inl (status, Some (p, hs, reason)), c1)"
    using Pair by blast
  then have "(hs = [] \<or> hs = retry_after) \<and> hr_status p \<in> {408, 413, 503}"
    by (rule before_app_refused) (auto dest: refusal_kinds(3,4))
  then show ?thesis by (auto simp: retry_after_def)
qed

end
