(* ===== verification/ModelAdapters.thy ===== *)
theory ModelAdapters
  imports Detectors
begin

text \<open>
  The detector objects of \<open>app/inference/gliner2.py\<close> and \<open>app/inference/openmed.py\<close>: the
  lazily created semaphore and the worker threads of GLiNER2 with any number of overlapping
  calls, and the loading, the tokenizer fallback and the inference of OpenMed. The lemmas
  show which bound the semaphore keeps and which it does not, and what a tokenizer without
  offsets leads to.
\<close>

section \<open>\<open>GLiNER2Detector\<close>\<close>

text \<open>The object: its model, the configured concurrency and the permits of the semaphore once it exists.\<close>

record gliner_detector =
  gd_model :: "gliner_model option"
  gd_threshold :: rat
  gd_concurrency :: nat
  gd_permits :: "nat option"

definition new_gliner :: "rat \<Rightarrow> nat \<Rightarrow> gliner_model option \<Rightarrow> gliner_detector" where
  "new_gliner threshold concurrency model =
     \<lparr>gd_model = model, gd_threshold = threshold, gd_concurrency = concurrency, gd_permits = None\<rparr>"

definition is_loaded :: "gliner_detector \<Rightarrow> bool" where
  "is_loaded d \<longleftrightarrow> gd_model d \<noteq> None"

definition ensure_semaphore :: "gliner_detector \<Rightarrow> gliner_detector" where
  "ensure_semaphore d = (case gd_permits d of None \<Rightarrow> d\<lparr>gd_permits := Some (gd_concurrency d)\<rparr> | Some _ \<Rightarrow> d)"

text \<open>
  \<open>load\<close>, with the outcomes of creating the cache directory and of the loader in its thread;
  a failing loader leaves the object without a model.
\<close>

definition load_model :: "unit res \<Rightarrow> gliner_model res \<Rightarrow> gliner_detector \<Rightarrow> unit res \<times> gliner_detector" where
  "load_model mkdir loader d =
     (if is_loaded d then (Inr (), d)
      else
        (case mkdir of
           Inl e \<Rightarrow> (Inl e, d)
         | Inr _ \<Rightarrow>
             (case loader of
                Inl e \<Rightarrow> (Inl e, ensure_semaphore d)
              | Inr m \<Rightarrow> (Inr (), (ensure_semaphore d)\<lparr>gd_model := Some m\<rparr>))))"

text \<open>
  A call of \<open>detect\<close> up to its first \<open>await\<close>: the model and the labels are fixed before it
  waits for the semaphore.
\<close>

record extraction =
  ex_model :: gliner_model
  ex_text :: string
  ex_labels :: "string list"

definition begin_detect :: "string \<Rightarrow> string list \<Rightarrow> gliner_detector \<Rightarrow> extraction res \<times> gliner_detector" where
  "begin_detect t types d =
     (case gd_model d of
        None \<Rightarrow> (Inl RuntimeError, d)
      | Some m \<Rightarrow>
          (Inr \<lparr>ex_model = m, ex_text = t, ex_labels = (if types \<noteq> [] then types else default_labels)\<rparr>, ensure_semaphore d))"

definition run_extract :: "rat \<Rightarrow> extraction \<Rightarrow> span list res" where
  "run_extract threshold x =
     bind_res (ex_model x (ex_text x) (ex_labels x) threshold) (normalize_gliner2_result (ex_text x))"

definition acquire_permit :: "gliner_detector \<Rightarrow> gliner_detector" where
  "acquire_permit d = d\<lparr>gd_permits := map_option (\<lambda>n. n - 1) (gd_permits d)\<rparr>"

definition release_permit :: "gliner_detector \<Rightarrow> gliner_detector" where
  "release_permit d = d\<lparr>gd_permits := map_option Suc (gd_permits d)\<rparr>"

text \<open>A call with nothing else going on, and \<open>warmup\<close>.\<close>

definition detect_alone :: "string \<Rightarrow> string list \<Rightarrow> gliner_detector \<Rightarrow> span list res \<times> gliner_detector" where
  "detect_alone t types d =
     (case begin_detect t types d of
        (Inl e, d1) \<Rightarrow> (Inl e, d1)
      | (Inr x, d1) \<Rightarrow> (run_extract (gd_threshold d) x, release_permit (acquire_permit d1)))"

definition warmup :: "unit res \<Rightarrow> gliner_model res \<Rightarrow> gliner_detector \<Rightarrow> unit res \<times> gliner_detector" where
  "warmup mkdir loader d =
     (case load_model mkdir loader d of
        (Inl e, d1) \<Rightarrow> (Inl e, d1)
      | (Inr _, d1) \<Rightarrow> (let (r, d2) = detect_alone ''warmup'' [''gliner2''] d1 in (map_res (\<lambda>_. ()) r, d2)))"

lemma detect_alone_refines: "fst (detect_alone t types d) = gliner_detect (gd_model d) (gd_threshold d) t (Some types)"
  by (auto simp: detect_alone_def begin_detect_def gliner_detect_def run_extract_def split: option.splits list.splits)

lemma load_idempotent:
  "load_model mkdir loader d = (Inr (), d') \<Longrightarrow> is_loaded d' \<and> load_model mkdir' loader' d' = (Inr (), d')"
  by (auto simp: load_model_def is_loaded_def split: if_splits sum.splits)

text \<open>A failing load stays loud: the next detection raises too.\<close>

lemma failed_load_raises:
  assumes "load_model mkdir loader d = (Inl e, d')"
  shows "fst (detect_alone t types d') = Inl RuntimeError"
  using assms
  by (auto simp: load_model_def is_loaded_def ensure_semaphore_def detect_alone_def begin_detect_def
      split: if_splits sum.splits option.splits)

section \<open>Overlapping calls\<close>

text \<open>
  The calls by number, and the number of worker threads that extract. A call that is
  cancelled, for instance by the time limit of a request, leaves the \<open>async with\<close> and gives
  its permit back, but its thread goes on.
\<close>

datatype gl_phase = Gl_waiting extraction | Gl_extracting extraction

record gl_config =
  gc_detector :: gliner_detector
  gc_calls :: "nat \<Rightarrow> gl_phase option"
  gc_threads :: nat

inductive gl_step :: "gl_config \<Rightarrow> gl_config \<Rightarrow> bool" where
  load: "gl_step c (c\<lparr>gc_detector := snd (load_model mkdir loader (gc_detector c))\<rparr>)"
| call: "gc_calls c i = None \<Longrightarrow> begin_detect t types (gc_detector c) = (Inr x, d) \<Longrightarrow>
    gl_step c (c\<lparr>gc_detector := d, gc_calls := (gc_calls c)(i \<mapsto> Gl_waiting x)\<rparr>)"
| acquire: "gc_calls c i = Some (Gl_waiting x) \<Longrightarrow> gd_permits (gc_detector c) = Some (Suc n) \<Longrightarrow>
    gl_step c (c\<lparr>gc_detector := acquire_permit (gc_detector c), gc_calls := (gc_calls c)(i \<mapsto> Gl_extracting x),
      gc_threads := gc_threads c + 1\<rparr>)"
| give_up: "gc_calls c i = Some (Gl_waiting x) \<Longrightarrow> gl_step c (c\<lparr>gc_calls := (gc_calls c)(i := None)\<rparr>)"
| finish: "gc_calls c i = Some (Gl_extracting x) \<Longrightarrow>
    gl_step c (c\<lparr>gc_detector := release_permit (gc_detector c), gc_calls := (gc_calls c)(i := None),
      gc_threads := gc_threads c - 1\<rparr>)"
| cancel: "gc_calls c i = Some (Gl_extracting x) \<Longrightarrow>
    gl_step c (c\<lparr>gc_detector := release_permit (gc_detector c), gc_calls := (gc_calls c)(i := None)\<rparr>)"
| thread_end: "card {i. \<exists>x. gc_calls c i = Some (Gl_extracting x)} < gc_threads c \<Longrightarrow>
    gl_step c (c\<lparr>gc_threads := gc_threads c - 1\<rparr>)"

inductive gl_reachable :: "gl_config \<Rightarrow> gl_config \<Rightarrow> bool" where
  start: "gl_reachable c c"
| step: "gl_reachable c c' \<Longrightarrow> gl_step c' c'' \<Longrightarrow> gl_reachable c c''"

definition initial_gl :: "gliner_detector \<Rightarrow> gl_config" where
  "initial_gl d = \<lparr>gc_detector = d, gc_calls = (\<lambda>i. None), gc_threads = 0\<rparr>"

definition extracting :: "(nat \<Rightarrow> gl_phase option) \<Rightarrow> nat set" where
  "extracting calls = {i. \<exists>x. calls i = Some (Gl_extracting x)}"

text \<open>Permits and extracting calls add up to the configured number; without a semaphore nothing runs.\<close>

definition gl_inv :: "nat \<Rightarrow> gl_config \<Rightarrow> bool" where
  "gl_inv k c \<longleftrightarrow> finite (extracting (gc_calls c)) \<and> gd_concurrency (gc_detector c) = k
     \<and> card (extracting (gc_calls c)) \<le> gc_threads c
     \<and> (case gd_permits (gc_detector c) of
          None \<Rightarrow> (\<forall>i. gc_calls c i = None)
        | Some n \<Rightarrow> n + card (extracting (gc_calls c)) = k)"

lemma extracting_upd:
  "extracting (calls(i := p)) =
     (case p of Some (Gl_extracting x) \<Rightarrow> insert i (extracting calls) | _ \<Rightarrow> extracting calls - {i})"
  by (auto simp: extracting_def split: option.split gl_phase.split)

lemma extracting_same: "\<nexists>x. calls i = Some (Gl_extracting x) \<Longrightarrow> extracting calls - {i} = extracting calls"
  by (auto simp: extracting_def)

lemma extracting_none: "(\<forall>i. calls i = None) \<Longrightarrow> extracting calls = {}"
  by (simp add: extracting_def)

lemma ensure_semaphore_inv:
  assumes "gl_inv k c"
  shows "gl_inv k (c\<lparr>gc_detector := (ensure_semaphore (gc_detector c))\<lparr>gd_model := m\<rparr>\<rparr>)"
    "gl_inv k (c\<lparr>gc_detector := ensure_semaphore (gc_detector c)\<rparr>)"
  using assms by (auto simp: gl_inv_def ensure_semaphore_def extracting_none split: option.splits)

lemma gl_inv_step: "gl_step c c' \<Longrightarrow> gl_inv k c \<Longrightarrow> gl_inv k c'"
proof (induction rule: gl_step.induct)
  case (load c mkdir loader)
  then show ?case using ensure_semaphore_inv [OF load.prems]
    by (auto simp: load_model_def split: sum.split)
next
  case (call c i t types x d)
  have d: "d = ensure_semaphore (gc_detector c)"
    using call.hyps(2) by (auto simp: begin_detect_def split: option.splits)
  have "extracting ((gc_calls c)(i \<mapsto> Gl_waiting x)) = extracting (gc_calls c)"
    using call.hyps(1) by (simp add: extracting_upd extracting_same)
  moreover have "gd_permits d \<noteq> None" by (simp add: d ensure_semaphore_def split: option.split)
  ultimately show ?case using ensure_semaphore_inv(2) [OF call.prems] d
    by (auto simp: gl_inv_def split: option.splits)
next
  case (acquire c i x n)
  then have "i \<notin> extracting (gc_calls c)" by (simp add: extracting_def)
  with acquire show ?case by (auto simp: gl_inv_def acquire_permit_def extracting_upd)
next
  case (give_up c i x)
  then have "extracting ((gc_calls c)(i := None)) = extracting (gc_calls c)"
    by (simp add: extracting_upd extracting_same)
  with give_up show ?case by (auto simp: gl_inv_def split: option.splits)
next
  case (finish c i x)
  then have "i \<in> extracting (gc_calls c)" by (simp add: extracting_def)
  moreover from this have "0 < card (extracting (gc_calls c))" using finish.prems by (auto simp: gl_inv_def card_gt_0_iff)
  ultimately show ?case using finish.prems
    by (auto simp: gl_inv_def release_permit_def extracting_upd extracting_none split: option.splits)
next
  case (cancel c i x)
  then have "i \<in> extracting (gc_calls c)" by (simp add: extracting_def)
  moreover from this have "0 < card (extracting (gc_calls c))" using cancel.prems by (auto simp: gl_inv_def card_gt_0_iff)
  ultimately show ?case using cancel.prems
    by (auto simp: gl_inv_def release_permit_def extracting_upd extracting_none split: option.splits)
next
  case (thread_end c)
  then show ?case by (auto simp: gl_inv_def extracting_def split: option.splits)
qed

lemma gl_reachable_inv: "gl_reachable c c' \<Longrightarrow> gl_inv k c \<Longrightarrow> gl_inv k c'"
  by (induction rule: gl_reachable.induct) (auto intro: gl_inv_step)

text \<open>
  However calls, loads and cancellations overlap, at most the configured number of calls
  extract at a time, and every permit comes back.
\<close>

lemma extractions_bounded:
  assumes "gl_reachable (initial_gl (new_gliner threshold k m)) c"
  shows "card (extracting (gc_calls c)) \<le> k \<and> (extracting (gc_calls c) = {} \<longrightarrow> gd_permits (gc_detector c) \<in> {None, Some k})"
proof -
  have "gl_inv k (initial_gl (new_gliner threshold k m))"
    by (simp add: gl_inv_def initial_gl_def new_gliner_def extracting_def)
  from gl_reachable_inv [OF assms this] show ?thesis
    by (auto simp: gl_inv_def extracting_none split: option.splits)
qed

text \<open>
  The threads are not bounded by the configured number: with a single permit, a second
  thread extracts while the thread of a cancelled call is still running.
\<close>

lemma cancelled_extraction_exceeds:
  obtains c where "gl_reachable (initial_gl (new_gliner threshold 1 (Some m))) c" "gc_threads c = 2"
proof -
  define d where "d = new_gliner threshold 1 (Some m)"
  define x where "x = \<lparr>ex_model = m, ex_text = [], ex_labels = default_labels\<rparr>"
  define d1 where "d1 = d\<lparr>gd_permits := Some 1\<rparr>"
  define d0 where "d0 = d\<lparr>gd_permits := Some 0\<rparr>"
  have simps: "begin_detect [] [] d = (Inr x, d1)" "begin_detect [] [] d1 = (Inr x, d1)"
    "gd_permits d1 = Some (Suc 0)" "acquire_permit d1 = d0" "release_permit d0 = d1"
    by (simp_all add: d_def d1_def d0_def x_def new_gliner_def begin_detect_def ensure_semaphore_def acquire_permit_def release_permit_def)
  let ?none = "(\<lambda>i. None) :: nat \<Rightarrow> gl_phase option"
  let ?c = "\<lambda>dd ph n. \<lparr>gc_detector = dd, gc_calls = ?none(0 := ph), gc_threads = n\<rparr>"
  have none: "?none(0 := None) = ?none" by simp
  have s1: "gl_step (?c d None 0) (?c d1 (Some (Gl_waiting x)) 0)"
    using gl_step.call [of "?c d None 0" 0 "[]" "[]" x d1] simps by simp
  have s2: "gl_step (?c d1 (Some (Gl_waiting x)) n) (?c d0 (Some (Gl_extracting x)) (n + 1))" for n
    using gl_step.acquire [of "?c d1 (Some (Gl_waiting x)) n" 0 x 0] simps by simp
  have s3: "gl_step (?c d0 (Some (Gl_extracting x)) n) (?c d1 None n)" for n
    using gl_step.cancel [of "?c d0 (Some (Gl_extracting x)) n" 0 x] simps by simp
  have s4: "gl_step (?c d1 None n) (?c d1 (Some (Gl_waiting x)) n)" for n
    using gl_step.call [of "?c d1 None n" 0 "[]" "[]" x d1] simps by simp
  have "gl_reachable (initial_gl d) (?c d None 0)" unfolding initial_gl_def none by (rule gl_reachable.start)
  from gl_reachable.step [OF gl_reachable.step [OF gl_reachable.step [OF gl_reachable.step [OF gl_reachable.step
      [OF this s1] s2] s3] s4] s2]
  show ?thesis unfolding d_def by (rule that) simp
qed

section \<open>\<open>OpenMedPIIDetector\<close>\<close>

text \<open>
  The tokenizer, called with or without \<open>return_offsets_mapping\<close>, gives the word ids and, if
  it can, the offsets; the model gives the predicted labels for a tokenized text.
\<close>

record om_tokens =
  tk_word_ids :: "nat option list"
  tk_offsets :: "(int \<times> int) list option"

type_synonym tokenizer = "string \<Rightarrow> bool \<Rightarrow> om_tokens res"

record openmed_model =
  mo_predict :: "om_tokens \<Rightarrow> int list res"
  mo_id2label :: "int \<Rightarrow> string option"

record openmed_detector =
  om_tokenizer :: "tokenizer option"
  om_model :: "openmed_model option"

text \<open>\<open>load_model\<close>: the tokenizer is kept even if the model cannot be loaded.\<close>

definition openmed_load :: "tokenizer res \<Rightarrow> openmed_model res \<Rightarrow> openmed_detector \<Rightarrow> unit res \<times> openmed_detector" where
  "openmed_load tokenizer model d =
     (if om_model d \<noteq> None then (Inr (), d)
      else
        (case tokenizer of
           Inl e \<Rightarrow> (Inl e, d)
         | Inr tk \<Rightarrow>
             (case model of
                Inl e \<Rightarrow> (Inl e, d\<lparr>om_tokenizer := Some tk\<rparr>)
              | Inr m \<Rightarrow> (Inr (), d\<lparr>om_tokenizer := Some tk, om_model := Some m\<rparr>))))"

definition tokenize :: "tokenizer \<Rightarrow> string \<Rightarrow> om_tokens res" where
  "tokenize tk t = (case tk t True of Inl e \<Rightarrow> if e = TypeError then tk t False else Inl e | Inr x \<Rightarrow> Inr x)"

definition openmed_infer :: "tokenizer \<Rightarrow> openmed_model \<Rightarrow> string \<Rightarrow> span list res" where
  "openmed_infer tk m t =
     bind_res (tokenize tk t) (\<lambda>x.
     bind_res (mo_predict m x) (\<lambda>preds.
       openmed_detect_sync preds (mo_id2label m) (case tk_offsets x of Some os \<Rightarrow> os | None \<Rightarrow> []) (tk_word_ids x)))"

text \<open>\<open>detect_sync\<close>, which \<open>detect\<close> runs in a thread; \<open>warmup\<close> only loads. The types asked for are not read.\<close>

definition openmed_detect ::
  "tokenizer res \<Rightarrow> openmed_model res \<Rightarrow> string \<Rightarrow> string list \<Rightarrow> openmed_detector \<Rightarrow> span list res \<times> openmed_detector" where
  "openmed_detect tokenizer model t types d =
     (case openmed_load tokenizer model d of
        (Inl e, d1) \<Rightarrow> (Inl e, d1)
      | (Inr _, d1) \<Rightarrow>
          (case (om_tokenizer d1, om_model d1) of
             (Some tk, Some m) \<Rightarrow> (openmed_infer tk m t, d1)
           | _ \<Rightarrow> (Inl RuntimeError, d1)))"

definition openmed_warmup ::
  "tokenizer res \<Rightarrow> openmed_model res \<Rightarrow> openmed_detector \<Rightarrow> unit res \<times> openmed_detector" where
  "openmed_warmup tokenizer model d = openmed_load tokenizer model d"

text \<open>Once warmed up, a detection does not load again and does not depend on the loader.\<close>

lemma openmed_warm:
  assumes "openmed_warmup tokenizer model d = (Inr (), d')"
  shows "openmed_detect tokenizer' model' t types d' = openmed_detect tokenizer model t types d'"
    "snd (openmed_detect tokenizer' model' t types d') = d'"
  using assms
  by (auto simp: openmed_warmup_def openmed_load_def openmed_detect_def split: if_splits sum.splits option.splits)

text \<open>A model without its tokenizer is an error, not an empty answer.\<close>

lemma openmed_without_tokenizer:
  assumes "om_model d = Some m" "om_tokenizer d = None"
  shows "fst (openmed_detect tokenizer model t types d) = Inl RuntimeError"
  using assms by (simp add: openmed_detect_def openmed_load_def)

text \<open>
  A tokenizer that rejects the offsets is called again without them, as documented, but the
  offsets are not recovered from the text: every span is the empty one at 0, and the
  validation of the offsets drops it, so nothing is redacted and no error is raised.
\<close>

lemma bio_loop_without_offsets:
  assumes "bio_loop preds id2label [] idx wids current spans = Inr out"
    and "\<And>c. current = Some c \<Longrightarrow> char_start c = 0 \<and> char_end c = 0"
    and "list_all (\<lambda>s. s_start s = 0 \<and> s_end s = 0) spans"
  shows "list_all (\<lambda>s. s_start s = 0 \<and> s_end s = 0) out"
  using assms
proof (induction preds id2label "[] :: (int \<times> int) list" idx wids current spans rule: bio_loop.induct)
  case (3 preds id2label idx wid wids current spans)
  then show ?case
    by (auto simp: Let_def entity_to_span_def split: if_splits option.splits)
qed (auto simp: entity_to_span_def split: option.splits)

lemma validate_drops_empty:
  "list_all (\<lambda>s. s_start s = 0 \<and> s_end s = 0) spans \<Longrightarrow> validate_offsets t spans = []"
  by (induction spans) auto

lemma openmed_fallback_redacts_nothing:
  assumes "tk t True = Inl TypeError" "tk t False = Inr x" "tk_offsets x = None"
    and "openmed_infer tk m t = Inr spans"
  shows "validate_offsets t spans = []"
proof -
  obtain preds out where "bio_loop preds (mo_id2label m) [] 0 (tk_word_ids x) None [] = Inr out"
    and s: "spans = map (\<lambda>s. \<lparr>s_start = s_start s, s_end = s_end s, s_type = sanitize_label (s_type s), s_conf = 9/10\<rparr>) out"
    using assms
    by (auto simp: openmed_infer_def tokenize_def openmed_detect_sync_def bind_res_Inr_iff map_res_Inr_iff)
  then have "list_all (\<lambda>s. s_start s = 0 \<and> s_end s = 0) out" by (rule_tac bio_loop_without_offsets) auto
  then show ?thesis by (intro validate_drops_empty) (simp add: s list_all_iff)
qed

end
