(* ===== verification/Observability.thy ===== *)
theory Observability
  imports Snapshot
begin

text \<open>
  \<open>app/observability/metrics.py\<close> and \<open>app/observability/tracing.py\<close>. The client library of
  Prometheus and the tracing SDK are not modelled: an operation on a metric is the call that
  is made, and what the library returns is an argument. The lemmas show that the registry is
  well formed, that the calls of a request fit it, and that telemetry neither raises nor is
  configured twice.
\<close>

section \<open>The registry\<close>

datatype metric_kind = Counter_metric | Gauge_metric | Histogram_metric "rat list"

record metric =
  mt_name :: string
  mt_help :: string
  mt_kind :: metric_kind
  mt_labels :: "string list"

definition REQUESTS :: metric where
  "REQUESTS =
    \<lparr>mt_name = ''redax_requests_total'',
     mt_help = ''Total HTTP requests handled.'',
     mt_kind = Counter_metric, mt_labels = [''endpoint'', ''method'', ''status'']\<rparr>"

definition REQUEST_LATENCY :: metric where
  "REQUEST_LATENCY =
    \<lparr>mt_name = ''redax_request_duration_seconds'',
     mt_help = ''End-to-end request handling latency.'',
     mt_kind = Histogram_metric [1 / 200, 1 / 100, 1 / 40, 1 / 20, 1 / 10, 1 / 4, 1 / 2, 1, 5 / 2, 5, 10], mt_labels = [''endpoint'', ''method'']\<rparr>"

definition RESPONSE_SIZE :: metric where
  "RESPONSE_SIZE =
    \<lparr>mt_name = ''redax_response_size_bytes'',
     mt_help = ''Size of buffered HTTP responses when a Content-Length is available.'',
     mt_kind = Histogram_metric [256, 1024, 4096, 16384, 65536, 262144, 1048576, 4194304], mt_labels = []\<rparr>"

definition RESPONSE_REJECTIONS :: metric where
  "RESPONSE_REJECTIONS =
    \<lparr>mt_name = ''redax_response_rejections_total'',
     mt_help = ''Responses rejected because their buffered body exceeded the configured limit.'',
     mt_kind = Counter_metric, mt_labels = []\<rparr>"

definition REQUESTS_INFLIGHT :: metric where
  "REQUESTS_INFLIGHT =
    \<lparr>mt_name = ''redax_requests_inflight'',
     mt_help = ''HTTP requests currently admitted to application handlers.'',
     mt_kind = Gauge_metric, mt_labels = []\<rparr>"

definition ADMISSION_REJECTIONS :: metric where
  "ADMISSION_REJECTIONS =
    \<lparr>mt_name = ''redax_admission_rejections_total'',
     mt_help = ''Requests rejected before application handling due to drain or saturation.'',
     mt_kind = Counter_metric, mt_labels = [''reason'']\<rparr>"

definition INFERENCE_LATENCY :: metric where
  "INFERENCE_LATENCY =
    \<lparr>mt_name = ''redax_inference_duration_seconds'',
     mt_help = ''Time spent in detector inference for a single detect() call.'',
     mt_kind = Histogram_metric [1 / 200, 1 / 100, 1 / 40, 1 / 20, 1 / 10, 1 / 4, 1 / 2, 1, 5 / 2], mt_labels = [''detector'']\<rparr>"

definition ENTITIES_DETECTED :: metric where
  "ENTITIES_DETECTED =
    \<lparr>mt_name = ''redax_entities_detected_total'',
     mt_help = ''Total PII entities detected.'',
     mt_kind = Counter_metric, mt_labels = [''entity_type'', ''strategy'']\<rparr>"

definition CACHE_HITS :: metric where
  "CACHE_HITS =
    \<lparr>mt_name = ''redax_cache_hits_total'',
     mt_help = ''Cache hits (idempotency or response cache).'',
     mt_kind = Counter_metric, mt_labels = [''cache'']\<rparr>"

definition ERRORS :: metric where
  "ERRORS =
    \<lparr>mt_name = ''redax_errors_total'',
     mt_help = ''Total errors by type.'',
     mt_kind = Counter_metric, mt_labels = [''type'']\<rparr>"

definition QUEUE_DEPTH :: metric where
  "QUEUE_DEPTH =
    \<lparr>mt_name = ''redax_queue_depth'',
     mt_help = ''Current depth of the async job queue.'',
     mt_kind = Gauge_metric, mt_labels = []\<rparr>"

definition QUEUE_OLDEST_AGE :: metric where
  "QUEUE_OLDEST_AGE =
    \<lparr>mt_name = ''redax_queue_oldest_age_seconds'',
     mt_help = ''Age of the oldest non-terminal durable job.'',
     mt_kind = Gauge_metric, mt_labels = []\<rparr>"

definition ACTIVE_WORKERS :: metric where
  "ACTIVE_WORKERS =
    \<lparr>mt_name = ''redax_active_workers'',
     mt_help = ''Workers with a live Redis heartbeat.'',
     mt_kind = Gauge_metric, mt_labels = []\<rparr>"

definition WORKER_JOBS_ACTIVE :: metric where
  "WORKER_JOBS_ACTIVE =
    \<lparr>mt_name = ''redax_worker_jobs_active'',
     mt_help = ''Durable jobs currently executing across live worker heartbeats.'',
     mt_kind = Gauge_metric, mt_labels = []\<rparr>"

definition WORKER_JOBS_CAPACITY :: metric where
  "WORKER_JOBS_CAPACITY =
    \<lparr>mt_name = ''redax_worker_jobs_capacity'',
     mt_help = ''Configured concurrent durable-job slots across live worker heartbeats.'',
     mt_kind = Gauge_metric, mt_labels = []\<rparr>"

definition REDIS_POOL_IN_USE :: metric where
  "REDIS_POOL_IN_USE =
    \<lparr>mt_name = ''redax_redis_pool_connections_in_use'',
     mt_help = ''Redis connections currently checked out by this process.'',
     mt_kind = Gauge_metric, mt_labels = []\<rparr>"

definition REDIS_POOL_AVAILABLE :: metric where
  "REDIS_POOL_AVAILABLE =
    \<lparr>mt_name = ''redax_redis_pool_connections_available'',
     mt_help = ''Redis connections currently available in this process pool.'',
     mt_kind = Gauge_metric, mt_labels = []\<rparr>"

definition REDIS_POOL_MAX :: metric where
  "REDIS_POOL_MAX =
    \<lparr>mt_name = ''redax_redis_pool_connections_max'',
     mt_help = ''Configured maximum Redis connections for this process pool.'',
     mt_kind = Gauge_metric, mt_labels = []\<rparr>"

definition JOB_DURATION :: metric where
  "JOB_DURATION =
    \<lparr>mt_name = ''redax_job_duration_seconds'',
     mt_help = ''Time spent processing a durable redaction job attempt.'',
     mt_kind = Histogram_metric [1 / 100, 1 / 20, 1 / 10, 1 / 4, 1 / 2, 1, 5 / 2, 5, 10, 30, 60], mt_labels = []\<rparr>"

definition JOB_RETRIES :: metric where
  "JOB_RETRIES =
    \<lparr>mt_name = ''redax_job_retries_total'',
     mt_help = ''Durable jobs requeued after a transient failure.'',
     mt_kind = Counter_metric, mt_labels = []\<rparr>"

definition JOB_PERMANENT_FAILURES :: metric where
  "JOB_PERMANENT_FAILURES =
    \<lparr>mt_name = ''redax_job_permanent_failures_total'',
     mt_help = ''Durable jobs that exhausted their retry budget.'',
     mt_kind = Counter_metric, mt_labels = []\<rparr>"

definition AUDIT_UNINITIALISED :: metric where
  "AUDIT_UNINITIALISED =
    \<lparr>mt_name = ''redax_audit_uninitialised_total'',
     mt_help = ''Audit events dropped because the backend was never started.'',
     mt_kind = Counter_metric, mt_labels = [''backend'']\<rparr>"

definition AUDIT_WRITE_FAILED :: metric where
  "AUDIT_WRITE_FAILED =
    \<lparr>mt_name = ''redax_audit_write_failed_total'',
     mt_help = ''Audit events that could not be written to disk.'',
     mt_kind = Counter_metric, mt_labels = [''backend'']\<rparr>"

definition RATE_LIMIT_UNAVAILABLE :: metric where
  "RATE_LIMIT_UNAVAILABLE =
    \<lparr>mt_name = ''redax_rate_limit_unavailable_total'',
     mt_help = ''Rate-limit checks that failed closed because Redis was unreachable.'',
     mt_kind = Counter_metric, mt_labels = []\<rparr>"

definition AUDIT_DROPPED :: metric where
  "AUDIT_DROPPED =
    \<lparr>mt_name = ''redax_audit_dropped_total'',
     mt_help = ''Audit events dropped because the in-process queue was full.'',
     mt_kind = Counter_metric, mt_labels = [''backend'']\<rparr>"

definition TRACING_EXPORT_FAILURES :: metric where
  "TRACING_EXPORT_FAILURES =
    \<lparr>mt_name = ''redax_tracing_export_failures_total'',
     mt_help = ''Bounded tracing flush/export failures observed by the process.'',
     mt_kind = Counter_metric, mt_labels = []\<rparr>"

definition REGISTRY :: "metric list" where
  "REGISTRY =
     [REQUESTS, REQUEST_LATENCY, RESPONSE_SIZE, RESPONSE_REJECTIONS, REQUESTS_INFLIGHT,
      ADMISSION_REJECTIONS, INFERENCE_LATENCY, ENTITIES_DETECTED, CACHE_HITS, ERRORS, QUEUE_DEPTH,
      QUEUE_OLDEST_AGE, ACTIVE_WORKERS, WORKER_JOBS_ACTIVE, WORKER_JOBS_CAPACITY, REDIS_POOL_IN_USE,
      REDIS_POOL_AVAILABLE, REDIS_POOL_MAX, JOB_DURATION, JOB_RETRIES, JOB_PERMANENT_FAILURES,
      AUDIT_UNINITIALISED, AUDIT_WRITE_FAILED, RATE_LIMIT_UNAVAILABLE, AUDIT_DROPPED,
      TRACING_EXPORT_FAILURES]"

lemmas metric_defs = REQUESTS_def REQUEST_LATENCY_def RESPONSE_SIZE_def RESPONSE_REJECTIONS_def REQUESTS_INFLIGHT_def
  ADMISSION_REJECTIONS_def INFERENCE_LATENCY_def ENTITIES_DETECTED_def CACHE_HITS_def ERRORS_def QUEUE_DEPTH_def
  QUEUE_OLDEST_AGE_def ACTIVE_WORKERS_def WORKER_JOBS_ACTIVE_def WORKER_JOBS_CAPACITY_def REDIS_POOL_IN_USE_def
  REDIS_POOL_AVAILABLE_def REDIS_POOL_MAX_def JOB_DURATION_def JOB_RETRIES_def JOB_PERMANENT_FAILURES_def
  AUDIT_UNINITIALISED_def AUDIT_WRITE_FAILED_def RATE_LIMIT_UNAVAILABLE_def AUDIT_DROPPED_def TRACING_EXPORT_FAILURES_def

definition ends_with :: "string \<Rightarrow> string \<Rightarrow> bool" where
  "ends_with s post \<longleftrightarrow> length post \<le> length s \<and> drop (length s - length post) s = post"

definition metric_ok :: "metric \<Rightarrow> bool" where
  "metric_ok m \<longleftrightarrow> take 6 (mt_name m) = ''redax_'' \<and> mt_help m \<noteq> [] \<and> distinct (mt_labels m)
     \<and> (mt_kind m = Counter_metric \<longleftrightarrow> ends_with (mt_name m) ''_total'')
     \<and> (case mt_kind m of Histogram_metric bs \<Rightarrow> bs \<noteq> [] \<and> sorted_wrt (<) (0 # bs) | _ \<Rightarrow> True)"

text \<open>
  No two metrics share a name, the counters are those whose name says so, and the bounds of
  every histogram increase.
\<close>

lemma registry_wellformed: "distinct (map mt_name REGISTRY)" "list_all metric_ok REGISTRY"
  by code_simp+

section \<open>The calls\<close>

text \<open>A call on a metric, with the labels as keywords.\<close>

datatype metric_call =
  Inc metric "(string \<times> string) list" | Observe metric "(string \<times> string) list" rat | Set_gauge metric rat

fun call_ok :: "metric_call \<Rightarrow> bool" where
  "call_ok (Inc m ls) \<longleftrightarrow> List.member REGISTRY m \<and> mt_kind m \<in> {Counter_metric, Gauge_metric} \<and> map fst ls = mt_labels m"
| "call_ok (Observe m ls v) \<longleftrightarrow>
     List.member REGISTRY m \<and> (case mt_kind m of Histogram_metric bs \<Rightarrow> True | _ \<Rightarrow> False) \<and> map fst ls = mt_labels m"
| "call_ok (Set_gauge m v) \<longleftrightarrow> List.member REGISTRY m \<and> mt_kind m = Gauge_metric \<and> mt_labels m = []"

text \<open>The first sample that the library collects of the gauge, or zero.\<close>

definition queue_depth :: "rat list list \<Rightarrow> rat" where
  "queue_depth collected = (case concat collected of [] \<Rightarrow> 0 | v # _ \<Rightarrow> v)"

definition decrement_queue_depth :: "rat list list \<Rightarrow> metric_call" where
  "decrement_queue_depth collected = Set_gauge QUEUE_DEPTH (max 0 (queue_depth collected - 1))"

text \<open>If the gauge collects what was set last, any number of decrements leaves it at the difference, but not below zero.\<close>

lemma queue_depth_never_negative:
  assumes "0 \<le> v"
  shows "((\<lambda>v. case decrement_queue_depth [[v]] of Set_gauge m w \<Rightarrow> w | _ \<Rightarrow> v) ^^ n) v = max 0 (v - of_nat n)"
  using assms by (induction n) (auto simp: decrement_queue_depth_def queue_depth_def)

text \<open>
  \<open>RequestMetric\<close> as a context manager: the body records the status of its branch, and the
  exit observes the latency, whether the body returns or raises.
\<close>

record request_metric =
  rm_endpoint :: string
  rm_method :: string
  rm_start :: rat

definition record_status :: "request_metric \<Rightarrow> string \<Rightarrow> metric_call" where
  "record_status rm status =
     Inc REQUESTS [(''endpoint'', rm_endpoint rm), (''method'', rm_method rm), (''status'', status)]"

definition metric_exit :: "request_metric \<Rightarrow> rat \<Rightarrow> metric_call" where
  "metric_exit rm now = Observe REQUEST_LATENCY [(''endpoint'', rm_endpoint rm), (''method'', rm_method rm)] (now - rm_start rm)"

definition with_metric :: "request_metric \<Rightarrow> rat \<Rightarrow> ('a res \<times> string list) \<Rightarrow> 'a res \<times> metric_call list" where
  "with_metric rm now body = (fst body, map (record_status rm) (snd body) @ [metric_exit rm now])"

lemma with_metric_calls:
  "list_all call_ok (snd (with_metric rm now body))"
  "length (filter (\<lambda>c. \<exists>m ls v. c = Observe m ls v) (snd (with_metric rm now body))) = 1"
  by (auto simp: with_metric_def record_status_def metric_exit_def list_all_iff REGISTRY_def metric_defs filter_empty_conv)

section \<open>Tracing\<close>

datatype export_result = Export_success | Export_failure

text \<open>\<open>CountingSpanExporter.export\<close>: the outcome of the wrapped exporter to the result, with the calls.\<close>

definition export_spans :: "export_result res \<Rightarrow> export_result res \<times> metric_call list" where
  "export_spans outcome =
     (case outcome of
        Inl e \<Rightarrow> if is_Exception e then (Inr Export_failure, [Inc TRACING_EXPORT_FAILURES []]) else (Inl e, [])
      | Inr r \<Rightarrow> (Inr r, if r \<noteq> Export_success then [Inc TRACING_EXPORT_FAILURES []] else []))"

text \<open>The wrapped exporter may have no \<open>shutdown\<close>.\<close>

definition exporter_shutdown :: "unit res option \<Rightarrow> unit res" where
  "exporter_shutdown shutdown = (case shutdown of None \<Rightarrow> Inr () | Some r \<Rightarrow> r)"

lemma export_counts_failures:
  "outcome \<noteq> Inl CancelledError \<Longrightarrow> \<exists>r. export_spans outcome =
     (Inr r, if outcome = Inr Export_success then [] else [Inc TRACING_EXPORT_FAILURES []])
     \<and> (r = Export_success \<longleftrightarrow> outcome = Inr Export_success)"
  by (cases outcome) (auto simp: export_spans_def is_Exception_def)

text \<open>
  The process-wide state: whether it is initialised, and the provider, which has the name of
  the service and the limits of the exporter if there is an endpoint.
\<close>

record span_processor =
  sp_endpoint :: string
  sp_max_queue :: nat
  sp_max_batch :: nat
  sp_delay_millis :: rat
  sp_timeout_millis :: rat

record tracing =
  tr_initialized :: bool
  tr_provider :: "(string \<times> span_processor option) option"

definition OTLP_MAX_QUEUE_SIZE :: nat where "OTLP_MAX_QUEUE_SIZE = 2048"
definition OTLP_MAX_EXPORT_BATCH_SIZE :: nat where "OTLP_MAX_EXPORT_BATCH_SIZE = 512"
definition OTLP_SCHEDULE_DELAY_MILLIS :: rat where "OTLP_SCHEDULE_DELAY_MILLIS = 5000"
definition OTLP_EXPORT_TIMEOUT_MILLIS :: rat where "OTLP_EXPORT_TIMEOUT_MILLIS = 30000"

definition make_processor :: "string \<Rightarrow> span_processor" where
  "make_processor endpoint =
     \<lparr>sp_endpoint = endpoint, sp_max_queue = OTLP_MAX_QUEUE_SIZE, sp_max_batch = OTLP_MAX_EXPORT_BATCH_SIZE,
      sp_delay_millis = OTLP_SCHEDULE_DELAY_MILLIS, sp_timeout_millis = OTLP_EXPORT_TIMEOUT_MILLIS\<rparr>"

text \<open>\<open>exporter\<close> is the outcome of importing and constructing the exporter; an empty endpoint counts as none.\<close>

definition configure_tracing :: "unit res \<Rightarrow> string \<Rightarrow> string option \<Rightarrow> tracing \<Rightarrow> unit res \<times> tracing" where
  "configure_tracing exporter service collector tr =
     (if tr_initialized tr then (Inr (), tr)
      else
        (case collector of
           Some (c # cs) \<Rightarrow>
             (case exporter of
                Inl e \<Rightarrow> (Inl e, tr)
              | Inr _ \<Rightarrow> (Inr (), \<lparr>tr_initialized = True, tr_provider = Some (service, Some (make_processor (c # cs)))\<rparr>))
         | _ \<Rightarrow> (Inr (), \<lparr>tr_initialized = True, tr_provider = Some (service, None)\<rparr>)))"

text \<open>Only the first successful call configures; a failed one can be repeated.\<close>

lemma configure_once:
  assumes "configure_tracing exporter name ep tr = (Inr (), tr')"
  shows "tr_initialized tr' \<and> configure_tracing exporter' name' ep' tr' = (Inr (), tr')"
  using assms by (auto simp: configure_tracing_def split: if_splits option.splits list.splits sum.splits)

lemma failed_configure_unchanged:
  "configure_tracing exporter name ep tr = (Inl e, tr') \<Longrightarrow> tr' = tr \<and> \<not> tr_initialized tr"
  by (auto simp: configure_tracing_def split: if_splits option.splits list.splits sum.splits)

text \<open>\<open>flush_tracing\<close>: \<open>None\<close> is a provider without \<open>force_flush\<close>.\<close>

definition flush_error :: "exn \<Rightarrow> bool" where
  "flush_error e \<longleftrightarrow> is_runtime_error e \<or> e \<in> {TimeoutError, TypeError} \<or> is_value_error e"

definition flush_tracing :: "bool res option \<Rightarrow> bool res \<times> metric_call list" where
  "flush_tracing force_flush =
     (case force_flush of
        None \<Rightarrow> (Inr True, [])
      | Some (Inr flushed) \<Rightarrow> (Inr flushed, if flushed then [] else [Inc TRACING_EXPORT_FAILURES []])
      | Some (Inl e) \<Rightarrow> if flush_error e then (Inr False, [Inc TRACING_EXPORT_FAILURES []]) else (Inl e, []))"

text \<open>The counter moves exactly when the flush reports a failure.\<close>

lemma flush_counts_failures:
  "flush_tracing force_flush = (Inr b, calls) \<Longrightarrow> calls = (if b then [] else [Inc TRACING_EXPORT_FAILURES []])"
  by (auto simp: flush_tracing_def split: option.splits sum.splits if_splits)

text \<open>\<open>format(trace_id, "032x")\<close>: at least 32 lower-case digits.\<close>

fun hex_of :: "nat \<Rightarrow> string" where
  "hex_of n = (if n < 16 then [hex_digit n] else hex_of (n div 16) @ [hex_digit (n mod 16)])"

declare hex_of.simps [simp del]

definition trace_id_hex :: "nat \<Rightarrow> string" where
  "trace_id_hex n = replicate (32 - length (hex_of n)) CHR ''0'' @ hex_of n"

definition current_trace_id_hex :: "bool \<Rightarrow> nat \<Rightarrow> string option" where
  "current_trace_id_hex is_valid trace_id = (if is_valid then Some (trace_id_hex trace_id) else None)"

lemma hex_of_length: "0 < k \<Longrightarrow> n < 16 ^ k \<Longrightarrow> length (hex_of n) \<le> k"
proof (induction n arbitrary: k rule: hex_of.induct)
  case (1 n)
  show ?case
  proof (cases "n < 16")
    case True
    then show ?thesis using 1(2) by (simp add: hex_of.simps)
  next
    case False
    obtain j where k': "k = Suc j" using 1(2) by (cases k) auto
    with False 1(3) have k: "k = Suc j" "0 < j" by (cases j; simp)+
    have "length (hex_of (n div 16)) \<le> j" using 1(1) [OF False k(2)] 1(3) k(1) by (simp add: less_mult_imp_div_less)
    then show ?thesis using False k by (subst hex_of.simps) simp
  qed
qed

text \<open>The identifier of the log line has 32 characters for every identifier of 128 bits.\<close>

lemma trace_id_hex_length: "n < 2 ^ 128 \<Longrightarrow> length (trace_id_hex n) = 32"
  using hex_of_length [of 32 n] by (simp add: trace_id_hex_def)

end
