(* ===== verification/Lifecycle.thy ===== *)
theory Lifecycle
  imports Startup JobStore Pipeline Observability
begin

text \<open>
  The rest of \<open>app/main.py\<close>, of \<open>app/state.py\<close> and of \<open>app/api/health.py\<close>: the gauges of
  \<open>refresh_job_metrics\<close> and its loop, the whole of \<open>teardown_state\<close> and of \<open>lifespan\<close>, the
  settings of the job queue and of the network middleware, and the statistics page. The
  lemmas show when the recovery task survives, that the gauges fall to zero without Redis,
  when the stop runs to its end, and which hosts a verified configuration admits.
\<close>

section \<open>The gauges\<close>

text \<open>\<open>pool_stats\<close>: whether there is a client, and its pool as (in use, available, maximum).\<close>

definition pool_stats :: "bool \<Rightarrow> (nat \<times> nat \<times> int) option \<Rightarrow> int \<times> int \<times> int" where
  "pool_stats has_client pool =
     (if \<not> has_client then (0, 0, 0)
      else (case pool of None \<Rightarrow> (0, 0, 0) | Some (used, free, most) \<Rightarrow> (int used, int free, most)))"

text \<open>A read that fails in one of the expected ways counts as zero.\<close>

definition reading_or :: "'a \<Rightarrow> 'a res \<Rightarrow> 'a res" where
  "reading_or zero r = (case r of Inr v \<Rightarrow> Inr v | Inl e \<Rightarrow> if refresh_error e then Inr zero else Inl e)"

text \<open>What one round finds: the outcomes of the recovery, of the three reads, and the pool.\<close>

record round_env =
  re_ping :: "unit res"
  re_close :: "unit res"
  re_create :: "unit res"
  re_age :: "rat res"
  re_workers :: "nat res"
  re_capacity :: "(int \<times> int) res"
  re_pool :: "(nat \<times> nat \<times> int) option"

definition pool_gauges :: "int \<times> int \<times> int \<Rightarrow> metric_call list" where
  "pool_gauges pool =
     (let (in_use, available, most) = pool
      in [Set_gauge REDIS_POOL_IN_USE (of_int in_use), Set_gauge REDIS_POOL_AVAILABLE (of_int available),
          Set_gauge REDIS_POOL_MAX (of_int most)])"

definition refresh_gauges :: "round_env \<Rightarrow> bool \<Rightarrow> metric_call list \<times> unit res" where
  "refresh_gauges r client =
     (case reading_or 0 (re_age r) of
        Inl e \<Rightarrow> ([], Inl e)
      | Inr age \<Rightarrow>
          let calls = [Set_gauge QUEUE_OLDEST_AGE age]
          in case reading_or 0 (re_workers r) of
               Inl e \<Rightarrow> (calls, Inl e)
             | Inr n \<Rightarrow>
                 let calls = calls @ [Set_gauge ACTIVE_WORKERS (of_nat n)]
                 in case reading_or (0, 0) (re_capacity r) of
                      Inl e \<Rightarrow> (calls, Inl e)
                    | Inr (active, most) \<Rightarrow>
                        (calls @ [Set_gauge WORKER_JOBS_ACTIVE (of_int active), Set_gauge WORKER_JOBS_CAPACITY (of_int most)]
                           @ pool_gauges (pool_stats client (re_pool r)), Inr ()))"

text \<open>
  The loop on (has client, has queue); it ends when a round raises, or with the cancellation
  at the sleep after the last round.
\<close>

fun refresh_loop :: "round_env list \<Rightarrow> bool \<times> bool \<Rightarrow> metric_call list \<Rightarrow> (bool \<times> bool) \<times> metric_call list \<times> exn" where
  "refresh_loop [] c calls = (c, calls, CancelledError)"
| "refresh_loop (r # rs) c calls =
     (case refresh_round (re_ping r) (re_close r) (re_create r) c of
        Inl e \<Rightarrow> (c, calls, e)
      | Inr c1 \<Rightarrow>
          (case refresh_gauges r (fst c1) of
             (gs, Inl e) \<Rightarrow> (c1, calls @ gs, e)
           | (gs, Inr _) \<Rightarrow> refresh_loop rs c1 (calls @ gs)))"

definition expected :: "'a res \<Rightarrow> bool" where
  "expected r \<longleftrightarrow> (case r of Inl e \<Rightarrow> refresh_error e | Inr _ \<Rightarrow> True)"

definition expected_round :: "round_env \<Rightarrow> bool" where
  "expected_round r \<longleftrightarrow> expected (re_ping r) \<and> expected (re_close r) \<and> expected (re_create r)
     \<and> expected (re_age r) \<and> expected (re_workers r) \<and> expected (re_capacity r)"

lemma expected_refresh_round:
  "expected ping \<Longrightarrow> expected cls \<Longrightarrow> expected mk \<Longrightarrow> \<exists>c'. refresh_round ping cls mk c = Inr c'"
  by (cases c; cases ping; cases cls; cases mk)
    (auto simp: refresh_round_def expected_def store_start_def store_stop_def)

lemma expected_refresh_gauges: "expected_round r \<Longrightarrow> \<exists>gs. refresh_gauges r client = (gs, Inr ())"
  by (auto simp: refresh_gauges_def expected_round_def expected_def reading_or_def Let_def split: sum.splits)

text \<open>
  As long as Redis fails in the expected ways only, the recovery task runs until it is
  cancelled; every call it makes is one of the registry.
\<close>

lemma refresh_loop_survives:
  "list_all expected_round rs \<Longrightarrow> snd (snd (refresh_loop rs c calls)) = CancelledError"
proof (induction rs arbitrary: c calls)
  case (Cons r rs)
  obtain c1 where "refresh_round (re_ping r) (re_close r) (re_create r) c = Inr c1"
    using Cons.prems expected_refresh_round [of "re_ping r" "re_close r" "re_create r" c] by (auto simp: expected_round_def)
  moreover obtain gs where "refresh_gauges r (fst c1) = (gs, Inr ())"
    using Cons.prems expected_refresh_gauges [of r "fst c1"] by auto
  ultimately show ?case using Cons by simp
qed simp

lemma registered [simp]:
  "call_ok (Set_gauge QUEUE_OLDEST_AGE v)" "call_ok (Set_gauge ACTIVE_WORKERS v)" "call_ok (Set_gauge WORKER_JOBS_ACTIVE v)"
  "call_ok (Set_gauge WORKER_JOBS_CAPACITY v)" "call_ok (Set_gauge REDIS_POOL_IN_USE v)"
  "call_ok (Set_gauge REDIS_POOL_AVAILABLE v)" "call_ok (Set_gauge REDIS_POOL_MAX v)"
  by (simp_all add: REGISTRY_def metric_defs)

lemma refresh_gauges_registered: "list_all call_ok (fst (refresh_gauges r client))"
  by (auto simp: refresh_gauges_def pool_gauges_def Let_def simp del: call_ok.simps split: sum.split prod.split)

lemma refresh_loop_registered:
  "list_all call_ok calls \<Longrightarrow> list_all call_ok (fst (snd (refresh_loop rs c calls)))"
proof (induction rs arbitrary: c calls)
  case (Cons r rs)
  have "list_all call_ok gs" if "refresh_gauges r client = (gs, x)" for client gs x
    using refresh_gauges_registered [of r client] that by simp
  then show ?case using Cons by (auto simp del: call_ok.simps split: sum.split prod.split)
qed simp

text \<open>Without a client every gauge falls to zero: the reads of the store raise the expected error.\<close>

lemma gauges_without_client:
  assumes "\<not> js_client st"
    and "re_age r = fst (oldest_job_age_seconds R st now s)" "re_workers r = fst (active_worker_count R st s)"
    and "re_capacity r = fst (worker_capacity R st s)"
  shows "refresh_gauges r False =
    (map (\<lambda>m. Set_gauge m 0) [QUEUE_OLDEST_AGE, ACTIVE_WORKERS, WORKER_JOBS_ACTIVE, WORKER_JOBS_CAPACITY,
       REDIS_POOL_IN_USE, REDIS_POOL_AVAILABLE, REDIS_POOL_MAX], Inr ())"
  using assms
  by (simp add: refresh_gauges_def reading_or_def oldest_job_age_seconds_def active_worker_count_def worker_capacity_def
      with_client_def pool_stats_def pool_gauges_def refresh_error_def is_runtime_error_def)

section \<open>The stop\<close>

text \<open>
  The recovery task is cancelled and awaited. Only its cancellation is suppressed, so the
  exception of a task that has died before is raised here.
\<close>

definition await_metrics_task :: "exn option \<Rightarrow> unit res" where
  "await_metrics_task task =
     (case task of Some e \<Rightarrow> if e = CancelledError then Inr () else Inl e | None \<Rightarrow> Inr ())"

text \<open>The flush of the traces in its thread; a timeout is only logged.\<close>

definition flush_step :: "rat \<Rightarrow> bool res option \<Rightarrow> unit res" where
  "flush_step remaining force_flush =
     (if remaining \<le> 0 then Inr ()
      else (case fst (flush_tracing force_flush) of Inr _ \<Rightarrow> Inr () | Inl e \<Rightarrow> if e = TimeoutError then Inr () else Inl e))"

record stop_env =
  se_task :: "exn option"
  se_drain_left :: rat
  se_left_at :: "component \<Rightarrow> rat"
  se_outcome :: "component \<Rightarrow> unit res"
  se_components :: "component list"
  se_flush_left :: rat
  se_flush :: "bool res option"

definition stop_all :: "stop_env \<Rightarrow> mw_state \<Rightarrow> ((component \<times> close_outcome) list \<times> unit res) \<times> mw_state" where
  "stop_all se st =
     (case await_metrics_task (se_task se) of
        Inl e \<Rightarrow> (([], Inl e), st\<lparr>mw_ready := False\<rparr>)
      | Inr _ \<Rightarrow>
          (case teardown_state st (se_drain_left se) (se_left_at se) (se_outcome se) (se_components se) of
             (_, (os, Inl e), st1) \<Rightarrow> ((os, Inl e), st1)
           | (_, (os, Inr _), st1) \<Rightarrow> ((os, flush_step (se_flush_left se) (se_flush se)), st1)))"

text \<open>
  If the recovery task was alive, nothing is cancelled and the flush fails in an expected way, then
  the stop handles every component in its order and returns. Readiness is gone in any case.
\<close>

lemma stop_all_complete:
  assumes "se_task se \<in> {None, Some CancelledError}" "\<And>c. se_outcome se c \<noteq> Inl CancelledError"
    and "\<And>e. se_flush se = Some (Inl e) \<Longrightarrow> flush_error e"
  shows "\<exists>os. fst (stop_all se st) = (os, Inr ()) \<and> map fst os = se_components se"
proof -
  obtain os where "close_all (se_left_at se) (se_outcome se) (se_components se) = (os, Inr ())" "map fst os = se_components se"
    using close_all_total [of "se_outcome se" "se_left_at se" "se_components se"] assms(2) by blast
  moreover have "flush_step (se_flush_left se) (se_flush se) = Inr ()"
    using assms(3) by (auto simp: flush_step_def flush_tracing_def split: option.split sum.split)
  ultimately show ?thesis using assms(1)
    by (auto simp: stop_all_def await_metrics_task_def teardown_state_def Let_def)
qed

lemma stop_all_not_ready: "\<not> mw_ready (snd (stop_all se st))"
  by (auto simp: stop_all_def teardown_state_def Let_def split: sum.split prod.split)

text \<open>
  A recovery task that died of any other exception makes the stop raise it before a single
  component is closed, although errors of the stop are documented as logged only.
\<close>

lemma dead_task_skips_stop:
  assumes "snd (snd (refresh_loop rs c calls)) = e" "e \<noteq> CancelledError" "se_task se = Some e"
  shows "fst (stop_all se st) = ([], Inl e)"
  using assms by (simp add: stop_all_def await_metrics_task_def)

text \<open>Such a round: an exception of the client that is not among the expected ones.\<close>

lemma unexpected_error_kills_task:
  assumes "re_ping r = Inl e" "\<not> refresh_error e"
  shows "snd (snd (refresh_loop (r # rs) (True, q) calls)) = e"
  using assms by (simp add: refresh_round_def)

section \<open>\<open>lifespan\<close>\<close>

text \<open>
  The start, the serving and the stop, which runs however the serving ends; an exception of
  the stop replaces that of the serving. A failing start is not followed by a stop.
\<close>

definition lifespan ::
  "verify_env \<Rightarrow> settings \<Rightarrow> boot_env \<Rightarrow> (app_state \<Rightarrow> unit res) \<Rightarrow> stop_env \<Rightarrow> mw_state \<Rightarrow>
   unit res \<times> (component \<times> close_outcome) list option" where
  "lifespan ve s bo serve se st =
     (case start_app ve s bo of
        Inl e \<Rightarrow> (Inl e, None)
      | Inr app \<Rightarrow>
          (let r = serve app; (os, stopped) = fst (stop_all se st)
           in (case stopped of Inl e \<Rightarrow> Inl e | Inr _ \<Rightarrow> r, Some os)))"

lemma served_then_stopped:
  assumes "lifespan ve s bo serve se st = (r, Some os)"
  shows "\<exists>app. start_app ve s bo = Inr app \<and> as_ready app"
proof -
  obtain app where "start_app ve s bo = Inr app" using assms by (auto simp: lifespan_def split: sum.splits)
  moreover from this have "as_ready app"
    by (cases "bo_queue bo") (auto simp: start_app_def bind_res_Inr_iff split: if_splits)
  ultimately show ?thesis by blast
qed

section \<open>Settings of the queue and of the network\<close>

text \<open>\<open>create_job_queue\<close>: what is set on the parsed address; the pool itself is the library's.\<close>

record queue_settings =
  qs_url :: string
  qs_conn_timeout :: int
  qs_max_connections :: int
  qs_retry_on_timeout :: bool

definition queue_settings_of :: "settings \<Rightarrow> queue_settings" where
  "queue_settings_of s =
     \<lparr>qs_url = redis_url s, qs_conn_timeout = max 1 \<lfloor>redis_connect_timeout_seconds s\<rfloor>,
      qs_max_connections = redis_max_connections s, qs_retry_on_timeout = True\<rparr>"

definition create_job_queue :: "(queue_settings \<Rightarrow> unit res) \<Rightarrow> settings \<Rightarrow> unit res" where
  "create_job_queue create_pool s = create_pool (queue_settings_of s)"

text \<open>The queue never gets a zero timeout, however short the configured one is.\<close>

lemma queue_timeout_positive: "1 \<le> qs_conn_timeout (queue_settings_of s)"
  by (simp add: queue_settings_of_def)

definition allow_list :: "string list \<Rightarrow> deployment \<Rightarrow> string list" where
  "allow_list configured env = (if configured \<noteq> [] then configured else if env = Dev then [''*''] else [])"

definition allowed_origins :: "settings \<Rightarrow> string list" where
  "allowed_origins s = allow_list (cors_origin_list s) (deploy_env s)"

definition allowed_hosts :: "settings \<Rightarrow> string list" where
  "allowed_hosts s = allow_list (trusted_host_list s) (deploy_env s)"

text \<open>
  With a verified production configuration no origin is a wildcard and the hosts are the
  configured ones, of which there is at least one.
\<close>

lemma production_network:
  assumes "verify ve s = Inr ()" "deploy_env s = Prod"
  shows "''*'' \<notin> set (allowed_origins s)" "allowed_hosts s = trusted_host_list s" "allowed_hosts s \<noteq> []"
proof -
  have "trusted_host_list s \<noteq> []" "''*'' \<notin> set (cors_origin_list s)"
    using assms unfolding verify_def Let_def
    by (auto simp: bind_res_Inr_iff raise_first_ok_iff simp del: raise_first.simps)
  then show "''*'' \<notin> set (allowed_origins s)" "allowed_hosts s = trusted_host_list s" "allowed_hosts s \<noteq> []"
    using assms(2) by (auto simp: allowed_origins_def allowed_hosts_def allow_list_def)
qed

section \<open>The state in a handler, and the statistics\<close>

text \<open>\<open>get_state\<close>: the attribute may be missing or may not be a \<open>State\<close>.\<close>

datatype 's state_attribute = No_attribute | Other_object | State_object 's

definition get_state :: "'s state_attribute \<Rightarrow> 's res" where
  "get_state a = (case a of No_attribute \<Rightarrow> Inl AttributeError | Other_object \<Rightarrow> Inl RuntimeError | State_object st \<Rightarrow> Inr st)"

text \<open>What the page of \<open>GET /v1/stats\<close> reads of the state; absent parts are null.\<close>

record stats_state =
  ss_ready :: bool
  ss_replacement :: "string option"
  ss_detector :: "string option"
  ss_regex_detector :: "string option"
  ss_audit :: "string option"
  ss_store :: bool
  ss_client :: bool
  ss_pipeline :: "(string \<times> string \<times> breaker) option"

definition json_opt :: "string option \<Rightarrow> json" where
  "json_opt v = (case v of Some x \<Rightarrow> JStr x | None \<Rightarrow> JNull)"

fun circuit_name :: "circuit \<Rightarrow> string" where
  "circuit_name Breaker.Closed = ''closed''"
| "circuit_name Open = ''open''"
| "circuit_name Half_open = ''half_open''"

definition breaker_json :: "breaker \<Rightarrow> json" where
  "breaker_json b =
     (let (state, failures, opened, probe, calls, total) = report b
      in JDict [(JStr ''state'', JStr (circuit_name state)), (JStr ''consecutive_failures'', JInt failures),
           (JStr ''opened_at'', case opened of Some t \<Rightarrow> JFloat t | None \<Rightarrow> JNull), (JStr ''probes_in_flight'', JBool probe),
           (JStr ''total_calls'', JInt calls), (JStr ''total_failures'', JInt total)])"

definition stats_page :: "stats_state \<Rightarrow> (json \<times> json) list \<times> metric_call list" where
  "stats_page st =
     ([(JStr ''ready'', JBool (ss_ready st)), (JStr ''redactor'', json_opt (ss_replacement st)),
       (JStr ''detector'', json_opt (ss_detector st)), (JStr ''regex_detector'', json_opt (ss_regex_detector st)),
       (JStr ''audit_backend'', json_opt (ss_audit st)), (JStr ''redis_enabled'', JBool (ss_store st)),
       (JStr ''redis_connected'', JBool (ss_store st \<and> ss_client st))]
      @ (case ss_pipeline st of
           None \<Rightarrow> []
         | Some (rname, mname, b) \<Rightarrow>
             let (r, m, _) = pipeline_stats rname mname b
             in [(JStr ''pipeline'', JDict [(JStr ''regex_detector'', JStr r), (JStr ''model_detector'', JStr m),
                   (JStr ''model_breaker'', breaker_json b)])]),
      [Inc REQUESTS [(''endpoint'', ''GET /v1/stats''), (''method'', ''GET''), (''status'', ''200'')]])"

text \<open>
  The page says connected for every store with a client, which includes one whose ping
  failed at the start.
\<close>

lemma stats_connected_after_failed_ping:
  assumes "bo_ping bo = Inl OSError" "build_state s bo = Inr app" "ss_store st" "ss_client st = as_client app"
  shows "(JStr ''redis_connected'', JBool True) \<in> set (fst (stats_page st))"
  using failed_ping_keeps_client [OF assms(1,2)] assms(3,4) by (simp add: stats_page_def)

text \<open>\<open>GET /metrics\<close>: the text and the media type are the library's.\<close>

definition metrics_endpoint :: "string \<Rightarrow> string \<Rightarrow> (nat \<times> string \<times> string) \<times> metric_call list" where
  "metrics_endpoint rendered media_type =
     ((200, media_type, rendered),
      [Inc REQUESTS [(''endpoint'', ''GET /metrics''), (''method'', ''GET''), (''status'', ''200'')]])"

lemma page_calls_registered: "list_all call_ok (snd (stats_page st))" "list_all call_ok (snd (metrics_endpoint r m))"
  by (simp_all add: stats_page_def metrics_endpoint_def REGISTRY_def metric_defs)

end
