(* ===== verification/LoadBench.thy ===== *)
theory LoadBench
  imports StreamApi Snapshot RScoreReport
begin

text \<open>
  \<open>scripts/load_bench.py\<close>: the payloads, the reading of a streamed answer, the polling of a
  job, the run of the requests with its counts, the percentile and the decision of the
  script. HTTP, the clock and the measurements of the process are arguments. The lemmas
  show that the script takes a stream for complete exactly when the service has recorded
  it, that the counts do not depend on the order in which requests finish, and when the
  script fails.
\<close>

section \<open>Streams\<close>

text \<open>
  \<open>stream_completed\<close> over the lines of the answer; \<open>loads\<close> is \<open>json.loads\<close>, whose only
  error is a \<open>JSONDecodeError\<close>, so every failure skips the line.
\<close>

definition DONE_LINE :: string where
  "DONE_LINE = ''data: [DONE]''"

fun completed_lines :: "(string \<Rightarrow> json res) \<Rightarrow> string list \<Rightarrow> bool" where
  "completed_lines loads [] \<longleftrightarrow> False"
| "completed_lines loads (line # ls) \<longleftrightarrow>
     (if py_strip line = DONE_LINE then True
      else if take 6 line \<noteq> ''data: '' then completed_lines loads ls
      else
        (case loads (drop 6 line) of
           Inr (JDict d) \<Rightarrow> if map_of d (JStr ''error'') \<noteq> None then False else completed_lines loads ls
         | _ \<Rightarrow> completed_lines loads ls))"

definition stream_completed :: "(string \<Rightarrow> json res) \<Rightarrow> string \<Rightarrow> bool" where
  "stream_completed loads body = completed_lines loads (split_lines [] body)"

text \<open>
  What the script relies on of \<open>json.dumps\<close>: the payload of an event is one line that starts
  with a brace, and \<open>loads\<close> reads it back.
\<close>

definition dumps_ok :: "((json \<times> json) list \<Rightarrow> string) \<Rightarrow> (string \<Rightarrow> json res) \<Rightarrow> stream_event \<Rightarrow> bool" where
  "dumps_ok dumps loads ev =
     (case event_payload ev of
        None \<Rightarrow> True
      | Some d \<Rightarrow> take 1 (dumps d) = [CHR 0x7B] \<and> list_all (\<lambda>c. \<not> line_break c) (dumps d) \<and> loads (dumps d) = Inr (JDict d))"

lemma split_sse:
  assumes "dumps_ok dumps loads ev"
  shows "split_lines [] (sse dumps ev @ rest) =
    (''data: '' @ (case event_payload ev of None \<Rightarrow> ''[DONE]'' | Some p \<Rightarrow> dumps p)) # [] # split_lines [] rest"
proof -
  let ?x = "''data: '' @ (case event_payload ev of None \<Rightarrow> ''[DONE]'' | Some p \<Rightarrow> dumps p)"
  have "list_all (\<lambda>c. \<not> line_break c) ?x"
    using assms by (auto simp: dumps_ok_def line_break_def split: option.splits)
  from split_lines_clean [OF this, of "[]" "newline # rest"] split_lines_clean [of "[]" "[]" rest]
  show ?thesis by (simp add: sse_def)
qed

lemma strip_data_brace:
  assumes "take 1 x = [CHR 0x7B]"
  shows "py_strip (''data: '' @ x) \<noteq> DONE_LINE"
proof
  assume e: "py_strip (''data: '' @ x) = DONE_LINE"
  obtain y where x: "x = CHR 0x7B # y" using assms by (cases x) simp_all
  have "dropWhile is_space (''data: '' @ x) = ''data: '' @ x" by (simp add: is_space_def)
  then have "rev (dropWhile is_space (rev (''data: '' @ x))) = DONE_LINE" using e by (simp add: py_strip_def)
  moreover have "\<exists>zs. ''data: '' @ x = rev (dropWhile is_space (rev (''data: '' @ x))) @ zs"
    using takeWhile_dropWhile_id [of is_space "rev (''data: '' @ x)"] by (metis rev_append rev_rev_ident)
  ultimately obtain zs where "''data: '' @ x = DONE_LINE @ zs" by metis
  then show False by (simp add: x DONE_LINE_def)
qed

lemma completed_payload:
  assumes "dumps_ok dumps loads ev" "event_payload ev = Some p"
  shows "completed_lines loads (split_lines [] (sse dumps ev @ rest)) =
    (map_of p (JStr ''error'') = None \<and> completed_lines loads (split_lines [] rest))"
proof -
  have "take 1 (dumps p) = [CHR 0x7B]" "loads (dumps p) = Inr (JDict p)" using assms by (simp_all add: dumps_ok_def)
  moreover have "py_strip [] \<noteq> DONE_LINE" by (simp add: py_strip_def DONE_LINE_def)
  ultimately show ?thesis using assms(2) strip_data_brace [of "dumps p"] by (simp add: split_sse [OF assms(1)])
qed

lemma done_line_read: "completed_lines loads (split_lines [] (sse dumps Done_event @ rest))"
proof -
  have "dumps_ok dumps loads Done_event" by (simp add: dumps_ok_def event_payload_def)
  from split_sse [OF this] show ?thesis by (simp add: event_payload_def DONE_LINE_def py_strip_def is_space_def)
qed

lemma completed_chunks:
  assumes "list_all (\<lambda>r. dumps_ok dumps loads (Chunk_event r)) rs"
  shows "completed_lines loads (split_lines [] (concat (map (sse dumps) (map Chunk_event rs)) @ rest)) =
    completed_lines loads (split_lines [] rest)"
  using assms
proof (induction rs)
  case (Cons r rs)
  have p: "event_payload (Chunk_event r) = Some [(JStr ''text'', JStr (rd_text r)), (JStr ''spans'', JList (map span_json (rd_spans r))),
      (JStr ''relex_map'', JDict []), (JStr ''used_pipeline'', JBool False), (JStr ''used_fallback'', JBool False),
      (JStr ''digest'', JNull)]"
    by (simp add: event_payload_def)
  from completed_payload [OF _ p] Cons show ?case by simp
qed simp

lemma not_done_not_completed:
  assumes "list_all (dumps_ok dumps loads) evs" "Done_event \<notin> set evs"
  shows "\<not> completed_lines loads (split_lines [] (concat (map (sse dumps) evs)))"
  using assms
proof (induction evs)
  case (Cons ev evs)
  then have "event_payload ev \<noteq> None" by (cases ev) (auto simp: event_payload_def split: option.split)
  then obtain p where "event_payload ev = Some p" by blast
  from completed_payload [OF _ this] Cons show ?case by simp
qed simp

text \<open>
  The client takes the answer for complete exactly when the service has marked it so, and
  then the whole text has been redacted and the record of it was accepted.
\<close>

lemma client_sees_completion:
  assumes "list_all (dumps_ok dumps loads) evs"
    and ev: "event_source env redact body policy api_key remaining s = ((evs, m, r), s')"
  shows "stream_completed loads (concat (map (sse dumps) evs)) \<longleftrightarrow> Done_event \<in> set evs"
proof (cases "Done_event \<in> set evs")
  case True
  from stream_done [OF ev True] obtain rs where "evs = map Chunk_event rs @ [Done_event]" by blast
  then show ?thesis
    using True completed_chunks [of dumps loads rs "sse dumps Done_event"] done_line_read [of loads dumps "[]"] assms(1)
    by (simp add: stream_completed_def list_all_iff)
next
  case False
  then show ?thesis using not_done_not_completed [OF assms(1)] by (simp add: stream_completed_def)
qed

text \<open>
  From the client back to the audit log: whatever the events of a stream were, a client
  that reads the answer with \<open>stream_completed\<close> takes it for complete only if every chunk of
  the whole text was redacted, the texts it got are those of the chunks in order, and the
  audit backend has accepted the record of all spans.
\<close>

theorem completed_stream_is_audited:
  assumes "list_all (dumps_ok dumps loads) evs"
    and "event_source env redact body policy api_key remaining s = ((evs, m, r), s')"
    and "stream_completed loads (concat (map (sse dumps) evs))"
  shows "\<exists>pieces rs s1. concat pieces = st_text body
    \<and> list_all2 (\<lambda>p x. \<exists>a b. redact p policy (st_types body) a = (Inr x, b)) pieces rs
    \<and> concat (map (sse dumps) evs) = concat (map (\<lambda>x. sse dumps (Chunk_event x)) rs) @ sse dumps Done_event
    \<and> write_audit env (stream_audit_event env body policy api_key (concat (map rd_spans rs))) s1 = (Inr (), s')"
proof -
  have "Done_event \<in> set evs" using client_sees_completion [OF assms(1,2)] assms(3) by blast
  from stream_done [OF assms(2) this] obtain pieces rs s1 where
    p: "concat pieces = st_text body" "list_all2 (\<lambda>p x. \<exists>a b. redact p policy (st_types body) a = (Inr x, b)) pieces rs"
    and e: "evs = map Chunk_event rs @ [Done_event]"
    and w: "write_audit env (stream_audit_event env body policy api_key (concat (map rd_spans rs))) s1 = (Inr (), s')" by blast
  have "concat (map (sse dumps) evs) = concat (map (\<lambda>x. sse dumps (Chunk_event x)) rs) @ sse dumps Done_event"
    by (simp add: e comp_def)
  with p w show ?thesis by blast
qed

definition part :: "string \<Rightarrow> redaction_result" where
  "part t = \<lparr>rd_text = t, rd_spans = [], rd_relex_map = []\<rparr>"

definition demo_dumps :: "(json \<times> json) list \<Rightarrow> string" where
  "demo_dumps d = (if map_of d (JStr ''text'') = Some (JStr ''An'') then [CHR 0x7B, CHR ''1''] else [CHR 0x7B, CHR ''2''])"

definition demo_loads :: "string \<Rightarrow> json res" where
  "demo_loads l =
     (case event_payload (Chunk_event (part (if l = [CHR 0x7B, CHR ''1''] then ''An'' else ''n''))) of
        Some d \<Rightarrow> Inr (JDict d) | None \<Rightarrow> Inl ValueError)"

theorem completed_stream_is_audited_witness:
  "stream_completed demo_loads (concat (map (sse demo_dumps) [Chunk_event (part ''An''), Chunk_event (part ''n''), Done_event]))
   \<and> (\<exists>pieces (rs :: redaction_result list). concat pieces = ''Ann'' \<and> list_all2 (\<lambda>p x. rd_text x = p) pieces rs)"
proof -
  let ?evs = "[Chunk_event (part ''An''), Chunk_event (part ''n''), Done_event]"
  have ev: "event_source (demo_env (Some silent_audit)) (\<lambda>t p ts s. (Inr (part t), s)) demo_stream None ''k1'' (\<lambda>i. 1) [] =
    ((?evs, Some 200, Inr ()), [])"
    using demo_stream_events by (simp add: part_def)
  have d: "list_all (dumps_ok demo_dumps demo_loads) ?evs"
    by (simp add: dumps_ok_def event_payload_def demo_dumps_def demo_loads_def part_def line_break_def)
  have c: "stream_completed demo_loads (concat (map (sse demo_dumps) ?evs))"
    using client_sees_completion [OF d ev] by simp
  from completed_stream_is_audited [OF d ev c] obtain pieces rs where p: "concat pieces = st_text demo_stream"
    and r: "list_all2 (\<lambda>p x. part p = x) pieces rs" by auto
  have "list_all2 (\<lambda>p x. rd_text x = p) pieces rs" using r by (rule list_all2_mono) (auto simp: part_def)
  moreover have "concat pieces = ''Ann''" using p by (simp add: demo_stream_def)
  ultimately show ?thesis using c by blast
qed

section \<open>Requests\<close>

text \<open>
  The outcome of an HTTP call: a transport error of the client library, another exception,
  or a reply with its status, its text and the outcome of reading it as JSON.
\<close>

record reply =
  rp_status :: nat
  rp_text :: string
  rp_json :: "json res"

datatype 'a call_result = Transport | Raised exn | Value 'a

datatype bench_mode = Redact_mode | Model_mode | Batch_mode | Stream_mode | Cache_hot | Cache_cold | Job_mode

definition request_payload :: "bench_mode \<Rightarrow> string \<Rightarrow> (json \<times> json) list" where
  "request_payload mode t =
     (case mode of
        Batch_mode \<Rightarrow> [(JStr ''items'', JList [JDict [(JStr ''text'', JStr t)], JDict [(JStr ''text'', JStr t)]])]
      | Stream_mode \<Rightarrow> [(JStr ''text'', JStr t), (JStr ''chunk_chars'', JInt 100)]
      | _ \<Rightarrow> [(JStr ''text'', JStr t)])"

definition benchmark_text :: "bench_mode \<Rightarrow> string \<Rightarrow> nat \<Rightarrow> string" where
  "benchmark_text mode t n = (if mode = Cache_cold then t @ '' request-'' @ dec n else t)"

definition source_text :: "string list option \<Rightarrow> string \<Rightarrow> nat \<Rightarrow> string" where
  "source_text texts t n = (case texts of Some (x # xs) \<Rightarrow> (x # xs) ! (n mod length (x # xs)) | _ \<Rightarrow> t)"

text \<open>In the cold mode every request has a text of its own, so the cache never answers; in the others the texts repeat.\<close>

lemma dec_inj: "dec m = dec n \<longleftrightarrow> m = n"
  by (metis undec_dec)

lemma dec_not_word: "dec n \<noteq> ''done''"
proof
  assume "dec n = ''done''"
  with dec_digits [of n] show False by (simp add: is_digit_def)
qed

lemma cold_texts_distinct: "benchmark_text Cache_cold t n = benchmark_text Cache_cold t m \<Longrightarrow> n = m"
  by (simp add: benchmark_text_def dec_inj)

text \<open>
  The polls of a job, each with the reading of the clock before it. A status that cannot be
  hashed raises in the membership test.
\<close>

fun poll_job :: "rat \<Rightarrow> (rat \<times> reply call_result) list \<Rightarrow> string call_result" where
  "poll_job till [] = Value ''job_timeout''"
| "poll_job till ((now, r) # polls) =
     (if now \<ge> till then Value ''job_timeout''
      else
        (case r of
           Transport \<Rightarrow> Transport
         | Raised e \<Rightarrow> Raised e
         | Value rp \<Rightarrow>
             if rp_status rp \<noteq> 200 then Value (dec (rp_status rp))
             else
               (case rp_json rp of
                  Inl e \<Rightarrow> Raised e
                | Inr (JDict d) \<Rightarrow>
                    (case jget d ''status'' of
                       JStr status \<Rightarrow>
                         if List.member [''done'', ''failed'', ''cancelled''] status then Value status else poll_job till polls
                     | JList _ \<Rightarrow> Raised TypeError
                     | JDict _ \<Rightarrow> Raised TypeError
                     | _ \<Rightarrow> poll_job till polls)
                | Inr _ \<Rightarrow> Raised AttributeError)))"

definition run_job_once :: "reply call_result \<Rightarrow> rat \<Rightarrow> (rat \<times> reply call_result) list \<Rightarrow> string call_result" where
  "run_job_once post till polls =
     (case post of
        Transport \<Rightarrow> Transport
      | Raised e \<Rightarrow> Raised e
      | Value rp \<Rightarrow>
          if rp_status rp \<noteq> 202 then Value (dec (rp_status rp))
          else
            (case rp_json rp of
               Inl e \<Rightarrow> Raised e
             | Inr (JDict d) \<Rightarrow>
                 (case jget d ''id'' of JStr (c # cs) \<Rightarrow> poll_job till polls | _ \<Rightarrow> Value ''invalid_job_response'')
             | Inr _ \<Rightarrow> Raised AttributeError))"

text \<open>The status of one request; a transport error is counted, every other exception ends the run.\<close>

definition plain_status :: "(string \<Rightarrow> json res) \<Rightarrow> bench_mode \<Rightarrow> reply \<Rightarrow> string" where
  "plain_status loads mode rp =
     (if mode = Stream_mode \<and> rp_status rp = 200 \<and> \<not> stream_completed loads (rp_text rp) then ''stream_error''
      else dec (rp_status rp))"

definition request_status ::
  "(string \<Rightarrow> json res) \<Rightarrow> bench_mode \<Rightarrow> rat \<Rightarrow> reply call_result \<Rightarrow> (rat \<times> reply call_result) list \<Rightarrow> string res" where
  "request_status loads mode till post polls =
     (case (if mode = Job_mode then run_job_once post till polls
            else case post of Value rp \<Rightarrow> Value (plain_status loads mode rp) | Transport \<Rightarrow> Transport | Raised e \<Rightarrow> Raised e) of
        Transport \<Rightarrow> Inr ''transport_error''
      | Raised e \<Rightarrow> Inl e
      | Value status \<Rightarrow> Inr status)"

text \<open>A job is counted as done only when a poll within the time limit has said so.\<close>

lemma polled_done:
  "poll_job till polls = Value ''done'' \<Longrightarrow>
   \<exists>now rp d. (now, Value rp) \<in> set polls \<and> now < till \<and> rp_status rp = 200 \<and> rp_json rp = Inr (JDict d)
     \<and> jget d ''status'' = JStr ''done''"
proof (induction polls)
  case (Cons p polls)
  obtain now r where p: "p = (now, r)" by (cases p)
  note dn = Cons.prems [unfolded p]
  show ?case
  proof (cases "poll_job till polls = Value ''done''")
    case True
    from Cons.IH [OF this] show ?thesis by auto
  next
    case False
    have now: "now < till" using dn by (auto split: if_splits)
    with dn obtain rp where r: "r = Value rp" by (cases r) auto
    with dn now have st: "rp_status rp = 200" using dec_not_word by (auto split: if_splits)
    from dn now r st obtain d where d: "rp_json rp = Inr (JDict d)" by (auto split: sum.splits json.splits)
    from dn now r st d False have "jget d ''status'' = JStr ''done''" by (auto split: if_splits json.splits)
    with now r st d show ?thesis by (auto simp: p)
  qed
qed simp

section \<open>The run\<close>

type_synonym status_counts = "(string \<times> nat) list"

definition count_status :: "string \<Rightarrow> status_counts \<Rightarrow> status_counts" where
  "count_status status counts = AList.update status (dict_get counts status 0 + 1) counts"

text \<open>
  The requests in the order in which they finish, each with its latency; the first
  exception that is not a transport error is raised by \<open>gather\<close>.
\<close>

fun collect :: "(nat \<Rightarrow> string res \<times> rat) \<Rightarrow> nat list \<Rightarrow> rat list \<times> status_counts \<Rightarrow> (rat list \<times> status_counts) res" where
  "collect request [] acc = Inr acc"
| "collect request (n # ns) (latencies, statuses) =
     (case request n of
        (Inl e, _) \<Rightarrow> Inl e
      | (Inr status, ms) \<Rightarrow> collect request ns (latencies @ [ms], count_status status statuses))"

text \<open>
  Which requests are issued: a number of them, or waves of \<open>concurrency\<close> while the clock is
  before the deadline; \<open>clock\<close> are the readings before the waves.
\<close>

definition issued :: "nat option \<Rightarrow> nat \<Rightarrow> rat \<Rightarrow> rat list \<Rightarrow> nat list" where
  "issued wanted concurrency till clock =
     (case wanted of
        Some n \<Rightarrow> [0..<n]
      | None \<Rightarrow> [0..<length (takeWhile (\<lambda>now. now < till) clock) * concurrency])"

lemma dict_count_status [simp]:
  "dict_get (count_status status counts) s 0 = dict_get counts s 0 + (if s = status then 1 else 0)"
  by (auto simp: count_status_def dict_get_def update_conv')

lemma collect_counts:
  "collect request ns (latencies, counts) = Inr (ls, cs) \<Longrightarrow>
   length ls = length latencies + length ns
   \<and> dict_get cs s 0 = dict_get counts s 0 + length (filter (\<lambda>n. fst (request n) = Inr s) ns)"
  by (induction request ns "(latencies, counts)" arbitrary: latencies counts rule: collect.induct)
    (auto split: prod.splits sum.splits)

text \<open>
  The counts are those of the issued requests, in whatever order they finish, and a run
  that returns has measured every request once.
\<close>

lemma run_counts_exact:
  assumes "mset order = mset (issued wanted concurrency till clock)" "collect request order ([], []) = Inr (ls, cs)"
  shows "length ls = length (issued wanted concurrency till clock)
    \<and> dict_get cs s 0 = length (filter (\<lambda>n. fst (request n) = Inr s) (issued wanted concurrency till clock))"
proof -
  have "length order = length (issued wanted concurrency till clock)" using assms(1) by (rule mset_eq_length)
  moreover have "length (filter P order) = length (filter P (issued wanted concurrency till clock))" for P
    by (metis assms(1) mset_filter size_mset)
  ultimately show ?thesis using collect_counts [OF assms(2), of s] by (simp add: dict_get_def)
qed

section \<open>The percentile\<close>

definition load_percentile :: "rat list \<Rightarrow> rat \<Rightarrow> rat" where
  "load_percentile samples fraction =
     (if samples = [] then 0
      else
        (let ordered = sort samples;
             position = (of_nat (length ordered) - 1) * fraction;
             lower = nat \<lfloor>position\<rfloor>;
             upper = min (lower + 1) (length ordered - 1)
         in ordered ! lower + (ordered ! upper - ordered ! lower) * (position - of_nat lower)))"

text \<open>It agrees with the percentile of the scores, which takes per cent and the sorted list.\<close>

lemma load_percentile_agrees:
  assumes "0 \<le> f" "f \<le> 1"
  shows "percentile (sort xs) (100 * f) = Inr (load_percentile xs f)"
proof (cases "1 < length xs")
  case False
  then consider "xs = []" | x where "xs = [x]" by (cases xs) (auto simp: not_less)
  then show ?thesis by cases (simp_all add: load_percentile_def percentile_def)
next
  case True
  let ?n = "of_nat (length xs) - 1 :: rat" and ?s = "sort xs"
  let ?r = "?n * f"
  have "percentile ?s (100 * f) = Inr (interpolate ?s ((100 * f / 100) * (of_nat (length ?s) - 1)))"
    using percentile_interpolate(1) [of ?s "100 * f"] True assms by simp
  also have "(100 * f / 100) * (of_nat (length ?s) - 1) = ?r" by (simp add: mult.commute)
  also have "interpolate ?s ?r = load_percentile xs f"
  proof -
    have pos: "0 \<le> ?r" using True assms by (intro mult_nonneg_nonneg) simp_all
    have le: "?r \<le> ?n" using True assms by (intro mult_left_le) simp_all
    have up: "\<lceil>?r\<rceil> \<le> int (length xs) - 1" by (rule ceiling_le) (use le in simp)
    show ?thesis
    proof (cases "\<lceil>?r\<rceil> = \<lfloor>?r\<rfloor>")
      case True
      then have "?r = of_int \<lfloor>?r\<rfloor>" by (metis antisym le_of_int_ceiling of_int_floor_le)
      moreover have "0 \<le> \<lfloor>?r\<rfloor>" using pos by simp
      ultimately have "of_nat (nat \<lfloor>?r\<rfloor>) = ?r" by simp
      then show ?thesis using assms \<open>1 < length xs\<close> by (auto simp: interpolate_def load_percentile_def Let_def mult.commute)
    next
      case False
      then have c: "\<lceil>?r\<rceil> = \<lfloor>?r\<rfloor> + 1" by (simp add: ceiling_altdef split: if_splits)
      moreover have "int (nat \<lfloor>?r\<rfloor>) = \<lfloor>?r\<rfloor>" using pos by simp
      ultimately have "nat \<lceil>?r\<rceil> = nat \<lfloor>?r\<rfloor> + 1" "nat \<lfloor>?r\<rfloor> + 1 \<le> length xs - 1" using up by linarith+
      then show ?thesis using \<open>1 < length xs\<close> by (auto simp: interpolate_def load_percentile_def Let_def mult.commute min_def)
    qed
  qed
  finally show ?thesis .
qed

lemma load_percentile_within:
  assumes "0 \<le> f" "f \<le> 1" "xs \<noteq> []"
  shows "Min (set xs) \<le> load_percentile xs f \<and> load_percentile xs f \<le> Max (set xs)"
proof -
  have ne: "sort xs \<noteq> []" by (metis assms(3) set_empty set_sort)
  have "\<exists>v w. percentile (sort xs) (100 * f) = Inr v \<and> percentile (sort xs) 100 = Inr w \<and> v \<le> w
      \<and> hd (sort xs) \<le> v \<and> w \<le> last (sort xs)"
    by (rule percentile_mono) (use assms(1,2) ne in simp_all)
  then have "hd (sort xs) \<le> load_percentile xs f \<and> load_percentile xs f \<le> last (sort xs)"
    using load_percentile_agrees [OF assms(1,2), of xs] by auto
  moreover have "hd (sort xs) \<in> set xs" "last (sort xs) \<in> set xs" using hd_in_set [OF ne] last_in_set [OF ne] by simp_all
  then have "Min (set xs) \<le> hd (sort xs)" "last (sort xs) \<le> Max (set xs)" by simp_all
  ultimately show ?thesis by linarith
qed

section \<open>The measurements\<close>

text \<open>The aggregate of a run, without the figures of the process; \<open>rnd\<close> rounds to a number of digits.\<close>

record load_result =
  lo_requests :: nat
  lo_concurrency :: nat
  lo_elapsed :: rat
  lo_throughput :: rat
  lo_statuses :: status_counts
  lo_percentiles :: "rat list"
  lo_max :: rat
  lo_mean :: rat

definition FRACTIONS :: "rat list" where
  "FRACTIONS = [1 / 2, 9 / 10, 19 / 20, 99 / 100]"

definition load_result_of :: "(nat \<Rightarrow> rat \<Rightarrow> rat) \<Rightarrow> nat \<Rightarrow> rat \<Rightarrow> rat list \<times> status_counts \<Rightarrow> load_result" where
  "load_result_of rnd concurrency elapsed acc =
     (let (latencies, statuses) = acc; n = length latencies
      in \<lparr>lo_requests = n, lo_concurrency = concurrency, lo_elapsed = rnd 6 elapsed,
          lo_throughput = (if elapsed \<noteq> 0 then rnd 3 (of_nat n / elapsed) else 0), lo_statuses = statuses,
          lo_percentiles = map (\<lambda>f. rnd 3 (load_percentile latencies f)) FRACTIONS,
          lo_max = rnd 3 (if latencies = [] then 0 else Max (set latencies)),
          lo_mean = (if latencies \<noteq> [] then rnd 3 (mean latencies) else 0)\<rparr>)"

definition run_load ::
  "(nat \<Rightarrow> rat \<Rightarrow> rat) \<Rightarrow> (nat \<Rightarrow> string res \<times> rat) \<Rightarrow> nat \<Rightarrow> rat \<Rightarrow> nat list \<Rightarrow> load_result res" where
  "run_load rnd request concurrency elapsed order =
     map_res (load_result_of rnd concurrency elapsed) (collect request order ([], []))"

lemma load_percentile_mono:
  assumes "0 \<le> f" "f \<le> g" "g \<le> 1"
  shows "load_percentile xs f \<le> load_percentile xs g"
proof (cases "xs = []")
  case False
  then have ne: "sort xs \<noteq> []" by (metis set_empty set_sort)
  have "\<exists>v w. percentile (sort xs) (100 * f) = Inr v \<and> percentile (sort xs) (100 * g) = Inr w \<and> v \<le> w
      \<and> hd (sort xs) \<le> v \<and> w \<le> last (sort xs)"
    by (rule percentile_mono) (use assms ne in simp_all)
  then show ?thesis using load_percentile_agrees [of f xs] load_percentile_agrees [of g xs] assms by auto
qed (simp add: load_percentile_def)

text \<open>The reported percentiles grow and do not exceed the reported maximum, if the rounding is monotone.\<close>

lemma load_result_ordered:
  assumes "mono (rnd 3)" "latencies \<noteq> []"
  shows "sorted (lo_percentiles (load_result_of rnd k t (latencies, cs)) @ [lo_max (load_result_of rnd k t (latencies, cs))])"
proof -
  have "load_percentile latencies (1 / 2) \<le> load_percentile latencies (9 / 10)"
    "load_percentile latencies (9 / 10) \<le> load_percentile latencies (19 / 20)"
    "load_percentile latencies (19 / 20) \<le> load_percentile latencies (99 / 100)"
    by (rule load_percentile_mono; simp)+
  moreover have "load_percentile latencies (99 / 100) \<le> Max (set latencies)"
    using load_percentile_within [of "99 / 100" latencies] assms(2) by simp
  ultimately have "rnd 3 (load_percentile latencies (1 / 2)) \<le> rnd 3 (load_percentile latencies (9 / 10))"
    "rnd 3 (load_percentile latencies (9 / 10)) \<le> rnd 3 (load_percentile latencies (19 / 20))"
    "rnd 3 (load_percentile latencies (19 / 20)) \<le> rnd 3 (load_percentile latencies (99 / 100))"
    "rnd 3 (load_percentile latencies (99 / 100)) \<le> rnd 3 (Max (set latencies))"
    using monoD [OF assms(1)] by blast+
  then show ?thesis using assms(2) by (auto simp: load_result_of_def FRACTIONS_def Let_def)
qed

section \<open>Provenance and decision\<close>

text \<open>\<open>pinned_model_metadata\<close>: the first matching line of the manifest, if it exists.\<close>

fun find_digest :: "string \<Rightarrow> string \<Rightarrow> string list \<Rightarrow> string" where
  "find_digest name revision [] = []"
| "find_digest name revision (line # ls) =
     (let parts = split_space [] line
      in if length parts = 3 \<and> parts ! 1 = name \<and> parts ! 2 = revision then parts ! 0 else find_digest name revision ls)"

definition pinned_model_metadata :: "string \<Rightarrow> string \<Rightarrow> string option \<Rightarrow> string \<times> string \<times> string" where
  "pinned_model_metadata name revision manifest =
     (name, revision,
      case manifest of
        Some content \<Rightarrow> if name \<noteq> [] \<and> revision \<noteq> [] then find_digest name revision (split_lines [] content) else []
      | None \<Rightarrow> [])"

lemma find_recorded:
  assumes "distinct (map fst es)" "list_all entry_ok es" "((name, revision), d) \<in> set es"
  shows "find_digest name revision (map manifest_line es) = d"
  using assms by (induction es) (auto simp: split_manifest_line Let_def image_iff)

text \<open>What \<open>record_manifest\<close> has written is what the benchmark reports.\<close>

lemma recorded_digest_reported:
  assumes "record_manifest name revision d content = Inr text" "entry_ok ((name, revision), d)"
  shows "pinned_model_metadata name revision (Some text) = (name, revision, d)"
proof -
  from assms(1) obtain es where es: "read_manifest content = Inr es"
    and t: "text = concat (map (\<lambda>l. l @ [newline]) (MANIFEST_HEADER @ map manifest_line (sort (AList.update (name, revision) d es))))"
    by (auto simp: record_manifest_def map_res_Inr_iff)
  let ?es = "sort (AList.update (name, revision) d es)"
  have "manifest_ok (AList.update (name, revision) d es)" using read_manifest_ok [OF es] assms(2) by (rule manifest_ok_update)
  then have ok: "list_all entry_ok ?es" "distinct (map fst ?es)"
    by (simp_all add: manifest_ok_def list_all_iff) (metis distinct_map distinct_sort set_sort)
  have "map_of (AList.update (name, revision) d es) (name, revision) = Some d" by (simp add: update_conv')
  then have mem: "((name, revision), d) \<in> set ?es" using map_of_SomeD by fastforce
  have "list_all clean_line (MANIFEST_HEADER @ map manifest_line ?es)"
    using header_clean ok(1) manifest_line_clean(1) unfolding list_all_iff set_append set_map by blast
  then have lines: "split_lines [] text = MANIFEST_HEADER @ map manifest_line ?es"
    unfolding t by (rule split_lines_lines)
  have "find_digest name revision (MANIFEST_HEADER @ ls) = find_digest name revision ls" for ls
    by (simp add: MANIFEST_HEADER_def Let_def is_space_def)
  moreover have "name \<noteq> []" "revision \<noteq> []" using assms(2) by (auto simp: entry_ok_def token_ok_def)
  ultimately show ?thesis using find_recorded [OF ok(2,1) mem] by (simp add: pinned_model_metadata_def lines)
qed

text \<open>The arguments that \<open>parse_args\<close> accepts, and how \<open>main\<close> ends: \<open>None\<close> is success.\<close>

definition bench_args_ok :: "bool \<Rightarrow> int \<Rightarrow> int \<Rightarrow> rat \<Rightarrow> rat \<Rightarrow> bool" where
  "bench_args_ok corpus_missing requests concurrency duration poll_timeout \<longleftrightarrow>
     \<not> corpus_missing \<and> \<not> (requests < 1 \<or> concurrency < 1 \<or> duration < 0 \<or> poll_timeout \<le> 0)"

datatype bench_failure = Empty_corpus | Bad_status | Slow_p99

definition bench_exit ::
  "bench_mode \<Rightarrow> string list option \<Rightarrow> bool \<Rightarrow> rat option \<Rightarrow> status_counts \<Rightarrow> rat \<Rightarrow> bench_failure option" where
  "bench_exit mode texts fail_on_error max_p99 counts p99 =
     (let good = (if mode = Job_mode then ''done'' else ''200'')
      in if texts = Some [] then Some Empty_corpus
         else if fail_on_error \<and> list_ex (\<lambda>(status, _). status \<noteq> good) counts then Some Bad_status
         else (case max_p99 of Some limit \<Rightarrow> if p99 > limit then Some Slow_p99 else None | None \<Rightarrow> None))"

lemma collect_finished: "collect request ns acc = Inr out \<Longrightarrow> n \<in> set ns \<Longrightarrow> \<exists>s. fst (request n) = Inr s"
  by (induction request ns acc rule: collect.induct) (auto split: prod.splits sum.splits)

text \<open>
  A run that passes with \<open>fail_on_error\<close> has seen the good status on every request, in
  whatever order they finished.
\<close>

lemma passing_run_all_good:
  assumes run: "collect request order ([], []) = Inr (ls, cs)"
    and ok: "bench_exit mode texts True max_p99 cs p99 = None" and n: "n \<in> set order"
  shows "fst (request n) = Inr (if mode = Job_mode then ''done'' else ''200'')"
proof -
  obtain s where s: "fst (request n) = Inr s" using collect_finished [OF run n] by blast
  then have "0 < length (filter (\<lambda>k. fst (request k) = Inr s) order)" using n by (auto simp: filter_empty_conv)
  then have "dict_get cs s 0 \<noteq> 0" using collect_counts [OF run, of s] by simp
  then obtain k where "(s, k) \<in> set cs" by (auto simp: dict_get_def dest: map_of_SomeD split: option.splits)
  then show ?thesis using ok s by (auto simp: bench_exit_def list_ex_iff Let_def split: if_splits)
qed

text \<open>
  A run without a single request passes too: with a duration shorter than the first reading
  of the clock nothing is issued, and nothing is wrong.
\<close>

lemma empty_run_passes:
  assumes "till \<le> now" "texts \<noteq> Some []"
  shows "issued None concurrency till (now # clock) = []" "collect request [] ([], []) = Inr ([], [])"
    "bench_exit mode texts True None [] (load_percentile [] f) = None"
  using assms by (simp_all add: issued_def bench_exit_def)

end
