(* ===== verification/BenchRuns.thy ===== *)
theory BenchRuns
  imports RScoreReport Corpus Evaluation
begin

text \<open>
  \<open>scripts/run_bench.py\<close>, \<open>scripts/eval_detectors.py\<close> and \<open>scripts/bench.py\<close>: a detector on
  a labelled corpus, the report, and the latencies with the statistics of the standard
  library. Clocks, files and the parsing of the command line are arguments. The lemmas show
  that the report has exactly the annotated documents, that a detector that repeats the
  mandatory spans of a document scores 1 there, and where a quantile leaves the measured
  range.
\<close>

section \<open>A detector on a corpus\<close>

text \<open>The detectors by name; the aliases of \<open>eval_detectors.py\<close>. \<open>None\<close> is the exit with a message.\<close>

datatype bench_detector = Bench_regex | Bench_gliner | Bench_openmed

definition build_bench_detector :: "string \<Rightarrow> bench_detector option" where
  "build_bench_detector name =
     (if name = ''regex'' then Some Bench_regex else if name = ''gliner2'' then Some Bench_gliner else None)"

definition build_eval_detector :: "string \<Rightarrow> bench_detector option" where
  "build_eval_detector name =
     (if name = ''regex'' then Some Bench_regex
      else if List.member [''gliner2'', ''fastino''] name then Some Bench_gliner
      else if name = ''openmed'' then Some Bench_openmed else None)"

text \<open>Every detected span counts as mandatory.\<close>

definition mandatory_span :: "span \<Rightarrow> labelled_span" where
  "mandatory_span s = \<lparr>ls_start = s_start s, ls_end = s_end s, ls_cat = MANDATORY\<rparr>"

definition run_bench_detector :: "detect_fun \<Rightarrow> string \<Rightarrow> labelled_span list res" where
  "run_bench_detector detect t = map_res (map mandatory_span) (detect t (Some []))"

definition annotations_by_id :: "annotation list \<Rightarrow> (string \<times> annotation) list" where
  "annotations_by_id anns = foldl (\<lambda>d a. AList.update (an_doc_id a) a d) [] anns"

text \<open>The documents without an annotation are skipped.\<close>

fun collect_inputs :: "detect_fun \<Rightarrow> (string \<times> annotation) list \<Rightarrow> document list \<Rightarrow> corpus res" where
  "collect_inputs detect ann_by_id [] = Inr []"
| "collect_inputs detect ann_by_id (d # ds) =
     (case map_of ann_by_id (doc_id d) of
        None \<Rightarrow> collect_inputs detect ann_by_id ds
      | Some ann \<Rightarrow>
          bind_res (run_bench_detector detect (doc_text d)) (\<lambda>predictions.
            map_res ((#) (doc_id d, doc_text d, an_spans ann, predictions)) (collect_inputs detect ann_by_id ds)))"

definition doc_categories :: "document list \<Rightarrow> (string \<times> string) list" where
  "doc_categories ds = foldl (\<lambda>m d. AList.update (doc_id d) (cat_string (doc_category d)) m) [] ds"

definition serialise_document :: "r_document \<Rightarrow> json" where
  "serialise_document d =
     JDict [(JStr ''r_score'', JFloat (rdoc_score d)), (JStr ''n'', JFloat (rdoc_n d)), (JStr ''d'', JFloat (rdoc_d d)),
            (JStr ''skipped_contextual'', JInt (int (rdoc_skipped d))),
            (JStr ''n_mandatory'', JInt (int (length (rdoc_mandatory d)))),
            (JStr ''n_contextual'', JInt (int (length (rdoc_contextual d)))),
            (JStr ''n_fp'', JInt (int (length (rdoc_fps d))))]"

definition serialise_report :: "rscore_report \<Rightarrow> (json \<times> json) list res" where
  "serialise_report report =
     map_res (\<lambda>(p20, p50, m).
       [(JStr ''corpus_mean'', JFloat (corpus_mean report)),
        (JStr ''percentiles'', JDict [(JStr ''p20'', JFloat p20), (JStr ''p50'', JFloat p50), (JStr ''mean'', JFloat m)]),
        (JStr ''per_category'', JDict (map (\<lambda>(cat, mn, p, n).
           (JStr cat, JDict [(JStr ''mean'', JFloat mn), (JStr ''p50'', JFloat p), (JStr ''n'', JInt (int n))])) (per_category report))),
        (JStr ''per_document'', JDict (map (\<lambda>(i, d). (JStr i, serialise_document d)) (per_document report)))])
       (percentiles report)"

text \<open>\<open>main\<close> of \<open>run_bench.py\<close> after the files are read; \<open>limit\<close> is positive or absent.\<close>

definition run_bench ::
  "(string \<Rightarrow> json res) \<Rightarrow> (json \<Rightarrow> string) \<Rightarrow> (json \<Rightarrow> int res) \<Rightarrow> detect_fun \<Rightarrow> unit res \<Rightarrow> nat option \<Rightarrow>
   string \<Rightarrow> string \<Rightarrow> (json \<times> json) list res" where
  "run_bench loads to_str to_int detect warmup limit doc_file ann_file =
     bind_res (load_corpus loads to_str doc_file) (\<lambda>documents.
     bind_res (load_annotations loads to_str to_int (Some (map (\<lambda>d. (doc_id d, doc_text d)) (rev documents))) ann_file) (\<lambda>anns.
       let docs = (case limit of Some n \<Rightarrow> take n documents | None \<Rightarrow> documents)
       in bind_res warmup (\<lambda>_.
          bind_res (collect_inputs detect (annotations_by_id anns) docs) (\<lambda>inputs.
          bind_res (rscore inputs (Some (doc_categories docs))) serialise_report))))"

lemma map_of_fold_annotations:
  fixes anns :: "annotation list"
  shows "map_of (foldl (\<lambda>d a. AList.update (an_doc_id a) a d) d anns) k =
   (case find (\<lambda>a. an_doc_id a = k) (rev anns) of Some a \<Rightarrow> Some a | None \<Rightarrow> map_of d k)"
proof (induction anns arbitrary: d)
  case (Cons a anns)
  have "find P (xs @ [x]) = (case find P xs of Some y \<Rightarrow> Some y | None \<Rightarrow> if P x then Some x else None)" for P xs and x :: annotation
    by (induction xs) auto
  with Cons show ?case by (simp add: update_conv' split: option.split)
qed simp

text \<open>The last annotation of a document counts, as in the dictionary of the script.\<close>

lemma annotations_by_id_last:
  "map_of (annotations_by_id anns) k = find (\<lambda>a. an_doc_id a = k) (rev anns)"
  by (simp add: annotations_by_id_def map_of_fold_annotations split: option.split)

text \<open>What is scored: the annotated documents in their order, each with what the detector returned for its text.\<close>

lemma collect_inputs_annotated:
  "collect_inputs detect anns ds = Inr inputs \<Longrightarrow>
   map fst inputs = map doc_id (filter (\<lambda>d. map_of anns (doc_id d) \<noteq> None) ds)"
  by (induction ds arbitrary: inputs) (auto simp: bind_res_Inr_iff map_res_Inr_iff split: option.splits)

lemma collect_inputs_detected:
  "collect_inputs detect anns ds = Inr inputs \<Longrightarrow> (i, t, spans, preds) \<in> set inputs \<Longrightarrow>
   \<exists>d \<in> set ds. i = doc_id d \<and> t = doc_text d \<and> map_option an_spans (map_of anns i) = Some spans
     \<and> run_bench_detector detect t = Inr preds"
proof (induction ds arbitrary: inputs)
  case (Cons d ds)
  show ?case
  proof (cases "map_of anns (doc_id d)")
    case None
    then show ?thesis using Cons by auto
  next
    case (Some ann)
    with Cons.prems(1) obtain ps rest where p: "run_bench_detector detect (doc_text d) = Inr ps"
      and r: "collect_inputs detect anns ds = Inr rest" and i: "inputs = (doc_id d, doc_text d, an_spans ann, ps) # rest"
      by (auto simp: bind_res_Inr_iff map_res_Inr_iff)
    from Cons.prems(2) i consider "i = doc_id d" "t = doc_text d" "spans = an_spans ann" "preds = ps"
      | "(i, t, spans, preds) \<in> set rest" by auto
    then show ?thesis
    proof cases
      case 1
      then show ?thesis using p Some by simp
    next
      case 2
      then show ?thesis using Cons.IH [OF r] by auto
    qed
  qed
qed simp

section \<open>Latencies\<close>

text \<open>\<open>statistics.median\<close> and the exclusive method of \<open>statistics.quantiles\<close>, cut point \<open>i\<close> of \<open>n\<close>.\<close>

definition median :: "rat list \<Rightarrow> rat res" where
  "median data =
     (let xs = sort data; n = length xs
      in if n = 0 then Inl ValueError
         else if n mod 2 = 1 then Inr (xs ! (n div 2)) else Inr ((xs ! (n div 2 - 1) + xs ! (n div 2)) / 2))"

definition quantile_cut :: "nat \<Rightarrow> nat \<Rightarrow> rat list \<Rightarrow> rat res" where
  "quantile_cut n i data =
     (let xs = sort data; ld = length xs; m = ld + 1
      in if ld = 0 then Inl ValueError
         else if ld = 1 then Inr (xs ! 0)
         else
           (let j0 = i * m div n;
                j = (if j0 < 1 then 1 else if j0 > ld - 1 then ld - 1 else j0);
                delta = of_nat (i * m) - of_nat (j * n) :: rat
            in Inr ((xs ! (j - 1) * (of_nat n - delta) + xs ! j * delta) / of_nat n)))"

record latency_metrics =
  lm_documents :: nat
  lm_mean :: rat
  lm_p50 :: rat
  lm_p95 :: rat
  lm_peak_rss :: int

definition max_or_zero :: "rat list \<Rightarrow> rat" where
  "max_or_zero xs = (if xs = [] then 0 else Max (set xs))"

definition eval_metrics :: "rat list \<Rightarrow> int list \<Rightarrow> latency_metrics res" where
  "eval_metrics latencies rss =
     bind_res (if latencies \<noteq> [] then median latencies else Inr 0) (\<lambda>p50.
     map_res (\<lambda>p95. \<lparr>lm_documents = length latencies, lm_mean = (if latencies \<noteq> [] then mean latencies else 0),
         lm_p50 = p50, lm_p95 = p95, lm_peak_rss = (if rss = [] then 0 else Max (set rss))\<rparr>)
       (if length latencies \<ge> 20 then quantile_cut 20 19 latencies else Inr (max_or_zero latencies)))"

text \<open>A cut between two ranks is a value between them.\<close>

lemma cut_between:
  fixes a b x n :: rat
  assumes "a \<le> b" "0 \<le> x" "x \<le> n" "0 < n"
  shows "a \<le> (a * (n - x) + b * x) / n \<and> (a * (n - x) + b * x) / n \<le> b"
proof -
  have "a * x \<le> b * x" "a * (n - x) \<le> b * (n - x)" using assms by (simp_all add: mult_right_mono)
  then have "a * n \<le> a * (n - x) + b * x" "a * (n - x) + b * x \<le> b * n" by (simp_all add: algebra_simps)
  then show ?thesis using assms(4) by (simp add: pos_le_divide_eq pos_divide_le_eq)
qed

lemma sorted_within:
  assumes "k < length (xs :: rat list)"
  shows "Min (set xs) \<le> sort xs ! k \<and> sort xs ! k \<le> Max (set xs)"
proof -
  have "sort xs ! k \<in> set xs" using nth_mem [of k "sort xs"] assms by simp
  then show ?thesis by simp
qed

text \<open>
  The 95th percentile of the evaluation stays within the measured latencies: for fewer than
  twenty it is the maximum, and from twenty on the cut lies between two ranks.
\<close>

lemma p95_within:
  assumes "20 \<le> length xs"
  shows "\<exists>v. quantile_cut 20 19 xs = Inr v \<and> Min (set xs) \<le> v \<and> v \<le> Max (set xs)"
proof -
  let ?ld = "length xs"
  let ?j = "19 * (?ld + 1) div 20"
  have ne: "sort xs \<noteq> []" using assms by (metis length_sort list.size(3) not_numeral_le_zero)
  have "19 * (?ld + 1) = 20 * ?j + 19 * (?ld + 1) mod 20" "19 * (?ld + 1) mod 20 < 20" by simp_all
  then have d: "20 * ?j \<le> 19 * (?ld + 1)" "19 * (?ld + 1) < 20 * ?j + 20" by linarith+
  have "1 \<le> q \<and> q \<le> n - 1" if "20 * q \<le> 19 * (n + 1)" "19 * (n + 1) < 20 * q + 20" "20 \<le> n" for q n :: nat
    using that by auto
  from this [OF d assms] have j: "1 \<le> ?j" "?j \<le> ?ld - 1" by blast+
  let ?delta = "of_nat (19 * (?ld + 1)) - of_nat (?j * 20) :: rat"
  have "(of_nat (?j * 20) :: rat) \<le> of_nat (19 * (?ld + 1))" "(of_nat (19 * (?ld + 1)) :: rat) \<le> of_nat (?j * 20 + 20)"
    using d by (simp_all only: of_nat_le_iff)
  then have "0 \<le> ?delta" "?delta \<le> 20" by (simp_all only: of_nat_add of_nat_numeral)
  moreover have "sort xs ! (?j - 1) \<le> sort xs ! ?j" using j assms by (intro sorted_nth_mono) auto
  ultimately have v: "sort xs ! (?j - 1) \<le> (sort xs ! (?j - 1) * (20 - ?delta) + sort xs ! ?j * ?delta) / 20
      \<and> (sort xs ! (?j - 1) * (20 - ?delta) + sort xs ! ?j * ?delta) / 20 \<le> sort xs ! ?j"
    by (intro cut_between) simp_all
  have m: "Min (set xs) \<le> sort xs ! (?j - 1)" "sort xs ! ?j \<le> Max (set xs)"
    using sorted_within [of "?j - 1" xs] sorted_within [of ?j xs] j assms by linarith+
  have "quantile_cut 20 19 xs = Inr ((sort xs ! (?j - 1) * (20 - ?delta) + sort xs ! ?j * ?delta) / 20)"
    using j assms ne by (auto simp: quantile_cut_def Let_def)
  moreover note order_trans [OF m(1) conjunct1 [OF v]] order_trans [OF conjunct2 [OF v] m(2)]
  ultimately show ?thesis by blast
qed

text \<open>
  \<open>bench.py\<close> asks for the 99th of a hundred cuts for any number of calls: below 99 calls the
  cut is an extrapolation, so the reported latency can exceed everything that was measured.
\<close>

lemma p99_extrapolates: "quantile_cut 100 99 [1, 2] = Inr (297 / 100)"
  by code_simp

section \<open>\<open>bench.py\<close>\<close>

definition SAMPLE :: string where
  "SAMPLE = ''Reach Dr. Adam Wilson at adam@example.com or +1 415-555-2671. '' @
     ''His IBAN is GB00FAKE00000000000000 and card 4532 0151 1283 0366. '' @
     ''Server at 10.0.0.1 went down. SSN 000-00-0000.''"

function text_chunks :: "nat \<Rightarrow> nat \<Rightarrow> string list" where
  "text_chunks size_chars acc = (if acc < size_chars then SAMPLE # text_chunks size_chars (acc + length SAMPLE) else [])"
  by auto
termination
  by (relation "measure (\<lambda>(size_chars, acc). size_chars - acc)") (auto simp: SAMPLE_def)

declare text_chunks.simps [simp del]

fun join_spaces :: "string list \<Rightarrow> string" where
  "join_spaces [] = []"
| "join_spaces [x] = x"
| "join_spaces (x # y # xs) = x @ '' '' @ join_spaces (y # xs)"

definition make_text :: "nat \<Rightarrow> string" where
  "make_text size_chars = take size_chars (join_spaces (text_chunks size_chars 0))"

lemma join_spaces_length: "length (concat xs) \<le> length (join_spaces xs)"
  by (induction xs rule: join_spaces.induct) simp_all

lemma text_chunks_length: "size_chars \<le> acc + length (concat (text_chunks size_chars acc))"
proof (induction size_chars acc rule: text_chunks.induct)
  case (1 size_chars acc)
  then show ?case by (cases "acc < size_chars") (simp_all add: text_chunks.simps [of size_chars acc])
qed

text \<open>The text of the benchmark has exactly the length asked for.\<close>

lemma make_text_length: "length (make_text n) = n"
  using text_chunks_length [of n 0] join_spaces_length [of "text_chunks n 0"] by (simp add: make_text_def)

record bench_report =
  br_calls :: nat
  br_mean :: rat
  br_p50 :: rat
  br_p95 :: rat
  br_p99 :: rat
  br_throughput :: rat

text \<open>The report over the latencies of all calls, in milliseconds.\<close>

definition bench_summary :: "rat list \<Rightarrow> bench_report res" where
  "bench_summary latencies =
     bind_res (median latencies) (\<lambda>p50.
     bind_res (quantile_cut 20 19 latencies) (\<lambda>p95.
     map_res (\<lambda>p99.
       let elapsed = sum_list latencies / 1000
       in \<lparr>br_calls = length latencies, br_mean = mean latencies, br_p50 = p50, br_p95 = p95, br_p99 = p99,
           br_throughput = (if elapsed \<noteq> 0 then of_nat (length latencies) / elapsed else 0)\<rparr>)
       (quantile_cut 100 99 latencies)))"

text \<open>\<open>batch\<close> calls in each of the rounds; a detection that raises ends the benchmark.\<close>

fun timed_calls :: "detect_fun \<Rightarrow> string \<Rightarrow> rat list \<Rightarrow> rat list res" where
  "timed_calls detect t [] = Inr []"
| "timed_calls detect t (ms # rest) = bind_res (detect t (Some [])) (\<lambda>_. map_res ((#) ms) (timed_calls detect t rest))"

definition bench :: "detect_fun \<Rightarrow> string \<Rightarrow> nat \<Rightarrow> nat \<Rightarrow> (nat \<Rightarrow> rat) \<Rightarrow> bench_report res" where
  "bench detect t batch rounds latency =
     bind_res (timed_calls detect t (map latency [0..<rounds * batch])) bench_summary"

lemma timed_calls_length: "timed_calls detect t ms = Inr out \<Longrightarrow> out = ms"
  by (induction ms arbitrary: out) (auto simp: bind_res_Inr_iff map_res_Inr_iff)

text \<open>Every round is measured in full, and a benchmark without a call fails instead of reporting zeros.\<close>

lemma median_nonempty: "median xs = Inr v \<Longrightarrow> xs \<noteq> []"
  by (auto simp: median_def Let_def)

lemma bench_calls:
  assumes "bench detect t batch rounds latency = Inr rep"
  shows "br_calls rep = rounds * batch \<and> 0 < rounds * batch"
proof -
  obtain ls where ls: "timed_calls detect t (map latency [0..<rounds * batch]) = Inr ls" and s: "bench_summary ls = Inr rep"
    using assms by (auto simp: bench_def bind_res_Inr_iff)
  then have l: "length ls = rounds * batch" using timed_calls_length [OF ls] by simp
  from s obtain v where "median ls = Inr v" by (auto simp: bench_summary_def bind_res_Inr_iff)
  then have "ls \<noteq> []" by (rule median_nonempty)
  then have "0 < rounds * batch" unfolding l [symmetric] by simp
  moreover have "br_calls rep = length ls" using s by (auto simp: bench_summary_def bind_res_Inr_iff map_res_Inr_iff Let_def)
  ultimately show ?thesis using l by simp
qed

end
