(* ===== verification/ReleaseChecks.thy ===== *)
theory ReleaseChecks
  imports Snapshot Idempotency JobStore
begin

text \<open>
  Three scripts that decide whether a release is in order: \<open>scripts/validate_readiness.py\<close>
  (the rows of the readiness matrix), \<open>scripts/release_metadata.py\<close> (the provenance record)
  and \<open>scripts/verify_local_compose.py\<close> (the checks of a running deployment). Files, Git and
  HTTP are arguments. The lemmas show which matrices are accepted, that the models of a
  release are the recorded ones, and what a passed verification says.
\<close>

section \<open>The readiness matrix\<close>

definition STATUS_VALUES :: "string list" where
  "STATUS_VALUES = [''FAIL'', ''NOT APPLICABLE'', ''PASS'']"

definition has_prefix :: "string \<Rightarrow> string \<Rightarrow> bool" where
  "has_prefix p s \<longleftrightarrow> take (length p) s = p"

text \<open>
  \<open>ROW_PATTERN\<close>: two fields without a bar and a third one, each between \<open>"| "\<close> and \<open>" |"\<close>. A
  field without a bar can only end at the first bar, which a space precedes.
\<close>

definition bar_field :: "string \<Rightarrow> (string \<times> string) option" where
  "bar_field s =
     (let field = takeWhile (\<lambda>c. c \<noteq> CHR ''|'') s; rest = dropWhile (\<lambda>c. c \<noteq> CHR ''|'') s
      in if 2 \<le> length field \<and> last field = CHR '' '' \<and> has_prefix ''| '' rest
         then Some (butlast field, drop 2 rest) else None)"

definition row_match :: "string \<Rightarrow> (string \<times> string \<times> string) option" where
  "row_match line =
     (if \<not> has_prefix ''| '' line then None
      else
        (case bar_field (drop 2 line) of
           None \<Rightarrow> None
         | Some (requirement, rest) \<Rightarrow>
             (case bar_field rest of
                None \<Rightarrow> None
              | Some (status, rest') \<Rightarrow>
                  if 3 \<le> length rest' \<and> drop (length rest' - 2) rest' = '' |''
                  then Some (requirement, status, take (length rest' - 2) rest') else None)))"

type_synonym matrix_row = "string \<times> string \<times> string"

datatype matrix_error = Malformed_row nat | Invalid_status nat string | No_rows

definition is_row :: "string \<Rightarrow> bool" where
  "is_row line \<longleftrightarrow> has_prefix ''| '' line \<and> \<not> has_prefix ''| Requirement '' line \<and> \<not> has_prefix ''|---'' line"

fun read_rows :: "nat \<Rightarrow> string list \<Rightarrow> matrix_row list \<times> matrix_error list" where
  "read_rows n [] = ([], [])"
| "read_rows n (line # ls) =
     (let (rows, errors) = read_rows (n + 1) ls
      in if \<not> is_row line then (rows, errors)
         else
           (case row_match line of
              None \<Rightarrow> (rows, Malformed_row n # errors)
            | Some (requirement, status, evidence) \<Rightarrow>
                ((py_strip requirement, py_strip status, py_strip evidence) # rows,
                 (if List.member STATUS_VALUES (py_strip status) then [] else [Invalid_status n (py_strip status)]) @ errors)))"

record readiness =
  rs_status :: string
  rs_counts :: "(string \<times> nat) list"
  rs_rows :: "matrix_row list"

text \<open>\<open>main\<close>: the errors with exit code 1, or the summary with exit code 0.\<close>

definition validate_readiness :: "string \<Rightarrow> matrix_error list + readiness" where
  "validate_readiness content =
     (let (rows, errors) = read_rows 1 (split_lines [] content);
          errors = errors @ (if rows = [] then [No_rows] else [])
      in if errors \<noteq> [] then Inl errors
         else Inr \<lparr>rs_status = (if list_all (\<lambda>(_, status, _). status = ''PASS'' \<or> status = ''NOT APPLICABLE'') rows
                              then ''PASS'' else ''FAIL''),
                rs_counts = map (\<lambda>s. (s, length (filter (\<lambda>(_, status, _). status = s) rows))) STATUS_VALUES,
                rs_rows = rows\<rparr>)"

definition render_row :: "matrix_row \<Rightarrow> string" where
  "render_row r = ''| '' @ fst r @ '' | '' @ fst (snd r) @ '' | '' @ snd (snd r) @ '' |''"

definition field_clean :: "string \<Rightarrow> bool" where
  "field_clean s \<longleftrightarrow> s \<noteq> [] \<and> py_strip s = s \<and> list_all (\<lambda>c. c \<noteq> CHR ''|'') s"

lemma bar_field_rendered:
  assumes "s \<noteq> []" "list_all (\<lambda>c. c \<noteq> CHR ''|'') s"
  shows "bar_field (s @ '' | '' @ rest) = Some (s, rest)"
proof -
  have "takeWhile (\<lambda>c. c \<noteq> CHR ''|'') (s @ '' | '' @ rest) = s @ '' ''"
    "dropWhile (\<lambda>c. c \<noteq> CHR ''|'') (s @ '' | '' @ rest) = ''| '' @ rest"
    using assms(2) by (induction s) simp_all
  then show ?thesis using assms(1) by (simp add: bar_field_def has_prefix_def Suc_le_eq)
qed

text \<open>A row is read back field by field; only the evidence may contain bars.\<close>

lemma row_match_rendered:
  assumes "field_clean a" "field_clean b" "e \<noteq> []"
  shows "row_match (render_row (a, b, e)) = Some (a, b, e)"
proof -
  have l: "render_row (a, b, e) = ''| '' @ (a @ '' | '' @ (b @ '' | '' @ (e @ '' |'')))" by (simp add: render_row_def)
  have f: "bar_field (a @ '' | '' @ rest) = Some (a, rest)" "bar_field (b @ '' | '' @ rest) = Some (b, rest)" for rest
    by (rule bar_field_rendered; use assms(1,2) in \<open>simp add: field_clean_def\<close>)+
  have p: "has_prefix ''| '' (''| '' @ rest)" "drop 2 (''| '' @ rest) = rest" for rest by (simp_all add: has_prefix_def)
  have "row_match (''| '' @ rest) = (case bar_field rest of None \<Rightarrow> None | Some (requirement, rest) \<Rightarrow>
      (case bar_field rest of None \<Rightarrow> None | Some (status, rest') \<Rightarrow>
         if 3 \<le> length rest' \<and> drop (length rest' - 2) rest' = '' |''
         then Some (requirement, status, take (length rest' - 2) rest') else None))" for rest
    using p by (simp add: row_match_def)
  then show ?thesis using assms(3) unfolding l by (simp only: f option.case prod.case) (simp add: Suc_le_eq)
qed

text \<open>
  A matrix that is accepted has a row, every line of it that looks like a row was read, each
  with one of the three statuses; the counts add up to the rows, and the status is \<open>PASS\<close>
  exactly when none of them counts as \<open>FAIL\<close>.
\<close>

lemma read_rows_accepted:
  assumes "read_rows n ls = (rows, [])"
  shows "length rows = length (filter is_row ls)" "list_all (\<lambda>(_, status, _). List.member STATUS_VALUES status) rows"
  using assms
  by (induction n ls arbitrary: rows rule: read_rows.induct) (auto simp: Let_def split: prod.splits if_splits option.splits)

lemma status_count:
  "list_all (\<lambda>(_, status, _). List.member STATUS_VALUES status) rows \<Longrightarrow>
   sum_list (map snd (map (\<lambda>s. (s, length (filter (\<lambda>(_, status, _). status = s) rows))) STATUS_VALUES)) = length rows"
  by (induction rows) (auto simp: STATUS_VALUES_def split: prod.splits)

lemma accepted_matrix:
  assumes "validate_readiness content = Inr summary"
  shows "rs_rows summary \<noteq> [] \<and> length (rs_rows summary) = length (filter is_row (split_lines [] content))
    \<and> sum_list (map snd (rs_counts summary)) = length (rs_rows summary)
    \<and> (rs_status summary = ''PASS'' \<longleftrightarrow> dict_get (rs_counts summary) ''FAIL'' 0 = 0)"
proof -
  obtain rows where r: "read_rows 1 (split_lines [] content) = (rows, [])" and ne: "rows \<noteq> []"
    and s: "rs_rows summary = rows"
      "rs_counts summary = map (\<lambda>s. (s, length (filter (\<lambda>(_, status, _). status = s) rows))) STATUS_VALUES"
      "rs_status summary = (if list_all (\<lambda>(_, status, _). status = ''PASS'' \<or> status = ''NOT APPLICABLE'') rows then ''PASS'' else ''FAIL'')"
    using assms by (auto simp: validate_readiness_def Let_def split: prod.splits if_splits)
  note a = read_rows_accepted [OF r]
  have "list_all (\<lambda>(_, status, _). status = ''PASS'' \<or> status = ''NOT APPLICABLE'') rows \<longleftrightarrow>
      filter (\<lambda>(_, status, _). status = ''FAIL'') rows = []"
    using a(2) by (fastforce simp: list_all_iff filter_empty_conv STATUS_VALUES_def)
  then show ?thesis using ne a status_count [OF a(2)] s by (simp add: dict_get_def STATUS_VALUES_def)
qed

text \<open>The exit code does not tell: a matrix of failures is accepted.\<close>

lemma failing_matrix_accepted:
  "\<exists>summary. validate_readiness ''| a | FAIL | e |'' = Inr summary \<and> rs_status summary = ''FAIL''"
  by (simp add: validate_readiness_def is_row_def has_prefix_def row_match_def bar_field_def line_break_def STATUS_VALUES_def
      py_strip_def is_space_def)

section \<open>Release metadata\<close>

definition model_revisions :: "string \<Rightarrow> (string \<times> string \<times> string) list" where
  "model_revisions content =
     concat (map (\<lambda>line.
       case split_space [] line of
         [digest, repo_id, revision] \<Rightarrow> if \<not> has_prefix ''#'' line then [(digest, repo_id, revision)] else []
       | _ \<Rightarrow> []) (split_lines [] content))"

text \<open>The commit of the CI, or of the checkout, which may fail.\<close>

definition release_commit :: "string \<Rightarrow> string res \<Rightarrow> string res" where
  "release_commit github_sha rev_parse =
     (let configured = py_strip github_sha in if configured \<noteq> [] then Inr configured else map_res py_strip rev_parse)"

definition schema_versions :: "(string \<times> int) list" where
  "schema_versions = [(''audit_event'', AUDIT_SCHEMA_VERSION), (''cache_envelope'', CACHE_SCHEMA_VERSION), (''durable_job'', 1),
     (''idempotency'', 3)]"

record release_metadata =
  rm_project_version :: string
  rm_git_commit :: string
  rm_lock_sha256 :: string
  rm_manifest_sha256 :: string
  rm_models :: "(string \<times> string \<times> string) list"
  rm_schemas :: "(string \<times> int) list"
  rm_image :: "string option"

text \<open>\<open>sha\<close> digests the bytes of a file, here its text; an empty image digest is left out.\<close>

definition build_metadata ::
  "(string \<Rightarrow> string) \<Rightarrow> string res \<Rightarrow> string \<Rightarrow> string res \<Rightarrow> string res \<Rightarrow> string res \<Rightarrow> string option \<Rightarrow> release_metadata res" where
  "build_metadata sha version github_sha rev_parse lockfile manifest image_digest =
     bind_res version (\<lambda>v.
     bind_res (release_commit github_sha rev_parse) (\<lambda>commit.
     bind_res lockfile (\<lambda>lock.
     map_res (\<lambda>content.
       \<lparr>rm_project_version = v, rm_git_commit = commit, rm_lock_sha256 = sha lock, rm_manifest_sha256 = sha content,
        rm_models = model_revisions content, rm_schemas = schema_versions,
        rm_image = (case image_digest of Some (c # cs) \<Rightarrow> Some (c # cs) | _ \<Rightarrow> None)\<rparr>)
       manifest)))"

text \<open>The models of a release are the entries of the manifest as \<open>download_models.py\<close> writes them, in its order.\<close>

lemma model_revisions_recorded:
  assumes "list_all entry_ok es"
  shows "model_revisions (concat (map (\<lambda>l. l @ [newline]) (MANIFEST_HEADER @ map manifest_line es))) =
    map (\<lambda>((repo, revision), digest). (digest, repo, revision)) es"
proof -
  have "list_all clean_line (MANIFEST_HEADER @ map manifest_line es)"
    using header_clean assms manifest_line_clean(1) unfolding list_all_iff set_append set_map by blast
  note lines = split_lines_lines [OF this]
  have h: "concat (map (\<lambda>line. case split_space [] line of
         [digest, repo_id, revision] \<Rightarrow> if \<not> has_prefix ''#'' line then [(digest, repo_id, revision)] else []
       | _ \<Rightarrow> []) MANIFEST_HEADER) = []"
    by code_simp
  have e: "\<not> has_prefix ''#'' (manifest_line e)" if "e \<in> set es" for e
  proof -
    have "entry_ok e" using assms that by (simp add: list_all_iff)
    note c = manifest_line_clean [OF this]
    then have "manifest_line e \<noteq> []" by (auto simp: clean_line_def)
    then show ?thesis using c(2) by (cases "manifest_line e") (simp_all add: has_prefix_def)
  qed
  have "concat (map (\<lambda>line. case split_space [] line of
         [digest, repo_id, revision] \<Rightarrow> if \<not> has_prefix ''#'' line then [(digest, repo_id, revision)] else []
       | _ \<Rightarrow> []) (map manifest_line es)) = map (\<lambda>((repo, revision), digest). (digest, repo, revision)) es"
    using assms e by (induction es) (auto simp: split_manifest_line)
  with h show ?thesis unfolding model_revisions_def lines by simp
qed

section \<open>The checks of a local deployment\<close>

fun contains :: "string \<Rightarrow> string \<Rightarrow> bool" where
  "contains x [] \<longleftrightarrow> x = []"
| "contains x (c # cs) \<longleftrightarrow> has_prefix x (c # cs) \<or> contains x cs"

definition MARKER :: string where
  "MARKER = ''local-compose-verification@example.invalid''"

definition require :: "bool \<Rightarrow> unit res" where
  "require ok = (if ok then Inr () else Inl RuntimeError)"

text \<open>A request: only plain HTTP is tried, and the errors of the call become a \<open>RuntimeError\<close>; \<open>decode\<close> reads the body.\<close>

definition request_local :: "string \<Rightarrow> string res \<Rightarrow> (string \<Rightarrow> 'a res) \<Rightarrow> 'a res" where
  "request_local scheme answer decode =
     bind_res (require (scheme = ''http'')) (\<lambda>_.
       case answer of Inl e \<Rightarrow> Inl (if is_os_error e then RuntimeError else e) | Inr body \<Rightarrow> decode body)"

text \<open>\<open>x.get(k, default)\<close> on a decoded value.\<close>

definition field_or :: "json \<Rightarrow> string \<Rightarrow> json \<Rightarrow> json res" where
  "field_or v k d = (case v of JDict items \<Rightarrow> Inr (jget_or items k d) | _ \<Rightarrow> Inl AttributeError)"

definition assert_no_marker :: "(json \<Rightarrow> string) \<Rightarrow> json \<Rightarrow> unit res" where
  "assert_no_marker dumps v = require (\<not> contains MARKER (dumps v))"

text \<open>The polls of the job, at most as many as there are; the status must be hashable.\<close>

fun await_job :: "(json \<Rightarrow> string) \<Rightarrow> json res list \<Rightarrow> unit res" where
  "await_job dumps [] = Inl RuntimeError"
| "await_job dumps (reply # replies) =
     bind_res reply (\<lambda>status.
     bind_res (field_or status ''status'' JNull) (\<lambda>v.
       if v = JStr ''done'' then
         bind_res (assert_no_marker dumps status) (\<lambda>_. require (contains ''[EMAIL_'' (dumps status)))
       else
         (case v of
            JStr w \<Rightarrow> if List.member [''queued'', ''running''] w then await_job dumps replies else Inl RuntimeError
          | JList _ \<Rightarrow> Inl TypeError
          | JDict _ \<Rightarrow> Inl TypeError
          | _ \<Rightarrow> Inl RuntimeError)))"

text \<open>\<open>any\<close> over the targets of Prometheus, up to the first that is up.\<close>

fun target_up :: "json list \<Rightarrow> bool res" where
  "target_up [] = Inr False"
| "target_up (t # ts) =
     bind_res (field_or t ''labels'' (JDict [])) (\<lambda>labels.
     bind_res (field_or labels ''job'' JNull) (\<lambda>job.
       if job = JStr ''redax'' then
         bind_res (field_or t ''health'' JNull) (\<lambda>h. if h = JStr ''up'' then Inr True else target_up ts)
       else target_up ts))"

record local_replies =
  lr_health :: "json res"
  lr_ready :: "json res"
  lr_metrics :: "string res"
  lr_redact :: "json res"
  lr_job :: "json res"
  lr_polls :: "nat \<Rightarrow> json res"
  lr_targets :: "json res"
  lr_grafana :: "json res"
  lr_loki :: "string res"
  lr_tempo :: "string res"

definition check_api :: "(json \<Rightarrow> string) \<Rightarrow> (json \<Rightarrow> string) \<Rightarrow> local_replies \<Rightarrow> unit res" where
  "check_api dumps to_str r =
     bind_res (lr_health r) (\<lambda>health.
     bind_res (lr_ready r) (\<lambda>ready.
     bind_res (field_or health ''status'' JNull) (\<lambda>h.
     bind_res (if h \<noteq> JStr ''ok'' then Inl RuntimeError else field_or ready ''status'' JNull) (\<lambda>rd.
     bind_res (require (rd = JStr ''ready'')) (\<lambda>_.
     bind_res (lr_metrics r) (\<lambda>metrics.
     bind_res (require (contains ''redax_requests_total'' metrics)) (\<lambda>_.
     bind_res (lr_redact r) (\<lambda>response.
     bind_res (assert_no_marker dumps response) (\<lambda>_.
     bind_res (field_or response ''text'' (JStr [])) (\<lambda>t. require (contains ''[EMAIL_'' (to_str t))))))))))))"

definition check_job :: "(json \<Rightarrow> string) \<Rightarrow> local_replies \<Rightarrow> unit res" where
  "check_job dumps r =
     bind_res (lr_job r) (\<lambda>job.
     bind_res (field_or job ''id'' JNull) (\<lambda>i.
     bind_res (require (case i of JStr x \<Rightarrow> x \<noteq> [] | _ \<Rightarrow> False)) (\<lambda>_. await_job dumps (map (lr_polls r) [0..<45]))))"

definition check_observability :: "(json \<Rightarrow> string) \<Rightarrow> local_replies \<Rightarrow> unit res" where
  "check_observability dumps r =
     bind_res (lr_targets r) (\<lambda>prometheus.
     bind_res (field_or prometheus ''data'' (JDict [])) (\<lambda>d.
     bind_res (field_or d ''activeTargets'' (JList [])) (\<lambda>ts.
     bind_res (case ts of JList xs \<Rightarrow> target_up xs | _ \<Rightarrow> Inl TypeError) (\<lambda>up.
     bind_res (require up) (\<lambda>_.
     bind_res (lr_grafana r) (\<lambda>grafana.
     bind_res (field_or grafana ''database'' JNull) (\<lambda>db.
     bind_res (require (db = JStr ''ok'')) (\<lambda>_.
     bind_res (lr_loki r) (\<lambda>loki.
     bind_res (assert_no_marker dumps (JStr loki)) (\<lambda>_.
     bind_res (require (contains [CHR 0x22, CHR ''s'', CHR ''t'', CHR ''a'', CHR ''t'', CHR ''u'', CHR ''s'', CHR 0x22, CHR '':'',
       CHR 0x22, CHR ''s'', CHR ''u'', CHR ''c'', CHR ''c'', CHR ''e'', CHR ''s'', CHR ''s'', CHR 0x22] loki)) (\<lambda>_.
     bind_res (lr_tempo r) (\<lambda>tempo.
     bind_res (assert_no_marker dumps (JStr tempo)) (\<lambda>_.
       require (contains (CHR 0x22 # ''traces'' @ [CHR 0x22]) tempo))))))))))))))"

definition verify_local :: "(json \<Rightarrow> string) \<Rightarrow> (json \<Rightarrow> string) \<Rightarrow> string option \<Rightarrow> local_replies \<Rightarrow> unit res" where
  "verify_local dumps to_str api_key r =
     bind_res (require (case api_key of Some (c # cs) \<Rightarrow> True | _ \<Rightarrow> False)) (\<lambda>_.
     bind_res (check_api dumps to_str r) (\<lambda>_.
     bind_res (check_job dumps r) (\<lambda>_. check_observability dumps r)))"

lemma require_ok [simp]: "require ok = Inr u \<longleftrightarrow> ok"
  by (simp add: require_def)

lemma awaited_job_done:
  "await_job dumps replies = Inr () \<Longrightarrow>
   \<exists>status. Inr status \<in> set replies \<and> field_or status ''status'' JNull = Inr (JStr ''done'')
     \<and> \<not> contains MARKER (dumps status) \<and> contains ''[EMAIL_'' (dumps status)"
proof (induction dumps replies rule: await_job.induct)
  case (2 dumps reply replies)
  from 2(2) obtain status v where r: "reply = Inr status" and v: "field_or status ''status'' JNull = Inr v"
    by (auto simp: bind_res_Inr_iff)
  show ?case
  proof (cases "v = JStr ''done''")
    case True
    then show ?thesis using 2(2) r v by (auto simp: assert_no_marker_def bind_res_Inr_iff)
  next
    case False
    with 2(2) r v obtain w where w: "v = JStr w" "List.member [''queued'', ''running''] w" "await_job dumps replies = Inr ()"
      by (auto split: json.splits if_splits)
    from 2(1) [OF False w(1,2,3)] r show ?thesis by auto
  qed
qed simp

text \<open>
  A passed verification has seen a redacted answer and a finished job with a placeholder,
  and the synthetic address neither in them nor in the logs or the traces.
\<close>

lemma verified_deployment:
  assumes "verify_local dumps to_str api_key r = Inr ()"
  obtains response status i loki tempo where
    "lr_redact r = Inr response" "i < 45" "lr_polls r i = Inr status" "lr_loki r = Inr loki" "lr_tempo r = Inr tempo"
    "\<forall>v \<in> {response, status, JStr loki, JStr tempo}. \<not> contains MARKER (dumps v)"
    "field_or status ''status'' JNull = Inr (JStr ''done'')" "contains ''[EMAIL_'' (dumps status)"
proof -
  from assms have a: "check_api dumps to_str r = Inr ()" and j: "check_job dumps r = Inr ()"
    and o1: "check_observability dumps r = Inr ()"
    by (auto simp: verify_local_def bind_res_Inr_iff)
  from a obtain response where "lr_redact r = Inr response" "\<not> contains MARKER (dumps response)"
    by (auto simp: check_api_def bind_res_Inr_iff assert_no_marker_def)
  moreover from j have "await_job dumps (map (lr_polls r) [0..<45]) = Inr ()"
    by (auto simp: check_job_def bind_res_Inr_iff)
  from awaited_job_done [OF this] obtain status i where "i < 45" "lr_polls r i = Inr status"
    "field_or status ''status'' JNull = Inr (JStr ''done'')" "\<not> contains MARKER (dumps status)"
    "contains ''[EMAIL_'' (dumps status)" by (auto simp: image_iff) metis
  moreover from o1 obtain loki tempo where "lr_loki r = Inr loki" "lr_tempo r = Inr tempo"
    "\<not> contains MARKER (dumps (JStr loki))" "\<not> contains MARKER (dumps (JStr tempo))"
    by (auto simp: check_observability_def bind_res_Inr_iff assert_no_marker_def)
  ultimately show ?thesis by (intro that [of response i status loki tempo]) auto
qed

end
