(* ===== verification/Spec2Isabelle.thy ===== *)
theory Spec2Isabelle
  imports Policies Pipeline Access JobAccounting Idempotency AuditContract Errors RedactApi JobApi StreamApi BatchApi Startup RScoreReport Disagreement Corpus Snapshot Worker Executor AuditStop Spearman Evaluation Conversion RequestContext ModelAdapters Lifecycle LoadBench BenchRuns ReleaseChecks
begin

text \<open>
  A model of redax, a self-hosted service that redacts personal data (Python, under
  \<open>src/app\<close>), with the theorems that make it correct.

  \<^bold>\<open>The program.\<close> A detector finds spans in a text; a strategy replaces them, either one
  replacement for all (the single-shot path), or per field of a policy, or in the staged
  pipeline with its circuit breaker. Around this core stand the HTTP endpoints with
  authentication, rate limit, idempotency and cache, the durable jobs, whose state lives in
  Redis and is changed by Lua scripts, and the audit log, which every successful redaction
  has to pass before its result leaves the process.

  \<^bold>\<open>The theories and the code.\<close>
  \<^item> \<open>Prelude\<close>, \<open>Json\<close>: exceptions as values, Python's slices, \<open>sorted\<close>, \<open>bisect\<close> and
    dictionaries, decoded JSON and YAML values, decimal rendering.
  \<^item> \<open>Spans\<close>: \<open>redaction/apply.py\<close>, \<open>redaction/offsets.py\<close>, \<open>Span\<close>. Substitution equals
    a left-to-right splice, the inverse remap is right at every position, and overlaps are
    resolved by confidence.
  \<^item> \<open>RegexDetector\<close>, \<open>Detectors\<close>: \<open>app/inference\<close>. The rules as a matcher for the constructs
    of \<open>re\<close> that they use; the contract of a detector as a locale; the adapters of the two
    models around their library calls; several passes; the registry.
  \<^item> \<open>ModelAdapters\<close>: the objects of \<open>inference/gliner2.py\<close> and \<open>inference/openmed.py\<close>. Loading
    and warm-up; the semaphore and the worker threads of overlapping calls as a step
    relation; the fallback of a tokenizer without offsets.
  \<^item> \<open>Strategies\<close>, \<open>Redactor\<close>, \<open>Policies\<close>: \<open>redaction/strategy.py\<close>, \<open>relex.py\<close>, \<open>redactor.py\<close>,
    \<open>policies.py\<close> and \<open>api/policy.py\<close>. The output does not depend on what was detected,
    reported spans lie in the original text, and an accepted policy runs.
  \<^item> \<open>Breaker\<close>, \<open>SharedBreaker\<close>, \<open>Pipeline\<close>: \<open>redaction/circuit\<close>, \<open>redaction/stages\<close> and
    \<open>redaction/pipeline.py\<close>. The breaker with any interleaving of calls as a step relation;
    the Redis breaker refines the local one; the pipeline fails closed.
  \<^item> \<open>Redis\<close>: the server as a record of operations (a parameter, since it is not under
    \<open>src\<close>), its documented behaviour as the locale \<open>redis_laws\<close> over four views of the
    stored data, and a concrete server of association lists that has this behaviour.
  \<^item> \<open>Config\<close>, \<open>Access\<close>: \<open>config.py\<close>, \<open>auth.py\<close>, \<open>ratelimit.py\<close>. What a verified production
    configuration guarantees, who gets through, and the window of the rate limit.
  \<^item> \<open>JobStore\<close>, \<open>JobAccounting\<close>: \<open>jobs/store.py\<close>. The scripts command by command; the
    counters and the index agree with the jobs in flight after any run with any faults;
    admission respects both limits; a finished record is immutable.
  \<^item> \<open>Idempotency\<close>: \<open>api/idempotency.py\<close>, \<open>api/cache.py\<close>. The scripts refine an abstract
    lease with an expiry; a published response is replayed.
  \<^item> \<open>AuditLog\<close>, \<open>AuditContract\<close>, \<open>AuditStop\<close>: \<open>app/audit\<close>. Signatures, summaries, the bounded
    list in Redis, the file with rotation and retention; the contract on which the endpoints
    rely, as a locale that the required file log provides; what a stop flushes.
  \<^item> \<open>Errors\<close>, \<open>RedactApi\<close>, \<open>StreamApi\<close>, \<open>BatchApi\<close>, \<open>JobApi\<close>: \<open>errors.py\<close> and \<open>app/api\<close>, with
    \<open>jobs/payload.py\<close> and \<open>process_job\<close> of \<open>jobs/queue.py\<close>. Each handler as one function, with
    its guards in their order, composed of the functions above. Nothing is published before
    the audit record, a retry is answered with the stored body, a stream is marked complete
    only when it is audited, a job is visible to its owner only.
  \<^item> \<open>Middleware\<close>, \<open>Startup\<close>: \<open>middleware.py\<close>, \<open>main.py\<close>, \<open>state.py\<close>. The bounded body, the
    request slots as a step relation over any number of requests, what a started process
    runs, and how it stops.
  \<^item> \<open>RequestContext\<close>: the whole handler of \<open>middleware.py\<close> as one function, with what other
    requests do at its awaits as an argument. Each run is a path of the step relation of
    \<open>Middleware\<close>; the application runs only with a slot and reads exactly the body.
  \<^item> \<open>Observability\<close>, \<open>Lifecycle\<close>: \<open>app/observability\<close>, the rest of \<open>main.py\<close>, \<open>state.py\<close> and
    the pages of \<open>api/health.py\<close>. The registry of the metrics and the calls on it, tracing;
    the gauges and the recovery loop, the start and the stop as a whole, the admitted hosts.
  \<^item> \<open>Worker\<close>, \<open>Executor\<close>: the rest of \<open>jobs/queue.py\<close> and \<open>run_async\<close> of
    \<open>redaction/stages/model.py\<close>. The counter of overlapping attempts as a step relation, the
    heartbeat loop over rounds with faults, what the cleanup of a worker reaches; the states
    of the executor.
  \<^item> \<open>Lines\<close>, \<open>Snapshot\<close>: \<open>integrity.py\<close> and \<open>scripts/download_models.py\<close>. The hashed stream
    of a directory is read back uniquely, the manifest reads back what it records, and an
    accepted download has the recorded files.
  \<^item> \<open>BenchSpans\<close>, \<open>Components\<close>, \<open>Combinators\<close>, \<open>Fusion\<close>, \<open>RScore\<close>, \<open>ScoreDocument\<close>,
    \<open>RScoreReport\<close>, \<open>Disagreement\<close>, \<open>Spearman\<close>, \<open>Corpus\<close>: the benchmark library
    \<open>app/bench\<close>. Normalised annotations; the search for connected components under the locale \<open>link_graph\<close>, interpreted on its three graphs; the propagation as a
    least fixpoint; runs of positions as sets; when a document has the score 1; agreement
    statistics; what the JSONL writers write, the readers read.
  \<^item> \<open>Evaluation\<close>, \<open>Conversion\<close>: \<open>scripts/eval.py\<close> and \<open>scripts/convert_ai4privacy.py\<close>. Every
    span is counted once and F1 is the textbook ratio; the sample of a dataset keeps its
    bounds, and its documents are read back by the benchmark.
  \<^item> \<open>LoadBench\<close>, \<open>BenchRuns\<close>, \<open>ReleaseChecks\<close>: the scripts \<open>load_bench.py\<close>; \<open>run_bench.py\<close>,
    \<open>eval_detectors.py\<close>, \<open>bench.py\<close>; \<open>validate_readiness.py\<close>, \<open>release_metadata.py\<close>,
    \<open>verify_local_compose.py\<close>. A client takes a stream for complete only if the service has
    audited it; the counts of a run do not depend on the order of its requests; where
    quantiles leave the measured range; what an accepted matrix and a passed check say.

  \<^bold>\<open>Conventions.\<close> A function that may raise returns \<open>exn + 'a\<close>; an exception is its class,
  and an \<open>except\<close> clause a test on the class. State is passed explicitly; code that talks to
  Redis takes a fault for each of its calls, which may raise any exception before or after
  the command took effect. Times, fresh identifiers, HMAC, SHA-256, encryption and the texts
  of JSON documents are arguments. A deadline appears as a cancellation that leaves its
  block as \<open>TimeoutError\<close>. Integers are unbounded, as in Python; floats are rationals, so
  comparisons are exact and rounding errors are not modelled. Characters are code points
  below 256. Redis keys do not expire during a run, except in the lease of
  \<open>Idempotency\<close>, which has expiry steps. Log lines are left out except the access line.
  A metric is the call on the library that is made; the handlers leave these calls out, except the
  status label of the request metric where it can differ from the response.

  \<^bold>\<open>Recursion.\<close> Loops over data are structural. The closing loop of the audit script is
  bounded by the length of its list, which each round shortens; the scan for the oldest job
  has the bound of sixteen that the code has; the splitting of lines and of chunks
  has a termination proof, the latter because a chunk always takes at least one character.
  The heartbeat has no end of its own: its model runs over the rounds before it is cancelled.
  The loops of the benchmark end because a search marks a new node or shortens its stack, a
  round of the propagation adds an identifier of a finite set, and a scan moves its cursor.

  \<^bold>\<open>Not modelled.\<close> Library code (the regular-expression engine beyond the rules, the neural
  models, FastAPI, Starlette, ARQ, redis-py, cryptography, YAML and JSON parsing) is a
  parameter or absent. Of the service itself: the configuration of the logging library. Of
  the scripts: \<open>create_m11_issues.py\<close>, which is the text of an issue tracker, the export and
  the quantisation of models, which are calls of the ONNX libraries, and the reading of command lines.
  The site and the browser demo are not part of the service.
\<close>

end
